(* ===== verification/Prelude.thy ===== *)
theory Prelude
  imports Main "HOL-Library.Word" "HOL-Library.AList"
begin

text \<open>
  Shared vocabulary of the development.

  \<^item> Rust strings. A \<^typ>\<open>string\<close> stands for a Rust \<open>str\<close> whose scalar values lie in
    \<open>U+0000 .. U+00FF\<close>: one HOL character per Rust \<open>char\<close>. White space and lower-casing
    follow the Unicode properties on that block. The functions below are the part of
    \<open>core::str\<close> the modelled sources call.
  \<^item> JSON values (\<open>serde_json::Value\<close>) with the three accessors the sources call.
  \<^item> Lexical paths (\<open>std::path\<close> on Unix): \<open>parent\<close>, \<open>join\<close>, \<open>components\<close>,
    \<open>starts_with\<close>.
  \<^item> Hash maps as association lists with distinct keys; the list order is the map's iteration
    order, which Rust leaves unspecified, so every theorem holds for each order.

  The collections \<open>rust_str\<close> and \<open>gate_simps\<close> carry the rewriting facts that the
  component theories share.
\<close>

named_theorems rust_str \<open>laws of the string functions\<close>
named_theorems gate_simps \<open>equations of the policy decision functions\<close>
named_theorems inv_intros \<open>invariant preservation facts\<close>

section \<open>Rust strings\<close>

type_synonym u32 = "32 word"
type_synonym u64 = "64 word"

definition is_whitespace :: "char \<Rightarrow> bool" where
  "is_whitespace c \<longleftrightarrow>
     c \<in> {CHR 0x09, CHR 0x0A, CHR 0x0B, CHR 0x0C, CHR 0x0D, CHR 0x20, CHR 0x85, CHR 0xA0}"

definition trim_start :: "string \<Rightarrow> string" where
  "trim_start s = dropWhile is_whitespace s"

definition trim_end :: "string \<Rightarrow> string" where
  "trim_end s = rev (dropWhile is_whitespace (rev s))"

definition trim :: "string \<Rightarrow> string" where
  "trim s = trim_end (trim_start s)"

definition starts_with :: "string \<Rightarrow> string \<Rightarrow> bool" where
  "starts_with s p \<longleftrightarrow> take (length p) s = p"

definition ends_with :: "string \<Rightarrow> string \<Rightarrow> bool" where
  "ends_with s p \<longleftrightarrow> length p \<le> length s \<and> drop (length s - length p) s = p"

definition strip_prefix :: "string \<Rightarrow> string \<Rightarrow> string option" where
  "strip_prefix p s = (if starts_with s p then Some (drop (length p) s) else None)"

definition strip_suffix :: "string \<Rightarrow> string \<Rightarrow> string option" where
  "strip_suffix p s =
     (if ends_with s p then Some (take (length s - length p) s) else None)"

fun str_contains :: "string \<Rightarrow> string \<Rightarrow> bool" where
  "str_contains [] p = (p = [])"
| "str_contains (c # s) p = (starts_with (c # s) p \<or> str_contains s p)"

text \<open>\<open>str::find\<close>: the index of the first occurrence.\<close>

fun find_str :: "string \<Rightarrow> string \<Rightarrow> nat option" where
  "find_str [] p = (if p = [] then Some 0 else None)"
| "find_str (c # s) p =
     (if starts_with (c # s) p then Some 0 else map_option Suc (find_str s p))"

text \<open>\<open>str::split_once(':')\<close>: the parts around the first separator.\<close>

fun split_once :: "char \<Rightarrow> string \<Rightarrow> (string \<times> string) option" where
  "split_once c [] = None"
| "split_once c (x # xs) =
     (if x = c then Some ([], xs)
      else map_option (\<lambda>(a, b). (x # a, b)) (split_once c xs))"

text \<open>\<open>str::split(c)\<close>: always at least one part.\<close>

fun split_char :: "char \<Rightarrow> string \<Rightarrow> string list" where
  "split_char c [] = [[]]"
| "split_char c (x # xs) =
     (if x = c then [] # split_char c xs
      else case split_char c xs of [] \<Rightarrow> [[x]] | p # ps \<Rightarrow> (x # p) # ps)"

text \<open>\<open>str::split_whitespace\<close>: the maximal runs of non-space characters.\<close>

fun split_ws :: "string \<Rightarrow> string \<Rightarrow> string list" where
  "split_ws acc [] = (if acc = [] then [] else [acc])"
| "split_ws acc (c # cs) =
     (if is_whitespace c then (if acc = [] then split_ws [] cs else acc # split_ws [] cs)
      else split_ws (acc @ [c]) cs)"

definition quoted :: "string \<Rightarrow> string" where
  "quoted s = [CHR 0x27] @ s @ [CHR 0x27]"

definition split_whitespace :: "string \<Rightarrow> string list" where
  "split_whitespace s = split_ws [] s"

text \<open>\<open>char::to_lowercase\<close> on the block: ASCII letters and \<open>U+00C0 .. U+00DE\<close> but
  the multiplication sign.\<close>

definition lower_char :: "char \<Rightarrow> char" where
  "lower_char c =
     (let n = (of_char c :: nat)
      in if (65 \<le> n \<and> n \<le> 90) \<or> (192 \<le> n \<and> n \<le> 222 \<and> n \<noteq> 215) then char_of (n + 32) else c)"

definition to_lowercase :: "string \<Rightarrow> string" where
  "to_lowercase s = map lower_char s"

definition join_with :: "string \<Rightarrow> string list \<Rightarrow> string" where
  "join_with sep xs = (case xs of [] \<Rightarrow> [] | y # ys \<Rightarrow> y @ concat (map (\<lambda>z. sep @ z) ys))"

text \<open>Decimal printing of a \<open>usize\<close>.\<close>

fun show_nat :: "nat \<Rightarrow> string" where
  "show_nat n = (if n < 10 then [char_of (48 + n)] else show_nat (n div 10) @ [char_of (48 + n mod 10)])"

declare show_nat.simps [simp del]

text \<open>\<open>str::parse\<close> of decimal digits, its value.\<close>

fun digits_value :: "string \<Rightarrow> nat" where
  "digits_value s = foldl (\<lambda>n c. n * 10 + (of_char c - 48)) 0 s"

subsection \<open>Laws\<close>

lemma starts_with_iff [rust_str]: "starts_with s p \<longleftrightarrow> (\<exists>r. s = p @ r)"
  unfolding starts_with_def
  by (metis append_eq_conv_conj append_take_drop_id)

lemma ends_with_iff [rust_str]: "ends_with s p \<longleftrightarrow> (\<exists>r. s = r @ p)"
proof
  assume "ends_with s p"
  then have "s = take (length s - length p) s @ p"
    unfolding ends_with_def by (metis append_take_drop_id)
  then show "\<exists>r. s = r @ p" ..
qed (auto simp: ends_with_def)

lemma starts_with_Nil [simp]: "starts_with s []"
  by (simp add: starts_with_def)

lemma starts_with_append [simp]: "starts_with (p @ r) p"
  by (simp add: starts_with_def)

lemma starts_with_refl [simp]: "starts_with s s"
  by (simp add: starts_with_def)

lemma str_contains_iff [rust_str]: "str_contains s p \<longleftrightarrow> (\<exists>a b. s = a @ p @ b)"
proof (induction s)
  case Nil
  then show ?case by simp
next
  case (Cons c s)
  have "(\<exists>a b. c # s = a @ p @ b) \<longleftrightarrow> (\<exists>b. c # s = p @ b) \<or> (\<exists>a b. s = a @ p @ b)"
    by (metis append_Cons append_Nil list.exhaust list.inject)
  then show ?case using Cons.IH by (simp add: starts_with_iff)
qed

lemma find_str_Some_iff: "(\<exists>n. find_str s p = Some n) \<longleftrightarrow> str_contains s p"
  by (induction s) auto

lemma find_str_split: "find_str s p = Some n \<Longrightarrow> \<exists>b. s = take n s @ p @ b \<and> n \<le> length s"
proof (induction s arbitrary: n)
  case Nil
  then show ?case by (auto split: if_splits)
next
  case (Cons c s)
  then show ?case by (auto simp: starts_with_iff split: if_splits)
qed

lemma split_once_Some [rust_str]:
  "split_once c s = Some (a, b) \<longleftrightarrow> s = a @ c # b \<and> c \<notin> set a"
proof (induction s arbitrary: a)
  case Nil
  then show ?case by simp
next
  case (Cons x xs)
  show ?case
  proof (cases "x = c")
    case True
    then show ?thesis by (cases a) auto
  next
    case False
    then have "split_once c (x # xs) = Some (a, b) \<longleftrightarrow>
        (\<exists>a'. a = x # a' \<and> split_once c xs = Some (a', b))"
      by auto
    with Cons.IH False show ?thesis by (cases a) auto
  qed
qed

lemma split_once_None [rust_str]: "split_once c s = None \<longleftrightarrow> c \<notin> set s"
  by (induction s) auto

lemma split_char_not_Nil [simp]: "split_char c s \<noteq> []"
  by (cases s) (auto split: list.splits)

lemma split_char_no_sep: "p \<in> set (split_char c s) \<Longrightarrow> c \<notin> set p"
proof (induction s arbitrary: p)
  case Nil
  then show ?case by simp
next
  case (Cons x xs)
  obtain q qs where "split_char c xs = q # qs"
    by (cases "split_char c xs") auto
  with Cons show ?case by (auto split: if_splits)
qed

lemma split_char_absent: "c \<notin> set s \<Longrightarrow> split_char c s = [s]"
  by (induction s) auto

lemma split_char_join: "join_with [c] (split_char c s) = s"
proof (induction s)
  case Nil
  then show ?case by (simp add: join_with_def)
next
  case (Cons x xs)
  obtain q qs where "split_char c xs = q # qs"
    by (cases "split_char c xs") auto
  with Cons show ?case by (auto simp: join_with_def)
qed

lemma trim_start_suffix: "\<exists>w. s = w @ trim_start s \<and> (\<forall>c \<in> set w. is_whitespace c)"
  unfolding trim_start_def
  by (metis set_takeWhileD takeWhile_dropWhile_id)

lemma trim_end_prefix: "\<exists>w. s = trim_end s @ w \<and> (\<forall>c \<in> set w. is_whitespace c)"
proof -
  have "rev s = takeWhile is_whitespace (rev s) @ dropWhile is_whitespace (rev s)" by simp
  then have "s = rev (dropWhile is_whitespace (rev s)) @ rev (takeWhile is_whitespace (rev s))"
    by (metis rev_append rev_rev_ident)
  then show ?thesis
    unfolding trim_end_def by (metis set_rev set_takeWhileD)
qed

lemma trim_Nil [simp]: "trim [] = []"
  by (simp add: trim_def trim_start_def trim_end_def)

lemma trim_set: "set (trim s) \<subseteq> set s"
  unfolding trim_def trim_start_def trim_end_def
  by (metis set_dropWhileD set_rev subsetI)

lemma trim_eq_Nil_iff: "trim s = [] \<longleftrightarrow> (\<forall>c \<in> set s. is_whitespace c)"
proof -
  have "trim s = [] \<longleftrightarrow> (\<forall>c \<in> set (dropWhile is_whitespace s). is_whitespace c)"
    by (simp add: trim_def trim_end_def trim_start_def)
  also have "\<dots> \<longleftrightarrow> (\<forall>c \<in> set s. is_whitespace c)"
    by (metis dropWhile_eq_Nil_conv hd_dropWhile hd_in_set list.set_intros(1) list.exhaust
        set_dropWhileD)
  finally show ?thesis .
qed

lemma trim_padded:
  assumes "\<forall>c \<in> set a. is_whitespace c" and "\<forall>c \<in> set b. is_whitespace c"
    and "s \<noteq> []" and "\<not> is_whitespace (hd s)" and "\<not> is_whitespace (last s)"
  shows "trim (a @ s @ b) = s"
proof -
  have "trim_start (a @ s @ b) = s @ b"
    using assms by (cases s) (auto simp: trim_start_def dropWhile_append2)
  moreover have "trim_end (s @ b) = s"
  proof (cases s rule: rev_cases)
    case (snoc ys y)
    have "dropWhile is_whitespace (rev b @ y # rev ys) = y # rev ys"
      using assms(2,5) snoc by (subst dropWhile_append2) auto
    then show ?thesis using snoc by (simp add: trim_end_def)
  qed (use assms(3) in simp)
  ultimately show ?thesis by (simp add: trim_def)
qed

lemma in_set_map_filter: "y \<in> set (List.map_filter f xs) \<longleftrightarrow> (\<exists>x \<in> set xs. f x = Some y)"
  by (force simp: List.map_filter_def)

lemma show_nat_digits: "c \<in> set (show_nat n) \<Longrightarrow> (of_char c :: nat) \<in> {48..57}"
proof (induction n rule: show_nat.induct)
  case (1 n)
  have d: "(of_char (char_of (48 + m) :: char) :: nat) = 48 + m" if "m < 10" for m :: nat using that by simp
  show ?case
  proof (cases "n < 10")
    case True
    then show ?thesis using 1(2) d [of n] by (simp add: show_nat.simps [of n])
  next
    case False
    then have "c \<in> set (show_nat (n div 10)) \<or> c = char_of (48 + n mod 10)"
      using 1(2) by (auto simp: show_nat.simps [of n])
    then show ?thesis using 1(1) [OF False] d [of "n mod 10"] by auto
  qed
qed

lemma show_nat_value: "digits_value (show_nat n) = n"
proof (induction n rule: show_nat.induct)
  case (1 n)
  show ?case using 1 by (cases "n < 10") (simp_all add: show_nat.simps [of n])
qed

lemma show_nat_inj: "show_nat m = show_nat n \<longleftrightarrow> m = n"
  using show_nat_value by metis

section \<open>Bytes\<close>

text \<open>Lengths and positions in bytes of the UTF-8 encoding: a character below \<open>U+0080\<close> takes one byte, the others
  of the block two. A slice off a character boundary panics.\<close>

definition utf8_len :: "char \<Rightarrow> nat" where
  "utf8_len c = (if (of_char c :: nat) < 128 then 1 else 2)"

definition byte_len :: "string \<Rightarrow> nat" where
  "byte_len s = sum_list (map utf8_len s)"

fun is_char_boundary :: "string \<Rightarrow> nat \<Rightarrow> bool" where
  "is_char_boundary [] i = (i = 0)"
| "is_char_boundary (c # s) i = (i = 0 \<or> (utf8_len c \<le> i \<and> is_char_boundary s (i - utf8_len c)))"

fun byte_take :: "nat \<Rightarrow> string \<Rightarrow> string" where
  "byte_take i [] = []"
| "byte_take i (c # s) = (if utf8_len c \<le> i then c # byte_take (i - utf8_len c) s else [])"

fun byte_drop :: "nat \<Rightarrow> string \<Rightarrow> string" where
  "byte_drop i [] = []"
| "byte_drop i (c # s) = (if utf8_len c \<le> i then byte_drop (i - utf8_len c) s else c # s)"

section \<open>JSON values\<close>

text \<open>\<open>serde_json::Value\<close>. Numbers keep their text: no modelled code computes with one.\<close>

datatype json =
    JNull
  | JBool bool
  | JNumber string
  | JString string
  | JArray "json list"
  | JObject "(string \<times> json) list"

fun json_get :: "string \<Rightarrow> json \<Rightarrow> json option" where
  "json_get k (JObject fields) = map_of fields k"
| "json_get k _ = None"

fun as_str :: "json \<Rightarrow> string option" where
  "as_str (JString s) = Some s"
| "as_str _ = None"

fun as_bool :: "json \<Rightarrow> bool option" where
  "as_bool (JBool b) = Some b"
| "as_bool _ = None"

definition get_str :: "string \<Rightarrow> json \<Rightarrow> string option" where
  "get_str k v = Option.bind (json_get k v) as_str"

section \<open>Lexical paths on Unix\<close>

definition has_root :: "string \<Rightarrow> bool" where
  "has_root s \<longleftrightarrow> starts_with s ''/''"

text \<open>A leading \<open>.\<close> that is a component of its own.\<close>

definition include_cur_dir :: "string \<Rightarrow> bool" where
  "include_cur_dir s \<longleftrightarrow> s = ''.'' \<or> starts_with s ''./''"

definition len_before_body :: "string \<Rightarrow> nat" where
  "len_before_body s = (if has_root s then 1 else if include_cur_dir s then 1 else 0)"

definition skip_comp :: "string \<Rightarrow> bool" where
  "skip_comp c \<longleftrightarrow> c = [] \<or> c = ''.''"

definition trim_back :: "string list \<Rightarrow> string list" where
  "trim_back cs = rev (dropWhile skip_comp (rev cs))"

text \<open>\<open>Path::parent\<close>, displayed.\<close>

definition path_parent :: "string \<Rightarrow> string option" where
  "path_parent s =
     (let lb = len_before_body s;
          cs = trim_back (split_char (CHR 0x2F) (drop lb s))
      in if cs = [] then (if has_root s then None else if include_cur_dir s then Some [] else None)
         else Some (take lb s @ join_with ''/'' (trim_back (butlast cs))))"

text \<open>\<open>Path::components\<close>: the root or a leading \<open>.\<close>, then the non-empty parts that are
  not \<open>.\<close>; a \<open>..\<close> is kept.\<close>

definition path_components :: "string \<Rightarrow> string list" where
  "path_components s =
     take (len_before_body s) [take (len_before_body s) s]
     @ filter (\<lambda>c. \<not> skip_comp c) (split_char (CHR 0x2F) (drop (len_before_body s) s))"

definition path_starts_with :: "string \<Rightarrow> string \<Rightarrow> bool" where
  "path_starts_with s base \<longleftrightarrow>
     take (length (path_components base)) (path_components s) = path_components base"

definition path_join :: "string \<Rightarrow> string \<Rightarrow> string" where
  "path_join base p =
     (if has_root p then p
      else if base = [] \<or> last base = CHR 0x2F then base @ p
      else base @ ''/'' @ p)"

section \<open>Hash maps as association lists\<close>

abbreviation hm_keys :: "('k \<times> 'v) list \<Rightarrow> 'k set" where
  "hm_keys m \<equiv> fst ` set m"

abbreviation hm_ok :: "('k \<times> 'v) list \<Rightarrow> bool" where
  "hm_ok m \<equiv> distinct (map fst m)"

text \<open>\<open>HashMap::retain\<close>.\<close>

definition hm_retain :: "('k \<Rightarrow> 'v \<Rightarrow> bool) \<Rightarrow> ('k \<times> 'v) list \<Rightarrow> ('k \<times> 'v) list" where
  "hm_retain P m = filter (\<lambda>(k, v). P k v) m"

lemma hm_ok_update [simp, inv_intros]: "hm_ok m \<Longrightarrow> hm_ok (AList.update k v m)"
  by (rule distinct_update)

lemma hm_ok_delete [simp, inv_intros]: "hm_ok m \<Longrightarrow> hm_ok (AList.delete k m)"
  by (rule distinct_delete)

lemma hm_ok_retain [simp, inv_intros]: "hm_ok m \<Longrightarrow> hm_ok (hm_retain P m)"
  unfolding hm_retain_def by (rule distinct_map_filter)

lemma map_of_update [simp]: "map_of (AList.update k v m) = (map_of m)(k \<mapsto> v)"
  by (rule update_conv')

lemma map_of_delete [simp]: "map_of (AList.delete k m) = (map_of m)(k := None)"
  by (rule delete_conv')

lemma length_update_le: "length (AList.update k v m) \<le> Suc (length m)"
  by (induction m) auto

lemma hm_key_in: "(k, v) \<in> set m \<Longrightarrow> k \<in> hm_keys m"
  by force

lemma hm_keys_delete: "hm_keys (AList.delete k m) = hm_keys m - {k}"
  by (auto simp: AList.delete_eq)

lemma map_of_retain:
  "hm_ok m \<Longrightarrow> map_of (hm_retain P m) k =
     (case map_of m k of None \<Rightarrow> None | Some v \<Rightarrow> if P k v then Some v else None)"
proof (induction m)
  case Nil
  then show ?case by (simp add: hm_retain_def)
next
  case (Cons a m)
  then have "map_of m (fst a) = None" by (simp add: map_of_eq_None_iff)
  with Cons show ?case by (cases a) (auto simp: hm_retain_def)
qed

section \<open>Histories of grants\<close>

text \<open>What a key holds after grants and withdrawals: the last event of the key decides.\<close>

datatype ('k, 'v) grant_event = Granted 'k 'v | Withdrawn 'k

definition held :: "('k, 'v) grant_event list \<Rightarrow> 'k \<Rightarrow> 'v option" where
  "held es k =
     fold (\<lambda>e t. case e of Granted k' v \<Rightarrow> if k' = k then Some v else t
                       | Withdrawn k' \<Rightarrow> if k' = k then None else t) es None"

lemma held_Nil [simp]: "held [] k = None"
  by (simp add: held_def)

lemma held_snoc [simp]:
  "held (es @ [Granted k' v]) k = (if k' = k then Some v else held es k)"
  "held (es @ [Withdrawn k']) k = (if k' = k then None else held es k)"
  by (simp_all add: held_def)

end
