(* ===== verification/Sliding_Window.thy ===== *)
theory Sliding_Window
  imports Prelude
begin

text \<open>
  The sliding-window rate limiter with lockout (\<open>security/sliding_window.rs\<close>).

  Instants and durations are nanoseconds as integers; an operation gets the instants it reads from the
  clock as arguments, in the order it reads them. The two queues of time stamps, requests and failures,
  are cleaned by the same loop: the locale \<open>expiring_queue\<close> states what the cleaning promises and
  is interpreted on both.
\<close>

section \<open>Data\<close>

definition secs :: "int \<Rightarrow> int" where
  "secs n = n * 1000000000"

definition as_secs :: "int \<Rightarrow> int" where
  "as_secs d = d div 1000000000"

text \<open>\<open>Instant::duration_since\<close> and \<open>Duration::saturating_sub\<close>: zero when negative.\<close>

definition duration_since :: "int \<Rightarrow> int \<Rightarrow> int" where
  "duration_since a b = max 0 (a - b)"

record rate_limit_key =
  rk_user_id :: string
  rk_endpoint :: string

record lockout_config =
  lc_enabled :: bool
  lc_max_failures :: u32
  lc_window_secs :: int
  lc_lockout_secs :: int

definition default_lockout_config :: lockout_config where
  "default_lockout_config =
     \<lparr>lc_enabled = True, lc_max_failures = 5, lc_window_secs = 300, lc_lockout_secs = 900\<rparr>"

record attempt_record =
  ar_timestamp_secs :: int
  ar_allowed :: bool
  ar_reason :: "string option"

record attempt_log =
  al_user_id :: string
  al_endpoint :: string
  al_attempts :: "attempt_record list"

record lockout_state =
  ls_failures :: "int list"
  ls_locked_until :: "int option"
  ls_window_size :: int
  ls_max_failures :: u32
  ls_lockout_duration :: int

record attempt_entry =
  ae_timestamp :: int
  ae_allowed :: bool
  ae_reason :: "string option"

record window_state =
  ws_requests :: "int list"
  ws_window_size :: int
  ws_max_requests :: u32
  ws_attempts :: "attempt_entry list"
  ws_max_attempt_history :: nat

section \<open>Lockout\<close>

text \<open>The cleaning loop: pop the front while it is older than the start of the window.\<close>

fun pop_older :: "int \<Rightarrow> int list \<Rightarrow> int list" where
  "pop_older window_start [] = []"
| "pop_older window_start (front # rest) =
     (if front < window_start then pop_older window_start rest else front # rest)"

definition new_lockout_state :: "lockout_config \<Rightarrow> lockout_state" where
  "new_lockout_state c =
     \<lparr>ls_failures = [], ls_locked_until = None, ls_window_size = secs (lc_window_secs c),
      ls_max_failures = lc_max_failures c, ls_lockout_duration = secs (lc_lockout_secs c)\<rparr>"

definition clean_old_failures :: "int \<Rightarrow> lockout_state \<Rightarrow> lockout_state" where
  "clean_old_failures now s = s\<lparr>ls_failures := pop_older (now - ls_window_size s) (ls_failures s)\<rparr>"

definition is_locked_out :: "int \<Rightarrow> lockout_state \<Rightarrow> bool \<times> lockout_state" where
  "is_locked_out now s =
     (case ls_locked_until s of
        Some until \<Rightarrow> (if now < until then (True, s) else (False, s\<lparr>ls_locked_until := None\<rparr>))
      | None \<Rightarrow> (False, s))"

definition lockout_record_failure :: "int \<Rightarrow> lockout_state \<Rightarrow> bool \<times> lockout_state" where
  "lockout_record_failure now s =
     (let s1 = clean_old_failures now s;
          s2 = s1\<lparr>ls_failures := ls_failures s1 @ [now]\<rparr>
      in if unat (ls_max_failures s2) \<le> length (ls_failures s2)
         then (True, s2\<lparr>ls_locked_until := Some (now + ls_lockout_duration s2)\<rparr>)
         else (False, s2))"

datatype lockout_check = Lock_Allowed | LockedOut int

section \<open>Window\<close>

definition new_window_state :: "int \<Rightarrow> u32 \<Rightarrow> nat \<Rightarrow> window_state" where
  "new_window_state w m h =
     \<lparr>ws_requests = [], ws_window_size = w, ws_max_requests = m, ws_attempts = [],
      ws_max_attempt_history = h\<rparr>"

definition clean_old_entries :: "int \<Rightarrow> window_state \<Rightarrow> window_state" where
  "clean_old_entries now s = s\<lparr>ws_requests := pop_older (now - ws_window_size s) (ws_requests s)\<rparr>"

definition window_check :: "int \<Rightarrow> window_state \<Rightarrow> bool \<times> window_state" where
  "window_check now s =
     (let s' = clean_old_entries now s in (length (ws_requests s') < unat (ws_max_requests s'), s'))"

definition window_record :: "int \<Rightarrow> window_state \<Rightarrow> window_state" where
  "window_record now s = s\<lparr>ws_requests := ws_requests s @ [now]\<rparr>"

definition window_count_now :: "int \<Rightarrow> window_state \<Rightarrow> nat \<times> window_state" where
  "window_count_now now s = (let s' = clean_old_entries now s in (length (ws_requests s'), s'))"

definition saturating_sub32 :: "u32 \<Rightarrow> u32 \<Rightarrow> u32" where
  "saturating_sub32 a b = (if b \<le> a then a - b else 0)"

definition window_remaining :: "int \<Rightarrow> window_state \<Rightarrow> u32 \<times> window_state" where
  "window_remaining now s =
     (let s' = clean_old_entries now s
      in (saturating_sub32 (ws_max_requests s') (of_nat (length (ws_requests s'))), s'))"

definition reset_after :: "int \<Rightarrow> window_state \<Rightarrow> int" where
  "reset_after now s =
     (case ws_requests s of
        front # _ \<Rightarrow>
          (if now - ws_window_size s < front
           then max 0 (ws_window_size s - duration_since now front) else 0)
      | [] \<Rightarrow> 0)"

section \<open>The limiter\<close>

record limiter =
  lm_windows :: "(rate_limit_key \<times> window_state) list"
  lm_default_window_size :: int
  lm_default_max_requests :: u32
  lm_lockouts :: "(rate_limit_key \<times> lockout_state) list"
  lm_lockout_config :: "lockout_config option"
  lm_max_attempt_history :: nat

definition new_limiter :: "int \<Rightarrow> u32 \<Rightarrow> lockout_config option \<Rightarrow> limiter" where
  "new_limiter w m lc =
     \<lparr>lm_windows = [], lm_default_window_size = w, lm_default_max_requests = m, lm_lockouts = [],
      lm_lockout_config = lc, lm_max_attempt_history = 1000\<rparr>"

definition active_lockout :: "limiter \<Rightarrow> lockout_config option" where
  "active_lockout l =
     (case lm_lockout_config l of Some c \<Rightarrow> if lc_enabled c then Some c else None | None \<Rightarrow> None)"

text \<open>\<open>entry(key).or_insert_with(...)\<close> on the two maps.\<close>

definition window_entry :: "rate_limit_key \<Rightarrow> limiter \<Rightarrow> window_state" where
  "window_entry k l =
     (case map_of (lm_windows l) k of Some s \<Rightarrow> s
      | None \<Rightarrow> new_window_state (lm_default_window_size l) (lm_default_max_requests l)
                  (lm_max_attempt_history l))"

definition lockout_entry :: "lockout_config \<Rightarrow> rate_limit_key \<Rightarrow> limiter \<Rightarrow> lockout_state" where
  "lockout_entry c k l =
     (case map_of (lm_lockouts l) k of Some s \<Rightarrow> s | None \<Rightarrow> new_lockout_state c)"

definition put_window :: "rate_limit_key \<Rightarrow> window_state \<Rightarrow> limiter \<Rightarrow> limiter" where
  "put_window k s l = l\<lparr>lm_windows := AList.update k s (lm_windows l)\<rparr>"

definition put_lockout :: "rate_limit_key \<Rightarrow> lockout_state \<Rightarrow> limiter \<Rightarrow> limiter" where
  "put_lockout k s l = l\<lparr>lm_lockouts := AList.update k s (lm_lockouts l)\<rparr>"

definition check_lockout :: "rate_limit_key \<Rightarrow> int \<Rightarrow> limiter \<Rightarrow> lockout_check \<times> limiter" where
  "check_lockout k now l =
     (case active_lockout l of
        None \<Rightarrow> (Lock_Allowed, l)
      | Some c \<Rightarrow>
          (let (locked, s) = is_locked_out now (lockout_entry c k l);
               l' = put_lockout k s l
           in if locked
              then (LockedOut (case ls_locked_until s of
                                 Some until \<Rightarrow> max 1 (as_secs (duration_since until now))
                               | None \<Rightarrow> lc_lockout_secs c), l')
              else (Lock_Allowed, l')))"

text \<open>The attempt history keeps the last entries.\<close>

definition push_attempt :: "attempt_entry \<Rightarrow> window_state \<Rightarrow> window_state" where
  "push_attempt a s =
     (let as = ws_attempts s @ [a]
      in s\<lparr>ws_attempts := drop (length as - ws_max_attempt_history s) as\<rparr>)"

definition record_attempt ::
  "rate_limit_key \<Rightarrow> int \<Rightarrow> bool \<Rightarrow> string option \<Rightarrow> limiter \<Rightarrow> bool \<times> limiter" where
  "record_attempt k now allowed reason l =
     (let l1 = (case map_of (lm_windows l) k of
                  Some s \<Rightarrow> put_window k (push_attempt
                     \<lparr>ae_timestamp = now, ae_allowed = allowed, ae_reason = reason\<rparr> s) l
                | None \<Rightarrow> l)
      in if allowed then (False, l1)
         else case active_lockout l1 of
             None \<Rightarrow> (False, l1)
           | Some c \<Rightarrow>
               (let (new, s) = lockout_record_failure now (lockout_entry c k l1)
                in (new, put_lockout k s l1)))"

datatype rate_limit_result = Rate_Allowed u32 int | Rate_Denied int

fun is_allowed :: "rate_limit_result \<Rightarrow> bool" where
  "is_allowed (Rate_Allowed _ _) = True"
| "is_allowed (Rate_Denied _) = False"

text \<open>The three readings of the window entry that \<open>check\<close> and \<open>check_and_record\<close> share.\<close>

definition window_readings :: "int \<Rightarrow> window_state \<Rightarrow> (bool \<times> u32 \<times> int) \<times> window_state" where
  "window_readings now s =
     (let (allowed, s1) = window_check now s;
          (remaining, s2) = window_remaining now s1
      in ((allowed, remaining, reset_after now s2), s2))"

definition check :: "rate_limit_key \<Rightarrow> int \<Rightarrow> int \<Rightarrow> limiter \<Rightarrow> rate_limit_result \<times> limiter" where
  "check k t0 now l =
     (case check_lockout k t0 l of
        (LockedOut n, l1) \<Rightarrow> (Rate_Denied n, l1)
      | (Lock_Allowed, l1) \<Rightarrow>
          (let ((allowed, remaining, reset), s) = window_readings now (window_entry k l1);
               l2 = put_window k s l1
           in if allowed then (Rate_Allowed remaining (as_secs reset), l2)
              else (Rate_Denied (max 1 (as_secs reset)), l2)))"

definition check_and_record ::
  "rate_limit_key \<Rightarrow> int \<Rightarrow> int \<Rightarrow> int \<Rightarrow> limiter \<Rightarrow> rate_limit_result \<times> limiter" where
  "check_and_record k t0 now t2 l =
     (case check_lockout k t0 l of
        (LockedOut n, l1) \<Rightarrow>
          (Rate_Denied n, snd (record_attempt k now False (Some ''locked_out'') l1))
      | (Lock_Allowed, l1) \<Rightarrow>
          (let ((allowed, remaining, reset), s) = window_readings now (window_entry k l1);
               s' = (if allowed then window_record now s else s);
               l2 = put_window k s' l1
           in if allowed
              then (Rate_Allowed (saturating_sub32 remaining 1) (as_secs reset),
                    snd (record_attempt k t2 True None l2))
              else (Rate_Denied (max 1 (as_secs reset)),
                    snd (record_attempt k t2 False (Some ''rate_limited'') l2))))"

record sliding_window_state =
  sw_window_size :: int
  sw_max_requests :: u32
  sw_current_requests :: u32
  sw_remaining :: u32

definition get_state :: "rate_limit_key \<Rightarrow> int \<Rightarrow> limiter \<Rightarrow> sliding_window_state option \<times> limiter" where
  "get_state k now l =
     (case map_of (lm_windows l) k of
        None \<Rightarrow> (None, l)
      | Some s \<Rightarrow>
          (let (n, s1) = window_count_now now s;
               (rem, s2) = window_remaining now s1
           in (Some \<lparr>sw_window_size = ws_window_size s, sw_max_requests = ws_max_requests s,
                     sw_current_requests = of_nat n, sw_remaining = rem\<rparr>,
               put_window k s2 l)))"

record lockout_snapshot =
  lk_failure_count :: u32
  lk_locked :: bool
  lk_retry_after_secs :: "int option"

definition get_lockout_state ::
  "rate_limit_key \<Rightarrow> int \<Rightarrow> limiter \<Rightarrow> lockout_snapshot option \<times> limiter" where
  "get_lockout_state k now l =
     (case map_of (lm_lockouts l) k of
        None \<Rightarrow> (None, l)
      | Some s \<Rightarrow>
          (let s1 = clean_old_failures now s;
               (locked, s2) = is_locked_out now s1
           in (Some \<lparr>lk_failure_count = of_nat (length (ls_failures s1)), lk_locked = locked,
                     lk_retry_after_secs =
                       map_option (\<lambda>u. as_secs (duration_since u now)) (ls_locked_until s2)\<rparr>,
               put_lockout k s2 l)))"

definition reset :: "rate_limit_key \<Rightarrow> limiter \<Rightarrow> limiter" where
  "reset k l = l\<lparr>lm_windows := AList.delete k (lm_windows l), lm_lockouts := AList.delete k (lm_lockouts l)\<rparr>"

definition reset_user :: "string \<Rightarrow> limiter \<Rightarrow> limiter" where
  "reset_user u l =
     l\<lparr>lm_windows := filter (\<lambda>(k, _). rk_user_id k \<noteq> u) (lm_windows l),
       lm_lockouts := filter (\<lambda>(k, _). rk_user_id k \<noteq> u) (lm_lockouts l)\<rparr>"

definition has_recent :: "int \<Rightarrow> int \<Rightarrow> int list \<Rightarrow> bool" where
  "has_recent now w ts = (ts \<noteq> [] \<and> duration_since now (last ts) < w * 2)"

definition sweep_lockout :: "int \<Rightarrow> lockout_state \<Rightarrow> bool \<times> lockout_state" where
  "sweep_lockout now s =
     (let s1 = clean_old_failures now s;
          (locked, s2) = is_locked_out now s1
      in (locked \<or> has_recent now (ls_window_size s2) (ls_failures s2), s2))"

definition cleanup :: "int \<Rightarrow> limiter \<Rightarrow> limiter" where
  "cleanup now l =
     l\<lparr>lm_windows := hm_retain (\<lambda>_ s. has_recent now (ws_window_size s) (ws_requests s)) (lm_windows l),
       lm_lockouts := map (\<lambda>(k, s). (k, snd (sweep_lockout now s)))
                        (filter (\<lambda>(k, s). fst (sweep_lockout now s)) (lm_lockouts l))\<rparr>"

text \<open>Attempts on the wire: seconds since the epoch, from the system clock \<open>sys\<close>, which is
  read once per call and is past the epoch. Time stamps are below the cap of \<open>u64::MAX / 2\<close>
  seconds that loading puts on ages. The JSON text of the logs is not modelled.\<close>

definition to_record :: "int \<Rightarrow> int \<Rightarrow> attempt_entry \<Rightarrow> attempt_record" where
  "to_record now sys a =
     \<lparr>ar_timestamp_secs = max 0 (sys - as_secs (duration_since now (ae_timestamp a))),
      ar_allowed = ae_allowed a, ar_reason = ae_reason a\<rparr>"

definition attempt_logs :: "int \<Rightarrow> int \<Rightarrow> limiter \<Rightarrow> attempt_log list" where
  "attempt_logs now sys l =
     map (\<lambda>(k, s). \<lparr>al_user_id = rk_user_id k, al_endpoint = rk_endpoint k,
                    al_attempts = map (to_record now sys) (ws_attempts s)\<rparr>)
       (filter (\<lambda>(k, s). ws_attempts s \<noteq> []) (lm_windows l))"

definition load_entry :: "int \<Rightarrow> int \<Rightarrow> attempt_record \<Rightarrow> attempt_entry" where
  "load_entry now sys r =
     \<lparr>ae_timestamp = now - secs (max 0 (sys - ar_timestamp_secs r)), ae_allowed = ar_allowed r,
      ae_reason = ar_reason r\<rparr>"

fun load_attempts :: "int \<Rightarrow> int \<Rightarrow> attempt_log list \<Rightarrow> nat \<Rightarrow> limiter \<Rightarrow> nat \<times> limiter" where
  "load_attempts now sys [] loaded l = (loaded, l)"
| "load_attempts now sys (log # logs) loaded l =
     (let k = \<lparr>rk_user_id = al_user_id log, rk_endpoint = al_endpoint log\<rparr>;
          s = window_entry k l;
          entries = map (load_entry now sys) (al_attempts log);
          s' = s\<lparr>ws_attempts := drop (length entries - ws_max_attempt_history s) entries\<rparr>
      in load_attempts now sys logs (loaded + length entries) (put_window k s' l))"

section \<open>Expiring queues\<close>

lemma pop_older_dropWhile: "pop_older a ts = dropWhile (\<lambda>t. t < a) ts"
  by (induction ts) auto

lemma sorted_dropWhile_less:
  fixes ts :: "int list"
  assumes "sorted ts" shows "dropWhile (\<lambda>t. t < a) ts = filter (\<lambda>t. a \<le> t) ts"
  using assms
proof (induction ts)
  case (Cons t ts)
  then show ?case by (cases "t < a") (auto intro!: filter_True [symmetric])
qed simp

locale expiring_queue =
  fixes clean :: "int \<Rightarrow> 's \<Rightarrow> 's"
    and entries :: "'s \<Rightarrow> int list"
    and width :: "'s \<Rightarrow> int"
  assumes clean_entries: "entries (clean now s) = pop_older (now - width s) (entries s)"
    and clean_width: "width (clean now s) = width s"
begin

lemma clean_filter:
  "sorted (entries s) \<Longrightarrow> entries (clean now s) = filter (\<lambda>t. now - width s \<le> t) (entries s)"
  by (simp add: clean_entries pop_older_dropWhile sorted_dropWhile_less)

lemma clean_suffix: "\<exists>d. entries s = d @ entries (clean now s) \<and> (\<forall>t \<in> set d. t < now - width s)"
proof -
  have "entries s = takeWhile (\<lambda>t. t < now - width s) (entries s) @ entries (clean now s)"
    by (simp add: clean_entries pop_older_dropWhile)
  then show ?thesis by (metis set_takeWhileD)
qed

lemma clean_twice:
  assumes "sorted (entries s)" and "now \<le> later"
  shows "entries (clean later (clean now s)) = entries (clean later s)"
proof -
  have "sorted (entries (clean now s))" using assms(1) by (simp add: clean_filter sorted_wrt_filter)
  then show ?thesis using assms by (simp add: clean_filter clean_width) (auto intro: filter_cong)
qed

end

interpretation requests: expiring_queue clean_old_entries ws_requests ws_window_size
  by unfold_locales (simp_all add: clean_old_entries_def)

interpretation failures: expiring_queue clean_old_failures ls_failures ls_window_size
  by unfold_locales (simp_all add: clean_old_failures_def)

section \<open>Laws of the operations\<close>

lemma window_readings_eq:
  "window_readings now s =
     ((length (ws_requests (clean_old_entries now s)) < unat (ws_max_requests s),
       fst (window_remaining now (clean_old_entries now s)),
       reset_after now (clean_old_entries now (clean_old_entries now s))),
      clean_old_entries now (clean_old_entries now s))"
  by (simp add: window_readings_def window_check_def window_remaining_def Let_def clean_old_entries_def)

lemma clean_clean: "clean_old_entries now (clean_old_entries now s) = clean_old_entries now s"
  by (simp add: clean_old_entries_def pop_older_dropWhile)

lemma check_lockout_windows [simp]:
  "lm_windows (snd (check_lockout k t l)) = lm_windows l"
  "lm_default_window_size (snd (check_lockout k t l)) = lm_default_window_size l"
  "lm_default_max_requests (snd (check_lockout k t l)) = lm_default_max_requests l"
  "lm_max_attempt_history (snd (check_lockout k t l)) = lm_max_attempt_history l"
  by (simp_all add: check_lockout_def Let_def case_prod_beta put_lockout_def split: option.split)

lemma record_attempt_windows:
  "map_of (lm_windows (snd (record_attempt k t a r l))) k' =
     (if k' = k then map_option (push_attempt \<lparr>ae_timestamp = t, ae_allowed = a, ae_reason = r\<rparr>)
                       (map_of (lm_windows l) k)
      else map_of (lm_windows l) k')"
  by (auto simp: record_attempt_def Let_def case_prod_beta put_lockout_def put_window_def split: option.split)

lemma record_attempt_defaults [simp]:
  "lm_default_window_size (snd (record_attempt k t a r l)) = lm_default_window_size l"
  "lm_default_max_requests (snd (record_attempt k t a r l)) = lm_default_max_requests l"
  by (simp_all add: record_attempt_def Let_def case_prod_beta put_lockout_def put_window_def split: option.split)

lemma push_attempt_requests [simp]:
  "ws_requests (push_attempt a s) = ws_requests s" "ws_window_size (push_attempt a s) = ws_window_size s"
  "ws_max_requests (push_attempt a s) = ws_max_requests s"
  by (simp_all add: push_attempt_def Let_def)

text \<open>What an operation leaves of one key's window: its requests, or none when there is no entry.\<close>

definition requests_of :: "limiter \<Rightarrow> rate_limit_key \<Rightarrow> int list" where
  "requests_of l k = (case map_of (lm_windows l) k of Some s \<Rightarrow> ws_requests s | None \<Rightarrow> [])"

text \<open>Every window has the limiter's defaults.\<close>

definition uniform :: "limiter \<Rightarrow> bool" where
  "uniform l \<longleftrightarrow> hm_ok (lm_windows l) \<and>
     (\<forall>k s. map_of (lm_windows l) k = Some s \<longrightarrow>
        ws_window_size s = lm_default_window_size l \<and> ws_max_requests s = lm_default_max_requests l)"

lemma window_entry_uniform:
  "uniform l \<Longrightarrow> ws_window_size (window_entry k l) = lm_default_window_size l \<and>
     ws_max_requests (window_entry k l) = lm_default_max_requests l \<and>
     ws_requests (window_entry k l) = requests_of l k"
  by (auto simp: window_entry_def uniform_def requests_of_def new_window_state_def split: option.split)

definition keeps :: "rate_limit_key \<Rightarrow> int \<Rightarrow> limiter \<Rightarrow> limiter \<Rightarrow> bool" where
  "keeps k t l l' \<longleftrightarrow> uniform l' \<and> lm_default_window_size l' = lm_default_window_size l \<and>
     lm_default_max_requests l' = lm_default_max_requests l \<and>
     (\<exists>d. requests_of l k = d @ requests_of l' k \<and> (\<forall>x \<in> set d. x < t - lm_default_window_size l))"

lemma keepsI:
  assumes "uniform l'" and "lm_default_window_size l' = lm_default_window_size l"
    and "lm_default_max_requests l' = lm_default_max_requests l"
    and "requests_of l k = d @ requests_of l' k" and "\<forall>x \<in> set d. x < t - lm_default_window_size l"
  shows "keeps k t l l'"
  using assms unfolding keeps_def by blast

lemma keeps_trans:
  assumes "keeps k t l l1" and "keeps k t' l1 l2" and "t \<le> t'"
  shows "keeps k t' l l2"
proof -
  obtain d where d: "requests_of l k = d @ requests_of l1 k" "\<forall>x \<in> set d. x < t - lm_default_window_size l"
    using assms(1) by (auto simp: keeps_def)
  obtain e where e: "requests_of l1 k = e @ requests_of l2 k" "\<forall>x \<in> set e. x < t' - lm_default_window_size l"
    using assms(1,2) by (auto simp: keeps_def)
  show ?thesis
    by (rule keepsI [where d = "d @ e"]) (use assms d e in \<open>auto simp: keeps_def\<close>)
qed

lemma requests_of_put: "requests_of (put_window k' s l) k = (if k = k' then ws_requests s else requests_of l k)"
  by (simp add: requests_of_def put_window_def)

lemma uniform_put:
  "uniform l \<Longrightarrow> ws_window_size s = lm_default_window_size l \<Longrightarrow> ws_max_requests s = lm_default_max_requests l \<Longrightarrow>
   uniform (put_window k s l)"
  by (simp add: uniform_def put_window_def)

lemma put_window_defaults [simp]:
  "lm_default_window_size (put_window k s l) = lm_default_window_size l"
  "lm_default_max_requests (put_window k s l) = lm_default_max_requests l"
  by (simp_all add: put_window_def)

lemma keeps_put_clean:
  assumes "uniform l"
  shows "keeps k t l (put_window k' (clean_old_entries t (window_entry k' l)) l)"
proof -
  let ?s = "window_entry k' l"
  have s: "ws_window_size ?s = lm_default_window_size l" "ws_max_requests ?s = lm_default_max_requests l"
    "ws_requests ?s = requests_of l k'"
    using window_entry_uniform [OF assms] by auto
  have u: "uniform (put_window k' (clean_old_entries t ?s) l)"
    using s by (intro uniform_put assms) (simp_all add: clean_old_entries_def)
  obtain d where "ws_requests ?s = d @ ws_requests (clean_old_entries t ?s)"
    "\<forall>x \<in> set d. x < t - ws_window_size ?s"
    using requests.clean_suffix [of ?s t] by blast
  then show ?thesis
    using s by (intro keepsI [where d = "if k = k' then d else []"] u) (auto simp: requests_of_put)
qed

lemma uniform_same_windows:
  "lm_windows l' = lm_windows l \<Longrightarrow> lm_default_window_size l' = lm_default_window_size l \<Longrightarrow>
   lm_default_max_requests l' = lm_default_max_requests l \<Longrightarrow> uniform l' = uniform l"
  by (simp add: uniform_def)

lemma keeps_same_windows:
  "uniform l \<Longrightarrow> lm_windows l' = lm_windows l \<Longrightarrow> lm_default_window_size l' = lm_default_window_size l \<Longrightarrow>
   lm_default_max_requests l' = lm_default_max_requests l \<Longrightarrow> keeps k t l l'"
  by (rule keepsI [where d = "[]"]) (simp_all add: requests_of_def uniform_def)

lemma keeps_check_lockout: "uniform l \<Longrightarrow> keeps k t l (snd (check_lockout k' t' l))"
  by (rule keeps_same_windows) simp_all

lemma keeps_put_lockout: "uniform l \<Longrightarrow> keeps k t l (put_lockout k' s l)"
  by (rule keeps_same_windows) (simp_all add: put_lockout_def)

lemma keeps_record_attempt:
  assumes "uniform l" shows "keeps k t l (snd (record_attempt k' t' a r l))"
proof (rule keepsI [where d = "[]"])
  show "uniform (snd (record_attempt k' t' a r l))"
    using assms unfolding uniform_def
    by (auto simp: record_attempt_windows split: if_splits)
       (simp add: record_attempt_def Let_def case_prod_beta put_lockout_def put_window_def split: option.split)
  show "requests_of l k = [] @ requests_of (snd (record_attempt k' t' a r l)) k"
    by (auto simp: requests_of_def record_attempt_windows split: option.split)
qed simp_all

lemma keeps_get_state:
  assumes "uniform l" shows "keeps k t l (snd (get_state k' t l))"
proof (cases "map_of (lm_windows l) k'")
  case None
  then show ?thesis using assms by (simp add: get_state_def keeps_same_windows)
next
  case (Some s)
  then have "s = window_entry k' l" by (simp add: window_entry_def)
  then have "snd (get_state k' t l) = put_window k' (clean_old_entries t (window_entry k' l)) l"
    using Some by (simp add: get_state_def window_count_now_def window_remaining_def Let_def clean_clean)
  then show ?thesis using keeps_put_clean assms by simp
qed

lemma keeps_get_lockout: "uniform l \<Longrightarrow> keeps k t l (snd (get_lockout_state k' t' l))"
  by (simp add: get_lockout_state_def Let_def case_prod_beta keeps_put_lockout keeps_same_windows
      split: option.split)

lemma keeps_reset: "uniform l \<Longrightarrow> k' \<noteq> k \<Longrightarrow> keeps k t l (reset k' l)"
  by (rule keepsI [where d = "[]"]) (simp_all add: uniform_def reset_def requests_of_def)

lemma map_of_filter_key:
  "map_of (filter (\<lambda>(k, _). P k) m) k = (if P k then map_of m k else None)"
  by (induction m) auto

lemma keeps_reset_user: "uniform l \<Longrightarrow> u \<noteq> rk_user_id k \<Longrightarrow> keeps k t l (reset_user u l)"
  by (rule keepsI [where d = "[]"])
     (auto simp: uniform_def reset_user_def requests_of_def map_of_filter_key distinct_map_filter split: if_splits)

lemma keeps_load_attempts:
  "uniform l \<Longrightarrow> keeps k t l (snd (load_attempts now sys logs n l))"
proof (induction now sys logs n l rule: load_attempts.induct)
  case (1 now sys loaded l)
  then show ?case by (simp add: keeps_same_windows)
next
  case (2 now sys log logs loaded l)
  let ?k = "\<lparr>rk_user_id = al_user_id log, rk_endpoint = al_endpoint log\<rparr>"
  let ?e = "map (load_entry now sys) (al_attempts log)"
  let ?s = "(window_entry ?k l)\<lparr>ws_attempts := drop (length ?e - ws_max_attempt_history (window_entry ?k l)) ?e\<rparr>"
  have u: "uniform (put_window ?k ?s l)"
    using 2(2) window_entry_uniform [of l ?k] by (intro uniform_put) simp_all
  have "keeps k t l (put_window ?k ?s l)"
    using 2(2) window_entry_uniform [of l ?k]
    by (intro keepsI [where d = "[]"] u) (auto simp: requests_of_put)
  moreover have "keeps k t (put_window ?k ?s l) (snd (load_attempts now sys logs (loaded + length ?e) (put_window ?k ?s l)))"
    using 2(1) u by simp
  ultimately show ?case using keeps_trans by (simp add: Let_def)
qed

lemma le_last_sorted: "sorted (ts :: int list) \<Longrightarrow> x \<in> set ts \<Longrightarrow> x \<le> last ts"
  by (induction ts) auto

lemma keeps_cleanup:
  assumes "uniform l" and "0 < lm_default_window_size l" and "sorted (requests_of l k)"
  shows "keeps k t l (cleanup t l)"
proof -
  let ?R = "requests_of l k" and ?w = "lm_default_window_size l"
  have mp: "map_of (lm_windows (cleanup t l)) k' =
      (case map_of (lm_windows l) k' of None \<Rightarrow> None
       | Some s \<Rightarrow> if has_recent t (ws_window_size s) (ws_requests s) then Some s else None)" for k'
    using assms(1) by (simp add: cleanup_def uniform_def map_of_retain)
  have u: "uniform (cleanup t l)"
    using assms(1) unfolding uniform_def mp by (auto simp: cleanup_def split: option.splits if_splits)
  have req: "requests_of (cleanup t l) k = (if has_recent t ?w ?R then ?R else [])"
    using assms(1) by (auto simp: requests_of_def mp uniform_def has_recent_def split: option.split)
  have old: "\<forall>x \<in> set ?R. x < t - ?w" if "\<not> has_recent t ?w ?R"
  proof
    fix x assume x: "x \<in> set ?R"
    then have "x \<le> last ?R" using assms(3) le_last_sorted by blast
    moreover have "?R \<noteq> []" using x by auto
    ultimately show "x < t - ?w"
      using that assms(2) by (auto simp: has_recent_def duration_since_def max_def split: if_splits)
  qed
  show ?thesis
    by (rule keepsI [where d = "if has_recent t ?w ?R then [] else ?R"])
       (use u req old in \<open>auto simp: cleanup_def\<close>)
qed

text \<open>\<open>check\<close> and \<open>check_and_record\<close>: a denied request and one for another key keep
  the window; an allowed one finds fewer live requests than the limit and adds itself.\<close>

lemma keeps_check:
  assumes "uniform l" and "t0 \<le> now"
  shows "keeps k now l (snd (check k' t0 now l))"
proof -
  obtain c l1 where c: "check_lockout k' t0 l = (c, l1)" by force
  have k1: "keeps k t0 l l1" and u1: "uniform l1"
    using keeps_check_lockout [OF assms(1), of k t0 k' t0] c by (simp_all add: keeps_def)
  show ?thesis
  proof (cases c)
    case (LockedOut n)
    then show ?thesis using keeps_trans [OF k1 keeps_same_windows [OF u1]] assms(2) c by (simp add: check_def)
  next
    case Lock_Allowed
    have "snd (check k' t0 now l) = put_window k' (clean_old_entries now (window_entry k' l1)) l1"
      using Lock_Allowed c by (simp add: check_def window_readings_eq clean_clean Let_def)
    then show ?thesis using keeps_trans [OF k1 keeps_put_clean [OF u1] assms(2)] by simp
  qed
qed

lemma check_and_record_cases:
  assumes "uniform l" and "t0 \<le> now" and "check_and_record k' t0 now t2 l = (r, l')"
  shows "(\<not> (k' = k \<and> is_allowed r) \<longrightarrow> keeps k now l l') \<and>
    (k' = k \<and> is_allowed r \<longrightarrow> (\<exists>l1. keeps k now l l1 \<and>
       length (pop_older (now - lm_default_window_size l) (requests_of l k)) < unat (lm_default_max_requests l) \<and>
       requests_of l1 k = pop_older (now - lm_default_window_size l) (requests_of l k) \<and>
       uniform l' \<and> lm_default_window_size l' = lm_default_window_size l \<and>
       lm_default_max_requests l' = lm_default_max_requests l \<and>
       requests_of l' k = requests_of l1 k @ [now]))"
proof -
  obtain c l1 where c: "check_lockout k' t0 l = (c, l1)" by force
  have k1: "keeps j t0 l l1" for j using keeps_check_lockout [OF assms(1), of j t0 k' t0] c by simp
  then have u1: "uniform l1" and same: "lm_default_window_size l1 = lm_default_window_size l"
    "lm_default_max_requests l1 = lm_default_max_requests l" by (simp_all add: keeps_def)
  have req1: "requests_of l1 j = requests_of l j" for j
    using check_lockout_windows(1) [of k' t0 l] c by (simp add: requests_of_def)
  let ?s = "clean_old_entries now (window_entry k' l1)"
  have s: "ws_window_size ?s = lm_default_window_size l" "ws_max_requests ?s = lm_default_max_requests l"
    "ws_requests ?s = pop_older (now - lm_default_window_size l) (requests_of l k')"
    using window_entry_uniform [OF u1, of k'] same req1 by (simp_all add: clean_old_entries_def)
  show ?thesis
  proof (cases c)
    case (LockedOut n)
    then have l': "l' = snd (record_attempt k' now False (Some ''locked_out'') l1)" "\<not> is_allowed r"
      using assms(3) c by (auto simp: check_and_record_def)
    then show ?thesis
      using keeps_trans [OF k1 keeps_record_attempt [OF u1] assms(2)] by simp
  next
    case Lock_Allowed
    let ?ok = "length (ws_requests ?s) < unat (lm_default_max_requests l)"
    let ?l2 = "put_window k' (if ?ok then window_record now ?s else ?s) l1"
    have out: "is_allowed r = ?ok" "l' = snd (record_attempt k' t2 ?ok (if ?ok then None else Some ''rate_limited'') ?l2)"
      using assms(3) c Lock_Allowed s(2)
      by (auto simp: check_and_record_def window_readings_eq clean_clean Let_def
          window_entry_uniform [OF u1] same split: if_splits)
    have u2: "uniform ?l2"
      using s same by (intro uniform_put u1) (simp_all add: window_record_def)
    have k2: "keeps k now ?l2 l'" using keeps_record_attempt [OF u2] out(2) by simp
    have req2: "requests_of l' j = requests_of ?l2 j" for j
      using out(2) by (simp add: requests_of_def record_attempt_windows split: option.split)
    show ?thesis
    proof (cases "k' = k \<and> ?ok")
      case True
      have l3: "keeps k now l (put_window k' ?s l1)"
        using keeps_trans [OF k1 keeps_put_clean [OF u1] assms(2)] .
      then show ?thesis
        using True out(1) s k2 same u2 req2 [of k]
        by (auto simp: keeps_def requests_of_put window_record_def intro!: exI [where x = "put_window k' ?s l1"])
    next
      case False
      have "keeps k now l1 ?l2"
      proof (cases ?ok)
        case True
        with False have "k' \<noteq> k" by simp
        then show ?thesis
          by (intro keepsI [where d = "[]"] u2) (simp_all add: requests_of_put)
      next
        case nok: False
        then show ?thesis using keeps_put_clean [OF u1] by simp
      qed
      then have "keeps k now l l'"
        using keeps_trans [OF k1 _ assms(2)] keeps_trans [OF _ k2 order_refl] by blast
      then show ?thesis using False out(1) by blast
    qed
  qed
qed

section \<open>Executions\<close>

text \<open>\<open>limiter_run k w m lc l clock granted\<close>: a limiter of window \<open>w\<close> and limit
  \<open>m\<close> can be in state \<open>l\<close> at \<open>clock\<close> after granting key \<open>k\<close> requests
  at the instants \<open>granted\<close>. Every operation may come next, with instants read from a monotone
  clock; only a reset of \<open>k\<close> itself is left out.\<close>

inductive limiter_run ::
  "rate_limit_key \<Rightarrow> int \<Rightarrow> u32 \<Rightarrow> lockout_config option \<Rightarrow> limiter \<Rightarrow> int \<Rightarrow> int list \<Rightarrow> bool"
  for k w m lc where
  run_new: "limiter_run k w m lc (new_limiter w m lc) clock []"
| run_request: "limiter_run k w m lc l clock A \<Longrightarrow> clock \<le> t0 \<Longrightarrow> t0 \<le> now \<Longrightarrow> now \<le> t2 \<Longrightarrow>
    check_and_record k' t0 now t2 l = (r, l') \<Longrightarrow>
    limiter_run k w m lc l' t2 (if k' = k \<and> is_allowed r then A @ [now] else A)"
| run_check: "limiter_run k w m lc l clock A \<Longrightarrow> clock \<le> t0 \<Longrightarrow> t0 \<le> now \<Longrightarrow>
    limiter_run k w m lc (snd (check k' t0 now l)) now A"
| run_attempt: "limiter_run k w m lc l clock A \<Longrightarrow> clock \<le> now \<Longrightarrow>
    limiter_run k w m lc (snd (record_attempt k' now a why l)) now A"
| run_state: "limiter_run k w m lc l clock A \<Longrightarrow> clock \<le> now \<Longrightarrow>
    limiter_run k w m lc (snd (get_state k' now l)) now A"
| run_lockout_state: "limiter_run k w m lc l clock A \<Longrightarrow> clock \<le> now \<Longrightarrow>
    limiter_run k w m lc (snd (get_lockout_state k' now l)) now A"
| run_cleanup: "limiter_run k w m lc l clock A \<Longrightarrow> clock \<le> now \<Longrightarrow>
    limiter_run k w m lc (cleanup now l) now A"
| run_load: "limiter_run k w m lc l clock A \<Longrightarrow> clock \<le> now \<Longrightarrow>
    limiter_run k w m lc (snd (load_attempts now sys logs n l)) now A"
| run_reset: "limiter_run k w m lc l clock A \<Longrightarrow> k' \<noteq> k \<Longrightarrow> limiter_run k w m lc (reset k' l) clock A"
| run_reset_user: "limiter_run k w m lc l clock A \<Longrightarrow> u \<noteq> rk_user_id k \<Longrightarrow>
    limiter_run k w m lc (reset_user u l) clock A"

text \<open>The invariant: the live requests of the key are the end of the granted ones, the rest has left
  the window for good, and no window holds more than the limit.\<close>

definition rate_ok :: "int \<Rightarrow> nat \<Rightarrow> int list \<Rightarrow> bool" where
  "rate_ok w m A \<longleftrightarrow> (\<forall>lo. length (filter (\<lambda>a. lo \<le> a \<and> a \<le> lo + w) A) \<le> m)"

definition run_inv :: "rate_limit_key \<Rightarrow> int \<Rightarrow> u32 \<Rightarrow> limiter \<Rightarrow> int \<Rightarrow> int list \<Rightarrow> bool" where
  "run_inv k w m l clock A \<longleftrightarrow> uniform l \<and> lm_default_window_size l = w \<and> lm_default_max_requests l = m \<and>
     sorted A \<and> (\<forall>a \<in> set A. a \<le> clock) \<and>
     (\<exists>d. A = d @ requests_of l k \<and> (\<forall>x \<in> set d. x < clock - w)) \<and> rate_ok w (unat m) A"

lemma run_inv_keeps:
  assumes "run_inv k w m l clock A" and "keeps k t l l'" and "clock \<le> t"
  shows "run_inv k w m l' t A"
proof -
  obtain d where d: "A = d @ requests_of l k" "\<forall>x \<in> set d. x < clock - w"
    using assms(1) by (auto simp: run_inv_def)
  obtain e where e: "requests_of l k = e @ requests_of l' k" "\<forall>x \<in> set e. x < t - w"
    using assms(1,2) by (auto simp: run_inv_def keeps_def)
  have "A = (d @ e) @ requests_of l' k" "\<forall>x \<in> set (d @ e). x < t - w"
    using d e assms(3) by auto
  then show ?thesis using assms unfolding run_inv_def keeps_def by (metis order_trans)
qed

lemma run_inv_later: "run_inv k w m l clock A \<Longrightarrow> clock \<le> t \<Longrightarrow> run_inv k w m l t A"
  using run_inv_keeps [of k w m l clock A t l] keeps_same_windows [of l l k t] by (simp add: run_inv_def)

lemma run_inv_sorted_requests: "run_inv k w m l clock A \<Longrightarrow> sorted (requests_of l k)"
  unfolding run_inv_def by (metis sorted_append)

lemma rate_ok_snoc:
  assumes "rate_ok w m A" and "length (filter (\<lambda>a. now - w \<le> a) A) < m"
  shows "rate_ok w m (A @ [now])"
  unfolding rate_ok_def
proof
  fix lo
  show "length (filter (\<lambda>a. lo \<le> a \<and> a \<le> lo + w) (A @ [now])) \<le> m"
  proof (cases "lo \<le> now \<and> now \<le> lo + w")
    case True
    have "length (filter (\<lambda>a. lo \<le> a \<and> a \<le> lo + w) A) \<le> length (filter (\<lambda>a. now - w \<le> a) A)"
    proof (induction A)
      case (Cons a A)
      then show ?case using True by simp
    qed simp
    then show ?thesis using True assms(2) by simp
  next
    case False
    then show ?thesis using assms(1) by (auto simp: rate_ok_def)
  qed
qed

lemma run_inv_grant:
  assumes "run_inv k w m l clock A" and "clock \<le> now" and "keeps k now l l1"
    and "length (pop_older (now - w) (requests_of l k)) < unat m"
    and "requests_of l1 k = pop_older (now - w) (requests_of l k)"
    and "uniform l'" and "lm_default_window_size l' = w" and "lm_default_max_requests l' = m"
    and "requests_of l' k = requests_of l1 k @ [now]"
  shows "run_inv k w m l' now (A @ [now])"
proof -
  have inv: "run_inv k w m l1 now A" using run_inv_keeps assms(1-3) by blast
  then obtain d where d: "A = d @ requests_of l1 k" "\<forall>x \<in> set d. x < now - w"
    by (auto simp: run_inv_def)
  have "filter (\<lambda>a. now - w \<le> a) A = filter (\<lambda>a. now - w \<le> a) (requests_of l1 k)"
    using d by (auto simp: filter_empty_conv)
  then have "length (filter (\<lambda>a. now - w \<le> a) A) < unat m"
    using assms(4,5) by (metis le_less_trans length_filter_le)
  then have "rate_ok w (unat m) (A @ [now])" using inv by (simp add: run_inv_def rate_ok_snoc)
  moreover have "A @ [now] = d @ requests_of l' k" using d(1) assms(9) by simp
  moreover have "sorted (A @ [now])" "\<forall>a \<in> set (A @ [now]). a \<le> now"
    using inv by (auto simp: run_inv_def sorted_append)
  ultimately show ?thesis using assms(6-8) d(2) unfolding run_inv_def by blast
qed

lemma run_inv_uniform: "run_inv k w m l clock A \<Longrightarrow> uniform l"
  by (simp add: run_inv_def)

lemma run_inv_request:
  assumes "run_inv k w m l clock A" and "clock \<le> t0" and "t0 \<le> now" and "now \<le> t2"
    and "check_and_record k' t0 now t2 l = (r, l')"
  shows "run_inv k w m l' t2 (if k' = k \<and> is_allowed r then A @ [now] else A)"
proof -
  have w: "lm_default_window_size l = w" "lm_default_max_requests l = m"
    using assms(1) by (simp_all add: run_inv_def)
  note cs = check_and_record_cases [OF run_inv_uniform [OF assms(1)] assms(3,5), where k = k, unfolded w]
  have le: "clock \<le> now" using assms(2,3) by simp
  have "run_inv k w m l' now (if k' = k \<and> is_allowed r then A @ [now] else A)"
  proof (cases "k' = k \<and> is_allowed r")
    case True
    with cs obtain l1 where "keeps k now l l1" "length (pop_older (now - w) (requests_of l k)) < unat m"
      "requests_of l1 k = pop_older (now - w) (requests_of l k)" "uniform l'"
      "lm_default_window_size l' = w" "lm_default_max_requests l' = m" "requests_of l' k = requests_of l1 k @ [now]"
      by blast
    from run_inv_grant [OF assms(1) le this] True show ?thesis by simp
  next
    case False
    then have "keeps k now l l'" using cs by blast
    from run_inv_keeps [OF assms(1) this le] False show ?thesis by auto
  qed
  then show ?thesis using run_inv_later assms(4) by blast
qed

lemma limiter_run_inv:
  assumes "limiter_run k w m lc l clock A" and "0 < w"
  shows "run_inv k w m l clock A"
  using assms(1)
proof (induction rule: limiter_run.induct)
  case (run_new clock)
  show ?case by (simp add: run_inv_def new_limiter_def uniform_def requests_of_def rate_ok_def)
next
  case (run_request l clock A t0 now t2 k' r l')
  show ?case by (rule run_inv_request [OF run_request.IH run_request.hyps(2-5)])
next
  case (run_check l clock A t0 now k')
  have "clock \<le> now" using run_check.hyps(2,3) by simp
  then show ?case
    by (rule run_inv_keeps [OF run_check.IH keeps_check [OF run_inv_uniform [OF run_check.IH] run_check.hyps(3)]])
next
  case (run_attempt l clock A now k' a why)
  show ?case
    by (rule run_inv_keeps [OF run_attempt.IH keeps_record_attempt [OF run_inv_uniform [OF run_attempt.IH]] run_attempt.hyps(2)])
next
  case (run_state l clock A now k')
  show ?case
    by (rule run_inv_keeps [OF run_state.IH keeps_get_state [OF run_inv_uniform [OF run_state.IH]] run_state.hyps(2)])
next
  case (run_lockout_state l clock A now k')
  show ?case
    by (rule run_inv_keeps [OF run_lockout_state.IH keeps_get_lockout [OF run_inv_uniform [OF run_lockout_state.IH]] run_lockout_state.hyps(2)])
next
  case (run_cleanup l clock A now)
  have "0 < lm_default_window_size l" using run_cleanup.IH assms(2) by (simp add: run_inv_def)
  then show ?case
    by (rule run_inv_keeps [OF run_cleanup.IH keeps_cleanup [OF run_inv_uniform [OF run_cleanup.IH] _
          run_inv_sorted_requests [OF run_cleanup.IH]] run_cleanup.hyps(2)])
next
  case (run_load l clock A now sys logs n)
  show ?case
    by (rule run_inv_keeps [OF run_load.IH keeps_load_attempts [OF run_inv_uniform [OF run_load.IH]] run_load.hyps(2)])
next
  case (run_reset l clock A k')
  show ?case
    by (rule run_inv_keeps [OF run_reset.IH keeps_reset [OF run_inv_uniform [OF run_reset.IH] run_reset.hyps(2)] order_refl])
next
  case (run_reset_user l clock A u)
  show ?case
    by (rule run_inv_keeps [OF run_reset_user.IH keeps_reset_user [OF run_inv_uniform [OF run_reset_user.IH] run_reset_user.hyps(2)] order_refl])
qed

section \<open>Decisions\<close>

definition locked :: "rate_limit_key \<Rightarrow> int \<Rightarrow> limiter \<Rightarrow> bool" where
  "locked k t l \<longleftrightarrow> active_lockout l \<noteq> None \<and>
     (\<exists>s u. map_of (lm_lockouts l) k = Some s \<and> ls_locked_until s = Some u \<and> t < u)"

lemma is_locked_out_iff: "fst (is_locked_out t s) \<longleftrightarrow> (\<exists>u. ls_locked_until s = Some u \<and> t < u)"
  by (simp add: is_locked_out_def split: option.split)

lemma check_lockout_locked: "(\<exists>n. fst (check_lockout k t l) = LockedOut n) \<longleftrightarrow> locked k t l"
proof (cases "active_lockout l")
  case (Some c)
  have "fst (is_locked_out t (lockout_entry c k l)) \<longleftrightarrow> locked k t l"
    using Some by (auto simp: is_locked_out_iff locked_def lockout_entry_def new_lockout_state_def split: option.split)
  then show ?thesis using Some by (auto simp: check_lockout_def Let_def case_prod_beta)
qed (simp add: check_lockout_def locked_def)

lemma check_allowed_iff:
  assumes "uniform l"
  shows "is_allowed (fst (check k t0 now l)) \<longleftrightarrow> \<not> locked k t0 l \<and>
    length (pop_older (now - lm_default_window_size l) (requests_of l k)) < unat (lm_default_max_requests l)"
proof -
  obtain c l1 where c: "check_lockout k t0 l = (c, l1)" by force
  have u1: "uniform l1" "lm_default_window_size l1 = lm_default_window_size l"
    "lm_default_max_requests l1 = lm_default_max_requests l"
    using keeps_check_lockout [OF assms, of k t0 k t0] c by (simp_all add: keeps_def)
  have req: "requests_of l1 k = requests_of l k"
    using check_lockout_windows(1) [of k t0 l] c by (simp add: requests_of_def)
  show ?thesis
  proof (cases c)
    case (LockedOut n)
    then have "locked k t0 l" using check_lockout_locked [of k t0 l] c by simp
    then show ?thesis using LockedOut c by (simp add: check_def)
  next
    case Lock_Allowed
    then have "\<not> locked k t0 l" using check_lockout_locked [of k t0 l] c by simp
    then show ?thesis
      using Lock_Allowed c window_entry_uniform [OF u1(1), of k] u1 req
      by (simp add: check_def window_readings_eq Let_def clean_old_entries_def)
  qed
qed

lemma map_of_sweep:
  assumes "hm_ok m"
  shows "map_of (map (\<lambda>(k, s). (k, snd (f s))) (filter (\<lambda>(k, s). fst (f s)) m)) k =
    (case map_of m k of None \<Rightarrow> None | Some s \<Rightarrow> if fst (f s) then Some (snd (f s)) else None)"
  using assms
proof (induction m)
  case (Cons a m)
  then have "map_of m (fst a) = None" by (simp add: map_of_eq_None_iff)
  with Cons show ?case by (cases a) auto
qed simp

lemma sweep_locked_iff:
  "t \<le> t0 \<Longrightarrow> (fst (sweep_lockout t s) \<and> (\<exists>u. ls_locked_until (snd (sweep_lockout t s)) = Some u \<and> t0 < u))
     \<longleftrightarrow> (\<exists>u. ls_locked_until s = Some u \<and> t0 < u)"
  by (cases "ls_locked_until s")
     (auto simp: sweep_lockout_def is_locked_out_def clean_old_failures_def Let_def)

lemma locked_cleanup:
  assumes "hm_ok (lm_lockouts l)" and "t \<le> t0"
  shows "locked k t0 (cleanup t l) = locked k t0 l"
proof -
  have mp: "map_of (lm_lockouts (cleanup t l)) k = (case map_of (lm_lockouts l) k of None \<Rightarrow> None
      | Some s \<Rightarrow> if fst (sweep_lockout t s) then Some (snd (sweep_lockout t s)) else None)"
    using assms(1) by (simp add: cleanup_def map_of_sweep)
  have act: "active_lockout (cleanup t l) = active_lockout l" by (simp add: active_lockout_def cleanup_def)
  show ?thesis
  proof (cases "map_of (lm_lockouts l) k")
    case (Some s)
    then show ?thesis
      unfolding locked_def act mp using sweep_locked_iff [OF assms(2), of s]
      by (cases "fst (sweep_lockout t s)") auto
  qed (simp add: locked_def act mp)
qed

section \<open>Properties\<close>

text \<open>C34. The limit holds in every window: over any execution with a monotone clock, whatever other
  keys do and whenever the maintenance runs, the requests granted to a key within any span of the
  window's length number at most the limit.\<close>

theorem limit_holds_in_every_window:
  assumes "limiter_run k w m lc l clock granted" and "0 < w"
  shows "length (filter (\<lambda>t. lo \<le> t \<and> t \<le> lo + w) granted) \<le> unat m"
  using limiter_run_inv [OF assms] by (simp add: run_inv_def rate_ok_def)

definition sample_key :: rate_limit_key where
  "sample_key = \<lparr>rk_user_id = ''u1'', rk_endpoint = ''/login''\<rparr>"

definition sample_limiter :: limiter where
  "sample_limiter = snd (check_and_record sample_key 1 1 1 (new_limiter 10 1 (Some default_lockout_config)))"

lemma sample_run: "limiter_run sample_key 10 1 (Some default_lockout_config) sample_limiter 1 [1]"
proof -
  let ?c = "check_and_record sample_key 1 1 1 (new_limiter 10 1 (Some default_lockout_config))"
  have "is_allowed (fst ?c)" by code_simp
  moreover have "?c = (fst ?c, sample_limiter)" by (simp add: sample_limiter_def)
  ultimately show ?thesis
    using run_request [OF run_new [of sample_key 10 1 "Some default_lockout_config" 0], of 1 1 1 sample_key]
    by fastforce
qed

theorem limit_holds_in_every_window_witness:
  "length (filter (\<lambda>t. 0 \<le> t \<and> t \<le> 0 + 10) [1 :: int]) \<le> unat (1 :: u32)"
  by (rule limit_holds_in_every_window [OF sample_run]) simp

text \<open>Maintenance is invisible: running the cleanup at any moment changes no later decision, neither
  by a forgotten request nor by a forgotten lockout.\<close>

theorem cleanup_is_invisible:
  assumes "limiter_run k w m lc l clock granted" and "0 < w" and "hm_ok (lm_lockouts l)"
    and "clock \<le> t" and "t \<le> t0" and "t0 \<le> now"
  shows "is_allowed (fst (check k t0 now (cleanup t l))) = is_allowed (fst (check k t0 now l))"
proof -
  have inv: "run_inv k w m l clock granted" using limiter_run_inv assms(1,2) by blast
  then have u: "uniform l" and w: "lm_default_window_size l = w" by (simp_all add: run_inv_def)
  have ke: "keeps k t l (cleanup t l)"
    using assms(2) w by (intro keeps_cleanup u run_inv_sorted_requests [OF inv]) simp
  then obtain d where d: "requests_of l k = d @ requests_of (cleanup t l) k" "\<forall>x \<in> set d. x < t - w"
    by (auto simp: keeps_def w)
  have "pop_older (now - w) (requests_of l k) = pop_older (now - w) (requests_of (cleanup t l) k)"
    unfolding d(1) pop_older_dropWhile using d(2) assms(5,6)
    by (subst dropWhile_append2) auto
  then show ?thesis
    using ke u w locked_cleanup [OF assms(3,5)] by (simp add: check_allowed_iff keeps_def)
qed

theorem cleanup_is_invisible_witness:
  "is_allowed (fst (check sample_key 30 30 (cleanup 25 sample_limiter)))
     = is_allowed (fst (check sample_key 30 30 sample_limiter))"
  by (rule cleanup_is_invisible [OF sample_run]) code_simp+

text \<open>Lockout is enforced: a failure locks the key exactly when the failures of the last window,
  itself included, reach the threshold, and then every check before the end of the lockout is
  denied.\<close>

theorem lockout_is_enforced:
  assumes "active_lockout l = Some c" and "record_attempt k now False why l = (new, l')"
    and "sorted (ls_failures (lockout_entry c k l))"
  shows "(new \<longleftrightarrow> unat (ls_max_failures (lockout_entry c k l)) \<le>
        length (filter (\<lambda>t. now - ls_window_size (lockout_entry c k l) \<le> t) (ls_failures (lockout_entry c k l))) + 1) \<and>
    (new \<and> t0 < now + ls_lockout_duration (lockout_entry c k l) \<longrightarrow> \<not> is_allowed (fst (check k t0 t1 l')))"
proof -
  let ?s = "lockout_entry c k l"
  define l1 where "l1 = (case map_of (lm_windows l) k of
      Some s \<Rightarrow> put_window k (push_attempt \<lparr>ae_timestamp = now, ae_allowed = False, ae_reason = why\<rparr> s) l
    | None \<Rightarrow> l)"
  have l1: "active_lockout l1 = Some c" "lockout_entry c k l1 = ?s"
    using assms(1)
    by (cases "map_of (lm_windows l) k"; simp add: l1_def active_lockout_def lockout_entry_def put_window_def)+
  have out: "new = fst (lockout_record_failure now ?s)" "l' = put_lockout k (snd (lockout_record_failure now ?s)) l1"
    using assms(2) l1 by (auto simp: record_attempt_def Let_def l1_def [symmetric] case_prod_beta)
  have fails: "ls_failures (clean_old_failures now ?s) = filter (\<lambda>t. now - ls_window_size ?s \<le> t) (ls_failures ?s)"
    by (rule failures.clean_filter [OF assms(3)])
  have iff: "new \<longleftrightarrow> unat (ls_max_failures ?s) \<le> length (filter (\<lambda>t. now - ls_window_size ?s \<le> t) (ls_failures ?s)) + 1"
    unfolding out lockout_record_failure_def Let_def
    by (simp add: fails) (simp add: clean_old_failures_def)
  have "locked k t0 l'" if "new" "t0 < now + ls_lockout_duration ?s"
  proof -
    have "ls_locked_until (snd (lockout_record_failure now ?s)) = Some (now + ls_lockout_duration ?s)"
      using that(1) unfolding out lockout_record_failure_def Let_def
      by (simp add: clean_old_failures_def split: if_splits)
    then show ?thesis using that(2) l1(1) by (simp add: locked_def out(2) put_lockout_def active_lockout_def)
  qed
  moreover have "\<not> is_allowed (fst (check k t0 t1 l'))" if "locked k t0 l'"
    using check_lockout_locked [of k t0 l'] that by (auto simp: check_def split: prod.splits)
  ultimately show ?thesis using iff by blast
qed

definition locked_sample :: limiter where
  "locked_sample = put_lockout sample_key
     \<lparr>ls_failures = [2, 3, 4, 5], ls_locked_until = None, ls_window_size = 10, ls_max_failures = 5,
      ls_lockout_duration = 20\<rparr> sample_limiter"

theorem lockout_is_enforced_witness:
  "\<not> is_allowed (fst (check sample_key 25 25 (snd (record_attempt sample_key 6 False None locked_sample))))"
proof -
  let ?r = "record_attempt sample_key 6 False None locked_sample"
  have "active_lockout locked_sample = Some default_lockout_config" "fst ?r"
    "sorted (ls_failures (lockout_entry default_lockout_config sample_key locked_sample))"
    "25 < 6 + ls_lockout_duration (lockout_entry default_lockout_config sample_key locked_sample)"
    by code_simp+
  then show ?thesis
    using lockout_is_enforced [of locked_sample default_lockout_config sample_key 6 None True "snd ?r" 25 25]
    by (metis prod.collapse)
qed

text \<open>Knocking while locked out extends the lockout: a request of a locked key counts as a further
  failure, and when the failures of the last window suffice it moves the end of the lockout to a full
  duration from now, past the retry time just announced.\<close>

theorem knocking_extends_lockout:
  assumes "locked k t0 l" and "check_and_record k t0 now t2 l = (r, l')"
    and "map_of (lm_lockouts l) k = Some s"
    and "unat (ls_max_failures s) \<le> length (pop_older (now - ls_window_size s) (ls_failures s)) + 1"
  shows "\<not> is_allowed r \<and> (\<exists>s'. map_of (lm_lockouts l') k = Some s' \<and>
    ls_locked_until s' = Some (now + ls_lockout_duration s))"
proof -
  obtain c where c: "active_lockout l = Some c" using assms(1) by (auto simp: locked_def)
  obtain u where u: "ls_locked_until s = Some u" "t0 < u" using assms(1,3) by (auto simp: locked_def)
  have ent: "lockout_entry c k l = s" using assms(3) by (simp add: lockout_entry_def)
  have cl: "\<exists>n. check_lockout k t0 l = (LockedOut n, put_lockout k s l)"
    using c u by (simp add: check_lockout_def ent is_locked_out_def)
  let ?l1 = "put_lockout k s l"
  have "l' = snd (record_attempt k now False (Some ''locked_out'') ?l1)" "\<not> is_allowed r"
    using cl assms(2) by (auto simp: check_and_record_def)
  moreover have "map_of (lm_lockouts (snd (record_attempt k now False (Some ''locked_out'') ?l1))) k
      = Some (snd (lockout_record_failure now s))"
    using c by (cases "map_of (lm_windows l) k")
      (simp_all add: record_attempt_def Let_def case_prod_beta put_window_def put_lockout_def
        active_lockout_def lockout_entry_def)
  moreover have "ls_locked_until (snd (lockout_record_failure now s)) = Some (now + ls_lockout_duration s)"
    using assms(4) by (simp add: lockout_record_failure_def clean_old_failures_def Let_def)
  ultimately show ?thesis by simp
qed

definition locked_now :: limiter where
  "locked_now = put_lockout sample_key
     \<lparr>ls_failures = [2, 3, 4, 5], ls_locked_until = Some 20, ls_window_size = 10, ls_max_failures = 5,
      ls_lockout_duration = 20\<rparr> sample_limiter"

theorem knocking_extends_lockout_witness:
  "\<exists>s'. map_of (lm_lockouts (snd (check_and_record sample_key 7 7 7 locked_now))) sample_key = Some s' \<and>
     ls_locked_until s' = Some (7 + 20)"
proof -
  let ?s = "\<lparr>ls_failures = [2, 3, 4, 5], ls_locked_until = Some 20, ls_window_size = 10, ls_max_failures = 5,
      ls_lockout_duration = 20\<rparr> :: lockout_state"
  have s: "map_of (lm_lockouts locked_now) sample_key = Some ?s" by code_simp
  have act: "active_lockout locked_now = Some default_lockout_config" by code_simp
  have "unat (ls_max_failures ?s) \<le> length (pop_older (7 - ls_window_size ?s) (ls_failures ?s)) + 1"
    by code_simp
  moreover have "locked sample_key 7 locked_now" using s act by (simp add: locked_def)
  ultimately show ?thesis
    using knocking_extends_lockout [of sample_key 7 locked_now 7 7
        "fst (check_and_record sample_key 7 7 7 locked_now)" _ ?s] s by simp
qed

text \<open>The announced retry time can be too early: a denied request is told whole seconds rounded
  down, so when the wait has a fraction and is longer than a second, a retry at the announced time is
  denied again although nothing happened in between.\<close>

theorem announced_retry_is_too_early:
  assumes "uniform l" and "sorted (requests_of l k)" and "requests_of l k = front # rest"
    and "unat (lm_default_max_requests l) \<le> length (requests_of l k)"
    and "front \<le> now" and "now - lm_default_window_size l \<le> front"
    and "fst (check k t0 now l) = Rate_Denied n" and "\<not> locked k t0 l"
    and "secs 1 \<le> lm_default_window_size l - (now - front)"
  shows "now + secs n \<le> front + lm_default_window_size l \<and>
    \<not> is_allowed (fst (check k (now + secs n) (now + secs n) l))"
proof -
  let ?w = "lm_default_window_size l" and ?s = "clean_old_entries now (window_entry k l)"
  obtain c l1 where c: "check_lockout k t0 l = (c, l1)" by force
  have c': "c = Lock_Allowed" using check_lockout_locked [of k t0 l] c assms(8) by (cases c) auto
  have "lm_windows l1 = lm_windows l" "lm_default_window_size l1 = ?w"
    "lm_default_max_requests l1 = lm_default_max_requests l" "lm_max_attempt_history l1 = lm_max_attempt_history l"
    using check_lockout_windows [of k t0 l] c by simp_all
  then have ent: "window_entry k l1 = window_entry k l" by (simp add: window_entry_def split: option.split)
  have s: "ws_requests ?s = front # rest" "ws_window_size ?s = ?w"
    using window_entry_uniform [OF assms(1), of k] assms(3,6) by (simp_all add: clean_old_entries_def)
  have lt: "now - ?w < front" using assms(9) by (simp add: secs_def)
  have "reset_after now ?s = ?w - (now - front)"
    using s assms(5) lt by (simp add: reset_after_def duration_since_def)
  then have n: "n = max 1 (as_secs (?w - (now - front)))"
    using assms(7) c c' ent by (auto simp: check_def window_readings_eq clean_clean Let_def split: if_splits)
  have "1 \<le> as_secs (?w - (now - front))" using assms(9) by (simp add: as_secs_def secs_def)
  then have "n = as_secs (?w - (now - front))" using n by simp
  then have "secs n \<le> ?w - (now - front)" by (simp add: secs_def as_secs_def)
  then have le: "now + secs n \<le> front + ?w" by simp
  moreover have "pop_older (now + secs n - ?w) (requests_of l k) = requests_of l k"
    using le assms(3) by simp
  ultimately show ?thesis using assms(4) by (simp add: check_allowed_iff [OF assms(1)])
qed

definition full_limiter :: limiter where
  "full_limiter = put_window sample_key
     ((new_window_state (secs 60) 1 10)\<lparr>ws_requests := [500000000]\<rparr>) (new_limiter (secs 60) 1 None)"

theorem announced_retry_is_too_early_witness:
  "secs 1 + secs 59 \<le> 500000000 + lm_default_window_size full_limiter \<and>
   \<not> is_allowed (fst (check sample_key (secs 1 + secs 59) (secs 1 + secs 59) full_limiter))"
proof (rule announced_retry_is_too_early [where rest = "[]" and ?t0.0 = "secs 1"])
  show "uniform full_limiter"
    by (simp add: uniform_def full_limiter_def put_window_def new_limiter_def new_window_state_def)
  show "\<not> locked sample_key (secs 1) full_limiter"
    by (simp add: locked_def full_limiter_def active_lockout_def put_window_def new_limiter_def)
qed code_simp+

end
