(* ===== verification/Dag_Scheduler.thy ===== *)
theory Dag_Scheduler
  imports Prelude "HOL-Library.Multiset"
begin

text \<open>
  Goal plans and their scheduler (\<open>planner/mod.rs\<close>: tasks and plans; \<open>planner/dag.rs\<close>:
  validation and topological order by Kahn's algorithm).

  A task's desktop action and its verification criteria are opaque JSON values, and the fields that only
  the executor reads are kept. Hash maps are association lists; the order in which a map of degrees is
  walked to fill the queue is a parameter \<open>shuffle\<close>, since Rust leaves it unspecified, and
  \<open>from_plan\<close> takes two of them because validation and sorting each build a map of their own.
  A scheduler is its cached order. The counters are \<open>usize\<close>: a
  decrement of zero is the value \<open>None\<close>, and the properties show that it does not happen.
\<close>

section \<open>Tasks and plans\<close>

datatype task_status = Pending | Running | Completed | Failed | RolledBack

record task =
  tk_id :: string
  tk_description :: string
  tk_action :: json
  tk_dependencies :: "string list"
  tk_verification :: "json option"
  tk_snapshot_before :: bool
  tk_max_retries :: u32
  tk_retry_delay_secs :: nat
  tk_status :: task_status
  tk_error :: "string option"
  tk_result :: "string option"

definition new_task :: "string \<Rightarrow> string \<Rightarrow> json \<Rightarrow> task" where
  "new_task i desc act =
     \<lparr>tk_id = i, tk_description = desc, tk_action = act, tk_dependencies = [],
      tk_verification = None, tk_snapshot_before = False, tk_max_retries = 2, tk_retry_delay_secs = 1,
      tk_status = Pending, tk_error = None,
      tk_result = None\<rparr>"

definition depends_on :: "string \<Rightarrow> task \<Rightarrow> task" where
  "depends_on i t = t\<lparr>tk_dependencies := tk_dependencies t @ [i]\<rparr>"

definition with_verification :: "json \<Rightarrow> task \<Rightarrow> task" where
  "with_verification crit t = t\<lparr>tk_verification := Some crit\<rparr>"

definition with_snapshot :: "task \<Rightarrow> task" where
  "with_snapshot t = t\<lparr>tk_snapshot_before := True\<rparr>"

definition with_retries :: "u32 \<Rightarrow> task \<Rightarrow> task" where
  "with_retries n t = t\<lparr>tk_max_retries := n\<rparr>"

record plan =
  pl_goal :: string
  pl_tasks :: "(string \<times> task) list"

definition new_plan :: "string \<Rightarrow> plan" where
  "new_plan goal = \<lparr>pl_goal = goal, pl_tasks = []\<rparr>"

definition add_task :: "task \<Rightarrow> plan \<Rightarrow> plan" where
  "add_task t p = p\<lparr>pl_tasks := AList.update (tk_id t) t (pl_tasks p)\<rparr>"

definition get_task :: "plan \<Rightarrow> string \<Rightarrow> task option" where
  "get_task p i = map_of (pl_tasks p) i"

definition is_complete :: "plan \<Rightarrow> bool" where
  "is_complete p = list_all (\<lambda>(_, t). tk_status t = Completed) (pl_tasks p)"

definition has_failures :: "plan \<Rightarrow> bool" where
  "has_failures p = list_ex (\<lambda>(_, t). tk_status t = Failed) (pl_tasks p)"

definition ready_tasks :: "plan \<Rightarrow> string list" where
  "ready_tasks p =
     map (\<lambda>(_, t). tk_id t) (filter (\<lambda>(_, t).
       tk_status t = Pending
       \<and> list_all (\<lambda>dep. case map_of (pl_tasks p) dep of
             Some d \<Rightarrow> tk_status d = Completed | None \<Rightarrow> False) (tk_dependencies t)) (pl_tasks p))"

text \<open>\<open>get_mut\<close> and a change in place.\<close>

definition modify_task :: "string \<Rightarrow> (task \<Rightarrow> task) \<Rightarrow> plan \<Rightarrow> plan" where
  "modify_task i f p =
     (case map_of (pl_tasks p) i of
        Some t \<Rightarrow> p\<lparr>pl_tasks := AList.update i (f t) (pl_tasks p)\<rparr>
      | None \<Rightarrow> p)"

definition set_status :: "string \<Rightarrow> task_status \<Rightarrow> plan \<Rightarrow> plan" where
  "set_status i st p = modify_task i (\<lambda>t. t\<lparr>tk_status := st\<rparr>) p"

definition complete_task :: "string \<Rightarrow> string \<Rightarrow> plan \<Rightarrow> plan" where
  "complete_task i res p = modify_task i (\<lambda>t. t\<lparr>tk_status := Completed, tk_result := Some res\<rparr>) p"

definition fail_task :: "string \<Rightarrow> string \<Rightarrow> plan \<Rightarrow> plan" where
  "fail_task i err p = modify_task i (\<lambda>t. t\<lparr>tk_status := Failed, tk_error := Some err\<rparr>) p"

section \<open>Validation and order\<close>

datatype dag_validation =
    Valid
  | SelfDependency string
  | MissingDependency string string
  | Cycle "string list"

text \<open>The first pass: the first offending dependency in iteration order.\<close>

fun check_deps :: "plan \<Rightarrow> string \<Rightarrow> string list \<Rightarrow> dag_validation option" where
  "check_deps p i [] = None"
| "check_deps p i (dep # deps) =
     (if dep = i then Some (SelfDependency i)
      else if map_of (pl_tasks p) dep = None then Some (MissingDependency i dep)
      else check_deps p i deps)"

fun check_tasks :: "plan \<Rightarrow> (string \<times> task) list \<Rightarrow> dag_validation option" where
  "check_tasks p [] = None"
| "check_tasks p ((i, t) # ts) =
     (case check_deps p i (tk_dependencies t) of Some e \<Rightarrow> Some e | None \<Rightarrow> check_tasks p ts)"

type_synonym degrees = "(string \<times> nat) list"
type_synonym adjacency = "(string \<times> string list) list"

definition lookup_or :: "'v \<Rightarrow> ('k \<times> 'v) list \<Rightarrow> 'k \<Rightarrow> 'v" where
  "lookup_or d m k = (case map_of m k of Some v \<Rightarrow> v | None \<Rightarrow> d)"

definition add_edge :: "string \<Rightarrow> string \<Rightarrow> adjacency \<times> degrees \<Rightarrow> adjacency \<times> degrees" where
  "add_edge i dep st =
     (let (adj, deg) = st
      in (AList.update dep (lookup_or [] adj dep @ [i]) adj,
          AList.update i (lookup_or 0 deg i + 1) deg))"

definition build_graph :: "plan \<Rightarrow> adjacency \<times> degrees" where
  "build_graph p =
     fold (\<lambda>(i, t) st. fold (add_edge i) (tk_dependencies t) st) (pl_tasks p)
       ([], map (\<lambda>(i, _). (i, 0)) (pl_tasks p))"

text \<open>The loop over the children of a task that left the queue.\<close>

fun release :: "string list \<Rightarrow> degrees \<Rightarrow> string list \<Rightarrow> (degrees \<times> string list) option" where
  "release [] deg q = Some (deg, q)"
| "release (c # cs) deg q =
     (case map_of deg c of
        None \<Rightarrow> release cs deg q
      | Some n \<Rightarrow>
          (if n = 0 then None
           else release cs (AList.update c (n - 1) deg) (if n - 1 = 0 then q @ [c] else q)))"

lemma sum_update:
  "map_of (deg :: degrees) c = Some n \<Longrightarrow> n \<noteq> 0 \<Longrightarrow>
   sum_list (map snd (AList.update c (n - 1) deg)) + 1 = sum_list (map snd deg)"
  by (induction deg) (auto split: if_splits)

lemma release_measure:
  "release cs deg q = Some (deg', q') \<Longrightarrow>
   length q' + sum_list (map snd deg') \<le> length q + sum_list (map snd deg)"
proof (induction cs deg q rule: release.induct)
  case (2 c cs deg q)
  show ?case
  proof (cases "map_of deg c")
    case None
    then show ?thesis using 2 by simp
  next
    case (Some n)
    with 2(3) have n: "n \<noteq> 0" by (auto split: if_splits)
    show ?thesis using 2(2) [OF Some] 2(3) Some n sum_update [OF Some n] by (auto split: if_splits)
  qed
qed simp

text \<open>Kahn's loop: the queue, the degrees and the order so far.\<close>

function kahn :: "adjacency \<Rightarrow> string list \<Rightarrow> degrees \<Rightarrow> string list \<Rightarrow> (string list \<times> degrees) option" where
  "kahn adj [] deg order = Some (order, deg)"
| "kahn adj (i # q) deg order =
     (case release (lookup_or [] adj i) deg q of
        None \<Rightarrow> None
      | Some (deg', q') \<Rightarrow> kahn adj q' deg' (order @ [i]))"
  by pat_completeness auto
termination
  by (relation "measure (\<lambda>(adj, q, deg, order). length q + sum_list (map snd deg))")
     (auto dest: release_measure)

definition initial_queue :: "(degrees \<Rightarrow> degrees) \<Rightarrow> degrees \<Rightarrow> string list" where
  "initial_queue shuffle deg = map fst (filter (\<lambda>(_, d). d = 0) (shuffle deg))"

definition run_kahn :: "(degrees \<Rightarrow> degrees) \<Rightarrow> plan \<Rightarrow> (string list \<times> degrees) option" where
  "run_kahn shuffle p =
     (let (adj, deg) = build_graph p in kahn adj (initial_queue shuffle deg) deg [])"

text \<open>The outer option is \<open>None\<close> when a counter would underflow.\<close>

definition validate :: "(degrees \<Rightarrow> degrees) \<Rightarrow> plan \<Rightarrow> (dag_validation + unit) option" where
  "validate shuffle p =
     (case check_tasks p (pl_tasks p) of
        Some e \<Rightarrow> Some (Inl e)
      | None \<Rightarrow>
          (case run_kahn shuffle p of
             None \<Rightarrow> None
           | Some (visited, deg) \<Rightarrow>
               (if length visited \<noteq> length (pl_tasks p)
                then Some (Inl (Cycle (map fst (filter (\<lambda>(_, d). 0 < d) (shuffle deg)))))
                else Some (Inr ()))))"

definition topological_sort :: "(degrees \<Rightarrow> degrees) \<Rightarrow> plan \<Rightarrow> string list option" where
  "topological_sort shuffle p = map_option fst (run_kahn shuffle p)"

definition from_plan ::
  "(degrees \<Rightarrow> degrees) \<Rightarrow> (degrees \<Rightarrow> degrees) \<Rightarrow> plan \<Rightarrow> (dag_validation + string list) option" where
  "from_plan shuffle shuffle' p =
     (case validate shuffle p of
        None \<Rightarrow> None
      | Some (Inl e) \<Rightarrow> Some (Inl e)
      | Some (Inr _) \<Rightarrow> map_option Inr (topological_sort shuffle' p))"

definition next_ready :: "plan \<Rightarrow> string set \<Rightarrow> string set \<Rightarrow> string list" where
  "next_ready p completed failed =
     map (\<lambda>(_, t). tk_id t) (filter (\<lambda>(_, t).
       tk_status t = Pending
       \<and> list_all (\<lambda>dep. dep \<in> completed) (tk_dependencies t)
       \<and> list_all (\<lambda>dep. dep \<notin> failed) (tk_dependencies t)) (pl_tasks p))"

section \<open>The graph\<close>

definition deps :: "plan \<Rightarrow> string \<Rightarrow> string list" where
  "deps p i = (case map_of (pl_tasks p) i of Some t \<Rightarrow> tk_dependencies t | None \<Rightarrow> [])"

definition ids :: "plan \<Rightarrow> string set" where
  "ids p = hm_keys (pl_tasks p)"

definition dep_rel :: "plan \<Rightarrow> (string \<times> string) set" where
  "dep_rel p = {(d, i). i \<in> ids p \<and> d \<in> set (deps p i)}"

definition deps_closed :: "plan \<Rightarrow> bool" where
  "deps_closed p \<longleftrightarrow> (\<forall>i \<in> ids p. set (deps p i) \<subseteq> ids p)"

lemma deps_of_task: "map_of (pl_tasks p) i = Some t \<Longrightarrow> deps p i = tk_dependencies t"
  by (simp add: deps_def)

lemma lookup_or_update: "lookup_or d (AList.update k v m) k' = (if k' = k then v else lookup_or d m k')"
  by (simp add: lookup_or_def)

lemma add_edges_spec:
  "fold (add_edge i) ds (adj, deg) = (adj', deg') \<Longrightarrow> i \<in> hm_keys deg \<Longrightarrow>
   hm_keys deg' = hm_keys deg \<and> (hm_ok deg \<longrightarrow> hm_ok deg') \<and>
   (\<forall>x c. count_list (lookup_or [] adj' x) c = count_list (lookup_or [] adj x) c + (if c = i then count_list ds x else 0)) \<and>
   (\<forall>c. lookup_or 0 deg' c = lookup_or 0 deg c + (if c = i then length ds else 0))"
proof (induction ds arbitrary: adj deg)
  case (Cons d ds)
  let ?adj = "AList.update d (lookup_or [] adj d @ [i]) adj"
  let ?deg = "AList.update i (lookup_or 0 deg i + 1) deg"
  have "add_edge i d (adj, deg) = (?adj, ?deg)" by (simp add: add_edge_def)
  then have step: "fold (add_edge i) ds (?adj, ?deg) = (adj', deg')"
    using Cons.prems(1) by simp
  have keys: "hm_keys ?deg = hm_keys deg"
    using Cons.prems(2) by (auto simp: dom_map_of_conv_image_fst [symmetric])
  show ?case
    using Cons.IH [OF step] Cons.prems(2) keys by (auto simp: lookup_or_update)
qed simp

lemma build_loop_spec:
  "fold (\<lambda>(i, t) st. fold (add_edge i) (tk_dependencies t) st) ts (adj, deg) = (adj', deg') \<Longrightarrow>
   hm_ok ts \<Longrightarrow> hm_keys ts \<subseteq> hm_keys deg \<Longrightarrow>
   hm_keys deg' = hm_keys deg \<and> (hm_ok deg \<longrightarrow> hm_ok deg') \<and>
   (\<forall>x c. count_list (lookup_or [] adj' x) c = count_list (lookup_or [] adj x) c
      + (case map_of ts c of Some t \<Rightarrow> count_list (tk_dependencies t) x | None \<Rightarrow> 0)) \<and>
   (\<forall>c. lookup_or 0 deg' c = lookup_or 0 deg c
      + (case map_of ts c of Some t \<Rightarrow> length (tk_dependencies t) | None \<Rightarrow> 0))"
proof (induction ts arbitrary: adj deg)
  case (Cons a ts)
  obtain i t where a: "a = (i, t)" by force
  obtain adj1 deg1 where e: "fold (add_edge i) (tk_dependencies t) (adj, deg) = (adj1, deg1)" by force
  have i: "i \<in> hm_keys deg" "map_of ts i = None"
    using Cons.prems(2,3) a by (auto simp: map_of_eq_None_iff)
  note first = add_edges_spec [OF e i(1)]
  have "fold (\<lambda>(i, t) st. fold (add_edge i) (tk_dependencies t) st) ts (adj1, deg1) = (adj', deg')"
    using Cons.prems(1) a e by simp
  then have "hm_keys deg' = hm_keys deg1 \<and> (hm_ok deg1 \<longrightarrow> hm_ok deg') \<and>
     (\<forall>x c. count_list (lookup_or [] adj' x) c = count_list (lookup_or [] adj1 x) c
        + (case map_of ts c of Some t \<Rightarrow> count_list (tk_dependencies t) x | None \<Rightarrow> 0)) \<and>
     (\<forall>c. lookup_or 0 deg' c = lookup_or 0 deg1 c
        + (case map_of ts c of Some t \<Rightarrow> length (tk_dependencies t) | None \<Rightarrow> 0))"
    using Cons.prems(2,3) a first by (intro Cons.IH) auto
  then show ?case using first i(2) a by simp
qed simp

lemma build_graph_spec:
  assumes "build_graph p = (adj, deg)" and "hm_ok (pl_tasks p)"
  shows "hm_ok deg" and "hm_keys deg = ids p"
    and "count_list (lookup_or [] adj x) c = count_list (deps p c) x"
    and "i \<in> ids p \<Longrightarrow> map_of deg i = Some (length (deps p i))"
proof -
  let ?deg0 = "map (\<lambda>(i, _). (i, 0 :: nat)) (pl_tasks p)"
  have k0: "hm_keys ?deg0 = ids p" by (force simp: ids_def)
  have ok0: "hm_ok ?deg0" using assms(2) by (simp add: comp_def case_prod_beta)
  have z: "lookup_or 0 ?deg0 c = 0" for c
    by (auto simp: lookup_or_def split: option.split dest!: map_of_SomeD)
  note sp = build_loop_spec [OF assms(1) [unfolded build_graph_def] assms(2)]
  show "hm_ok deg" and keys: "hm_keys deg = ids p"
    using sp ok0 k0 by (simp_all add: ids_def)
  show "count_list (lookup_or [] adj x) c = count_list (deps p c) x"
    using sp k0 by (simp add: ids_def deps_def lookup_or_def split: option.split)
  assume i: "i \<in> ids p"
  have "lookup_or 0 deg i = length (deps p i)"
    using sp k0 z by (simp add: ids_def deps_def split: option.split)
  moreover have "map_of deg i \<noteq> None" using i keys by (simp add: map_of_eq_None_iff)
  ultimately show "map_of deg i = Some (length (deps p i))" by (auto simp: lookup_or_def)
qed

text \<open>Releasing children: enough degrees never underflow, each child loses its occurrences, and the
  ones that reach zero join the queue once.\<close>

lemma release_spec:
  assumes "\<forall>c n. map_of deg c = Some n \<longrightarrow> count_list cs c \<le> n" and "hm_ok deg"
  shows "\<exists>deg' new. release cs deg q = Some (deg', q @ new) \<and> hm_ok deg' \<and>
    (\<forall>c. map_of deg' c = map_option (\<lambda>n. n - count_list cs c) (map_of deg c)) \<and>
    distinct new \<and> set new = {c \<in> set cs. map_of deg c = Some (count_list cs c)}"
  using assms
proof (induction cs deg q rule: release.induct)
  case (1 deg q)
  then show ?case by (simp add: option.map_ident)
next
  case (2 c cs deg q)
  show ?case
  proof (cases "map_of deg c")
    case None
    have "count_list cs x \<le> count_list (c # cs) x" for x by simp
    then have "\<forall>x n. map_of deg x = Some n \<longrightarrow> count_list cs x \<le> n"
      using 2(3) order_trans by blast
    with 2(1) [OF None _ 2(4)] obtain deg' new where r: "release cs deg q = Some (deg', q @ new)"
      "hm_ok deg'" "\<forall>x. map_of deg' x = map_option (\<lambda>n. n - count_list cs x) (map_of deg x)"
      "distinct new" "set new = {x \<in> set cs. map_of deg x = Some (count_list cs x)}"
      by blast
    have "\<forall>x. map_of deg' x = map_option (\<lambda>n. n - count_list (c # cs) x) (map_of deg x)"
      using r(3) None by simp
    moreover have "x \<noteq> c" if "map_of deg x = Some k" for x k using that None by auto
    then have "set new = {x \<in> set (c # cs). map_of deg x = Some (count_list (c # cs) x)}"
      unfolding r(5) by fastforce
    ultimately show ?thesis using r(1,2,4) None
      by (intro exI [where x = deg'] exI [where x = new] conjI) simp_all
  next
    case (Some n)
    have le: "count_list (c # cs) x \<le> k" if "map_of deg x = Some k" for x k using 2(3) that by blast
    have n: "n \<noteq> 0" "count_list cs c \<le> n - 1" using le [OF Some] by auto
    let ?deg = "AList.update c (n - 1) deg" and ?q = "if n - 1 = 0 then q @ [c] else q"
    have "count_list cs x \<le> k" if "map_of ?deg x = Some k" for x k
      using that n le [of x k] by (cases "x = c") auto
    then have pre: "\<forall>x k. map_of ?deg x = Some k \<longrightarrow> count_list cs x \<le> k" by blast
    have ok: "hm_ok ?deg" using 2(4) by simp
    from 2(2) [OF Some n(1) pre ok] obtain deg' new where r: "release cs ?deg ?q = Some (deg', ?q @ new)"
      "hm_ok deg'" "\<forall>x. map_of deg' x = map_option (\<lambda>n. n - count_list cs x) (map_of ?deg x)"
      "distinct new" "set new = {x \<in> set cs. map_of ?deg x = Some (count_list cs x)}"
      by (elim exE conjE) blast
    have deg': "\<forall>x. map_of deg' x = map_option (\<lambda>n. n - count_list (c # cs) x) (map_of deg x)"
    proof
      fix x show "map_of deg' x = map_option (\<lambda>n. n - count_list (c # cs) x) (map_of deg x)"
        using r(3) Some by (cases "x = c") auto
    qed
    have new: "x \<in> set new \<longleftrightarrow> x \<in> set cs \<and> map_of deg x = Some (count_list (c # cs) x)" for x
      using n Some unfolding r(5) by (cases "x = c") auto
    show ?thesis
    proof (cases "n - 1 = 0")
      case True
      with n have c: "c \<notin> set cs" "n = 1" by (auto simp: count_list_0_iff)
      have "x \<in> set (c # new) \<longleftrightarrow> x \<in> set (c # cs) \<and> map_of deg x = Some (count_list (c # cs) x)" for x
        using new [of x] Some c count_notin [OF c(1)] by (cases "x = c") simp_all
      then have "set (c # new) = {x \<in> set (c # cs). map_of deg x = Some (count_list (c # cs) x)}"
        by blast
      moreover have "distinct (c # new)" using r(4) new c by simp
      moreover have "release (c # cs) deg q = Some (deg', q @ (c # new))" using r(1) Some n True by simp
      ultimately show ?thesis using r(2) deg'
        by (intro exI [where x = deg'] exI [where x = "c # new"] conjI) simp_all
    next
      case False
      have "c \<in> set cs" if "n = count_list (c # cs) c"
        using that False by (cases "c \<in> set cs") (simp_all add: count_notin)
      then have "x \<in> set new \<longleftrightarrow> x \<in> set (c # cs) \<and> map_of deg x = Some (count_list (c # cs) x)" for x
        using new [of x] Some by (cases "x = c") auto
      then have "set new = {x \<in> set (c # cs). map_of deg x = Some (count_list (c # cs) x)}"
        by blast
      moreover have "release (c # cs) deg q = Some (deg', q @ new)" using r(1) Some n False by simp
      ultimately show ?thesis using r(2,4) deg'
        by (intro exI [where x = deg'] exI [where x = new] conjI) simp_all
    qed
  qed
qed

section \<open>Kahn's loop\<close>

text \<open>The invariant: what left the queue and what is in it are different tasks, the degree of a task
  counts its dependencies that have not left the queue, the tasks of degree zero are exactly those seen,
  and each task left after its dependencies.\<close>

definition topological :: "plan \<Rightarrow> string list \<Rightarrow> bool" where
  "topological p order \<longleftrightarrow> (\<forall>xs i ys. order = xs @ i # ys \<longrightarrow> set (deps p i) \<subseteq> set xs)"

definition kahn_inv :: "plan \<Rightarrow> string list \<Rightarrow> degrees \<Rightarrow> string list \<Rightarrow> bool" where
  "kahn_inv p q deg order \<longleftrightarrow> hm_ok deg \<and> hm_keys deg = ids p \<and> distinct (order @ q) \<and>
     (\<forall>i \<in> ids p. map_of deg i = Some (length (filter (\<lambda>d. d \<notin> set order) (deps p i)))) \<and>
     set (order @ q) = {i \<in> ids p. set (deps p i) \<subseteq> set order} \<and> topological p order"

lemma topological_snoc:
  assumes "topological p order" and "set (deps p i) \<subseteq> set order"
  shows "topological p (order @ [i])"
  unfolding topological_def
proof (intro allI impI)
  fix xs j ys assume eq: "order @ [i] = xs @ j # ys"
  show "set (deps p j) \<subseteq> set xs"
  proof (cases ys rule: rev_cases)
    case Nil
    then show ?thesis using eq assms(2) by simp
  next
    case (snoc zs z)
    then have "order = xs @ j # zs" using eq by simp
    then show ?thesis using assms(1) by (auto simp: topological_def)
  qed
qed

lemma filter_not_snoc:
  "i \<notin> set order \<Longrightarrow> length (filter (\<lambda>d. d \<notin> set (order @ [i])) ds)
     = length (filter (\<lambda>d. d \<notin> set order) ds) - count_list ds i \<and>
   count_list ds i \<le> length (filter (\<lambda>d. d \<notin> set order) ds)"
proof (induction ds)
  case (Cons d ds)
  then show ?case by (cases "d = i") (auto simp: Suc_diff_le)
qed simp

lemma kahn_step:
  assumes inv: "kahn_inv p (i # q) deg order"
    and adj: "\<forall>x c. count_list (lookup_or [] adj x) c = count_list (deps p c) x"
  shows "\<exists>deg' q'. release (lookup_or [] adj i) deg q = Some (deg', q') \<and> kahn_inv p q' deg' (order @ [i])"
proof -
  let ?cs = "lookup_or [] adj i" and ?order = "order @ [i]"
  have i: "i \<in> ids p" "set (deps p i) \<subseteq> set order" "i \<notin> set order" "i \<notin> set q"
    using inv by (auto simp: kahn_inv_def)
  have keys: "map_of deg c = None" if "c \<notin> ids p" for c
    using inv that by (auto simp: kahn_inv_def map_of_eq_None_iff)
  have deg: "map_of deg c = Some (length (filter (\<lambda>d. d \<notin> set order) (deps p c)))" if "c \<in> ids p" for c
    using inv that by (simp add: kahn_inv_def)
  note cnt = filter_not_snoc [OF i(3)]
  have "\<forall>c n. map_of deg c = Some n \<longrightarrow> count_list ?cs c \<le> n"
    using keys deg cnt adj by (metis option.distinct(1) option.inject)
  moreover have ok: "hm_ok deg" using inv by (simp add: kahn_inv_def)
  ultimately obtain deg' new where r: "release ?cs deg q = Some (deg', q @ new)" "hm_ok deg'"
    "\<forall>c. map_of deg' c = map_option (\<lambda>n. n - count_list ?cs c) (map_of deg c)" "distinct new"
    "set new = {c \<in> set ?cs. map_of deg c = Some (count_list ?cs c)}"
    using release_spec [of deg ?cs q] by blast
  have deg': "\<forall>c \<in> ids p. map_of deg' c = Some (length (filter (\<lambda>d. d \<notin> set ?order) (deps p c)))"
    using r(3) deg cnt adj by simp
  have keys': "hm_keys deg' = ids p"
    using r(3) keys deg by (auto simp: dom_map_of_conv_image_fst [symmetric] dom_def) (metis option.distinct(1))
  have new: "c \<in> set new \<longleftrightarrow> c \<in> ids p \<and> i \<in> set (deps p c) \<and> set (deps p c) \<subseteq> set ?order" for c
  proof (cases "c \<in> ids p")
    case True
    have "c \<in> set ?cs \<longleftrightarrow> i \<in> set (deps p c)" using adj by (metis count_list_0_iff)
    moreover have "map_of deg c = Some (count_list ?cs c) \<longleftrightarrow>
        length (filter (\<lambda>d. d \<notin> set ?order) (deps p c)) = 0"
      using deg [OF True] cnt [of "deps p c"] adj by auto
    ultimately show ?thesis using r(5) True by (auto simp: filter_empty_conv)
  next
    case False
    then show ?thesis using r(5) keys by auto
  qed
  have seen: "set (order @ i # q) = {c \<in> ids p. set (deps p c) \<subseteq> set order}"
    using inv by (simp add: kahn_inv_def)
  have set': "set (?order @ q @ new) = {c \<in> ids p. set (deps p c) \<subseteq> set ?order}"
    using seen new by auto
  have "set new \<inter> set (order @ i # q) = {}" using seen new i(3) by auto
  then have "distinct (?order @ q @ new)" using inv r(4) by (auto simp: kahn_inv_def)
  then have "kahn_inv p (q @ new) deg' ?order"
    using r(2) deg' keys' set' topological_snoc [OF _ i(2)] inv by (simp add: kahn_inv_def)
  then show ?thesis using r(1) by blast
qed

lemma kahn_correct:
  assumes "kahn_inv p q deg order"
    and "\<forall>x c. count_list (lookup_or [] adj x) c = count_list (deps p c) x"
  shows "\<exists>order' deg'. kahn adj q deg order = Some (order', deg') \<and> kahn_inv p [] deg' order'"
  using assms
proof (induction adj q deg order rule: kahn.induct)
  case (1 adj deg order)
  then show ?case by simp
next
  case (2 adj i q deg order)
  then obtain deg' q' where "release (lookup_or [] adj i) deg q = Some (deg', q')"
    "kahn_inv p q' deg' (order @ [i])"
    using kahn_step by blast
  then show ?case using 2 by simp
qed

lemma kahn_inv_initial:
  assumes "build_graph p = (adj, deg)" and "hm_ok (pl_tasks p)" and "mset (shuffle deg) = mset deg"
  shows "kahn_inv p (initial_queue shuffle deg) deg []"
proof -
  note g = build_graph_spec [OF assms(1,2)]
  have same: "set (shuffle deg) = set deg" using assms(3) by (metis set_mset_mset)
  have "mset (map fst (shuffle deg)) = mset (map fst deg)" using assms(3) by simp
  then have "distinct (map fst (shuffle deg))" using g(1) by (metis mset_eq_imp_distinct_iff)
  then have d: "distinct (initial_queue shuffle deg)" by (simp add: initial_queue_def distinct_map_filter)
  have "i \<in> set (initial_queue shuffle deg) \<longleftrightarrow> i \<in> ids p \<and> deps p i = []" for i
  proof -
    have "i \<in> set (initial_queue shuffle deg) \<longleftrightarrow> map_of deg i = Some 0"
      using g(1) by (force simp: initial_queue_def same)
    moreover have "i \<in> ids p" if "map_of deg i = Some 0"
      using that g(2) by (metis map_of_eq_None_iff option.distinct(1))
    ultimately show ?thesis using g(4) [of i] by auto
  qed
  then have "set (initial_queue shuffle deg) = {i \<in> ids p. set (deps p i) \<subseteq> {}}" by auto
  then show ?thesis using g d by (simp add: kahn_inv_def topological_def)
qed

lemma run_kahn_spec:
  assumes "hm_ok (pl_tasks p)" and "\<forall>deg. mset (shuffle deg) = mset deg"
  shows "\<exists>order deg. run_kahn shuffle p = Some (order, deg) \<and> kahn_inv p [] deg order"
proof -
  obtain adj deg where g: "build_graph p = (adj, deg)" by force
  show ?thesis
    using kahn_correct [OF kahn_inv_initial [OF g assms(1)]] build_graph_spec(3) [OF g assms(1)] assms(2)
    by (simp add: run_kahn_def g)
qed

section \<open>Acyclicity\<close>

definition position :: "'a list \<Rightarrow> 'a \<Rightarrow> nat" where
  "position xs x = length (takeWhile (\<lambda>y. y \<noteq> x) xs)"

lemma position_before: "d \<in> set xs \<Longrightarrow> i \<notin> set xs \<Longrightarrow> position (xs @ i # ys) d < position (xs @ i # ys) i"
proof -
  assume d: "d \<in> set xs" and i: "i \<notin> set xs"
  have "position (xs @ i # ys) i = length xs" using i by (induction xs) (auto simp: position_def)
  moreover have "position (xs @ i # ys) d = position xs d" using d by (simp add: position_def)
  moreover have "position xs d < length xs"
    using d by (induction xs) (auto simp: position_def)
  ultimately show ?thesis by simp
qed

lemma topological_acyclic:
  assumes "topological p order" and "distinct order" and "ids p \<subseteq> set order"
  shows "acyclic (dep_rel p)"
proof -
  have "dep_rel p \<subseteq> measure (position order)"
  proof
    fix e assume "e \<in> dep_rel p"
    then obtain d i where e: "e = (d, i)" "i \<in> ids p" "d \<in> set (deps p i)" by (auto simp: dep_rel_def)
    then obtain xs ys where o: "order = xs @ i # ys" using assms(3) by (meson in_set_conv_decomp subsetD)
    then have "d \<in> set xs" "i \<notin> set xs" using e assms(1,2) by (auto simp: topological_def)
    then show "e \<in> measure (position order)" using position_before e(1) o by simp
  qed
  then show ?thesis using acyclic_subset wf_acyclic wf_measure by blast
qed

lemma finite_dep_rel: "finite (dep_rel p)"
proof (rule finite_subset)
  show "dep_rel p \<subseteq> (\<Union>i \<in> ids p. set (deps p i)) \<times> ids p" by (auto simp: dep_rel_def)
qed (simp add: ids_def)

lemma acyclic_all_ordered:
  assumes "kahn_inv p [] deg order" and "deps_closed p" and "acyclic (dep_rel p)"
  shows "set order = ids p"
proof (rule ccontr)
  have seen: "set order = {i \<in> ids p. set (deps p i) \<subseteq> set order}" using assms(1) by (simp add: kahn_inv_def)
  assume "set order \<noteq> ids p"
  then obtain x where x: "x \<in> ids p - set order" using seen by blast
  have "wf (dep_rel p)" using finite_acyclic_wf finite_dep_rel assms(3) by blast
  then obtain z where z: "z \<in> ids p - set order" "\<And>y. (y, z) \<in> dep_rel p \<Longrightarrow> y \<notin> ids p - set order"
    using wfE_min [OF _ x] by blast
  then have "set (deps p z) \<subseteq> set order" using assms(2) by (auto simp: dep_rel_def deps_closed_def)
  then show False using z(1) seen by blast
qed

lemma check_deps_None:
  "check_deps p i ds = None \<longleftrightarrow> i \<notin> set ds \<and> set ds \<subseteq> ids p"
  by (induction ds) (auto simp: ids_def map_of_eq_None_iff)

lemma check_tasks_None:
  assumes "hm_ok (pl_tasks p)"
  shows "check_tasks p (pl_tasks p) = None \<longleftrightarrow> deps_closed p \<and> (\<forall>i \<in> ids p. i \<notin> set (deps p i))"
proof -
  have "check_tasks p ts = None \<longleftrightarrow> (\<forall>(i, t) \<in> set ts. check_deps p i (tk_dependencies t) = None)" for ts
    by (induction ts) (auto split: option.splits)
  moreover have "deps p i = tk_dependencies t" if "(i, t) \<in> set (pl_tasks p)" for i t
    using that assms by (simp add: deps_def)
  ultimately show ?thesis by (fastforce simp: check_deps_None deps_closed_def ids_def)
qed

text \<open>What the scheduler computes, in one statement for the properties.\<close>

lemma run_kahn_full:
  assumes "hm_ok (pl_tasks p)" and "\<forall>deg. mset (shuffle deg) = mset deg"
  shows "\<exists>order deg. run_kahn shuffle p = Some (order, deg) \<and> kahn_inv p [] deg order \<and>
     (length order = length (pl_tasks p) \<longleftrightarrow> set order = ids p)"
proof -
  obtain order deg where k: "run_kahn shuffle p = Some (order, deg)" "kahn_inv p [] deg order"
    using run_kahn_spec [OF assms] by blast
  then have ord: "distinct order" "set order \<subseteq> ids p" by (auto simp: kahn_inv_def)
  have "card (ids p) = length (pl_tasks p)" using assms(1) by (metis distinct_card ids_def length_map list.set_map)
  then have "length order = length (pl_tasks p) \<longleftrightarrow> set order = ids p"
    using ord distinct_card [OF ord(1)] by (metis card_subset_eq finite_set finite_imageI ids_def)
  then show ?thesis using k by blast
qed

lemma acyclic_no_self: "acyclic (dep_rel p) \<Longrightarrow> i \<in> ids p \<Longrightarrow> i \<notin> set (deps p i)"
  by (auto simp: dep_rel_def acyclic_def dest: r_into_trancl)

lemma validate_cases:
  assumes "hm_ok (pl_tasks p)" and "\<forall>deg. mset (shuffle deg) = mset deg"
  shows "(validate shuffle p = Some (Inr ()) \<and> deps_closed p \<and> acyclic (dep_rel p)) \<or>
         (\<exists>e. validate shuffle p = Some (Inl e) \<and> \<not> (deps_closed p \<and> acyclic (dep_rel p)))"
proof (cases "check_tasks p (pl_tasks p)")
  case (Some e)
  then show ?thesis
    using check_tasks_None [OF assms(1)] acyclic_no_self by (auto simp: validate_def)
next
  case None
  then have closed: "deps_closed p" using check_tasks_None [OF assms(1)] by simp
  obtain order deg where k: "run_kahn shuffle p = Some (order, deg)" "kahn_inv p [] deg order"
    "length order = length (pl_tasks p) \<longleftrightarrow> set order = ids p"
    using run_kahn_full [OF assms] by blast
  show ?thesis
  proof (cases "set order = ids p")
    case True
    then have "acyclic (dep_rel p)" using topological_acyclic k(2) by (auto simp: kahn_inv_def)
    then show ?thesis using True None k closed by (simp add: validate_def)
  next
    case False
    then have "\<not> acyclic (dep_rel p)" using acyclic_all_ordered k(2) closed by blast
    then show ?thesis using None k False by (simp add: validate_def)
  qed
qed

lemma from_plan_cases:
  assumes "hm_ok (pl_tasks p)" and "\<forall>deg. mset (shuffle deg) = mset deg"
    and "\<forall>deg. mset (shuffle' deg) = mset deg"
  shows "(\<exists>order. from_plan shuffle shuffle' p = Some (Inr order) \<and> distinct order \<and> set order = ids p \<and>
            topological p order \<and> deps_closed p \<and> acyclic (dep_rel p)) \<or>
         (\<exists>e. from_plan shuffle shuffle' p = Some (Inl e) \<and> \<not> (deps_closed p \<and> acyclic (dep_rel p)))"
proof -
  obtain order deg where k: "run_kahn shuffle' p = Some (order, deg)" "kahn_inv p [] deg order"
    using run_kahn_spec [OF assms(1,3)] by blast
  then have "distinct order" "topological p order" by (auto simp: kahn_inv_def)
  then show ?thesis
    using validate_cases [OF assms(1,2)] k acyclic_all_ordered [OF k(2)]
    by (auto simp: from_plan_def topological_sort_def)
qed

section \<open>Properties\<close>

definition sample_task :: "string \<Rightarrow> string list \<Rightarrow> task" where
  "sample_task i ds = fold depends_on ds (new_task i i JNull)"

definition sample_plan :: plan where
  "sample_plan = fold add_task
     [sample_task ''deploy'' [''test'', ''build''], sample_task ''build'' [], sample_task ''test'' [''build'']]
     (new_plan ''ship'')"

lemma sample_plan_ok: "hm_ok (pl_tasks sample_plan)"
  by code_simp

text \<open>C39. The scheduler never panics on an underflow, and it accepts a plan exactly when each
  dependency names a task of the plan and the dependencies have no cycle, whatever order the hash maps
  are walked in.\<close>

theorem scheduler_accepts_exactly_dags:
  assumes "hm_ok (pl_tasks p)"
    and "\<forall>deg. mset (shuffle deg) = mset deg" and "\<forall>deg. mset (shuffle' deg) = mset deg"
  shows "from_plan shuffle shuffle' p \<noteq> None \<and>
    ((\<exists>order. from_plan shuffle shuffle' p = Some (Inr order)) \<longleftrightarrow>
      (\<forall>i \<in> ids p. set (deps p i) \<subseteq> ids p) \<and> acyclic (dep_rel p))"
  using from_plan_cases [OF assms] by (auto simp: deps_closed_def)

theorem scheduler_accepts_exactly_dags_witness:
  "from_plan rev (\<lambda>deg. deg) sample_plan \<noteq> None \<and>
    ((\<exists>order. from_plan rev (\<lambda>deg. deg) sample_plan = Some (Inr order)) \<longleftrightarrow>
      (\<forall>i \<in> ids sample_plan. set (deps sample_plan i) \<subseteq> ids sample_plan) \<and> acyclic (dep_rel sample_plan))"
  by (rule scheduler_accepts_exactly_dags) (simp_all add: sample_plan_ok)

text \<open>The order that the scheduler caches lists each task of the plan exactly once and after all
  the tasks it depends on.\<close>

theorem cached_order_is_topological:
  assumes "hm_ok (pl_tasks p)"
    and "\<forall>deg. mset (shuffle deg) = mset deg" and "\<forall>deg. mset (shuffle' deg) = mset deg"
    and "from_plan shuffle shuffle' p = Some (Inr order)"
  shows "distinct order \<and> set order = hm_keys (pl_tasks p) \<and>
    (\<forall>xs i ys t d. order = xs @ i # ys \<longrightarrow> map_of (pl_tasks p) i = Some t \<longrightarrow>
       d \<in> set (tk_dependencies t) \<longrightarrow> d \<in> set xs)"
proof -
  have *: "distinct order" "set order = ids p" "topological p order"
    using from_plan_cases [OF assms(1-3)] assms(4) by auto
  moreover have "set (tk_dependencies t) \<subseteq> set xs"
    if "order = xs @ i # ys" "map_of (pl_tasks p) i = Some t" for xs i ys t
    using *(3) that deps_of_task by (metis topological_def)
  ultimately show ?thesis unfolding ids_def by blast
qed

theorem cached_order_is_topological_witness:
  "distinct [''build'', ''test'', ''deploy''] \<and>
   set [''build'', ''test'', ''deploy''] = hm_keys (pl_tasks sample_plan) \<and>
   ''build'' \<in> set [''build''] \<and> ''test'' \<in> set [''build'', ''test'']"
proof -
  note order = cached_order_is_topological [of sample_plan rev "\<lambda>deg. deg" "[''build'', ''test'', ''deploy'']"]
  have "from_plan rev (\<lambda>deg. deg) sample_plan = Some (Inr [''build'', ''test'', ''deploy''])" by code_simp
  moreover have "[''build'', ''test'', ''deploy''] = [''build''] @ ''test'' # [''deploy'']"
    and "[''build'', ''test'', ''deploy''] = [''build'', ''test''] @ ''deploy'' # []" by simp_all
  moreover have "map_of (pl_tasks sample_plan) ''test'' = Some (sample_task ''test'' [''build''])"
    and "map_of (pl_tasks sample_plan) ''deploy'' = Some (sample_task ''deploy'' [''test'', ''build''])"
    and "''build'' \<in> set (tk_dependencies (sample_task ''test'' [''build'']))"
    and "''test'' \<in> set (tk_dependencies (sample_task ''deploy'' [''test'', ''build'']))" by code_simp+
  ultimately show ?thesis using order sample_plan_ok by (metis mset_rev)
qed

text \<open>A plan the scheduler accepted cannot get stuck: as long as no task is running, failed or
  rolled back and the plan is not complete, some task is ready.\<close>

theorem accepted_plan_makes_progress:
  assumes "hm_ok (pl_tasks p)"
    and "\<forall>deg. mset (shuffle deg) = mset deg" and "\<forall>deg. mset (shuffle' deg) = mset deg"
    and "from_plan shuffle shuffle' p = Some (Inr order)"
    and "\<forall>(i, t) \<in> set (pl_tasks p). tk_status t = Pending \<or> tk_status t = Completed"
    and "\<not> is_complete p"
  shows "ready_tasks p \<noteq> []"
proof -
  let ?open = "{i. \<exists>t. map_of (pl_tasks p) i = Some t \<and> tk_status t \<noteq> Completed}"
  have "wf (dep_rel p)" and closed: "deps_closed p"
    using from_plan_cases [OF assms(1-3)] assms(4) finite_acyclic_wf finite_dep_rel by auto
  moreover obtain x where "x \<in> ?open"
    using assms(1,6) by (auto simp: is_complete_def list_all_iff)
  ultimately obtain i where i: "i \<in> ?open" and min: "\<And>d. (d, i) \<in> dep_rel p \<Longrightarrow> d \<notin> ?open"
    using wfE_min [of "dep_rel p" x ?open] by blast
  then obtain t where t: "map_of (pl_tasks p) i = Some t" "tk_status t = Pending" "i \<in> ids p"
    using assms(5) by (fastforce simp: ids_def dest: map_of_SomeD hm_key_in)
  have "\<exists>u. map_of (pl_tasks p) d = Some u \<and> tk_status u = Completed" if d: "d \<in> set (tk_dependencies t)" for d
  proof -
    note deps_of_task [OF t(1)]
    then have "(d, i) \<in> dep_rel p" and "d \<in> ids p"
      using d t(3) closed unfolding dep_rel_def deps_closed_def by fastforce+
    then show ?thesis using min [of d] by (cases "map_of (pl_tasks p) d") (auto simp: ids_def map_of_eq_None_iff)
  qed
  then have "(i, t) \<in> set (filter (\<lambda>(_, t). tk_status t = Pending \<and>
      list_all (\<lambda>dep. case map_of (pl_tasks p) dep of Some d \<Rightarrow> tk_status d = Completed | None \<Rightarrow> False)
        (tk_dependencies t)) (pl_tasks p))"
    using t by (fastforce simp: list_all_iff dest: map_of_SomeD)
  then show ?thesis unfolding ready_tasks_def by (metis (no_types, lifting) empty_iff empty_set list.map_disc_iff)
qed

theorem accepted_plan_makes_progress_witness:
  "ready_tasks (complete_task ''build'' ''ok'' sample_plan) \<noteq> []"
  by (rule accepted_plan_makes_progress [where shuffle = rev and shuffle' = "\<lambda>deg. deg"
        and order = "[''build'', ''test'', ''deploy'']"]) (code_simp, simp, simp, code_simp, code_simp, code_simp)

text \<open>The tasks that a cycle error names are those never released, so a task that only waits for a
  cycle, and is on none, is named too.\<close>

lemma cycle_error_names_tasks_off_the_cycle:
  "from_plan (\<lambda>deg. deg) (\<lambda>deg. deg)
     (fold add_task [sample_task ''a'' [''b''], sample_task ''b'' [''a''], sample_task ''c'' [''a'']]
       (new_plan ''loop''))
   = Some (Inl (Cycle [''a'', ''b'', ''c'']))"
  by code_simp

end
