(* ===== verification/Delegation_Scope.thy ===== *)
theory Delegation_Scope
  imports Prelude
begin

text \<open>
  The contract a delegated child runs under (\<open>delegation/scope.rs\<close>), how the \<open>delegate\<close> tool
  builds it from the arguments of the model (\<open>tools/delegate_tool.rs\<close>), how a handoff builds it for the
  successor (\<open>delegation/coordinator.rs\<close>), and the tool check of the agent loop (\<open>agent/context.rs\<close>).

  Run ids and the id of a new tree are random and are arguments. The relation \<open>scopes\<close> collects the
  scopes that a tree of agents can bring about, each agent calling only tools its scope allows.
\<close>

section \<open>Scopes\<close>

definition delegation_blocked_tools :: "string list" where
  "delegation_blocked_tools = [''clarify'', ''memory'', ''send_message'', ''execute_code'', ''ask_user'']"

record delegation_scope =
  dsc_root_id :: string
  dsc_task_id :: string
  dsc_depth :: u32
  dsc_max_depth :: u32
  dsc_parent_task_id :: "string option"
  dsc_allowed_tools :: "string list option"
  dsc_max_iterations :: "nat option"

definition new_scope :: "string \<Rightarrow> string \<Rightarrow> u32 \<Rightarrow> u32 \<Rightarrow> delegation_scope" where
  "new_scope root task depth max_depth =
     \<lparr>dsc_root_id = root, dsc_task_id = task, dsc_depth = depth, dsc_max_depth = max_depth,
      dsc_parent_task_id = None, dsc_allowed_tools = None, dsc_max_iterations = None\<rparr>"

definition can_delegate :: "delegation_scope \<Rightarrow> bool" where
  "can_delegate sc \<longleftrightarrow> dsc_depth sc < dsc_max_depth sc"

definition is_tool_allowed :: "delegation_scope \<Rightarrow> string \<Rightarrow> bool" where
  "is_tool_allowed sc name =
     (if name \<in> set delegation_blocked_tools then False
      else if name = ''delegate'' \<and> \<not> can_delegate sc then False
      else case dsc_allowed_tools sc of None \<Rightarrow> True | Some allowed \<Rightarrow> name \<in> set allowed)"

definition child_scope ::
  "delegation_scope \<Rightarrow> string \<Rightarrow> string list option \<Rightarrow> nat option \<Rightarrow> delegation_scope" where
  "child_scope sc child_task_id allowed_tools max_iterations =
     \<lparr>dsc_root_id = dsc_root_id sc, dsc_task_id = child_task_id, dsc_depth = dsc_depth sc + 1,
      dsc_max_depth = dsc_max_depth sc, dsc_parent_task_id = Some (dsc_task_id sc),
      dsc_allowed_tools = allowed_tools, dsc_max_iterations = max_iterations\<rparr>"

text \<open>The check of the agent loop: no scope, no restriction.\<close>

definition context_tool_allowed :: "delegation_scope option \<Rightarrow> string \<Rightarrow> bool" where
  "context_tool_allowed d name = (case d of None \<Rightarrow> True | Some sc \<Rightarrow> is_tool_allowed sc name)"

section \<open>The scope of a spawned child\<close>

definition blocked_tools :: "string list" where
  "blocked_tools = [''delegate'', ''clarify'', ''memory'', ''send_message'', ''execute_code'', ''ask_user'']"

definition child_depth :: "delegation_scope option \<Rightarrow> u32" where
  "child_depth parent = (case parent of Some ps \<Rightarrow> dsc_depth ps + 1 | None \<Rightarrow> 1)"

text \<open>The tools of the request without the blocked ones; a child that can delegate keeps \<open>delegate\<close>.\<close>

definition strip_blocked :: "bool \<Rightarrow> string list \<Rightarrow> string list" where
  "strip_blocked can_child_delegate requested =
     filter (\<lambda>t. t \<notin> set blocked_tools \<or> (t = ''delegate'' \<and> can_child_delegate)) requested"

text \<open>The allowed tools of the \<open>spawn\<close> action, with the registry's depth limit \<open>max_depth\<close>.\<close>

definition spawn_allowed_tools :: "u32 \<Rightarrow> delegation_scope option \<Rightarrow> string list \<Rightarrow> string list" where
  "spawn_allowed_tools max_depth parent requested =
     strip_blocked (child_depth parent < max_depth) requested"

definition spawned_scope ::
  "u32 \<Rightarrow> string \<Rightarrow> string \<Rightarrow> delegation_scope option \<Rightarrow> string list \<Rightarrow> nat option \<Rightarrow> delegation_scope" where
  "spawned_scope max_depth new_root run_id parent allowed max_iterations =
     \<lparr>dsc_root_id = (case parent of Some ps \<Rightarrow> dsc_root_id ps | None \<Rightarrow> new_root),
      dsc_task_id = run_id, dsc_depth = child_depth parent, dsc_max_depth = max_depth,
      dsc_parent_task_id = map_option dsc_task_id parent,
      dsc_allowed_tools = (if allowed = [] then None else Some allowed),
      dsc_max_iterations = max_iterations\<rparr>"

text \<open>The scope of the successor of a handoff, from the row of the task that is handed off: its root,
  its id and its depth.\<close>

definition successor_scope :: "u32 \<Rightarrow> string \<Rightarrow> string \<Rightarrow> string \<Rightarrow> u32 \<Rightarrow> delegation_scope" where
  "successor_scope max_depth run_id root handoff_id depth =
     \<lparr>dsc_root_id = root, dsc_task_id = run_id, dsc_depth = depth, dsc_max_depth = max_depth,
      dsc_parent_task_id = Some handoff_id, dsc_allowed_tools = None, dsc_max_iterations = None\<rparr>"

section \<open>Trees of scopes\<close>

text \<open>The registry refuses a depth above its limit \<open>d\<close>; an agent delegates or hands off only when its
  scope allows the tool.\<close>

inductive scopes :: "u32 \<Rightarrow> delegation_scope set \<Rightarrow> bool" for d where
  no_scope: "scopes d {}"
| top_level: "scopes d S \<Longrightarrow> child_depth None \<le> d \<Longrightarrow>
    scopes d (insert (spawned_scope d root run_id None (spawn_allowed_tools d None requested) limit) S)"
| nested: "scopes d S \<Longrightarrow> ps \<in> S \<Longrightarrow> context_tool_allowed (Some ps) ''delegate'' \<Longrightarrow>
    child_depth (Some ps) \<le> d \<Longrightarrow>
    scopes d (insert (spawned_scope d root run_id (Some ps) (spawn_allowed_tools d (Some ps) requested) limit) S)"
| handed_off: "scopes d S \<Longrightarrow> ps \<in> S \<Longrightarrow> context_tool_allowed (Some ps) ''task_state'' \<Longrightarrow>
    dsc_depth ps \<le> d \<Longrightarrow>
    scopes d (insert (successor_scope d run_id (dsc_root_id ps) (dsc_task_id ps) (dsc_depth ps)) S)"

definition scope_ok :: "u32 \<Rightarrow> delegation_scope \<Rightarrow> bool" where
  "scope_ok d sc \<longleftrightarrow> 1 \<le> dsc_depth sc \<and> dsc_depth sc \<le> d \<and> dsc_max_depth sc = d"

lemma u32_succ: "(x :: u32) < y \<Longrightarrow> unat (x + 1) = unat x + 1"
proof -
  assume "x < y"
  then have "unat x + 1 < 2 ^ 32" using unsigned_less [of y, where 'a = nat] by (simp add: word_less_nat_alt)
  then show ?thesis by (simp add: unat_word_ariths)
qed

lemma scopes_ok: "scopes d S \<Longrightarrow> sc \<in> S \<Longrightarrow> scope_ok d sc"
proof (induction arbitrary: sc rule: scopes.induct)
  case (nested S ps root run_id requested limit)
  have "dsc_depth ps < d"
    using nested.IH [OF nested.hyps(2)] nested.hyps(3)
    by (auto simp: scope_ok_def context_tool_allowed_def is_tool_allowed_def can_delegate_def split: if_splits)
  then have "1 \<le> dsc_depth ps + 1" using u32_succ [of "dsc_depth ps" d] by (simp add: word_le_nat_alt)
  then show ?case using nested by (auto simp: scope_ok_def spawned_scope_def child_depth_def)
qed (auto simp: scope_ok_def spawned_scope_def successor_scope_def child_depth_def)

text \<open>One delegation: the child's scope is one level below the parent's.\<close>

definition delegates :: "u32 \<Rightarrow> delegation_scope \<Rightarrow> delegation_scope \<Rightarrow> bool" where
  "delegates d ps sc \<longleftrightarrow> context_tool_allowed (Some ps) ''delegate'' \<and> dsc_max_depth ps = d \<and>
     (\<exists>root run_id requested limit.
        sc = spawned_scope d root run_id (Some ps) (spawn_allowed_tools d (Some ps) requested) limit)"

lemma delegates_deeper:
  assumes "delegates d ps sc"
  shows "unat (dsc_depth sc) = unat (dsc_depth ps) + 1 \<and> dsc_depth sc \<le> d"
proof -
  have less: "dsc_depth ps < d" and eq: "dsc_depth sc = dsc_depth ps + 1"
    using assms by (auto simp: delegates_def context_tool_allowed_def is_tool_allowed_def can_delegate_def
        spawned_scope_def child_depth_def split: if_splits)
  show ?thesis using u32_succ [OF less] less eq by (simp add: word_le_nat_alt word_less_nat_alt)
qed

section \<open>Properties\<close>

text \<open>However agents delegate and hand off, every scope lies between the top level and the depth
  limit, no delegated agent may use a blocked tool, and a scope at the limit may not delegate.\<close>

theorem delegation_stays_in_bounds:
  assumes "scopes d S" and "sc \<in> S"
  shows "1 \<le> dsc_depth sc \<and> dsc_depth sc \<le> d \<and>
    (\<forall>t \<in> set delegation_blocked_tools. \<not> context_tool_allowed (Some sc) t) \<and>
    (dsc_depth sc = d \<longrightarrow> \<not> context_tool_allowed (Some sc) ''delegate'')"
  using scopes_ok [OF assms]
  by (auto simp: scope_ok_def context_tool_allowed_def is_tool_allowed_def can_delegate_def)

definition sample_scope :: "u32 \<Rightarrow> delegation_scope" where
  "sample_scope d = spawned_scope d ''root'' ''run-1'' None (spawn_allowed_tools d None [''delegate'', ''file_read'']) None"

lemma sample_scopes: "scopes 3 {sample_scope 3}"
  unfolding sample_scope_def by (rule top_level [OF no_scope]) code_simp

theorem delegation_stays_in_bounds_witness:
  "1 \<le> dsc_depth (sample_scope 3) \<and> dsc_depth (sample_scope 3) \<le> 3 \<and>
   \<not> context_tool_allowed (Some (sample_scope 3)) ''memory''"
  using delegation_stays_in_bounds [OF sample_scopes, of "sample_scope 3"]
  by (simp add: delegation_blocked_tools_def)

text \<open>Delegation comes to an end: there is no infinite chain of agents each of which was spawned
  by the one before, and a chain that starts at depth 1 has at most as many links as the limit minus
  one.\<close>

theorem delegation_chain_ends:
  "\<not> (\<exists>f. \<forall>i. delegates d (f i) (f (Suc i))) \<and>
   (\<forall>f n. (\<forall>i < n. delegates d (f i) (f (Suc i))) \<and> dsc_depth (f 0) = 1 \<and> 0 < d \<longrightarrow> n \<le> unat d - 1)"
proof -
  have depth: "unat (dsc_depth (f n)) = unat (dsc_depth (f 0)) + n \<and> (0 < n \<longrightarrow> dsc_depth (f n) \<le> d)"
    if "\<forall>i < n. delegates d (f i) (f (Suc i))" for f :: "nat \<Rightarrow> delegation_scope" and n
    using that
  proof (induction n)
    case (Suc n)
    then show ?case using delegates_deeper [of d "f n" "f (Suc n)"] by simp
  qed simp
  have bound: "n \<le> unat d - unat (dsc_depth (f 0))"
    if "\<forall>i < n. delegates d (f i) (f (Suc i))" "dsc_depth (f 0) \<le> d" for f :: "nat \<Rightarrow> delegation_scope" and n
    using depth [OF that(1)] that(2) by (cases n) (auto simp: word_le_nat_alt)
  have "False" if f: "\<forall>i. delegates d (f i) (f (Suc i))" for f :: "nat \<Rightarrow> delegation_scope"
  proof -
    have "unat (dsc_depth (f (Suc (unat d)))) = unat (dsc_depth (f 0)) + Suc (unat d)"
      and "dsc_depth (f (Suc (unat d))) \<le> d" using depth [of "Suc (unat d)" f] f by auto
    then show False by (simp add: word_le_nat_alt)
  qed
  moreover have "n \<le> unat d - 1"
    if "\<forall>i < n. delegates d (f i) (f (Suc i))" "dsc_depth (f 0) = 1" "0 < d"
    for f :: "nat \<Rightarrow> delegation_scope" and n
    using bound [OF that(1)] that(2,3) by (simp add: word_le_nat_alt word_less_nat_alt)
  ultimately show ?thesis by blast
qed

text \<open>The witness: a chain of two delegations under a limit of three.\<close>

definition chain_scope :: "nat \<Rightarrow> delegation_scope" where
  "chain_scope n = (if n = 0 then new_scope ''r'' ''t0'' 1 3
     else spawned_scope 3 ''r'' ''t'' (Some (new_scope ''r'' ''t0'' (of_nat n) 3)) [] None)"

theorem delegation_chain_ends_witness: "(1 :: nat) \<le> unat (3 :: u32) - 1"
proof -
  have "delegates 3 (chain_scope 0) (chain_scope 1)"
    unfolding delegates_def
  proof (intro conjI exI)
    show "context_tool_allowed (Some (chain_scope 0)) ''delegate''" and "dsc_max_depth (chain_scope 0) = 3"
      by code_simp+
    show "chain_scope 1 = spawned_scope 3 ''r'' ''t'' (Some (chain_scope 0)) (spawn_allowed_tools 3 (Some (chain_scope 0)) []) None"
      by (simp add: chain_scope_def new_scope_def spawned_scope_def child_depth_def spawn_allowed_tools_def strip_blocked_def)
  qed
  then have "\<forall>i < 1. delegates 3 (chain_scope i) (chain_scope (Suc i))" by simp
  moreover have "dsc_depth (chain_scope 0) = 1" by code_simp
  ultimately show ?thesis
    using delegation_chain_ends [of 3, THEN conjunct2, THEN spec, of chain_scope, THEN spec, of 1] by simp
qed

text \<open>The allowlist is not inherited: an agent that may delegate can spawn a child with no
  allowlist at all, and the successor of a handoff never has one, so both may use every tool that is not
  blocked, whatever the agent itself may use.\<close>

theorem allowlist_is_not_inherited:
  assumes "context_tool_allowed (Some ps) ''delegate''" and "dsc_max_depth ps = d"
    and "t \<notin> set delegation_blocked_tools" and "t \<noteq> ''delegate''"
  shows "context_tool_allowed (Some (spawned_scope d root run_id (Some ps) (spawn_allowed_tools d (Some ps) []) limit)) t
    \<and> delegates d ps (spawned_scope d root run_id (Some ps) (spawn_allowed_tools d (Some ps) []) limit)
    \<and> context_tool_allowed (Some (successor_scope d run_id (dsc_root_id ps) (dsc_task_id ps) (dsc_depth ps))) t"
proof -
  have "delegates d ps (spawned_scope d root run_id (Some ps) (spawn_allowed_tools d (Some ps) []) limit)"
    unfolding delegates_def using assms(1,2) by blast
  then show ?thesis
    using assms(3,4) by (simp add: context_tool_allowed_def is_tool_allowed_def spawned_scope_def
        spawn_allowed_tools_def strip_blocked_def successor_scope_def)
qed

theorem allowlist_is_not_inherited_witness:
  "\<not> context_tool_allowed (Some (sample_scope 3)) ''shell'' \<and>
   context_tool_allowed (Some (spawned_scope 3 ''root'' ''run-2'' (Some (sample_scope 3))
     (spawn_allowed_tools 3 (Some (sample_scope 3)) []) None)) ''shell''"
proof (rule conjI)
  show "\<not> context_tool_allowed (Some (sample_scope 3)) ''shell''" by code_simp
  have "context_tool_allowed (Some (sample_scope 3)) ''delegate''" "dsc_max_depth (sample_scope 3) = 3"
    and "''shell'' \<notin> set delegation_blocked_tools" "''shell'' \<noteq> ''delegate''" by code_simp+
  from allowlist_is_not_inherited [OF this] show "context_tool_allowed (Some (spawned_scope 3 ''root'' ''run-2''
     (Some (sample_scope 3)) (spawn_allowed_tools 3 (Some (sample_scope 3)) []) None)) ''shell''" by blast
qed

text \<open>A request that names only blocked tools is the widest of all: stripping leaves nothing, and an
  empty list means no allowlist.\<close>

theorem only_blocked_tools_means_all_tools:
  assumes "set requested \<subseteq> set delegation_blocked_tools"
    and "t \<notin> set delegation_blocked_tools" and "t \<noteq> ''delegate''"
  shows "context_tool_allowed
    (Some (spawned_scope d root run_id parent (spawn_allowed_tools d parent requested) limit)) t"
proof -
  have "u \<in> set blocked_tools \<and> u \<noteq> ''delegate''" if "u \<in> set requested" for u
  proof -
    have "u \<in> set delegation_blocked_tools" using that assms(1) by blast
    then show ?thesis by (auto simp: delegation_blocked_tools_def blocked_tools_def)
  qed
  then have "strip_blocked b requested = []" for b by (auto simp: strip_blocked_def filter_empty_conv)
  then show ?thesis using assms(2,3)
    by (simp add: context_tool_allowed_def is_tool_allowed_def spawned_scope_def spawn_allowed_tools_def)
qed

theorem only_blocked_tools_means_all_tools_witness:
  "context_tool_allowed
    (Some (spawned_scope 3 ''root'' ''run-1'' None (spawn_allowed_tools 3 None [''memory'']) None)) ''shell''"
  by (rule only_blocked_tools_means_all_tools) code_simp+

end
