(* ===== verification/Delegation_Store.thy ===== *)
theory Delegation_Store
  imports Delegation_Scope
begin

text \<open>
  The shared task state of delegation trees (\<open>delegation/state.rs\<close>) and the tool through which a child
  reads and writes it (\<open>delegation/task_state_tool.rs\<close>).

  The table is an association list by primary key, in insertion order; a statement that names a missing
  row changes nothing. The three JSON columns hold what the store writes there and are kept parsed; times
  are integers, which order as the RFC 3339 strings do. The event sink is the list of task ids reported.
  Failures of the database other than a duplicate key are not modelled.
\<close>

section \<open>Rows\<close>

record delegation_event =
  ev_ts :: int
  ev_agent :: string
  ev_action :: string
  ev_detail :: string

record artifact_ref =
  af_name :: string
  af_url :: string
  af_size :: nat
  af_producer :: string

record delegation_task =
  dt_id :: string
  dt_root_id :: string
  dt_parent_id :: "string option"
  dt_depth :: u32
  dt_agent_id :: string
  dt_title :: string
  dt_status :: string
  dt_state :: "(string \<times> json) list"
  dt_artifacts :: "artifact_ref list"
  dt_events :: "delegation_event list"
  dt_created_at :: int
  dt_updated_at :: int
  dt_completed_at :: "int option"
  dt_parent_session :: "string option"
  dt_usage_tokens :: int

record task_store =
  st_rows :: "(string \<times> delegation_task) list"
  st_sink :: "string list option"

datatype store_error = Storage string | Missing_Task string | Invalid string

definition is_waiting_handoff :: "delegation_task \<Rightarrow> bool" where
  "is_waiting_handoff t \<longleftrightarrow> dt_status t = ''waiting_handoff''"

record task_snapshot =
  ts_task_id :: string
  ts_root_id :: string
  ts_parent_id :: "string option"
  ts_depth :: u32
  ts_agent_id :: string
  ts_title :: string
  ts_status :: string
  ts_created_at :: int
  ts_updated_at :: int
  ts_completed_at :: "int option"
  ts_usage_tokens :: int
  ts_duration_ms :: "nat option"

definition from_task :: "delegation_task \<Rightarrow> nat option \<Rightarrow> task_snapshot" where
  "from_task t duration =
     \<lparr>ts_task_id = dt_id t, ts_root_id = dt_root_id t, ts_parent_id = dt_parent_id t,
      ts_depth = dt_depth t, ts_agent_id = dt_agent_id t, ts_title = dt_title t,
      ts_status = dt_status t, ts_created_at = dt_created_at t, ts_updated_at = dt_updated_at t,
      ts_completed_at = dt_completed_at t, ts_usage_tokens = dt_usage_tokens t,
      ts_duration_ms = duration\<rparr>"

record new_task_params =
  np_id :: string
  np_root_id :: string
  np_parent_id :: "string option"
  np_depth :: u32
  np_agent_id :: string
  np_title :: string
  np_parent_session :: "string option"

section \<open>The store\<close>

definition new_store :: task_store where
  "new_store = \<lparr>st_rows = [], st_sink = None\<rparr>"

definition with_event_sink :: "task_store \<Rightarrow> task_store" where
  "with_event_sink s = s\<lparr>st_sink := Some []\<rparr>"

definition notify_updated :: "string \<Rightarrow> task_store \<Rightarrow> task_store" where
  "notify_updated i s =
     (case st_sink s of Some ids \<Rightarrow> s\<lparr>st_sink := Some (ids @ [i])\<rparr> | None \<Rightarrow> s)"

text \<open>\<open>UPDATE ... WHERE id = ?\<close>\<close>

definition update_row :: "string \<Rightarrow> (delegation_task \<Rightarrow> delegation_task) \<Rightarrow> task_store \<Rightarrow> task_store" where
  "update_row i f s = s\<lparr>st_rows := map (\<lambda>(k, t). (k, if k = i then f t else t)) (st_rows s)\<rparr>"

definition create_task :: "int \<Rightarrow> new_task_params \<Rightarrow> task_store \<Rightarrow> (store_error + string) \<times> task_store" where
  "create_task now p s =
     (if map_of (st_rows s) (np_id p) \<noteq> None then (Inl (Storage (np_id p)), s)
      else
        (let t = \<lparr>dt_id = np_id p, dt_root_id = np_root_id p, dt_parent_id = np_parent_id p,
                  dt_depth = np_depth p, dt_agent_id = np_agent_id p, dt_title = np_title p,
                  dt_status = ''running'', dt_state = [], dt_artifacts = [], dt_events = [],
                  dt_created_at = now, dt_updated_at = now, dt_completed_at = None,
                  dt_parent_session = np_parent_session p, dt_usage_tokens = 0\<rparr>
         in (Inr (np_id p), notify_updated (np_id p) (s\<lparr>st_rows := st_rows s @ [(np_id p, t)]\<rparr>))))"

text \<open>The sum is stored signed; a negative total is read as zero.\<close>

definition add_usage :: "int \<Rightarrow> string \<Rightarrow> u64 \<Rightarrow> task_store \<Rightarrow> task_store" where
  "add_usage now i delta s =
     notify_updated i (update_row i (\<lambda>t. t\<lparr>dt_usage_tokens := dt_usage_tokens t + sint delta,
                                            dt_updated_at := now\<rparr>) s)"

definition read_task_row :: "delegation_task \<Rightarrow> delegation_task" where
  "read_task_row t = t\<lparr>dt_usage_tokens := max 0 (dt_usage_tokens t)\<rparr>"

definition get_delegation :: "string \<Rightarrow> task_store \<Rightarrow> delegation_task option" where
  "get_delegation i s = map_option read_task_row (map_of (st_rows s) i)"

definition session_prefix :: string where
  "session_prefix = ''delegation:''"

definition max_session_walk_hops :: nat where
  "max_session_walk_hops = 8"

fun session_walk :: "nat \<Rightarrow> string \<Rightarrow> task_store \<Rightarrow> string option" where
  "session_walk 0 i s = None"
| "session_walk (Suc hops) i s =
     (case get_delegation i s of
        None \<Rightarrow> None
      | Some t \<Rightarrow>
          (case dt_parent_session t of
             Some session \<Rightarrow>
               (if \<not> starts_with session session_prefix then Some session
                else case dt_parent_id t of Some parent \<Rightarrow> session_walk hops parent s | None \<Rightarrow> None)
           | None \<Rightarrow>
               (case dt_parent_id t of Some parent \<Rightarrow> session_walk hops parent s | None \<Rightarrow> None)))"

definition root_session_for_task :: "string \<Rightarrow> task_store \<Rightarrow> string option" where
  "root_session_for_task i s = session_walk max_session_walk_hops i s"

definition fail_orphaned_runs :: "int \<Rightarrow> task_store \<Rightarrow> nat \<times> task_store" where
  "fail_orphaned_runs now s =
     (let orphan = (\<lambda>t. dt_status t \<in> {''running'', ''waiting_handoff''})
      in (length (filter (\<lambda>(_, t). orphan t) (st_rows s)),
          s\<lparr>st_rows := map (\<lambda>(k, t). (k, if orphan t
               then t\<lparr>dt_status := ''failed'', dt_updated_at := now\<rparr> else t)) (st_rows s)\<rparr>))"

definition update_state :: "int \<Rightarrow> string \<Rightarrow> (string \<times> json) list \<Rightarrow> task_store \<Rightarrow> task_store" where
  "update_state now i state s =
     notify_updated i (update_row i (\<lambda>t. t\<lparr>dt_state := state, dt_updated_at := now\<rparr>) s)"

definition load_events :: "string \<Rightarrow> task_store \<Rightarrow> delegation_event list" where
  "load_events i s = (case map_of (st_rows s) i of Some t \<Rightarrow> dt_events t | None \<Rightarrow> [])"

definition load_artifacts :: "string \<Rightarrow> task_store \<Rightarrow> artifact_ref list" where
  "load_artifacts i s = (case map_of (st_rows s) i of Some t \<Rightarrow> dt_artifacts t | None \<Rightarrow> [])"

definition append_event :: "int \<Rightarrow> string \<Rightarrow> delegation_event \<Rightarrow> task_store \<Rightarrow> task_store" where
  "append_event now i ev s =
     (let events = load_events i s @ [ev]
      in notify_updated i (update_row i (\<lambda>t. t\<lparr>dt_events := events, dt_updated_at := now\<rparr>) s))"

definition add_artifact :: "int \<Rightarrow> string \<Rightarrow> artifact_ref \<Rightarrow> task_store \<Rightarrow> task_store" where
  "add_artifact now i a s =
     (let artifacts = load_artifacts i s @ [a]
      in notify_updated i (update_row i (\<lambda>t. t\<lparr>dt_artifacts := artifacts, dt_updated_at := now\<rparr>) s))"

definition set_task_status :: "int \<Rightarrow> string \<Rightarrow> string \<Rightarrow> task_store \<Rightarrow> task_store" where
  "set_task_status now i status s =
     (let terminal = (status \<in> {''completed'', ''failed''})
      in notify_updated i (update_row i (\<lambda>t. t\<lparr>dt_status := status, dt_updated_at := now,
           dt_completed_at := (if terminal then Some now else dt_completed_at t)\<rparr>) s))"

definition set_handoff :: "int \<Rightarrow> string \<Rightarrow> string \<Rightarrow> string \<Rightarrow> task_store \<Rightarrow> task_store" where
  "set_handoff now i to_agent summary s =
     (let ev = \<lparr>ev_ts = now, ev_agent = ''agent'', ev_action = ''handoff'',
                ev_detail = ''to '' @ to_agent @ '': '' @ summary\<rparr>;
          events = load_events i s @ [ev]
      in notify_updated i (update_row i (\<lambda>t. t\<lparr>dt_status := ''waiting_handoff'',
           dt_agent_id := to_agent, dt_events := events, dt_updated_at := now\<rparr>) s))"

text \<open>\<open>ORDER BY created_at ASC\<close>, ties in the order of insertion.\<close>

definition tasks_for_root :: "string \<Rightarrow> task_store \<Rightarrow> delegation_task list" where
  "tasks_for_root root s =
     map read_task_row (sort_key dt_created_at (filter (\<lambda>t. dt_root_id t = root) (map snd (st_rows s))))"

definition pending_handoff_for_root :: "string \<Rightarrow> task_store \<Rightarrow> delegation_task option" where
  "pending_handoff_for_root root s =
     (case sort_key dt_created_at
        (filter (\<lambda>t. dt_root_id t = root \<and> is_waiting_handoff t) (map snd (st_rows s))) of
        t # _ \<Rightarrow> Some (read_task_row t) | [] \<Rightarrow> None)"

section \<open>The tool\<close>

datatype state_answer =
    Value string "json option"
  | Value_From string string "json option"
  | Was_Set string json
  | Noted
  | Recorded string string
  | Handed_To string
  | Status_Of delegation_task

text \<open>Each action reads its arguments, then the caller's own task, and changes only that one;
  \<open>get_from\<close> reads another task of the same tree.\<close>

definition own_task :: "delegation_scope \<Rightarrow> task_store \<Rightarrow> store_error + delegation_task" where
  "own_task sc s =
     (case get_delegation (dsc_task_id sc) s of
        Some t \<Rightarrow> Inr t | None \<Rightarrow> Inl (Missing_Task (dsc_task_id sc)))"

definition state_get :: "json \<Rightarrow> delegation_scope \<Rightarrow> task_store \<Rightarrow> store_error + state_answer" where
  "state_get args sc s =
     (case get_str ''key'' args of
        None \<Rightarrow> Inl (Invalid ''key is required for get'')
      | Some key \<Rightarrow>
          (case own_task sc s of Inl e \<Rightarrow> Inl e | Inr t \<Rightarrow> Inr (Value key (map_of (dt_state t) key))))"

definition state_get_from :: "json \<Rightarrow> delegation_scope \<Rightarrow> task_store \<Rightarrow> store_error + state_answer" where
  "state_get_from args sc s =
     (case get_str ''task_id'' args of
        None \<Rightarrow> Inl (Invalid ''task_id is required for get_from'')
      | Some target_id \<Rightarrow>
          (case get_str ''key'' args of
             None \<Rightarrow> Inl (Invalid ''key is required for get_from'')
           | Some key \<Rightarrow>
               (case get_delegation target_id s of
                  None \<Rightarrow> Inl (Missing_Task target_id)
                | Some t \<Rightarrow>
                    (if dt_root_id t \<noteq> dsc_root_id sc
                     then Inl (Invalid (''task '' @ target_id @ '' is outside the caller's delegation tree''))
                     else Inr (Value_From target_id key (map_of (dt_state t) key))))))"

definition state_set ::
  "int \<Rightarrow> string \<Rightarrow> json \<Rightarrow> delegation_scope \<Rightarrow> task_store \<Rightarrow> (store_error + state_answer) \<times> task_store" where
  "state_set now user args sc s =
     (case get_str ''key'' args of
        None \<Rightarrow> (Inl (Invalid ''key is required for set''), s)
      | Some key \<Rightarrow>
          (case json_get ''value'' args of
             None \<Rightarrow> (Inl (Invalid ''value is required for set''), s)
           | Some value \<Rightarrow>
               (case own_task sc s of
                  Inl e \<Rightarrow> (Inl e, s)
                | Inr t \<Rightarrow>
                    (Inr (Was_Set key value),
                     append_event now (dt_id t)
                       \<lparr>ev_ts = now, ev_agent = user, ev_action = ''set_state'', ev_detail = key\<rparr>
                       (update_state now (dt_id t) (AList.update key value (dt_state t)) s)))))"

definition state_append ::
  "int \<Rightarrow> string \<Rightarrow> json \<Rightarrow> delegation_scope \<Rightarrow> task_store \<Rightarrow> (store_error + state_answer) \<times> task_store" where
  "state_append now user args sc s =
     (case get_str ''text'' args of
        None \<Rightarrow> (Inl (Invalid ''text is required for append''), s)
      | Some note \<Rightarrow>
          (case own_task sc s of
             Inl e \<Rightarrow> (Inl e, s)
           | Inr t \<Rightarrow>
               (Inr Noted, append_event now (dt_id t)
                  \<lparr>ev_ts = now, ev_agent = user, ev_action = ''note'', ev_detail = note\<rparr> s)))"

definition state_put_artifact ::
  "int \<Rightarrow> string \<Rightarrow> json \<Rightarrow> delegation_scope \<Rightarrow> task_store \<Rightarrow> (store_error + state_answer) \<times> task_store" where
  "state_put_artifact now user args sc s =
     (case get_str ''name'' args of
        None \<Rightarrow> (Inl (Invalid ''name is required for put_artifact''), s)
      | Some name \<Rightarrow>
          (case get_str ''url'' args of
             None \<Rightarrow> (Inl (Invalid ''url is required for put_artifact''), s)
           | Some url \<Rightarrow>
               (case own_task sc s of
                  Inl e \<Rightarrow> (Inl e, s)
                | Inr t \<Rightarrow>
                    (Inr (Recorded name url),
                     append_event now (dt_id t)
                       \<lparr>ev_ts = now, ev_agent = user, ev_action = ''put_artifact'', ev_detail = name\<rparr>
                       (add_artifact now (dt_id t)
                          \<lparr>af_name = name, af_url = url, af_size = 0, af_producer = user\<rparr> s)))))"

definition state_handoff ::
  "int \<Rightarrow> json \<Rightarrow> delegation_scope \<Rightarrow> task_store \<Rightarrow> (store_error + state_answer) \<times> task_store" where
  "state_handoff now args sc s =
     (case get_str ''to_agent'' args of
        None \<Rightarrow> (Inl (Invalid ''to_agent is required for handoff''), s)
      | Some to_agent \<Rightarrow>
          (let summary = (case get_str ''summary'' args of Some x \<Rightarrow> x | None \<Rightarrow> ''continue the task'')
           in case own_task sc s of
                Inl e \<Rightarrow> (Inl e, s)
              | Inr t \<Rightarrow> (Inr (Handed_To to_agent), set_handoff now (dt_id t) to_agent summary s)))"

definition task_state ::
  "int \<Rightarrow> string \<Rightarrow> json \<Rightarrow> delegation_scope option \<Rightarrow> task_store \<Rightarrow> (store_error + state_answer) \<times> task_store" where
  "task_state now user args scope s =
     (case get_str ''action'' args of
        None \<Rightarrow> (Inl (Invalid ''action is required''), s)
      | Some action \<Rightarrow>
          (case scope of
             None \<Rightarrow> (Inl (Invalid ''no active delegation context for this tool call''), s)
           | Some sc \<Rightarrow>
               (if action = ''get'' then (state_get args sc s, s)
                else if action = ''get_from'' then (state_get_from args sc s, s)
                else if action = ''set'' then state_set now user args sc s
                else if action = ''append'' then state_append now user args sc s
                else if action = ''put_artifact'' then state_put_artifact now user args sc s
                else if action = ''handoff'' then state_handoff now args sc s
                else if action = ''status'' then (map_sum id Status_Of (own_task sc s), s)
                else (Inl (Invalid (''Unknown action: '' @ action)), s))))"

section \<open>Updates of rows\<close>

lemma notify_rows [simp]: "st_rows (notify_updated i s) = st_rows s"
  by (simp add: notify_updated_def split: option.split)

lemma update_row_lookup [simp]:
  "map_of (st_rows (update_row i f s)) k = map_option (if k = i then f else id) (map_of (st_rows s) k)"
proof -
  have "map_of (map (\<lambda>(k, t). (k, if k = i then f t else t)) m) k = map_option (if k = i then f else id) (map_of m k)"
    for m by (induction m) auto
  then show ?thesis by (simp add: update_row_def)
qed

lemma update_row_keys [simp]: "map fst (st_rows (update_row i f s)) = map fst (st_rows s)"
  by (simp add: update_row_def comp_def case_prod_beta)

lemmas store_defs = create_task_def add_usage_def update_state_def append_event_def add_artifact_def
  set_task_status_def set_handoff_def Let_def

lemmas tool_defs = state_set_def state_append_def state_put_artifact_def state_handoff_def own_task_def

text \<open>What no operation changes of a row that exists, and what it may only extend.\<close>

definition row_extends :: "delegation_task \<Rightarrow> delegation_task \<Rightarrow> bool" where
  "row_extends t u \<longleftrightarrow>
     dt_id u = dt_id t \<and> dt_root_id u = dt_root_id t \<and> dt_parent_id u = dt_parent_id t \<and>
     dt_depth u = dt_depth t \<and> dt_created_at u = dt_created_at t \<and>
     dt_parent_session u = dt_parent_session t \<and>
     (\<exists>evs. dt_events u = dt_events t @ evs) \<and> (\<exists>afs. dt_artifacts u = dt_artifacts t @ afs)"

definition store_extends :: "task_store \<Rightarrow> task_store \<Rightarrow> bool" where
  "store_extends s s' \<longleftrightarrow>
     (\<forall>i t. map_of (st_rows s) i = Some t \<longrightarrow> (\<exists>u. map_of (st_rows s') i = Some u \<and> row_extends t u))"

lemma row_extends_refl [simp]: "row_extends t t"
  by (simp add: row_extends_def)

lemma row_extends_trans: "row_extends t u \<Longrightarrow> row_extends u v \<Longrightarrow> row_extends t v"
  by (auto simp: row_extends_def)

lemma store_extends_refl [simp]: "store_extends s s"
  by (simp add: store_extends_def)

lemma store_extends_trans: "store_extends s s1 \<Longrightarrow> store_extends s1 s2 \<Longrightarrow> store_extends s s2"
  unfolding store_extends_def using row_extends_trans by metis

lemma update_row_extends:
  assumes "\<And>t. map_of (st_rows s) i = Some t \<Longrightarrow> row_extends t (f t)"
  shows "store_extends s (notify_updated i (update_row i f s))"
  using assms by (auto simp: store_extends_def)

lemma append_event_extends: "store_extends s (append_event now i ev s)"
  unfolding append_event_def Let_def
  by (rule update_row_extends) (auto simp: load_events_def row_extends_def)

lemma add_artifact_extends: "store_extends s (add_artifact now i a s)"
  unfolding add_artifact_def Let_def
  by (rule update_row_extends) (auto simp: load_artifacts_def row_extends_def)

lemma update_state_extends: "store_extends s (update_state now i st s)"
  unfolding update_state_def by (rule update_row_extends) (auto simp: row_extends_def)

lemma add_usage_extends: "store_extends s (add_usage now i delta s)"
  unfolding add_usage_def by (rule update_row_extends) (auto simp: row_extends_def)

lemma set_task_status_extends: "store_extends s (set_task_status now i status s)"
  unfolding set_task_status_def Let_def by (rule update_row_extends) (auto simp: row_extends_def)

lemma set_handoff_extends: "store_extends s (set_handoff now i to_agent summary s)"
  unfolding set_handoff_def Let_def
  by (rule update_row_extends) (auto simp: load_events_def row_extends_def)

lemma create_task_extends: "create_task now p s = (res, s') \<Longrightarrow> store_extends s s'"
  by (auto simp: create_task_def Let_def store_extends_def map_add_Some_iff split: if_splits)

lemma map_of_map_values: "map_of (map (\<lambda>(k, t). (k, f t)) m) k = map_option f (map_of m k)"
  by (induction m) auto

lemma fail_orphaned_lookup:
  "map_of (st_rows (snd (fail_orphaned_runs now s))) k =
   map_option (\<lambda>t. if dt_status t \<in> {''running'', ''waiting_handoff''}
     then t\<lparr>dt_status := ''failed'', dt_updated_at := now\<rparr> else t) (map_of (st_rows s) k)"
  unfolding fail_orphaned_runs_def Let_def by (simp add: map_of_map_values)

lemma fail_orphaned_extends: "store_extends s (snd (fail_orphaned_runs now s))"
  by (auto simp: store_extends_def fail_orphaned_lookup row_extends_def)

lemmas store_extends_intros = append_event_extends add_artifact_extends update_state_extends
  add_usage_extends set_task_status_extends set_handoff_extends fail_orphaned_extends
  store_extends_refl

lemma task_state_extends:
  assumes "task_state now user args scope s = (res, s')"
  shows "store_extends s s'"
proof -
  have "store_extends s (append_event now i ev (update_state now' i st s))"
    and "store_extends s (append_event now i ev (add_artifact now' i a s))" for now now' i ev st a
    using store_extends_trans store_extends_intros by metis+
  then show ?thesis
    using assms
    by (auto simp: task_state_def tool_defs Let_def intro: store_extends_intros
        split: option.splits if_splits sum.splits)
qed

text \<open>The runs of the store: the operations of the gateway and of the tool, in any order.\<close>

inductive store_step :: "task_store \<Rightarrow> task_store \<Rightarrow> bool" where
  "create_task now p s = (res, s') \<Longrightarrow> store_step s s'"
| "store_step s (add_usage now i delta s)"
| "store_step s (snd (fail_orphaned_runs now s))"
| "store_step s (append_event now i ev s)"
| "store_step s (set_task_status now i status s)"
| "task_state now user args scope s = (res, s') \<Longrightarrow> store_step s s'"

lemma store_step_extends: "store_step s s' \<Longrightarrow> store_extends s s'"
  by (induction rule: store_step.induct)
     (auto intro: store_extends_intros create_task_extends task_state_extends)

lemma store_steps_extend: "store_step\<^sup>*\<^sup>* s s' \<Longrightarrow> store_extends s s'"
  by (induction rule: rtranclp_induct) (auto intro: store_extends_trans store_step_extends)

section \<open>Session routing\<close>

text \<open>\<open>climbs s n i j\<close>: from row \<open>i\<close> to row \<open>j\<close> in \<open>n\<close> steps to the parent, through rows that
  name no user session.\<close>

definition user_session :: "delegation_task \<Rightarrow> string option" where
  "user_session t =
     (case dt_parent_session t of
        Some session \<Rightarrow> if starts_with session session_prefix then None else Some session
      | None \<Rightarrow> None)"

inductive climbs :: "task_store \<Rightarrow> nat \<Rightarrow> string \<Rightarrow> string \<Rightarrow> bool" for s where
  here: "climbs s 0 i i"
| up: "map_of (st_rows s) i = Some t \<Longrightarrow> user_session t = None \<Longrightarrow> dt_parent_id t = Some p \<Longrightarrow>
    climbs s n p j \<Longrightarrow> climbs s (Suc n) i j"

lemma session_walk_Suc:
  "session_walk (Suc hops) i s =
     (case map_of (st_rows s) i of
        None \<Rightarrow> None
      | Some t \<Rightarrow>
          (case user_session t of
             Some u \<Rightarrow> Some u
           | None \<Rightarrow> Option.bind (dt_parent_id t) (\<lambda>p. session_walk hops p s)))"
  by (simp add: get_delegation_def user_session_def read_task_row_def split: option.split)

lemma session_walk_climbs:
  "climbs s n i j \<Longrightarrow> map_of (st_rows s) j = Some t \<Longrightarrow> user_session t = Some u \<Longrightarrow>
   session_walk hops i s = (if n < hops then Some u else None)"
proof (induction arbitrary: hops rule: climbs.induct)
  case (here i)
  then show ?case by (cases hops) (simp_all add: session_walk_Suc del: session_walk.simps(2))
next
  case (up i t p n j)
  then show ?case by (cases hops) (simp_all add: session_walk_Suc del: session_walk.simps(2))
qed

lemma session_walk_Some: "session_walk hops i s = Some u \<Longrightarrow> \<not> starts_with u session_prefix"
proof (induction hops arbitrary: i)
  case (Suc hops)
  then obtain t where t: "map_of (st_rows s) i = Some t"
    by (auto simp del: session_walk.simps(2) simp: session_walk_Suc split: option.splits)
  show ?case
  proof (cases "user_session t")
    case (Some x)
    then have "u = x" using Suc.prems t by (simp del: session_walk.simps(2) add: session_walk_Suc)
    then show ?thesis using Some by (auto simp: user_session_def split: option.splits if_splits)
  next
    case None
    then obtain p where "session_walk hops p s = Some u"
      using Suc.prems t by (auto simp del: session_walk.simps(2) simp: session_walk_Suc bind_eq_Some_conv)
    then show ?thesis by (rule Suc.IH)
  qed
qed simp

section \<open>Properties\<close>

definition sample_params :: "string \<Rightarrow> string option \<Rightarrow> u32 \<Rightarrow> string \<Rightarrow> new_task_params" where
  "sample_params i parent depth session =
     \<lparr>np_id = i, np_root_id = ''root'', np_parent_id = parent, np_depth = depth, np_agent_id = ''coder'',
      np_title = ''work'', np_parent_session = Some session\<rparr>"

definition sample_store :: task_store where
  "sample_store =
     snd (create_task 2 (sample_params ''b'' (Some ''a'') 2 ''delegation:a'')
       (snd (create_task 1 (sample_params ''a'' None 1 ''telegram:42'') new_store)))"

definition sample_own :: delegation_scope where
  "sample_own = child_scope (new_scope ''root'' ''a'' 1 3) ''b'' None None"

definition set_args :: "string \<Rightarrow> json \<Rightarrow> json" where
  "set_args key v = JObject [(''action'', JString ''set''), (''key'', JString key), (''value'', v)]"

definition get_args :: "string \<Rightarrow> json" where
  "get_args key = JObject [(''action'', JString ''get''), (''key'', JString key)]"

text \<open>The ledger is append-only: over any sequence of store and tool operations a task row is never
  removed, its identity, tree, parent, depth, creation time and session never change, and its events and
  artifacts only grow at the end.\<close>

theorem ledger_only_grows:
  assumes "store_step\<^sup>*\<^sup>* s s'" and "map_of (st_rows s) i = Some t"
  shows "\<exists>u. map_of (st_rows s') i = Some u \<and>
    dt_id u = dt_id t \<and> dt_root_id u = dt_root_id t \<and> dt_parent_id u = dt_parent_id t \<and>
    dt_depth u = dt_depth t \<and> dt_created_at u = dt_created_at t \<and> dt_parent_session u = dt_parent_session t \<and>
    (\<exists>evs. dt_events u = dt_events t @ evs) \<and> (\<exists>afs. dt_artifacts u = dt_artifacts t @ afs)"
  using store_steps_extend [OF assms(1)] assms(2) unfolding store_extends_def row_extends_def by blast

theorem ledger_only_grows_witness:
  "\<exists>u. map_of (st_rows (snd (task_state 9 ''u'' (set_args ''k'' JNull) (Some sample_own) sample_store))) ''b'' = Some u \<and>
     dt_root_id u = ''root''"
proof -
  let ?s = "snd (task_state 9 ''u'' (set_args ''k'' JNull) (Some sample_own) sample_store)"
  have "store_step\<^sup>*\<^sup>* sample_store ?s"
    by (rule r_into_rtranclp, rule store_step.intros(6)) (rule prod.collapse [symmetric])
  moreover obtain t where "map_of (st_rows sample_store) ''b'' = Some t" "dt_root_id t = ''root''"
    by (rule that [of "the (map_of (st_rows sample_store) ''b'')"]) code_simp+
  ultimately show ?thesis using ledger_only_grows [of sample_store ?s "''b''" t] by auto
qed

text \<open>The tool is confined: whatever the arguments, it changes no row but that of the caller's own
  task, and what it reads of another task belongs to the caller's tree.\<close>

theorem task_state_confined:
  assumes "task_state now user args (Some sc) s = (res, s')" and "\<forall>i t. map_of (st_rows s) i = Some t \<longrightarrow> dt_id t = i"
  shows "(\<forall>i. i \<noteq> dsc_task_id sc \<longrightarrow> map_of (st_rows s') i = map_of (st_rows s) i) \<and>
    (\<forall>i key v. res = Inr (Value_From i key v) \<longrightarrow>
       (\<exists>t. map_of (st_rows s) i = Some t \<and> dt_root_id t = dsc_root_id sc \<and> v = map_of (dt_state t) key))"
proof -
  have own: "dt_id t = dsc_task_id sc" if "get_delegation (dsc_task_id sc) s = Some t" for t
    using that assms(2) by (auto simp: get_delegation_def read_task_row_def)
  have other: "i \<noteq> dsc_task_id sc \<Longrightarrow> map_of (st_rows s') i = map_of (st_rows s) i" for i
    using assms(1) own
    by (auto simp: task_state_def tool_defs store_defs option.map_id split: option.splits if_splits sum.splits)
  have "\<exists>t. map_of (st_rows s) i = Some t \<and> dt_root_id t = dsc_root_id sc \<and> v = map_of (dt_state t) key"
    if "res = Inr (Value_From i key v)" for i key v
    using assms(1) that
    by (auto simp: task_state_def tool_defs state_get_def state_get_from_def get_delegation_def read_task_row_def
        Let_def split: option.splits if_splits sum.splits)
  then show ?thesis using other by blast
qed

theorem task_state_confined_witness:
  "map_of (st_rows (snd (task_state 9 ''u'' (set_args ''k'' JNull) (Some sample_own) sample_store))) ''a''
   = map_of (st_rows sample_store) ''a''"
proof -
  have rows: "map fst (st_rows sample_store) = [''a'', ''b'']" "map (dt_id \<circ> snd) (st_rows sample_store) = [''a'', ''b'']"
    by code_simp+
  have "dt_id t = i" if "(i, t) \<in> set (st_rows sample_store)" for i t
    using rows that by (auto simp: map_eq_Cons_conv)
  then have "\<forall>i t. map_of (st_rows sample_store) i = Some t \<longrightarrow> dt_id t = i" using map_of_SomeD by fast
  from task_state_confined [OF prod.collapse [symmetric] this] show ?thesis
    by (simp add: sample_own_def child_scope_def)
qed

text \<open>What a child writes under a key it reads back under that key, and its other keys keep their
  values.\<close>

theorem set_then_get:
  assumes "map_of (st_rows s) (dsc_task_id sc) = Some t" and "dt_id t = dsc_task_id sc"
  shows "fst (task_state t2 user2 (get_args k) (Some sc) (snd (task_state t1 user1 (set_args key v) (Some sc) s)))
    = Inr (Value k (if k = key then Some v else map_of (dt_state t) k))"
  using assms
  by (auto simp: task_state_def set_args_def get_args_def get_str_def state_set_def state_get_def own_task_def
      get_delegation_def read_task_row_def update_state_def append_event_def Let_def split: option.splits)

theorem set_then_get_witness:
  "fst (task_state 8 ''u'' (get_args ''k'') (Some sample_own)
     (snd (task_state 7 ''u'' (set_args ''k'' (JBool True)) (Some sample_own) sample_store)))
   = Inr (Value ''k'' (Some (JBool True)))"
proof -
  obtain t where "map_of (st_rows sample_store) ''b'' = Some t" "dt_id t = ''b''"
    by (rule that [of "the (map_of (st_rows sample_store) ''b'')"]) code_simp+
  then show ?thesis using set_then_get [of sample_store sample_own t 8 "''u''" "''k''"]
    by (simp add: sample_own_def child_scope_def)
qed

text \<open>The walk to the root session always ends; it never answers a delegation session; and it finds
  the user session of an ancestor exactly when that ancestor is fewer than eight parents away.\<close>

theorem session_found_within_hops:
  assumes "climbs s n i j" and "map_of (st_rows s) j = Some t"
    and "dt_parent_session t = Some u" and "\<not> starts_with u ''delegation:''"
  shows "root_session_for_task i s = (if n < 8 then Some u else None) \<and>
    (\<forall>k x. root_session_for_task k s = Some x \<longrightarrow> \<not> starts_with x ''delegation:'')"
proof -
  have "user_session t = Some u" using assms(3,4) by (simp add: user_session_def session_prefix_def)
  then have "root_session_for_task i s = (if n < 8 then Some u else None)"
    using session_walk_climbs [OF assms(1,2)] by (simp add: root_session_for_task_def max_session_walk_hops_def)
  then show ?thesis using session_walk_Some unfolding root_session_for_task_def session_prefix_def by blast
qed

theorem session_found_within_hops_witness: "root_session_for_task ''b'' sample_store = Some ''telegram:42''"
proof -
  obtain t where a: "map_of (st_rows sample_store) ''a'' = Some t" "dt_parent_session t = Some ''telegram:42''"
    by (rule that [of "the (map_of (st_rows sample_store) ''a'')"]) code_simp+
  obtain u where b: "map_of (st_rows sample_store) ''b'' = Some u" "user_session u = None" "dt_parent_id u = Some ''a''"
    by (rule that [of "the (map_of (st_rows sample_store) ''b'')"]) code_simp+
  have "climbs sample_store (Suc 0) ''b'' ''a''" by (rule climbs.up [OF b climbs.here])
  then show ?thesis using session_found_within_hops [OF _ a] by (simp add: starts_with_def)
qed

text \<open>The startup sweep fails every task left running or waiting for a handoff and no other, and
  running it again finds nothing; but a swept task keeps no completion time, unlike every task that
  \<open>set_status\<close> ends.\<close>

theorem orphan_sweep:
  assumes "map_of (st_rows s) i = Some t" and "fail_orphaned_runs now s = (n, s')"
  shows "(\<exists>u. map_of (st_rows s') i = Some u \<and> dt_completed_at u = dt_completed_at t \<and>
       dt_status u = (if dt_status t \<in> {''running'', ''waiting_handoff''} then ''failed'' else dt_status t)) \<and>
    fst (fail_orphaned_runs now' s') = 0"
proof -
  have s': "s' = snd (fail_orphaned_runs now s)" using assms(2) by simp
  have "\<not> (\<exists>x \<in> set (st_rows s'). dt_status (snd x) \<in> {''running'', ''waiting_handoff''})"
    unfolding s' fail_orphaned_runs_def Let_def by (auto split: if_splits)
  then have "fst (fail_orphaned_runs now' s') = 0"
    by (simp add: fail_orphaned_runs_def Let_def filter_empty_conv case_prod_beta)
  then show ?thesis unfolding s' fail_orphaned_lookup by (simp add: assms(1))
qed

theorem orphan_sweep_witness:
  "\<exists>u. map_of (st_rows (snd (fail_orphaned_runs 50 sample_store))) ''a'' = Some u \<and>
     dt_status u = ''failed'' \<and> dt_completed_at u = None"
proof -
  obtain t where "map_of (st_rows sample_store) ''a'' = Some t" "dt_status t = ''running''" "dt_completed_at t = None"
    by (rule that [of "the (map_of (st_rows sample_store) ''a'')"]) code_simp+
  then show ?thesis using orphan_sweep [OF _ prod.collapse [symmetric], of sample_store "''a''" t 50] by auto
qed

end
