(* ===== verification/Subagent_Registry.thy ===== *)
theory Subagent_Registry
  imports Prelude
begin

text \<open>
  The registry of subagent runs (\<open>agent/subagent_registry.rs\<close>): spawning under a depth and a
  concurrency limit, completion, killing, queries, the periodic cleanup and the crash-recovery records.

  Instants are integers that start at 0, the earliest instant the platform represents. The random run id
  that \<open>spawn\<close> draws is an argument. The counters of the metrics are natural numbers. The closure that
  \<open>spawn\<close> launches in the background is not part of the registry; the run relation below keeps the
  launched tasks that have not reported yet beside it. The notification of waiters, and with it
  \<open>wait_for_completion\<close>, is not modelled, but \<open>check_run\<close>, what a waiter returns, is.
\<close>

section \<open>Data\<close>

datatype subagent_status =
    Run_Running
  | Run_Completed string
  | Run_Failed string
  | Run_Killed

record subagent_run =
  sr_run_id :: string
  sr_parent_session :: string
  sr_child_session :: string
  sr_target_agent :: string
  sr_status :: subagent_status
  sr_spawn_depth :: u32
  sr_started_at :: int
  sr_completed_at :: "int option"

record subagent_metrics =
  sm_total_spawned :: nat
  sm_total_completed :: nat
  sm_total_failed :: nat
  sm_total_killed :: nat

datatype run_outcome = Outcome_Completed string | Outcome_Failed string

record run_record =
  rr_run_id :: string
  rr_parent_session :: string
  rr_child_session :: string
  rr_target_agent :: string
  rr_spawn_depth :: u32
  rr_started_at :: int
  rr_completed_at :: int
  rr_outcome :: run_outcome

record subagent_registry =
  sg_runs :: "(string \<times> subagent_run) list"
  sg_metrics :: subagent_metrics
  sg_max_depth :: u32
  sg_max_concurrent :: nat

datatype subagent_error =
    MaxSpawnDepth u32
  | MaxConcurrentSubagents nat
  | SubagentNotFound
  | SubagentFailed string
  | SubagentKilled

section \<open>Operations\<close>

definition run_elapsed :: "int \<Rightarrow> subagent_run \<Rightarrow> int" where
  "run_elapsed now run =
     max 0 ((case sr_completed_at run of Some t \<Rightarrow> t | None \<Rightarrow> now) - sr_started_at run)"

definition new_subagent_registry :: "u32 \<Rightarrow> nat \<Rightarrow> subagent_registry" where
  "new_subagent_registry max_depth max_concurrent =
     \<lparr>sg_runs = [],
      sg_metrics = \<lparr>sm_total_spawned = 0, sm_total_completed = 0, sm_total_failed = 0, sm_total_killed = 0\<rparr>,
      sg_max_depth = max_depth, sg_max_concurrent = max_concurrent\<rparr>"

definition is_running :: "subagent_run \<Rightarrow> bool" where
  "is_running run \<longleftrightarrow> sr_status run = Run_Running"

definition active_count :: "subagent_registry \<Rightarrow> nat" where
  "active_count r = length (filter (\<lambda>(_, run). is_running run) (sg_runs r))"

definition spawn ::
  "string \<Rightarrow> string \<Rightarrow> string \<Rightarrow> u32 \<Rightarrow> int \<Rightarrow> subagent_registry
     \<Rightarrow> (subagent_error + string) \<times> subagent_registry" where
  "spawn run_id parent_session target_agent depth now r =
     (if sg_max_depth r < depth then (Inl (MaxSpawnDepth (sg_max_depth r)), r)
      else if sg_max_concurrent r \<le> active_count r
        then (Inl (MaxConcurrentSubagents (sg_max_concurrent r)), r)
      else
        (let run = \<lparr>sr_run_id = run_id, sr_parent_session = parent_session,
                    sr_child_session = parent_session @ '':subagent:'' @ take 8 run_id,
                    sr_target_agent = target_agent, sr_status = Run_Running, sr_spawn_depth = depth,
                    sr_started_at = now, sr_completed_at = None\<rparr>;
             m = sg_metrics r
         in (Inr run_id,
             r\<lparr>sg_runs := AList.update run_id run (sg_runs r),
               sg_metrics := m\<lparr>sm_total_spawned := sm_total_spawned m + 1\<rparr>\<rparr>)))"

definition complete_run :: "string \<Rightarrow> string + string \<Rightarrow> int \<Rightarrow> subagent_registry \<Rightarrow> subagent_registry" where
  "complete_run run_id result now r =
     (case map_of (sg_runs r) run_id of
        None \<Rightarrow> r
      | Some run \<Rightarrow>
          (let m = sg_metrics r; run' = run\<lparr>sr_completed_at := Some now\<rparr>
           in case result of
                Inr output \<Rightarrow>
                  r\<lparr>sg_runs := AList.update run_id (run'\<lparr>sr_status := Run_Completed output\<rparr>) (sg_runs r),
                    sg_metrics := m\<lparr>sm_total_completed := sm_total_completed m + 1\<rparr>\<rparr>
              | Inl err \<Rightarrow>
                  r\<lparr>sg_runs := AList.update run_id (run'\<lparr>sr_status := Run_Failed err\<rparr>) (sg_runs r),
                    sg_metrics := m\<lparr>sm_total_failed := sm_total_failed m + 1\<rparr>\<rparr>))"

definition check_run :: "string \<Rightarrow> subagent_registry \<Rightarrow> (subagent_error + string) option" where
  "check_run run_id r =
     (case map_of (sg_runs r) run_id of
        None \<Rightarrow> Some (Inl SubagentNotFound)
      | Some run \<Rightarrow>
          (case sr_status run of
             Run_Completed out \<Rightarrow> Some (Inr out)
           | Run_Failed err \<Rightarrow> Some (Inl (SubagentFailed err))
           | Run_Killed \<Rightarrow> Some (Inl SubagentKilled)
           | Run_Running \<Rightarrow> None))"

definition kill :: "string \<Rightarrow> int \<Rightarrow> subagent_registry \<Rightarrow> (subagent_error + unit) \<times> subagent_registry" where
  "kill run_id now r =
     (case map_of (sg_runs r) run_id of
        None \<Rightarrow> (Inl SubagentNotFound, r)
      | Some run \<Rightarrow>
          (let m = sg_metrics r
           in (Inr (),
               r\<lparr>sg_runs := AList.update run_id
                   (run\<lparr>sr_status := Run_Killed, sr_completed_at := Some now\<rparr>) (sg_runs r),
                 sg_metrics := m\<lparr>sm_total_killed := sm_total_killed m + 1\<rparr>\<rparr>)))"

definition get_run :: "string \<Rightarrow> subagent_registry \<Rightarrow> subagent_run option" where
  "get_run run_id r = map_of (sg_runs r) run_id"

definition runs_for_session :: "string \<Rightarrow> subagent_registry \<Rightarrow> subagent_run list" where
  "runs_for_session session r = filter (\<lambda>run. sr_parent_session run = session) (map snd (sg_runs r))"

definition active_runs_for_target :: "string \<Rightarrow> subagent_registry \<Rightarrow> subagent_run list" where
  "active_runs_for_target target r =
     filter (\<lambda>run. sr_target_agent run = target \<and> is_running run) (map snd (sg_runs r))"

definition get_depth :: "string \<Rightarrow> subagent_registry \<Rightarrow> u32" where
  "get_depth session r =
     (case find (\<lambda>run. sr_child_session run = session) (map snd (sg_runs r)) of
        Some run \<Rightarrow> sr_spawn_depth run | None \<Rightarrow> 0)"

definition cleanup_runs :: "int \<Rightarrow> int \<Rightarrow> subagent_registry \<Rightarrow> subagent_registry" where
  "cleanup_runs max_age now r =
     (let cutoff = (if max_age \<le> now then now - max_age else now)
      in r\<lparr>sg_runs := hm_retain (\<lambda>_ run. is_running run
             \<or> (case sr_completed_at run of Some t \<Rightarrow> cutoff < t | None \<Rightarrow> True)) (sg_runs r)\<rparr>)"

text \<open>Records keep wall-clock times; \<open>sys\<close> is the system clock at the time of the call, in the unit of
  the instants and not smaller than any elapsed time.\<close>

definition record_of :: "int \<Rightarrow> int \<Rightarrow> subagent_run \<Rightarrow> run_record option" where
  "record_of now sys run =
     (case (case sr_status run of
              Run_Completed out \<Rightarrow> Some (Outcome_Completed out)
            | Run_Failed err \<Rightarrow> Some (Outcome_Failed err)
            | _ \<Rightarrow> None) of
        None \<Rightarrow> None
      | Some outcome \<Rightarrow> Some
          \<lparr>rr_run_id = sr_run_id run, rr_parent_session = sr_parent_session run,
           rr_child_session = sr_child_session run, rr_target_agent = sr_target_agent run,
           rr_spawn_depth = sr_spawn_depth run,
           rr_started_at = sys - max 0 (now - sr_started_at run),
           rr_completed_at = sys - (case sr_completed_at run of Some t \<Rightarrow> max 0 (now - t) | None \<Rightarrow> 0),
           rr_outcome = outcome\<rparr>)"

definition persist_records :: "int \<Rightarrow> int \<Rightarrow> subagent_registry \<Rightarrow> run_record list" where
  "persist_records now sys r = List.map_filter (record_of now sys) (map snd (sg_runs r))"

section \<open>Well-formed registries\<close>

definition run_ok :: "u32 \<Rightarrow> string \<Rightarrow> subagent_run \<Rightarrow> bool" where
  "run_ok limit k run \<longleftrightarrow>
     sr_run_id run = k \<and> sr_spawn_depth run \<le> limit \<and> (is_running run \<longleftrightarrow> sr_completed_at run = None)"

definition registry_ok :: "subagent_registry \<Rightarrow> bool" where
  "registry_ok r \<longleftrightarrow> hm_ok (sg_runs r) \<and> active_count r \<le> sg_max_concurrent r \<and>
     (\<forall>k run. map_of (sg_runs r) k = Some run \<longrightarrow> run_ok (sg_max_depth r) k run)"

text \<open>The number of active runs is the size of a set of keys, which is how updates are counted.\<close>

definition active_ids :: "subagent_registry \<Rightarrow> string set" where
  "active_ids r = {k. \<exists>run. map_of (sg_runs r) k = Some run \<and> is_running run}"

lemma active_count_card: "hm_ok (sg_runs r) \<Longrightarrow> active_count r = card (active_ids r)"
proof -
  assume ok: "hm_ok (sg_runs r)"
  let ?a = "filter (\<lambda>(_, run). is_running run) (sg_runs r)"
  have "active_ids r = set (map fst ?a)" using ok by (force simp: active_ids_def)
  moreover have "distinct (map fst ?a)" using ok by (rule distinct_map_filter)
  ultimately show ?thesis by (metis active_count_def distinct_card length_map)
qed

lemma finite_active_ids: "finite (active_ids r)"
  by (rule finite_subset [of _ "fst ` set (sg_runs r)"])
     (auto simp: active_ids_def dest: map_of_SomeD hm_key_in)

text \<open>An update of one run, of which completion and killing are instances.\<close>

lemma registry_ok_finish:
  assumes "registry_ok r" and "run_ok (sg_max_depth r) k run" and "\<not> is_running run"
    and "sg_runs r' = AList.update k run (sg_runs r)"
    and "sg_max_depth r' = sg_max_depth r" and "sg_max_concurrent r' = sg_max_concurrent r"
  shows "registry_ok r' \<and> active_ids r' = active_ids r - {k}"
proof -
  have ok: "hm_ok (sg_runs r')" using assms(1,4) by (simp add: registry_ok_def)
  have ids: "active_ids r' = active_ids r - {k}" using assms(3,4) by (auto simp: active_ids_def)
  then have "active_count r' \<le> active_count r"
    using ok assms(1) by (simp add: active_count_card registry_ok_def card_Diff1_le)
  then show ?thesis using assms ok ids by (auto simp: registry_ok_def)
qed

lemma spawn_ok:
  assumes "registry_ok r" and "k \<notin> hm_keys (sg_runs r)"
    and "spawn k parent target depth now r = (res, r')"
  shows "registry_ok r' \<and> sg_max_depth r' = sg_max_depth r \<and> sg_max_concurrent r' = sg_max_concurrent r"
proof (cases "sg_max_depth r < depth \<or> sg_max_concurrent r \<le> active_count r")
  case True
  then show ?thesis using assms by (auto simp: spawn_def split: if_splits)
next
  case False
  then obtain run where r': "sg_runs r' = AList.update k run (sg_runs r)" "run_ok (sg_max_depth r) k run"
    "is_running run" "sg_max_depth r' = sg_max_depth r" "sg_max_concurrent r' = sg_max_concurrent r"
    using assms(3) by (auto simp: spawn_def Let_def run_ok_def is_running_def)
  have ok: "hm_ok (sg_runs r')" using assms(1) r'(1) by (simp add: registry_ok_def)
  have "k \<notin> active_ids r" using assms(2) by (auto simp: active_ids_def dest: map_of_SomeD hm_key_in)
  moreover have "active_ids r' = insert k (active_ids r)"
    using r'(1,3) by (auto simp: active_ids_def split: if_splits)
  ultimately have "active_count r' = Suc (active_count r)"
    using ok assms(1) finite_active_ids by (simp add: active_count_card registry_ok_def)
  then show ?thesis using False assms(1) ok r' by (auto simp: registry_ok_def)
qed

lemma complete_run_ok:
  assumes "registry_ok r"
  shows "registry_ok (complete_run k res now r) \<and>
    active_ids (complete_run k res now r) = active_ids r - {k} \<and>
    sg_max_depth (complete_run k res now r) = sg_max_depth r \<and>
    sg_max_concurrent (complete_run k res now r) = sg_max_concurrent r"
proof (cases "map_of (sg_runs r) k")
  case None
  then have "complete_run k res now r = r" "k \<notin> active_ids r"
    by (simp_all add: complete_run_def active_ids_def)
  then show ?thesis using assms by simp
next
  case (Some run)
  then have ok: "run_ok (sg_max_depth r) k run" using assms by (simp add: registry_ok_def)
  let ?r = "complete_run k res now r"
  obtain run' where "sg_runs ?r = AList.update k run' (sg_runs r)" "run_ok (sg_max_depth r) k run'"
    "\<not> is_running run'" "sg_max_depth ?r = sg_max_depth r" "sg_max_concurrent ?r = sg_max_concurrent r"
    using Some ok by (cases res) (auto simp: complete_run_def Let_def run_ok_def is_running_def)
  then show ?thesis using registry_ok_finish [OF assms] by metis
qed

lemma kill_ok:
  assumes "registry_ok r" and "kill k now r = (res, r')"
  shows "registry_ok r' \<and> active_ids r' = active_ids r - {k} \<and>
    sg_max_depth r' = sg_max_depth r \<and> sg_max_concurrent r' = sg_max_concurrent r"
proof (cases "map_of (sg_runs r) k")
  case None
  then have "r' = r" "k \<notin> active_ids r" using assms(2) by (simp_all add: kill_def active_ids_def)
  then show ?thesis using assms(1) by simp
next
  case (Some run)
  then have ok: "run_ok (sg_max_depth r) k run" using assms(1) by (simp add: registry_ok_def)
  obtain run' where "sg_runs r' = AList.update k run' (sg_runs r)" "run_ok (sg_max_depth r) k run'"
    "\<not> is_running run'" "sg_max_depth r' = sg_max_depth r" "sg_max_concurrent r' = sg_max_concurrent r"
    using Some ok assms(2) by (auto simp: kill_def Let_def run_ok_def is_running_def)
  then show ?thesis using registry_ok_finish [OF assms(1)] by metis
qed

lemma cleanup_runs_lookup:
  assumes "hm_ok (sg_runs r)"
  shows "map_of (sg_runs (cleanup_runs age now r)) k = Some run \<longleftrightarrow>
    map_of (sg_runs r) k = Some run \<and>
    (is_running run \<or> (case sr_completed_at run of
       Some t \<Rightarrow> (if age \<le> now then now - age else now) < t | None \<Rightarrow> True))"
proof -
  have "map_of (sg_runs (cleanup_runs age now r)) k =
      (case map_of (sg_runs r) k of None \<Rightarrow> None
       | Some run \<Rightarrow> if is_running run \<or> (case sr_completed_at run of
           Some t \<Rightarrow> (if age \<le> now then now - age else now) < t | None \<Rightarrow> True) then Some run else None)"
    by (simp add: cleanup_runs_def Let_def map_of_retain [OF assms])
  then show ?thesis by (cases "map_of (sg_runs r) k") (simp_all, blast)
qed

lemma cleanup_runs_ok:
  assumes "registry_ok r"
  shows "registry_ok (cleanup_runs age now r) \<and> active_ids (cleanup_runs age now r) = active_ids r"
proof -
  let ?r = "cleanup_runs age now r"
  have ok: "hm_ok (sg_runs r)" using assms by (simp add: registry_ok_def)
  note look = cleanup_runs_lookup [OF ok, of age now]
  have same: "sg_max_depth ?r = sg_max_depth r" "sg_max_concurrent ?r = sg_max_concurrent r"
    by (simp_all add: cleanup_runs_def Let_def)
  have ids: "active_ids ?r = active_ids r" unfolding active_ids_def look by blast
  have ok': "hm_ok (sg_runs ?r)" using ok by (simp add: cleanup_runs_def Let_def)
  have "active_count ?r \<le> sg_max_concurrent r"
    unfolding active_count_card [OF ok'] ids active_count_card [OF ok, symmetric]
    using assms by (simp add: registry_ok_def)
  moreover have "\<forall>k run. map_of (sg_runs ?r) k = Some run \<longrightarrow> run_ok (sg_max_depth r) k run"
    using look assms unfolding registry_ok_def by blast
  ultimately show ?thesis using ids ok' same unfolding registry_ok_def by metis
qed

section \<open>Runs of the registry\<close>

text \<open>The registry with the background tasks that were launched and have not reported yet. A task
  reports once, when its work ends; killing a run does not end its task.\<close>

inductive sg_reachable :: "u32 \<Rightarrow> nat \<Rightarrow> subagent_registry \<Rightarrow> string list \<Rightarrow> bool" for d m where
  sg_new: "sg_reachable d m (new_subagent_registry d m) []"
| sg_spawn: "sg_reachable d m r live \<Longrightarrow> k \<notin> hm_keys (sg_runs r) \<Longrightarrow> k \<notin> set live \<Longrightarrow>
    spawn k parent target depth now r = (Inr run_id, r') \<Longrightarrow> sg_reachable d m r' (run_id # live)"
| sg_report: "sg_reachable d m r live \<Longrightarrow> k \<in> set live \<Longrightarrow>
    sg_reachable d m (complete_run k res now r) (remove1 k live)"
| sg_kill: "sg_reachable d m r live \<Longrightarrow> kill k now r = (res, r') \<Longrightarrow> sg_reachable d m r' live"
| sg_cleanup: "sg_reachable d m r live \<Longrightarrow> sg_reachable d m (cleanup_runs age now r) live"

lemma spawn_Inr:
  assumes "spawn k parent target depth now r = (Inr run_id, r')"
  shows "run_id = k" and "active_ids r' \<subseteq> insert k (active_ids r)"
proof -
  show "run_id = k" using assms by (auto simp: spawn_def Let_def split: if_splits)
  have "\<exists>run. sg_runs r' = AList.update k run (sg_runs r)"
    using assms by (auto simp: spawn_def Let_def split: if_splits)
  then show "active_ids r' \<subseteq> insert k (active_ids r)" by (auto simp: active_ids_def split: if_splits)
qed

lemma sg_reachable_inv:
  "sg_reachable d m r live \<Longrightarrow>
   registry_ok r \<and> sg_max_depth r = d \<and> sg_max_concurrent r = m \<and> active_ids r \<subseteq> set live \<and> distinct live"
proof (induction rule: sg_reachable.induct)
  case sg_new
  then show ?case by (simp add: new_subagent_registry_def registry_ok_def active_count_def active_ids_def)
next
  case (sg_spawn r live k parent target depth now run_id r')
  then show ?case using spawn_ok [OF _ sg_spawn.hyps(2,4)] spawn_Inr [OF sg_spawn.hyps(4)] by auto
next
  case (sg_report r live k res now)
  then show ?case using complete_run_ok [of r k res now] by (auto simp: set_remove1_eq)
next
  case (sg_kill r live k now res r')
  then show ?case using kill_ok [of r k now res r'] by auto
next
  case (sg_cleanup r live age now)
  moreover have "sg_max_depth (cleanup_runs age now r) = sg_max_depth r"
    and "sg_max_concurrent (cleanup_runs age now r) = sg_max_concurrent r"
    by (simp_all add: cleanup_runs_def Let_def)
  ultimately show ?case using cleanup_runs_ok [of r age now] by simp
qed

section \<open>Properties\<close>

definition sample_registry :: subagent_registry where
  "sample_registry =
     complete_run ''run-a'' (Inr ''done'') 5
       (snd (spawn ''run-b'' ''s'' ''coder'' 2 3 (snd (spawn ''run-a'' ''s'' ''coder'' 1 2 (new_subagent_registry 3 2)))))"

lemma sample_registry_reachable: "sg_reachable 3 2 sample_registry [''run-b'']"
proof -
  let ?r1 = "snd (spawn ''run-a'' ''s'' ''coder'' 1 2 (new_subagent_registry 3 2))"
  let ?r2 = "snd (spawn ''run-b'' ''s'' ''coder'' 2 3 ?r1)"
  have "spawn ''run-a'' ''s'' ''coder'' 1 2 (new_subagent_registry 3 2) = (Inr ''run-a'', ?r1)"
    and "spawn ''run-b'' ''s'' ''coder'' 2 3 ?r1 = (Inr ''run-b'', ?r2)"
    and "''run-a'' \<notin> hm_keys (sg_runs (new_subagent_registry 3 2))" "''run-b'' \<notin> hm_keys (sg_runs ?r1)"
    by code_simp+
  then have "sg_reachable 3 2 ?r2 [''run-b'', ''run-a'']"
    by (intro sg_spawn [OF sg_spawn [OF sg_new]]) simp_all
  from sg_report [OF this, of "''run-a''" "Inr ''done''" 5] show ?thesis
    by (simp add: sample_registry_def)
qed



text \<open>The cleanup leaves the number of active runs and the answer about every active run as they
  are, forgets a finished run exactly when it ended at or before the cutoff, and adds nothing.\<close>

theorem cleanup_forgets_only_the_old:
  assumes "sg_reachable d m r live" and "age \<le> now"
  shows "active_count (cleanup_runs age now r) = active_count r \<and>
    (map_of (sg_runs (cleanup_runs age now r)) k = Some run \<longleftrightarrow>
       map_of (sg_runs r) k = Some run \<and>
       (sr_completed_at run = None \<or> (\<exists>t. sr_completed_at run = Some t \<and> now - age < t)))"
proof -
  have ok: "registry_ok r" using sg_reachable_inv [OF assms(1)] by simp
  then have ok2: "hm_ok (sg_runs r)" "hm_ok (sg_runs (cleanup_runs age now r))"
    using cleanup_runs_ok [of r age now] by (simp_all add: registry_ok_def)
  have "active_count (cleanup_runs age now r) = active_count r"
    unfolding active_count_card [OF ok2(1)] active_count_card [OF ok2(2)]
    using cleanup_runs_ok [OF ok] by simp
  moreover have "is_running run \<longleftrightarrow> sr_completed_at run = None" if "map_of (sg_runs r) k = Some run"
    using that ok by (simp add: registry_ok_def run_ok_def)
  ultimately show ?thesis
    using cleanup_runs_lookup [OF ok2(1), of age now k run] assms(2)
    by (cases "sr_completed_at run") auto
qed

theorem cleanup_forgets_only_the_old_witness:
  "active_count (cleanup_runs 4 100 sample_registry) = active_count sample_registry \<and>
   map_of (sg_runs (cleanup_runs 4 100 sample_registry)) ''run-a'' = None"
proof -
  note c = cleanup_forgets_only_the_old [OF sample_registry_reachable, of 4 100 "''run-a''"]
  have "map_of (sg_runs sample_registry) ''run-a'' =
      Some \<lparr>sr_run_id = ''run-a'', sr_parent_session = ''s'', sr_child_session = ''s:subagent:run-a'',
        sr_target_agent = ''coder'', sr_status = Run_Completed ''done'', sr_spawn_depth = 1,
        sr_started_at = 2, sr_completed_at = Some 5\<rparr>" by code_simp
  then have "map_of (sg_runs (cleanup_runs 4 100 sample_registry)) ''run-a'' \<noteq> Some run" for run
    using c [of run] by auto
  then show ?thesis using c by (cases "map_of (sg_runs (cleanup_runs 4 100 sample_registry)) ''run-a''") auto
qed

text \<open>Killing does not stick: when the task of a killed run reports its output, the run becomes
  completed, a waiter gets the output, and the run is counted both as killed and as completed.\<close>

theorem killed_run_completes_anyway:
  assumes "map_of (sg_runs r) k = Some run"
  shows "let r' = complete_run k (Inr out) t2 (snd (kill k t1 r))
    in check_run k r' = Some (Inr out) \<and>
       sm_total_killed (sg_metrics r') = sm_total_killed (sg_metrics r) + 1 \<and>
       sm_total_completed (sg_metrics r') = sm_total_completed (sg_metrics r) + 1"
  using assms by (simp add: complete_run_def kill_def check_run_def Let_def)

theorem killed_run_completes_anyway_witness:
  "let r' = complete_run ''run-b'' (Inr ''late'') 8 (snd (kill ''run-b'' 7 sample_registry))
   in check_run ''run-b'' r' = Some (Inr ''late'') \<and>
      sm_total_killed (sg_metrics r') = sm_total_killed (sg_metrics sample_registry) + 1 \<and>
      sm_total_completed (sg_metrics r') = sm_total_completed (sg_metrics sample_registry) + 1"
  by (rule killed_run_completes_anyway) code_simp

text \<open>Killing frees the slot although the task of the run goes on, so the limit bounds the runs that
  are marked running and not the tasks that work.\<close>

lemma kill_and_respawn:
  assumes "sg_reachable d 1 r live" and "active_ids r = {}" and "1 \<le> d"
  shows "\<exists>r' k. sg_reachable d 1 r' (k # live) \<and> active_ids r' = {}"
proof -
  have inv: "registry_ok r" "sg_max_depth r = d" "sg_max_concurrent r = 1"
    using sg_reachable_inv [OF assms(1)] by auto
  then have "active_count r = 0" using assms(2) by (simp add: active_count_card registry_ok_def)
  moreover have "finite (hm_keys (sg_runs r) \<union> set live)" by simp
  then obtain k where k: "k \<notin> hm_keys (sg_runs r)" "k \<notin> set live"
    using ex_new_if_finite [of "hm_keys (sg_runs r) \<union> set live"] infinite_UNIV_listI by auto
  ultimately obtain r1 where s: "spawn k ''s'' ''a'' 1 0 r = (Inr k, r1)"
    using inv assms(3) by (force simp: spawn_def Let_def)
  have r1: "sg_reachable d 1 r1 (k # live)" using sg_spawn [OF assms(1) k s] .
  obtain res r2 where r2: "kill k 0 r1 = (res, r2)" by force
  have "active_ids r2 = active_ids r1 - {k}" using kill_ok [OF _ r2] sg_reachable_inv [OF r1] by simp
  then have "active_ids r2 = {}" using spawn_Inr(2) [OF s] assms(2) by auto
  then show ?thesis using sg_kill [OF r1 r2] by blast
qed

text \<open>With a limit of one concurrent run, cancelling and spawning again lets any number of tasks
  work at the same time.\<close>

theorem limit_does_not_bound_live_tasks:
  assumes "1 \<le> d"
  shows "\<exists>r live. sg_reachable d 1 r live \<and> length live = n \<and> active_count r = 0"
proof -
  have "\<exists>r live. sg_reachable d 1 r live \<and> length live = n \<and> active_ids r = {}"
  proof (induction n)
    case 0
    show ?case by (rule exI, rule exI [where x = "[]"], rule conjI, rule sg_new)
        (simp add: new_subagent_registry_def active_ids_def)
  next
    case (Suc n)
    then obtain r live where "sg_reachable d 1 r live" "length live = n" "active_ids r = {}" by blast
    then show ?case using kill_and_respawn [OF _ _ assms] by (metis length_Cons)
  qed
  then show ?thesis using sg_reachable_inv by (metis active_count_card card.empty registry_ok_def)
qed

theorem limit_does_not_bound_live_tasks_witness:
  "\<exists>r live. sg_reachable 3 1 r live \<and> length live = 50 \<and> active_count r = 0"
  by (rule limit_does_not_bound_live_tasks) simp

end
