(* ===== verification/Delegation_Wake.thy ===== *)
theory Delegation_Wake
  imports Delegation_Store Subagent_Registry
begin

text \<open>
  Waking a parent with the results of its children (\<open>delegation/wake.rs\<close>).

  The dispatcher keeps a buffer per parent session behind one lock. \<open>notify\<close> and the critical section of
  \<open>drain\<close> are the functions of the code, each atomic as the lock makes it; the delivery of a batch happens
  between them without the lock. The relation \<open>wake_step\<close> interleaves them in every possible way, with
  the drain tasks that are under way and two ghost lists, what was sent and what was delivered. The
  specification is a mailbox per session, and the dispatcher refines it.
\<close>

section \<open>The dispatcher\<close>

record session_state =
  ss_buffer :: "string list"
  ss_draining :: bool

type_synonym wake_sessions = "(string \<times> session_state) list"

definition session_entry :: "string \<Rightarrow> wake_sessions \<Rightarrow> session_state" where
  "session_entry p m =
     (case map_of m p of Some e \<Rightarrow> e | None \<Rightarrow> \<lparr>ss_buffer = [], ss_draining = False\<rparr>)"

text \<open>The flag of the result says whether a drain task is spawned.\<close>

definition notify :: "string \<Rightarrow> string \<Rightarrow> wake_sessions \<Rightarrow> bool \<times> wake_sessions" where
  "notify parent_session message m =
     (let e = session_entry parent_session m;
          e1 = e\<lparr>ss_buffer := ss_buffer e @ [message]\<rparr>
      in if ss_draining e1 then (False, AList.update parent_session e1 m)
         else (True, AList.update parent_session (e1\<lparr>ss_draining := True\<rparr>) m))"

text \<open>The critical section of one round of \<open>drain\<close>: a batch to deliver, or the end of the task.\<close>

definition drain_take :: "string \<Rightarrow> wake_sessions \<Rightarrow> string list option \<times> wake_sessions" where
  "drain_take session m =
     (case map_of m session of
        None \<Rightarrow> (None, m)
      | Some e \<Rightarrow>
          (if ss_buffer e = [] then (None, AList.delete session m)
           else (Some (ss_buffer e), AList.update session (e\<lparr>ss_buffer := []\<rparr>) m)))"

definition batch_message :: "string list \<Rightarrow> string" where
  "batch_message batch = join_with ([CHR 0x0A, CHR 0x0A] @ ''---'' @ [CHR 0x0A, CHR 0x0A]) batch"

section \<open>Whom to wake\<close>

definition parent_active_for_wake :: "task_store option \<Rightarrow> string \<Rightarrow> bool" where
  "parent_active_for_wake store parent_session =
     (case strip_prefix ''delegation:'' parent_session of
        None \<Rightarrow> True
      | Some run_id \<Rightarrow>
          (case store of
             None \<Rightarrow> True
           | Some s \<Rightarrow>
               (case get_delegation run_id s of
                  Some t \<Rightarrow> dt_status t \<notin> {''completed'', ''failed'', ''waiting_handoff''}
                | None \<Rightarrow> True)))"

definition child_completion_message :: "string \<Rightarrow> string \<Rightarrow> string" where
  "child_completion_message child_id result =
     ''Your delegated child '' @ child_id @ '' completed.'' @ [CHR 0x0A, CHR 0x0A] @ ''Result:'' @ [CHR 0x0A]
     @ result @ [CHR 0x0A, CHR 0x0A]
     @ ''Summarize or aggregate this result into your current task, then continue. ''
     @ ''If all your delegated children are done, produce your final answer.''"

definition child_failure_message :: "string \<Rightarrow> string \<Rightarrow> string" where
  "child_failure_message child_id error =
     ''Your delegated child '' @ child_id @ '' failed.'' @ [CHR 0x0A, CHR 0x0A] @ ''Error:'' @ [CHR 0x0A]
     @ error @ [CHR 0x0A, CHR 0x0A]
     @ ''Decide whether to retry, re-delegate, or proceed with the partial results ''
     @ ''you already have.''"

definition notify_parent ::
  "subagent_registry \<Rightarrow> task_store option \<Rightarrow> string \<Rightarrow> string \<Rightarrow> wake_sessions \<Rightarrow> bool \<times> wake_sessions" where
  "notify_parent r store child_id message m =
     (case get_run child_id r of
        None \<Rightarrow> (False, m)
      | Some run \<Rightarrow>
          (if \<not> parent_active_for_wake store (sr_parent_session run) then (False, m)
           else notify (sr_parent_session run) message m))"

section \<open>Interleavings\<close>

datatype drain_pc = At_Top | Waking "string list"

record wake_system =
  wy_sessions :: wake_sessions
  wy_tasks :: "(string \<times> drain_pc) list"
  wy_sent :: "(string \<times> string) list"
  wy_woken :: "(string \<times> string list) list"

definition wake_init :: wake_system where
  "wake_init = \<lparr>wy_sessions = [], wy_tasks = [], wy_sent = [], wy_woken = []\<rparr>"

text \<open>A notification, a round of a drain task, the end of a delivery. A delivery that fails ends like one
  that succeeds: the code logs it and goes on.\<close>

inductive drain_step :: "wake_system \<Rightarrow> wake_system \<Rightarrow> bool" where
  take_batch: "wy_tasks w = xs @ (p, At_Top) # ys \<Longrightarrow> drain_take p (wy_sessions w) = (Some batch, m') \<Longrightarrow>
    drain_step w (w\<lparr>wy_sessions := m', wy_tasks := xs @ (p, Waking batch) # ys\<rparr>)"
| stop: "wy_tasks w = xs @ (p, At_Top) # ys \<Longrightarrow> drain_take p (wy_sessions w) = (None, m') \<Longrightarrow>
    drain_step w (w\<lparr>wy_sessions := m', wy_tasks := xs @ ys\<rparr>)"
| woken: "wy_tasks w = xs @ (p, Waking batch) # ys \<Longrightarrow>
    drain_step w (w\<lparr>wy_tasks := xs @ (p, At_Top) # ys, wy_woken := wy_woken w @ [(p, batch)]\<rparr>)"

inductive wake_step :: "wake_system \<Rightarrow> wake_system \<Rightarrow> bool" where
  notified: "notify p msg (wy_sessions w) = (start, m') \<Longrightarrow>
    wake_step w (w\<lparr>wy_sessions := m', wy_sent := wy_sent w @ [(p, msg)],
      wy_tasks := (if start then (p, At_Top) # wy_tasks w else wy_tasks w)\<rparr>)"
| drained: "drain_step w w' \<Longrightarrow> wake_step w w'"

section \<open>The specification\<close>

text \<open>A mailbox: the messages sent and not yet delivered, and the batches delivered, for each session.\<close>

record mailbox =
  mb_pending :: "string \<Rightarrow> string list"
  mb_delivered :: "string \<Rightarrow> string list list"

inductive mailbox_step :: "mailbox \<Rightarrow> mailbox \<Rightarrow> bool" where
  post: "mailbox_step b (b\<lparr>mb_pending := (mb_pending b)(p := mb_pending b p @ [msg])\<rparr>)"
| deliver: "mb_pending b p = batch @ rest \<Longrightarrow> batch \<noteq> [] \<Longrightarrow>
    mailbox_step b (b\<lparr>mb_pending := (mb_pending b)(p := rest),
      mb_delivered := (mb_delivered b)(p := mb_delivered b p @ [batch])\<rparr>)"

definition of_session :: "string \<Rightarrow> (string \<times> 'a) list \<Rightarrow> 'a list" where
  "of_session p xs = map snd (filter (\<lambda>(q, _). q = p) xs)"

definition in_flight :: "drain_pc list \<Rightarrow> string list" where
  "in_flight pcs = concat (map (\<lambda>pc. case pc of At_Top \<Rightarrow> [] | Waking b \<Rightarrow> b) pcs)"

definition mailbox_of :: "wake_system \<Rightarrow> mailbox" where
  "mailbox_of w =
     \<lparr>mb_pending = (\<lambda>p. in_flight (of_session p (wy_tasks w)) @ ss_buffer (session_entry p (wy_sessions w))),
      mb_delivered = (\<lambda>p. of_session p (wy_woken w))\<rparr>"

text \<open>The invariant: an entry exists exactly while one drain task works for its session, and a batch under
  delivery is not empty.\<close>

definition session_inv :: "session_state option \<Rightarrow> drain_pc list \<Rightarrow> bool" where
  "session_inv e pcs \<longleftrightarrow>
     (e = None \<longrightarrow> pcs = []) \<and>
     (\<forall>x. e = Some x \<longrightarrow> ss_draining x \<and> (\<exists>pc. pcs = [pc] \<and> pc \<noteq> Waking []))"

definition wake_inv :: "wake_system \<Rightarrow> bool" where
  "wake_inv w \<longleftrightarrow>
     (\<forall>p. session_inv (map_of (wy_sessions w) p) (of_session p (wy_tasks w))) \<and>
     (\<forall>p. concat (of_session p (wy_woken w)) @ mb_pending (mailbox_of w) p = of_session p (wy_sent w))"

lemma of_session_simps [simp]:
  "of_session p [] = []"
  "of_session p ((q, x) # xs) = (if q = p then x # of_session p xs else of_session p xs)"
  "of_session p (xs @ ys) = of_session p xs @ of_session p ys"
  by (simp_all add: of_session_def)

lemma in_flight_simps [simp]:
  "in_flight [] = []" "in_flight (At_Top # pcs) = in_flight pcs" "in_flight (Waking b # pcs) = b @ in_flight pcs"
  "in_flight (pcs @ pcs') = in_flight pcs @ in_flight pcs'"
  by (simp_all add: in_flight_def)

lemma wake_invD:
  assumes "wake_inv w" and "wy_tasks w = xs @ (p, pc) # ys"
  obtains e where "map_of (wy_sessions w) p = Some e" and "ss_draining e"
    and "of_session p xs = []" and "of_session p ys = []" and "pc \<noteq> Waking []"
proof -
  have "session_inv (map_of (wy_sessions w) p) (of_session p xs @ pc # of_session p ys)"
    using assms unfolding wake_inv_def by (metis of_session_simps(2,3))
  then show ?thesis using that by (cases "map_of (wy_sessions w) p") (auto simp: session_inv_def append_eq_Cons_conv)
qed

text \<open>A step changes the view of one session only.\<close>

lemma wake_inv_frame:
  assumes "wake_inv w"
    and "\<And>q. q \<noteq> p \<Longrightarrow> map_of (wy_sessions w') q = map_of (wy_sessions w) q \<and>
      of_session q (wy_tasks w') = of_session q (wy_tasks w) \<and>
      of_session q (wy_woken w') = of_session q (wy_woken w) \<and> of_session q (wy_sent w') = of_session q (wy_sent w)"
    and "session_inv (map_of (wy_sessions w') p) (of_session p (wy_tasks w'))"
    and "concat (of_session p (wy_woken w')) @ mb_pending (mailbox_of w') p = of_session p (wy_sent w')"
  shows "wake_inv w'"
  unfolding wake_inv_def
proof (intro conjI allI)
  fix q
  show "session_inv (map_of (wy_sessions w') q) (of_session q (wy_tasks w'))"
    using assms(1-3) by (cases "q = p") (simp_all add: wake_inv_def)
  show "concat (of_session q (wy_woken w')) @ mb_pending (mailbox_of w') q = of_session q (wy_sent w')"
    using assms(1,2,4) by (cases "q = p") (simp_all add: wake_inv_def mailbox_of_def session_entry_def)
qed

lemma pending_eq: "mb_pending (mailbox_of w) p =
  in_flight (of_session p (wy_tasks w)) @ (case map_of (wy_sessions w) p of Some e \<Rightarrow> ss_buffer e | None \<Rightarrow> [])"
  by (simp add: mailbox_of_def session_entry_def split: option.split)

lemma drain_take_Some:
  "drain_take p m = (Some batch, m') \<longleftrightarrow>
     (\<exists>e. map_of m p = Some e \<and> batch = ss_buffer e \<and> batch \<noteq> [] \<and> m' = AList.update p (e\<lparr>ss_buffer := []\<rparr>) m)"
  by (auto simp: drain_take_def split: option.splits if_splits)

lemma drain_take_None:
  "drain_take p m = (None, m') \<longleftrightarrow>
     (map_of m p = None \<and> m' = m) \<or> (\<exists>e. map_of m p = Some e \<and> ss_buffer e = [] \<and> m' = AList.delete p m)"
  by (auto simp: drain_take_def split: option.splits if_splits)

lemma wake_inv_pending:
  "wake_inv w \<Longrightarrow> concat (of_session p (wy_woken w)) @ mb_pending (mailbox_of w) p = of_session p (wy_sent w)"
  by (simp add: wake_inv_def)

lemma drain_step_inv: "drain_step w w' \<Longrightarrow> wake_inv w \<Longrightarrow> wake_inv w'"
proof (induction rule: drain_step.induct)
  case (take_batch w xs p ys batch m')
  then obtain e where e: "map_of (wy_sessions w) p = Some e" "ss_draining e" "of_session p xs = []" "of_session p ys = []"
    by (auto elim: wake_invD)
  then have m': "m' = AList.update p (e\<lparr>ss_buffer := []\<rparr>) (wy_sessions w)" "batch = ss_buffer e" "batch \<noteq> []"
    using take_batch(2) by (auto simp: drain_take_Some)
  show ?case
    by (rule wake_inv_frame [OF take_batch(3), of p])
       (use take_batch(1) e m' wake_inv_pending [OF take_batch(3), of p] in \<open>auto simp: session_inv_def pending_eq\<close>)
next
  case (stop w xs p ys m')
  then obtain e where e: "map_of (wy_sessions w) p = Some e" "of_session p xs = []" "of_session p ys = []"
    by (auto elim: wake_invD)
  then have m': "m' = AList.delete p (wy_sessions w)" "ss_buffer e = []"
    using stop(2) by (auto simp: drain_take_None)
  show ?case
    by (rule wake_inv_frame [OF stop(3), of p])
       (use stop(1) e m' wake_inv_pending [OF stop(3), of p] in \<open>auto simp: session_inv_def pending_eq\<close>)
next
  case (woken w xs p batch ys)
  then obtain e where e: "map_of (wy_sessions w) p = Some e" "ss_draining e" "of_session p xs = []" "of_session p ys = []"
    by (auto elim: wake_invD)
  show ?case
    by (rule wake_inv_frame [OF woken(2), of p])
       (use woken(1) e wake_inv_pending [OF woken(2), of p] in \<open>auto simp: session_inv_def pending_eq\<close>)
qed

lemma notify_eq:
  assumes "wake_inv w"
  shows "notify p msg (wy_sessions w) =
    (of_session p (wy_tasks w) = [],
     AList.update p \<lparr>ss_buffer = ss_buffer (session_entry p (wy_sessions w)) @ [msg], ss_draining = True\<rparr> (wy_sessions w))"
proof -
  have rec: "e\<lparr>ss_buffer := b\<rparr> = \<lparr>ss_buffer = b, ss_draining = True\<rparr>" if "ss_draining e" for e :: session_state and b
    using that by (cases e) simp
  have "session_inv (map_of (wy_sessions w) p) (of_session p (wy_tasks w))" using assms by (simp add: wake_inv_def)
  then show ?thesis
    by (cases "map_of (wy_sessions w) p") (auto simp: rec notify_def session_entry_def session_inv_def Let_def)
qed

lemma wake_step_inv: "wake_step w w' \<Longrightarrow> wake_inv w \<Longrightarrow> wake_inv w'"
proof (induction rule: wake_step.induct)
  case (notified p msg w start m')
  have si: "session_inv (map_of (wy_sessions w) p) (of_session p (wy_tasks w))" using notified(2) by (simp add: wake_inv_def)
  have n: "start = (of_session p (wy_tasks w) = [])"
    "m' = AList.update p \<lparr>ss_buffer = ss_buffer (session_entry p (wy_sessions w)) @ [msg], ss_draining = True\<rparr> (wy_sessions w)"
    using notified notify_eq by simp_all
  show ?case
  proof (rule wake_inv_frame [OF notified(2), of p], goal_cases)
    case (1 q)
    then show ?case using n by simp
  next
    case 2
    then show ?case using n si by (cases "map_of (wy_sessions w) p") (auto simp: session_inv_def)
  next
    case 3
    then show ?case using n si wake_inv_pending [OF notified(2), of p]
      by (cases "map_of (wy_sessions w) p") (auto simp: session_inv_def pending_eq session_entry_def)
  qed
qed (rule drain_step_inv)

lemma wake_inv_init: "wake_inv wake_init"
  by (simp add: wake_inv_def wake_init_def session_inv_def pending_eq)

lemma wake_reach_inv: "wake_step\<^sup>*\<^sup>* wake_init w \<Longrightarrow> wake_inv w"
  by (induction rule: rtranclp_induct) (auto intro: wake_inv_init wake_step_inv)

section \<open>Properties\<close>

text \<open>The rounds of the drain tasks come to an end when nothing new is notified.\<close>

definition drain_measure :: "wake_system \<Rightarrow> nat" where
  "drain_measure w =
     sum_list (map (\<lambda>(_, pc). case pc of At_Top \<Rightarrow> 1 | Waking _ \<Rightarrow> 2) (wy_tasks w)) +
     sum_list (map (\<lambda>(_, e). 2 * length (ss_buffer e)) (wy_sessions w))"

lemma buffers_update:
  "map_of m p = Some e \<Longrightarrow>
   sum_list (map (\<lambda>(_, e). 2 * length (ss_buffer e)) (AList.update p e' m)) + 2 * length (ss_buffer e)
   = sum_list (map (\<lambda>(_, e). 2 * length (ss_buffer e)) m) + 2 * length (ss_buffer e')"
  by (induction m) (auto split: if_splits)

lemma buffers_delete:
  "sum_list (map (\<lambda>(_, e). 2 * length (ss_buffer e)) (AList.delete p m))
   \<le> sum_list (map (\<lambda>(_, e). 2 * length (ss_buffer e)) m)"
  by (induction m) (auto simp: AList.delete_eq)

lemma drain_step_measure: "drain_step w w' \<Longrightarrow> drain_measure w' < drain_measure w"
proof (induction rule: drain_step.induct)
  case (take_batch w xs p ys batch m')
  then obtain e where "map_of (wy_sessions w) p = Some e" "m' = AList.update p (e\<lparr>ss_buffer := []\<rparr>) (wy_sessions w)"
    "0 < length (ss_buffer e)" by (auto simp: drain_take_Some)
  then show ?case using take_batch(1) buffers_update [of "wy_sessions w" p e "e\<lparr>ss_buffer := []\<rparr>"]
    by (cases "ss_buffer e") (simp_all add: drain_measure_def)
next
  case (stop w xs p ys m')
  then show ?case using buffers_delete [of p "wy_sessions w"] by (auto simp: drain_measure_def drain_take_None)
next
  case (woken w xs p batch ys)
  then show ?case by (simp add: drain_measure_def)
qed

lemma mailbox_eqI:
  fixes a b :: mailbox
  assumes "\<And>q. q \<noteq> p \<Longrightarrow> mb_pending a q = mb_pending b q \<and> mb_delivered a q = mb_delivered b q"
    and "mb_pending a p = x" and "mb_delivered a p = y"
  shows "a = b\<lparr>mb_pending := (mb_pending b)(p := x), mb_delivered := (mb_delivered b)(p := y)\<rparr>"
  using assms by (intro mailbox.equality) (auto simp: fun_eq_iff)

lemma mailbox_of_frame:
  assumes "\<And>q. q \<noteq> p \<Longrightarrow> map_of (wy_sessions w') q = map_of (wy_sessions w) q \<and>
      of_session q (wy_tasks w') = of_session q (wy_tasks w) \<and> of_session q (wy_woken w') = of_session q (wy_woken w)"
  shows "mailbox_of w' = (mailbox_of w)\<lparr>mb_pending := (mb_pending (mailbox_of w))(p := mb_pending (mailbox_of w') p),
    mb_delivered := (mb_delivered (mailbox_of w))(p := mb_delivered (mailbox_of w') p)\<rparr>"
  by (rule mailbox_eqI) (use assms in \<open>simp_all add: mailbox_of_def session_entry_def\<close>)

lemma mailbox_of_same:
  assumes "\<And>q. q \<noteq> p \<Longrightarrow> map_of (wy_sessions w') q = map_of (wy_sessions w) q \<and>
      of_session q (wy_tasks w') = of_session q (wy_tasks w) \<and> of_session q (wy_woken w') = of_session q (wy_woken w)"
    and "mb_pending (mailbox_of w') p = mb_pending (mailbox_of w) p"
    and "mb_delivered (mailbox_of w') p = mb_delivered (mailbox_of w) p"
  shows "mailbox_of w' = mailbox_of w"
  using mailbox_of_frame [of p, OF assms(1)] assms(2,3) by simp

lemma drain_step_refines:
  "drain_step w w' \<Longrightarrow> wake_inv w \<Longrightarrow> mailbox_step\<^sup>=\<^sup>= (mailbox_of w) (mailbox_of w')"
proof (induction rule: drain_step.induct)
  case (take_batch w xs p ys batch m')
  then obtain e where e: "map_of (wy_sessions w) p = Some e" "of_session p xs = []" "of_session p ys = []"
    by (auto elim: wake_invD)
  then have m': "m' = AList.update p (e\<lparr>ss_buffer := []\<rparr>) (wy_sessions w)" "batch = ss_buffer e"
    using take_batch(2) by (auto simp: drain_take_Some)
  let ?w = "w\<lparr>wy_sessions := m', wy_tasks := xs @ (p, Waking batch) # ys\<rparr>"
  have "mailbox_of ?w = mailbox_of w"
    by (rule mailbox_of_same [of p]) (use take_batch(1) e m' in \<open>simp_all add: mailbox_of_def session_entry_def\<close>)
  then show ?case by simp
next
  case (stop w xs p ys m')
  then obtain e where e: "map_of (wy_sessions w) p = Some e" "of_session p xs = []" "of_session p ys = []"
    by (auto elim: wake_invD)
  then have m': "m' = AList.delete p (wy_sessions w)" "ss_buffer e = []"
    using stop(2) by (auto simp: drain_take_None)
  let ?w = "w\<lparr>wy_sessions := m', wy_tasks := xs @ ys\<rparr>"
  have "mailbox_of ?w = mailbox_of w"
    by (rule mailbox_of_same [of p]) (use stop(1) e m' in \<open>simp_all add: mailbox_of_def session_entry_def\<close>)
  then show ?case by simp
next
  case (woken w xs p batch ys)
  then obtain e where e: "map_of (wy_sessions w) p = Some e" "of_session p xs = []" "of_session p ys = []" "batch \<noteq> []"
    by (auto elim: wake_invD)
  let ?w = "w\<lparr>wy_tasks := xs @ (p, At_Top) # ys, wy_woken := wy_woken w @ [(p, batch)]\<rparr>"
  have "mb_pending (mailbox_of w) p = batch @ mb_pending (mailbox_of ?w) p"
    and "mb_delivered (mailbox_of ?w) p = mb_delivered (mailbox_of w) p @ [batch]"
    using woken(1) e by (simp_all add: mailbox_of_def)
  moreover have "mailbox_of ?w = (mailbox_of w)\<lparr>mb_pending := (mb_pending (mailbox_of w))(p := mb_pending (mailbox_of ?w) p),
    mb_delivered := (mb_delivered (mailbox_of w))(p := mb_delivered (mailbox_of ?w) p)\<rparr>"
    by (rule mailbox_of_frame) (use woken(1) in simp)
  ultimately show ?case using e(4) mailbox_step.deliver by (metis sup2I1)
qed

lemma notified_refines:
  assumes "notify p msg (wy_sessions w) = (start, m')" and "wake_inv w"
  shows "mailbox_step (mailbox_of w) (mailbox_of (w\<lparr>wy_sessions := m', wy_sent := wy_sent w @ [(p, msg)],
      wy_tasks := (if start then (p, At_Top) # wy_tasks w else wy_tasks w)\<rparr>))"
    (is "mailbox_step _ (mailbox_of ?w)")
proof -
  have n: "m' = AList.update p \<lparr>ss_buffer = ss_buffer (session_entry p (wy_sessions w)) @ [msg], ss_draining = True\<rparr> (wy_sessions w)"
    using assms notify_eq by simp
  have "mailbox_of ?w = (mailbox_of w)\<lparr>mb_pending := (mb_pending (mailbox_of w))(p := mb_pending (mailbox_of ?w) p),
    mb_delivered := (mb_delivered (mailbox_of w))(p := mb_delivered (mailbox_of ?w) p)\<rparr>"
    by (rule mailbox_of_frame) (use n in simp)
  moreover have "mb_pending (mailbox_of ?w) p = mb_pending (mailbox_of w) p @ [msg]"
    and "mb_delivered (mailbox_of ?w) p = mb_delivered (mailbox_of w) p"
    using n by (simp_all add: mailbox_of_def session_entry_def)
  ultimately have "mailbox_of ?w = (mailbox_of w)\<lparr>mb_pending := (mb_pending (mailbox_of w))(p := mb_pending (mailbox_of w) p @ [msg])\<rparr>"
    by simp
  then show ?thesis using mailbox_step.post by metis
qed


definition sample_wake :: wake_system where
  "sample_wake =
     \<lparr>wy_sessions = [(''s'', \<lparr>ss_buffer = [''a done''], ss_draining = True\<rparr>)], wy_tasks = [(''s'', At_Top)],
      wy_sent = [(''s'', ''a done'')], wy_woken = []\<rparr>"

lemma sample_wake_step: "wake_step wake_init sample_wake"
proof -
  have "notify ''s'' ''a done'' (wy_sessions wake_init) = (True, wy_sessions sample_wake)" by code_simp
  from wake_step.notified [OF this] show ?thesis by (simp add: sample_wake_def wake_init_def)
qed


text \<open>No result is lost, duplicated or reordered: at every moment the delivered batches, then the
  batch under delivery, then the buffer of a session are exactly the messages sent to it, in order; a
  session never has two drain tasks; and when no drain task is left for it, all its messages were
  delivered.\<close>

theorem wake_loses_nothing:
  assumes "wake_step\<^sup>*\<^sup>* wake_init w"
  shows "of_session p (wy_sent w) = concat (of_session p (wy_woken w)) @ in_flight (of_session p (wy_tasks w))
      @ ss_buffer (session_entry p (wy_sessions w)) \<and>
    length (of_session p (wy_tasks w)) \<le> 1 \<and>
    (of_session p (wy_tasks w) = [] \<longrightarrow> of_session p (wy_sent w) = concat (of_session p (wy_woken w)))"
proof -
  have si: "session_inv (map_of (wy_sessions w) p) (of_session p (wy_tasks w))"
    and eq: "of_session p (wy_sent w) = concat (of_session p (wy_woken w)) @ mb_pending (mailbox_of w) p"
    using wake_reach_inv [OF assms] by (simp_all add: wake_inv_def)
  have "length (of_session p (wy_tasks w)) \<le> 1"
    using si by (cases "map_of (wy_sessions w) p") (auto simp: session_inv_def)
  moreover have "of_session p (wy_tasks w) = [] \<longrightarrow> mb_pending (mailbox_of w) p = []"
    using si by (cases "map_of (wy_sessions w) p") (auto simp: session_inv_def pending_eq)
  ultimately show ?thesis using eq by (simp add: mailbox_of_def)
qed

theorem wake_loses_nothing_witness:
  "of_session ''s'' (wy_sent sample_wake) = concat (of_session ''s'' (wy_woken sample_wake))
     @ in_flight (of_session ''s'' (wy_tasks sample_wake)) @ ss_buffer (session_entry ''s'' (wy_sessions sample_wake)) \<and>
   length (of_session ''s'' (wy_tasks sample_wake)) \<le> 1"
  using wake_loses_nothing [OF r_into_rtranclp [of wake_step, OF sample_wake_step], of "''s''"] by blast

text \<open>Draining ends: a run of drain rounds with no new notification is never infinite, and where it
  stops no message is left behind.\<close>

theorem draining_ends:
  assumes "wake_step\<^sup>*\<^sup>* wake_init w"
  shows "wfp (\<lambda>w2 w1. drain_step w1 w2) \<and>
    ((\<nexists>w'. drain_step w w') \<longrightarrow> of_session p (wy_sent w) = concat (of_session p (wy_woken w)))"
proof (intro conjI impI)
  show "wfp (\<lambda>w2 w1. drain_step w1 w2)"
    by (rule wfp_if_convertible_to_nat [of _ drain_measure]) (rule drain_step_measure)
  assume stuck: "\<nexists>w'. drain_step w w'"
  have "wy_tasks w = []"
  proof (rule ccontr)
    assume "wy_tasks w \<noteq> []"
    then obtain q pc ys where t: "wy_tasks w = [] @ (q, pc) # ys" by (metis append_Nil neq_Nil_conv surj_pair)
    show False
    proof (cases pc)
      case At_Top
      then show False using t stuck drain_step.take_batch drain_step.stop
        by (metis (no_types, lifting) not_Some_eq surj_pair)
    next
      case (Waking b)
      then show False using t stuck drain_step.woken by metis
    qed
  qed
  moreover have "session_inv (map_of (wy_sessions w) p) (of_session p (wy_tasks w))"
    and "of_session p (wy_sent w) = concat (of_session p (wy_woken w)) @ mb_pending (mailbox_of w) p"
    using wake_reach_inv [OF assms] by (simp_all add: wake_inv_def)
  ultimately show "of_session p (wy_sent w) = concat (of_session p (wy_woken w))"
    by (cases "map_of (wy_sessions w) p") (auto simp: session_inv_def pending_eq)
qed

theorem draining_ends_witness: "wfp (\<lambda>w2 w1. drain_step w1 w2)"
  using draining_ends [OF rtranclp.rtrancl_refl] by blast

end
