(* ===== verification/Delegation_Tool.thy ===== *)
theory Delegation_Tool
  imports Delegation_Wake
begin

text \<open>
  The \<open>delegate\<close> tool (\<open>tools/delegate_tool.rs\<close>) and the coordinator of handoffs
  (\<open>delegation/coordinator.rs\<close>), over the registry, the task store and the wake dispatcher.

  An agent is its id. The outcome of the child's conversation, the resolver of agents, run ids and clock
  readings are arguments. A child runs in the background: its start and its end are two operations,
  which the scheduler may place anywhere after the spawn. The iteration counter and the budget stored with
  a child are never read by the modelled code and are left out.
\<close>

section \<open>Children and their tracker\<close>

record task_spec =
  sp_prompt :: string
  sp_output_format :: "string option"
  sp_max_iterations :: "nat option"
  sp_allowed_tools :: "string list"
  sp_target_agent :: "string option"
  sp_task_id :: "string option"

datatype child_status = Child_Pending | Child_Running | Child_Completed | Child_Failed | Child_Cancelled

record child_agent =
  ca_id :: string
  ca_parent_id :: string
  ca_task :: task_spec
  ca_status :: child_status
  ca_created_at :: int
  ca_result :: "string option"
  ca_error :: "string option"

record delegation_tracker =
  dk_children :: "(string \<times> child_agent) list"
  dk_depth :: nat
  dk_max_children :: nat
  dk_max_depth :: nat

definition new_tracker :: "nat \<Rightarrow> nat \<Rightarrow> nat \<Rightarrow> delegation_tracker" where
  "new_tracker depth max_depth max_children =
     \<lparr>dk_children = [], dk_depth = depth, dk_max_children = max_children, dk_max_depth = max_depth\<rparr>"

definition tracker_can_delegate :: "delegation_tracker \<Rightarrow> bool" where
  "tracker_can_delegate t \<longleftrightarrow> \<not> dk_max_depth t \<le> dk_depth t \<and> length (dk_children t) < dk_max_children t"

definition register_child :: "child_agent \<Rightarrow> delegation_tracker \<Rightarrow> delegation_tracker" where
  "register_child c t = t\<lparr>dk_children := AList.update (ca_id c) c (dk_children t)\<rparr>"

definition get_child :: "string \<Rightarrow> delegation_tracker \<Rightarrow> child_agent option" where
  "get_child i t = map_of (dk_children t) i"

definition modify_child :: "string \<Rightarrow> (child_agent \<Rightarrow> child_agent) \<Rightarrow> delegation_tracker \<Rightarrow> delegation_tracker" where
  "modify_child i f t =
     (case map_of (dk_children t) i of
        Some c \<Rightarrow> t\<lparr>dk_children := AList.update i (f c) (dk_children t)\<rparr> | None \<Rightarrow> t)"

definition update_child_status :: "string \<Rightarrow> child_status \<Rightarrow> delegation_tracker \<Rightarrow> delegation_tracker" where
  "update_child_status i st t = modify_child i (\<lambda>c. c\<lparr>ca_status := st\<rparr>) t"

definition set_child_result :: "string \<Rightarrow> string \<Rightarrow> delegation_tracker \<Rightarrow> delegation_tracker" where
  "set_child_result i res t = modify_child i (\<lambda>c. c\<lparr>ca_status := Child_Completed, ca_result := Some res\<rparr>) t"

definition set_child_error :: "string \<Rightarrow> string \<Rightarrow> delegation_tracker \<Rightarrow> delegation_tracker" where
  "set_child_error i err t = modify_child i (\<lambda>c. c\<lparr>ca_status := Child_Failed, ca_error := Some err\<rparr>) t"

definition remove_child :: "string \<Rightarrow> delegation_tracker \<Rightarrow> child_agent option \<times> delegation_tracker" where
  "remove_child i t =
     (map_of (dk_children t) i, t\<lparr>dk_children := AList.delete i (dk_children t)\<rparr>)"

section \<open>Spawning\<close>

record delegation_system =
  dg_agent :: "string option"
  dg_tracker :: delegation_tracker
  dg_registry :: subagent_registry
  dg_store :: "task_store option"
  dg_wake :: "wake_sessions option"

text \<open>Which agent runs the child: only the agent the delegation is made for may be named.\<close>

definition child_agent_for ::
  "string option \<Rightarrow> (string \<Rightarrow> string option) option \<Rightarrow> string option \<Rightarrow> string option" where
  "child_agent_for parent_agent resolver target =
     (case (target, resolver) of
        (Some name, Some resolve) \<Rightarrow>
          (if parent_agent = Some name
           then (case resolve name of Some a \<Rightarrow> Some a | None \<Rightarrow> parent_agent)
           else parent_agent)
      | _ \<Rightarrow> parent_agent)"

definition agent_type_of :: "string option \<Rightarrow> string" where
  "agent_type_of a = (case a of Some i \<Rightarrow> if i = [] then ''delegate'' else i | None \<Rightarrow> ''delegate'')"

text \<open>\<open>spawn_child\<close> up to the point where the registry has launched the background task, which runs under
  the returned scope.\<close>

definition launch_child ::
  "string \<Rightarrow> string \<Rightarrow> int \<Rightarrow> (string \<Rightarrow> string option) option \<Rightarrow> task_spec \<Rightarrow> string \<Rightarrow> delegation_scope option
     \<Rightarrow> delegation_system \<Rightarrow> (subagent_error + string \<times> string option \<times> delegation_scope) \<times> delegation_system" where
  "launch_child run_id new_root now resolver spec parent_id parent_scope d =
     (let max_depth = sg_max_depth (dg_registry d);
          agent = child_agent_for (dg_agent d) resolver (sp_target_agent spec)
      in case spawn run_id parent_id (agent_type_of agent) (child_depth parent_scope) now (dg_registry d) of
           (Inl e, _) \<Rightarrow> (Inl e, d)
         | (Inr rid, r) \<Rightarrow>
             (Inr (rid, agent, spawned_scope max_depth new_root rid parent_scope (sp_allowed_tools spec) (sp_max_iterations spec)),
              d\<lparr>dg_registry := r\<rparr>))"

text \<open>The end of \<open>spawn_child\<close>: the child enters the tracker.\<close>

definition track_child :: "string \<Rightarrow> string \<Rightarrow> task_spec \<Rightarrow> int \<Rightarrow> delegation_system \<Rightarrow> delegation_system" where
  "track_child run_id parent_id spec now d =
     d\<lparr>dg_tracker := register_child
         \<lparr>ca_id = run_id, ca_parent_id = parent_id, ca_task = spec, ca_status = Child_Pending,
          ca_created_at = now, ca_result = None, ca_error = None\<rparr> (dg_tracker d)\<rparr>"

section \<open>The life of a child\<close>

definition preserve_handoff_and_set_status :: "int \<Rightarrow> string \<Rightarrow> string \<Rightarrow> task_store \<Rightarrow> task_store" where
  "preserve_handoff_and_set_status now child_id status s =
     (if (case get_delegation child_id s of Some t \<Rightarrow> is_waiting_handoff t | None \<Rightarrow> False) then s
      else set_task_status now child_id status s)"

text \<open>The first part of \<open>execute_child_task\<close>: status, row and start event.\<close>

definition child_start ::
  "string \<Rightarrow> task_spec \<Rightarrow> delegation_scope \<Rightarrow> string \<Rightarrow> string option \<Rightarrow> int \<Rightarrow> delegation_system \<Rightarrow> delegation_system" where
  "child_start child_id spec scope agent_id parent_session now d =
     d\<lparr>dg_tracker := update_child_status child_id Child_Running (dg_tracker d),
       dg_store := map_option (\<lambda>s.
         append_event now child_id
           \<lparr>ev_ts = now, ev_agent = agent_id, ev_action = ''started'', ev_detail = take 80 (sp_prompt spec)\<rparr>
           (snd (create_task now
              \<lparr>np_id = child_id, np_root_id = dsc_root_id scope, np_parent_id = dsc_parent_task_id scope,
               np_depth = dsc_depth scope, np_agent_id = agent_id, np_title = take 120 (sp_prompt spec),
               np_parent_session = parent_session\<rparr> s))) (dg_store d)\<rparr>"

definition format_result :: "task_spec \<Rightarrow> string \<Rightarrow> string" where
  "format_result spec content =
     (case sp_output_format spec of
        Some f \<Rightarrow> ''Output format ('' @ f @ ''): '' @ content | None \<Rightarrow> content)"

text \<open>The event text needs the length of the answer in decimal, which the argument \<open>shown\<close> gives.\<close>

definition child_success ::
  "string \<Rightarrow> task_spec \<Rightarrow> string \<Rightarrow> string \<Rightarrow> string \<Rightarrow> int \<Rightarrow> delegation_system \<Rightarrow> string \<times> delegation_system" where
  "child_success child_id spec agent_id content shown now d =
     (let result = format_result spec content
      in (child_completion_message child_id result,
          d\<lparr>dg_tracker := set_child_result child_id result (dg_tracker d),
            dg_registry := complete_run child_id (Inr result) now (dg_registry d),
            dg_store := map_option (\<lambda>s.
              append_event now child_id
                \<lparr>ev_ts = now, ev_agent = agent_id, ev_action = ''completed'',
                 ev_detail = ''output: '' @ shown @ '' chars''\<rparr>
                (preserve_handoff_and_set_status now child_id ''completed'' s)) (dg_store d)\<rparr>))"

definition child_failure :: "string \<Rightarrow> string \<Rightarrow> int \<Rightarrow> delegation_system \<Rightarrow> string \<times> delegation_system" where
  "child_failure child_id err_msg now d =
     (child_failure_message child_id err_msg,
      d\<lparr>dg_tracker := set_child_error child_id err_msg (dg_tracker d),
        dg_registry := complete_run child_id (Inl err_msg) now (dg_registry d),
        dg_store := map_option (preserve_handoff_and_set_status now child_id ''failed'') (dg_store d)\<rparr>)"

text \<open>The second part of \<open>execute_child_task\<close>, up to the handoffs: the outcome of the conversation, or no
  agent, then the wake of the parent.\<close>

definition child_finish ::
  "string \<Rightarrow> task_spec \<Rightarrow> string \<Rightarrow> (string + string) option \<Rightarrow> string \<Rightarrow> int \<Rightarrow> delegation_system \<Rightarrow> delegation_system" where
  "child_finish child_id spec agent_id outcome shown now d =
     (let (message, d1) =
            (case outcome of
               Some (Inr content) \<Rightarrow> child_success child_id spec agent_id content shown now d
             | Some (Inl e) \<Rightarrow> child_failure child_id (''Task execution failed: '' @ e) now d
             | None \<Rightarrow> child_failure child_id ''No agent configured for delegation'' now d)
      in d1\<lparr>dg_wake := map_option
              (\<lambda>m. snd (notify_parent (dg_registry d1) (dg_store d1) child_id message m)) (dg_wake d1)\<rparr>)"

section \<open>Waiting, cancelling\<close>

datatype wait_answer =
    Wait_Completed string
  | Wait_Failed string
  | Wait_Cancelled
  | Wait_Not_Found
  | Wait_Still_Running

text \<open>One look at the tracker: an answer, or wait on.\<close>

definition wait_look :: "string \<Rightarrow> delegation_tracker \<Rightarrow> wait_answer option" where
  "wait_look child_id t =
     (case get_child child_id t of
        None \<Rightarrow> Some Wait_Not_Found
      | Some c \<Rightarrow>
          (case ca_status c of
             Child_Completed \<Rightarrow> Some (Wait_Completed (case ca_result c of Some x \<Rightarrow> x | None \<Rightarrow> []))
           | Child_Failed \<Rightarrow> Some (Wait_Failed (case ca_error c of Some x \<Rightarrow> x | None \<Rightarrow> []))
           | Child_Cancelled \<Rightarrow> Some Wait_Cancelled
           | _ \<Rightarrow> None))"

text \<open>The polling loop over the trackers it sees, the last one at the deadline.\<close>

fun wait_for_child :: "string \<Rightarrow> delegation_tracker list \<Rightarrow> wait_answer" where
  "wait_for_child child_id [] = Wait_Still_Running"
| "wait_for_child child_id (t # ts) =
     (case wait_look child_id t of Some a \<Rightarrow> a | None \<Rightarrow> wait_for_child child_id ts)"

definition clamp_wait_seconds :: "nat \<Rightarrow> nat" where
  "clamp_wait_seconds n = max 1 (min n 60)"

definition delegate_cancel :: "string \<Rightarrow> int \<Rightarrow> delegation_system \<Rightarrow> bool \<times> delegation_system" where
  "delegate_cancel child_id now d =
     (case remove_child child_id (dg_tracker d) of
        (Some _, t) \<Rightarrow> (True, d\<lparr>dg_tracker := t, dg_registry := snd (kill child_id now (dg_registry d))\<rparr>)
      | (None, t) \<Rightarrow> (False, d\<lparr>dg_tracker := t\<rparr>))"

section \<open>The spawn action\<close>

datatype delegate_error = Spawn_Refused string | Bad_Arguments string | Registry_Error subagent_error

fun json_strings :: "json \<Rightarrow> string list" where
  "json_strings (JArray vs) = List.map_filter as_str vs"
| "json_strings _ = []"

text \<open>The task specification from the arguments of the model; \<open>max_iterations\<close> is what \<open>as_u64\<close> makes of
  the number.\<close>

definition parse_task_spec ::
  "u32 \<Rightarrow> delegation_scope option \<Rightarrow> json \<Rightarrow> nat option \<Rightarrow> delegate_error + task_spec" where
  "parse_task_spec max_depth scope args max_iterations =
     (let task = (case json_get ''task'' args of Some t \<Rightarrow> t | None \<Rightarrow> JNull)
      in case get_str ''prompt'' task of
           None \<Rightarrow> Inl (Bad_Arguments ''task.prompt is required'')
         | Some prompt \<Rightarrow>
             (let requested = (case json_get ''allowed_tools'' task of Some v \<Rightarrow> json_strings v | None \<Rightarrow> [])
              in Inr \<lparr>sp_prompt = prompt, sp_output_format = get_str ''output_format'' task,
                      sp_max_iterations = max_iterations,
                      sp_allowed_tools = spawn_allowed_tools max_depth scope requested,
                      sp_target_agent = get_str ''target_agent'' task, sp_task_id = get_str ''task_id'' task\<rparr>))"

definition delegate_spawn ::
  "string \<Rightarrow> string \<Rightarrow> int \<Rightarrow> (string \<Rightarrow> string option) option \<Rightarrow> json \<Rightarrow> nat option \<Rightarrow> string \<Rightarrow> delegation_scope option
     \<Rightarrow> delegation_system \<Rightarrow> (delegate_error + string \<times> string option \<times> delegation_scope) \<times> delegation_system" where
  "delegate_spawn run_id new_root now resolver args max_iterations conversation scope d =
     (if sg_max_concurrent (dg_registry d) \<le> active_count (dg_registry d)
      then (Inl (Spawn_Refused ''Maximum children already active. Cannot spawn more.''), d)
      else case parse_task_spec (sg_max_depth (dg_registry d)) scope args max_iterations of
          Inl e \<Rightarrow> (Inl e, d)
        | Inr spec \<Rightarrow>
            (case launch_child run_id new_root now resolver spec conversation scope d of
               (Inl e, d1) \<Rightarrow> (Inl (Registry_Error e), d1)
             | (Inr (rid, agent, sc), d1) \<Rightarrow> (Inr (rid, agent, sc), track_child rid conversation spec now d1)))"

section \<open>Handoffs\<close>

definition handoff_summary :: "delegation_task \<Rightarrow> string" where
  "handoff_summary t =
     (case find (\<lambda>e. ev_action e = ''handoff'') (rev (dt_events t)) of
        Some e \<Rightarrow> ev_detail e | None \<Rightarrow> ''Continue the original task'')"

text \<open>The successor runs under a new scope with the root and the depth of the task it continues.\<close>

definition spawn_successor ::
  "string \<Rightarrow> int \<Rightarrow> delegation_task \<Rightarrow> subagent_registry \<Rightarrow> (subagent_error + delegation_scope) \<times> subagent_registry" where
  "spawn_successor run_id now handoff r =
     (case spawn run_id (dt_id handoff) (dt_agent_id handoff) (dt_depth handoff) now r of
        (Inl e, r1) \<Rightarrow> (Inl e, r1)
      | (Inr rid, r1) \<Rightarrow>
          (Inr (successor_scope (sg_max_depth r) rid (dt_root_id handoff) (dt_id handoff) (dt_depth handoff)), r1))"

text \<open>What \<open>maybe_advance_inner\<close> does with the handoff it has read; \<open>available\<close> says whether the target
  or the default agent could be resolved.\<close>

definition advance_handoff ::
  "bool \<Rightarrow> string \<Rightarrow> int \<Rightarrow> delegation_task \<Rightarrow> task_store \<Rightarrow> subagent_registry
     \<Rightarrow> delegation_scope option \<times> task_store \<times> subagent_registry" where
  "advance_handoff available run_id now handoff s r =
     (if \<not> available then (None, set_task_status now (dt_id handoff) ''failed'' s, r)
      else case spawn_successor run_id now handoff r of
          (Inr sc, r1) \<Rightarrow> (Some sc, set_task_status now (dt_id handoff) ''completed'' s, r1)
        | (Inl e, r1) \<Rightarrow> (None, set_task_status now (dt_id handoff) ''failed'' s, r1))"

definition maybe_advance ::
  "bool \<Rightarrow> string \<Rightarrow> int \<Rightarrow> string \<Rightarrow> task_store \<Rightarrow> subagent_registry
     \<Rightarrow> delegation_scope option \<times> task_store \<times> subagent_registry" where
  "maybe_advance available run_id now root s r =
     (case pending_handoff_for_root root s of
        None \<Rightarrow> (None, s, r)
      | Some handoff \<Rightarrow> advance_handoff available run_id now handoff s r)"

section \<open>Concurrent coordinators\<close>

text \<open>A worker is a child that has finished and drives the handoffs of its tree. It takes the lock of its
  coordinator, reads the pending handoff and advances it, with other workers and the rest of the system
  in between. \<open>L\<close> is the set of locks in use: the tool has one coordinator, but each successor gets a
  coordinator of its own with a fresh lock. The ghost lists record the handoffs requested and the
  successors started.\<close>

datatype worker_pc = Wants string | Holds string | Picked delegation_task | Finished

record coord_system =
  co_store :: task_store
  co_registry :: subagent_registry
  co_workers :: "(nat \<times> worker_pc) list"
  co_requested :: "string list"
  co_started :: "string list"

fun in_section :: "worker_pc \<Rightarrow> bool" where
  "in_section (Holds _) = True"
| "in_section (Picked _) = True"
| "in_section _ = False"

inductive coord_step :: "nat set \<Rightarrow> coord_system \<Rightarrow> coord_system \<Rightarrow> bool" for L where
  requested: "coord_step L c (c\<lparr>co_store := set_handoff now i to_agent summary (co_store c), co_requested := co_requested c @ [i]\<rparr>)"
| created: "create_task now p (co_store c) = (res, s') \<Longrightarrow> coord_step L c (c\<lparr>co_store := s'\<rparr>)"
| noted: "coord_step L c (c\<lparr>co_store := append_event now i ev (co_store c)\<rparr>)"
| ended: "status \<in> {''completed'', ''failed''} \<Longrightarrow>
    coord_step L c (c\<lparr>co_store := preserve_handoff_and_set_status now i status (co_store c), co_registry := r'\<rparr>)"
| arrives: "l \<in> L \<Longrightarrow> coord_step L c (c\<lparr>co_workers := (l, Wants root) # co_workers c\<rparr>)"
| locks: "co_workers c = xs @ (l, Wants root) # ys \<Longrightarrow> \<forall>pc. (l, pc) \<in> set (xs @ ys) \<longrightarrow> \<not> in_section pc \<Longrightarrow>
    coord_step L c (c\<lparr>co_workers := xs @ (l, Holds root) # ys\<rparr>)"
| reads: "co_workers c = xs @ (l, Holds root) # ys \<Longrightarrow>
    coord_step L c (c\<lparr>co_workers := xs @ (l, case pending_handoff_for_root root (co_store c) of
      Some h \<Rightarrow> Picked h | None \<Rightarrow> Finished) # ys\<rparr>)"
| advances: "co_workers c = xs @ (l, Picked h) # ys \<Longrightarrow>
    advance_handoff available run_id now h (co_store c) (co_registry c) = (sc, s', r') \<Longrightarrow>
    coord_step L c (c\<lparr>co_store := s', co_registry := r', co_workers := xs @ (l, Finished) # ys,
      co_started := (if sc = None then co_started c else co_started c @ [dt_id h])\<rparr>)"

definition waiting :: "task_store \<Rightarrow> string \<Rightarrow> bool" where
  "waiting s i \<longleftrightarrow> (\<exists>t. map_of (st_rows s) i = Some t \<and> is_waiting_handoff t)"

definition rows_keyed :: "task_store \<Rightarrow> bool" where
  "rows_keyed s \<longleftrightarrow> (\<forall>(i, t) \<in> set (st_rows s). dt_id t = i) \<and> hm_ok (st_rows s)"

definition coord_inv :: "coord_system \<Rightarrow> bool" where
  "coord_inv c \<longleftrightarrow> rows_keyed (co_store c) \<and>
     (\<forall>i. count_list (co_started c) i + of_bool (waiting (co_store c) i) \<le> count_list (co_requested c) i) \<and>
     (\<forall>h l. (l, Picked h) \<in> set (co_workers c) \<longrightarrow> waiting (co_store c) (dt_id h)) \<and>
     length (filter (in_section \<circ> snd) (co_workers c)) \<le> 1"

lemma rows_keyed_update:
  assumes "rows_keyed s" and "\<And>t. dt_id (f t) = dt_id t"
  shows "rows_keyed (notify_updated i (update_row i f s))"
proof -
  have "hm_ok (st_rows (update_row i f s))" using assms(1) by (simp add: rows_keyed_def)
  moreover have "\<forall>(k, t) \<in> set (st_rows (update_row i f s)). dt_id t = k"
    using assms by (auto simp: rows_keyed_def update_row_def split: if_splits)
  ultimately show ?thesis by (simp add: rows_keyed_def)
qed

lemma waiting_update:
  "waiting (notify_updated i (update_row i f s)) k \<longleftrightarrow>
     (\<exists>t. map_of (st_rows s) k = Some t \<and> is_waiting_handoff (if k = i then f t else t))"
  by (auto simp: waiting_def)

lemma waiting_set_task_status:
  "status \<noteq> ''waiting_handoff'' \<Longrightarrow> waiting (set_task_status now i status s) k \<longleftrightarrow> waiting s k \<and> k \<noteq> i"
  unfolding set_task_status_def Let_def waiting_update by (auto simp: waiting_def is_waiting_handoff_def)

lemma waiting_set_handoff:
  "waiting (set_handoff now i a summary s) k \<longleftrightarrow> waiting s k \<or> (k = i \<and> map_of (st_rows s) i \<noteq> None)"
  unfolding set_handoff_def Let_def waiting_update by (auto simp: waiting_def is_waiting_handoff_def)

lemma waiting_append_event: "waiting (append_event now i ev s) k \<longleftrightarrow> waiting s k"
  unfolding append_event_def Let_def waiting_update by (auto simp: waiting_def is_waiting_handoff_def)

lemma waiting_preserve:
  "status \<in> {''completed'', ''failed''} \<Longrightarrow> waiting (preserve_handoff_and_set_status now i status s) k \<longleftrightarrow> waiting s k"
proof -
  assume st: "status \<in> {''completed'', ''failed''}"
  show ?thesis
  proof (cases "waiting s i")
    case True
    then have "preserve_handoff_and_set_status now i status s = s"
      by (auto simp: waiting_def preserve_handoff_and_set_status_def get_delegation_def read_task_row_def is_waiting_handoff_def)
    then show ?thesis by simp
  next
    case False
    then have "preserve_handoff_and_set_status now i status s = set_task_status now i status s"
      by (auto simp: waiting_def preserve_handoff_and_set_status_def get_delegation_def read_task_row_def
          is_waiting_handoff_def split: option.splits)
    then show ?thesis using st False waiting_set_task_status [of status now i s k] by auto
  qed
qed

lemma waiting_create_task: "create_task now p s = (res, s') \<Longrightarrow> waiting s' k \<longleftrightarrow> waiting s k"
  by (auto simp: create_task_def Let_def waiting_def is_waiting_handoff_def map_add_def split: if_splits option.splits)

lemma rows_keyed_intros:
  assumes "rows_keyed s"
  shows "rows_keyed (set_handoff now i a summary s)" and "rows_keyed (append_event now i ev s)"
    and "rows_keyed (set_task_status now i status s)" and "rows_keyed (preserve_handoff_and_set_status now i status s)"
  using assms unfolding set_handoff_def append_event_def set_task_status_def preserve_handoff_and_set_status_def Let_def
  by (auto intro!: rows_keyed_update split: if_splits)

lemma rows_keyed_create: "create_task now p s = (res, s') \<Longrightarrow> rows_keyed s \<Longrightarrow> rows_keyed s'"
  by (auto simp: create_task_def Let_def rows_keyed_def map_of_eq_None_iff split: if_splits)

lemma pending_is_waiting:
  assumes "pending_handoff_for_root root s = Some h" and "rows_keyed s"
  shows "waiting s (dt_id h)"
proof -
  let ?ts = "filter (\<lambda>t. dt_root_id t = root \<and> is_waiting_handoff t) (map snd (st_rows s))"
  obtain t ts where t: "sort_key dt_created_at ?ts = t # ts" "h = read_task_row t"
    using assms(1) by (auto simp: pending_handoff_for_root_def split: list.splits)
  then have "t \<in> set (sort_key dt_created_at ?ts)" by simp
  then have "t \<in> set ?ts" by simp
  then obtain k where "(k, t) \<in> set (st_rows s)" "is_waiting_handoff t" by auto
  then have "map_of (st_rows s) (dt_id t) = Some t" using assms(2) by (auto simp: rows_keyed_def)
  then show ?thesis using t(2) \<open>is_waiting_handoff t\<close> by (auto simp: waiting_def read_task_row_def)
qed

lemma advance_handoff_cases:
  assumes "advance_handoff available run_id now h s r = (sc, s', r')"
  shows "\<exists>status \<in> {''completed'', ''failed''}. s' = set_task_status now (dt_id h) status s"
  using assms by (auto simp: advance_handoff_def split: if_splits prod.splits sum.splits)

text \<open>The parts of the invariant that the store decides, for a step that leaves the workers alone.\<close>

lemma coord_inv_store:
  assumes "coord_inv c" and "rows_keyed s'" and "req = co_requested c @ xs"
    and "\<And>k. waiting (co_store c) k \<Longrightarrow> waiting s' k"
    and "\<And>k. waiting s' k \<Longrightarrow> waiting (co_store c) k \<or> k \<in> set xs"
  shows "coord_inv (c\<lparr>co_store := s', co_registry := r', co_requested := req\<rparr>)"
proof -
  have "count_list (co_started c) k + of_bool (waiting s' k) \<le> count_list req k" for k
  proof -
    have le: "count_list (co_started c) k + of_bool (waiting (co_store c) k) \<le> count_list (co_requested c) k"
      using assms(1) by (simp add: coord_inv_def)
    show ?thesis
    proof (cases "k \<in> set xs")
      case True
      then have "1 \<le> count_list xs k" by (metis count_list_0_iff less_one linorder_not_le)
      then show ?thesis using le assms(3) by (simp split: if_splits)
    next
      case False
      then have "waiting s' k \<Longrightarrow> waiting (co_store c) k" using assms(5) by blast
      then show ?thesis using le assms(3) False by (cases "waiting s' k") (auto simp: count_notin)
    qed
  qed
  moreover have "\<forall>h l. (l, Picked h) \<in> set (co_workers c) \<longrightarrow> waiting s' (dt_id h)"
    using assms(1,4) by (auto simp: coord_inv_def)
  ultimately show ?thesis using assms(1,2) by (simp add: coord_inv_def)
qed

lemma coord_step_inv:
  "coord_step {l0} c c' \<Longrightarrow> coord_inv c \<Longrightarrow> \<forall>w \<in> set (co_workers c). fst w = l0 \<Longrightarrow>
   coord_inv c' \<and> (\<forall>w \<in> set (co_workers c'). fst w = l0)"
proof (induction rule: coord_step.induct)
  case (requested c i now a summary)
  have "coord_inv (c\<lparr>co_store := set_handoff now i a summary (co_store c), co_registry := co_registry c,
      co_requested := co_requested c @ [i]\<rparr>)"
    by (rule coord_inv_store [OF requested(1)])
       (use requested(1) in \<open>auto simp: waiting_set_handoff coord_inv_def intro: rows_keyed_intros\<close>)
  then show ?case using requested(2) by simp
next
  case (created now p c res s')
  have "coord_inv (c\<lparr>co_store := s', co_registry := co_registry c, co_requested := co_requested c\<rparr>)"
    by (rule coord_inv_store [OF created(2)])
       (use created in \<open>auto simp: waiting_create_task coord_inv_def intro: rows_keyed_create\<close>)
  then show ?case using created(3) by simp
next
  case (noted c now i ev)
  have "coord_inv (c\<lparr>co_store := append_event now i ev (co_store c), co_registry := co_registry c, co_requested := co_requested c\<rparr>)"
    by (rule coord_inv_store [OF noted(1)])
       (use noted(1) in \<open>auto simp: waiting_append_event coord_inv_def intro: rows_keyed_intros\<close>)
  then show ?case using noted(2) by simp
next
  case (ended status c r' now i)
  have "coord_inv (c\<lparr>co_store := preserve_handoff_and_set_status now i status (co_store c), co_registry := r',
      co_requested := co_requested c\<rparr>)"
    by (rule coord_inv_store [OF ended(2)])
       (use ended(1,2) in \<open>auto simp: waiting_preserve coord_inv_def intro: rows_keyed_intros\<close>)
  then show ?case using ended(3) by simp
next
  case (arrives l c root)
  then show ?case by (auto simp: coord_inv_def)
next
  case (locks c xs l root ys)
  have "\<not> in_section (snd w)" if w: "w \<in> set (xs @ ys)" for w
  proof -
    have "w \<in> set (co_workers c)" "(l, Wants root) \<in> set (co_workers c)" using w locks(1) by auto
    then have "fst w = l" using locks(4) by fastforce
    then show ?thesis using locks(2) w by (metis prod.collapse)
  qed
  then have "filter (in_section \<circ> snd) (xs @ ys) = []" unfolding filter_empty_conv by simp
  then show ?case using locks by (auto simp: coord_inv_def)
next
  case (reads c xs l root ys)
  then show ?case
    by (auto simp: coord_inv_def split: option.split dest: pending_is_waiting)
next
  case (advances c xs l h ys available run_id now sc s' r')
  obtain status where st: "status \<in> {''completed'', ''failed''}" "s' = set_task_status now (dt_id h) status (co_store c)"
    using advance_handoff_cases [OF advances(2)] by blast
  have w: "waiting s' k \<longleftrightarrow> waiting (co_store c) k \<and> k \<noteq> dt_id h" for k
    using st waiting_set_task_status [of status now "dt_id h" "co_store c" k] by auto
  have le: "count_list (co_started c) k + of_bool (waiting (co_store c) k) \<le> count_list (co_requested c) k" for k
    using advances(3) by (simp add: coord_inv_def)
  have "waiting (co_store c) (dt_id h)" using advances(1,3) by (auto simp: coord_inv_def)
  then have "count_list (if sc = None then co_started c else co_started c @ [dt_id h]) k + of_bool (waiting s' k)
      \<le> count_list (co_requested c) k" for k
    using le [of k] by (cases "k = dt_id h") (auto simp: w)
  moreover have "filter (in_section \<circ> snd) (xs @ ys) = []"
    using advances(1,3) by (auto simp: coord_inv_def)
  then have "\<nexists>h l. (l, Picked h) \<in> set (xs @ ys)" by (auto simp: filter_empty_conv)
  moreover have "rows_keyed s'" using st advances(3) by (auto simp: coord_inv_def intro: rows_keyed_intros)
  ultimately show ?case
    using advances(1,3,4) \<open>filter (in_section \<circ> snd) (xs @ ys) = []\<close> by (auto simp: coord_inv_def)
qed

lemma coord_run_inv:
  assumes "(coord_step {l0})\<^sup>*\<^sup>* c c'" and "coord_inv c" and "co_workers c = []"
  shows "coord_inv c'"
proof -
  have "coord_inv c' \<and> (\<forall>w \<in> set (co_workers c'). fst w = l0)"
    using assms(1)
  proof (induction rule: rtranclp_induct)
    case base
    then show ?case using assms(2,3) by simp
  next
    case (step y z)
    then show ?case using coord_step_inv by blast
  qed
  then show ?thesis ..
qed

section \<open>Properties\<close>

definition sample_spec :: task_spec where
  "sample_spec = \<lparr>sp_prompt = ''write a parser'', sp_output_format = None, sp_max_iterations = None,
     sp_allowed_tools = [], sp_target_agent = None, sp_task_id = None\<rparr>"

definition sample_system :: delegation_system where
  "sample_system = \<lparr>dg_agent = Some ''coder'', dg_tracker = new_tracker 0 3 3,
     dg_registry = new_subagent_registry 3 3, dg_store = Some new_store, dg_wake = Some []\<rparr>"

definition launched :: "string \<Rightarrow> delegation_system \<Rightarrow> delegation_system" where
  "launched k d = snd (launch_child k ''tree'' 1 None sample_spec ''telegram:42'' None d)"

text \<open>A delegation runs as the agent it is made for, whatever agent the model names, provided the
  resolver answers a name with the agent of that name.\<close>

theorem delegation_keeps_identity:
  assumes "\<forall>f name a. resolver = Some f \<longrightarrow> f name = Some a \<longrightarrow> a = name"
    and "launch_child run_id new_root now resolver spec parent_id scope d = (Inr (rid, agent, sc), d')"
  shows "agent = dg_agent d"
proof -
  have "agent = child_agent_for (dg_agent d) resolver (sp_target_agent spec)"
    using assms(2) by (auto simp: launch_child_def Let_def split: prod.splits sum.splits)
  then show ?thesis using assms(1) by (auto simp: child_agent_for_def split: option.splits if_splits)
qed

theorem delegation_keeps_identity_witness:
  "fst (snd (projr (fst (launch_child ''r'' ''t'' 1 (Some Some)
     (sample_spec\<lparr>sp_target_agent := Some ''admin''\<rparr>) ''s'' None sample_system)))) = Some ''coder''"
proof -
  let ?l = "launch_child ''r'' ''t'' 1 (Some Some) (sample_spec\<lparr>sp_target_agent := Some ''admin''\<rparr>) ''s'' None sample_system"
  have "isl (fst ?l) = False" by code_simp
  then obtain rid agent sc d' where l: "?l = (Inr (rid, agent, sc), d')"
    by (metis isl_def obj_sumE prod.collapse)
  have "agent = dg_agent sample_system" by (rule delegation_keeps_identity [OF _ l]) simp
  then show ?thesis using l by (simp add: sample_system_def)
qed

text \<open>A child that ends after it was tracked leaves tracker, registry and store in agreement: a waiter
  gets the same result from both, and the row is completed unless the child asked for a handoff, which
  stays pending.\<close>

theorem child_outcome_recorded:
  assumes "map_of (dk_children (dg_tracker d)) k = Some child" and "map_of (sg_runs (dg_registry d)) k = Some run"
    and "dg_store d = Some s" and "map_of (st_rows s) k = Some t"
    and "child_finish k spec agent (Some (Inr content)) shown now d = d'"
  shows "wait_look k (dg_tracker d') = Some (Wait_Completed (format_result spec content)) \<and>
    check_run k (dg_registry d') = Some (Inr (format_result spec content)) \<and>
    (\<exists>s' t'. dg_store d' = Some s' \<and> map_of (st_rows s') k = Some t' \<and>
       dt_status t' = (if dt_status t = ''waiting_handoff'' then ''waiting_handoff'' else ''completed''))"
proof -
  define d1 where "d1 = snd (child_success k spec agent content shown now d)"
  have d': "dg_tracker d' = dg_tracker d1" "dg_registry d' = dg_registry d1" "dg_store d' = dg_store d1"
    using assms(5) by (auto simp: child_finish_def d1_def Let_def split: prod.splits)
  have "wait_look k (dg_tracker d1) = Some (Wait_Completed (format_result spec content))"
    using assms(1) by (simp add: d1_def child_success_def Let_def wait_look_def get_child_def set_child_result_def modify_child_def)
  moreover have "check_run k (dg_registry d1) = Some (Inr (format_result spec content))"
    using assms(2) by (simp add: d1_def child_success_def Let_def check_run_def complete_run_def)
  moreover have "\<exists>s' t'. dg_store d1 = Some s' \<and> map_of (st_rows s') k = Some t' \<and>
       dt_status t' = (if dt_status t = ''waiting_handoff'' then ''waiting_handoff'' else ''completed'')"
    using assms(3,4) by (simp add: d1_def child_success_def Let_def append_event_def set_task_status_def
        preserve_handoff_and_set_status_def get_delegation_def read_task_row_def is_waiting_handoff_def)
  ultimately show ?thesis using d' by simp
qed

definition started_system :: delegation_system where
  "started_system = child_start ''k'' sample_spec (new_scope ''tree'' ''k'' 1 3) ''coder'' (Some ''telegram:42'') 2
     (track_child ''k'' ''telegram:42'' sample_spec 1 (launched ''k'' sample_system))"

theorem child_outcome_recorded_witness:
  "wait_look ''k'' (dg_tracker (child_finish ''k'' sample_spec ''coder'' (Some (Inr ''done'')) ''4'' 9 started_system))
   = Some (Wait_Completed ''done'')"
proof -
  obtain child run s t where "map_of (dk_children (dg_tracker started_system)) ''k'' = Some child"
    "map_of (sg_runs (dg_registry started_system)) ''k'' = Some run"
    "dg_store started_system = Some s" "map_of (st_rows s) ''k'' = Some t"
    by (rule that [of "the (map_of (dk_children (dg_tracker started_system)) ''k'')"
          "the (map_of (sg_runs (dg_registry started_system)) ''k'')" "the (dg_store started_system)"
          "the (map_of (st_rows (the (dg_store started_system))) ''k'')"]) code_simp+
  from child_outcome_recorded [OF this refl, of sample_spec "''coder''" "''done''"] show ?thesis
    by (simp add: format_result_def sample_spec_def)
qed

text \<open>The spawn races with its own registration: a child that ends before the tool has tracked it
  stays pending in the tracker for good, so waiting for it never returns its result, although the registry
  has it.\<close>

theorem early_child_is_lost_to_waiters:
  assumes "map_of (dk_children (dg_tracker d)) k = None" and "map_of (sg_runs (dg_registry d)) k = Some run"
    and "track_child k parent_id spec now2 (child_finish k spec agent (Some (Inr content)) shown now d) = d'"
  shows "wait_for_child k (replicate n (dg_tracker d')) = Wait_Still_Running \<and>
    check_run k (dg_registry d') = Some (Inr (format_result spec content))"
proof -
  define d1 where "d1 = snd (child_success k spec agent content shown now d)"
  have f: "dg_tracker (child_finish k spec agent (Some (Inr content)) shown now d) = dg_tracker d1"
    "dg_registry (child_finish k spec agent (Some (Inr content)) shown now d) = dg_registry d1"
    by (auto simp: child_finish_def d1_def Let_def split: prod.splits)
  have "wait_look k (dg_tracker d') = None"
    using assms(3) by (auto simp: track_child_def f wait_look_def get_child_def register_child_def)
  then have "wait_for_child k (replicate n (dg_tracker d')) = Wait_Still_Running" by (induction n) simp_all
  moreover have "check_run k (dg_registry d') = Some (Inr (format_result spec content))"
    using assms(2,3) by (auto simp: track_child_def f d1_def child_success_def Let_def check_run_def complete_run_def)
  ultimately show ?thesis ..
qed

theorem early_child_is_lost_to_waiters_witness:
  "wait_for_child ''k'' (replicate 60 (dg_tracker (track_child ''k'' ''s'' sample_spec 3
     (child_finish ''k'' sample_spec ''coder'' (Some (Inr ''done'')) ''4'' 2 (launched ''k'' sample_system)))))
   = Wait_Still_Running"
proof -
  obtain run where "map_of (sg_runs (dg_registry (launched ''k'' sample_system))) ''k'' = Some run"
    by (rule that [of "the (map_of (sg_runs (dg_registry (launched ''k'' sample_system))) ''k'')"]) code_simp
  moreover have "map_of (dk_children (dg_tracker (launched ''k'' sample_system))) ''k'' = None" by code_simp
  ultimately show ?thesis using early_child_is_lost_to_waiters [OF _ _ refl] by blast
qed

definition coord_start :: "task_store \<Rightarrow> subagent_registry \<Rightarrow> coord_system" where
  "coord_start s r = \<lparr>co_store = s, co_registry = r, co_workers = [], co_requested = [], co_started = []\<rparr>"

text \<open>With one coordinator lock, whatever the interleaving of children that end, tasks that are
  created and handoffs that are requested, no handoff request gets more than one successor.\<close>

theorem one_lock_one_successor:
  assumes "(coord_step {l})\<^sup>*\<^sup>* (coord_start new_store r) c"
  shows "count_list (co_started c) i \<le> count_list (co_requested c) i"
proof -
  have "coord_inv (coord_start new_store r)"
    by (simp add: coord_inv_def coord_start_def new_store_def rows_keyed_def waiting_def)
  then have "coord_inv c" using coord_run_inv [OF assms] by (simp add: coord_start_def)
  then show ?thesis unfolding coord_inv_def by (metis add_leE)
qed

definition handoff_requested :: coord_system where
  "handoff_requested =
     (coord_start new_store (new_subagent_registry 3 3))
       \<lparr>co_store := set_handoff 2 ''h'' ''b'' ''go on'' (snd (create_task 1 (sample_params ''h'' None 1 ''telegram:42'') new_store)),
        co_requested := [''h'']\<rparr>"

lemma handoff_requested_reachable:
  "(coord_step L)\<^sup>*\<^sup>* (coord_start new_store (new_subagent_registry 3 3)) handoff_requested"
proof -
  let ?c = "coord_start new_store (new_subagent_registry 3 3)"
  have 1: "coord_step L ?c (?c\<lparr>co_store := snd (create_task 1 (sample_params ''h'' None 1 ''telegram:42'') new_store)\<rparr>)"
    by (rule coord_step.created [where now = 1 and p = "sample_params ''h'' None 1 ''telegram:42''"
          and res = "fst (create_task 1 (sample_params ''h'' None 1 ''telegram:42'') new_store)"])
       (simp add: coord_start_def)
  have 2: "coord_step L (?c\<lparr>co_store := snd (create_task 1 (sample_params ''h'' None 1 ''telegram:42'') new_store)\<rparr>) handoff_requested"
    using coord_step.requested [of L "?c\<lparr>co_store := snd (create_task 1 (sample_params ''h'' None 1 ''telegram:42'') new_store)\<rparr>"
        "''h''" 2 "''b''" "''go on''"] by (simp add: handoff_requested_def coord_start_def)
  show ?thesis using r_into_rtranclp [of "coord_step L", OF 1] r_into_rtranclp [of "coord_step L", OF 2]
    by (rule rtranclp_trans)
qed

theorem one_lock_one_successor_witness:
  "count_list (co_started handoff_requested) ''h'' \<le> count_list (co_requested handoff_requested) ''h''"
  by (rule one_lock_one_successor [OF handoff_requested_reachable])

text \<open>Each successor has a coordinator with a lock of its own, and two locks do not exclude each
  other: one request for a handoff can get two successors.\<close>

theorem two_locks_two_successors:
  "\<exists>c. (coord_step {0, 1})\<^sup>*\<^sup>* (coord_start new_store (new_subagent_registry 3 3)) c \<and>
     co_requested c = [''h''] \<and> co_started c = [''h'', ''h'']"
proof -
  let ?s = "co_store handoff_requested" and ?r = "co_registry handoff_requested"
  define h where "h = the (pending_handoff_for_root ''root'' ?s)"
  have h: "pending_handoff_for_root ''root'' ?s = Some h" "dt_id h = ''h''"
    unfolding h_def by code_simp+
  define a1 where "a1 = advance_handoff True ''s1'' 5 h ?s ?r"
  define a2 where "a2 = advance_handoff True ''s2'' 6 h (fst (snd a1)) (snd (snd a1))"
  have "fst a1 \<noteq> None" "fst a2 \<noteq> None" unfolding a1_def a2_def h_def by code_simp+
  then obtain sc1 sc2 where started: "fst a1 = Some sc1" "fst a2 = Some sc2" by blast
  have a1: "advance_handoff True ''s1'' 5 h ?s ?r = (Some sc1, fst (snd a1), snd (snd a1))"
    and a2: "advance_handoff True ''s2'' 6 h (fst (snd a1)) (snd (snd a1)) = (Some sc2, fst (snd a2), snd (snd a2))"
    unfolding a1_def [symmetric] a2_def [symmetric] by (simp_all add: prod_eq_iff started)
  let ?w = "\<lambda>ws. handoff_requested\<lparr>co_workers := ws\<rparr>"
  let ?c7 = "handoff_requested\<lparr>co_store := fst (snd a1), co_registry := snd (snd a1),
      co_workers := [(1, Picked h), (0, Finished)], co_started := [''h'']\<rparr>"
  let ?c8 = "?c7\<lparr>co_store := fst (snd a2), co_registry := snd (snd a2),
      co_workers := [(1, Finished), (0, Finished)], co_started := [''h'', ''h'']\<rparr>"
  have base: "co_workers handoff_requested = []" "co_started handoff_requested = []" "co_requested handoff_requested = [''h'']"
    by (simp_all add: handoff_requested_def coord_start_def)
  have s1: "(coord_step {0, 1})\<^sup>*\<^sup>* handoff_requested (?w [(0, Wants ''root'')])"
    by (rule r_into_rtranclp) (use coord_step.arrives [of 0 "{0, 1}" handoff_requested "''root''"] base in simp)
  have s2: "(coord_step {0, 1})\<^sup>*\<^sup>* (?w [(0, Wants ''root'')]) (?w [(1, Wants ''root''), (0, Wants ''root'')])"
    by (rule r_into_rtranclp) (use coord_step.arrives [of 1 "{0, 1}" "?w [(0, Wants ''root'')]" "''root''"]  in simp)
  have s3: "(coord_step {0, 1})\<^sup>*\<^sup>* (?w [(1, Wants ''root''), (0, Wants ''root'')]) (?w [(1, Wants ''root''), (0, Holds ''root'')])"
    by (rule r_into_rtranclp) (use coord_step.locks [of "?w [(1, Wants ''root''), (0, Wants ''root'')]" "[(1, Wants ''root'')]" 0 "''root''" "[]"]  in simp)
  have s4: "(coord_step {0, 1})\<^sup>*\<^sup>* (?w [(1, Wants ''root''), (0, Holds ''root'')]) (?w [(1, Holds ''root''), (0, Holds ''root'')])"
    by (rule r_into_rtranclp) (use coord_step.locks [of "?w [(1, Wants ''root''), (0, Holds ''root'')]" "[]" 1 "''root''" "[(0, Holds ''root'')]"]  in simp)
  have s5: "(coord_step {0, 1})\<^sup>*\<^sup>* (?w [(1, Holds ''root''), (0, Holds ''root'')]) (?w [(1, Holds ''root''), (0, Picked h)])"
    by (rule r_into_rtranclp) (use coord_step.reads [of "?w [(1, Holds ''root''), (0, Holds ''root'')]" "[(1, Holds ''root'')]" 0 "''root''" "[]"] h in simp)
  have s6: "(coord_step {0, 1})\<^sup>*\<^sup>* (?w [(1, Holds ''root''), (0, Picked h)]) (?w [(1, Picked h), (0, Picked h)])"
    by (rule r_into_rtranclp) (use coord_step.reads [of "?w [(1, Holds ''root''), (0, Picked h)]" "[]" 1 "''root''" "[(0, Picked h)]"] h in simp)
  have s7: "(coord_step {0, 1})\<^sup>*\<^sup>* (?w [(1, Picked h), (0, Picked h)]) ?c7"
    by (rule r_into_rtranclp) (use coord_step.advances [of "?w [(1, Picked h), (0, Picked h)]" "[(1, Picked h)]" 0 h "[]" True "''s1''" 5
        "Some sc1" "fst (snd a1)" "snd (snd a1)" "{0, 1}"] h a1 base in simp)
  have s8: "(coord_step {0, 1})\<^sup>*\<^sup>* ?c7 ?c8"
    by (rule r_into_rtranclp) (use coord_step.advances [of ?c7 "[]" 1 h "[(0, Finished)]" True "''s2''" 6
        "Some sc2" "fst (snd a2)" "snd (snd a2)" "{0, 1}"] h a2 in simp)
  have "(coord_step {0, 1})\<^sup>*\<^sup>* handoff_requested ?c8"
    by (rule rtranclp_trans [OF s1], rule rtranclp_trans [OF s2], rule rtranclp_trans [OF s3], rule rtranclp_trans [OF s4],
        rule rtranclp_trans [OF s5], rule rtranclp_trans [OF s6], rule rtranclp_trans [OF s7], rule s8)
  then have "(coord_step {0, 1})\<^sup>*\<^sup>* (coord_start new_store (new_subagent_registry 3 3)) ?c8"
    using handoff_requested_reachable by (rule rtranclp_trans [rotated])
  then show ?thesis using base by (intro exI [where x = ?c8]) simp
qed

end
