(* ===== verification/Agent_Budget.thy ===== *)
theory Agent_Budget
  imports Prelude
begin

text \<open>
  The two limits of the agent loop: the iteration budget that agents share (\<open>agent/budget.rs\<close>) and the
  guard on spending and action rate (\<open>agent/cost_guard.rs\<close>).

  The budget is a counter that concurrent consumers decrement with compare-and-exchange; the relation
  \<open>budget_step\<close> interleaves their loads and exchanges. The guard runs each operation atomically; the
  readings of the system clock and of the monotonic clock are arguments, in nanoseconds. Counts, tokens and
  cents are natural numbers.
\<close>

section \<open>The shared counter\<close>

datatype consumer = Loading | Comparing nat | Consumed | Refused

record iteration_budget =
  ib_remaining :: nat
  ib_max :: nat

definition new_budget :: "nat \<Rightarrow> iteration_budget" where
  "new_budget m = \<lparr>ib_remaining = m, ib_max = m\<rparr>"

definition is_exhausted :: "iteration_budget \<Rightarrow> bool" where
  "is_exhausted b \<longleftrightarrow> ib_remaining b = 0"

definition reset_budget :: "iteration_budget \<Rightarrow> iteration_budget" where
  "reset_budget b = b\<lparr>ib_remaining := ib_max b\<rparr>"

text \<open>\<open>None\<close> stands for the underflow of the subtraction in \<open>summary\<close>.\<close>

definition budget_used :: "iteration_budget \<Rightarrow> nat option" where
  "budget_used b = (if ib_remaining b \<le> ib_max b then Some (ib_max b - ib_remaining b) else None)"

text \<open>One step of \<open>consume\<close>: the load with its test, or the exchange.\<close>

fun consume_step :: "consumer \<Rightarrow> iteration_budget \<Rightarrow> consumer \<times> iteration_budget" where
  "consume_step Loading b = ((if ib_remaining b = 0 then Refused else Comparing (ib_remaining b)), b)"
| "consume_step (Comparing current) b =
     (if ib_remaining b = current then (Consumed, b\<lparr>ib_remaining := current - 1\<rparr>) else (Loading, b))"
| "consume_step c b = (c, b)"

text \<open>Without interference \<open>consume\<close> is two steps.\<close>

definition consume :: "iteration_budget \<Rightarrow> bool \<times> iteration_budget" where
  "consume b =
     (let (c1, b1) = consume_step Loading b; (c2, b2) = consume_step c1 b1 in (c2 = Consumed, b2))"

fun finished :: "consumer \<Rightarrow> bool" where
  "finished Consumed = True"
| "finished Refused = True"
| "finished _ = False"

text \<open>Consumers on one counter; each step is one consumer's.\<close>

inductive budget_step :: "iteration_budget \<times> consumer list \<Rightarrow> iteration_budget \<times> consumer list \<Rightarrow> bool" where
  "\<not> finished c \<Longrightarrow> consume_step c b = (c', b') \<Longrightarrow> budget_step (b, xs @ c # ys) (b', xs @ c' # ys)"

definition budget_inv :: "nat \<Rightarrow> iteration_budget \<times> consumer list \<Rightarrow> bool" where
  "budget_inv m st \<longleftrightarrow> (case st of (b, cs) \<Rightarrow>
     ib_max b = m \<and> count_list cs Consumed + ib_remaining b = m \<and>
     (\<forall>n. Comparing n \<in> set cs \<longrightarrow> 1 \<le> n \<and> ib_remaining b \<le> n) \<and>
     (Refused \<in> set cs \<longrightarrow> ib_remaining b = 0))"

lemma budget_step_inv: "budget_step st st' \<Longrightarrow> budget_inv m st \<Longrightarrow> budget_inv m st'"
proof (induction rule: budget_step.induct)
  case (1 c b c' b' xs ys)
  then show ?case
    by (cases c) (fastforce simp: budget_inv_def split: if_splits)+
qed

definition consumer_weight :: "nat \<Rightarrow> consumer \<Rightarrow> nat" where
  "consumer_weight r c =
     (case c of Loading \<Rightarrow> 2 * r + 2 | Comparing n \<Rightarrow> if n = r then 2 * r + 1 else 2 * r + 3 | _ \<Rightarrow> 0)"

definition budget_measure :: "iteration_budget \<times> consumer list \<Rightarrow> nat" where
  "budget_measure st = (case st of (b, cs) \<Rightarrow> sum_list (map (consumer_weight (ib_remaining b)) cs))"

lemma weight_decrease:
  assumes "\<forall>n. Comparing n \<in> set cs \<longrightarrow> r \<le> n" and "0 < r"
  shows "sum_list (map (consumer_weight (r - 1)) cs) \<le> sum_list (map (consumer_weight r) cs)"
proof (rule sum_list_mono)
  fix c assume c: "c \<in> set cs"
  show "consumer_weight (r - 1) c \<le> consumer_weight r c"
    by (cases c) (use c assms in \<open>auto simp: consumer_weight_def\<close>)
qed

lemma budget_step_measure: "budget_step st st' \<Longrightarrow> budget_inv m st \<Longrightarrow> budget_measure st' < budget_measure st"
proof (induction rule: budget_step.induct)
  case (1 c b c' b' xs ys)
  let ?r = "ib_remaining b"
  show ?case
  proof (cases c)
    case Loading
    then show ?thesis using 1(2) by (auto simp: budget_measure_def consumer_weight_def)
  next
    case (Comparing n)
    have n: "1 \<le> n" "?r \<le> n" using 1(3) Comparing by (auto simp: budget_inv_def)
    show ?thesis
    proof (cases "?r = n")
      case True
      have "\<forall>k. Comparing k \<in> set xs \<longrightarrow> ?r \<le> k" "\<forall>k. Comparing k \<in> set ys \<longrightarrow> ?r \<le> k"
        using 1(3) by (auto simp: budget_inv_def)
      then have "sum_list (map (consumer_weight (?r - 1)) xs) \<le> sum_list (map (consumer_weight ?r) xs)"
        and "sum_list (map (consumer_weight (?r - 1)) ys) \<le> sum_list (map (consumer_weight ?r) ys)"
        using weight_decrease n True by simp_all
      then show ?thesis using 1(2) Comparing True by (auto simp: budget_measure_def consumer_weight_def)
    next
      case False
      then show ?thesis using 1(2) Comparing by (auto simp: budget_measure_def consumer_weight_def)
    qed
  qed (use 1(1) in simp_all)
qed

lemma budget_run_inv:
  assumes "budget_step\<^sup>*\<^sup>* (new_budget m, replicate n Loading) st"
  shows "budget_inv m st \<and> length (snd st) = n"
  using assms
proof (induction rule: rtranclp_induct)
  case base
  show ?case by (simp add: budget_inv_def new_budget_def)
next
  case (step y z)
  moreover have "length (snd z) = length (snd y)" using step(2) by (cases rule: budget_step.cases) simp
  ultimately show ?case using budget_step_inv by simp
qed

section \<open>The cost guard\<close>

definition nanos :: "int \<Rightarrow> int" where
  "nanos secs = secs * 1000000000"

record cost_guard =
  cg_daily_cents :: nat
  cg_daily_limit_cents :: nat
  cg_hourly_actions :: nat
  cg_hourly_action_limit :: nat
  cg_budget_exceeded :: bool
  cg_last_daily_reset :: int
  cg_last_hourly_reset :: int

definition new_guard :: "int \<Rightarrow> int \<Rightarrow> nat \<Rightarrow> nat \<Rightarrow> cost_guard" where
  "new_guard sys now daily_limit hourly_limit =
     \<lparr>cg_daily_cents = 0, cg_daily_limit_cents = daily_limit, cg_hourly_actions = 0,
      cg_hourly_action_limit = hourly_limit, cg_budget_exceeded = False,
      cg_last_daily_reset = sys, cg_last_hourly_reset = now\<rparr>"

text \<open>The elapsed system time is an error when the clock went back, and then nothing is reset.\<close>

definition reset_daily :: "int \<Rightarrow> cost_guard \<Rightarrow> cost_guard" where
  "reset_daily sys g =
     (if 0 \<le> sys - cg_last_daily_reset g \<and> nanos 86400 \<le> sys - cg_last_daily_reset g then
        g\<lparr>cg_daily_cents := 0,
          cg_budget_exceeded := (if cg_hourly_action_limit g = 0 then False else cg_budget_exceeded g),
          cg_last_daily_reset := sys\<rparr>
      else g)"

definition reset_hourly :: "int \<Rightarrow> cost_guard \<Rightarrow> cost_guard" where
  "reset_hourly now g =
     (if nanos 3600 \<le> max 0 (now - cg_last_hourly_reset g) then
        (let daily_ok = (cg_daily_limit_cents g = 0 \<or> cg_daily_cents g < cg_daily_limit_cents g)
         in g\<lparr>cg_hourly_actions := 0,
              cg_budget_exceeded := (if daily_ok then False else cg_budget_exceeded g),
              cg_last_hourly_reset := now\<rparr>)
      else g)"

definition maybe_reset :: "int \<Rightarrow> int \<Rightarrow> cost_guard \<Rightarrow> cost_guard" where
  "maybe_reset sys now g = reset_hourly now (reset_daily sys g)"

definition is_exceeded :: "int \<Rightarrow> int \<Rightarrow> cost_guard \<Rightarrow> bool \<times> cost_guard" where
  "is_exceeded sys now g = (let g' = maybe_reset sys now g in (cg_budget_exceeded g', g'))"

definition pricing_for_model :: "string \<Rightarrow> nat \<times> nat" where
  "pricing_for_model model =
     (let m = to_lowercase model
      in if str_contains m ''opus'' then (1500, 7500)
         else if str_contains m ''sonnet'' then (300, 1500)
         else if str_contains m ''haiku'' then (25, 125)
         else if str_contains m ''gpt-4o'' then (250, 1000)
         else if str_contains m ''gpt-4'' then (1000, 3000)
         else if str_contains m ''gpt-3.5'' then (50, 150)
         else (300, 1500))"

definition call_cents :: "nat \<Rightarrow> nat \<Rightarrow> string \<Rightarrow> nat" where
  "call_cents input_tokens output_tokens model =
     (let (input_cpm, output_cpm) = pricing_for_model model
      in (input_tokens * input_cpm + output_tokens * output_cpm) div 1000000)"

definition record_usage :: "int \<Rightarrow> int \<Rightarrow> nat \<Rightarrow> nat \<Rightarrow> string \<Rightarrow> cost_guard \<Rightarrow> cost_guard" where
  "record_usage sys now input_tokens output_tokens model g0 =
     (let g = maybe_reset sys now g0;
          new_daily = cg_daily_cents g + call_cents input_tokens output_tokens model;
          new_hourly = cg_hourly_actions g + 1;
          daily_exceeded = (0 < cg_daily_limit_cents g \<and> cg_daily_limit_cents g \<le> new_daily);
          hourly_exceeded = (0 < cg_hourly_action_limit g \<and> cg_hourly_action_limit g \<le> new_hourly)
      in g\<lparr>cg_daily_cents := new_daily, cg_hourly_actions := new_hourly,
           cg_budget_exceeded := (if daily_exceeded \<or> hourly_exceeded then True else cg_budget_exceeded g)\<rparr>)"

definition reset_exceeded :: "cost_guard \<Rightarrow> cost_guard" where
  "reset_exceeded g = g\<lparr>cg_budget_exceeded := False\<rparr>"

definition clear_and_rebase :: "int \<Rightarrow> int \<Rightarrow> cost_guard \<Rightarrow> cost_guard" where
  "clear_and_rebase sys now g =
     g\<lparr>cg_daily_cents := 0, cg_hourly_actions := 0, cg_last_daily_reset := sys,
       cg_last_hourly_reset := now, cg_budget_exceeded := False\<rparr>"

text \<open>The guard in use: readings, recorded calls and the operator's fresh window, at any clock readings.\<close>

inductive guard_run :: "nat \<Rightarrow> nat \<Rightarrow> cost_guard \<Rightarrow> bool" for d h where
  "guard_run d h (new_guard sys now d h)"
| "guard_run d h g \<Longrightarrow> guard_run d h (snd (is_exceeded sys now g))"
| "guard_run d h g \<Longrightarrow> guard_run d h (record_usage sys now i out model g)"
| "guard_run d h g \<Longrightarrow> guard_run d h (clear_and_rebase sys now g)"

definition over_limit :: "cost_guard \<Rightarrow> bool" where
  "over_limit g \<longleftrightarrow>
     (0 < cg_daily_limit_cents g \<and> cg_daily_limit_cents g \<le> cg_daily_cents g) \<or>
     (0 < cg_hourly_action_limit g \<and> cg_hourly_action_limit g \<le> cg_hourly_actions g)"

definition guard_inv :: "nat \<Rightarrow> nat \<Rightarrow> cost_guard \<Rightarrow> bool" where
  "guard_inv d h g \<longleftrightarrow> cg_daily_limit_cents g = d \<and> cg_hourly_action_limit g = h \<and>
     (over_limit g \<longrightarrow> cg_budget_exceeded g)"

lemma maybe_reset_inv: "guard_inv d h g \<Longrightarrow> guard_inv d h (maybe_reset sys now g)"
proof -
  assume inv: "guard_inv d h g"
  have "guard_inv d h (reset_daily sys g)"
    using inv by (auto simp: guard_inv_def over_limit_def reset_daily_def)
  then show ?thesis
    by (auto simp: guard_inv_def over_limit_def maybe_reset_def reset_hourly_def Let_def)
qed

lemma guard_run_inv: "guard_run d h g \<Longrightarrow> guard_inv d h g"
proof (induction rule: guard_run.induct)
  case (1 sys now)
  show ?case by (auto simp: guard_inv_def over_limit_def new_guard_def)
next
  case (2 g sys now)
  then show ?case using maybe_reset_inv by (simp add: is_exceeded_def Let_def)
next
  case (3 g sys now i out model)
  have "guard_inv d h (maybe_reset sys now g)" using 3(2) by (rule maybe_reset_inv)
  then show ?case by (auto simp: record_usage_def Let_def guard_inv_def over_limit_def)
next
  case (4 g sys now)
  then show ?case by (auto simp: guard_inv_def over_limit_def clear_and_rebase_def)
qed

section \<open>Properties\<close>



text \<open>The compare-and-exchange loop is lock-free: from the start no schedule of the consumers is
  infinite, so all of them return.\<close>

theorem budget_consumers_return:
  "\<not> (\<exists>f. f 0 = (new_budget m, replicate n Loading) \<and> (\<forall>i. budget_step (f i) (f (Suc i))))"
proof
  assume "\<exists>f. f 0 = (new_budget m, replicate n Loading) \<and> (\<forall>i. budget_step (f i) (f (Suc i)))"
  then obtain f where f: "f 0 = (new_budget m, replicate n Loading)" "\<And>i. budget_step (f i) (f (Suc i))" by blast
  have inv: "budget_inv m (f i)" for i
  proof (induction i)
    case 0
    show ?case using budget_run_inv [OF rtranclp.rtrancl_refl, of m n] f(1) by simp
  next
    case (Suc i)
    then show ?case using f(2) budget_step_inv by blast
  qed
  have "budget_measure (f i) + i \<le> budget_measure (f 0)" for i
  proof (induction i)
    case (Suc i)
    then show ?case using budget_step_measure [OF f(2) inv, of i] by simp
  qed simp
  from this [of "Suc (budget_measure (f 0))"] show False by simp
qed

text \<open>As long as the operator does not merely clear the latch, a provider call is let through only
  while today's spend and this hour's actions are below their limits, at whatever times the guard is
  asked.\<close>

theorem guard_admits_only_below_limits:
  assumes "guard_run d h g" and "is_exceeded sys now g = (False, g')"
  shows "(d = 0 \<or> cg_daily_cents g' < d) \<and> (h = 0 \<or> cg_hourly_actions g' < h)"
proof -
  have "guard_inv d h g'" "\<not> cg_budget_exceeded g'"
    using maybe_reset_inv [OF guard_run_inv [OF assms(1)]] assms(2) by (auto simp: is_exceeded_def Let_def)
  then show ?thesis by (auto simp: guard_inv_def over_limit_def)
qed

theorem guard_admits_only_below_limits_witness:
  "cg_hourly_actions (snd (is_exceeded 5 5 (new_guard 0 0 10 2))) < 2"
proof -
  have "is_exceeded 5 5 (new_guard 0 0 10 2) = (False, snd (is_exceeded 5 5 (new_guard 0 0 10 2)))" by code_simp
  from guard_admits_only_below_limits [OF guard_run.intros(1) this] show ?thesis by simp
qed

text \<open>A tripped guard frees itself: once a day has passed since the daily and an hour since the hourly
  reset, the guard admits calls again, whatever happened before.\<close>

theorem guard_recovers:
  assumes "nanos 86400 \<le> sys - cg_last_daily_reset g" and "nanos 3600 \<le> now - cg_last_hourly_reset g"
  shows "\<not> fst (is_exceeded sys now g)"
  using assms by (simp add: is_exceeded_def maybe_reset_def reset_daily_def reset_hourly_def Let_def nanos_def)

theorem guard_recovers_witness:
  "\<not> fst (is_exceeded (nanos 86400) (nanos 3600)
     ((new_guard 0 0 500 2)\<lparr>cg_daily_cents := 500, cg_hourly_actions := 2, cg_budget_exceeded := True\<rparr>))"
  by (rule guard_recovers) (simp_all add: new_guard_def nanos_def)

text \<open>Calls below one cent are free: any number of them leaves the daily spend where it was, so the
  daily limit never trips.\<close>

theorem small_calls_never_trip_the_limit:
  assumes "call_cents i out model = 0" and "h = 0" and "0 < d"
  shows "let g = (record_usage 0 0 i out model ^^ n) (new_guard 0 0 d h)
    in cg_daily_cents g = 0 \<and> \<not> fst (is_exceeded 0 0 g)"
proof -
  let ?g = "\<lambda>n. (record_usage 0 0 i out model ^^ n) (new_guard 0 0 d h)"
  have "cg_daily_cents (?g n) = 0 \<and> \<not> cg_budget_exceeded (?g n) \<and> cg_daily_limit_cents (?g n) = d \<and>
      cg_hourly_action_limit (?g n) = 0 \<and> cg_last_daily_reset (?g n) = 0 \<and> cg_last_hourly_reset (?g n) = 0"
    using assms by (induction n)
      (auto simp: new_guard_def record_usage_def maybe_reset_def reset_daily_def reset_hourly_def nanos_def Let_def)
  then show ?thesis
    by (auto simp: is_exceeded_def maybe_reset_def reset_daily_def reset_hourly_def nanos_def Let_def)
qed

theorem small_calls_never_trip_the_limit_witness:
  "let g = (record_usage 0 0 1000 500 ''claude-3-haiku'' ^^ 1000000) (new_guard 0 0 1 0)
   in cg_daily_cents g = 0 \<and> \<not> fst (is_exceeded 0 0 g)"
proof -
  have "str_contains (to_lowercase ''claude-3-haiku'') ''haiku''"
    and "\<not> str_contains (to_lowercase ''claude-3-haiku'') ''opus''"
    and "\<not> str_contains (to_lowercase ''claude-3-haiku'') ''sonnet''" by code_simp+
  then have "call_cents 1000 500 ''claude-3-haiku'' = 0" by (simp add: call_cents_def pricing_for_model_def Let_def)
  then show ?thesis by (rule small_calls_never_trip_the_limit) simp_all
qed

end
