(* ===== verification/Command_Chain.thy ===== *)
theory Command_Chain
  imports Prelude
begin

text \<open>
  Model of \<open>src/tools/command_chain.rs\<close>: the quote-aware split of a shell command into
  its chain segments, and the laws the permission rules rest on. The loop over the peekable
  character iterator is \<open>chain_loop\<close>; its accumulators are the two quote flags, the current
  segment and the segments found so far.
\<close>

abbreviation backslash :: char where "backslash \<equiv> CHR 0x5C"
abbreviation squote :: char where "squote \<equiv> CHR 0x27"
abbreviation dquote :: char where "dquote \<equiv> CHR 0x22"
abbreviation newline :: char where "newline \<equiv> CHR 0x0A"
abbreviation semicolon :: char where "semicolon \<equiv> CHR 0x3B"
abbreviation bar :: char where "bar \<equiv> CHR 0x7C"
abbreviation ampersand :: char where "ampersand \<equiv> CHR 0x26"

section \<open>The splitter\<close>

text \<open>\<open>end_segment\<close>: the cleared buffer and the segments, with the trimmed buffer pushed
  when it is not empty.\<close>

definition end_segment :: "string \<Rightarrow> string list \<Rightarrow> string \<times> string list" where
  "end_segment current segments =
     (let segment = trim current
      in ([], if segment \<noteq> [] then segments @ [segment] else segments))"

text \<open>\<open>chars.peek() == Some(&c)\<close> followed by \<open>chars.next()\<close>.\<close>

fun skip_if :: "char \<Rightarrow> string \<Rightarrow> string" where
  "skip_if c [] = []"
| "skip_if c (x # xs) = (if x = c then xs else x # xs)"

lemma length_skip_if [simp]: "length (skip_if c xs) \<le> length xs"
  by (cases xs) auto

function chain_loop :: "string \<Rightarrow> string \<Rightarrow> bool \<Rightarrow> bool \<Rightarrow> string list \<Rightarrow> string list" where
  "chain_loop [] current in_single in_double segments = snd (end_segment current segments)"
| "chain_loop (ch # cs) current in_single in_double segments =
     (if ch = backslash \<and> \<not> in_single then
        (case cs of
           [] \<Rightarrow> chain_loop [] (current @ [ch]) in_single in_double segments
         | next # rest \<Rightarrow> chain_loop rest (current @ [ch, next]) in_single in_double segments)
      else if ch = squote \<and> \<not> in_double then
        chain_loop cs (current @ [ch]) (\<not> in_single) in_double segments
      else if ch = dquote \<and> \<not> in_single then
        chain_loop cs (current @ [ch]) in_single (\<not> in_double) segments
      else if (ch = semicolon \<or> ch = newline) \<and> \<not> in_single \<and> \<not> in_double then
        chain_loop cs (fst (end_segment current segments)) in_single in_double
          (snd (end_segment current segments))
      else if ch = bar \<and> \<not> in_single \<and> \<not> in_double then
        chain_loop (skip_if bar cs) (fst (end_segment current segments)) in_single in_double
          (snd (end_segment current segments))
      else if ch = ampersand \<and> \<not> in_single \<and> \<not> in_double then
        chain_loop (skip_if ampersand cs) (fst (end_segment current segments)) in_single in_double
          (snd (end_segment current segments))
      else chain_loop cs (current @ [ch]) in_single in_double segments)"
  by pat_completeness auto
termination
  by (relation "measure (\<lambda>(cs, _). length cs)") (auto simp: less_Suc_eq_le)

definition split_command_chain :: "string \<Rightarrow> string list" where
  "split_command_chain cmd =
     (let segments = chain_loop cmd [] False False []
      in if segments = [] then [cmd] else segments)"

text \<open>The segments before the fallback for a blank command.\<close>

definition chain_segments :: "string \<Rightarrow> string list" where
  "chain_segments cmd = chain_loop cmd [] False False []"

definition chain_invocations :: "string \<Rightarrow> string list" where
  "chain_invocations cmd =
     List.map_filter (\<lambda>segment. case split_whitespace segment of [] \<Rightarrow> None | t # _ \<Rightarrow> Some t)
       (split_command_chain cmd)"

section \<open>Laws\<close>

lemma fst_end_segment [simp]: "fst (end_segment c s) = []"
  by (simp add: end_segment_def Let_def)

lemma end_segment_Nil [simp]: "snd (end_segment [] s) = s"
  by (simp add: end_segment_def)

lemma end_segment_acc: "snd (end_segment c s) = s @ snd (end_segment c [])"
  by (simp add: end_segment_def Let_def)

declare chain_loop.simps(2) [simp del]

definition is_operator :: "char \<Rightarrow> bool" where
  "is_operator c \<longleftrightarrow> c \<in> {semicolon, newline, bar, ampersand}"

lemma chain_loop_step_operator:
  "is_operator c \<Longrightarrow> chain_loop (c # cs) cur False False segs =
     chain_loop (if c = bar \<or> c = ampersand then skip_if c cs else cs) [] False False
       (snd (end_segment cur segs))"
  by (auto simp: is_operator_def chain_loop.simps(2))

lemma chain_loop_step_escape:
  "\<not> sq \<Longrightarrow> chain_loop (backslash # c # cs) cur sq dq segs =
     chain_loop cs (cur @ [backslash, c]) sq dq segs"
  by (simp add: chain_loop.simps(2))

lemma chain_loop_step_escape_end:
  "\<not> sq \<Longrightarrow> chain_loop [backslash] cur sq dq segs = chain_loop [] (cur @ [backslash]) sq dq segs"
  by (simp add: chain_loop.simps(2))

lemma chain_loop_step_other:
  "\<lbrakk>ch = backslash \<longrightarrow> sq; is_operator ch \<longrightarrow> sq \<or> dq\<rbrakk> \<Longrightarrow>
   chain_loop (ch # cs) cur sq dq segs =
     chain_loop cs (cur @ [ch]) (if ch = squote \<and> \<not> dq then \<not> sq else sq)
       (if ch = dquote \<and> \<not> sq then \<not> dq else dq) segs"
  by (auto simp: is_operator_def chain_loop.simps(2))

text \<open>The four shapes of one iteration, as a case rule.\<close>

lemma chain_step_cases [case_names empty escape_end escape operator other]:
  assumes "cs = [] \<Longrightarrow> P"
    and "\<lbrakk>cs = [backslash]; \<not> sq\<rbrakk> \<Longrightarrow> P"
    and "\<And>c rest. \<lbrakk>cs = backslash # c # rest; \<not> sq\<rbrakk> \<Longrightarrow> P"
    and "\<And>c rest. \<lbrakk>cs = c # rest; is_operator c; \<not> sq; \<not> dq\<rbrakk> \<Longrightarrow> P"
    and "\<And>c rest. \<lbrakk>cs = c # rest; c = backslash \<longrightarrow> sq; is_operator c \<longrightarrow> sq \<or> dq\<rbrakk> \<Longrightarrow> P"
  shows P
  using assms by (metis list.exhaust)

text \<open>The segments found so far only grow: the loop appends to them.\<close>

lemma chain_loop_acc:
  "chain_loop cs cur sq dq segs = segs @ chain_loop cs cur sq dq []"
proof (induction cs arbitrary: cur sq dq segs rule: length_induct)
  case (1 cs)
  have IH: "chain_loop ys c s d g = g @ chain_loop ys c s d []" if "length ys < length cs" for ys c s d g
    using 1 that by blast
  show ?case
  proof (cases rule: chain_step_cases [where cs = cs and sq = sq and dq = dq])
    case empty
    then show ?thesis by (simp add: end_segment_acc [of cur segs])
  next
    case escape_end
    then show ?thesis
      by (simp add: chain_loop_step_escape_end end_segment_acc [of "cur @ [backslash]" segs])
  next
    case (escape c rest)
    then show ?thesis using IH [of rest _ _ _ segs] by (simp add: chain_loop_step_escape)
  next
    case (operator c rest)
    let ?r = "if c = bar \<or> c = ampersand then skip_if c rest else rest"
    have "length ?r < length cs"
      using operator(1) length_skip_if [of c rest] by (auto simp: le_imp_less_Suc)
    then have "chain_loop ?r [] False False (segs @ snd (end_segment cur [])) =
        segs @ chain_loop ?r [] False False (snd (end_segment cur []))"
      using IH by (metis append.assoc)
    then show ?thesis
      using operator by (simp add: chain_loop_step_operator end_segment_acc [of cur segs])
  next
    case (other c rest)
    then show ?thesis using IH [of rest _ _ _ segs] by (simp add: chain_loop_step_other)
  qed
qed

text \<open>A boundary at the start of a segment changes nothing.\<close>

lemma chain_loop_lead_boundary:
  "is_operator c \<Longrightarrow> chain_loop (c # b) [] False False segs = chain_loop b [] False False segs"
proof (induction b rule: length_induct)
  case (1 b)
  show ?case
  proof (cases "\<exists>rest. b = c # rest \<and> (c = bar \<or> c = ampersand)")
    case True
    then obtain rest where b: "b = c # rest" by blast
    have "chain_loop (c # b) [] False False segs = chain_loop rest [] False False segs"
      using 1(2) True b by (simp add: chain_loop_step_operator)
    also have "\<dots> = chain_loop b [] False False segs"
      using 1 b by simp
    finally show ?thesis .
  next
    case False
    then have "(if c = bar \<or> c = ampersand then skip_if c b else b) = b"
      by (cases b) auto
    then show ?thesis using 1(2) by (simp add: chain_loop_step_operator)
  qed
qed

lemma chain_loop_operator:
  assumes "is_operator c"
  shows "chain_loop (c # cs) cur False False segs =
         chain_loop cs [] False False (snd (end_segment cur segs))"
proof -
  have "chain_loop (skip_if c cs) [] False False g = chain_loop cs [] False False g" for g
    using chain_loop_lead_boundary [OF assms] by (cases cs) auto
  then show ?thesis using chain_loop_step_operator [OF assms] by simp
qed

lemmas chain_loop_steps =
  chain_loop_operator chain_loop_step_escape chain_loop_step_escape_end chain_loop_step_other

subsection \<open>Compositionality\<close>

text \<open>Whether the scanner leaves a text outside quotes and with no dangling escape.\<close>

function chain_closed :: "string \<Rightarrow> bool \<Rightarrow> bool \<Rightarrow> bool" where
  "chain_closed [] sq dq = (\<not> sq \<and> \<not> dq)"
| "chain_closed (ch # cs) sq dq =
     (if ch = backslash \<and> \<not> sq then
        (case cs of [] \<Rightarrow> False | _ # rest \<Rightarrow> chain_closed rest sq dq)
      else if ch = squote \<and> \<not> dq then chain_closed cs (\<not> sq) dq
      else if ch = dquote \<and> \<not> sq then chain_closed cs sq (\<not> dq)
      else chain_closed cs sq dq)"
  by pat_completeness auto
termination by (relation "measure (\<lambda>(cs, _). length cs)") auto

definition chain_operators :: "string list" where
  "chain_operators = [[semicolon], [newline], [bar], [bar, bar], [ampersand], [ampersand, ampersand]]"

lemma chain_loop_boundary:
  assumes "sep \<in> set chain_operators"
  shows "chain_loop (sep @ b) cur False False segs =
         chain_loop b [] False False (snd (end_segment cur segs))"
proof -
  let ?c = "hd sep"
  have c: "is_operator ?c" and sep: "sep = [?c] \<or> sep = [?c, ?c]"
    using assms by (auto simp: chain_operators_def is_operator_def)
  from sep show ?thesis
  proof
    assume "sep = [?c]"
    then show ?thesis using chain_loop_operator [OF c, of b] by (metis append_Cons append_Nil)
  next
    assume "sep = [?c, ?c]"
    then have "sep @ b = ?c # ?c # b" by (metis append_Cons append_Nil)
    then show ?thesis by (simp only: chain_loop_operator [OF c] end_segment_Nil)
  qed
qed

lemma chain_loop_append:
  assumes "chain_closed a sq dq" and "sep \<in> set chain_operators"
  shows "chain_loop (a @ sep @ b) cur sq dq segs =
         chain_loop a cur sq dq segs @ chain_loop b [] False False []"
  using assms(1)
proof (induction a arbitrary: cur sq dq segs rule: length_induct)
  case (1 a)
  have IH: "chain_loop (ys @ sep @ b) c s d g = chain_loop ys c s d g @ chain_loop b [] False False []"
    if "length ys < length a" and "chain_closed ys s d" for ys c s d g
    using 1(1) that by blast
  show ?case
  proof (cases rule: chain_step_cases [where cs = a and sq = sq and dq = dq])
    case empty
    with 1(2) have "chain_loop (a @ sep @ b) cur sq dq segs =
        chain_loop b [] False False (snd (end_segment cur segs))"
      using chain_loop_boundary [OF assms(2)] by simp
    also have "\<dots> = snd (end_segment cur segs) @ chain_loop b [] False False []"
      by (rule chain_loop_acc)
    finally show ?thesis using empty by simp
  next
    case escape_end
    with 1(2) show ?thesis by simp
  next
    case (escape c rest)
    with 1(2) IH [of rest] show ?thesis by (simp add: chain_loop_steps)
  next
    case (operator c rest)
    then have "chain_closed rest False False"
      using 1(2) by (auto simp: is_operator_def)
    with operator IH [of rest] show ?thesis by (simp add: chain_loop_steps)
  next
    case (other c rest)
    then have "chain_closed rest (if c = squote \<and> \<not> dq then \<not> sq else sq)
        (if c = dquote \<and> \<not> sq then \<not> dq else dq)"
      using 1(2) by (auto split: if_splits)
    with other IH [of rest] show ?thesis by (simp add: chain_loop_steps)
  qed
qed

subsection \<open>Well-formed segments\<close>

lemma trim_idem [simp]: "trim (trim s) = trim s"
proof -
  have start: "trim_start (trim s) = trim s"
  proof (cases "trim s")
    case Nil
    then show ?thesis by (simp add: trim_start_def)
  next
    case (Cons x xs)
    obtain w where w: "trim_start s = trim s @ w"
      unfolding trim_def using trim_end_prefix by blast
    then have "hd (trim_start s) = x" and "trim_start s \<noteq> []" using Cons by auto
    then have "\<not> is_whitespace x"
      unfolding trim_start_def using hd_dropWhile by metis
    then show ?thesis using Cons by (simp add: trim_start_def)
  qed
  have "trim_end (trim_end t) = trim_end t" for t
    by (simp add: trim_end_def)
  then show ?thesis using start by (metis trim_def)
qed

definition seg_ok :: "string \<Rightarrow> bool" where
  "seg_ok s \<longleftrightarrow> s \<noteq> [] \<and> trim s = s"

lemma end_segment_ok: "(\<forall>s \<in> set segs. seg_ok s) \<Longrightarrow> (\<forall>s \<in> set (snd (end_segment c segs)). seg_ok s)"
  by (auto simp: end_segment_def Let_def seg_ok_def)

lemma chain_loop_ok:
  "(\<forall>s \<in> set segs. seg_ok s) \<Longrightarrow> (\<forall>s \<in> set (chain_loop cs cur sq dq segs). seg_ok s)"
proof (induction cs arbitrary: cur sq dq segs rule: length_induct)
  case (1 cs)
  note ok = end_segment_ok [OF 1(2)]
  have IH: "\<forall>s \<in> set (chain_loop ys c a b g). seg_ok s"
    if "length ys < length cs" "\<forall>s \<in> set g. seg_ok s" for ys c a b g
    using 1(1) that by blast
  show ?case
  proof (cases rule: chain_step_cases [where cs = cs and sq = sq and dq = dq])
    case empty
    then show ?thesis using ok by simp
  next
    case escape_end
    then show ?thesis using ok by (simp add: chain_loop_step_escape_end)
  next
    case (escape c rest)
    then show ?thesis using IH [OF _ 1(2), of rest] by (simp add: chain_loop_step_escape)
  next
    case (operator c rest)
    then show ?thesis using IH [OF _ ok, of rest] by (simp add: chain_loop_operator)
  next
    case (other c rest)
    then show ?thesis using IH [OF _ 1(2), of rest] by (simp add: chain_loop_step_other)
  qed
qed

text \<open>Characters that may occur in a segment when the command has no quote and no escape.\<close>

definition plain_text :: "string \<Rightarrow> bool" where
  "plain_text s \<longleftrightarrow> set s \<inter> {backslash, squote, dquote} = {}"

definition no_operator :: "string \<Rightarrow> bool" where
  "no_operator s \<longleftrightarrow> (\<forall>c \<in> set s. \<not> is_operator c)"

lemma end_segment_no_operator:
  "\<lbrakk>\<forall>s \<in> set segs. no_operator s; no_operator c\<rbrakk> \<Longrightarrow>
   \<forall>s \<in> set (snd (end_segment c segs)). no_operator s"
proof (cases "trim c = []")
  case False
  assume segs: "\<forall>s \<in> set segs. no_operator s" and c: "no_operator c"
  from c have "no_operator (trim c)"
    using trim_set [of c] unfolding no_operator_def by blast
  with segs False show ?thesis by (simp add: end_segment_def)
qed (simp add: end_segment_def)

lemma chain_loop_no_operator:
  "\<lbrakk>plain_text cs; no_operator cur; \<forall>s \<in> set segs. no_operator s\<rbrakk> \<Longrightarrow>
   \<forall>s \<in> set (chain_loop cs cur False False segs). no_operator s"
proof (induction cs arbitrary: cur segs)
  case Nil
  then show ?case using end_segment_no_operator [OF Nil.prems(3,2)] by simp
next
  case (Cons ch cs)
  have plain: "plain_text cs" "ch \<notin> {backslash, squote, dquote}"
    using Cons.prems(1) by (auto simp: plain_text_def)
  show ?case
  proof (cases "is_operator ch")
    case True
    have "no_operator []" by (simp add: no_operator_def)
    then show ?thesis
      using True Cons.IH [OF plain(1) _ end_segment_no_operator [OF Cons.prems(3,2)]]
      by (simp add: chain_loop_operator)
  next
    case False
    then have "no_operator (cur @ [ch])" using Cons.prems(2) by (auto simp: no_operator_def)
    then show ?thesis
      using False plain Cons.IH [OF plain(1) _ Cons.prems(3), of "cur @ [ch]"]
      by (simp add: chain_loop_step_other)
  qed
qed

lemma split_command_chain_segments:
  "split_command_chain cmd = (if chain_segments cmd = [] then [cmd] else chain_segments cmd)"
  by (simp add: split_command_chain_def chain_segments_def Let_def)

section \<open>Properties\<close>

text \<open>Splitting is compositional at every chain operator: when the left part leaves the
  scanner outside quotes and escapes, the segments of the chain are the segments of the left part
  followed by those of the right part, so no part can hide inside its neighbour.\<close>

theorem chain_splits_at_operators:
  assumes "chain_closed a False False" and "sep \<in> set chain_operators"
  shows "chain_segments (a @ sep @ b) = chain_segments a @ chain_segments b"
  unfolding chain_segments_def using chain_loop_append [OF assms, of b "[]" "[]"] .

theorem chain_splits_at_operators_witness:
  "chain_segments ((''echo '' @ [dquote] @ ''a;b'' @ [dquote]) @ ''||'' @ ''rm x'') =
   chain_segments (''echo '' @ [dquote] @ ''a;b'' @ [dquote]) @ chain_segments ''rm x''"
  by (rule chain_splits_at_operators) code_simp+

text \<open>Every segment is trimmed and not empty, except that a blank command comes back whole; in a
  command with no quote and no escape no segment holds a chain operator.\<close>

theorem segments_are_well_formed:
  assumes "seg \<in> set (split_command_chain cmd)"
  shows "(seg_ok seg \<or> (seg = cmd \<and> chain_segments cmd = [])) \<and>
         (plain_text cmd \<and> chain_segments cmd \<noteq> [] \<longrightarrow> no_operator seg)"
proof (cases "chain_segments cmd = []")
  case True
  then show ?thesis using assms by (simp add: split_command_chain_segments)
next
  case False
  then have seg: "seg \<in> set (chain_loop cmd [] False False [])"
    using assms by (simp add: split_command_chain_segments chain_segments_def)
  have "seg_ok seg" using chain_loop_ok [of "[]" cmd "[]" False False] seg by simp
  moreover have "plain_text cmd \<Longrightarrow> no_operator seg"
    using chain_loop_no_operator [of cmd "[]" "[]"] seg by (simp add: no_operator_def)
  ultimately show ?thesis by blast
qed

theorem segments_are_well_formed_witness: "seg_ok ''ls'' \<and> no_operator ''ls''"
proof -
  have "''ls'' \<in> set (split_command_chain ''cd x && ls'')" "plain_text ''cd x && ls''"
    "chain_segments ''cd x && ls'' \<noteq> []"
    by code_simp+
  then show ?thesis using segments_are_well_formed [of "''ls''" "''cd x && ls''"] by blast
qed

end
