(* ===== verification/Glob_Match.thy ===== *)
theory Glob_Match
  imports Prelude
begin

text \<open>
  Model of \<open>src/hooks/matcher.rs\<close>: the glob used by hook matchers and by permission
  rules. The declarative reading of a glob (\<open>glob_denotes\<close>) says where its fixed text may
  stand; \<open>glob_match\<close> is shown to decide it.
\<close>

abbreviation star :: string where "star \<equiv> ''*''"

record matched_hook =
  mh_matcher :: string
  mh_command :: string

definition glob_match :: "string \<Rightarrow> string \<Rightarrow> bool" where
  "glob_match pattern txt =
     (if pattern = star then True
      else case strip_prefix star pattern of
        Some rest \<Rightarrow>
          (case strip_suffix star rest of
             Some needle \<Rightarrow> str_contains txt needle
           | None \<Rightarrow> ends_with txt rest)
      | None \<Rightarrow>
          (case strip_suffix star pattern of
             Some pre \<Rightarrow> starts_with txt pre
           | None \<Rightarrow> txt = pattern))"

definition single_match :: "string \<Rightarrow> string \<Rightarrow> bool" where
  "single_match pattern name = glob_match pattern name"

definition tool_name_matches :: "string \<Rightarrow> string \<Rightarrow> bool" where
  "tool_name_matches pattern name \<longleftrightarrow>
     (\<exists>alt \<in> set (split_char (CHR 0x7C) pattern). single_match (trim alt) name)"

definition matching_hooks :: "matched_hook list \<Rightarrow> string \<Rightarrow> matched_hook list" where
  "matching_hooks hooks name = filter (\<lambda>h. tool_name_matches (mh_matcher h) name) hooks"

section \<open>The declarative reading\<close>

text \<open>The fixed text of a glob, with what is free before and after it.\<close>

definition glob_lead :: "string \<Rightarrow> bool" where
  "glob_lead p \<longleftrightarrow> starts_with p star"

definition glob_trail :: "string \<Rightarrow> bool" where
  "glob_trail p \<longleftrightarrow> ends_with p star"

definition glob_core :: "string \<Rightarrow> string" where
  "glob_core p =
     (let q = (if glob_lead p then drop 1 p else p)
      in if ends_with q star then take (length q - 1) q else q)"

definition glob_denotes :: "string \<Rightarrow> string \<Rightarrow> bool" where
  "glob_denotes p t \<longleftrightarrow>
     (\<exists>a b. t = a @ glob_core p @ b \<and> (\<not> glob_lead p \<longrightarrow> a = []) \<and> (\<not> glob_trail p \<longrightarrow> b = []))"

lemma strip_suffix_star_Some: "ends_with q star \<Longrightarrow> strip_suffix star q = Some (take (length q - 1) q)"
  by (simp add: strip_suffix_def)

lemma ends_with_Cons_star: "q \<noteq> [] \<Longrightarrow> ends_with (c # q) star = ends_with q star"
  by (auto simp: ends_with_iff) (metis last.simps last_snoc snoc_eq_iff_butlast)

lemma glob_match_denotes: "glob_match p t \<longleftrightarrow> glob_denotes p t"
proof (cases "glob_lead p")
  case True
  then obtain rest where p: "p = CHR 0x2A # rest"
    by (auto simp: glob_lead_def starts_with_iff)
  show ?thesis
  proof (cases "rest = []")
    case True
    then have "glob_lead p" "glob_trail p" "glob_core p = []"
      using p by (simp_all add: glob_lead_def glob_trail_def glob_core_def ends_with_def
          starts_with_def)
    moreover have "\<exists>a b. t = a @ b" by (rule exI [of _ t]) simp
    ultimately show ?thesis using p True by (simp add: glob_match_def glob_denotes_def)
  next
    case False
    have core: "glob_core p = (if ends_with rest star then take (length rest - 1) rest else rest)"
      using p by (simp add: glob_core_def glob_lead_def starts_with_def)
    have trail: "glob_trail p = ends_with rest star"
      using p ends_with_Cons_star [OF False] by (simp add: glob_trail_def)
    have "glob_match p t =
        (if ends_with rest star then str_contains t (take (length rest - 1) rest) else ends_with t rest)"
      using p False
      by (simp add: glob_match_def strip_prefix_def starts_with_def strip_suffix_def)
    then show ?thesis
      using True core trail by (auto simp: glob_denotes_def str_contains_iff ends_with_iff)
  qed
next
  case False
  then have "p \<noteq> star" and np: "strip_prefix star p = None"
    by (auto simp: glob_lead_def strip_prefix_def)
  then have "glob_match p t = (if ends_with p star then starts_with t (take (length p - 1) p) else t = p)"
    by (simp add: glob_match_def strip_suffix_def)
  moreover have "glob_core p = (if ends_with p star then take (length p - 1) p else p)"
    using False by (simp add: glob_core_def)
  ultimately show ?thesis
    using False by (auto simp: glob_denotes_def glob_trail_def starts_with_iff)
qed

lemma glob_match_exact: "\<lbrakk>CHR 0x2A \<notin> set p\<rbrakk> \<Longrightarrow> glob_match p t \<longleftrightarrow> t = p"
  by (auto simp: glob_match_def strip_prefix_def strip_suffix_def starts_with_iff ends_with_iff)

lemma glob_match_own_prefix: "glob_match (s @ star) s"
proof -
  have trail: "glob_trail (s @ star)"
    by (auto simp: glob_trail_def ends_with_iff)
  show ?thesis
  proof (cases "glob_lead s \<and> s \<noteq> []")
    case True
    then obtain r where s: "s = CHR 0x2A # r" by (auto simp: glob_lead_def starts_with_iff)
    then have "glob_lead (s @ star)" and "glob_core (s @ star) = r"
      by (auto simp: glob_lead_def glob_core_def starts_with_def ends_with_iff)
    with s trail show ?thesis
      by (auto simp: glob_match_denotes glob_denotes_def intro: exI [of _ star])
  next
    case False
    show ?thesis
    proof (cases "s = []")
      case True
      then show ?thesis by (simp add: glob_match_def)
    next
      case ne: False
      with False have "\<not> glob_lead (s @ star)"
        by (cases s) (auto simp: glob_lead_def starts_with_def)
      moreover from this have "glob_core (s @ star) = s"
        by (auto simp: glob_core_def ends_with_iff)
      ultimately show ?thesis using trail
        by (auto simp: glob_match_denotes glob_denotes_def)
    qed
  qed
qed

lemma glob_match_prefix_extends:
  assumes "\<not> glob_lead s" and "s \<noteq> []"
  shows "glob_match (s @ star) (s @ r)"
proof -
  have "\<not> glob_lead (s @ star)" using assms by (cases s) (auto simp: glob_lead_def starts_with_def)
  moreover from this have "glob_core (s @ star) = s"
    by (auto simp: glob_core_def ends_with_iff)
  moreover have "glob_trail (s @ star)" by (auto simp: glob_trail_def ends_with_iff)
  ultimately show ?thesis by (auto simp: glob_match_denotes glob_denotes_def)
qed

lemma glob_match_self: "glob_match p p"
proof (cases "glob_trail p")
  case True
  then obtain q where "p = q @ star" by (auto simp: glob_trail_def ends_with_iff)
  then show ?thesis
  proof (cases "glob_lead p")
    case lead: True
    then obtain r where r: "p = CHR 0x2A # r" by (auto simp: glob_lead_def starts_with_iff)
    have "\<exists>b. r = glob_core p @ b"
      using lead r by (auto simp: glob_core_def) (metis append_take_drop_id)
    then obtain b where "p = star @ glob_core p @ b" using r by auto
    with True lead show ?thesis
      unfolding glob_match_denotes glob_denotes_def by blast
  next
    case False
    then have "glob_core p = q" using \<open>p = q @ star\<close> by (auto simp: glob_core_def ends_with_iff)
    with True False \<open>p = q @ star\<close> show ?thesis
      by (auto simp: glob_match_denotes glob_denotes_def)
  qed
next
  case False
  then have e: "\<not> ends_with p star" by (simp add: glob_trail_def)
  show ?thesis
  proof (cases "glob_lead p")
    case lead: True
    then obtain r where r: "p = CHR 0x2A # r" by (auto simp: glob_lead_def starts_with_iff)
    with e have "\<not> ends_with r star" by (auto simp: ends_with_iff)
    with r lead have "glob_core p = r" by (simp add: glob_core_def)
    with r False lead show ?thesis
      by (auto simp: glob_match_denotes glob_denotes_def intro: exI [of _ star])
  next
    case nolead: False
    with e have "glob_core p = p" by (simp add: glob_core_def)
    with nolead False show ?thesis by (auto simp: glob_match_denotes glob_denotes_def)
  qed
qed

section \<open>Properties\<close>

text \<open>C36. The glob matcher decides the declarative reading of a glob: the fixed text of the pattern
  stands in the subject, at its start unless the pattern begins with a star, and at its end unless the
  pattern ends with one.\<close>

theorem glob_match_decides_denotation: "glob_match p t \<longleftrightarrow> glob_denotes p t"
  by (rule glob_match_denotes)

end
