(* ===== verification/Approval_Queue.thy ===== *)
theory Approval_Queue
  imports Permissions
begin

text \<open>
  The human-in-the-loop approval queue (\<open>tools/approval.rs\<close>) and the two gateway handlers
  that answer a request (\<open>handle_approvals_approve\<close>, \<open>handle_approvals_deny\<close> of
  \<open>gateway/ws/admin_ws/approvals.rs\<close>).

  A one-shot channel is a number; \<open>aq_sent\<close> is the list of the decisions sent, in order, each
  with its channel, and \<open>aq_events\<close> the broadcast of new requests. Instants are nanoseconds
  on one clock, and \<open>Instant::elapsed\<close> is the saturating difference to the current instant
  \<open>now\<close>. Each method takes the queue's lock once per access, so an execution of concurrent
  tasks is a sequence of \<open>submit\<close> and \<open>resolve\<close> steps: \<open>aq_reachable\<close>.
\<close>

section \<open>Risk levels\<close>

datatype risk_level = Low | Medium | High | Critical

fun risk_discriminant :: "risk_level \<Rightarrow> nat" where
  "risk_discriminant Low = 0"
| "risk_discriminant Medium = 1"
| "risk_discriminant High = 2"
| "risk_discriminant Critical = 3"

instantiation risk_level :: linorder
begin
definition less_eq_risk_level :: "risk_level \<Rightarrow> risk_level \<Rightarrow> bool" where
  "less_eq_risk_level a b \<longleftrightarrow> risk_discriminant a \<le> risk_discriminant b"
definition less_risk_level :: "risk_level \<Rightarrow> risk_level \<Rightarrow> bool" where
  "less_risk_level a b \<longleftrightarrow> risk_discriminant a < risk_discriminant b"
instance
proof
  fix a b :: risk_level
  show "a \<le> b \<Longrightarrow> b \<le> a \<Longrightarrow> a = b"
    by (cases a; cases b) (auto simp: less_eq_risk_level_def)
qed (auto simp: less_eq_risk_level_def less_risk_level_def)
end

fun risk_description :: "risk_level \<Rightarrow> string" where
  "risk_description Low = ''Low risk''"
| "risk_description Medium = ''Medium risk''"
| "risk_description High = ''High risk''"
| "risk_description Critical = ''Critical risk''"

section \<open>Requests\<close>

datatype approval_decision = Approve | Deny_Approval string

record pending_approval =
  pa_id :: string
  pa_tool_name :: string
  pa_args :: json
  pa_requested_at :: int
  pa_requested_by :: string
  pa_risk_level :: risk_level
  pa_message :: string
  pa_session_id :: "string option"
  pa_response_tx :: "nat option"

definition new_approval :: "int \<Rightarrow> string \<Rightarrow> string \<Rightarrow> json \<Rightarrow> string \<Rightarrow> pending_approval" where
  "new_approval now id0 tool args by =
     \<lparr>pa_id = id0, pa_tool_name = tool, pa_args = args, pa_requested_at = now,
      pa_requested_by = by, pa_risk_level = Medium, pa_message = [], pa_session_id = None,
      pa_response_tx = None\<rparr>"

definition with_risk_level :: "risk_level \<Rightarrow> pending_approval \<Rightarrow> pending_approval" where
  "with_risk_level r pa = pa\<lparr>pa_risk_level := r\<rparr>"

definition with_message :: "string \<Rightarrow> pending_approval \<Rightarrow> pending_approval" where
  "with_message msg pa = pa\<lparr>pa_message := msg\<rparr>"

definition with_response_tx :: "nat \<Rightarrow> pending_approval \<Rightarrow> pending_approval" where
  "with_response_tx tx pa = pa\<lparr>pa_response_tx := Some tx\<rparr>"

definition with_session :: "string option \<Rightarrow> pending_approval \<Rightarrow> pending_approval" where
  "with_session sid pa =
     pa\<lparr>pa_session_id := (case sid of Some s \<Rightarrow> if s = [] then None else Some s | None \<Rightarrow> None)\<rparr>"

definition age :: "int \<Rightarrow> pending_approval \<Rightarrow> int" where
  "age now pa = max 0 (now - pa_requested_at pa)"

definition nanos_per_sec :: int where
  "nanos_per_sec = 1000000000"

record pending_approval_summary =
  ps_id :: string
  ps_tool_name :: string
  ps_args :: json
  ps_requested_at :: int
  ps_requested_by :: string
  ps_risk_level :: risk_level
  ps_message :: string
  ps_session_id :: "string option"
  ps_age_seconds :: int

text \<open>The wire summary. \<open>requested_at\<close> is nanoseconds after the Unix epoch; the code adds
  the age of the request to the epoch.\<close>

definition summary_of :: "int \<Rightarrow> pending_approval \<Rightarrow> pending_approval_summary" where
  "summary_of now pa =
     \<lparr>ps_id = pa_id pa, ps_tool_name = pa_tool_name pa, ps_args = pa_args pa,
      ps_requested_at = 0 + age now pa, ps_requested_by = pa_requested_by pa,
      ps_risk_level = pa_risk_level pa, ps_message = pa_message pa,
      ps_session_id = pa_session_id pa, ps_age_seconds = age now pa div nanos_per_sec\<rparr>"

record approval_event =
  ae_approval_id :: string
  ae_tool_name :: string
  ae_requested_by :: string
  ae_risk_level :: risk_level
  ae_message :: string
  ae_session_id :: "string option"

record approval_filter =
  af_min_risk_level :: "risk_level option"
  af_tool_name :: "string option"
  af_requested_by :: "string option"
  af_max_age :: "int option"

definition default_filter :: approval_filter where
  "default_filter =
     \<lparr>af_min_risk_level = None, af_tool_name = None, af_requested_by = None, af_max_age = None\<rparr>"

section \<open>The queue\<close>

record approval_queue =
  aq_pending :: "(string \<times> pending_approval) list"
  aq_events :: "approval_event list"
  aq_sent :: "(nat \<times> approval_decision) list"
  aq_default_timeout :: int

definition new_queue :: approval_queue where
  "new_queue = \<lparr>aq_pending = [], aq_events = [], aq_sent = [],
                aq_default_timeout = 300 * nanos_per_sec\<rparr>"

definition event_of :: "pending_approval \<Rightarrow> approval_event" where
  "event_of pa =
     \<lparr>ae_approval_id = pa_id pa, ae_tool_name = pa_tool_name pa,
      ae_requested_by = pa_requested_by pa, ae_risk_level = pa_risk_level pa,
      ae_message = pa_message pa, ae_session_id = pa_session_id pa\<rparr>"

definition submit :: "pending_approval \<Rightarrow> approval_queue \<Rightarrow> string \<times> approval_queue" where
  "submit pa q =
     (pa_id pa, q\<lparr>aq_pending := AList.update (pa_id pa) pa (aq_pending q),
                 aq_events := aq_events q @ [event_of pa]\<rparr>)"

definition resolve :: "string \<Rightarrow> approval_decision \<Rightarrow> approval_queue \<Rightarrow> bool \<times> approval_queue" where
  "resolve id0 d q =
     (let q' = q\<lparr>aq_pending := AList.delete id0 (aq_pending q)\<rparr>
      in case map_of (aq_pending q) id0 of
           Some pa \<Rightarrow>
             (case pa_response_tx pa of
                Some tx \<Rightarrow> (True, q'\<lparr>aq_sent := aq_sent q @ [(tx, d)]\<rparr>)
              | None \<Rightarrow> (False, q'))
         | None \<Rightarrow> (False, q'))"

definition get_approval :: "int \<Rightarrow> string \<Rightarrow> approval_queue \<Rightarrow> pending_approval_summary option" where
  "get_approval now id0 q = map_option (summary_of now) (map_of (aq_pending q) id0)"

definition filter_accepts :: "int \<Rightarrow> approval_filter \<Rightarrow> pending_approval \<Rightarrow> bool" where
  "filter_accepts now f pa =
     (if (case af_min_risk_level f of Some r \<Rightarrow> pa_risk_level pa < r | None \<Rightarrow> False) then False
      else if (case af_tool_name f of Some t \<Rightarrow> pa_tool_name pa \<noteq> t | None \<Rightarrow> False) then False
      else if (case af_requested_by f of Some u \<Rightarrow> pa_requested_by pa \<noteq> u | None \<Rightarrow> False) then False
      else if (case af_max_age f of Some a \<Rightarrow> a < age now pa | None \<Rightarrow> False) then False
      else True)"

definition list_pending ::
  "int \<Rightarrow> approval_filter \<Rightarrow> approval_queue \<Rightarrow> pending_approval_summary list" where
  "list_pending now f q =
     map (summary_of now) (filter (filter_accepts now f) (map snd (aq_pending q)))"

definition list_ids :: "approval_queue \<Rightarrow> string list" where
  "list_ids q = map fst (aq_pending q)"

text \<open>The loop shared by \<open>cancel_for\<close> and \<open>cleanup_stale\<close>: resolve each id with the
  denial and count the ones that had a waiter.\<close>

fun resolve_all ::
  "string list \<Rightarrow> approval_decision \<Rightarrow> nat \<Rightarrow> approval_queue \<Rightarrow> nat \<times> approval_queue" where
  "resolve_all [] d n q = (n, q)"
| "resolve_all (i # ids) d n q =
     (let (ok, q') = resolve i d q in resolve_all ids d (if ok then n + 1 else n) q')"

definition selected_ids :: "(pending_approval \<Rightarrow> bool) \<Rightarrow> approval_queue \<Rightarrow> string list" where
  "selected_ids P q = map pa_id (filter P (map snd (aq_pending q)))"

definition cancel_for :: "string \<Rightarrow> approval_queue \<Rightarrow> nat \<times> approval_queue" where
  "cancel_for by q =
     resolve_all (selected_ids (\<lambda>pa. pa_requested_by pa = by) q)
       (Deny_Approval ''Cancelled: session ended'') 0 q"

definition cleanup_stale :: "int \<Rightarrow> approval_queue \<Rightarrow> nat \<times> approval_queue" where
  "cleanup_stale now q =
     resolve_all (selected_ids (\<lambda>pa. aq_default_timeout q < age now pa) q)
       (Deny_Approval ''Approval timed out'') 0 q"

definition queue_len :: "approval_queue \<Rightarrow> nat" where
  "queue_len q = length (aq_pending q)"

definition queue_is_empty :: "approval_queue \<Rightarrow> bool" where
  "queue_is_empty q \<longleftrightarrow> aq_pending q = []"

section \<open>The handlers that answer a request\<close>

record gateway_state =
  gs_queue :: approval_queue
  gs_config :: permissions_config
  gs_permissions :: snapshot

datatype ws_response =
    Ws_Approved string "string list"
  | Ws_Denied string string
  | Ws_Found pending_approval_summary
  | Ws_Pending "pending_approval_summary list" nat
  | Ws_Not_Found string
  | Ws_Invalid_Request

text \<open>A handler gets the outcome of \<open>parse_params\<close>, \<open>None\<close> when the parameters do not
  parse. \<open>persisted\<close> is the outcome of the config file write.\<close>

definition handle_approvals_list :: "int \<Rightarrow> gateway_state \<Rightarrow> ws_response" where
  "handle_approvals_list now g =
     (let approvals = list_pending now default_filter (gs_queue g)
      in Ws_Pending approvals (length approvals))"

definition handle_approvals_get :: "int \<Rightarrow> string option \<Rightarrow> gateway_state \<Rightarrow> ws_response" where
  "handle_approvals_get now p g =
     (case p of None \<Rightarrow> Ws_Invalid_Request
      | Some id0 \<Rightarrow> (case get_approval now id0 (gs_queue g) of
          Some a \<Rightarrow> Ws_Found a | None \<Rightarrow> Ws_Not_Found id0))"

definition handle_approvals_approve ::
  "bool \<Rightarrow> int \<Rightarrow> (string \<times> bool) option \<Rightarrow> gateway_state \<Rightarrow> ws_response \<times> gateway_state" where
  "handle_approvals_approve persisted now p g =
     (case p of None \<Rightarrow> (Ws_Invalid_Request, g)
      | Some (id0, remember) \<Rightarrow>
          (let rules = (if remember
                        then map_option (\<lambda>a. remember_rules (ps_tool_name a) (ps_args a))
                               (get_approval now id0 (gs_queue g))
                        else None);
               (ok, q') = resolve id0 Approve (gs_queue g);
               g' = g\<lparr>gs_queue := q'\<rparr>
           in if \<not> ok then (Ws_Not_Found id0, g')
              else case rules of
                None \<Rightarrow> (Ws_Approved id0 [], g')
              | Some rs \<Rightarrow>
                  (let (res, config', s') =
                         remember_allow_rules persisted rs (gs_config g) (gs_permissions g)
                   in (Ws_Approved id0 (case res of Inr newly \<Rightarrow> newly | Inl _ \<Rightarrow> []),
                       g'\<lparr>gs_config := config', gs_permissions := s'\<rparr>))))"

definition handle_approvals_deny ::
  "(string \<times> string option) option \<Rightarrow> gateway_state \<Rightarrow> ws_response \<times> gateway_state" where
  "handle_approvals_deny p g =
     (case p of None \<Rightarrow> (Ws_Invalid_Request, g)
      | Some (id0, why) \<Rightarrow>
          (let reason = (case why of Some r \<Rightarrow> r | None \<Rightarrow> ''Denied by operator'');
               (ok, q') = resolve id0 (Deny_Approval reason) (gs_queue g);
               g' = g\<lparr>gs_queue := q'\<rparr>
           in if ok then (Ws_Denied id0 reason, g') else (Ws_Not_Found id0, g')))"

section \<open>Laws of the operations\<close>

text \<open>What resolving an id, or a list of ids, sends.\<close>

definition answer :: "approval_queue \<Rightarrow> approval_decision \<Rightarrow> string \<Rightarrow> (nat \<times> approval_decision) list" where
  "answer q d i =
     (case map_of (aq_pending q) i of
        Some pa \<Rightarrow> (case pa_response_tx pa of Some tx \<Rightarrow> [(tx, d)] | None \<Rightarrow> [])
      | None \<Rightarrow> [])"

definition answers :: "approval_queue \<Rightarrow> approval_decision \<Rightarrow> string list \<Rightarrow> (nat \<times> approval_decision) list" where
  "answers q d ids = concat (map (answer q d) ids)"

lemma resolve_eq:
  "resolve i d q =
     (answer q d i \<noteq> [],
      q\<lparr>aq_pending := AList.delete i (aq_pending q), aq_sent := aq_sent q @ answer q d i\<rparr>)"
  by (simp add: resolve_def answer_def Let_def split: option.split)

lemma answer_after: "j \<noteq> i \<Longrightarrow> answer (snd (resolve i d q)) d' j = answer q d' j"
  by (simp add: answer_def resolve_eq)

lemma answers_after:
  "i \<notin> set ids \<Longrightarrow> answers (snd (resolve i d q)) d' ids = answers q d' ids"
  by (induction ids) (auto simp: answers_def answer_after)

lemma answer_length: "length (answer q d i) = (if answer q d i \<noteq> [] then 1 else 0)"
  by (simp add: answer_def split: option.split)

lemma delete_then_filter:
  "filter (\<lambda>(k, _). k \<notin> set ids) (AList.delete i m) = filter (\<lambda>(k, _). k \<notin> set (i # ids)) m"
  by (induction m) auto

lemma resolve_all_eq:
  assumes "distinct ids"
  shows "resolve_all ids d n q =
     (n + length (answers q d ids),
      q\<lparr>aq_pending := filter (\<lambda>(k, _). k \<notin> set ids) (aq_pending q),
        aq_sent := aq_sent q @ answers q d ids\<rparr>)"
  using assms
proof (induction ids arbitrary: n q)
  case Nil
  then show ?case by (simp add: answers_def)
next
  case (Cons i ids)
  define q' where "q' = snd (resolve i d q)"
  have step: "resolve_all (i # ids) d n q = resolve_all ids d (n + length (answer q d i)) q'"
    by (simp add: q'_def resolve_eq answer_length)
  have "answers q' d ids = answers q d ids" using Cons.prems by (simp add: q'_def answers_after)
  moreover have "aq_pending q' = AList.delete i (aq_pending q)"
    "aq_sent q' = aq_sent q @ answer q d i" by (simp_all add: q'_def resolve_eq)
  moreover have "q'\<lparr>aq_pending := x, aq_sent := y\<rparr> = q\<lparr>aq_pending := x, aq_sent := y\<rparr>" for x y
    by (simp add: q'_def resolve_eq)
  moreover have "resolve_all ids d (n + length (answer q d i)) q' =
      (n + length (answer q d i) + length (answers q' d ids),
       q'\<lparr>aq_pending := filter (\<lambda>(k, _). k \<notin> set ids) (aq_pending q'),
          aq_sent := aq_sent q' @ answers q' d ids\<rparr>)"
    using Cons by simp
  ultimately show ?case
    by (simp only: step delete_then_filter) (simp add: answers_def)
qed

text \<open>The queue's invariant: every key is the id of its request and no two requests wait on one
  channel, none of them answered before.\<close>

definition aq_ok :: "approval_queue \<Rightarrow> bool" where
  "aq_ok q \<longleftrightarrow> hm_ok (aq_pending q) \<and> (\<forall>(k, pa) \<in> set (aq_pending q). pa_id pa = k)"

definition waiting_tx :: "(string \<times> pending_approval) list \<Rightarrow> nat list" where
  "waiting_tx m = concat (map (\<lambda>(_, pa). case pa_response_tx pa of Some tx \<Rightarrow> [tx] | None \<Rightarrow> []) m)"

abbreviation waiting :: "approval_queue \<Rightarrow> nat list" where
  "waiting q \<equiv> waiting_tx (aq_pending q)"

definition channels_ok :: "approval_queue \<Rightarrow> bool" where
  "channels_ok q \<longleftrightarrow> distinct (waiting q) \<and> distinct (map fst (aq_sent q)) \<and>
     set (waiting q) \<inter> fst ` set (aq_sent q) = {}"

lemma aq_ok_new [inv_intros]: "aq_ok new_queue"
  by (simp add: aq_ok_def new_queue_def)

lemma aq_ok_submit [inv_intros]:
  assumes "aq_ok q" shows "aq_ok (snd (submit pa q))"
proof -
  have "set (AList.update k v m) \<subseteq> insert (k, v) (set m)" for k v and m :: "('a \<times> 'b) list"
    by (induction m) auto
  then show ?thesis using assms unfolding aq_ok_def submit_def by fastforce
qed

lemma aq_ok_resolve [inv_intros]: "aq_ok q \<Longrightarrow> aq_ok (snd (resolve i d q))"
  by (auto simp: aq_ok_def resolve_eq AList.delete_eq distinct_map_filter)

lemma aq_ok_resolve_all [inv_intros]: "aq_ok q \<Longrightarrow> aq_ok (snd (resolve_all ids d n q))"
  by (induction ids d n q rule: resolve_all.induct)
     (simp_all add: case_prod_beta Let_def aq_ok_resolve)

lemma selected_ids_eq:
  assumes "aq_ok q"
  shows "selected_ids P q = map fst (filter (\<lambda>(_, pa). P pa) (aq_pending q))"
proof -
  have "map pa_id (filter P (map snd m)) = map fst (filter (\<lambda>(_, pa). P pa) m)"
    if "\<forall>(k, pa) \<in> set m. pa_id pa = k" for m
    using that by (induction m) auto
  then show ?thesis using assms by (simp add: selected_ids_def aq_ok_def)
qed

lemma distinct_selected: "aq_ok q \<Longrightarrow> distinct (selected_ids P q)"
  by (simp add: selected_ids_eq aq_ok_def distinct_map_filter)

lemma not_selected_eq:
  assumes "aq_ok q"
  shows "filter (\<lambda>(k, _). k \<notin> set (selected_ids P q)) (aq_pending q)
       = filter (\<lambda>(_, pa). \<not> P pa) (aq_pending q)"
proof (rule filter_cong [OF refl], clarify)
  fix k pa assume mem: "(k, pa) \<in> set (aq_pending q)"
  have "k \<in> set (selected_ids P q) \<longleftrightarrow> (\<exists>pa'. (k, pa') \<in> set (aq_pending q) \<and> P pa')"
    unfolding selected_ids_eq [OF assms] by force
  also have "\<dots> \<longleftrightarrow> P pa"
    using assms mem unfolding aq_ok_def by (blast dest: eq_key_imp_eq_value)
  finally show "(k \<notin> set (selected_ids P q)) = (\<not> P pa)" by simp
qed

text \<open>Both bulk operations: the selected requests leave the queue, each of those with a waiter is
  answered with the denial, and the others stay.\<close>

lemma resolve_selected:
  assumes "aq_ok q"
  shows "resolve_all (selected_ids P q) d 0 q =
    (length (answers q d (selected_ids P q)),
     q\<lparr>aq_pending := filter (\<lambda>(_, pa). \<not> P pa) (aq_pending q),
       aq_sent := aq_sent q @ answers q d (selected_ids P q)\<rparr>)"
  by (simp add: resolve_all_eq distinct_selected not_selected_eq assms)

lemma answers_selected:
  assumes "aq_ok q"
  shows "set (answers q d (selected_ids P q)) =
    {(tx, d) | k pa tx. (k, pa) \<in> set (aq_pending q) \<and> P pa \<and> pa_response_tx pa = Some tx}"
    (is "?L = ?R")
proof -
  have "answer q d k = (case pa_response_tx pa of Some tx \<Rightarrow> [(tx, d)] | None \<Rightarrow> [])"
    if "(k, pa) \<in> set (aq_pending q)" for k pa
    using that assms by (simp add: answer_def aq_ok_def)
  then have "?L = (\<Union>(k, pa) \<in> {(k, pa) \<in> set (aq_pending q). P pa}.
      set (case pa_response_tx pa of Some tx \<Rightarrow> [(tx, d)] | None \<Rightarrow> []))"
    by (auto simp: answers_def selected_ids_eq assms)
  also have "\<dots> = ?R" by (fastforce split: option.splits)
  finally show ?thesis .
qed

section \<open>Executions\<close>

text \<open>The states concurrent tasks can reach. A waiter makes its channel with
  \<open>oneshot::channel\<close>, so a submitted sender is new.\<close>

definition fresh_tx :: "approval_queue \<Rightarrow> pending_approval \<Rightarrow> bool" where
  "fresh_tx q pa \<longleftrightarrow> (case pa_response_tx pa of None \<Rightarrow> True
     | Some tx \<Rightarrow> tx \<notin> set (waiting q) \<and> tx \<notin> fst ` set (aq_sent q))"

inductive aq_reachable :: "approval_queue \<Rightarrow> bool" where
  reach_new: "aq_reachable (new_queue\<lparr>aq_default_timeout := t\<rparr>)"
| reach_submit: "aq_reachable q \<Longrightarrow> fresh_tx q pa \<Longrightarrow> aq_reachable (snd (submit pa q))"
| reach_resolve: "aq_reachable q \<Longrightarrow> aq_reachable (snd (resolve i d q))"

lemma waiting_tx_Cons [simp]:
  "waiting_tx ((k, pa) # m) = (case pa_response_tx pa of Some tx \<Rightarrow> [tx] | None \<Rightarrow> []) @ waiting_tx m"
  by (simp add: waiting_tx_def)

lemma waiting_tx_Nil [simp]: "waiting_tx [] = []"
  by (simp add: waiting_tx_def)

lemma waiting_update_subset:
  "set (waiting_tx (AList.update k pa m)) \<subseteq> set (waiting_tx m) \<union> set_option (pa_response_tx pa)"
  by (induction m) (auto split: option.splits)

lemma waiting_update_distinct:
  assumes "distinct (waiting_tx m)" and "set_option (pa_response_tx pa) \<inter> set (waiting_tx m) = {}"
  shows "distinct (waiting_tx (AList.update k pa m))"
  using assms
proof (induction m)
  case (Cons a m)
  obtain k' pa' where a: "a = (k', pa')" by force
  have "set (waiting_tx (AList.update k pa m)) \<subseteq> set (waiting_tx m) \<union> set_option (pa_response_tx pa)"
    by (rule waiting_update_subset)
  with Cons show ?case by (cases "k' = k") (auto simp: a split: option.splits)
qed (simp split: option.split)

lemma waiting_delete_subset: "set (waiting_tx (AList.delete k m)) \<subseteq> set (waiting_tx m)"
  by (induction m) (auto split: option.splits)

lemma waiting_delete_distinct: "distinct (waiting_tx m) \<Longrightarrow> distinct (waiting_tx (AList.delete k m))"
proof (induction m)
  case (Cons a m)
  then show ?case using waiting_delete_subset [of k m] by (cases a) (auto split: option.splits)
qed simp

lemma waiting_in:
  "map_of m i = Some pa \<Longrightarrow> pa_response_tx pa = Some tx \<Longrightarrow> tx \<in> set (waiting_tx m)"
  by (induction m) (auto split: if_splits)

lemma waiting_delete_removes:
  "distinct (waiting_tx m) \<Longrightarrow> hm_ok m \<Longrightarrow> map_of m i = Some pa \<Longrightarrow> pa_response_tx pa = Some tx \<Longrightarrow>
   tx \<notin> set (waiting_tx (AList.delete i m))"
proof (induction m)
  case (Cons a m)
  obtain k' pa' where a: "a = (k', pa')" by force
  show ?case
  proof (cases "k' = i")
    case True
    with Cons.prems a have "AList.delete i m = m" by (auto simp: delete_idem)
    with Cons.prems a True show ?thesis by simp
  next
    case False
    then have "tx \<in> set (waiting_tx m)" using Cons.prems a waiting_in by fastforce
    with Cons a False show ?thesis by (auto split: option.splits)
  qed
qed simp

lemma channels_ok_submit [inv_intros]:
  assumes "channels_ok q" and "fresh_tx q pa"
  shows "channels_ok (snd (submit pa q))"
proof -
  have "set_option (pa_response_tx pa) \<inter> (set (waiting q) \<union> fst ` set (aq_sent q)) = {}"
    using assms(2) by (cases "pa_response_tx pa") (simp_all add: fresh_tx_def)
  then show ?thesis
    using assms(1) waiting_update_subset [of "pa_id pa" pa "aq_pending q"]
      waiting_update_distinct [of "aq_pending q" pa "pa_id pa"]
    by (auto simp: channels_ok_def submit_def)
qed

lemma channels_ok_resolve [inv_intros]:
  assumes "channels_ok q" and "aq_ok q"
  shows "channels_ok (snd (resolve i d q))"
proof -
  let ?rest = "waiting_tx (AList.delete i (aq_pending q))"
  have rest: "distinct ?rest" "set ?rest \<subseteq> set (waiting q)"
    using assms(1) waiting_delete_distinct waiting_delete_subset by (auto simp: channels_ok_def)
  show ?thesis
  proof (cases "answer q d i")
    case Nil
    then show ?thesis using assms(1) rest by (auto simp: channels_ok_def resolve_eq)
  next
    case (Cons a as)
    then obtain pa tx where pa: "map_of (aq_pending q) i = Some pa" "pa_response_tx pa = Some tx"
      and ans: "answer q d i = [(tx, d)]"
      by (auto simp: answer_def split: option.splits)
    have tx: "tx \<in> set (waiting q)" "tx \<notin> set ?rest"
      using pa assms waiting_in waiting_delete_removes by (auto simp: channels_ok_def aq_ok_def)
    show ?thesis using assms(1) rest tx by (auto simp: channels_ok_def resolve_eq ans)
  qed
qed

lemma reachable_ok: "aq_reachable q \<Longrightarrow> aq_ok q \<and> channels_ok q"
proof (induction rule: aq_reachable.induct)
  case (reach_new t)
  show ?case by (simp add: aq_ok_def channels_ok_def new_queue_def)
qed (simp_all add: aq_ok_submit aq_ok_resolve channels_ok_submit channels_ok_resolve)

lemma reachable_resolve_all: "aq_reachable q \<Longrightarrow> aq_reachable (snd (resolve_all ids d n q))"
  by (induction ids d n q rule: resolve_all.induct)
     (simp_all add: case_prod_beta Let_def reach_resolve)

section \<open>Properties\<close>

text \<open>C21. Every request is answered at most once: in every interleaving of submissions, approvals,
  denials, cancellations and timeouts no one-shot channel is sent two decisions, and a channel still
  waited on has been sent none.\<close>

theorem approval_answered_once:
  assumes "aq_reachable q"
  shows "distinct (map fst (aq_sent q)) \<and> distinct (waiting q) \<and>
    set (waiting q) \<inter> fst ` set (aq_sent q) = {} \<and>
    aq_reachable (snd (cancel_for by q)) \<and> aq_reachable (snd (cleanup_stale now q))"
  using reachable_ok [OF assms] reachable_resolve_all [OF assms]
  by (simp add: channels_ok_def cancel_for_def cleanup_stale_def)

definition sample_request :: "string \<Rightarrow> int \<Rightarrow> nat \<Rightarrow> pending_approval" where
  "sample_request i at tx = with_response_tx tx (new_approval at i ''shell'' (shell_call ''make'') ''u1'')"

definition sample_queue :: approval_queue where
  "sample_queue = snd (submit (sample_request ''a2'' 6 2)
     (snd (submit (sample_request ''a1'' 0 1) (new_queue\<lparr>aq_default_timeout := 5\<rparr>))))"

lemma sample_queue_reachable: "aq_reachable sample_queue"
  unfolding sample_queue_def by (intro reach_submit reach_new) code_simp+

theorem approval_answered_once_witness:
  "distinct (map fst (aq_sent (snd (resolve ''a1'' Approve sample_queue)))) \<and>
   distinct (waiting (snd (resolve ''a1'' Approve sample_queue))) \<and>
   set (waiting (snd (resolve ''a1'' Approve sample_queue))) \<inter>
     fst ` set (aq_sent (snd (resolve ''a1'' Approve sample_queue))) = {} \<and>
   aq_reachable (snd (cancel_for ''u1'' (snd (resolve ''a1'' Approve sample_queue)))) \<and>
   aq_reachable (snd (cleanup_stale 5 (snd (resolve ''a1'' Approve sample_queue))))"
  by (rule approval_answered_once [OF reach_resolve [OF sample_queue_reachable]])

text \<open>The sweep denies exactly the stale requests: those older than the timeout leave the queue,
  each waiter among them is sent the timeout denial, every other request stays as it was, and the
  count returned is the number of denials sent.\<close>

theorem cleanup_denies_exactly_the_stale:
  assumes "aq_reachable q" and "cleanup_stale now q = (n, q')"
  shows "aq_pending q' = filter (\<lambda>(_, pa). age now pa \<le> aq_default_timeout q) (aq_pending q) \<and>
    (\<exists>new. aq_sent q' = aq_sent q @ new \<and> length new = n \<and>
       set new = {(tx, Deny_Approval ''Approval timed out'') | k pa tx. (k, pa) \<in> set (aq_pending q) \<and>
                   aq_default_timeout q < age now pa \<and> pa_response_tx pa = Some tx})"
proof -
  have ok: "aq_ok q" using reachable_ok assms(1) by blast
  show ?thesis
    using assms(2) answers_selected [OF ok, of "Deny_Approval ''Approval timed out''"
        "\<lambda>pa. aq_default_timeout q < age now pa"]
    by (auto simp: cleanup_stale_def resolve_selected [OF ok] not_less)
qed

theorem cleanup_denies_exactly_the_stale_witness:
  "aq_pending (snd (cleanup_stale 7 sample_queue))
     = filter (\<lambda>(_, pa). age 7 pa \<le> aq_default_timeout sample_queue) (aq_pending sample_queue) \<and>
   (\<exists>new. aq_sent (snd (cleanup_stale 7 sample_queue)) = aq_sent sample_queue @ new \<and>
      length new = 1 \<and>
      set new = {(tx, Deny_Approval ''Approval timed out'') | k pa tx. (k, pa) \<in> set (aq_pending sample_queue) \<and>
        aq_default_timeout sample_queue < age 7 pa \<and> pa_response_tx pa = Some tx})"
proof (rule cleanup_denies_exactly_the_stale [OF sample_queue_reachable])
  have "fst (cleanup_stale 7 sample_queue) = 1" by code_simp
  then show "cleanup_stale 7 sample_queue
      = (1, snd (cleanup_stale 7 sample_queue))"
    by (metis prod.collapse)
qed


definition sample_gateway :: gateway_state where
  "sample_gateway = \<lparr>gs_queue = sample_queue, gs_config = config_projection sample_snapshot,
                     gs_permissions = sample_snapshot\<rparr>"


end
