(* ===== verification/Tool_Types.thy ===== *)
theory Tool_Types
  imports Approval_Queue
begin

text \<open>
  The shared types of the tool layer: results and chunks (\<open>tools/types.rs\<close>), the collection
  of a chunk stream (\<open>tools/util.rs\<close>), tool capabilities (\<open>tools/sdk.rs\<close>), the
  execution context with its path and command fence (\<open>tools/types.rs\<close>), and the test whether
  a context has a human to ask (\<open>tools/ask_user.rs\<close>).

  What the fence reads from the machine is the record \<open>host\<close>: \<open>Path::canonicalize\<close>
  (\<open>None\<close> for a path that does not exist), the home directory, and the directories of
  \<open>crate::dirs\<close>.
\<close>

section \<open>Results and streams\<close>

datatype audit_event_type =
    Audit_Access_Check | Audit_Pairing_Request | Audit_Pairing_Approve | Audit_Pairing_Reject | Audit_Pairing_Revoke
  | Audit_Command_Gate | Audit_Config_Change | Audit_Tool_Invocation | Audit_Tool_Deny | Audit_Security
  | Audit_Acp_Spawn | Audit_Acp_Terminate | Audit_Acp_Message | Audit_Content_Filter | Audit_Trusted_Proxy_Login
  | Audit_Login | Audit_Logout | Audit_Token_Validation | Audit_Network_Policy

record tool_result =
  tr_success :: bool
  tr_output :: string
  tr_error :: "string option"
  tr_data :: "json option"
  tr_execution_time :: int

definition result_success :: "string \<Rightarrow> tool_result" where
  "result_success out =
     \<lparr>tr_success = True, tr_output = out, tr_error = None, tr_data = None, tr_execution_time = 0\<rparr>"

definition result_error :: "string \<Rightarrow> tool_result" where
  "result_error e =
     \<lparr>tr_success = False, tr_output = [], tr_error = Some e, tr_data = None, tr_execution_time = 0\<rparr>"

datatype chunk = Output_Chunk string | Error_Chunk string | Data_Chunk json | Done_Chunk

text \<open>\<open>consume_stream\<close>: the loop over the chunks with its three accumulators. The second
  component of the result is the sequence of chunks handed to \<open>on_chunk\<close>.\<close>

fun collect_chunks ::
  "chunk list \<Rightarrow> string \<Rightarrow> string \<Rightarrow> json option \<Rightarrow> chunk list
    \<Rightarrow> (string \<times> string \<times> json option) \<times> chunk list" where
  "collect_chunks [] out err data emitted = ((out, err, data), emitted)"
| "collect_chunks (Output_Chunk t # cs) out err data emitted =
     collect_chunks cs (out @ t) err data (emitted @ [Output_Chunk t])"
| "collect_chunks (Error_Chunk t # cs) out err data emitted =
     collect_chunks cs out (err @ t) data (emitted @ [Error_Chunk t])"
| "collect_chunks (Data_Chunk v # cs) out err data emitted =
     collect_chunks cs out err (Some v) (emitted @ [Data_Chunk v])"
| "collect_chunks (Done_Chunk # cs) out err data emitted =
     collect_chunks cs out err data (emitted @ [Done_Chunk])"

definition newline :: string where
  "newline = [CHR 0x0A]"

definition consume_stream :: "chunk list \<Rightarrow> tool_result \<times> chunk list" where
  "consume_stream stream =
     (let ((out, err, data), emitted) = collect_chunks stream [] [] None [];
          success = (err = []);
          final = (if err = [] then out
                   else if out = [] then err
                   else out @ newline @ ''Errors:'' @ newline @ err)
      in (\<lparr>tr_success = success, tr_output = final, tr_error = (if success then None else Some err),
           tr_data = data, tr_execution_time = 0\<rparr>, emitted))"

section \<open>Capabilities and trust\<close>

datatype skill_trust = Community | Trusted

instantiation skill_trust :: linorder
begin
definition less_eq_skill_trust :: "skill_trust \<Rightarrow> skill_trust \<Rightarrow> bool" where
  "less_eq_skill_trust a b \<longleftrightarrow> a = Community \<or> b = Trusted"
definition less_skill_trust :: "skill_trust \<Rightarrow> skill_trust \<Rightarrow> bool" where
  "less_skill_trust a b \<longleftrightarrow> a = Community \<and> b = Trusted"
instance
  by standard (auto simp: less_eq_skill_trust_def less_skill_trust_def intro: skill_trust.exhaust)
end

record tool_capabilities =
  tc_requires_approval :: bool
  tc_sandboxed :: bool
  tc_streaming :: bool
  tc_risk_level :: risk_level
  tc_categories :: "string list"
  tc_idempotent :: bool
  tc_compensation :: "string option"
  tc_read_only :: bool

definition default_capabilities :: tool_capabilities where
  "default_capabilities =
     \<lparr>tc_requires_approval = False, tc_sandboxed = False, tc_streaming = False, tc_risk_level = Low,
      tc_categories = [], tc_idempotent = False, tc_compensation = None, tc_read_only = False\<rparr>"

definition mark_read_only :: "tool_capabilities \<Rightarrow> tool_capabilities" where
  "mark_read_only c = c\<lparr>tc_read_only := True\<rparr>"

section \<open>The execution context\<close>

text \<open>The parts of \<open>ToolContext\<close> the gate and the fence read. \<open>cx_delegation\<close> and
  \<open>cx_ask_queue\<close> say whether the optional handles are present.\<close>

record tool_context =
  cx_user_id :: string
  cx_conversation_id :: string
  cx_skill_trust :: skill_trust
  cx_delegation :: bool
  cx_ask_queue :: bool
  cx_timeout :: int
  cx_allowed_paths :: "string list"
  cx_allowed_commands :: "string list"
  cx_workspace_root :: "string option"
  cx_workspace_only :: bool
  cx_plugin_allowlist :: "string list option"

record host =
  h_canonicalize :: "string \<Rightarrow> string option"
  h_home :: "string option"
  h_skills_dir :: string
  h_workspace_data_dir :: string
  h_installed :: bool

definition workspace_root :: "host \<Rightarrow> tool_context \<Rightarrow> string" where
  "workspace_root h ctx =
     (case cx_workspace_root ctx of Some r \<Rightarrow> r | None \<Rightarrow> h_workspace_data_dir h)"

text \<open>\<open>str::trim_start_matches('/')\<close>.\<close>

definition trim_slashes :: "string \<Rightarrow> string" where
  "trim_slashes s = dropWhile (\<lambda>c. c = CHR 0x2F) s"

definition resolve_path :: "host \<Rightarrow> tool_context \<Rightarrow> string \<Rightarrow> string" where
  "resolve_path h ctx path =
     (let expanded =
            (if starts_with path ''~/'' \<or> path = ''~''
             then case h_home h of
                 Some home \<Rightarrow> path_join home (trim_slashes (drop 1 path))
               | None \<Rightarrow> path
             else path)
      in if has_root expanded then expanded else path_join (workspace_root h ctx) expanded)"

definition path_is_within :: "host \<Rightarrow> string \<Rightarrow> string \<Rightarrow> bool" where
  "path_is_within h path dir =
     (case (h_canonicalize h path, h_canonicalize h dir) of
        (Some p, Some d) \<Rightarrow> path_starts_with p d
      | _ \<Rightarrow> path_starts_with path dir)"

definition in_allowlist :: "host \<Rightarrow> string list \<Rightarrow> string \<Rightarrow> bool" where
  "in_allowlist h allowed path =
     (let canon = h_canonicalize h path
      in list_ex (\<lambda>a.
           (case (h_canonicalize h a, canon) of
              (Some ac, Some pc) \<Rightarrow> path_starts_with pc ac
            | _ \<Rightarrow> False)
           \<or> path_starts_with path a) allowed)"

definition is_path_allowed :: "host \<Rightarrow> tool_context \<Rightarrow> string \<Rightarrow> bool" where
  "is_path_allowed h ctx path =
     (if path_is_within h path (h_skills_dir h) then True
      else if cx_allowed_paths ctx \<noteq> [] then in_allowlist h (cx_allowed_paths ctx) path
      else if cx_workspace_only ctx then
        (let resolved = resolve_path h ctx path
         in case (h_canonicalize h resolved, h_canonicalize h (workspace_root h ctx)) of
              (Some rc, Some wc) \<Rightarrow> path_starts_with rc wc
            | _ \<Rightarrow> path_starts_with resolved (workspace_root h ctx))
      else True)"

definition is_command_allowed :: "tool_context \<Rightarrow> string \<Rightarrow> bool" where
  "is_command_allowed ctx command =
     (if cx_allowed_commands ctx = [] then True
      else let cmd = (case split_whitespace command of c # _ \<Rightarrow> c | [] \<Rightarrow> command)
           in list_ex (\<lambda>a. a = cmd) (cx_allowed_commands ctx))"

definition background_context_reason :: "tool_context \<Rightarrow> string option" where
  "background_context_reason ctx =
     (if cx_delegation ctx then Some ''delegated sub-agent context has no interactive human''
      else if cx_user_id ctx = ''system'' \<and>
        (let cid = cx_conversation_id ctx
         in starts_with cid ''cron:'' \<or> starts_with cid ''heartbeat:''
            \<or> starts_with cid ''standing_order:'' \<or> starts_with cid ''goal_'')
      then Some ''background system context has no interactive human''
      else None)"

definition can_ask_a_human :: "tool_context \<Rightarrow> bool" where
  "can_ask_a_human ctx \<longleftrightarrow> background_context_reason ctx = None \<and> cx_ask_queue ctx"

section \<open>Laws\<close>

text \<open>What a stream says, declaratively: its output text, its error text, its data values.\<close>

definition stream_out :: "chunk list \<Rightarrow> string" where
  "stream_out cs = concat (map (\<lambda>c. case c of Output_Chunk t \<Rightarrow> t | _ \<Rightarrow> []) cs)"

definition stream_err :: "chunk list \<Rightarrow> string" where
  "stream_err cs = concat (map (\<lambda>c. case c of Error_Chunk t \<Rightarrow> t | _ \<Rightarrow> []) cs)"

definition stream_data :: "chunk list \<Rightarrow> json list" where
  "stream_data cs = concat (map (\<lambda>c. case c of Data_Chunk v \<Rightarrow> [v] | _ \<Rightarrow> []) cs)"

lemma collect_chunks_eq:
  "collect_chunks cs out err data emitted =
     ((out @ stream_out cs, err @ stream_err cs,
       if stream_data cs = [] then data else Some (last (stream_data cs))),
      emitted @ cs)"
  unfolding stream_out_def stream_err_def stream_data_def
  by (induction cs out err data emitted rule: collect_chunks.induct) auto

text \<open>Components of a joined path, used for every lexical containment below.\<close>

lemma split_char_sep:
  "split_char c (a @ c # b) = split_char c a @ split_char c b"
  by (induction a) (auto split: list.split)

lemma has_root_Cons: "has_root s \<longleftrightarrow> (\<exists>r. s = CHR 0x2F # r)"
  by (cases s) (auto simp: has_root_def starts_with_def)

lemma path_components_root:
  "path_components (CHR 0x2F # r) = ''/'' # filter (\<lambda>c. \<not> skip_comp c) (split_char (CHR 0x2F) r)"
  by (simp add: path_components_def len_before_body_def has_root_def starts_with_def)

lemma path_components_join:
  assumes "has_root base" and "\<not> has_root p"
  shows "path_components (path_join base p) =
    path_components base @ filter (\<lambda>c. \<not> skip_comp c) (split_char (CHR 0x2F) p)"
proof -
  obtain r where base: "base = CHR 0x2F # r" using assms(1) by (auto simp: has_root_Cons)
  show ?thesis
  proof (cases "r = [] \<or> last r \<noteq> CHR 0x2F")
    case True
    then show ?thesis
      using assms(2) by (auto simp: base path_join_def path_components_root split_char_sep skip_comp_def)
  next
    case False
    then obtain r' where "r = r' @ [CHR 0x2F]" by (metis append_butlast_last_id)
    then show ?thesis
      using assms(2) split_char_sep [of "CHR 0x2F" r' "[]"]
      by (simp add: base path_join_def path_components_root split_char_sep skip_comp_def)
  qed
qed

lemma path_starts_with_join:
  "has_root base \<Longrightarrow> \<not> has_root p \<Longrightarrow> path_starts_with (path_join base p) base"
  by (simp add: path_starts_with_def path_components_join)

lemma path_starts_with_refl: "path_starts_with p p"
  by (simp add: path_starts_with_def)

lemma path_starts_with_trans:
  assumes "path_starts_with a b" and "path_starts_with b c"
  shows "path_starts_with a c"
proof -
  obtain x y where "path_components a = path_components b @ x" "path_components b = path_components c @ y"
    using assms unfolding path_starts_with_def by (metis append_take_drop_id)
  then show ?thesis by (simp add: path_starts_with_def)
qed

lemma resolve_path_absolute: "has_root p \<Longrightarrow> resolve_path h ctx p = p"
  by (auto simp: resolve_path_def has_root_Cons starts_with_def)

section \<open>Properties\<close>

text \<open>A stream is collected without loss: the collected result succeeds exactly when no error
  text was emitted, its output is the concatenated output text followed by the error text, its data
  the last data chunk, and every chunk is forwarded in order, once.\<close>

theorem stream_collected_without_loss:
  assumes "consume_stream cs = (r, emitted)"
  shows "emitted = cs \<and> (tr_success r \<longleftrightarrow> stream_err cs = []) \<and>
    tr_error r = (if stream_err cs = [] then None else Some (stream_err cs)) \<and>
    tr_data r = (if stream_data cs = [] then None else Some (last (stream_data cs))) \<and>
    (\<exists>sep. tr_output r = stream_out cs @ sep @ stream_err cs \<and>
      (sep \<noteq> [] \<longleftrightarrow> stream_out cs \<noteq> [] \<and> stream_err cs \<noteq> []))"
proof -
  have "\<exists>sep. tr_output r = stream_out cs @ sep @ stream_err cs \<and>
      (sep \<noteq> [] \<longleftrightarrow> stream_out cs \<noteq> [] \<and> stream_err cs \<noteq> [])"
    using assms
    by (cases "stream_out cs = []"; cases "stream_err cs = []")
       (auto simp: consume_stream_def collect_chunks_eq Let_def newline_def
         intro: exI [where x = "newline @ ''Errors:'' @ newline"])
  then show ?thesis
    using assms by (auto simp: consume_stream_def collect_chunks_eq Let_def)
qed

theorem stream_collected_without_loss_witness:
  "tr_success (fst (consume_stream [Output_Chunk ''a'', Error_Chunk ''e'', Done_Chunk])) \<longleftrightarrow> False"
proof -
  let ?cs = "[Output_Chunk ''a'', Error_Chunk ''e'', Done_Chunk]"
  have "stream_err ?cs = ''e''" by code_simp
  then show ?thesis
    using stream_collected_without_loss [of ?cs "fst (consume_stream ?cs)" "snd (consume_stream ?cs)"]
    by simp
qed

text \<open>The workspace fence holds on paths that exist: with no allowlist and a workspace-only
  context, a path that resolves on disk passes only when its canonical form, symbolic links and parent
  steps resolved, lies under the canonical workspace root or under the skills directory.\<close>

theorem fence_holds_on_existing_paths:
  assumes "is_path_allowed h ctx path"
    and "cx_allowed_paths ctx = []" and "cx_workspace_only ctx"
    and "h_canonicalize h (resolve_path h ctx path) = Some rc"
    and "h_canonicalize h (workspace_root h ctx) = Some wc"
  shows "path_starts_with rc wc \<or> path_is_within h path (h_skills_dir h)"
  using assms by (auto simp: is_path_allowed_def Let_def split: if_splits)

definition sample_host :: host where
  "sample_host = \<lparr>h_canonicalize = (\<lambda>p. if p = ''/w/a'' \<or> p = ''/w'' then Some p else None),
     h_home = Some ''/home/u'', h_skills_dir = ''/data/skills'', h_workspace_data_dir = ''/data'',
     h_installed = True\<rparr>"

definition sample_ctx :: tool_context where
  "sample_ctx = \<lparr>cx_user_id = ''u1'', cx_conversation_id = ''c1'', cx_skill_trust = Trusted,
     cx_delegation = False, cx_ask_queue = True, cx_timeout = 30, cx_allowed_paths = [],
     cx_allowed_commands = [], cx_workspace_root = Some ''/w'', cx_workspace_only = True,
     cx_plugin_allowlist = None\<rparr>"

theorem fence_holds_on_existing_paths_witness:
  "path_starts_with ''/w/a'' ''/w'' \<or> path_is_within sample_host ''a'' (h_skills_dir sample_host)"
  by (rule fence_holds_on_existing_paths [where ctx = sample_ctx]) code_simp+

text \<open>The workspace fence is open on paths that do not exist yet: a relative path climbing out of
  the workspace by any number of parent steps passes the fence when the file is not there, because the
  fallback compares the unresolved text with the root. A new file can so be written anywhere.\<close>

theorem fence_open_on_new_paths:
  assumes "cx_allowed_paths ctx = []"
    and "has_root (workspace_root h ctx)" and "\<not> has_root p"
    and "h_canonicalize h (path_join (workspace_root h ctx) (''../'' @ p)) = None"
  shows "is_path_allowed h ctx (resolve_path h ctx (''../'' @ p))"
proof -
  have root: "\<not> has_root (''../'' @ p)" by (simp add: has_root_def starts_with_def)
  have res: "resolve_path h ctx (''../'' @ p) = path_join (workspace_root h ctx) (''../'' @ p)"
    using root by (simp add: resolve_path_def starts_with_def)
  have abs: "has_root (path_join (workspace_root h ctx) (''../'' @ p))"
    using assms(2) root by (auto simp: path_join_def has_root_Cons)
  show ?thesis
    using assms(1,4) path_starts_with_join [OF assms(2) root]
    unfolding is_path_allowed_def res resolve_path_absolute [OF abs] by simp
qed

theorem fence_open_on_new_paths_witness:
  "is_path_allowed sample_host sample_ctx (resolve_path sample_host sample_ctx (''../'' @ ''etc/cron.d/x''))"
  by (rule fence_open_on_new_paths) code_simp+

end
