(* ===== verification/Tool_Hooks.thy ===== *)
theory Tool_Hooks
  imports Tool_Types
begin

text \<open>
  Tool execution hooks (\<open>tools/hooks.rs\<close>). A policy hook is a function from the call to a
  decision. A post-execute hook is a function from the call, the result and the upstream decision to
  \<open>Some\<close> decision, or \<open>None\<close> when it panics. A before or after hook only has effects:
  it is a number, and running it is an entry of the trace of the registry.
\<close>

section \<open>Decisions\<close>

datatype tool_policy_decision =
    Policy_Allow
  | AllowByHook
  | Policy_Deny string
  | NeedsApproval (na_approval_id: string) (na_tool_name: string) (na_args: json)
      (na_risk_level: risk_level) (na_requested_by: string) (na_message: string)

fun is_allow :: "tool_policy_decision \<Rightarrow> bool" where
  "is_allow Policy_Allow = True"
| "is_allow AllowByHook = True"
| "is_allow _ = False"

fun is_needs_approval :: "tool_policy_decision \<Rightarrow> bool" where
  "is_needs_approval (NeedsApproval _ _ _ _ _ _) = True"
| "is_needs_approval _ = False"

fun is_deny :: "tool_policy_decision \<Rightarrow> bool" where
  "is_deny (Policy_Deny _) = True"
| "is_deny _ = False"

datatype post_execute_decision = Accept | ReplaceOutput string | Block string

section \<open>Hooks\<close>

type_synonym policy_hook = "string \<Rightarrow> json \<Rightarrow> tool_context \<Rightarrow> tool_policy_decision"

type_synonym post_execute_hook =
  "string \<Rightarrow> json \<Rightarrow> tool_result \<Rightarrow> tool_context \<Rightarrow> post_execute_decision
     \<Rightarrow> post_execute_decision option"

record tool_hooks =
  th_before_call :: "nat list"
  th_after_call :: "nat list"
  th_policy_hooks :: "policy_hook list"
  th_post_execute_hooks :: "post_execute_hook list"

definition no_hooks :: tool_hooks where
  "no_hooks = \<lparr>th_before_call = [], th_after_call = [], th_policy_hooks = [], th_post_execute_hooks = []\<rparr>"

definition add_before :: "nat \<Rightarrow> tool_hooks \<Rightarrow> tool_hooks" where
  "add_before f hs = hs\<lparr>th_before_call := th_before_call hs @ [f]\<rparr>"

definition add_after :: "nat \<Rightarrow> tool_hooks \<Rightarrow> tool_hooks" where
  "add_after f hs = hs\<lparr>th_after_call := th_after_call hs @ [f]\<rparr>"

definition add_policy :: "policy_hook \<Rightarrow> tool_hooks \<Rightarrow> tool_hooks" where
  "add_policy f hs = hs\<lparr>th_policy_hooks := th_policy_hooks hs @ [f]\<rparr>"

definition add_post_execute :: "post_execute_hook \<Rightarrow> tool_hooks \<Rightarrow> tool_hooks" where
  "add_post_execute f hs = hs\<lparr>th_post_execute_hooks := th_post_execute_hooks hs @ [f]\<rparr>"

definition hooks_is_empty :: "tool_hooks \<Rightarrow> bool" where
  "hooks_is_empty hs \<longleftrightarrow> th_before_call hs = [] \<and> th_after_call hs = [] \<and>
     th_policy_hooks hs = [] \<and> th_post_execute_hooks hs = []"

definition has_policy_hooks :: "tool_hooks \<Rightarrow> bool" where
  "has_policy_hooks hs \<longleftrightarrow> th_policy_hooks hs \<noteq> []"

definition has_post_execute_hooks :: "tool_hooks \<Rightarrow> bool" where
  "has_post_execute_hooks hs \<longleftrightarrow> th_post_execute_hooks hs \<noteq> []"

fun policy_loop ::
  "policy_hook list \<Rightarrow> bool \<Rightarrow> string \<Rightarrow> json \<Rightarrow> tool_context \<Rightarrow> tool_policy_decision" where
  "policy_loop [] claimed name args ctx = (if claimed then AllowByHook else Policy_Allow)"
| "policy_loop (hook # hs) claimed name args ctx =
     (case hook name args ctx of
        Policy_Deny r \<Rightarrow> Policy_Deny r
      | NeedsApproval i t a l b msg \<Rightarrow> NeedsApproval i t a l b msg
      | AllowByHook \<Rightarrow> policy_loop hs True name args ctx
      | Policy_Allow \<Rightarrow> policy_loop hs claimed name args ctx)"

definition run_policy :: "tool_hooks \<Rightarrow> string \<Rightarrow> json \<Rightarrow> tool_context \<Rightarrow> tool_policy_decision" where
  "run_policy hs name args ctx = policy_loop (th_policy_hooks hs) False name args ctx"

definition withheld_feedback :: string where
  "withheld_feedback = ''Tool result withheld: a post-execute policy hook failed.''"

fun post_execute_loop ::
  "post_execute_hook list \<Rightarrow> post_execute_decision \<Rightarrow> string \<Rightarrow> json \<Rightarrow> tool_result \<Rightarrow> tool_context
     \<Rightarrow> post_execute_decision" where
  "post_execute_loop [] decision name args result ctx = decision"
| "post_execute_loop (hook # hs) decision name args result ctx =
     post_execute_loop hs
       (case hook name args result ctx decision of Some d \<Rightarrow> d | None \<Rightarrow> Block withheld_feedback)
       name args result ctx"

definition run_post_execute ::
  "tool_hooks \<Rightarrow> string \<Rightarrow> json \<Rightarrow> tool_result \<Rightarrow> tool_context \<Rightarrow> post_execute_decision" where
  "run_post_execute hs name args result ctx =
     post_execute_loop (th_post_execute_hooks hs) Accept name args result ctx"

section \<open>Laws\<close>

lemma policy_loop_app:
  "policy_loop (hs @ hs') claimed name args ctx =
     (let d = policy_loop hs claimed name args ctx
      in if is_allow d then policy_loop hs' (d = AllowByHook) name args ctx else d)"
  by (induction hs claimed name args ctx rule: policy_loop.induct)
     (auto split: tool_policy_decision.split)

lemma policy_loop_allow_iff:
  "is_allow (policy_loop hs claimed name args ctx) \<longleftrightarrow> (\<forall>hk \<in> set hs. is_allow (hk name args ctx))"
  by (induction hs claimed name args ctx rule: policy_loop.induct)
     (auto split: tool_policy_decision.split)

lemma run_policy_allow_iff:
  "is_allow (run_policy hs name args ctx) \<longleftrightarrow>
     (\<forall>hk \<in> set (th_policy_hooks hs). is_allow (hk name args ctx))"
  by (simp add: run_policy_def policy_loop_allow_iff)

lemma policy_loop_claimed:
  "policy_loop hs claimed name args ctx = AllowByHook \<longleftrightarrow>
     (\<forall>hk \<in> set hs. is_allow (hk name args ctx)) \<and>
     (claimed \<or> (\<exists>hk \<in> set hs. hk name args ctx = AllowByHook))"
  by (induction hs claimed name args ctx rule: policy_loop.induct)
     (auto split: tool_policy_decision.split)

lemma post_execute_loop_app:
  "post_execute_loop (hs @ hs') d name args result ctx =
     post_execute_loop hs' (post_execute_loop hs d name args result ctx) name args result ctx"
  by (induction hs arbitrary: d) auto

section \<open>Properties\<close>

text \<open>The policy chain is decided by its first objection, and is an authoritative allow only when
  no hook objects and one claims the call: a deny or an approval request of a hook is the answer
  exactly when every hook registered before it allows, whatever the later hooks say.\<close>

theorem policy_first_objection_wins:
  assumes "th_policy_hooks hs = before @ hk # after"
    and "\<forall>b \<in> set before. is_allow (b name args ctx)"
  shows "(\<not> is_allow (hk name args ctx) \<longrightarrow> run_policy hs name args ctx = hk name args ctx) \<and>
    (run_policy hs name args ctx = AllowByHook \<longleftrightarrow>
       (\<forall>g \<in> set (th_policy_hooks hs). is_allow (g name args ctx)) \<and>
       (\<exists>g \<in> set (th_policy_hooks hs). g name args ctx = AllowByHook))"
proof -
  have "is_allow (policy_loop before False name args ctx)"
    using assms(2) by (simp add: policy_loop_allow_iff)
  then show ?thesis
    using assms
    by (auto simp: run_policy_def policy_loop_app policy_loop_claimed Let_def
        split: tool_policy_decision.splits)
qed

theorem policy_first_objection_wins_witness:
  "run_policy (add_policy (\<lambda>n a c. Policy_Deny ''no'') (add_policy (\<lambda>n a c. AllowByHook) no_hooks))
     ''shell'' JNull sample_ctx = Policy_Deny ''no''"
  using policy_first_objection_wins [of
      "add_policy (\<lambda>n a c. Policy_Deny ''no'') (add_policy (\<lambda>n a c. AllowByHook) no_hooks)"
      "[\<lambda>n a c. AllowByHook]" "\<lambda>n a c. Policy_Deny ''no''" "[]" "''shell''" JNull sample_ctx]
  by (simp add: add_policy_def no_hooks_def)

text \<open>A panicking post-execute hook fails closed: unless a later hook overrides the decision, the
  result is confiscated with the generic feedback, and every hook registered later sees that block as
  its upstream decision.\<close>

theorem panicking_hook_fails_closed:
  assumes "th_post_execute_hooks hs = before @ hk # after"
    and "\<forall>d. hk name args result ctx d = None"
    and "\<forall>g \<in> set after. \<forall>f. g name args result ctx (Block f) = Some (Block f)"
  shows "run_post_execute hs name args result ctx = Block withheld_feedback"
proof -
  have "post_execute_loop after (Block f) name args result ctx = Block f" for f
    using assms(3) by (induction after) auto
  then show ?thesis
    using assms(1,2) by (simp add: run_post_execute_def post_execute_loop_app)
qed

theorem panicking_hook_fails_closed_witness:
  "run_post_execute (add_post_execute (\<lambda>n a r c d. Some d) (add_post_execute (\<lambda>n a r c d. None) no_hooks))
     ''shell'' JNull (result_success ''secret'') sample_ctx = Block withheld_feedback"
  by (rule panicking_hook_fails_closed [where before = "[]" and hk = "\<lambda>n a r c d. None"
        and after = "[\<lambda>n a r c d. Some d]"])
     (simp_all add: add_post_execute_def no_hooks_def)

end
