(* ===== verification/Tool_Tiering.thy ===== *)
theory Tool_Tiering
  imports Prelude
begin

text \<open>
  Two-tier tool dispatch (\<open>tools/tiering.rs\<close>): groups of optional tools, the cached set of
  the hidden ones, and the three operations that change them. The set of hidden names is rebuilt
  after each change; the invariant says what it caches.
\<close>

section \<open>Model\<close>

record tool_group =
  tg_set_id :: string
  tg_id :: string
  tg_about :: string
  tg_tools :: "string list"
  tg_open :: bool

record tier_state =
  ts_groups :: "tool_group list"
  ts_dormant :: "string set"

definition rebuild :: "tier_state \<Rightarrow> tier_state" where
  "rebuild st =
     (let dormant = (\<Union>g \<in> set (filter (\<lambda>g. \<not> tg_open g) (ts_groups st)). set (tg_tools g))
      in st\<lparr>ts_dormant :=
           {name \<in> dormant. \<not> list_ex (\<lambda>g. tg_open g \<and> name \<in> set (tg_tools g)) (ts_groups st)}\<rparr>)"

definition new_tiering :: tier_state where
  "new_tiering = \<lparr>ts_groups = [], ts_dormant = {}\<rparr>"

definition declare_groups :: "tool_group list \<Rightarrow> tier_state \<Rightarrow> tier_state" where
  "declare_groups groups st =
     rebuild (st\<lparr>ts_groups := map (\<lambda>g. g\<lparr>tg_open := False\<rparr>) groups\<rparr>)"

definition is_dormant :: "tier_state \<Rightarrow> string \<Rightarrow> bool" where
  "is_dormant st name \<longleftrightarrow> name \<in> ts_dormant st"

text \<open>Open the first group with the id; the tools it names, and the table with it open.\<close>

fun open_first :: "string \<Rightarrow> tool_group list \<Rightarrow> (string list \<times> tool_group list) option" where
  "open_first i [] = None"
| "open_first i (g # gs) =
     (if tg_id g = i then Some (tg_tools g, g\<lparr>tg_open := True\<rparr> # gs)
      else map_option (\<lambda>(tools, gs'). (tools, g # gs')) (open_first i gs))"

definition open_group :: "string \<Rightarrow> tier_state \<Rightarrow> string list option \<times> tier_state" where
  "open_group i st =
     (case open_first i (ts_groups st) of
        None \<Rightarrow> (None, st)
      | Some (tools, gs) \<Rightarrow> (Some tools, rebuild (st\<lparr>ts_groups := gs\<rparr>)))"

definition groups_of :: "string \<Rightarrow> tier_state \<Rightarrow> tool_group list" where
  "groups_of set_id st = filter (\<lambda>g. tg_set_id g = set_id) (ts_groups st)"

text \<open>\<open>ToolRegistry::declare_tiers\<close>: the groups of the platform sets, each without the
  set's core tools; a group with nothing left is dropped.\<close>

record platform_set =
  ps_set_id :: string
  ps_groups :: "(string \<times> string \<times> string list) list"
  ps_core :: "string list"

definition groups_of_sets :: "platform_set list \<Rightarrow> tool_group list" where
  "groups_of_sets sets =
     concat (map (\<lambda>s. concat (map (\<lambda>(i, about, tools).
        let rest = filter (\<lambda>t. t \<notin> set (ps_core s)) tools
        in if rest = [] then []
           else [\<lparr>tg_set_id = ps_set_id s, tg_id = i, tg_about = about, tg_tools = rest, tg_open = False\<rparr>])
        (ps_groups s))) sets)"

definition declare_tiers :: "platform_set list \<Rightarrow> tier_state \<Rightarrow> tier_state" where
  "declare_tiers sets st = declare_groups (groups_of_sets sets) st"

section \<open>The cached set\<close>

definition hidden :: "tool_group list \<Rightarrow> string \<Rightarrow> bool" where
  "hidden gs name \<longleftrightarrow> (\<exists>g \<in> set gs. name \<in> set (tg_tools g)) \<and>
     (\<forall>g \<in> set gs. name \<in> set (tg_tools g) \<longrightarrow> \<not> tg_open g)"

definition tier_ok :: "tier_state \<Rightarrow> bool" where
  "tier_ok st \<longleftrightarrow> ts_dormant st = {name. hidden (ts_groups st) name}"

inductive tier_reachable :: "tier_state \<Rightarrow> bool" where
  tier_new: "tier_reachable new_tiering"
| tier_declare: "tier_reachable st \<Longrightarrow> tier_reachable (declare_groups gs st)"
| tier_open: "tier_reachable st \<Longrightarrow> tier_reachable (snd (open_group i st))"

lemma tier_ok_rebuild [simp, inv_intros]: "tier_ok (rebuild st)"
  by (auto simp: tier_ok_def rebuild_def Let_def hidden_def list_ex_iff)

lemma groups_rebuild [simp]: "ts_groups (rebuild st) = ts_groups st"
  by (simp add: rebuild_def Let_def)

lemma tier_reachable_ok: "tier_reachable st \<Longrightarrow> tier_ok st"
proof (induction rule: tier_reachable.induct)
  case tier_new
  show ?case by (simp add: tier_ok_def new_tiering_def hidden_def)
next
  case (tier_declare st gs)
  show ?case by (simp add: declare_groups_def)
next
  case (tier_open st i)
  then show ?case by (simp add: open_group_def split: option.split)
qed

lemma open_first_Some:
  "open_first i gs = Some (tools, gs') \<Longrightarrow>
   \<exists>a g b. gs = a @ g # b \<and> gs' = a @ g\<lparr>tg_open := True\<rparr> # b \<and> tg_id g = i \<and> tg_tools g = tools \<and>
           (\<forall>x \<in> set a. tg_id x \<noteq> i)"
proof (induction gs arbitrary: gs')
  case (Cons g gs)
  show ?case
  proof (cases "tg_id g = i")
    case True
    with Cons.prems have "g # gs = [] @ g # gs" "gs' = [] @ g\<lparr>tg_open := True\<rparr> # gs" "tg_tools g = tools"
      by auto
    with True show ?thesis by fastforce
  next
    case False
    with Cons.prems obtain gs'' where "open_first i gs = Some (tools, gs'')" "gs' = g # gs''" by auto
    moreover from this Cons.IH obtain a h b where "gs = a @ h # b" "gs'' = a @ h\<lparr>tg_open := True\<rparr> # b"
      "tg_id h = i" "tg_tools h = tools" "\<forall>x \<in> set a. tg_id x \<noteq> i"
      by blast
    ultimately have "g # gs = (g # a) @ h # b \<and> gs' = (g # a) @ h\<lparr>tg_open := True\<rparr> # b \<and>
        tg_id h = i \<and> tg_tools h = tools \<and> (\<forall>x \<in> set (g # a). tg_id x \<noteq> i)"
      using False by simp
    then show ?thesis by blast
  qed
qed simp

lemma open_first_None: "open_first i gs = None \<longleftrightarrow> (\<forall>g \<in> set gs. tg_id g \<noteq> i)"
  by (induction gs) auto

lemma hidden_after_open:
  "hidden (a @ g\<lparr>tg_open := True\<rparr> # b) name \<longleftrightarrow> hidden (a @ g # b) name \<and> name \<notin> set (tg_tools g)"
  by (auto simp: hidden_def)

lemma in_groups_of_sets:
  "g \<in> set (groups_of_sets sets) \<longleftrightarrow>
     (\<exists>s \<in> set sets. \<exists>(i, about, tools) \<in> set (ps_groups s).
        filter (\<lambda>t. t \<notin> set (ps_core s)) tools \<noteq> [] \<and>
        g = \<lparr>tg_set_id = ps_set_id s, tg_id = i, tg_about = about,
             tg_tools = filter (\<lambda>t. t \<notin> set (ps_core s)) tools, tg_open = False\<rparr>)"
  unfolding groups_of_sets_def Let_def by (simp add: case_prod_beta) blast

lemma grouped_tool_iff:
  "(\<exists>g \<in> set (groups_of_sets sets). name \<in> set (tg_tools g)) \<longleftrightarrow>
   (\<exists>s \<in> set sets. \<exists>(i, about, tools) \<in> set (ps_groups s). name \<in> set tools \<and> name \<notin> set (ps_core s))"
proof
  assume "\<exists>g \<in> set (groups_of_sets sets). name \<in> set (tg_tools g)"
  then obtain g where "g \<in> set (groups_of_sets sets)" and g: "name \<in> set (tg_tools g)" ..
  then obtain s i about tools where "s \<in> set sets" "(i, about, tools) \<in> set (ps_groups s)"
    "tg_tools g = filter (\<lambda>t. t \<notin> set (ps_core s)) tools"
    unfolding in_groups_of_sets by auto
  with g show "\<exists>s \<in> set sets. \<exists>(i, about, tools) \<in> set (ps_groups s). name \<in> set tools \<and> name \<notin> set (ps_core s)"
    by fastforce
next
  assume "\<exists>s \<in> set sets. \<exists>(i, about, tools) \<in> set (ps_groups s). name \<in> set tools \<and> name \<notin> set (ps_core s)"
  then obtain s i about tools where s: "s \<in> set sets" "(i, about, tools) \<in> set (ps_groups s)"
    and name: "name \<in> set (filter (\<lambda>t. t \<notin> set (ps_core s)) tools)" by auto
  then have "filter (\<lambda>t. t \<notin> set (ps_core s)) tools \<noteq> []" by (metis empty_iff empty_set)
  with s have "\<lparr>tg_set_id = ps_set_id s, tg_id = i, tg_about = about,
      tg_tools = filter (\<lambda>t. t \<notin> set (ps_core s)) tools, tg_open = False\<rparr> \<in> set (groups_of_sets sets)"
    unfolding in_groups_of_sets by blast
  then show "\<exists>g \<in> set (groups_of_sets sets). name \<in> set (tg_tools g)"
    by (rule bexI [rotated]) (use name in simp)
qed

section \<open>Properties\<close>

text \<open>Opening a group shows exactly its tools: in every reachable state it succeeds exactly when
  a declared group has the id, and afterwards a tool is hidden exactly when it was hidden before and
  is not one of the names returned.\<close>

theorem open_shows_exactly_its_tools:
  assumes "tier_reachable st" and "open_group i st = (r, st')"
  shows "(r = None \<longleftrightarrow> (\<forall>g \<in> set (ts_groups st). tg_id g \<noteq> i)) \<and>
    (\<forall>name. is_dormant st' name \<longleftrightarrow>
       is_dormant st name \<and> (\<forall>tools. r = Some tools \<longrightarrow> name \<notin> set tools))"
proof -
  have ok: "tier_ok st" "tier_ok st'"
    using assms tier_reachable_ok tier_open by (auto, metis snd_conv)
  show ?thesis
  proof (cases "open_first i (ts_groups st)")
    case None
    with assms(2) show ?thesis by (auto simp: open_group_def open_first_None [symmetric])
  next
    case (Some p)
    obtain tools gs' where p: "p = (tools, gs')" by force
    with Some obtain a g b where "ts_groups st = a @ g # b" "gs' = a @ g\<lparr>tg_open := True\<rparr> # b"
      "tg_id g = i" "tg_tools g = tools"
      using open_first_Some by blast
    then show ?thesis
      using assms(2) Some p ok
      by (auto simp: open_group_def is_dormant_def tier_ok_def hidden_after_open)
  qed
qed

definition sample_groups :: "tool_group list" where
  "sample_groups =
     [\<lparr>tg_set_id = ''android'', tg_id = ''android.read'', tg_about = [], tg_tools = [''ui_tree''], tg_open = False\<rparr>,
      \<lparr>tg_set_id = ''android'', tg_id = ''android.web'', tg_about = [], tg_tools = [''web'', ''ui_tree''], tg_open = False\<rparr>]"

theorem open_shows_exactly_its_tools_witness:
  "is_dormant (snd (open_group ''android.read'' (declare_groups sample_groups new_tiering))) ''web'' \<and>
   \<not> is_dormant (snd (open_group ''android.read'' (declare_groups sample_groups new_tiering))) ''ui_tree''"
proof -
  let ?st = "declare_groups sample_groups new_tiering"
  have r: "open_group ''android.read'' ?st = (Some [''ui_tree''], snd (open_group ''android.read'' ?st))"
    by (simp add: open_group_def declare_groups_def sample_groups_def)
  have "is_dormant ?st ''web''"
    by (simp add: is_dormant_def declare_groups_def rebuild_def sample_groups_def Let_def)
  then show ?thesis
    using open_shows_exactly_its_tools [OF tier_declare [OF tier_new] r] by auto
qed

text \<open>Declaring the platform sets never hides a core tool of a set behind that set's own groups,
  and hides every other grouped tool.\<close>

theorem declared_tiers_hide_the_optional:
  "is_dormant (declare_tiers sets st) name \<longleftrightarrow>
     (\<exists>s \<in> set sets. \<exists>(i, about, tools) \<in> set (ps_groups s). name \<in> set tools \<and> name \<notin> set (ps_core s))"
proof -
  have "tier_ok (declare_tiers sets st)" by (simp add: declare_tiers_def declare_groups_def)
  then have "is_dormant (declare_tiers sets st) name \<longleftrightarrow>
      hidden (map (\<lambda>g. g\<lparr>tg_open := False\<rparr>) (groups_of_sets sets)) name"
    by (simp add: tier_ok_def is_dormant_def declare_tiers_def declare_groups_def)
  also have "\<dots> \<longleftrightarrow> (\<exists>g \<in> set (groups_of_sets sets). name \<in> set (tg_tools g))"
    by (auto simp: hidden_def)
  also have "\<dots> \<longleftrightarrow> (\<exists>s \<in> set sets. \<exists>(i, about, tools) \<in> set (ps_groups s).
      name \<in> set tools \<and> name \<notin> set (ps_core s))"
    by (rule grouped_tool_iff)
  finally show ?thesis .
qed

end
