(* ===== verification/Tool_Registry.thy ===== *)
theory Tool_Registry
  imports Tool_Hooks Tool_Tiering
begin

text \<open>
  The tool registry (\<open>tools/registry.rs\<close>), storage half: the two tool tables, blocked
  prefixes, the circuit breaker, privileged tools, what is advertised to a model, description
  overrides, and the result cache. The gate and the execution paths are in \<open>Tool_Gate\<close>.

  A tool is a record of what the trait \<open>Tool\<close> promises; its body is a function. Hash maps are
  association lists. The locks are not modelled: each operation here is one critical section, and a
  poisoned lock is outside the model. \<open>rg_trace\<close> records the effects an execution has
  outside the registry, and \<open>rg_fresh\<close> numbers the one-shot channels and identifiers it makes.
\<close>

section \<open>State\<close>

datatype syscity_error = Validation string | Timeout string string | Tool_Failed string

record tool =
  tl_name :: string
  tl_description :: string
  tl_parameters :: json
  tl_capabilities :: tool_capabilities
  tl_is_available :: "tool_context \<Rightarrow> bool"
  tl_skip_content_filter :: bool
  tl_execute :: "json \<Rightarrow> tool_context \<Rightarrow> syscity_error + tool_result"
  tl_elapsed :: "json \<Rightarrow> tool_context \<Rightarrow> int"
  tl_stream :: "json \<Rightarrow> tool_context \<Rightarrow> chunk list"

record cache_entry =
  ce_result :: tool_result
  ce_timestamp :: int

record verdict =
  vd_allow :: bool
  vd_reason :: string

record guardian =
  gd_label :: string
  gd_review :: "string \<Rightarrow> json \<Rightarrow> tool_context \<Rightarrow> verdict option"

datatype filter_action = Pass | Redacted | Blocked

record filter_outcome =
  fo_output :: string
  fo_data :: "json option"
  fo_success :: bool
  fo_action :: filter_action
  fo_summary :: string

datatype effect =
    Ef_Before nat string json
  | Ef_After nat string json tool_result
  | Ef_Run string json
  | Ef_Checkpoint string string
  | Ef_Audit audit_event_type string string bool string
  | Ef_Chunk chunk

record registry =
  rg_tools :: "(string \<times> tool) list"
  rg_dynamic_tools :: "(string \<times> tool) list"
  rg_blocked_prefixes :: "string set"
  rg_cache :: "(string \<times> cache_entry) list"
  rg_cache_ttl :: "int option"
  rg_cache_enabled :: bool
  rg_failure_counts :: "(string \<times> u32) list"
  rg_privileged_tools :: "string set"
  rg_hooks :: tool_hooks
  rg_hooks_override :: "tool_hooks option"
  rg_approval_queue :: "approval_queue option"
  rg_skills_write_approval :: bool
  rg_permissions :: snapshot
  rg_guardian :: "guardian option"
  rg_content_filter :: "(tool_result \<Rightarrow> filter_outcome) option"
  rg_checkpoints :: bool
  rg_audit_log :: bool
  rg_spill_threshold :: "nat option"
  rg_metadata :: "(string \<times> string) list"
  rg_tiering :: tier_state
  rg_trace :: "effect list"
  rg_fresh :: nat

definition default_spill_threshold :: nat where
  "default_spill_threshold = 32 * 1024"

definition new_registry :: registry where
  "new_registry =
     \<lparr>rg_tools = [], rg_dynamic_tools = [], rg_blocked_prefixes = {}, rg_cache = [],
      rg_cache_ttl = None, rg_cache_enabled = False, rg_failure_counts = [],
      rg_privileged_tools = {}, rg_hooks = no_hooks, rg_hooks_override = None,
      rg_approval_queue = None, rg_skills_write_approval = False,
      rg_permissions = default_runtime, rg_guardian = None, rg_content_filter = None,
      rg_checkpoints = False, rg_audit_log = False,
      rg_spill_threshold = Some default_spill_threshold, rg_metadata = [],
      rg_tiering = new_tiering, rg_trace = [], rg_fresh = 0\<rparr>"

definition default_registry :: registry where
  "default_registry = new_registry\<lparr>rg_cache_enabled := True\<rparr>"

definition with_cache :: "int \<Rightarrow> registry" where
  "with_cache ttl = new_registry\<lparr>rg_cache_enabled := True, rg_cache_ttl := Some ttl\<rparr>"

section \<open>Circuit breaker\<close>

definition circuit_breaker_threshold :: u32 where
  "circuit_breaker_threshold = 3"

definition failure_count :: "registry \<Rightarrow> string \<Rightarrow> u32" where
  "failure_count r name = (case map_of (rg_failure_counts r) name of Some n \<Rightarrow> n | None \<Rightarrow> 0)"

definition record_failure :: "string \<Rightarrow> registry \<Rightarrow> registry" where
  "record_failure name r =
     r\<lparr>rg_failure_counts := AList.update name (failure_count r name + 1) (rg_failure_counts r)\<rparr>"

definition reset_failure :: "string \<Rightarrow> registry \<Rightarrow> registry" where
  "reset_failure name r = r\<lparr>rg_failure_counts := AList.delete name (rg_failure_counts r)\<rparr>"

definition is_degraded :: "registry \<Rightarrow> string \<Rightarrow> bool" where
  "is_degraded r name \<longleftrightarrow> circuit_breaker_threshold \<le> failure_count r name"

definition degraded_tools :: "registry \<Rightarrow> string list" where
  "degraded_tools r =
     map fst (filter (\<lambda>(_, v). circuit_breaker_threshold \<le> v) (rg_failure_counts r))"

section \<open>Tables\<close>

definition mark_privileged :: "string \<Rightarrow> registry \<Rightarrow> registry" where
  "mark_privileged name r = r\<lparr>rg_privileged_tools := insert name (rg_privileged_tools r)\<rparr>"

definition is_privileged :: "registry \<Rightarrow> string \<Rightarrow> bool" where
  "is_privileged r name \<longleftrightarrow> name \<in> rg_privileged_tools r"

definition is_blocked :: "registry \<Rightarrow> string \<Rightarrow> bool" where
  "is_blocked r name \<longleftrightarrow> (\<exists>p \<in> rg_blocked_prefixes r. starts_with name p)"

definition get_capabilities :: "registry \<Rightarrow> string \<Rightarrow> tool_capabilities" where
  "get_capabilities r name =
     (case map_of (rg_tools r) name of
        Some t \<Rightarrow> tl_capabilities t
      | None \<Rightarrow> (case map_of (rg_dynamic_tools r) name of
          Some t \<Rightarrow> tl_capabilities t
        | None \<Rightarrow> default_capabilities))"

definition is_dynamic_tool :: "registry \<Rightarrow> string \<Rightarrow> bool" where
  "is_dynamic_tool r name \<longleftrightarrow> name \<notin> hm_keys (rg_tools r) \<and> name \<in> hm_keys (rg_dynamic_tools r)"

definition is_plugin_like_name :: "string \<Rightarrow> bool" where
  "is_plugin_like_name name \<longleftrightarrow> str_contains name ''__''"

definition is_excluded :: "registry \<Rightarrow> string \<Rightarrow> tool_context \<Rightarrow> bool" where
  "is_excluded r name ctx =
     (if is_blocked r name then True
      else if is_degraded r name then True
      else if cx_skill_trust ctx < Trusted \<and> is_privileged r name then True
      else if is_dormant (rg_tiering r) name then True
      else if effective_mode (rg_permissions r) (cx_conversation_id ctx) = Plan
              \<and> \<not> tc_read_only (get_capabilities r name) then True
      else if is_dynamic_tool r name \<and> is_plugin_like_name name then
        (case cx_plugin_allowlist ctx of
           Some allowlist \<Rightarrow> \<not> list_ex (\<lambda>prefix. name = prefix \<or> starts_with name prefix) allowlist
         | None \<Rightarrow> False)
      else False)"

definition uncertainty_note :: "registry \<Rightarrow> string \<Rightarrow> string" where
  "uncertainty_note r name =
     (let caps = get_capabilities r name
      in if tc_idempotent caps then '' The tool is idempotent: retrying it is safe.''
         else case tc_compensation caps of
             Some c \<Rightarrow> '' It is not idempotent - the call may have taken effect. To undo it: '' @ c @ ''.''
           | None \<Rightarrow> '' It is not idempotent and has no compensating action: retrying may duplicate the effect.'')"

definition register :: "tool \<Rightarrow> registry \<Rightarrow> registry" where
  "register t r = r\<lparr>rg_tools := AList.update (tl_name t) t (rg_tools r)\<rparr>"

definition remove :: "string \<Rightarrow> registry \<Rightarrow> tool option \<times> registry" where
  "remove name r = (map_of (rg_tools r) name, r\<lparr>rg_tools := AList.delete name (rg_tools r)\<rparr>)"

definition replace :: "string \<Rightarrow> tool \<Rightarrow> registry \<Rightarrow> tool option \<times> registry" where
  "replace name t r =
     (map_of (rg_tools r) (tl_name t), r\<lparr>rg_tools := AList.update (tl_name t) t (rg_tools r)\<rparr>)"

definition deregister_prefix :: "string \<Rightarrow> registry \<Rightarrow> registry" where
  "deregister_prefix prefix r =
     r\<lparr>rg_blocked_prefixes := insert prefix (rg_blocked_prefixes r),
       rg_tools := hm_retain (\<lambda>k _. \<not> starts_with k prefix) (rg_tools r),
       rg_dynamic_tools := hm_retain (\<lambda>k _. \<not> starts_with k prefix) (rg_dynamic_tools r)\<rparr>"

definition register_dynamic :: "tool \<Rightarrow> registry \<Rightarrow> registry" where
  "register_dynamic t r = r\<lparr>rg_dynamic_tools := AList.update (tl_name t) t (rg_dynamic_tools r)\<rparr>"

definition deregister_dynamic :: "string \<Rightarrow> registry \<Rightarrow> registry" where
  "deregister_dynamic name r = r\<lparr>rg_dynamic_tools := AList.delete name (rg_dynamic_tools r)\<rparr>"

definition get :: "registry \<Rightarrow> string \<Rightarrow> tool option" where
  "get r name = (if is_blocked r name \<or> is_degraded r name then None else map_of (rg_tools r) name)"

definition iter_tools :: "(string \<Rightarrow> bool) \<Rightarrow> registry \<Rightarrow> (string \<times> tool) list" where
  "iter_tools f r = filter (\<lambda>(n, _). f n) (rg_tools r) @ filter (\<lambda>(n, _). f n) (rg_dynamic_tools r)"

definition list_tools :: "registry \<Rightarrow> string list" where
  "list_tools r = map fst (iter_tools (\<lambda>n. \<not> is_blocked r n \<and> \<not> is_degraded r n) r)"

definition all_tools_arc :: "registry \<Rightarrow> tool list" where
  "all_tools_arc r =
     map snd (filter (\<lambda>(n, _). \<not> is_blocked r n \<and> \<not> is_degraded r n) (rg_dynamic_tools r))"

definition has :: "registry \<Rightarrow> string \<Rightarrow> bool" where
  "has r name =
     (if is_blocked r name \<or> is_degraded r name then False
      else if name \<in> hm_keys (rg_tools r) then True
      else name \<in> hm_keys (rg_dynamic_tools r))"

section \<open>Advertisement\<close>

record function_definition =
  fd_name :: string
  fd_description :: string
  fd_parameters :: json

definition set_metadata :: "string \<Rightarrow> string \<Rightarrow> registry \<Rightarrow> registry" where
  "set_metadata name desc r = r\<lparr>rg_metadata := AList.update name desc (rg_metadata r)\<rparr>"

definition metadata_for :: "registry \<Rightarrow> string \<Rightarrow> string option" where
  "metadata_for r name = map_of (rg_metadata r) name"

definition effective_description :: "registry \<Rightarrow> string \<Rightarrow> tool \<Rightarrow> string" where
  "effective_description r name t =
     (case metadata_for r name of Some d \<Rightarrow> d | None \<Rightarrow> tl_description t)"

definition description_for :: "registry \<Rightarrow> string \<Rightarrow> string option" where
  "description_for r name =
     (case metadata_for r name of Some d \<Rightarrow> Some d
      | None \<Rightarrow> (case get r name of Some t \<Rightarrow> Some (tl_description t)
        | None \<Rightarrow> map_option tl_description (map_of (rg_dynamic_tools r) name)))"

definition definition_for :: "registry \<Rightarrow> string \<Rightarrow> tool \<Rightarrow> function_definition" where
  "definition_for r name t =
     \<lparr>fd_name = tl_name t, fd_description = effective_description r name t,
      fd_parameters = tl_parameters t\<rparr>"

definition get_definitions :: "registry \<Rightarrow> function_definition list" where
  "get_definitions r =
     map (\<lambda>(n, t). definition_for r n t)
       (iter_tools (\<lambda>n. \<not> is_blocked r n \<and> \<not> is_degraded r n \<and> \<not> is_dormant (rg_tiering r) n) r)"

definition get_available :: "registry \<Rightarrow> tool_context \<Rightarrow> function_definition list" where
  "get_available r ctx =
     map (\<lambda>(n, t). definition_for r n t)
       (filter (\<lambda>(_, t). tl_is_available t ctx) (iter_tools (\<lambda>n. \<not> is_excluded r n ctx) r))"

section \<open>Cache\<close>

definition enable_cache :: "int \<Rightarrow> registry \<Rightarrow> registry" where
  "enable_cache ttl r = r\<lparr>rg_cache_enabled := True, rg_cache_ttl := Some ttl\<rparr>"

definition disable_cache :: "registry \<Rightarrow> registry" where
  "disable_cache r = r\<lparr>rg_cache_enabled := False, rg_cache := []\<rparr>"

definition clear_cache :: "registry \<Rightarrow> registry" where
  "clear_cache r = r\<lparr>rg_cache := []\<rparr>"

text \<open>\<open>hash\<close> is the decimal form of the standard library's hash of the name and the printed
  arguments.\<close>

definition cache_key :: "(string \<Rightarrow> json \<Rightarrow> string) \<Rightarrow> string \<Rightarrow> json \<Rightarrow> string" where
  "cache_key hash name args = name @ '':'' @ hash name args"

definition get_cached :: "int \<Rightarrow> registry \<Rightarrow> string \<Rightarrow> tool_result option" where
  "get_cached now r key =
     (if \<not> rg_cache_enabled r then None
      else case map_of (rg_cache r) key of
          None \<Rightarrow> None
        | Some e \<Rightarrow> (case rg_cache_ttl r of
            Some ttl \<Rightarrow> if ttl < max 0 (now - ce_timestamp e) then None else Some (ce_result e)
          | None \<Rightarrow> Some (ce_result e)))"

definition store_cached :: "int \<Rightarrow> string \<Rightarrow> tool_result \<Rightarrow> registry \<Rightarrow> registry" where
  "store_cached now key result r =
     (if \<not> rg_cache_enabled r then r
      else r\<lparr>rg_cache := AList.update key \<lparr>ce_result = result, ce_timestamp = now\<rparr> (rg_cache r)\<rparr>)"

definition active_hooks :: "registry \<Rightarrow> tool_hooks" where
  "active_hooks r = (case rg_hooks_override r of Some h \<Rightarrow> h | None \<Rightarrow> rg_hooks r)"

definition set_hooks :: "tool_hooks \<Rightarrow> registry \<Rightarrow> registry" where
  "set_hooks hs r = r\<lparr>rg_hooks_override := Some hs\<rparr>"

section \<open>Failure counters\<close>

text \<open>A sequence of failure reports and resets for keyed counters, and what it says about one key:
  the number of failures since its last reset.\<close>

datatype 'k breaker_op = Fail (op_key: 'k) | Clear (op_key: 'k)

fun apply_op :: "('k \<Rightarrow> 's \<Rightarrow> 's) \<Rightarrow> ('k \<Rightarrow> 's \<Rightarrow> 's) \<Rightarrow> 'k breaker_op \<Rightarrow> 's \<Rightarrow> 's" where
  "apply_op fail clear (Fail k) s = fail k s"
| "apply_op fail clear (Clear k) s = clear k s"

definition consecutive_failures :: "'k \<Rightarrow> 'k breaker_op list \<Rightarrow> nat" where
  "consecutive_failures k ops =
     length (takeWhile (\<lambda>a. a = Fail k) (rev (filter (\<lambda>a. op_key a = k) ops)))"

text \<open>The contract of a keyed failure counter of bounded width.\<close>

locale failure_counter =
  fixes count :: "'s \<Rightarrow> 'k \<Rightarrow> nat"
    and fail :: "'k \<Rightarrow> 's \<Rightarrow> 's"
    and clear :: "'k \<Rightarrow> 's \<Rightarrow> 's"
    and bound :: nat
  assumes fail_same: "count s k < bound \<Longrightarrow> count (fail k s) k = Suc (count s k)"
    and fail_other: "k' \<noteq> k \<Longrightarrow> count (fail k s) k' = count s k'"
    and clear_same: "count (clear k s) k = 0"
    and clear_other: "k' \<noteq> k \<Longrightarrow> count (clear k s) k' = count s k'"
begin

lemma consecutive_le: "consecutive_failures k ops \<le> length ops"
  unfolding consecutive_failures_def
  by (metis (no_types, lifting) length_filter_le length_rev length_takeWhile_le order_trans)

lemma count_after:
  assumes "count s k = 0" and "length ops \<le> bound"
  shows "count (fold (apply_op fail clear) ops s) k = consecutive_failures k ops"
  using assms(2)
proof (induction ops rule: rev_induct)
  case Nil
  then show ?case using assms(1) by (simp add: consecutive_failures_def)
next
  case (snoc a ops)
  then have IH: "count (fold (apply_op fail clear) ops s) k = consecutive_failures k ops" by simp
  moreover have "consecutive_failures k ops < bound"
    using consecutive_le [of k ops] snoc.prems by simp
  ultimately show ?case
    using fail_same [of _ k] fail_other clear_same clear_other
    by (cases a; cases "op_key a = k") (auto simp: consecutive_failures_def)
qed

end

lemma failure_count_record:
  "failure_count (record_failure k r) k' = (if k' = k then failure_count r k + 1 else failure_count r k')"
  by (simp add: failure_count_def record_failure_def)

lemma failure_count_reset:
  "failure_count (reset_failure k r) k' = (if k' = k then 0 else failure_count r k')"
  by (simp add: failure_count_def reset_failure_def)

interpretation breaker: failure_counter "\<lambda>r k. unat (failure_count r k)" record_failure reset_failure
  "2 ^ 32 - 1"
proof unfold_locales
  fix r k assume "unat (failure_count r k) < 2 ^ 32 - 1"
  then show "unat (failure_count (record_failure k r) k) = Suc (unat (failure_count r k))"
    by (simp add: failure_count_record unat_word_ariths)
qed (simp_all add: failure_count_record failure_count_reset)

section \<open>Laws of the tables\<close>

lemma has_iff:
  "has r n \<longleftrightarrow> \<not> is_blocked r n \<and> \<not> is_degraded r n \<and>
     (n \<in> hm_keys (rg_tools r) \<or> n \<in> hm_keys (rg_dynamic_tools r))"
  by (simp add: has_def)

lemma list_tools_has: "n \<in> set (list_tools r) \<longleftrightarrow> has r n"
  by (force simp: list_tools_def iter_tools_def has_iff)

lemma get_has: "get r n = Some t \<Longrightarrow> has r n"
  by (auto simp: get_def has_iff split: if_splits dest: map_of_SomeD hm_key_in)

lemma is_excluded_has:
  "\<not> is_excluded r n ctx \<Longrightarrow> \<not> is_blocked r n \<and> \<not> is_degraded r n \<and>
     \<not> (cx_skill_trust ctx = Community \<and> is_privileged r n) \<and> \<not> is_dormant (rg_tiering r) n \<and>
     (effective_mode (rg_permissions r) (cx_conversation_id ctx) = Plan \<longrightarrow>
        tc_read_only (get_capabilities r n))"
  by (auto simp: is_excluded_def less_skill_trust_def split: if_splits)

lemma blocked_register_dynamic [simp]: "rg_blocked_prefixes (register_dynamic t r) = rg_blocked_prefixes r"
  by (simp add: register_dynamic_def)

lemma blocked_fold_register:
  "rg_blocked_prefixes (fold register_dynamic ts r) = rg_blocked_prefixes r"
  by (induction ts arbitrary: r) auto

section \<open>Properties\<close>

text \<open>The circuit breaker counts consecutive failures: after any sequence of failure reports and
  resets on a fresh registry, shorter than the counter's width, a tool is degraded exactly when its
  last three reports, resets included, are failures, whatever happens to the other tools.\<close>

theorem breaker_counts_consecutive_failures:
  assumes "length ops < 2 ^ 32"
  shows "is_degraded (fold (apply_op record_failure reset_failure) ops new_registry) name
     \<longleftrightarrow> 3 \<le> consecutive_failures name ops"
proof -
  have "unat (failure_count (fold (apply_op record_failure reset_failure) ops new_registry) name)
      = consecutive_failures name ops"
    using assms by (intro breaker.count_after) (simp_all add: failure_count_def new_registry_def)
  then show ?thesis
    by (simp add: is_degraded_def circuit_breaker_threshold_def word_le_nat_alt)
qed

theorem breaker_counts_consecutive_failures_witness:
  "is_degraded (fold (apply_op record_failure reset_failure)
      [Fail ''a'', Clear ''a'', Fail ''a'', Fail ''b'', Fail ''a'', Fail ''a''] new_registry) ''a''
     \<longleftrightarrow> 3 \<le> consecutive_failures ''a'' [Fail ''a'', Clear ''a'', Fail ''a'', Fail ''b'', Fail ''a'', Fail ''a'']"
  by (rule breaker_counts_consecutive_failures) simp

text \<open>What is advertised is live and permitted: every definition offered to a model is that of a
  registered tool that is neither blocked nor degraded nor waiting in a closed group, is not
  privileged when the skill is untrusted, and is read-only in plan mode.\<close>

theorem advertised_tools_are_live:
  assumes "fd \<in> set (get_available r ctx)"
  shows "\<exists>n t. fd = definition_for r n t \<and>
    (n, t) \<in> set (rg_tools r) \<union> set (rg_dynamic_tools r) \<and> has r n \<and> n \<in> set (list_tools r) \<and>
    \<not> is_dormant (rg_tiering r) n \<and> \<not> (cx_skill_trust ctx = Community \<and> is_privileged r n) \<and>
    (effective_mode (rg_permissions r) (cx_conversation_id ctx) = Plan \<longrightarrow>
       tc_read_only (get_capabilities r n))"
proof -
  obtain n t where nt: "fd = definition_for r n t" "(n, t) \<in> set (rg_tools r) \<union> set (rg_dynamic_tools r)"
    "\<not> is_excluded r n ctx"
    using assms by (auto simp: get_available_def iter_tools_def)
  moreover have "n \<in> hm_keys (rg_tools r) \<or> n \<in> hm_keys (rg_dynamic_tools r)"
    using nt(2) hm_key_in [of n t] by blast
  moreover note ex = is_excluded_has [OF nt(3)]
  ultimately have "has r n" "n \<in> set (list_tools r)" by (simp_all add: has_iff list_tools_has)
  then show ?thesis using nt(1,2) ex by blast
qed

definition sample_tool :: "string \<Rightarrow> bool \<Rightarrow> tool" where
  "sample_tool name approval = \<lparr>tl_name = name, tl_description = ''d'', tl_parameters = JNull,
     tl_capabilities = default_capabilities\<lparr>tc_requires_approval := approval\<rparr>,
     tl_is_available = (\<lambda>_. True), tl_skip_content_filter = False,
     tl_execute = (\<lambda>_ _. Inr (result_success ''ran'')), tl_elapsed = (\<lambda>_ _. 1),
     tl_stream = (\<lambda>_ _. [Output_Chunk ''ran'', Done_Chunk])\<rparr>"

theorem advertised_tools_are_live_witness:
  "\<exists>n t. definition_for (register (sample_tool ''grep'' False) new_registry) ''grep'' (sample_tool ''grep'' False)
      = definition_for (register (sample_tool ''grep'' False) new_registry) n t \<and>
    (n, t) \<in> set (rg_tools (register (sample_tool ''grep'' False) new_registry)) \<union>
             set (rg_dynamic_tools (register (sample_tool ''grep'' False) new_registry))"
proof -
  let ?r = "register (sample_tool ''grep'' False) new_registry"
  have "definition_for ?r ''grep'' (sample_tool ''grep'' False) \<in> set (get_available ?r sample_ctx)"
    by (simp add: get_available_def iter_tools_def register_def new_registry_def sample_tool_def
        is_excluded_def is_blocked_def is_degraded_def failure_count_def circuit_breaker_threshold_def
        is_dormant_def new_tiering_def effective_mode_def default_runtime_def sample_ctx_def
        is_dynamic_tool_def less_skill_trust_def default_permissions_config_def from_config_def reload_def)
  from advertised_tools_are_live [OF this] show ?thesis by blast
qed

text \<open>Deregistering a prefix is for good: no later registration of a tool under the prefix makes it
  available again, because the blocked prefixes only grow.\<close>

theorem deregistered_prefix_stays_hidden:
  assumes "starts_with name p"
  shows "\<not> has (fold register_dynamic ts (deregister_prefix p r)) name \<and>
         get (fold register_dynamic ts (deregister_prefix p r)) name = None"
proof -
  have "is_blocked (fold register_dynamic ts (deregister_prefix p r)) name"
    using assms by (simp add: is_blocked_def blocked_fold_register deregister_prefix_def)
  then show ?thesis by (simp add: has_iff get_def)
qed

theorem deregistered_prefix_stays_hidden_witness:
  "\<not> has (fold register_dynamic [sample_tool ''mcp__git__log'' False]
           (deregister_prefix ''mcp__git__'' new_registry)) ''mcp__git__log'' \<and>
   get (fold register_dynamic [sample_tool ''mcp__git__log'' False]
           (deregister_prefix ''mcp__git__'' new_registry)) ''mcp__git__log'' = None"
  by (rule deregistered_prefix_stays_hidden) code_simp

end
