(* ===== verification/Tool_Spill.thy ===== *)
theory Tool_Spill
  imports Tool_Types
begin

text \<open>
  Spilling of oversized tool outputs (\<open>tools/spill.rs\<close>). Sizes are in bytes of the UTF-8
  encoding: a character below \<open>U+0080\<close> takes one byte, the others of the block two. A slice
  \<open>text[..i]\<close> panics off a character boundary; the properties show that every slice taken is
  on one. The spill directory is a list of files with their modification times, or an error of
  \<open>read_dir\<close>.
\<close>

section \<open>Truncation\<close>

fun floor_char_boundary :: "string \<Rightarrow> nat \<Rightarrow> nat" where
  "floor_char_boundary text 0 = 0"
| "floor_char_boundary text (Suc i) =
     (if is_char_boundary text (Suc i) then Suc i else floor_char_boundary text i)"

function ceil_boundary :: "string \<Rightarrow> nat \<Rightarrow> nat" where
  "ceil_boundary text start =
     (if start < byte_len text \<and> \<not> is_char_boundary text start then ceil_boundary text (start + 1)
      else start)"
  by pat_completeness auto
termination by (relation "measure (\<lambda>(text, start). byte_len text - start)") auto

declare ceil_boundary.simps [simp del]

definition floor_char_boundary_from_end :: "string \<Rightarrow> nat \<Rightarrow> nat" where
  "floor_char_boundary_from_end text count = byte_len text - ceil_boundary text (byte_len text - count)"

definition omission_marker :: "nat \<Rightarrow> string" where
  "omission_marker n = newline @ ''[... '' @ show_nat n @ '' bytes omitted ...]'' @ newline"

definition head_tail_truncate :: "string \<Rightarrow> nat \<Rightarrow> string" where
  "head_tail_truncate text limit =
     (if byte_len text \<le> limit then text
      else let marker_size = byte_len (omission_marker (byte_len text))
           in if limit \<le> marker_size + 2 then byte_take (floor_char_boundary text limit) text
              else let budget = limit - marker_size;
                       head_len = floor_char_boundary text (budget div 2);
                       tail_len = floor_char_boundary_from_end text (budget - head_len);
                       omitted = byte_len text - head_len - tail_len
                   in byte_take head_len text @ omission_marker omitted
                      @ byte_drop (byte_len text - tail_len) text)"

section \<open>Spilling\<close>

definition spill_dir :: string where
  "spill_dir = ''.syscity/spill''"

definition spill_retention :: int where
  "spill_retention = 7 * 24 * 60 * 60 * nanos_per_sec"

text \<open>A directory entry: its modification time when the metadata can be read, and whether it can be
  removed. A sweep keeps the entries it does not remove.\<close>

record spill_file =
  sf_name :: string
  sf_modified :: "int option"
  sf_removable :: bool

datatype dir_listing = Dir_Missing | Dir_Unreadable | Dir_Entries "spill_file list"

definition expired :: "int \<Rightarrow> spill_file \<Rightarrow> bool" where
  "expired now f =
     (case sf_modified f of
        Some t \<Rightarrow> t < now - spill_retention
      | None \<Rightarrow> False)"

definition sweep_spill_dir :: "int \<Rightarrow> dir_listing \<Rightarrow> nat option \<times> dir_listing" where
  "sweep_spill_dir now d =
     (case d of
        Dir_Missing \<Rightarrow> (Some 0, d)
      | Dir_Unreadable \<Rightarrow> (None, d)
      | Dir_Entries fs \<Rightarrow>
          (Some (length (filter (\<lambda>f. expired now f \<and> sf_removable f) fs)),
           Dir_Entries (filter (\<lambda>f. \<not> (expired now f \<and> sf_removable f)) fs)))"

definition path_fields :: "string list" where
  "path_fields = [''path'', ''file'', ''directory'', ''dir'', ''source'', ''destination'', ''dst'']"

definition arg_targets_spilled_file :: "string \<Rightarrow> json \<Rightarrow> bool" where
  "arg_targets_spilled_file root args =
     (let spill_root = path_join root spill_dir
      in list_ex (\<lambda>field.
           (case get_str field args of
              Some raw \<Rightarrow>
                (let abs = (if has_root raw then raw else path_join root raw)
                 in path_starts_with abs spill_root)
            | None \<Rightarrow> False)) path_fields)"

definition is_ascii_alphanumeric :: "char \<Rightarrow> bool" where
  "is_ascii_alphanumeric c =
     (let n = (of_char c :: nat)
      in (48 \<le> n \<and> n \<le> 57) \<or> (65 \<le> n \<and> n \<le> 90) \<or> (97 \<le> n \<and> n \<le> 122))"

definition sanitize_tool_name :: "string \<Rightarrow> string" where
  "sanitize_tool_name name =
     map (\<lambda>c. if is_ascii_alphanumeric c \<or> c = CHR ''-'' \<or> c = CHR ''_'' then c else CHR ''_'') name"

record spill_outcome =
  so_path :: string
  so_rel_path :: string
  so_total_bytes :: nat
  so_replacement :: string

text \<open>The notice of the source has an em dash between two spaces; it stands here as the two
  characters of its first bytes, three bytes in the source and in the count.\<close>

definition em_dash :: string where
  "em_dash = [CHR 0xE2, CHR ''-'']"

definition spill_notice :: "nat \<Rightarrow> string \<Rightarrow> string" where
  "spill_notice size_of rel =
     newline @ ''[... output too large '' @ em_dash @ '' full content ('' @ show_nat size_of
     @ '' bytes) saved to '' @ rel
     @ ''. Use file_read (with limit) or grep on that path to inspect further. ...]'' @ newline"

text \<open>\<open>written\<close> says whether the directory and the file could be created; \<open>uuid8\<close> is
  the first eight characters of a fresh identifier.\<close>

definition spill_output ::
  "bool \<Rightarrow> string \<Rightarrow> string \<Rightarrow> string \<Rightarrow> string \<Rightarrow> nat \<Rightarrow> spill_outcome option" where
  "spill_output written uuid8 root tool_name out budget =
     (if \<not> written then None
      else let dir = path_join root spill_dir;
               file_name = uuid8 @ ''-'' @ sanitize_tool_name tool_name @ ''.log'';
               rel_path = spill_dir @ ''/'' @ file_name;
               notice = spill_notice (byte_len out) rel_path;
               preview_budget = budget - byte_len notice;
               head_len = floor_char_boundary out (preview_budget * 3 div 5);
               tail_len = floor_char_boundary_from_end out (preview_budget - head_len)
           in Some \<lparr>so_path = path_join dir file_name, so_rel_path = rel_path,
                    so_total_bytes = byte_len out,
                    so_replacement = byte_take head_len out @ notice
                                     @ byte_drop (byte_len out - tail_len) out\<rparr>)"

section \<open>Laws\<close>

lemma byte_len_simps [simp]:
  "byte_len [] = 0" "byte_len (c # s) = utf8_len c + byte_len s" "byte_len (s @ t) = byte_len s + byte_len t"
  by (simp_all add: byte_len_def)

lemma utf8_len_pos [simp]: "0 < utf8_len c" "utf8_len c \<noteq> 0"
  by (simp_all add: utf8_len_def)

lemma byte_take_drop: "byte_take i s @ byte_drop i s = s"
  by (induction i s rule: byte_take.induct) auto

lemma byte_len_take_le: "byte_len (byte_take i s) \<le> i"
  by (induction i s rule: byte_take.induct) auto

lemma is_char_boundary_0 [simp]: "is_char_boundary s 0"
  by (cases s) auto

lemma is_char_boundary_len [simp]: "is_char_boundary s (byte_len s)"
  by (induction s) auto

lemma is_char_boundary_le: "is_char_boundary s i \<Longrightarrow> i \<le> byte_len s"
  by (induction s i rule: is_char_boundary.induct) auto

lemma byte_len_take: "is_char_boundary s i \<Longrightarrow> byte_len (byte_take i s) = i"
proof (induction i s rule: byte_take.induct)
  case (2 i c s)
  then show ?case by (cases "i = 0") auto
qed simp

lemma byte_len_drop: "is_char_boundary s i \<Longrightarrow> byte_len (byte_drop i s) = byte_len s - i"
  using byte_len_take [of s i] arg_cong [OF byte_take_drop [of i s], of byte_len] by simp

lemma byte_take_take: "i \<le> j \<Longrightarrow> byte_take i (byte_take j s) = byte_take i s"
proof (induction i s arbitrary: j rule: byte_take.induct)
  case (2 i c s)
  then show ?case by (cases "utf8_len c \<le> i") auto
qed simp

lemma floor_char_boundary_le: "floor_char_boundary s i \<le> i"
  by (induction s i rule: floor_char_boundary.induct) auto

lemma floor_char_boundary_ok: "is_char_boundary s (floor_char_boundary s i)"
  by (induction s i rule: floor_char_boundary.induct) auto

lemma ceil_boundary_ok:
  "start \<le> byte_len s \<Longrightarrow>
   start \<le> ceil_boundary s start \<and> ceil_boundary s start \<le> byte_len s \<and>
   is_char_boundary s (ceil_boundary s start)"
proof (induction s start rule: ceil_boundary.induct)
  case (1 s start)
  show ?case
  proof (cases "start < byte_len s \<and> \<not> is_char_boundary s start")
    case True
    then show ?thesis using 1 by (subst (1 2 3) ceil_boundary.simps) auto
  next
    case False
    then have "is_char_boundary s start" using 1(2) by (cases "start = byte_len s") auto
    with False 1(2) show ?thesis by (subst (1 2 3) ceil_boundary.simps) auto
  qed
qed

lemma from_end_le: "floor_char_boundary_from_end s n \<le> n"
  using ceil_boundary_ok [of "byte_len s - n" s] by (auto simp: floor_char_boundary_from_end_def)

lemma from_end_ok: "is_char_boundary s (byte_len s - floor_char_boundary_from_end s n)"
  using ceil_boundary_ok [of "byte_len s - n" s] by (auto simp: floor_char_boundary_from_end_def)

lemma from_end_le_len: "floor_char_boundary_from_end s n \<le> byte_len s"
  by (simp add: floor_char_boundary_from_end_def)

text \<open>A head and a tail that leave room between them cut the text in three.\<close>

lemma head_mid_tail:
  assumes "is_char_boundary s i" and "is_char_boundary s j" and "i \<le> j"
  shows "\<exists>mid. s = byte_take i s @ mid @ byte_drop j s \<and> byte_len mid = j - i"
proof -
  have "byte_take i s @ byte_drop i (byte_take j s) @ byte_drop j s = s"
    using byte_take_drop [of i "byte_take j s"] byte_take_drop [of j s] byte_take_take [OF assms(3)]
    by (metis append.assoc)
  moreover have "byte_len (byte_drop i (byte_take j s)) = j - i"
    using arg_cong [OF byte_take_drop [of i "byte_take j s"], of byte_len]
      byte_take_take [OF assms(3)] byte_len_take assms(1,2) by simp
  ultimately show ?thesis by metis
qed

lemma show_nat_ascii: "byte_len (show_nat n) = length (show_nat n)"
proof (induction n rule: show_nat.induct)
  case (1 n)
  have "(of_char (char_of (48 + k) :: char) :: nat) < 128" if "k < 10" for k :: nat
    using that by (simp add: of_char_of)
  then show ?case using 1 by (subst (1 2) show_nat.simps) (auto simp: utf8_len_def)
qed

lemma show_nat_mono: "a \<le> b \<Longrightarrow> length (show_nat a) \<le> length (show_nat b)"
proof (induction b arbitrary: a rule: show_nat.induct)
  case (1 b)
  show ?case
  proof (cases "a < 10")
    case True
    then show ?thesis
      by (subst (1 2) show_nat.simps) (auto simp: Suc_le_eq)
  next
    case False
    then have "length (show_nat (a div 10)) \<le> length (show_nat (b div 10))"
      using 1 by (auto intro: div_le_mono)
    with False 1(2) show ?thesis by (subst (1 2) show_nat.simps) auto
  qed
qed

lemma marker_mono: "a \<le> b \<Longrightarrow> byte_len (omission_marker a) \<le> byte_len (omission_marker b)"
  by (simp add: omission_marker_def show_nat_ascii show_nat_mono)

lemma sanitize_no_slash: "CHR 0x2F \<notin> set (sanitize_tool_name name)"
  by (auto simp: sanitize_tool_name_def is_ascii_alphanumeric_def)

lemma split_spill_rel:
  "CHR 0x2F \<notin> set f \<Longrightarrow> split_char (CHR 0x2F) (spill_dir @ ''/'' @ f) = [''.syscity'', ''spill'', f]"
  by (simp add: spill_dir_def split_char_absent)

section \<open>Properties\<close>

text \<open>A truncated text never exceeds its byte budget; a text that fits is returned unchanged, and
  one that does not is a prefix, or a prefix and a suffix around a marker that states the exact number
  of bytes left out.\<close>

theorem truncation_within_budget:
  "byte_len (head_tail_truncate text limit) \<le> limit \<and>
   (head_tail_truncate text limit = text \<or>
    (\<exists>r. text = head_tail_truncate text limit @ r) \<or>
    (\<exists>head mid tail. text = head @ mid @ tail \<and>
       head_tail_truncate text limit = head @ omission_marker (byte_len mid) @ tail))"
proof (cases "byte_len text \<le> limit \<or> limit \<le> byte_len (omission_marker (byte_len text)) + 2")
  case True
  have cut: "\<exists>r. text = byte_take (floor_char_boundary text limit) text @ r"
    by (metis byte_take_drop)
  have "byte_len (byte_take (floor_char_boundary text limit) text) \<le> limit"
    using byte_len_take_le floor_char_boundary_le order_trans by blast
  then show ?thesis using True cut by (auto simp: head_tail_truncate_def Let_def)
next
  case False
  define marker where "marker = byte_len (omission_marker (byte_len text))"
  define hd_len where "hd_len = floor_char_boundary text ((limit - marker) div 2)"
  define tl_len where "tl_len = floor_char_boundary_from_end text (limit - marker - hd_len)"
  let ?j = "byte_len text - tl_len"
  have hd_le: "hd_len \<le> (limit - marker) div 2" by (simp add: hd_len_def floor_char_boundary_le)
  have tl_le: "tl_len \<le> limit - marker - hd_len" by (simp add: tl_len_def from_end_le)
  have b: "is_char_boundary text hd_len" "is_char_boundary text ?j"
    by (simp_all add: hd_len_def tl_len_def floor_char_boundary_ok from_end_ok)
  have sum: "hd_len + tl_len + marker \<le> limit" "limit < byte_len text"
    using hd_le tl_le False by (auto simp: marker_def)
  have "hd_len \<le> ?j" using sum by linarith
  then obtain mid where mid: "text = byte_take hd_len text @ mid @ byte_drop ?j text" "byte_len mid = ?j - hd_len"
    using head_mid_tail [OF b] by blast
  have out: "head_tail_truncate text limit =
      byte_take hd_len text @ omission_marker (byte_len text - hd_len - tl_len) @ byte_drop ?j text"
    using False by (simp add: head_tail_truncate_def Let_def marker_def hd_len_def tl_len_def)
  have "byte_len (omission_marker (byte_len text - hd_len - tl_len)) \<le> marker"
    unfolding marker_def by (rule marker_mono) simp
  then have "byte_len (head_tail_truncate text limit) \<le> limit"
    using sum by (simp add: out byte_len_take [OF b(1)] byte_len_drop [OF b(2)])
  moreover have "byte_len text - hd_len - tl_len = byte_len mid" using mid(2) by simp
  ultimately show ?thesis using mid(1) out by metis
qed

text \<open>The replacement of a spilled output keeps a true head and a true tail of it around the
  notice, every slice on a character boundary, and stays within the budget whenever the notice alone
  does; when it does not, the replacement is exactly the notice and exceeds the budget.\<close>

theorem spill_replacement_bounded:
  assumes "spill_output True uuid8 root tool out budget = Some o'" and "budget \<le> byte_len out"
  shows "\<exists>head mid tail. out = head @ mid @ tail \<and>
    so_replacement o' = head @ spill_notice (byte_len out) (so_rel_path o') @ tail \<and>
    byte_len (so_replacement o') \<le> max budget (byte_len (spill_notice (byte_len out) (so_rel_path o'))) \<and>
    (budget \<le> byte_len (spill_notice (byte_len out) (so_rel_path o')) \<longrightarrow> head = [] \<and> tail = [])"
proof -
  define notice where "notice = spill_notice (byte_len out) (so_rel_path o')"
  define pb where "pb = budget - byte_len notice"
  define i where "i = floor_char_boundary out (pb * 3 div 5)"
  define t where "t = floor_char_boundary_from_end out (pb - i)"
  let ?j = "byte_len out - t"
  have rep: "so_replacement o' = byte_take i out @ notice @ byte_drop ?j out"
    using assms(1) by (auto simp: spill_output_def Let_def notice_def pb_def i_def t_def)
  have le: "i \<le> pb * 3 div 5" "t \<le> pb - i"
    by (simp_all add: i_def t_def floor_char_boundary_le from_end_le)
  have b: "is_char_boundary out i" "is_char_boundary out ?j"
    by (simp_all add: i_def t_def floor_char_boundary_ok from_end_ok)
  have sum: "i + t \<le> pb" "pb \<le> byte_len out" using le assms(2) by (auto simp: pb_def)
  have "i \<le> ?j" using sum by linarith
  then obtain mid where "out = byte_take i out @ mid @ byte_drop ?j out"
    using head_mid_tail [OF b] by blast
  moreover have "byte_len (so_replacement o') \<le> max budget (byte_len notice)"
    using sum by (auto simp: rep byte_len_take [OF b(1)] byte_len_drop [OF b(2)] pb_def)
  moreover have "byte_take i out = [] \<and> byte_drop ?j out = []" if "budget \<le> byte_len notice"
  proof -
    have "byte_len (byte_take i out) = 0" "byte_len (byte_drop ?j out) = 0"
      using that sum byte_len_take [OF b(1)] byte_len_drop [OF b(2)] by (auto simp: pb_def)
    moreover have "byte_len s = 0 \<Longrightarrow> s = []" for s by (cases s) auto
    ultimately show ?thesis by blast
  qed
  ultimately show ?thesis using rep unfolding notice_def by blast
qed

theorem spill_replacement_bounded_witness:
  "\<exists>o'. spill_output True ''0a1b2c3d'' ''/w'' ''shell'' ''abcd'' 3 = Some o' \<and>
     so_replacement o' = spill_notice (byte_len ''abcd'') (so_rel_path o')"
proof -
  obtain o' where o': "spill_output True ''0a1b2c3d'' ''/w'' ''shell'' ''abcd'' 3 = Some o'"
    by (simp add: spill_output_def Let_def)
  have small: "(3::nat) \<le> byte_len ''abcd''" by (simp add: utf8_len_def)
  have "(3::nat) \<le> byte_len (spill_notice n r)" for n r
    by (simp add: spill_notice_def newline_def utf8_len_def)
  then show ?thesis using spill_replacement_bounded [OF o' small] o' by fastforce
qed

text \<open>A spilled file lies directly in the workspace's spill directory whatever the tool is called,
  and a call that reads it back through the path of the notice is recognised, so that its output is
  not spilled again.\<close>

theorem spilled_file_confined_and_recognised:
  assumes "spill_output True uuid8 root tool out budget = Some o'"
    and "has_root root" and "CHR 0x2F \<notin> set uuid8"
  shows "path_components (so_path o') =
      path_components root @ [''.syscity'', ''spill'', uuid8 @ ''-'' @ sanitize_tool_name tool @ ''.log''] \<and>
    arg_targets_spilled_file root (JObject [(''path'', JString (so_rel_path o'))])"
proof -
  define f where "f = uuid8 @ ''-'' @ sanitize_tool_name tool @ ''.log''"
  have f: "CHR 0x2F \<notin> set f" "\<not> skip_comp f"
    using assms(3) sanitize_no_slash [of tool] by (auto simp: f_def skip_comp_def)
  then have f3: "\<not> has_root f" by (auto simp: has_root_Cons)
  have rel: "so_rel_path o' = spill_dir @ ''/'' @ f" and path: "so_path o' = path_join (path_join root spill_dir) f"
    using assms(1) by (auto simp: spill_output_def Let_def f_def)
  have nr: "\<not> has_root spill_dir" "\<not> has_root (spill_dir @ ''/'' @ f)"
    by (simp_all add: has_root_Cons spill_dir_def)
  have abs: "has_root (path_join root spill_dir)"
    using assms(2) by (auto simp: path_join_def has_root_Cons)
  have comps: "path_components (path_join root spill_dir) = path_components root @ [''.syscity'', ''spill'']"
    using assms(2) nr(1) by (simp add: path_components_join spill_dir_def skip_comp_def)
  have "path_components (so_path o') = path_components root @ [''.syscity'', ''spill'', f]"
    unfolding path path_components_join [OF abs f3] comps
    using f by (simp add: split_char_absent)
  moreover have "path_starts_with (path_join root (spill_dir @ ''/'' @ f)) (path_join root spill_dir)"
    unfolding path_starts_with_def path_components_join [OF assms(2) nr(2)] comps
    unfolding split_spill_rel [OF f(1)] by (simp add: skip_comp_def)
  ultimately show ?thesis
    using nr(2) unfolding f_def [symmetric]
    by (simp add: arg_targets_spilled_file_def path_fields_def get_str_def rel Let_def)
qed

theorem spilled_file_confined_and_recognised_witness:
  "path_components (so_path (the (spill_output True ''0a1b2c3d'' ''/w'' ''../x'' ''abcd'' 3))) =
     path_components ''/w'' @ [''.syscity'', ''spill'', ''0a1b2c3d'' @ ''-'' @ sanitize_tool_name ''../x'' @ ''.log''] \<and>
   arg_targets_spilled_file ''/w''
     (JObject [(''path'', JString (so_rel_path (the (spill_output True ''0a1b2c3d'' ''/w'' ''../x'' ''abcd'' 3))))])"
  by (rule spilled_file_confined_and_recognised [where out = "''abcd''" and budget = 3])
     (simp_all add: spill_output_def Let_def has_root_Cons)

end
