(* ===== verification/Tool_Gate.thy ===== *)
theory Tool_Gate
  imports Tool_Registry Tool_Spill
begin

text \<open>
  The tool registry (\<open>tools/registry.rs\<close>), execution half: the one policy gate (permission
  engine, hooks, approval fallback, guardian), the three execution paths that share it, and the
  finishing of a result (post-execute hooks, spill, content filter, audit).

  What an execution reads from outside is the record \<open>env\<close>: the machine, the clock, fresh
  identifiers, the hash of the cache key, the JSON parser, the person who answers an approval, and
  whether a spill file can be written. An answer reaches a waiter only through \<open>resolve\<close>, so
  the queue after an answered wait is the resolved one.
\<close>

section \<open>Environment\<close>

text \<open>The end of a run: a value, or the unwinding of a panic.\<close>

datatype 'a run = Returns 'a | Panics

datatype wait_outcome = Answered approval_decision | Channel_Closed | Wait_Timeout

record env =
  en_host :: host
  en_now :: int
  en_uuid :: "nat \<Rightarrow> string"
  en_hash :: "string \<Rightarrow> json \<Rightarrow> string"
  en_from_str :: "string \<Rightarrow> json option"
  en_first_value :: "string \<Rightarrow> (string + json) option"
  en_human :: "pending_approval \<Rightarrow> wait_outcome"
  en_spill_written :: bool

definition emit :: "effect list \<Rightarrow> registry \<Rightarrow> registry" where
  "emit es r = r\<lparr>rg_trace := rg_trace r @ es\<rparr>"

section \<open>What a call writes\<close>

definition naming_write_tools :: "string list" where
  "naming_write_tools = [''file_write'', ''file_edit'', ''apply_patch'']"

definition writes_a_named_file :: "string \<Rightarrow> json \<Rightarrow> string option" where
  "writes_a_named_file name args =
     (if name \<notin> set naming_write_tools then None else get_str ''path'' args)"

definition writes_into_skills_dir :: "host \<Rightarrow> string \<Rightarrow> json \<Rightarrow> tool_context \<Rightarrow> bool" where
  "writes_into_skills_dir h name args ctx =
     (if name \<notin> set naming_write_tools then False
      else case get_str ''path'' args of
          None \<Rightarrow> False
        | Some path \<Rightarrow> h_installed h \<and> path_starts_with (resolve_path h ctx path) (h_skills_dir h))"

section \<open>The gate\<close>

definition skills_write_reason :: string where
  "skills_write_reason =
     ''this writes into the skills directory, which loads in every future session''"

definition evaluate_permissions ::
  "env \<Rightarrow> registry \<Rightarrow> string \<Rightarrow> json \<Rightarrow> tool_context \<Rightarrow> engine_decision" where
  "evaluate_permissions e r name args ctx =
     (if rg_skills_write_approval r \<and> writes_into_skills_dir (en_host e) name args ctx
      then Engine_Ask skills_write_reason
      else let caps = get_capabilities r name
           in evaluate (rg_permissions r) name args (cx_conversation_id ctx)
                (tc_read_only caps) (tc_categories caps))"

definition needs_approval ::
  "env \<Rightarrow> string \<Rightarrow> json \<Rightarrow> risk_level \<Rightarrow> string \<Rightarrow> registry \<Rightarrow> tool_policy_decision \<times> registry" where
  "needs_approval e name args risk msg r =
     (NeedsApproval (''fallback-'' @ name @ ''-'' @ en_uuid e (rg_fresh r)) name args risk ''system'' msg,
      r\<lparr>rg_fresh := rg_fresh r + 1\<rparr>)"

definition approval_fallback ::
  "env \<Rightarrow> string \<Rightarrow> json \<Rightarrow> registry \<Rightarrow> tool_policy_decision \<times> registry" where
  "approval_fallback e name args r =
     needs_approval e name args (tc_risk_level (get_capabilities r name))
       (''Tool '' @ quoted name @ '' requires approval'') r"

definition force_ask ::
  "env \<Rightarrow> string \<Rightarrow> json \<Rightarrow> string \<Rightarrow> registry \<Rightarrow> tool_policy_decision \<times> registry" where
  "force_ask e name args reason r =
     needs_approval e name args (tc_risk_level (get_capabilities r name)) reason r"

definition no_human_reason :: "string \<Rightarrow> string" where
  "no_human_reason name =
     ''Tool '' @ quoted name @ '' requires approval and no human is present to grant it; ''
     @ ''pre-approve it with a [permissions].allow rule''"

text \<open>The decision before the guardian and the audit. The match is on the hook decision first, with
  the guard on a bypassed approval, then on the pair of hook and engine decision.\<close>

definition gate_decision ::
  "env \<Rightarrow> registry \<Rightarrow> string \<Rightarrow> json \<Rightarrow> tool_context \<Rightarrow> tool_policy_decision \<times> registry" where
  "gate_decision e r name args ctx =
     (let engine = evaluate_permissions e r name args ctx
      in case engine of
           Engine_Deny reason \<Rightarrow> (Policy_Deny reason, r)
         | _ \<Rightarrow>
           (case run_policy (active_hooks r) name args ctx of
              Policy_Deny reason \<Rightarrow> (Policy_Deny reason, r)
            | NeedsApproval i t a l b msg \<Rightarrow>
                (if engine = AllowNow
                    \<and> effective_mode (rg_permissions r) (cx_conversation_id ctx) = Bypass
                 then (Policy_Allow, r)
                 else (NeedsApproval i t a l b msg, r))
            | AllowByHook \<Rightarrow>
                (case engine of
                   Engine_Ask reason \<Rightarrow> force_ask e name args reason r
                 | _ \<Rightarrow> (Policy_Allow, r))
            | Policy_Allow \<Rightarrow>
                (case engine of
                   Engine_Ask reason \<Rightarrow> force_ask e name args reason r
                 | AllowNow \<Rightarrow> (Policy_Allow, r)
                 | PassThrough \<Rightarrow>
                     (if tc_requires_approval (get_capabilities r name) then
                        (if can_ask_a_human ctx then approval_fallback e name args r
                         else (Policy_Deny (no_human_reason name), r))
                      else (Policy_Allow, r))
                 | Engine_Deny reason \<Rightarrow> (Policy_Allow, r))))"

definition guardian_review ::
  "registry \<Rightarrow> string \<Rightarrow> json \<Rightarrow> tool_context \<Rightarrow> tool_policy_decision \<Rightarrow> tool_policy_decision" where
  "guardian_review r name args ctx decision =
     (case rg_guardian r of
        None \<Rightarrow> decision
      | Some g \<Rightarrow>
          (case decision of
             NeedsApproval i t a l b msg \<Rightarrow>
               (case gd_review g name args ctx of
                  Some v \<Rightarrow>
                    (if \<not> vd_allow v
                     then Policy_Deny (''Tool '' @ quoted name @ '' was refused by the guardian (''
                                       @ gd_label g @ ''): '' @ vd_reason v)
                     else NeedsApproval i t a l b
                            (msg @ '' [guardian '' @ gd_label g @ '': '' @ vd_reason v @ '']''))
                | None \<Rightarrow> decision)
           | _ \<Rightarrow> decision))"

definition audit_policy_decision ::
  "string \<Rightarrow> tool_context \<Rightarrow> tool_policy_decision \<Rightarrow> registry \<Rightarrow> registry" where
  "audit_policy_decision name ctx decision r =
     (if is_allow decision \<or> \<not> rg_audit_log r then r
      else case decision of
          Policy_Deny reason \<Rightarrow>
            emit [Ef_Audit Audit_Tool_Deny (cx_user_id ctx) name False
                    (''Tool '' @ quoted name @ '' deny by policy: '' @ reason)] r
        | NeedsApproval i t a l b msg \<Rightarrow>
            emit [Ef_Audit Audit_Tool_Deny (cx_user_id ctx) name False
                    (''Tool '' @ quoted name @ '' ask by policy: '' @ msg)] r
        | _ \<Rightarrow> r)"

definition run_gate ::
  "env \<Rightarrow> string \<Rightarrow> json \<Rightarrow> tool_context \<Rightarrow> registry \<Rightarrow> tool_policy_decision \<times> registry" where
  "run_gate e name args ctx r =
     (let (decision, r1) = gate_decision e r name args ctx;
          decision' = guardian_review r1 name args ctx decision
      in (decision', audit_policy_decision name ctx decision' r1))"

section \<open>Finishing a result\<close>

definition apply_post_execute :: "tool_result \<Rightarrow> post_execute_decision \<Rightarrow> tool_result" where
  "apply_post_execute result decision =
     (case decision of
        Accept \<Rightarrow> result
      | ReplaceOutput out \<Rightarrow> result\<lparr>tr_output := out\<rparr>
      | Block feedback \<Rightarrow>
          \<lparr>tr_success = False, tr_output = [], tr_error = Some feedback, tr_data = None,
           tr_execution_time = tr_execution_time result\<rparr>)"

definition audit_post_execute_block ::
  "string \<Rightarrow> tool_context \<Rightarrow> string \<Rightarrow> registry \<Rightarrow> registry" where
  "audit_post_execute_block name ctx feedback r =
     (if \<not> rg_audit_log r then r
      else emit [Ef_Audit Audit_Tool_Deny (cx_user_id ctx) name False
             (''Tool '' @ quoted name @ '' result blocked by post-execute policy: '' @ feedback)] r)"

text \<open>\<open>data["spill"] = meta\<close>: \<open>None\<close> is the panic of indexing a value that is neither
  an object nor null.\<close>

definition set_spill :: "json \<Rightarrow> json \<Rightarrow> json option" where
  "set_spill meta data =
     (case data of
        JObject fs \<Rightarrow> Some (JObject (AList.update ''spill'' meta fs))
      | JNull \<Rightarrow> Some (JObject [(''spill'', meta)])
      | _ \<Rightarrow> None)"

definition maybe_spill ::
  "env \<Rightarrow> string \<Rightarrow> json \<Rightarrow> tool_context \<Rightarrow> tool_result \<Rightarrow> registry \<Rightarrow> tool_result option \<times> registry" where
  "maybe_spill e name args ctx result r =
     (case rg_spill_threshold r of
        None \<Rightarrow> (Some result, r)
      | Some threshold \<Rightarrow>
          (if \<not> tr_success result \<or> byte_len (tr_output result) \<le> threshold then (Some result, r)
           else let root = workspace_root (en_host e) ctx
                in if arg_targets_spilled_file root args then (Some result, r)
                   else case spill_output (en_spill_written e) (en_uuid e (rg_fresh r)) root name
                               (tr_output result) threshold of
                       None \<Rightarrow> (Some result, r)
                     | Some sp \<Rightarrow>
                         (let meta = JObject [(''path'', JString (so_rel_path sp)),
                                              (''total_bytes'', JNumber (show_nat (so_total_bytes sp)))];
                              result' = result\<lparr>tr_output := so_replacement sp\<rparr>;
                              r' = r\<lparr>rg_fresh := rg_fresh r + 1\<rparr>
                          in case tr_data result of
                               None \<Rightarrow> (Some (result'\<lparr>tr_data := Some (JObject [(''spill'', meta)])\<rparr>), r')
                             | Some data \<Rightarrow>
                                 (map_option (\<lambda>d. result'\<lparr>tr_data := Some d\<rparr>) (set_spill meta data), r'))))"

text \<open>The first step of \<open>filter_and_audit\<close>: the audit of the invocation.\<close>

definition audit_invocation ::
  "string \<Rightarrow> tool_context \<Rightarrow> (syscity_error + tool_result) option \<Rightarrow> registry \<Rightarrow> registry" where
  "audit_invocation name ctx result r =
     (if rg_audit_log r
      then emit [Ef_Audit Audit_Tool_Invocation (cx_user_id ctx) name
                   (case result of Some (Inr _) \<Rightarrow> True | _ \<Rightarrow> False)
                   (''Tool '' @ quoted name @ '' executed'')] r
      else r)"

definition filter_and_audit ::
  "string \<Rightarrow> tool_context \<Rightarrow> (syscity_error + tool_result) option \<Rightarrow> registry
     \<Rightarrow> (syscity_error + tool_result) option \<times> registry" where
  "filter_and_audit name ctx result r =
     (let r1 = audit_invocation name ctx result r
      in case result of
           Some (Inr res) \<Rightarrow>
             (if (case get r1 name of Some t \<Rightarrow> tl_skip_content_filter t | None \<Rightarrow> False)
              then (Some (Inr res), r1)
              else case rg_content_filter r1 of
                  Some f \<Rightarrow>
                    (let outcome = f res;
                         r2 = (if rg_audit_log r1 \<and> fo_action outcome \<noteq> Pass
                               then emit [Ef_Audit Audit_Content_Filter (cx_user_id ctx) name
                                            (fo_action outcome \<noteq> Blocked) (fo_summary outcome)] r1
                               else r1)
                     in (Some (Inr
                          \<lparr>tr_success = (if fo_action outcome = Blocked then False else fo_success outcome),
                           tr_output = fo_output outcome,
                           tr_error = (if fo_action outcome = Blocked then Some (fo_summary outcome)
                                       else tr_error res),
                           tr_data = fo_data outcome,
                           tr_execution_time = tr_execution_time res\<rparr>), r2))
                | None \<Rightarrow> (Some (Inr res), r1))
         | other \<Rightarrow> (other, r1))"

text \<open>The three steps of \<open>finalize_result\<close>: the post-execute hooks, then the spill, then
  the filter and the audit.\<close>

definition post_execute_step ::
  "string \<Rightarrow> json \<Rightarrow> tool_context \<Rightarrow> (syscity_error + tool_result) option \<Rightarrow> registry
     \<Rightarrow> (syscity_error + tool_result) option \<times> registry" where
  "post_execute_step name args ctx result r =
     (case result of
        Some (Inr res) \<Rightarrow>
          (if has_post_execute_hooks (active_hooks r) then
             (let d = run_post_execute (active_hooks r) name args res ctx
              in (Some (Inr (apply_post_execute res d)),
                  (case d of Block feedback \<Rightarrow> audit_post_execute_block name ctx feedback r | _ \<Rightarrow> r)))
           else (result, r))
      | _ \<Rightarrow> (result, r))"

definition spill_step ::
  "env \<Rightarrow> string \<Rightarrow> json \<Rightarrow> tool_context \<Rightarrow> (syscity_error + tool_result) option \<Rightarrow> registry
     \<Rightarrow> (syscity_error + tool_result) option run \<times> registry" where
  "spill_step e name args ctx result r =
     (case result of
        Some (Inr res) \<Rightarrow>
          (case maybe_spill e name args ctx res r of
             (None, r') \<Rightarrow> (Panics, r')
           | (Some res', r') \<Rightarrow> (Returns (Some (Inr res')), r'))
      | _ \<Rightarrow> (Returns result, r))"

definition finalize_result ::
  "env \<Rightarrow> string \<Rightarrow> json \<Rightarrow> tool_context \<Rightarrow> (syscity_error + tool_result) option \<Rightarrow> registry
     \<Rightarrow> (syscity_error + tool_result) option run \<times> registry" where
  "finalize_result e name args ctx result r =
     (let (result1, r1) = post_execute_step name args ctx result r
      in case spill_step e name args ctx result1 r1 of
           (Panics, r2) \<Rightarrow> (Panics, r2)
         | (Returns result2, r2) \<Rightarrow>
             (let (result3, r3) = filter_and_audit name ctx result2 r2 in (Returns result3, r3)))"

section \<open>Execution paths\<close>

definition run_before :: "string \<Rightarrow> json \<Rightarrow> registry \<Rightarrow> registry" where
  "run_before name args r = emit (map (\<lambda>h. Ef_Before h name args) (th_before_call (active_hooks r))) r"

definition run_after :: "string \<Rightarrow> json \<Rightarrow> tool_result \<Rightarrow> registry \<Rightarrow> registry" where
  "run_after name args result r =
     emit (map (\<lambda>h. Ef_After h name args result) (th_after_call (active_hooks r))) r"

definition checkpoint_before_write ::
  "env \<Rightarrow> string \<Rightarrow> json \<Rightarrow> tool_context \<Rightarrow> registry \<Rightarrow> registry" where
  "checkpoint_before_write e name args ctx r =
     (if \<not> rg_checkpoints r then r
      else case writes_a_named_file name args of
          None \<Rightarrow> r
        | Some path \<Rightarrow>
            emit [Ef_Checkpoint (cx_conversation_id ctx) (resolve_path (en_host e) ctx path)] r)"

text \<open>The tool a call by name reaches: the static table first, then the dynamic one.\<close>

datatype lookup = Found tool | Refused | Unknown

definition look_up :: "registry \<Rightarrow> string \<Rightarrow> lookup" where
  "look_up r name =
     (case get r name of
        Some t \<Rightarrow> Found t
      | None \<Rightarrow>
          (case map_of (rg_dynamic_tools r) name of
             Some t \<Rightarrow> (if \<not> is_blocked r name \<and> \<not> is_degraded r name then Found t else Refused)
           | None \<Rightarrow> Unknown))"

definition blocked_error :: "string \<Rightarrow> syscity_error" where
  "blocked_error name = Validation (''Tool '' @ quoted name @ '' is blocked or degraded'')"

definition denied_error :: "string \<Rightarrow> string \<Rightarrow> syscity_error" where
  "denied_error name reason = Validation (''Tool '' @ quoted name @ '' denied: '' @ reason)"

text \<open>\<open>execute\<close> from the before-hooks on.\<close>

definition execute_body ::
  "env \<Rightarrow> string \<Rightarrow> json \<Rightarrow> tool_context \<Rightarrow> registry
     \<Rightarrow> (syscity_error + tool_result) option run \<times> registry" where
  "execute_body e name args ctx r =
     (let r1 = run_before name args r;
          key = cache_key (en_hash e) name args
      in case get_cached (en_now e) r1 key of
           Some cached \<Rightarrow>
             finalize_result e name args ctx (Some (Inr cached)) (run_after name args cached r1)
         | None \<Rightarrow>
             (let r2 = checkpoint_before_write e name args ctx r1;
                  (result, r3) =
                    (case look_up r2 name of
                       Found t \<Rightarrow>
                         (let out = tl_execute t args ctx;
                              r' = emit [Ef_Run name args] r2
                          in (Some out,
                              (case out of Inr res \<Rightarrow> store_cached (en_now e) key res r' | Inl _ \<Rightarrow> r')))
                     | Refused \<Rightarrow> (Some (Inl (blocked_error name)), r2)
                     | Unknown \<Rightarrow> (None, r2));
                  r4 = (case result of Some (Inr res) \<Rightarrow> run_after name args res r3 | _ \<Rightarrow> r3)
              in finalize_result e name args ctx result r4))"

definition no_queue_error :: syscity_error where
  "no_queue_error = Validation ''Tool requires approval but no approval queue configured''"

text \<open>The request a suspended call submits, from the gate's decision.\<close>

definition pending_for ::
  "env \<Rightarrow> tool_context \<Rightarrow> tool_policy_decision \<Rightarrow> registry \<Rightarrow> pending_approval" where
  "pending_for e ctx d r =
     with_response_tx (rg_fresh r)
       (with_session (Some (cx_conversation_id ctx))
         (with_message (na_message d) (with_risk_level (na_risk_level d)
           (new_approval (en_now e) (na_approval_id d) (na_tool_name d) (na_args d) (na_requested_by d)))))"

definition execute ::
  "env \<Rightarrow> string \<Rightarrow> json \<Rightarrow> tool_context \<Rightarrow> registry
     \<Rightarrow> (syscity_error + tool_result) option run \<times> registry" where
  "execute e name args ctx r =
     (let (decision, r1) = run_gate e name args ctx r
      in case decision of
           Policy_Allow \<Rightarrow> execute_body e name args ctx r1
         | AllowByHook \<Rightarrow> execute_body e name args ctx r1
         | Policy_Deny reason \<Rightarrow> (Returns (Some (Inl (denied_error name reason))), r1)
         | NeedsApproval i t a l b msg \<Rightarrow>
             (case rg_approval_queue r1 of
                None \<Rightarrow> (Returns (Some (Inl no_queue_error)), r1)
              | Some q \<Rightarrow>
                  (let pa = pending_for e ctx (NeedsApproval i t a l b msg) r1;
                       q1 = snd (submit pa q);
                       r2 = r1\<lparr>rg_approval_queue := Some q1, rg_fresh := rg_fresh r1 + 1\<rparr>
                   in case en_human e pa of
                        Answered Approve \<Rightarrow>
                          execute_body e name args ctx
                            (r2\<lparr>rg_approval_queue := Some (snd (resolve i Approve q1))\<rparr>)
                      | Answered (Deny_Approval reason) \<Rightarrow>
                          (Returns (Some (Inl (Validation
                             (''Tool '' @ quoted name @ '' denied by user: '' @ reason)))),
                           r2\<lparr>rg_approval_queue := Some (snd (resolve i (Deny_Approval reason) q1))\<rparr>)
                      | Channel_Closed \<Rightarrow>
                          (Returns (Some (Inl (Validation ''Approval channel closed''))), r2)
                      | Wait_Timeout \<Rightarrow>
                          (Returns (Some (Inl (Timeout name '' approval request timed out''))), r2))))"

definition parse_tool_args :: "env \<Rightarrow> string \<Rightarrow> string \<Rightarrow> syscity_error + json" where
  "parse_tool_args e raw name =
     (let s = trim raw
      in if s = [] then Inr (JObject [])
         else case en_from_str e s of
             Some v \<Rightarrow> Inr v
           | None \<Rightarrow> (case en_first_value e s of
               Some (Inr v) \<Rightarrow> Inr v
             | Some (Inl msg) \<Rightarrow> Inl (Validation (''Invalid arguments for tool '' @ name @ '': '' @ msg))
             | None \<Rightarrow> Inl (Validation (''Empty arguments for tool '' @ name))))"

definition unknown_error :: "registry \<Rightarrow> string \<Rightarrow> syscity_error" where
  "unknown_error r name =
     Validation (''Unknown tool: '' @ name @ ''. Available tools: '' @ join_with '', '' (list_tools r))"

definition or_error :: "syscity_error \<Rightarrow> (syscity_error + 'a) option run \<Rightarrow> (syscity_error + 'a) run" where
  "or_error err res = (case res of Panics \<Rightarrow> Panics | Returns None \<Rightarrow> Returns (Inl err) | Returns (Some x) \<Rightarrow> Returns x)"

definition execute_call ::
  "env \<Rightarrow> string \<Rightarrow> string \<Rightarrow> tool_context \<Rightarrow> registry \<Rightarrow> (syscity_error + tool_result) run \<times> registry" where
  "execute_call e name raw ctx r =
     (case parse_tool_args e raw name of
        Inl err \<Rightarrow> (Returns (Inl err), r)
      | Inr args \<Rightarrow>
          (let (decision, r1) = run_gate e name args ctx r;
               proceed =
                 (let r2 = checkpoint_before_write e name args ctx r1
                  in case look_up r2 name of
                       Found t \<Rightarrow>
                         (let r3 = emit [Ef_Run name args] r2
                          in if cx_timeout ctx < tl_elapsed t args ctx
                             then (Returns (Inl (Timeout name (uncertainty_note r2 name))), r3)
                             else let (res, r4) = finalize_result e name args ctx
                                        (Some (tl_execute t args ctx)) r3
                                  in (or_error (Validation (''Tool '' @ quoted name @ '' finalization failed'')) res, r4))
                     | _ \<Rightarrow> (Returns (Inl (unknown_error r2 name)), r2))
           in case decision of
                Policy_Allow \<Rightarrow> proceed
              | AllowByHook \<Rightarrow> proceed
              | Policy_Deny reason \<Rightarrow> (Returns (Inl (denied_error name reason)), r1)
              | NeedsApproval i t a l b msg \<Rightarrow>
                  (let (res, r2) = execute e name args ctx r1
                   in (or_error (Validation (''Tool '' @ quoted name
                                  @ '' was found but could not be executed'')) res, r2))))"

definition replay_chunks :: "(syscity_error + tool_result) option \<Rightarrow> chunk list" where
  "replay_chunks res =
     (case res of
        Some (Inr x) \<Rightarrow>
          (if tr_output x \<noteq> [] then [Output_Chunk (tr_output x)] else [])
          @ (case tr_error x of Some err \<Rightarrow> [Error_Chunk err] | None \<Rightarrow> [])
          @ (case tr_data x of Some d \<Rightarrow> [Data_Chunk d] | None \<Rightarrow> [])
      | Some (Inl (Validation m)) \<Rightarrow> [Error_Chunk m]
      | Some (Inl (Timeout n m)) \<Rightarrow> [Error_Chunk (n @ m)]
      | Some (Inl (Tool_Failed m)) \<Rightarrow> [Error_Chunk m]
      | None \<Rightarrow> [])"

definition finalize_stream_result ::
  "env \<Rightarrow> string \<Rightarrow> json \<Rightarrow> tool_context \<Rightarrow> tool_result \<Rightarrow> registry
     \<Rightarrow> (syscity_error + tool_result) option run \<times> registry" where
  "finalize_stream_result e name args ctx collected r =
     finalize_result e name args ctx (Some (Inr collected)) (run_after name args collected r)"

definition execute_call_streaming ::
  "env \<Rightarrow> string \<Rightarrow> string \<Rightarrow> tool_context \<Rightarrow> registry \<Rightarrow> (syscity_error + tool_result) run \<times> registry" where
  "execute_call_streaming e name raw ctx r =
     (case parse_tool_args e raw name of
        Inl err \<Rightarrow> (Returns (Inl err), r)
      | Inr args \<Rightarrow>
          (let (decision, r1) = run_gate e name args ctx r;
               proceed =
                 (let r2 = checkpoint_before_write e name args ctx (run_before name args r1)
                  in case look_up r2 name of
                       Found t \<Rightarrow>
                         (let (collected, chunks) = consume_stream (tl_stream t args ctx);
                              r3 = emit (Ef_Run name args # map Ef_Chunk chunks) r2;
                              (res, r4) = finalize_stream_result e name args ctx collected r3
                          in (or_error (Validation (''Tool '' @ quoted name @ '' finalization failed'')) res, r4))
                     | Refused \<Rightarrow> (Returns (Inl (blocked_error name)), r2)
                     | Unknown \<Rightarrow> (Returns (Inl (unknown_error r2 name)), r2))
           in case decision of
                Policy_Allow \<Rightarrow> proceed
              | AllowByHook \<Rightarrow> proceed
              | Policy_Deny reason \<Rightarrow> (Returns (Inl (denied_error name reason)), r1)
              | NeedsApproval i t a l b msg \<Rightarrow>
                  (case execute e name args ctx r1 of
                     (Panics, r2) \<Rightarrow> (Panics, r2)
                   | (Returns res, r2) \<Rightarrow>
                       (or_error (Validation (''Tool '' @ quoted name @ '' was found but could not be executed''))
                          (Returns res), emit (map Ef_Chunk (replay_chunks res)) r2))))"

section \<open>Quiet steps\<close>

text \<open>A step is quiet when it runs no tool body and changes nothing but the trace and the counter.\<close>

fun is_run :: "effect \<Rightarrow> bool" where
  "is_run (Ef_Run _ _) = True"
| "is_run _ = False"

definition run_effects :: "registry \<Rightarrow> effect list" where
  "run_effects r = filter is_run (rg_trace r)"

definition quiet :: "registry \<Rightarrow> registry \<Rightarrow> bool" where
  "quiet r r' \<longleftrightarrow> (\<exists>n es. r' = r\<lparr>rg_fresh := n, rg_trace := rg_trace r @ es\<rparr> \<and> filter is_run es = [])"

named_theorems quiet_intros \<open>steps that run no tool body\<close>

lemma quiet_refl [simp, quiet_intros]: "quiet r r"
  unfolding quiet_def by (intro exI [where x = "rg_fresh r"] exI [where x = "[]"]) (cases r; simp)

lemma quiet_trans: "quiet a b \<Longrightarrow> quiet b c \<Longrightarrow> quiet a c"
  unfolding quiet_def by clarsimp (metis append.assoc filter.simps(1) filter_append append_Nil2)

lemma quiet_fresh [quiet_intros]: "quiet r (r\<lparr>rg_fresh := n\<rparr>)"
  unfolding quiet_def by (intro exI [where x = n] exI [where x = "[]"]) (cases r; simp)

lemma quiet_emit [quiet_intros]: "filter is_run es = [] \<Longrightarrow> quiet r (emit es r)"
  unfolding quiet_def emit_def by (intro exI [where x = "rg_fresh r"] exI [where x = es]) (cases r; simp)

lemma run_effects_quiet: "quiet r r' \<Longrightarrow> run_effects r' = run_effects r"
  by (auto simp: quiet_def run_effects_def)

lemma quiet_fields:
  assumes "quiet r r'"
  shows "rg_permissions r' = rg_permissions r" "active_hooks r' = active_hooks r"
    "get_capabilities r' = get_capabilities r" "rg_guardian r' = rg_guardian r"
    "rg_approval_queue r' = rg_approval_queue r" "rg_skills_write_approval r' = rg_skills_write_approval r"
    "rg_audit_log r' = rg_audit_log r" "rg_content_filter r' = rg_content_filter r"
    "rg_spill_threshold r' = rg_spill_threshold r" "get r' = get r"
  using assms
  by (auto simp: quiet_def active_hooks_def get_capabilities_def get_def is_blocked_def is_degraded_def
      failure_count_def fun_eq_iff split: option.split)

lemma quiet_gate_decision [quiet_intros]: "quiet r (snd (gate_decision e r name args ctx))"
  by (simp add: gate_decision_def Let_def force_ask_def approval_fallback_def needs_approval_def
      quiet_fresh split: engine_decision.split tool_policy_decision.split)

lemma quiet_audit_policy [quiet_intros]: "quiet r (audit_policy_decision name ctx d r)"
  by (simp add: audit_policy_decision_def quiet_emit split: tool_policy_decision.split)

lemma quiet_run_gate [quiet_intros]: "quiet r (snd (run_gate e name args ctx r))"
  unfolding run_gate_def Let_def case_prod_beta snd_conv
  using quiet_trans [OF quiet_gate_decision quiet_audit_policy] .

lemma quiet_run_before [quiet_intros]: "quiet r (run_before name args r)"
  unfolding run_before_def by (rule quiet_emit) (simp add: filter_empty_conv)

lemma quiet_run_after [quiet_intros]: "quiet r (run_after name args res r)"
  unfolding run_after_def by (rule quiet_emit) (simp add: filter_empty_conv)

lemma quiet_checkpoint [quiet_intros]: "quiet r (checkpoint_before_write e name args ctx r)"
  by (simp add: checkpoint_before_write_def quiet_emit split: option.split)

lemma quiet_maybe_spill [quiet_intros]: "quiet r (snd (maybe_spill e name args ctx res r))"
  by (simp add: maybe_spill_def Let_def quiet_fresh split: option.split)

lemma quiet_audit_invocation [quiet_intros]: "quiet r (audit_invocation name ctx res r)"
  by (simp add: audit_invocation_def quiet_emit)

lemma quiet_filter [quiet_intros]: "quiet r (snd (filter_and_audit name ctx res r))"
proof -
  have "quiet (audit_invocation name ctx res r) (snd (filter_and_audit name ctx res r))"
    by (simp add: filter_and_audit_def Let_def quiet_emit split: option.split sum.split)
  then show ?thesis using quiet_audit_invocation quiet_trans by blast
qed

lemma quiet_audit_block [quiet_intros]: "quiet r (audit_post_execute_block name ctx f r)"
  by (simp add: audit_post_execute_block_def quiet_emit)

lemma quiet_post_execute [quiet_intros]: "quiet r (snd (post_execute_step name args ctx res r))"
  by (simp add: post_execute_step_def Let_def quiet_audit_block
      split: option.split sum.split post_execute_decision.split)

lemma quiet_spill_step [quiet_intros]: "quiet r (snd (spill_step e name args ctx res r))"
proof -
  have "quiet r r'" if "maybe_spill e name args ctx x r = (y, r')" for x y r'
    using quiet_maybe_spill that by (metis snd_conv)
  then show ?thesis by (auto simp: spill_step_def split: option.split sum.split prod.split)
qed

lemma quiet_finalize [quiet_intros]: "quiet r (snd (finalize_result e name args ctx res r))"
proof -
  obtain res1 r1 where p: "post_execute_step name args ctx res r = (res1, r1)" by force
  obtain res2 r2 where s: "spill_step e name args ctx res1 r1 = (res2, r2)" by force
  have "quiet r r1" "quiet r1 r2"
    using quiet_post_execute quiet_spill_step p s by (metis snd_conv)+
  then have "quiet r r2" by (rule quiet_trans)
  then show ?thesis
    using quiet_trans [OF _ quiet_filter]
    by (cases res2) (auto simp: finalize_result_def p s Let_def case_prod_beta)
qed

section \<open>Authorisation\<close>

text \<open>What authorises a body to run: the gate allows the call, or it asks, an approval queue is there,
  and the person asked approves the very request that was submitted.\<close>

definition authorised :: "env \<Rightarrow> string \<Rightarrow> json \<Rightarrow> tool_context \<Rightarrow> registry \<Rightarrow> bool" where
  "authorised e name args ctx r =
     (let (d, r1) = run_gate e name args ctx r
      in is_allow d \<or> (is_needs_approval d \<and> rg_approval_queue r1 \<noteq> None \<and>
                       en_human e (pending_for e ctx d r1) = Answered Approve))"

text \<open>A call of a model: the gate runs before the arguments reach \<open>execute\<close>, which runs it
  again when it asks.\<close>

definition authorised_call :: "env \<Rightarrow> string \<Rightarrow> string \<Rightarrow> tool_context \<Rightarrow> registry \<Rightarrow> bool" where
  "authorised_call e name raw ctx r =
     (case parse_tool_args e raw name of
        Inl _ \<Rightarrow> False
      | Inr args \<Rightarrow>
          (let (d, r1) = run_gate e name args ctx r
           in is_allow d \<or> (is_needs_approval d \<and> authorised e name args ctx r1)))"

lemma execute_unauthorised:
  assumes "\<not> authorised e name args ctx r"
  shows "run_effects (snd (execute e name args ctx r)) = run_effects r"
proof -
  obtain d r1 where g: "run_gate e name args ctx r = (d, r1)" by force
  have q: "run_effects r1 = run_effects r"
    using run_effects_quiet [OF quiet_run_gate] g by (metis snd_conv)
  show ?thesis
    using assms q
    by (cases d) (auto simp: execute_def authorised_def g Let_def run_effects_def
        split: option.split wait_outcome.split approval_decision.split)
qed

lemma execute_call_unauthorised:
  assumes "\<not> authorised_call e name raw ctx r"
  shows "run_effects (snd (execute_call e name raw ctx r)) = run_effects r"
proof (cases "parse_tool_args e raw name")
  case (Inr args)
  obtain d r1 where g: "run_gate e name args ctx r = (d, r1)" by force
  have q: "run_effects r1 = run_effects r"
    using run_effects_quiet [OF quiet_run_gate] g by (metis snd_conv)
  show ?thesis
    using assms q execute_unauthorised [of e name args ctx r1]
    by (cases d) (auto simp: execute_call_def authorised_call_def Inr g Let_def case_prod_beta)
qed (simp add: execute_call_def)

lemma run_effects_chunks: "run_effects (emit (map Ef_Chunk cs) r) = run_effects r"
  by (rule run_effects_quiet) (simp add: quiet_emit filter_empty_conv)

lemma execute_call_streaming_unauthorised:
  assumes "\<not> authorised_call e name raw ctx r"
  shows "run_effects (snd (execute_call_streaming e name raw ctx r)) = run_effects r"
proof (cases "parse_tool_args e raw name")
  case (Inr args)
  obtain d r1 where g: "run_gate e name args ctx r = (d, r1)" by force
  have q: "run_effects r1 = run_effects r"
    using run_effects_quiet [OF quiet_run_gate] g by (metis snd_conv)
  show ?thesis
    using assms q execute_unauthorised [of e name args ctx r1]
    by (cases d) (auto simp: execute_call_streaming_def authorised_call_def Inr g Let_def
        run_effects_chunks split: prod.split run.split)
qed (simp add: execute_call_streaming_def)

text \<open>An interface for everything that runs calls behind a gate: a step that has an effect was
  authorised. Sessions are sequences of steps.\<close>

locale guarded_runner =
  fixes step :: "'c \<Rightarrow> 's \<Rightarrow> 's"
    and auth :: "'c \<Rightarrow> 's \<Rightarrow> bool"
    and effects :: "'s \<Rightarrow> 'e list"
  assumes effect_needs_auth: "effects (step c s) \<noteq> effects s \<Longrightarrow> auth c s"
begin

lemma session_effect_authorised:
  "effects (fold step cs s) \<noteq> effects s \<Longrightarrow>
   \<exists>pre c post. cs = pre @ c # post \<and> auth c (fold step pre s)"
proof (induction cs arbitrary: s)
  case (Cons c cs)
  show ?case
  proof (cases "auth c s")
    case True
    then have "c # cs = [] @ c # cs \<and> auth c (fold step [] s)" by simp
    then show ?thesis by blast
  next
    case False
    then have "effects (step c s) = effects s" using effect_needs_auth by blast
    then have "effects (fold step cs (step c s)) \<noteq> effects (step c s)" using Cons.prems by simp
    then obtain pre d post where "cs = pre @ d # post" "auth d (fold step pre (step c s))"
      using Cons.IH by blast
    then have "c # cs = (c # pre) @ d # post \<and> auth d (fold step (c # pre) s)" by simp
    then show ?thesis by blast
  qed
qed simp

end

text \<open>The three entry points as one step function.\<close>

datatype tool_request =
    Direct env string json tool_context
  | Buffered env string string tool_context
  | Streamed env string string tool_context

fun serve :: "tool_request \<Rightarrow> registry \<Rightarrow> registry" where
  "serve (Direct e name args ctx) r = snd (execute e name args ctx r)"
| "serve (Buffered e name raw ctx) r = snd (execute_call e name raw ctx r)"
| "serve (Streamed e name raw ctx) r = snd (execute_call_streaming e name raw ctx r)"

fun request_authorised :: "tool_request \<Rightarrow> registry \<Rightarrow> bool" where
  "request_authorised (Direct e name args ctx) r = authorised e name args ctx r"
| "request_authorised (Buffered e name raw ctx) r = authorised_call e name raw ctx r"
| "request_authorised (Streamed e name raw ctx) r = authorised_call e name raw ctx r"

lemma serve_unauthorised:
  "\<not> request_authorised q r \<Longrightarrow> run_effects (serve q r) = run_effects r"
  using execute_unauthorised execute_call_unauthorised execute_call_streaming_unauthorised
  by (cases q) simp_all

interpretation session: guarded_runner serve request_authorised run_effects
  using serve_unauthorised by unfold_locales blast

section \<open>Laws of the gate\<close>

lemma is_allow_guardian: "is_allow (guardian_review r name args ctx d) = is_allow d"
  by (cases d) (auto simp: guardian_review_def split: option.split)

lemma is_deny_guardian: "is_deny d \<Longrightarrow> guardian_review r name args ctx d = d"
  by (cases d) (auto simp: guardian_review_def split: option.split)

lemma run_gate_fst:
  "fst (run_gate e name args ctx r) =
     guardian_review (snd (gate_decision e r name args ctx)) name args ctx (fst (gate_decision e r name args ctx))"
  by (simp add: run_gate_def Let_def case_prod_beta)

lemma gate_allow_iff:
  "is_allow (fst (gate_decision e r name args ctx)) \<longleftrightarrow>
     (let engine = evaluate_permissions e r name args ctx;
          hook = run_policy (active_hooks r) name args ctx
      in (hook = Policy_Allow \<and> (engine = AllowNow \<or>
            (engine = PassThrough \<and> \<not> tc_requires_approval (get_capabilities r name)))) \<or>
         (hook = AllowByHook \<and> engine \<in> {AllowNow, PassThrough}) \<or>
         (is_needs_approval hook \<and> engine = AllowNow \<and>
            effective_mode (rg_permissions r) (cx_conversation_id ctx) = Bypass))"
  by (cases "evaluate_permissions e r name args ctx"; cases "run_policy (active_hooks r) name args ctx")
     (simp_all add: gate_decision_def Let_def force_ask_def approval_fallback_def needs_approval_def)

lemma denied_gate:
  assumes "fst (gate_decision e r name args ctx) = Policy_Deny reason"
  shows "fst (run_gate e name args ctx r) = Policy_Deny reason"
  using assms by (simp add: run_gate_fst is_deny_guardian)

text \<open>A denied gate stops each path at once.\<close>

definition stopped :: "env \<Rightarrow> string \<Rightarrow> string \<Rightarrow> json \<Rightarrow> tool_context \<Rightarrow> registry \<Rightarrow> string \<Rightarrow> bool" where
  "stopped e name raw args ctx r reason \<longleftrightarrow>
     fst (execute e name args ctx r) = Returns (Some (Inl (denied_error name reason))) \<and>
     fst (execute_call e name raw ctx r) = Returns (Inl (denied_error name reason)) \<and>
     fst (execute_call_streaming e name raw ctx r) = Returns (Inl (denied_error name reason)) \<and>
     run_effects (snd (execute e name args ctx r)) = run_effects r \<and>
     run_effects (snd (execute_call e name raw ctx r)) = run_effects r \<and>
     run_effects (snd (execute_call_streaming e name raw ctx r)) = run_effects r"

lemma denied_gate_stops:
  assumes "fst (gate_decision e r name args ctx) = Policy_Deny reason"
    and "parse_tool_args e raw name = Inr args"
  shows "stopped e name raw args ctx r reason"
proof -
  obtain r1 where g: "run_gate e name args ctx r = (Policy_Deny reason, r1)"
    using denied_gate [OF assms(1)] by (metis prod.collapse)
  then have q: "run_effects r1 = run_effects r"
    using run_effects_quiet [OF quiet_run_gate] by (metis snd_conv)
  show ?thesis
    using q assms(2) by (simp add: stopped_def execute_def execute_call_def execute_call_streaming_def g)
qed

section \<open>Properties\<close>

text \<open>C1. No tool body runs without authority: over any session of direct, buffered and streamed calls,
  whatever the hooks, the guardian, the cache and the tools do, a tool body runs only when some call
  was allowed by the gate, or was put to a person who approved the request submitted for it.\<close>

theorem no_tool_runs_unauthorised:
  assumes "run_effects (fold serve requests r) \<noteq> run_effects r"
  shows "\<exists>before q after. requests = before @ q # after \<and> request_authorised q (fold serve before r)"
  using assms by (rule session.session_effect_authorised)

definition sample_env :: env where
  "sample_env = \<lparr>en_host = sample_host, en_now = 10, en_uuid = (\<lambda>_. ''0a1b2c3d''),
     en_hash = (\<lambda>_ _. ''1''), en_from_str = (\<lambda>_. None), en_first_value = (\<lambda>_. None),
     en_human = (\<lambda>_. Answered Approve), en_spill_written = True\<rparr>"

definition sample_registry :: registry where
  "sample_registry =
     \<lparr>rg_tools = [(''shell'', sample_tool ''shell'' True)], rg_dynamic_tools = [], rg_blocked_prefixes = {},
      rg_cache = [], rg_cache_ttl = None, rg_cache_enabled = False, rg_failure_counts = [],
      rg_privileged_tools = {}, rg_hooks = no_hooks, rg_hooks_override = None,
      rg_approval_queue = Some new_queue, rg_skills_write_approval = True,
      rg_permissions = sample_snapshot, rg_guardian = None, rg_content_filter = None,
      rg_checkpoints = False, rg_audit_log = True, rg_spill_threshold = Some 4, rg_metadata = [],
      rg_tiering = new_tiering, rg_trace = [], rg_fresh = 0\<rparr>"

lemma sample_ran:
  "run_effects (fold serve [Direct sample_env ''shell'' (shell_call ''make'') sample_ctx] sample_registry)
     = [Ef_Run ''shell'' (shell_call ''make'')]"
  by code_simp

theorem no_tool_runs_unauthorised_witness:
  "\<exists>before q after. [Direct sample_env ''shell'' (shell_call ''make'') sample_ctx] = before @ q # after \<and>
     request_authorised q (fold serve before sample_registry)"
proof (rule no_tool_runs_unauthorised)
  have "run_effects sample_registry = []" by code_simp
  then show "run_effects (fold serve [Direct sample_env ''shell'' (shell_call ''make'') sample_ctx] sample_registry)
      \<noteq> run_effects sample_registry"
    using sample_ran by simp
qed


definition sample_parsing :: "json \<Rightarrow> env" where
  "sample_parsing v = sample_env\<lparr>en_from_str := (\<lambda>_. Some v)\<rparr>"





text \<open>A confiscated result leaks nothing: when the post-execute hooks block two results with the
  same feedback, what the caller gets back and the trace it leaves are the same for both, whatever
  their output, error, data and success were.\<close>

theorem blocked_result_reveals_nothing:
  assumes "has_post_execute_hooks (active_hooks r)"
    and "run_post_execute (active_hooks r) name args x ctx = Block feedback"
    and "run_post_execute (active_hooks r) name args y ctx = Block feedback"
    and "tr_execution_time x = tr_execution_time y"
  shows "finalize_result e name args ctx (Some (Inr x)) r = finalize_result e name args ctx (Some (Inr y)) r"
proof -
  have "post_execute_step name args ctx (Some (Inr x)) r = post_execute_step name args ctx (Some (Inr y)) r"
    using assms by (simp add: post_execute_step_def apply_post_execute_def)
  then show ?thesis by (simp add: finalize_result_def)
qed

theorem blocked_result_reveals_nothing_witness:
  "finalize_result sample_env ''shell'' JNull sample_ctx (Some (Inr (result_success ''secret'')))
     (set_hooks (add_post_execute (\<lambda>n a r c d. Some (Block ''no'')) no_hooks) sample_registry)
   = finalize_result sample_env ''shell'' JNull sample_ctx (Some (Inr (result_error ''other'')))
     (set_hooks (add_post_execute (\<lambda>n a r c d. Some (Block ''no'')) no_hooks) sample_registry)"
  by (rule blocked_result_reveals_nothing [where feedback = "''no''"]) code_simp+

text \<open>Filtering leaves the error text alone: unless the filter blocks a result outright, the error
  field reaches the caller exactly as the tool wrote it, also when the filter redacted the output.\<close>

theorem error_text_passes_unfiltered:
  assumes "rg_content_filter r = Some f" and "get r name = None \<or> (\<exists>t. get r name = Some t \<and> \<not> tl_skip_content_filter t)"
    and "fo_action (f x) \<noteq> Blocked"
  shows "\<exists>y. fst (filter_and_audit name ctx (Some (Inr x)) r) = Some (Inr y) \<and>
    tr_output y = fo_output (f x) \<and> tr_error y = tr_error x"
proof -
  have q: "quiet r (audit_invocation name ctx (Some (Inr x)) r)" by (rule quiet_audit_invocation)
  show ?thesis
    using assms by (auto simp: filter_and_audit_def Let_def quiet_fields [OF q])
qed

definition sample_filter :: "tool_result \<Rightarrow> filter_outcome" where
  "sample_filter x = \<lparr>fo_output = ''[redacted]'', fo_data = None, fo_success = tr_success x,
     fo_action = Redacted, fo_summary = ''1 secret''\<rparr>"

theorem error_text_passes_unfiltered_witness:
  "\<exists>y. fst (filter_and_audit ''shell'' sample_ctx
        (Some (Inr ((result_error ''sk-secret'')\<lparr>tr_output := ''sk-secret''\<rparr>)))
        (sample_registry\<lparr>rg_content_filter := Some sample_filter\<rparr>)) = Some (Inr y) \<and>
     tr_output y = fo_output (sample_filter ((result_error ''sk-secret'')\<lparr>tr_output := ''sk-secret''\<rparr>)) \<and>
     tr_error y = tr_error ((result_error ''sk-secret'')\<lparr>tr_output := ''sk-secret''\<rparr>)"
proof (rule error_text_passes_unfiltered)
  show "get (sample_registry\<lparr>rg_content_filter := Some sample_filter\<rparr>) ''shell'' = None \<or>
    (\<exists>t. get (sample_registry\<lparr>rg_content_filter := Some sample_filter\<rparr>) ''shell'' = Some t \<and>
         \<not> tl_skip_content_filter t)"
    by (simp add: get_def sample_registry_def sample_tool_def is_blocked_def is_degraded_def
        failure_count_def circuit_breaker_threshold_def)
qed (simp_all add: sample_filter_def)

text \<open>The skills approval masks deny rules: a write into the skills directory that a deny rule
  forbids is put to the person like any other, and runs when they approve.\<close>

theorem skills_approval_masks_deny:
  assumes "rg_skills_write_approval r" and "writes_into_skills_dir (en_host e) name args ctx"
    and "run_policy (active_hooks r) name args ctx = Policy_Allow" and "rg_guardian r = None"
    and "rg_approval_queue r \<noteq> None" and "\<forall>pa. en_human e pa = Answered Approve"
  shows "authorised e name args ctx (r\<lparr>rg_permissions := (rg_permissions r)\<lparr>sn_deny := rules\<rparr>\<rparr>)"
proof -
  let ?r = "r\<lparr>rg_permissions := (rg_permissions r)\<lparr>sn_deny := rules\<rparr>\<rparr>"
  obtain d r1 where g: "run_gate e name args ctx ?r = (d, r1)" by force
  have q: "quiet ?r r1" using quiet_run_gate g by (metis snd_conv)
  have hooks: "active_hooks ?r = active_hooks r" by (simp add: active_hooks_def split: option.split)
  have engine: "evaluate_permissions e ?r name args ctx = Engine_Ask skills_write_reason"
    using assms(1,2) by (simp add: evaluate_permissions_def)
  have gate: "fst (gate_decision e ?r name args ctx) =
      fst (force_ask e name args skills_write_reason ?r)"
    unfolding gate_decision_def Let_def engine hooks assms(3) by simp
  have quiet_gate: "rg_guardian (snd (gate_decision e ?r name args ctx)) = None"
    using quiet_fields(4) [OF quiet_gate_decision [of ?r e name args ctx]] assms(4) by simp
  have "d = fst (run_gate e name args ctx ?r)" by (simp add: g)
  also have "\<dots> = fst (force_ask e name args skills_write_reason ?r)"
    by (simp add: run_gate_fst gate guardian_review_def quiet_gate)
  finally have "is_needs_approval d" by (simp add: force_ask_def needs_approval_def)
  moreover have "rg_approval_queue r1 \<noteq> None" using quiet_fields(5) [OF q] assms(5) by simp
  ultimately show ?thesis using assms(6) by (simp add: authorised_def g)
qed

definition skill_write :: json where
  "skill_write = JObject [(''path'', JString ''/data/skills/x/SKILL.md'')]"

theorem skills_approval_masks_deny_witness:
  "authorised sample_env ''file_write'' skill_write sample_ctx
     (sample_registry\<lparr>rg_permissions := (rg_permissions sample_registry)\<lparr>sn_deny := [''file_write'']\<rparr>\<rparr>)"
proof (rule skills_approval_masks_deny)
  show "\<forall>pa. en_human sample_env pa = Answered Approve" by (simp add: sample_env_def)
qed code_simp+

text \<open>A disabled bypass still waives a hook's approval request: when bypass is switched off but
  selected, and an allow rule pre-approves the call, the approval a hook demands is dropped.\<close>

theorem disabled_bypass_waives_hook_approval:
  assumes "effective_mode (rg_permissions r) (cx_conversation_id ctx) = Bypass"
    and "\<not> sn_allow_bypass (rg_permissions r)"
    and "evaluate_permissions e r name args ctx = AllowNow"
    and "is_needs_approval (run_policy (active_hooks r) name args ctx)"
  shows "is_allow (fst (run_gate e name args ctx r))"
  unfolding run_gate_fst is_allow_guardian gate_allow_iff using assms by simp

theorem disabled_bypass_waives_hook_approval_witness:
  "is_allow (fst (run_gate sample_env ''shell'' (shell_call ''npm test'') sample_ctx
     (set_hooks (add_policy (\<lambda>n a c. NeedsApproval ''h1'' n a High ''hook'' ''ask'') no_hooks)
       (sample_registry\<lparr>rg_permissions := set_session_mode ''c1'' (Some Bypass) sample_snapshot\<rparr>))))"
  by (rule disabled_bypass_waives_hook_approval) code_simp+

text \<open>The skills approval is lexical: a write that reaches the skills directory through a parent
  step of the workspace is not recognised as one, for every continuation of the path, as long as the
  workspace does not lie inside the skills directory and that directory is spelled without parent
  steps.\<close>

theorem skills_approval_evaded_by_parent_steps:
  assumes "has_root (workspace_root h ctx)"
    and "\<not> path_starts_with (workspace_root h ctx) (h_skills_dir h)"
    and "''..'' \<notin> set (path_components (h_skills_dir h))"
  shows "\<not> writes_into_skills_dir h name (JObject [(''path'', JString (''../'' @ p))]) ctx"
proof -
  let ?root = "path_components (workspace_root h ctx)" and ?skills = "path_components (h_skills_dir h)"
  have nr: "\<not> has_root (''../'' @ p)" by (simp add: has_root_def starts_with_def)
  have res: "resolve_path h ctx (''../'' @ p) = path_join (workspace_root h ctx) (''../'' @ p)"
    using nr by (simp add: resolve_path_def starts_with_def)
  have "split_char (CHR 0x2F) (''../'' @ p) = ''..'' # split_char (CHR 0x2F) p"
    using split_char_sep [of "CHR 0x2F" "''..''" p] by simp
  then have "filter (\<lambda>c. \<not> skip_comp c) (split_char (CHR 0x2F) (''../'' @ p)) =
      ''..'' # filter (\<lambda>c. \<not> skip_comp c) (split_char (CHR 0x2F) p)"
    by (simp add: skip_comp_def)
  then obtain rest where comps: "path_components (path_join (workspace_root h ctx) (''../'' @ p)) = ?root @ ''..'' # rest"
    unfolding path_components_join [OF assms(1) nr] by blast
  have "\<not> path_starts_with (path_join (workspace_root h ctx) (''../'' @ p)) (h_skills_dir h)"
  proof
    assume "path_starts_with (path_join (workspace_root h ctx) (''../'' @ p)) (h_skills_dir h)"
    then have pre: "take (length ?skills) (?root @ ''..'' # rest) = ?skills"
      unfolding path_starts_with_def comps .
    show False
    proof (cases "length ?skills \<le> length ?root")
      case True
      then show False using pre assms(2) by (simp add: path_starts_with_def)
    next
      case False
      then obtain k where "length ?skills - length ?root = Suc k"
        by (metis Suc_diff_Suc not_le_imp_less)
      then have "''..'' \<in> set (take (length ?skills) (?root @ ''..'' # rest))" by simp
      then show False unfolding pre using assms(3) by blast
    qed
  qed
  then show ?thesis unfolding writes_into_skills_dir_def get_str_def res [symmetric] by simp
qed

theorem skills_approval_evaded_by_parent_steps_witness:
  "\<not> writes_into_skills_dir sample_host ''file_write''
      (JObject [(''path'', JString (''../'' @ ''data/skills/x/SKILL.md''))]) sample_ctx"
  by (rule skills_approval_evaded_by_parent_steps) code_simp+

text \<open>Spilling can turn a successful call into a panic: an oversized output that comes with
  structured data which is a list makes the attachment of the spill note index a list by name.\<close>

theorem spill_panics_on_list_data:
  assumes "rg_spill_threshold r = Some threshold" and "threshold < byte_len (tr_output x)"
    and "tr_success x" and "tr_data x = Some (JArray vs)" and "en_spill_written e"
    and "\<not> arg_targets_spilled_file (workspace_root (en_host e) ctx) args"
    and "\<not> has_post_execute_hooks (active_hooks r)"
  shows "fst (finalize_result e name args ctx (Some (Inr x)) r) = Panics"
  using assms
  by (simp add: finalize_result_def post_execute_step_def spill_step_def maybe_spill_def spill_output_def
      set_spill_def Let_def)

theorem spill_panics_on_list_data_witness:
  "fst (finalize_result sample_env ''grep'' JNull sample_ctx
     (Some (Inr ((result_success ''too long'')\<lparr>tr_data := Some (JArray [])\<rparr>))) sample_registry) = Panics"
  by (rule spill_panics_on_list_data [where threshold = 4]) code_simp+

end
