(* ===== verification/Sandbox_Interceptor.thy ===== *)
theory Sandbox_Interceptor
  imports Tool_Hooks
begin

text \<open>
  The sandbox interceptor (\<open>tools/sandbox_interceptor.rs\<close>): one policy hook over every tool
  call, with a blacklist of commands and paths, allowlists of paths, domains and addresses, and the
  detection of sensitive words.

  A regular expression is its text and its \<open>is_match\<close>; the expressions of the default
  list are written out as predicates, and the compiler of the regex crate is a parameter where a caller
  adds one. Addresses are words of 32 and 128 bits, read by the grammar of \<open>std::net\<close>.
  Arithmetic is that of the release profile: the subtraction of a prefix length wraps and a shift is
  masked.
\<close>

section \<open>Numbers and addresses of the standard library\<close>

definition digit_value :: "char \<Rightarrow> nat option" where
  "digit_value c =
     (let n = (of_char c :: nat)
      in if 48 \<le> n \<and> n \<le> 57 then Some (n - 48)
         else if 97 \<le> n \<and> n \<le> 102 then Some (n - 87)
         else if 65 \<le> n \<and> n \<le> 70 then Some (n - 55)
         else None)"

definition is_digit_of :: "nat \<Rightarrow> char \<Rightarrow> bool" where
  "is_digit_of radix c = (case digit_value c of Some d \<Rightarrow> d < radix | None \<Rightarrow> False)"

definition number_value :: "nat \<Rightarrow> string \<Rightarrow> nat" where
  "number_value radix ds = foldl (\<lambda>n c. n * radix + the (digit_value c)) 0 ds"

text \<open>\<open>str::parse::<u8>\<close>.\<close>

definition parse_u8 :: "string \<Rightarrow> 8 word option" where
  "parse_u8 s =
     (let ds = (if starts_with s ''+'' then drop 1 s else s)
      in if ds \<noteq> [] \<and> list_all (is_digit_of 10) ds \<and> number_value 10 ds < 256
         then Some (of_nat (number_value 10 ds)) else None)"

definition read_number :: "nat \<Rightarrow> nat \<Rightarrow> bool \<Rightarrow> nat \<Rightarrow> string \<Rightarrow> (nat \<times> string) option" where
  "read_number radix max_digits allow_zero_prefix bound s =
     (let ds = takeWhile (is_digit_of radix) s
      in if ds = [] \<or> max_digits < length ds
           \<or> (\<not> allow_zero_prefix \<and> hd ds = CHR ''0'' \<and> 1 < length ds)
           \<or> bound \<le> number_value radix ds
         then None else Some (number_value radix ds, drop (length ds) s))"

definition read_given_char :: "char \<Rightarrow> string \<Rightarrow> string option" where
  "read_given_char c s = (case s of [] \<Rightarrow> None | x # xs \<Rightarrow> if x = c then Some xs else None)"

definition read_octet :: "string \<Rightarrow> (nat \<times> string) option" where
  "read_octet = read_number 10 3 False 256"

definition read_ipv4_addr :: "string \<Rightarrow> (32 word \<times> string) option" where
  "read_ipv4_addr s =
     Option.bind (read_octet s) (\<lambda>(a, s1).
     Option.bind (read_given_char (CHR ''.'') s1) (\<lambda>s2.
     Option.bind (read_octet s2) (\<lambda>(b, s3).
     Option.bind (read_given_char (CHR ''.'') s3) (\<lambda>s4.
     Option.bind (read_octet s4) (\<lambda>(c, s5).
     Option.bind (read_given_char (CHR ''.'') s5) (\<lambda>s6.
     Option.bind (read_octet s6) (\<lambda>(d, s7).
       Some (of_nat (((a * 256 + b) * 256 + c) * 256 + d), s7))))))))"

definition read_separator ::
  "char \<Rightarrow> nat \<Rightarrow> (string \<Rightarrow> ('a \<times> string) option) \<Rightarrow> string \<Rightarrow> ('a \<times> string) option" where
  "read_separator sep index inner s =
     (if index = 0 then inner s else Option.bind (read_given_char sep s) inner)"

text \<open>\<open>read_groups\<close>: the groups read, whether an address of version 4 ended them, and the
  rest; \<open>n\<close> groups may still follow the \<open>i\<close> read so far.\<close>

fun read_groups :: "nat \<Rightarrow> nat \<Rightarrow> string \<Rightarrow> nat list \<times> bool \<times> string" where
  "read_groups i 0 s = ([], False, s)"
| "read_groups i (Suc n) s =
     (case (if n = 0 then None else read_separator (CHR '':'') i read_ipv4_addr s) of
        Some (v4, rest) \<Rightarrow> ([unat v4 div 65536, unat v4 mod 65536], True, rest)
      | None \<Rightarrow>
          (case read_separator (CHR '':'') i (read_number 16 4 True 65536) s of
             Some (g, rest) \<Rightarrow> (let (gs, v4, rest') = read_groups (Suc i) n rest in (g # gs, v4, rest'))
           | None \<Rightarrow> ([], False, s)))"

definition ipv6_of_groups :: "nat list \<Rightarrow> 128 word" where
  "ipv6_of_groups gs = of_nat (foldl (\<lambda>n g. n * 65536 + g) 0 gs)"

definition read_ipv6_addr :: "string \<Rightarrow> (128 word \<times> string) option" where
  "read_ipv6_addr s =
     (let (head, head_ipv4, s1) = read_groups 0 8 s
      in if length head = 8 then Some (ipv6_of_groups head, s1)
         else if head_ipv4 then None
         else Option.bind (read_given_char (CHR '':'') s1) (\<lambda>s2.
              Option.bind (read_given_char (CHR '':'') s2) (\<lambda>s3.
                let (tail, _, s4) = read_groups 0 (8 - (length head + 1)) s3
                in Some (ipv6_of_groups
                     (head @ replicate (8 - length head - length tail) 0 @ tail), s4))))"

datatype ip_addr = V4 "32 word" | V6 "128 word"

text \<open>\<open>str::parse::<IpAddr>\<close>: the whole text is read.\<close>

definition parse_ip_addr :: "string \<Rightarrow> ip_addr option" where
  "parse_ip_addr s =
     (case read_ipv4_addr s of
        Some (a, rest) \<Rightarrow> if rest = [] then Some (V4 a) else None
      | None \<Rightarrow> (case read_ipv6_addr s of
          Some (a, rest) \<Rightarrow> if rest = [] then Some (V6 a) else None
        | None \<Rightarrow> None))"

text \<open>The text of a JSON value, as \<open>Value::to_string\<close> prints it.\<close>

definition hex_digit :: "nat \<Rightarrow> char" where
  "hex_digit n = (if n < 10 then char_of (48 + n) else char_of (87 + n))"

definition json_escape :: "char \<Rightarrow> string" where
  "json_escape c =
     (let n = (of_char c :: nat)
      in if c = dquote then [backslash, dquote]
         else if c = backslash then [backslash, backslash]
         else if n = 8 then [backslash, CHR ''b''] else if n = 9 then [backslash, CHR ''t'']
         else if n = 10 then [backslash, CHR ''n''] else if n = 12 then [backslash, CHR ''f'']
         else if n = 13 then [backslash, CHR ''r'']
         else if n < 32 then [backslash] @ ''u00'' @ [hex_digit (n div 16), hex_digit (n mod 16)]
         else [c])"

definition json_str :: "string \<Rightarrow> string" where
  "json_str s = [dquote] @ concat (map json_escape s) @ [dquote]"

fun json_text :: "json \<Rightarrow> string" where
  "json_text JNull = ''null''"
| "json_text (JBool b) = (if b then ''true'' else ''false'')"
| "json_text (JNumber n) = n"
| "json_text (JString s) = json_str s"
| "json_text (JArray vs) = ''['' @ join_with '','' (map json_text vs) @ '']''"
| "json_text (JObject fs) =
     ''{'' @ join_with '','' (map (\<lambda>kv. json_str (fst kv) @ '':'' @ json_text (snd kv)) fs) @ ''}''"

text \<open>The \<open>Debug\<close> text of a list of strings.\<close>

fun hex_text :: "nat \<Rightarrow> string" where
  "hex_text n = (if n < 16 then [hex_digit n] else hex_text (n div 16) @ [hex_digit (n mod 16)])"

definition debug_escape :: "char \<Rightarrow> string" where
  "debug_escape c =
     (let n = (of_char c :: nat)
      in if c = dquote then [backslash, dquote]
         else if c = backslash then [backslash, backslash]
         else if n = 0 then [backslash, CHR ''0''] else if n = 9 then [backslash, CHR ''t'']
         else if n = 10 then [backslash, CHR ''n''] else if n = 13 then [backslash, CHR ''r'']
         else if n < 32 \<or> (127 \<le> n \<and> n \<le> 160) \<or> n = 173
           then [backslash] @ ''u{'' @ hex_text n @ ''}''
         else [c])"

definition debug_list :: "string list \<Rightarrow> string" where
  "debug_list xs =
     ''['' @ join_with '', '' (map (\<lambda>s. [dquote] @ concat (map debug_escape s) @ [dquote]) xs) @ '']''"

section \<open>Argument extractors\<close>

definition first_field :: "string list \<Rightarrow> (string \<Rightarrow> 'a option) \<Rightarrow> json \<Rightarrow> 'a option" where
  "first_field ks f args =
     (case List.map_filter (\<lambda>k. Option.bind (get_str k args) f) ks of [] \<Rightarrow> None | x # _ \<Rightarrow> Some x)"

definition extract_command :: "json \<Rightarrow> string option" where
  "extract_command args =
     first_field [''command'', ''script'', ''cmd'', ''shell'', ''bash''] Some args"

definition path_fields :: "string list" where
  "path_fields = [''path'', ''file'', ''directory'', ''dir'', ''source'', ''destination'', ''dst'', ''src'',
     ''from'', ''to'', ''output'', ''input'', ''out'', ''in'']"

definition is_ascii_alphabetic :: "char \<Rightarrow> bool" where
  "is_ascii_alphabetic c =
     (let n = (of_char c :: nat) in (65 \<le> n \<and> n \<le> 90) \<or> (97 \<le> n \<and> n \<le> 122))"

definition path_like :: "string \<Rightarrow> string list" where
  "path_like s =
     (if starts_with s ''/'' \<or> starts_with s ''~'' \<or> starts_with s ''./'' then [s] else [])
     @ (if 2 < length s \<and> s ! 1 = CHR '':'' \<and> is_ascii_alphabetic (hd s) then [s] else [])"

definition extract_paths :: "json \<Rightarrow> string list" where
  "extract_paths args =
     List.map_filter (\<lambda>k. get_str k args) path_fields
     @ (case args of
          JObject fs \<Rightarrow>
            concat (map (\<lambda>(_, v). case as_str v of Some s \<Rightarrow> path_like s | None \<Rightarrow> []) fs)
        | _ \<Rightarrow> [])"

definition before_char :: "char \<Rightarrow> string \<Rightarrow> string" where
  "before_char c s = takeWhile (\<lambda>x. x \<noteq> c) s"

definition extract_host :: "string \<Rightarrow> string" where
  "extract_host s = to_lowercase (before_char (CHR '':'') (before_char (CHR ''/'') s))"

definition parse_domain :: "string \<Rightarrow> string option" where
  "parse_domain s =
     (case strip_prefix ''http://'' s of
        Some rest \<Rightarrow> Some (extract_host rest)
      | None \<Rightarrow> (case strip_prefix ''https://'' s of
          Some rest \<Rightarrow> Some (extract_host rest)
        | None \<Rightarrow> if CHR ''.'' \<in> set s \<or> parse_ip_addr s \<noteq> None then Some (extract_host s) else None))"

definition extract_domain :: "json \<Rightarrow> string option" where
  "extract_domain args =
     first_field [''url'', ''endpoint'', ''host'', ''domain'', ''base_url''] parse_domain args"

definition strip_scheme :: "string \<Rightarrow> string" where
  "strip_scheme s =
     (case List.map_filter (\<lambda>p. strip_prefix p s) [''http://'', ''https://'', ''ftp://'', ''ssh://''] of
        [] \<Rightarrow> s | rest # _ \<Rightarrow> rest)"

definition parse_ip :: "string \<Rightarrow> string option" where
  "parse_ip s =
     (let host_port = before_char (CHR ''/'') (strip_scheme s);
          host = (if starts_with host_port ''[''
                  then (case strip_prefix ''['' (before_char (CHR '']'') host_port) of
                          Some h \<Rightarrow> h | None \<Rightarrow> host_port)
                  else before_char (CHR '':'') host_port)
      in if parse_ip_addr host \<noteq> None then Some host else None)"

definition extract_ip :: "json \<Rightarrow> string option" where
  "extract_ip args =
     first_field [''url'', ''endpoint'', ''host'', ''ip'', ''address'', ''target''] parse_ip args"

text \<open>The mask of a prefix length for an address of \<open>w\<close> bits: the subtraction is on
  \<open>u8\<close> and the shift takes its amount modulo the width.\<close>

definition prefix_mask :: "nat \<Rightarrow> 8 word \<Rightarrow> 'a::len word" where
  "prefix_mask w p = (if p = 0 then 0 else push_bit (unat (of_nat w - p) mod w) (- 1))"

definition ip_in_range :: "string \<Rightarrow> string \<Rightarrow> bool" where
  "ip_in_range ip rng =
     (case parse_ip_addr ip of
        None \<Rightarrow> False
      | Some addr \<Rightarrow>
          (if ip = rng then True
           else case split_once (CHR ''/'') rng of
               None \<Rightarrow> False
             | Some (net, prefix) \<Rightarrow>
                 (case parse_u8 prefix of
                    None \<Rightarrow> False
                  | Some len \<Rightarrow>
                      (case (addr, parse_ip_addr net) of
                         (V4 a, Some (V4 n)) \<Rightarrow> and a (prefix_mask 32 len) = and n (prefix_mask 32 len)
                       | (V6 a, Some (V6 n)) \<Rightarrow> and a (prefix_mask 128 len) = and n (prefix_mask 128 len)
                       | _ \<Rightarrow> False))))"

section \<open>The rules\<close>

text \<open>A compiled expression: its text and its \<open>is_match\<close>.\<close>

record regex =
  rx_text :: string
  rx_is_match :: "string \<Rightarrow> bool"

text \<open>\<open>(/|$)\<close> after what was matched; \<open>$\<close> is the end of the text.\<close>

definition at_boundary :: "char set \<Rightarrow> string \<Rightarrow> bool" where
  "at_boundary cs s \<longleftrightarrow> s = [] \<or> hd s \<in> cs"

text \<open>\<open>^.*\<close> and then \<open>P\<close>: the dot does not match a new line.\<close>

fun anywhere_on_line :: "(string \<Rightarrow> bool) \<Rightarrow> string \<Rightarrow> bool" where
  "anywhere_on_line P [] = P []"
| "anywhere_on_line P (c # cs) = (P (c # cs) \<or> (c \<noteq> CHR 0x0A \<and> anywhere_on_line P cs))"

definition followed :: "string \<Rightarrow> (string \<Rightarrow> bool) \<Rightarrow> string \<Rightarrow> bool" where
  "followed p Q s = (case strip_prefix p s of Some r \<Rightarrow> Q r | None \<Rightarrow> False)"

definition dir_anywhere :: "string \<Rightarrow> string \<Rightarrow> bool" where
  "dir_anywhere d s = anywhere_on_line (followed (''/'' @ d) (at_boundary {CHR ''/''})) (to_lowercase s)"

definition file_anywhere :: "string \<Rightarrow> string \<Rightarrow> bool" where
  "file_anywhere d s = anywhere_on_line (followed (''/'' @ d) (\<lambda>r. r = [])) (to_lowercase s)"

definition system_dir :: "string \<Rightarrow> string \<Rightarrow> bool" where
  "system_dir d s = followed (''/'' @ d) (at_boundary {CHR ''/''}) s"

definition windows_dir :: "string \<Rightarrow> string \<Rightarrow> bool" where
  "windows_dir d s =
     (case to_lowercase s of
        c # rest \<Rightarrow> is_ascii_alphabetic c
          \<and> followed ('':'' @ [backslash] @ d) (at_boundary {CHR ''/'', backslash}) rest
      | [] \<Rightarrow> False)"

definition rx_dir :: "string \<Rightarrow> string \<Rightarrow> regex" where
  "rx_dir text d = \<lparr>rx_text = ''(?i)^.*/'' @ text @ ''(/|$)'', rx_is_match = dir_anywhere d\<rparr>"

definition rx_file :: "string \<Rightarrow> string \<Rightarrow> regex" where
  "rx_file text d = \<lparr>rx_text = ''(?i)^.*/'' @ text @ ''$'', rx_is_match = file_anywhere d\<rparr>"

definition rx_system :: "string \<Rightarrow> regex" where
  "rx_system d = \<lparr>rx_text = ''^/'' @ d @ ''(/|$)'', rx_is_match = system_dir d\<rparr>"

definition rx_windows :: "string \<Rightarrow> string \<Rightarrow> regex" where
  "rx_windows text d =
     \<lparr>rx_text = ''(?i)^[A-Z]:'' @ [backslash, backslash] @ text @ ''(/|'' @ [backslash, backslash] @ ''|$)'',
      rx_is_match = windows_dir d\<rparr>"

definition default_path_blacklist :: "regex list" where
  "default_path_blacklist =
     [rx_dir ([backslash] @ ''.ssh'') ''.ssh'', rx_dir ([backslash] @ ''.gnupg'') ''.gnupg'',
      rx_dir ([backslash] @ ''.aws'') ''.aws'', rx_dir ([backslash] @ ''.docker'') ''.docker'',
      rx_dir ([backslash] @ ''.kube'') ''.kube'',
      rx_dir ([backslash] @ ''.config/gcloud'') ''.config/gcloud'',
      rx_dir ([backslash] @ ''.config/azure'') ''.config/azure'',
      rx_file ([backslash] @ ''.netrc'') ''.netrc'',
      rx_file ([backslash] @ ''.git-credentials'') ''.git-credentials'',
      rx_system ''etc'', rx_system ''sys'', rx_system ''proc'', rx_system ''dev'', rx_system ''boot'',
      rx_system ''var/log'',
      rx_windows ''Windows'' ''windows'', rx_windows ''Program Files'' ''program files'',
      rx_windows ''ProgramData'' ''programdata'']"

datatype sandbox_error =
    CommandBlocked string string
  | PathBlocked string string
  | NetworkBlocked string string
  | IpBlocked string string
  | SensitiveDetected string string

record sandbox_interceptor =
  si_command_blacklist :: "string list"
  si_path_blacklist :: "regex list"
  si_domain_allowlist :: "string list"
  si_ip_allowlist :: "string list"
  si_ip_blocklist :: "string list"
  si_path_allowlist :: "string list"
  si_flag_sensitive_for_approval :: bool

definition default_command_blacklist :: "string list" where
  "default_command_blacklist = [
    ''rm'', ''dd'', ''fdisk'', ''mkfs'', ''format'', ''mkfs.ext4'', ''mkfs.xfs'', ''mkfs.ntfs'',
     ''parted'', ''gdisk'', ''sgdisk'', ''wipefs'', ''shred'', ''mkswap'', ''swapon'', ''swapoff'',
     ''sysctl'', ''modprobe'', ''rmmod'', ''insmod'', ''depmod'', ''lsmod'', ''kmod'', ''dmesg'',
     ''reboot'', ''shutdown'', ''poweroff'', ''halt'', ''init'', ''systemctl'', ''service'',
     ''chkconfig'', ''update-rc.d'', ''rc-update'', ''telinit'', ''runlevel'', ''killall5'',
     ''pkill'', ''skill'', ''snice'', ''chsh'', ''chfn'', ''vigr'', ''vipw'', ''usermod'',
     ''userdel'', ''groupmod'', ''groupdel'', ''gpasswd'', ''chpasswd'', ''newusers'', ''pwconv'',
     ''pwunconv'', ''grpconv'', ''grpunconv'', ''pwck'', ''grpck'', ''lastlog'', ''faillog'']"

definition with_defaults :: sandbox_interceptor where
  "with_defaults =
     \<lparr>si_command_blacklist = default_command_blacklist, si_path_blacklist = default_path_blacklist,
      si_domain_allowlist = [], si_ip_allowlist = [], si_ip_blocklist = [], si_path_allowlist = [],
      si_flag_sensitive_for_approval = True\<rparr>"

definition block_command :: "string \<Rightarrow> sandbox_interceptor \<Rightarrow> sandbox_interceptor" where
  "block_command c si = si\<lparr>si_command_blacklist := List.insert c (si_command_blacklist si)\<rparr>"

definition block_path_pattern ::
  "(string \<Rightarrow> string + (string \<Rightarrow> bool)) \<Rightarrow> string \<Rightarrow> sandbox_interceptor \<Rightarrow> string + sandbox_interceptor" where
  "block_path_pattern compile pattern si =
     (case compile pattern of
        Inl e \<Rightarrow> Inl (''Invalid regex: '' @ e)
      | Inr m \<Rightarrow> Inr (si\<lparr>si_path_blacklist :=
                         si_path_blacklist si @ [\<lparr>rx_text = pattern, rx_is_match = m\<rparr>]\<rparr>))"

definition allow_domains :: "string list \<Rightarrow> sandbox_interceptor \<Rightarrow> sandbox_interceptor" where
  "allow_domains ds si = si\<lparr>si_domain_allowlist := ds\<rparr>"

definition allow_ip_ranges :: "string list \<Rightarrow> sandbox_interceptor \<Rightarrow> sandbox_interceptor" where
  "allow_ip_ranges rs si = si\<lparr>si_ip_allowlist := rs\<rparr>"

definition block_ip_ranges :: "string list \<Rightarrow> sandbox_interceptor \<Rightarrow> sandbox_interceptor" where
  "block_ip_ranges rs si = si\<lparr>si_ip_blocklist := rs\<rparr>"

definition allow_paths :: "string list \<Rightarrow> sandbox_interceptor \<Rightarrow> sandbox_interceptor" where
  "allow_paths ps si = si\<lparr>si_path_allowlist := ps\<rparr>"

definition detect_sensitive_content :: "json \<Rightarrow> sandbox_error option" where
  "detect_sensitive_content args =
     (let t = json_text args;
          finds = (\<lambda>a b. str_contains t a \<or> str_contains t b);
          detail = (\<lambda>a b. ''Argument contains '' @ [squote] @ a @ [squote] @ '' or ''
                          @ [squote] @ b @ [squote])
      in if finds ''api_key'' ''apikey'' then
           Some (SensitiveDetected ''api_key'' (detail ''api_key'' ''apikey''))
         else if finds ''password'' ''passwd'' then
           Some (SensitiveDetected ''password'' (detail ''password'' ''passwd''))
         else if finds ''secret'' ''token'' then
           Some (SensitiveDetected ''secret'' (detail ''secret'' ''token''))
         else if finds ''private_key'' ''privkey'' then
           Some (SensitiveDetected ''private_key'' (detail ''private_key'' ''privkey''))
         else None)"

text \<open>The six rules in their order; each gives the error it raises.\<close>

definition check_command :: "sandbox_interceptor \<Rightarrow> json \<Rightarrow> sandbox_error option" where
  "check_command si args =
     (case extract_command args of
        None \<Rightarrow> None
      | Some cmd \<Rightarrow>
          (let base = (case split_whitespace cmd of [] \<Rightarrow> [] | t # _ \<Rightarrow> t)
           in if base \<in> set (si_command_blacklist si)
              then Some (CommandBlocked base ([squote] @ base @ [squote] @ '' is on the command blacklist''))
              else None))"

definition path_in_allowlist :: "sandbox_interceptor \<Rightarrow> string \<Rightarrow> bool" where
  "path_in_allowlist si path \<longleftrightarrow> list_ex (path_starts_with path) (si_path_allowlist si)"

definition check_path_allowlist :: "sandbox_interceptor \<Rightarrow> json \<Rightarrow> sandbox_error option" where
  "check_path_allowlist si args =
     (if si_path_allowlist si = [] then None
      else map_option (\<lambda>path. PathBlocked path (''not in allowlist: '' @ debug_list (si_path_allowlist si)))
             (find (\<lambda>path. \<not> path_in_allowlist si path) (extract_paths args)))"

fun check_path_blacklist :: "sandbox_interceptor \<Rightarrow> string list \<Rightarrow> sandbox_error option" where
  "check_path_blacklist si [] = None"
| "check_path_blacklist si (path # paths) =
     (case find (\<lambda>rx. rx_is_match rx path) (si_path_blacklist si) of
        Some rx \<Rightarrow> Some (PathBlocked path (rx_text rx))
      | None \<Rightarrow> check_path_blacklist si paths)"

definition check_domain :: "sandbox_interceptor \<Rightarrow> json \<Rightarrow> sandbox_error option" where
  "check_domain si args =
     (if si_domain_allowlist si = [] then None
      else case extract_domain args of
          None \<Rightarrow> None
        | Some domain \<Rightarrow>
            (if list_ex (\<lambda>d. ends_with domain d \<or> domain = d) (si_domain_allowlist si) then None
             else Some (NetworkBlocked domain ''Domain not in allowlist'')))"

definition check_ip :: "sandbox_interceptor \<Rightarrow> json \<Rightarrow> sandbox_error option" where
  "check_ip si args =
     (case extract_ip args of
        None \<Rightarrow> None
      | Some ip \<Rightarrow>
          (case find (ip_in_range ip) (si_ip_blocklist si) of
             Some blocked \<Rightarrow>
               Some (IpBlocked ip (''matches blocklist entry '' @ [squote] @ blocked @ [squote]))
           | None \<Rightarrow>
               (if si_ip_allowlist si = [] \<or> list_ex (ip_in_range ip) (si_ip_allowlist si) then None
                else Some (IpBlocked ip (''not in allowlist: '' @ debug_list (si_ip_allowlist si))))))"

definition or_else :: "'a option \<Rightarrow> 'a option \<Rightarrow> 'a option" where
  "or_else a b = (case a of None \<Rightarrow> b | Some x \<Rightarrow> Some x)"

definition sandbox_check :: "sandbox_interceptor \<Rightarrow> json \<Rightarrow> sandbox_error option" where
  "sandbox_check si args =
     or_else (check_command si args)
    (or_else (check_path_allowlist si args)
    (or_else (check_path_blacklist si (extract_paths args))
    (or_else (check_domain si args)
    (or_else (check_ip si args)
             (detect_sensitive_content args)))))"

text \<open>The em dash of the messages, in the encoding of UTF-8.\<close>

definition dash :: string where
  "dash = '' '' @ [CHR 0xE2, CHR 0x80, CHR 0x94] @ '' ''"

definition in_quotes :: "string \<Rightarrow> string" where
  "in_quotes s = [squote] @ s @ [squote]"

definition sandbox_evaluate ::
  "string \<Rightarrow> sandbox_interceptor \<Rightarrow> string \<Rightarrow> json \<Rightarrow> tool_policy_decision" where
  "sandbox_evaluate uuid si name args =
     (case sandbox_check si args of
        None \<Rightarrow> Policy_Allow
      | Some (CommandBlocked command reason) \<Rightarrow>
          Policy_Deny (''Sandbox: command '' @ in_quotes command @ '' is blocked'' @ dash @ reason)
      | Some (PathBlocked path pattern) \<Rightarrow>
          Policy_Deny (''Sandbox: path '' @ in_quotes path @ '' matches blocked pattern '' @ in_quotes pattern)
      | Some (NetworkBlocked domain reason) \<Rightarrow>
          Policy_Deny (''Sandbox: network domain '' @ in_quotes domain @ '' is blocked'' @ dash @ reason)
      | Some (IpBlocked ip reason) \<Rightarrow>
          Policy_Deny (''Sandbox: IP address '' @ in_quotes ip @ '' is blocked'' @ dash @ reason)
      | Some (SensitiveDetected kind detail) \<Rightarrow>
          (if si_flag_sensitive_for_approval si
           then NeedsApproval (''sandbox-'' @ uuid) name args High ''sandbox_interceptor''
                  (''Sensitive content detected ('' @ kind @ ''): '' @ detail)
           else Policy_Deny (''Sandbox: sensitive content detected ('' @ kind @ ''): '' @ detail)))"

definition sandbox_policy_hook :: "string \<Rightarrow> sandbox_interceptor \<Rightarrow> policy_hook" where
  "sandbox_policy_hook uuid si = (\<lambda>name args ctx. sandbox_evaluate uuid si name args)"

section \<open>Laws\<close>

lemma or_else_None [simp]: "or_else a b = None \<longleftrightarrow> a = None \<and> b = None"
  by (auto simp: or_else_def split: option.splits)

lemma find_eq_None_iff: "find P xs = None \<longleftrightarrow> (\<forall>x \<in> set xs. \<not> P x)"
  by (auto simp: find_None_iff)

lemma case_None_iff: "(case x of None \<Rightarrow> c | Some y \<Rightarrow> Some (g y)) = None \<longleftrightarrow> x = None \<and> c = None"
  by (cases x) auto

lemma check_path_blacklist_None:
  "check_path_blacklist si ps = None \<longleftrightarrow>
     (\<forall>p \<in> set ps. \<forall>rx \<in> set (si_path_blacklist si). \<not> rx_is_match rx p)"
  by (induction ps) (simp_all add: case_None_iff find_eq_None_iff)

lemma check_path_allowlist_None:
  "check_path_allowlist si args = None \<longleftrightarrow>
     si_path_allowlist si = [] \<or> (\<forall>p \<in> set (extract_paths args). path_in_allowlist si p)"
  by (simp add: check_path_allowlist_def find_eq_None_iff)

definition first_word :: "string \<Rightarrow> string" where
  "first_word s = (case split_whitespace s of [] \<Rightarrow> [] | t # _ \<Rightarrow> t)"

lemma check_command_None:
  "check_command si args = None \<longleftrightarrow>
     (\<forall>cmd. extract_command args = Some cmd \<longrightarrow> first_word cmd \<notin> set (si_command_blacklist si))"
  by (auto simp: check_command_def first_word_def Let_def split: option.splits)

lemma check_domain_None:
  "check_domain si args = None \<longleftrightarrow>
     si_domain_allowlist si = [] \<or>
     (\<forall>d. extract_domain args = Some d \<longrightarrow> (\<exists>a \<in> set (si_domain_allowlist si). ends_with d a))"
  by (auto simp: check_domain_def list_ex_iff ends_with_def split: option.splits)

lemma check_ip_None:
  "check_ip si args = None \<longleftrightarrow>
     (\<forall>ip. extract_ip args = Some ip \<longrightarrow>
        (\<forall>r \<in> set (si_ip_blocklist si). \<not> ip_in_range ip r) \<and>
        (si_ip_allowlist si = [] \<or> (\<exists>r \<in> set (si_ip_allowlist si). ip_in_range ip r)))"
  by (cases "extract_ip args") (simp_all add: check_ip_def case_None_iff find_eq_None_iff list_ex_iff)

lemmas sandbox_rules =
  check_command_None check_path_allowlist_None check_path_blacklist_None check_domain_None check_ip_None

lemma sandbox_allow_iff: "is_allow (sandbox_evaluate u si name args) \<longleftrightarrow> sandbox_check si args = None"
  by (auto simp: sandbox_evaluate_def split: option.splits sandbox_error.splits)

text \<open>A mask keeps the leading bits of the network: two addresses agree under it exactly when they
  agree after the host bits are shifted out.\<close>

lemma prefix_mask_agree:
  fixes a n :: "'a::len word"
  assumes w: "LENGTH('a) = w" "w < 256" and p: "unat p \<le> w"
  shows "and a (prefix_mask w p) = and n (prefix_mask w p) \<longleftrightarrow>
    drop_bit (w - unat p) a = drop_bit (w - unat p) n"
proof (cases "p = 0")
  case True
  have "drop_bit w a = 0" "drop_bit w n = 0" using w(1) by (auto intro: bit_eqI simp: bit_drop_bit_eq bit_imp_le_length dest: bit_imp_le_length)
  then show ?thesis using True by (simp add: prefix_mask_def)
next
  case False
  then have p0: "0 < unat p" by (simp add: unat_gt_0)
  have "unat (of_nat w - p) = w - unat p"
  proof -
    have "p \<le> of_nat w" using p w(2) by (simp add: word_le_nat_alt unat_of_nat)
    then show ?thesis using w(2) by (simp add: unat_sub unat_of_nat)
  qed
  moreover have "(w - unat p) mod w = w - unat p" using p0 p by simp
  ultimately have m: "prefix_mask w p = push_bit (w - unat p) (- 1 :: 'a word)"
    using False by (simp add: prefix_mask_def)
  define k where "k = w - unat p"
  have "and a (push_bit k (- 1)) = and n (push_bit k (- 1)) \<longleftrightarrow> (\<forall>i < LENGTH('a). k \<le> i \<longrightarrow> bit a i = bit n i)"
    by (auto simp: bit_eq_iff bit_and_iff bit_not_iff bit_mask_iff not_less)
  also have "\<dots> \<longleftrightarrow> (\<forall>i < LENGTH('a). bit a (k + i) = bit n (k + i))"
  proof
    assume h: "\<forall>i < LENGTH('a). k \<le> i \<longrightarrow> bit a i = bit n i"
    have "bit a (k + i) = bit n (k + i)" for i
      by (cases "k + i < LENGTH('a)") (use h bit_imp_le_length in auto)
    then show "\<forall>i < LENGTH('a). bit a (k + i) = bit n (k + i)" by blast
  next
    assume h: "\<forall>i < LENGTH('a). bit a (k + i) = bit n (k + i)"
    have "bit a i = bit n i" if "i < LENGTH('a)" "k \<le> i" for i
      using h [rule_format, of "i - k"] that by simp
    then show "\<forall>i < LENGTH('a). k \<le> i \<longrightarrow> bit a i = bit n i" by blast
  qed
  also have "\<dots> \<longleftrightarrow> drop_bit k a = drop_bit k n"
    by (simp add: bit_eq_iff bit_drop_bit_eq)
  finally show ?thesis by (simp add: m k_def)
qed

lemma ip_in_range_v4:
  assumes "parse_ip_addr ip = Some (V4 a)" "parse_ip_addr net = Some (V4 n)" "parse_u8 len = Some p"
    and "CHR ''/'' \<notin> set net" and "unat p \<le> 32" and "ip \<noteq> net @ ''/'' @ len"
  shows "ip_in_range ip (net @ ''/'' @ len) \<longleftrightarrow> drop_bit (32 - unat p) a = drop_bit (32 - unat p) n"
proof -
  have "split_once (CHR ''/'') (net @ ''/'' @ len) = Some (net, len)"
    using assms(4) by (simp add: split_once_Some)
  then show ?thesis
    using assms prefix_mask_agree [of 32 p a n] by (simp add: ip_in_range_def)
qed

lemma ip_in_range_v6:
  assumes "parse_ip_addr ip = Some (V6 a)" "parse_ip_addr net = Some (V6 n)" "parse_u8 len = Some p"
    and "CHR ''/'' \<notin> set net" and "unat p \<le> 128" and "ip \<noteq> net @ ''/'' @ len"
  shows "ip_in_range ip (net @ ''/'' @ len) \<longleftrightarrow> drop_bit (128 - unat p) a = drop_bit (128 - unat p) n"
proof -
  have "split_once (CHR ''/'') (net @ ''/'' @ len) = Some (net, len)"
    using assms(4) by (simp add: split_once_Some)
  then show ?thesis
    using assms prefix_mask_agree [of 128 p a n] by (simp add: ip_in_range_def)
qed

section \<open>Properties\<close>

text \<open>What the interceptor lets pass, exactly: the first word of the command is not on the
  blacklist; every path argument lies under the allowlist, where there is one, and matches no blocked
  pattern; the domain ends in an allowed one, where there are any; the address is in no blocked range
  and in an allowed one, where there are any; and no sensitive word occurs in the arguments. Every other
  call is refused or, for a sensitive word, put to a person.\<close>

theorem sandbox_admits_exactly:
  "is_allow (sandbox_policy_hook u si name args ctx) \<longleftrightarrow>
     (\<forall>cmd. extract_command args = Some cmd \<longrightarrow> first_word cmd \<notin> set (si_command_blacklist si)) \<and>
     (si_path_allowlist si = [] \<or> (\<forall>p \<in> set (extract_paths args). path_in_allowlist si p)) \<and>
     (\<forall>p \<in> set (extract_paths args). \<forall>rx \<in> set (si_path_blacklist si). \<not> rx_is_match rx p) \<and>
     (si_domain_allowlist si = [] \<or>
       (\<forall>d. extract_domain args = Some d \<longrightarrow> (\<exists>a \<in> set (si_domain_allowlist si). ends_with d a))) \<and>
     (\<forall>ip. extract_ip args = Some ip \<longrightarrow>
        (\<forall>r \<in> set (si_ip_blocklist si). \<not> ip_in_range ip r) \<and>
        (si_ip_allowlist si = [] \<or> (\<exists>r \<in> set (si_ip_allowlist si). ip_in_range ip r))) \<and>
     detect_sensitive_content args = None"
  unfolding sandbox_policy_hook_def sandbox_allow_iff sandbox_check_def or_else_None sandbox_rules ..

theorem sandbox_admits_exactly_witness:
  "is_allow (sandbox_policy_hook [] with_defaults ''shell'' (JObject [(''command'', JString ''ls'')]) sample_ctx) \<and>
   first_word ''ls'' \<notin> set (si_command_blacklist with_defaults)"
proof -
  have "is_allow (sandbox_policy_hook [] with_defaults ''shell'' (JObject [(''command'', JString ''ls'')]) sample_ctx)" by code_simp
  moreover have "extract_command (JObject [(''command'', JString ''ls'')]) = Some ''ls''" by code_simp
  ultimately show ?thesis
    using sandbox_admits_exactly [of "[]" with_defaults "''shell''" "JObject [(''command'', JString ''ls'')]" sample_ctx] by simp
qed

text \<open>Membership in a range of addresses with a prefix length within the width is agreement on the
  leading bits.\<close>

theorem cidr_is_prefix_agreement:
  assumes "parse_u8 len = Some p" and "CHR ''/'' \<notin> set net" and "ip \<noteq> net @ ''/'' @ len"
  shows "(\<forall>a n. parse_ip_addr ip = Some (V4 a) \<and> parse_ip_addr net = Some (V4 n) \<and> unat p \<le> 32 \<longrightarrow>
      ip_in_range ip (net @ ''/'' @ len) = (drop_bit (32 - unat p) a = drop_bit (32 - unat p) n)) \<and>
    (\<forall>a n. parse_ip_addr ip = Some (V6 a) \<and> parse_ip_addr net = Some (V6 n) \<and> unat p \<le> 128 \<longrightarrow>
      ip_in_range ip (net @ ''/'' @ len) = (drop_bit (128 - unat p) a = drop_bit (128 - unat p) n))"
  using ip_in_range_v4 [OF _ _ assms(1,2) _ assms(3)] ip_in_range_v6 [OF _ _ assms(1,2) _ assms(3)] by blast

text \<open>A prefix length above the width wraps instead of being refused: a range written with
  \<open>/33\<close> keeps only the first bit and so covers half of all addresses.\<close>

theorem oversized_prefix_widens_range:
  assumes "parse_ip_addr ip = Some (V4 a)" and "parse_ip_addr net = Some (V4 n)"
    and "CHR ''/'' \<notin> set net" and "bit a 31 \<longleftrightarrow> bit n 31"
  shows "ip_in_range ip (net @ ''/33'')"
proof -
  have p: "parse_u8 ''33'' = Some 33" by code_simp
  have s: "split_once (CHR ''/'') (net @ ''/33'') = Some (net, ''33'')"
    using assms(3) by (simp add: split_once_Some)
  have "unat (- 1 :: 8 word) mod 32 = 31" by code_simp
  then have m: "prefix_mask 32 33 = (push_bit 31 (- 1) :: 32 word)"
    by (simp add: prefix_mask_def)
  have "and a (push_bit 31 (- 1)) = and n (push_bit 31 (- 1))"
  proof (rule bit_word_eqI)
    fix i assume "i < LENGTH(32)"
    then have "31 \<le> i \<longleftrightarrow> i = 31" by auto
    then show "bit (and a (push_bit 31 (- 1))) i = bit (and n (push_bit 31 (- 1))) i"
      using assms(4) by (auto simp: bit_and_iff bit_not_iff bit_mask_iff)
  qed
  then show ?thesis using assms(1,2) p s m by (simp add: ip_in_range_def)
qed

text \<open>Allowed domains are compared as suffixes without a dot before them, so any domain that ends in
  the text of an allowed one passes.\<close>

theorem domain_suffix_passes:
  assumes "extract_domain args = Some (p @ d)" and "d \<in> set (si_domain_allowlist si)"
  shows "check_domain si args = None"
  using assms by (auto simp: check_domain_None ends_with_iff)

text \<open>Only the first word of a command is looked at: a blocked command after a separator, behind a
  path or behind another program passes the default rules, and so does a credential directory named
  relative to the home directory.\<close>

theorem default_rules_bypassed:
  "\<forall>args \<in> set [JObject [(''command'', JString ''true; rm -rf work'')],
                  JObject [(''command'', JString ''/bin/rm -rf work'')],
                  JObject [(''command'', JString ''env rm -rf work'')],
                  JObject [(''path'', JString ''.ssh/id_rsa'')],
                  JObject [(''path'', JString ''//etc/shadow'')]].
     sandbox_policy_hook u with_defaults name args ctx = Policy_Allow"
proof -
  have "list_all (\<lambda>args. sandbox_check with_defaults args = None)
     [JObject [(''command'', JString ''true; rm -rf work'')],
      JObject [(''command'', JString ''/bin/rm -rf work'')],
      JObject [(''command'', JString ''env rm -rf work'')],
      JObject [(''path'', JString ''.ssh/id_rsa'')],
      JObject [(''path'', JString ''//etc/shadow'')]]"
    by code_simp
  then show ?thesis by (simp add: sandbox_policy_hook_def sandbox_evaluate_def)
qed

end
