(* ===== verification/Security_Hooks.thy ===== *)
theory Security_Hooks
  imports Tool_Gate Shell_Safety Sandbox_Interceptor
begin

text \<open>
  The built-in security hooks behind the gate: \<open>with_security_hooks\<close>
  (\<open>gateway/init/tools.rs\<close>) appends the shell-safety hook and the sandbox interceptor to the
  hooks of the operator. The locale \<open>denying_hook\<close> states what the gate may rely on of a
  hook that refuses a class of calls; both hooks are interpretations of it.
\<close>

section \<open>Composition\<close>

record security_config =
  sc_shell_safety :: bool
  sc_shell_safety_unknown_binary :: unknown_binary_posture
  sc_sandbox_interceptor :: bool

definition with_security_hooks :: "string \<Rightarrow> security_config \<Rightarrow> tool_hooks \<Rightarrow> tool_hooks" where
  "with_security_hooks uuid config base =
     (let hooks = base;
          hooks = (if sc_shell_safety config
                   then add_policy (shell_safety_policy_with_posture uuid default_bins
                          (sc_shell_safety_unknown_binary config)) hooks
                   else hooks)
      in if sc_sandbox_interceptor config
         then add_policy (sandbox_policy_hook uuid with_defaults) hooks
         else hooks)"

lemma security_policy_hooks:
  "th_policy_hooks (with_security_hooks uuid config base) = th_policy_hooks base
     @ (if sc_shell_safety config
        then [shell_safety_policy_with_posture uuid default_bins (sc_shell_safety_unknown_binary config)] else [])
     @ (if sc_sandbox_interceptor config then [sandbox_policy_hook uuid with_defaults] else [])"
  by (simp add: with_security_hooks_def add_policy_def Let_def)

section \<open>Hooks that refuse\<close>

locale denying_hook =
  fixes hook :: policy_hook
    and refuses :: "string \<Rightarrow> json \<Rightarrow> bool"
  assumes denies: "refuses name args \<Longrightarrow> is_deny (hook name args ctx)"
begin

lemma run_policy_denies:
  assumes "th_policy_hooks hs = before @ hook # after"
    and "\<forall>b \<in> set before. is_allow (b name args ctx)"
    and "refuses name args"
  shows "is_deny (run_policy hs name args ctx)"
proof -
  have "is_allow (policy_loop before False name args ctx)"
    using assms(2) by (simp add: policy_loop_allow_iff)
  then show ?thesis
    using assms(1) denies [OF assms(3), of ctx]
    by (cases "hook name args ctx") (auto simp: run_policy_def policy_loop_app Let_def)
qed

lemma gate_denies:
  assumes "th_policy_hooks (active_hooks r) = before @ hook # after"
    and "\<forall>b \<in> set before. is_allow (b name args ctx)"
    and "refuses name args"
  shows "\<exists>reason. fst (gate_decision e r name args ctx) = Policy_Deny reason"
  using run_policy_denies [OF assms]
  by (cases "evaluate_permissions e r name args ctx"; cases "run_policy (active_hooks r) name args ctx")
     (auto simp: gate_decision_def)

lemma refused_call_stops:
  assumes "th_policy_hooks (active_hooks r) = before @ hook # after"
    and "\<forall>b \<in> set before. is_allow (b name args ctx)"
    and "refuses name args"
    and "parse_tool_args e raw name = Inr args"
  shows "\<exists>reason. stopped e name raw args ctx r reason"
  using gate_denies [OF assms(1-3)] denied_gate_stops [OF _ assms(4)] by blast

end

text \<open>The shell-safety hook refuses dangerous commands of the command tools, and the interceptor
  refuses a command whose first word is blacklisted and a path that matches a blocked pattern.\<close>

definition dangerous_call :: "string \<Rightarrow> json \<Rightarrow> bool" where
  "dangerous_call name args \<longleftrightarrow> shell_like name \<and> has_dangerous (command_arg args)"

definition fenced_call :: "sandbox_interceptor \<Rightarrow> string \<Rightarrow> json \<Rightarrow> bool" where
  "fenced_call si name args \<longleftrightarrow>
     (\<exists>cmd. extract_command args = Some cmd \<and> first_word cmd \<in> set (si_command_blacklist si)) \<or>
     (\<exists>p \<in> set (extract_paths args). \<exists>rx \<in> set (si_path_blacklist si). rx_is_match rx p)"

lemma or_else_cases:
  "or_else a b = Some x \<Longrightarrow> a = Some x \<or> a = None \<and> b = Some x"
  by (auto simp: or_else_def split: option.splits)

lemma check_command_blocked: "check_command si args = Some x \<Longrightarrow> \<exists>a b. x = CommandBlocked a b"
  by (auto simp: check_command_def Let_def split: option.splits if_splits)

lemma check_path_blacklist_blocked: "check_path_blacklist si ps = Some x \<Longrightarrow> \<exists>a b. x = PathBlocked a b"
  by (induction ps) (auto split: option.splits)

lemma check_path_allowlist_blocked: "check_path_allowlist si args = Some x \<Longrightarrow> \<exists>a b. x = PathBlocked a b"
  by (auto simp: check_path_allowlist_def split: if_splits)

lemma sandbox_denies:
  assumes "fenced_call si name args"
  shows "is_deny (sandbox_evaluate u si name args)"
proof -
  have "check_command si args \<noteq> None \<or> check_path_blacklist si (extract_paths args) \<noteq> None"
    using assms unfolding fenced_call_def check_command_None check_path_blacklist_None by blast
  then obtain x where "sandbox_check si args = Some x"
    and "(\<exists>a b. x = CommandBlocked a b) \<or> (\<exists>a b. x = PathBlocked a b)"
    unfolding sandbox_check_def
    using check_command_blocked check_path_blacklist_blocked check_path_allowlist_blocked
    by (cases "check_command si args"; cases "check_path_allowlist si args";
        cases "check_path_blacklist si (extract_paths args)") (auto simp: or_else_def)
  then show ?thesis by (auto simp: sandbox_evaluate_def)
qed

interpretation shell_guard: denying_hook "shell_safety_policy_with_posture u sb po" dangerous_call
  for u sb po
  by unfold_locales (simp add: dangerous_call_def shell_policy_denies)

interpretation sandbox_guard: denying_hook "sandbox_policy_hook u si" "fenced_call si" for u si
  by unfold_locales (simp add: sandbox_policy_hook_def sandbox_denies)

section \<open>Properties\<close>


definition security_on :: security_config where
  "security_on = \<lparr>sc_shell_safety = True, sc_shell_safety_unknown_binary = Posture_Ask,
     sc_sandbox_interceptor = True\<rparr>"

definition secured_registry :: "tool_hooks \<Rightarrow> registry" where
  "secured_registry base = set_hooks (with_security_hooks ''u'' security_on base) sample_registry"

lemma secured_hooks [simp]: "active_hooks (secured_registry base) = with_security_hooks ''u'' security_on base"
  by (simp add: secured_registry_def active_hooks_def set_hooks_def)


text \<open>The hooks decide the calls that the engine leaves open, exactly: with both hooks composed onto no
  others, and no opinion of the permission engine, a call of the shell passes the gate without a question
  if and only if the shell-safety hook claims it and the interceptor has no objection.\<close>

theorem secured_gate_exact:
  assumes "active_hooks r = with_security_hooks u security_on no_hooks"
    and "evaluate_permissions e r ''shell'' args ctx = PassThrough"
    and "tc_requires_approval (get_capabilities r ''shell'')"
  shows "is_allow (fst (run_gate e ''shell'' args ctx r)) \<longleftrightarrow>
    worst_tier (command_arg args) default_bins Posture_Ask = Tier_Safe \<and>
    sandbox_check with_defaults args = None"
proof -
  have sl: "shell_like ''shell''" by code_simp
  have "is_allow (fst (run_gate e ''shell'' args ctx r)) \<longleftrightarrow>
      run_policy (active_hooks r) ''shell'' args ctx = AllowByHook"
    unfolding run_gate_fst is_allow_guardian gate_allow_iff using assms(2,3) by (simp add: Let_def)
  also have "\<dots> \<longleftrightarrow> shell_safety_policy_with_posture u default_bins Posture_Ask ''shell'' args ctx = AllowByHook \<and>
      sandbox_check with_defaults args = None"
  proof -
    let ?sh = "shell_safety_policy_with_posture u default_bins Posture_Ask"
    have hooks: "th_policy_hooks (active_hooks r) = [?sh, sandbox_policy_hook u with_defaults]"
      by (simp add: assms(1) security_policy_hooks no_hooks_def security_on_def)
    have sb: "sandbox_policy_hook u with_defaults ''shell'' args ctx \<noteq> AllowByHook"
      by (auto simp: sandbox_policy_hook_def sandbox_evaluate_def split: option.splits sandbox_error.splits)
    have "is_allow (sandbox_policy_hook u with_defaults ''shell'' args ctx) \<longleftrightarrow> sandbox_check with_defaults args = None"
      by (simp add: sandbox_policy_hook_def sandbox_allow_iff)
    moreover have "run_policy (active_hooks r) ''shell'' args ctx = AllowByHook \<longleftrightarrow>
        ?sh ''shell'' args ctx = AllowByHook \<and> is_allow (sandbox_policy_hook u with_defaults ''shell'' args ctx)"
      unfolding run_policy_def hooks policy_loop_claimed using sb by auto
    ultimately show ?thesis by simp
  qed
  also have "shell_safety_policy_with_posture u default_bins Posture_Ask ''shell'' args ctx = AllowByHook \<longleftrightarrow>
      worst_tier (command_arg args) default_bins Posture_Ask = Tier_Safe"
    unfolding shell_policy_cases [OF sl] by (cases "worst_tier (command_arg args) default_bins Posture_Ask") simp_all
  finally show ?thesis .
qed

theorem secured_gate_exact_witness:
  "is_allow (fst (run_gate (sample_parsing (shell_args ''ls'')) ''shell'' (shell_args ''ls'') sample_ctx (secured_registry no_hooks)))
     \<longleftrightarrow> worst_tier (command_arg (shell_args ''ls'')) default_bins Posture_Ask = Tier_Safe \<and>
         sandbox_check with_defaults (shell_args ''ls'') = None"
proof (rule secured_gate_exact [where u = "''u''"])
  show "evaluate_permissions (sample_parsing (shell_args ''ls'')) (secured_registry no_hooks) ''shell''
      (shell_args ''ls'') sample_ctx = PassThrough" by code_simp
  show "tc_requires_approval (get_capabilities (secured_registry no_hooks) ''shell'')" by code_simp
qed simp

text \<open>The refusal of a dangerous command is masked by a question of the operator's hook: the hooks stop at
  the first objection, and in bypass mode the gate waives a hook's question, so a command the built-in
  hook would refuse is let through with nobody asked.\<close>

theorem question_masks_refusal:
  assumes "active_hooks r = with_security_hooks u config (add_policy ask no_hooks)"
    and "is_needs_approval (ask name args ctx)"
    and "evaluate_permissions e r name args ctx = AllowNow"
    and "effective_mode (rg_permissions r) (cx_conversation_id ctx) = Bypass"
  shows "is_allow (fst (run_gate e name args ctx r))"
proof -
  have "run_policy (active_hooks r) name args ctx = ask name args ctx"
    using assms(1,2)
    by (cases "ask name args ctx")
       (simp_all add: security_policy_hooks add_policy_def no_hooks_def run_policy_def)
  then show ?thesis
    unfolding run_gate_fst is_allow_guardian gate_allow_iff using assms(2-4) by (simp add: Let_def)
qed

end
