(* ===== verification/Shell_Tool.thy ===== *)
theory Shell_Tool
  imports Tool_Gate "HOL-Library.List_Lexorder" "HOL-Library.Char_ord"
begin

text \<open>
  The shell tool (\<open>tools/shell.rs\<close>), the write fence of a process request
  (\<open>tools/process_runner/mod.rs\<close>), and the second half of the escalation module
  (\<open>tools/escalation.rs\<close>): what happens when the fence refuses a command.

  The process runner is a parameter: a function from the request to the output of the process or an
  error, its output as text. Every request handed to it is an entry of the list \<open>ss_runs\<close>, so
  that \<open>the command ran outside the fence\<close> is a request without a fence in that list.
\<close>

section \<open>Process requests\<close>

datatype namespace_posture = Ns_Auto | Ns_Off | Ns_Require

record write_fence =
  wf_workspace_root :: string
  wf_allowed_paths :: "string list"
  wf_deny_network :: bool
  wf_protected_paths :: "string list"
  wf_namespaces :: namespace_posture

definition protected_write_names :: "string list" where
  "protected_write_names = [''.git'', ''.syscity'']"

definition new_fence :: "string \<Rightarrow> string list \<Rightarrow> bool \<Rightarrow> namespace_posture \<Rightarrow> write_fence" where
  "new_fence root allowed net ns =
     \<lparr>wf_workspace_root = root, wf_allowed_paths = allowed, wf_deny_network = net,
      wf_protected_paths =
        concat (map (\<lambda>r. map (path_join r) protected_write_names) (root # allowed)),
      wf_namespaces = ns\<rparr>"

datatype execution_backend = Local_Backend | Named_Backend string

record process_request =
  pr_argv :: "string list"
  pr_fence :: "write_fence option"
  pr_cwd :: "string option"
  pr_env_clear :: bool
  pr_env :: "(string \<times> string) list"
  pr_timeout :: "int option"
  pr_limits :: bool
  pr_backend :: execution_backend

datatype exit_status = Exited int | Killed_By int

record command_output =
  co_status :: "exit_status option"
  co_signal :: "int option"
  co_stdout :: string
  co_stderr :: string
  co_timed_out :: bool

definition output_success :: "command_output \<Rightarrow> bool" where
  "output_success out \<longleftrightarrow> co_status out = Some (Exited 0)"

definition exit_code :: "command_output \<Rightarrow> int option" where
  "exit_code out = (case co_status out of Some (Exited c) \<Rightarrow> Some c | _ \<Rightarrow> None)"

datatype process_error =
    EmptyArgv
  | Spawn_Error string string
  | Process_Timeout int
  | Unsupported
  | Sandbox_Unavailable string
  | BackendUnavailable string string

section \<open>Printing\<close>

definition show_int :: "int \<Rightarrow> string" where
  "show_int i = (if i < 0 then ''-'' @ show_nat (nat (- i)) else show_nat (nat i))"

text \<open>The \<open>Debug\<close> text of a duration in nanoseconds: the largest unit with a whole part, and
  the fraction without its trailing zeros.\<close>

fun fraction_digits :: "nat \<Rightarrow> nat \<Rightarrow> string" where
  "fraction_digits 0 frac = []"
| "fraction_digits (Suc n) frac =
     (if frac = 0 then [] else char_of (48 + frac div 10 ^ n) # fraction_digits n (frac mod 10 ^ n))"

definition show_unit :: "nat \<Rightarrow> nat \<Rightarrow> string \<Rightarrow> string" where
  "show_unit d n unit =
     (let frac = n mod 10 ^ d
      in show_nat (n div 10 ^ d) @ (if frac = 0 then [] else ''.'' @ fraction_digits d frac) @ unit)"

definition debug_duration :: "int \<Rightarrow> string" where
  "debug_duration t =
     (let n = nat t
      in if 1000000000 \<le> n then show_unit 9 n ''s''
         else if 1000000 \<le> n then show_unit 6 n ''ms''
         else if 1000 \<le> n then show_unit 3 n [CHR 0xB5, CHR ''s'']
         else show_unit 0 n ''ns'')"

text \<open>The text of the errors, from their \<open>error\<close> attributes.\<close>

definition error_text :: "process_error \<Rightarrow> string" where
  "error_text err =
     (case err of
        EmptyArgv \<Rightarrow> ''no executable specified''
      | Spawn_Error program source \<Rightarrow> ''failed to spawn '' @ quoted program @ '': '' @ source
      | Process_Timeout d \<Rightarrow> ''process timed out after '' @ debug_duration d
      | Unsupported \<Rightarrow> ''process execution is not supported on this platform''
      | Sandbox_Unavailable reason \<Rightarrow> ''sandbox unavailable: '' @ reason
      | BackendUnavailable backend reason \<Rightarrow> ''the '' @ backend @ '' backend cannot run: '' @ reason)"

section \<open>Context and state\<close>

text \<open>What the tool reads of its context beyond the fields of the gate, and of the machine.\<close>

record shell_context =
  sx_ctx :: tool_context
  sx_environment :: "(string \<times> string) list"
  sx_fence_network :: bool
  sx_fence_namespaces :: namespace_posture
  sx_backends :: "string list"
  sx_sandboxed :: bool

record shell_env =
  se_host :: host
  se_shell_var :: "string option"
  se_run :: "process_request \<Rightarrow> process_error + command_output"
  se_elapsed :: int
  se_now :: int
  se_uuid :: string
  se_human :: "pending_approval \<Rightarrow> wait_outcome"

record shell_tool =
  sh_default_cwd :: "string option"
  sh_max_output_size :: nat

record shell_state =
  ss_queue :: "approval_queue option"
  ss_runs :: "process_request list"

definition default_shell_tool :: shell_tool where
  "default_shell_tool = \<lparr>sh_default_cwd = None, sh_max_output_size = 256 * 1024\<rparr>"

definition truncate_output :: "shell_tool \<Rightarrow> string \<Rightarrow> string" where
  "truncate_output tool out = head_tail_truncate out (sh_max_output_size tool)"

definition allowed_shells :: "string list" where
  "allowed_shells = [''/bin/sh'', ''/bin/bash'', ''/usr/bin/bash'', ''/bin/zsh'', ''/usr/bin/zsh'']"

definition resolve_shell :: "string option \<Rightarrow> string" where
  "resolve_shell var =
     (case var of Some s \<Rightarrow> if s \<in> set allowed_shells then s else ''/bin/sh'' | None \<Rightarrow> ''/bin/sh'')"

section \<open>Control operators\<close>

fun control_loop :: "string \<Rightarrow> bool \<Rightarrow> bool \<Rightarrow> bool" where
  "control_loop [] in_single in_double = False"
| "control_loop (ch # cs) in_single in_double =
     (let s = (if ch = squote \<and> \<not> in_double then \<not> in_single else in_single);
          d = (if \<not> (ch = squote \<and> \<not> in_double) \<and> ch = dquote \<and> \<not> in_single
               then \<not> in_double else in_double)
      in if s \<or> d then control_loop cs s d
         else if ch \<in> {semicolon, bar, ampersand, CHR 0x60} then True
         else if ch = CHR ''$'' \<and> starts_with cs ''('' then True
         else control_loop cs s d)"

text \<open>What follows the first white space after the leading word.\<close>

definition after_word :: "string \<Rightarrow> string" where
  "after_word cmd = drop 1 (dropWhile (\<lambda>c. \<not> is_whitespace c) (trim_start cmd))"

definition contains_shell_control :: "string \<Rightarrow> bool" where
  "contains_shell_control cmd = control_loop (after_word cmd) False False"

section \<open>Escalation after a refusal\<close>

definition fence_denial_reason :: "string \<Rightarrow> string option" where
  "fence_denial_reason stderr =
     (let lowered = to_lowercase stderr
      in if str_contains lowered ''operation not permitted''
         then Some ''the workspace fence refused it (operation not permitted)''
         else if str_contains lowered ''read-only file system''
         then Some ''the workspace fence refused it (read-only file system)''
         else None)"

definition process_run ::
  "shell_env \<Rightarrow> process_request \<Rightarrow> shell_state \<Rightarrow> (process_error + command_output) \<times> shell_state" where
  "process_run e req s = (se_run e req, s\<lparr>ss_runs := ss_runs s @ [req]\<rparr>)"

definition escalation_request ::
  "shell_env \<Rightarrow> tool_context \<Rightarrow> string \<Rightarrow> json \<Rightarrow> string \<Rightarrow> pending_approval" where
  "escalation_request e ctx tool_name args reason =
     with_response_tx 0 (with_session (Some (cx_conversation_id ctx))
       (with_message (''Run outside the workspace fence? '' @ reason
          @ ''. The first attempt may already have had effects '' @ em_dash
          @ '' the fence refuses the write, not the process.'')
         (with_risk_level High
           (new_approval (se_now e) (''escalation-'' @ se_uuid e) tool_name args (cx_user_id ctx)))))"

definition escalate_and_rerun ::
  "shell_env \<Rightarrow> tool_context \<Rightarrow> string \<Rightarrow> json \<Rightarrow> process_request \<Rightarrow> string \<Rightarrow> shell_state
     \<Rightarrow> command_output option \<times> shell_state" where
  "escalate_and_rerun e ctx tool_name args req reason s =
     (if pr_fence req = None then (None, s)
      else if \<not> can_ask_a_human ctx then (None, s)
      else case ss_queue s of
          None \<Rightarrow> (None, s)
        | Some q \<Rightarrow>
            (let pa = escalation_request e ctx tool_name args reason;
                 q1 = snd (submit pa q)
             in case se_human e pa of
                  Answered Approve \<Rightarrow>
                    (let s1 = s\<lparr>ss_queue := Some (snd (resolve (pa_id pa) Approve q1))\<rparr>;
                         (res, s2) = process_run e (req\<lparr>pr_fence := None\<rparr>) s1
                     in (case res of Inr out \<Rightarrow> Some out | Inl _ \<Rightarrow> None, s2))
                | Answered (Deny_Approval r) \<Rightarrow>
                    (None, s\<lparr>ss_queue := Some (snd (resolve (pa_id pa) (Deny_Approval r) q1))\<rparr>)
                | Channel_Closed \<Rightarrow> (None, s\<lparr>ss_queue := Some q1\<rparr>)
                | Wait_Timeout \<Rightarrow> (None, s\<lparr>ss_queue := Some q1\<rparr>)))"

section \<open>The tool\<close>

definition execution_backend_error :: "string list \<Rightarrow> string \<Rightarrow> string" where
  "execution_backend_error available name =
     (if available = [] then
        ''no execution backends are configured, so '' @ quoted name
        @ '' does not exist; this command can only run locally''
      else ''no execution backend named '' @ quoted name @ ''; configured: '' @ join_with '', '' available)"

definition execution_backend_names :: "shell_context \<Rightarrow> string list" where
  "execution_backend_names sx = sort (sx_backends sx)"

definition working_dir :: "shell_env \<Rightarrow> shell_tool \<Rightarrow> shell_context \<Rightarrow> json \<Rightarrow> string" where
  "working_dir e tool sx args =
     (case get_str ''working_dir'' args of
        Some p \<Rightarrow> resolve_path (se_host e) (sx_ctx sx) p
      | None \<Rightarrow> (case sh_default_cwd tool of
          Some d \<Rightarrow> d
        | None \<Rightarrow> workspace_root (se_host e) (sx_ctx sx)))"

definition shell_request :: "shell_env \<Rightarrow> shell_tool \<Rightarrow> shell_context \<Rightarrow> json \<Rightarrow> string \<Rightarrow> process_request" where
  "shell_request e tool sx args cmd =
     \<lparr>pr_argv = [resolve_shell (se_shell_var e), ''-c'', cmd],
      pr_fence =
        (if cx_workspace_only (sx_ctx sx)
         then Some (new_fence (workspace_root (se_host e) (sx_ctx sx)) (cx_allowed_paths (sx_ctx sx))
                      (sx_fence_network sx) (sx_fence_namespaces sx))
         else None),
      pr_cwd = Some (working_dir e tool sx args), pr_env_clear = True, pr_env = sx_environment sx,
      pr_timeout = Some (cx_timeout (sx_ctx sx)), pr_limits = sx_sandboxed sx,
      pr_backend = Local_Backend\<rparr>"

text \<open>The backend a call names: \<open>None\<close> for none, \<open>Inl\<close> for an unknown one.\<close>

definition select_backend :: "shell_context \<Rightarrow> json \<Rightarrow> (string + execution_backend) option" where
  "select_backend sx args =
     (case get_str ''execution'' args of
        None \<Rightarrow> None
      | Some raw \<Rightarrow>
          (let name = trim raw
           in if name = [] then None
              else if name \<in> set (sx_backends sx) then Some (Inr (Named_Backend name))
              else Some (Inl name)))"

definition run_and_escalate ::
  "shell_env \<Rightarrow> shell_context \<Rightarrow> json \<Rightarrow> process_request \<Rightarrow> shell_state
     \<Rightarrow> ((process_error + command_output) \<times> bool) \<times> shell_state" where
  "run_and_escalate e sx args req s =
     (let (res, s1) = process_run e req s
      in case res of
           Inr out \<Rightarrow>
             (if \<not> output_success out \<and> \<not> co_timed_out out then
                (case fence_denial_reason (co_stderr out) of
                   Some reason \<Rightarrow>
                     (case escalate_and_rerun e (sx_ctx sx) ''shell'' args req reason s1 of
                        (Some retry, s2) \<Rightarrow> ((Inr retry, True), s2)
                      | (None, s2) \<Rightarrow> ((Inr out, False), s2))
                 | None \<Rightarrow> ((Inr out, False), s1))
              else ((Inr out, False), s1))
         | Inl err \<Rightarrow> ((Inl err, False), s1))"

definition json_int :: "int option \<Rightarrow> json" where
  "json_int i = (case i of Some n \<Rightarrow> JNumber (show_int n) | None \<Rightarrow> JNull)"

definition result_data :: "shell_env \<Rightarrow> bool \<Rightarrow> command_output \<Rightarrow> json" where
  "result_data e escalated out =
     JObject [(''exit_code'', json_int (exit_code out)), (''signal'', json_int (co_signal out)),
       (''timed_out'', JBool (co_timed_out out)),
       (''duration_ms'', JNumber (show_int (se_elapsed e div 1000000))), (''escalated'', JBool escalated)]"

definition with_outcome :: "shell_env \<Rightarrow> json \<Rightarrow> tool_result \<Rightarrow> tool_result" where
  "with_outcome e data r = r\<lparr>tr_data := Some data, tr_execution_time := se_elapsed e\<rparr>"

definition combined_output :: "bool \<Rightarrow> command_output \<Rightarrow> string" where
  "combined_output escalated out =
     (let both = (if co_stderr out = [] then co_stdout out else co_stdout out @ co_stderr out)
      in if escalated
         then ''(ran outside the workspace fence, approved by the operator)'' @ newline @ both
         else both)"

definition shell_result ::
  "shell_env \<Rightarrow> shell_tool \<Rightarrow> shell_context \<Rightarrow> bool \<Rightarrow> process_error + command_output \<Rightarrow> tool_result" where
  "shell_result e tool sx escalated res =
     (case res of
        Inr out \<Rightarrow>
          (let combined = combined_output escalated out;
               truncated = truncate_output tool combined;
               data = result_data e escalated out;
               timeout = debug_duration (cx_timeout (sx_ctx sx))
           in if co_timed_out out then
                with_outcome e data (result_error
                  (if truncated = [] then ''Command timed out after '' @ timeout
                   else ''Command timed out after '' @ timeout @ ''. Partial output (''
                        @ show_nat (byte_len combined) @ '' bytes):'' @ newline @ truncated))
              else if output_success out then with_outcome e data (result_success truncated)
              else case co_signal out of
                  Some signal \<Rightarrow>
                    with_outcome e data (result_error
                      (''Terminated by signal '' @ show_int signal @ '': '' @ truncated))
                | None \<Rightarrow>
                    with_outcome e data (result_error
                      (''Exit code '' @ show_int (case exit_code out of Some c \<Rightarrow> c | None \<Rightarrow> - 1)
                       @ '': '' @ truncated)))
      | Inl (Process_Timeout d) \<Rightarrow> result_error (''Command timed out after '' @ debug_duration d)
      | Inl (Spawn_Error _ source) \<Rightarrow> result_error (''Execution failed: '' @ source)
      | Inl other \<Rightarrow> result_error (''Execution failed: '' @ error_text other))"

definition shell_execute ::
  "shell_env \<Rightarrow> shell_tool \<Rightarrow> shell_context \<Rightarrow> json \<Rightarrow> shell_state
     \<Rightarrow> (syscity_error + tool_result) \<times> shell_state" where
  "shell_execute e tool sx args s =
     (case get_str ''command'' args of
        None \<Rightarrow> (Inl (Validation (''Missing '' @ quoted ''command'' @ '' argument'')), s)
      | Some cmd \<Rightarrow>
          (if \<not> is_command_allowed (sx_ctx sx) cmd then
             (Inr (result_error (''Command '' @ quoted cmd @ '' is not in the allowlist'')), s)
           else if cx_allowed_commands (sx_ctx sx) \<noteq> [] \<and> contains_shell_control cmd then
             (Inr (result_error (''Command '' @ quoted cmd @ '' contains shell control operators which ''
                @ ''are not permitted when command allowlisting is active'')), s)
           else if \<not> is_path_allowed (se_host e) (sx_ctx sx) (working_dir e tool sx args) then
             (Inr (result_error (''Working directory '' @ quoted (working_dir e tool sx args)
                @ '' is outside the workspace or not in the allowlist'')), s)
           else case select_backend sx args of
               Some (Inl name) \<Rightarrow>
                 (Inr ((result_error (execution_backend_error (execution_backend_names sx) name))
                    \<lparr>tr_execution_time := se_elapsed e\<rparr>), s)
             | backend \<Rightarrow>
                 (let req = (case backend of
                        Some (Inr b) \<Rightarrow> (shell_request e tool sx args cmd)\<lparr>pr_backend := b\<rparr>
                      | _ \<Rightarrow> shell_request e tool sx args cmd);
                      ((res, escalated), s1) = run_and_escalate e sx args req s
                  in (Inr (shell_result e tool sx escalated res), s1))))"

section \<open>Laws\<close>

text \<open>Approval of leaving the fence: a person approved the request that names this call.\<close>

definition escape_approved ::
  "shell_env \<Rightarrow> tool_context \<Rightarrow> json \<Rightarrow> shell_state \<Rightarrow> bool" where
  "escape_approved e ctx args s \<longleftrightarrow>
     can_ask_a_human ctx \<and> ss_queue s \<noteq> None \<and>
     (\<exists>reason \<in> {''the workspace fence refused it (operation not permitted)'',
                   ''the workspace fence refused it (read-only file system)''}.
        se_human e (escalation_request e ctx ''shell'' args reason) = Answered Approve)"

lemma fence_denial_reason_range:
  "fence_denial_reason t = Some reason \<Longrightarrow>
     reason \<in> {''the workspace fence refused it (operation not permitted)'',
                ''the workspace fence refused it (read-only file system)''}"
  by (auto simp: fence_denial_reason_def Let_def split: if_splits)

lemma escalate_runs:
  assumes "escalate_and_rerun e ctx name args req reason s = (out, s')"
  shows "ss_runs s' = ss_runs s \<and> out = None \<or>
    ss_runs s' = ss_runs s @ [req\<lparr>pr_fence := None\<rparr>] \<and> pr_fence req \<noteq> None \<and> can_ask_a_human ctx \<and>
    ss_queue s \<noteq> None \<and> se_human e (escalation_request e ctx name args reason) = Answered Approve"
  using assms
  by (auto simp: escalate_and_rerun_def process_run_def Let_def
      split: if_splits option.splits wait_outcome.splits approval_decision.splits)

lemma run_and_escalate_cases:
  assumes "run_and_escalate e sx args req s = ((res, esc), s')"
  shows "(s' = s\<lparr>ss_runs := ss_runs s @ [req]\<rparr> \<and> \<not> esc) \<or>
    (\<exists>t reason. fence_denial_reason t = Some reason \<and>
       escalate_and_rerun e (sx_ctx sx) ''shell'' args req reason (s\<lparr>ss_runs := ss_runs s @ [req]\<rparr>) = (None, s') \<and>
       \<not> esc) \<or>
    (\<exists>t reason retry. fence_denial_reason t = Some reason \<and>
       escalate_and_rerun e (sx_ctx sx) ''shell'' args req reason (s\<lparr>ss_runs := ss_runs s @ [req]\<rparr>) =
         (Some retry, s'))"
  using assms unfolding run_and_escalate_def process_run_def
  by (cases "se_run e req") (auto split: if_splits option.splits prod.splits)

lemma run_and_escalate_runs:
  assumes "run_and_escalate e sx args req s = ((res, esc), s')"
  shows "ss_runs s' = ss_runs s @ [req] \<and> \<not> esc \<or>
    ss_runs s' = ss_runs s @ [req, req\<lparr>pr_fence := None\<rparr>] \<and> pr_fence req \<noteq> None \<and>
    escape_approved e (sx_ctx sx) args s"
  using run_and_escalate_cases [OF assms]
proof (elim disjE exE conjE)
  fix t reason
  assume "fence_denial_reason t = Some reason" "\<not> esc"
    "escalate_and_rerun e (sx_ctx sx) ''shell'' args req reason (s\<lparr>ss_runs := ss_runs s @ [req]\<rparr>) = (None, s')"
  then show ?thesis
    using escalate_runs fence_denial_reason_range unfolding escape_approved_def by fastforce
next
  fix t reason retry
  assume "fence_denial_reason t = Some reason"
    "escalate_and_rerun e (sx_ctx sx) ''shell'' args req reason (s\<lparr>ss_runs := ss_runs s @ [req]\<rparr>) = (Some retry, s')"
  then show ?thesis
    using escalate_runs fence_denial_reason_range unfolding escape_approved_def by fastforce
qed simp

text \<open>The requests a call can hand to the process runner.\<close>

definition call_request :: "shell_env \<Rightarrow> shell_tool \<Rightarrow> shell_context \<Rightarrow> json \<Rightarrow> process_request \<Rightarrow> bool" where
  "call_request e tool sx args req \<longleftrightarrow>
     (\<exists>cmd b. get_str ''command'' args = Some cmd \<and>
        is_command_allowed (sx_ctx sx) cmd \<and>
        (cx_allowed_commands (sx_ctx sx) = [] \<or> \<not> contains_shell_control cmd) \<and>
        is_path_allowed (se_host e) (sx_ctx sx) (working_dir e tool sx args) \<and>
        req = (shell_request e tool sx args cmd)\<lparr>pr_backend := b\<rparr>)"

lemma shell_execute_runs:
  assumes "shell_execute e tool sx args s = (res, s')"
  shows "s' = s \<or>
    (\<exists>req out esc. call_request e tool sx args req \<and> run_and_escalate e sx args req s = ((out, esc), s') \<and>
       res = Inr (shell_result e tool sx esc out))"
proof -
  have local: "(shell_request e tool sx args cmd)\<lparr>pr_backend := Local_Backend\<rparr> =
      shell_request e tool sx args cmd" for cmd
    by (simp add: shell_request_def)
  show ?thesis
    using assms unfolding shell_execute_def call_request_def
    by (auto simp: Let_def split: option.splits if_splits sum.splits prod.splits)
       (metis local)+
qed

lemma shell_request_fence:
  "cx_workspace_only (sx_ctx sx) \<Longrightarrow> call_request e tool sx args req \<Longrightarrow>
   pr_fence req = Some (new_fence (workspace_root (se_host e) (sx_ctx sx)) (cx_allowed_paths (sx_ctx sx))
     (sx_fence_network sx) (sx_fence_namespaces sx))"
  by (auto simp: call_request_def shell_request_def)

text \<open>Where the scanner for control operators finds none, the splitter of chains finds one segment,
  on text without new lines and escapes.\<close>

lemma control_loop_one_segment:
  assumes "\<not> control_loop cs sq dq" "CHR 0x0A \<notin> set cs" "backslash \<notin> set cs"
  shows "chain_loop cs cur sq dq segs = snd (end_segment (cur @ cs) segs)"
  using assms
proof (induction cs arbitrary: cur sq dq)
  case (Cons ch cs)
  let ?s = "if ch = squote \<and> \<not> dq then \<not> sq else sq"
  let ?d = "if ch = dquote \<and> \<not> sq then \<not> dq else dq"
  have d: "(if \<not> (ch = squote \<and> \<not> dq) \<and> ch = dquote \<and> \<not> sq then \<not> dq else dq) = ?d" by auto
  have rest: "\<not> control_loop cs ?s ?d" and op: "?s \<or> ?d \<or> ch \<notin> {semicolon, bar, ampersand}"
    using Cons.prems(1) by (auto simp: Let_def d split: if_splits)
  have "is_operator ch \<longrightarrow> sq \<or> dq"
    using op Cons.prems(2) by (auto simp: is_operator_def)
  then have "chain_loop (ch # cs) cur sq dq segs = chain_loop cs (cur @ [ch]) ?s ?d segs"
    using Cons.prems(3) by (intro chain_loop_step_other) auto
  also have "\<dots> = snd (end_segment ((cur @ [ch]) @ cs) segs)"
    by (rule Cons.IH [OF rest]) (use Cons.prems in auto)
  finally show ?case by simp
qed simp

lemma chain_loop_plain:
  assumes "plain_text p" "no_operator p"
  shows "chain_loop (p @ cs) cur False False segs = chain_loop cs (cur @ p) False False segs"
  using assms
proof (induction p arbitrary: cur)
  case (Cons c p)
  then have c: "c \<noteq> backslash" "c \<noteq> squote" "c \<noteq> dquote" "\<not> is_operator c"
    and p: "plain_text p" "no_operator p"
    by (auto simp: plain_text_def no_operator_def)
  have "chain_loop (c # p @ cs) cur False False segs = chain_loop (p @ cs) (cur @ [c]) False False segs"
    using chain_loop_step_other [of c False False "p @ cs" cur segs] c by simp
  then show ?case using Cons.IH [OF p, of "cur @ [c]"] by simp
qed simp

lemma split_ws_word:
  "acc \<noteq> [] \<Longrightarrow> \<exists>ts. split_ws acc s = (acc @ takeWhile (\<lambda>c. \<not> is_whitespace c) s) # ts"
proof (induction s arbitrary: acc)
  case (Cons c s)
  then show ?case using Cons.IH [of "acc @ [c]"] by auto
qed simp

lemma split_ws_skip: "split_ws [] s = split_ws [] (trim_start s)"
  by (induction s) (auto simp: trim_start_def)

text \<open>The first word of a command.\<close>

definition leading_word :: "string \<Rightarrow> string" where
  "leading_word cmd = takeWhile (\<lambda>c. \<not> is_whitespace c) (trim_start cmd)"

lemma split_whitespace_leading:
  assumes "split_whitespace cmd = t # ts"
  shows "t = leading_word cmd"
proof -
  have "split_ws [] (trim_start cmd) = t # ts"
    using assms split_ws_skip by (simp add: split_whitespace_def)
  moreover obtain c cs where c: "trim_start cmd = c # cs"
    using calculation by (cases "trim_start cmd") auto
  moreover have "\<not> is_whitespace c"
    using c hd_dropWhile [of is_whitespace cmd] by (auto simp: trim_start_def)
  ultimately show ?thesis
    using split_ws_word [of "[c]" cs] by (auto simp: leading_word_def)
qed

lemma split_whitespace_blank: "split_whitespace cmd = [] \<longleftrightarrow> trim_start cmd = []"
proof (cases "trim_start cmd")
  case (Cons c cs)
  then have "\<not> is_whitespace c"
    using hd_dropWhile [of is_whitespace cmd] by (auto simp: trim_start_def)
  then show ?thesis
    using Cons split_ws_skip [of cmd] split_ws_word [of "[c]" cs] by (auto simp: split_whitespace_def)
qed (use split_ws_skip [of cmd] in \<open>simp add: split_whitespace_def\<close>)

lemma trim_nonblank: "trim s \<noteq> [] \<Longrightarrow> trim_start s \<noteq> []"
  by (auto simp: trim_def trim_end_def)

lemma command_shape:
  obtains lead tail where "cmd = lead @ leading_word cmd @ tail" "\<forall>c \<in> set lead. is_whitespace c"
    "tail = [] \<and> after_word cmd = [] \<or> (\<exists>c. is_whitespace c \<and> tail = c # after_word cmd)"
proof -
  define tail where "tail = dropWhile (\<lambda>c. \<not> is_whitespace c) (trim_start cmd)"
  obtain lead where l: "cmd = lead @ trim_start cmd" "\<forall>c \<in> set lead. is_whitespace c"
    using trim_start_suffix by blast
  have "trim_start cmd = leading_word cmd @ tail" by (simp add: leading_word_def tail_def)
  moreover have "tail = [] \<and> after_word cmd = [] \<or> (\<exists>c. is_whitespace c \<and> tail = c # after_word cmd)"
  proof (cases tail)
    case (Cons c r)
    then have "is_whitespace c"
      using hd_dropWhile [of "\<lambda>c. \<not> is_whitespace c" "trim_start cmd"] unfolding tail_def by auto
    then show ?thesis using Cons unfolding after_word_def tail_def by simp
  next
    case Nil
    then have "after_word cmd = []" unfolding after_word_def tail_def [symmetric] by simp
    with Nil show ?thesis by simp
  qed
  ultimately show thesis using that l by metis
qed

lemma whitespace_plain:
  assumes "\<forall>c \<in> set s. is_whitespace c" "CHR 0x0A \<notin> set s"
  shows "plain_text s" "no_operator s"
proof -
  have "plain_text s \<and> no_operator s"
    using assms
  proof (induction s)
    case (Cons c s)
    then have "is_whitespace c" "c \<noteq> CHR 0x0A" by auto
    then have "c \<notin> {backslash, squote, dquote}" "\<not> is_operator c"
      unfolding is_whitespace_def is_operator_def by auto
    then show ?case using Cons by (auto simp: plain_text_def no_operator_def)
  qed (simp add: plain_text_def no_operator_def)
  then show "plain_text s" "no_operator s" by simp_all
qed

lemma plain_append: "plain_text (a @ b) \<longleftrightarrow> plain_text a \<and> plain_text b"
  "no_operator (a @ b) \<longleftrightarrow> no_operator a \<and> no_operator b"
  by (auto simp: plain_text_def no_operator_def)

lemma uncontrolled_command_one_segment:
  assumes "plain_text (leading_word cmd)" "no_operator (leading_word cmd)"
    and "\<not> contains_shell_control cmd" "CHR 0x0A \<notin> set cmd" "backslash \<notin> set cmd" "trim cmd \<noteq> []"
  shows "split_command_chain cmd = [trim cmd]"
proof -
  obtain lead tail where t: "cmd = lead @ leading_word cmd @ tail" "\<forall>c \<in> set lead. is_whitespace c"
    "tail = [] \<and> after_word cmd = [] \<or> (\<exists>c. is_whitespace c \<and> tail = c # after_word cmd)"
    by (rule command_shape)
  then obtain sp where sp: "tail = sp @ after_word cmd" "\<forall>c \<in> set sp. is_whitespace c"
    by (metis append_Cons append_Nil empty_iff set_ConsD set_empty)
  let ?p = "lead @ leading_word cmd @ sp"
  have cmd: "cmd = ?p @ after_word cmd" using t(1) sp(1) by simp
  then have nl: "CHR 0x0A \<notin> set ?p" "CHR 0x0A \<notin> set (after_word cmd)" "backslash \<notin> set (after_word cmd)"
    using assms(4,5) by (metis Un_iff set_append)+
  then have "plain_text ?p" "no_operator ?p"
    using assms(1,2) t(2) sp(2) whitespace_plain [of lead] whitespace_plain [of sp]
    by (auto simp: plain_append)
  then have "chain_loop (?p @ after_word cmd) [] False False [] = snd (end_segment (?p @ after_word cmd) [])"
    using control_loop_one_segment [OF assms(3) [unfolded contains_shell_control_def] nl(2,3), of "[] @ ?p" "[]"]
    by (simp only: chain_loop_plain append_Nil)
  then have "chain_loop cmd [] False False [] = snd (end_segment cmd [])" using cmd by metis
  then show ?thesis using assms(6) by (simp add: split_command_chain_def end_segment_def)
qed

section \<open>Properties\<close>

text \<open>C11. A command leaves the workspace fence only with the approval of a person. Under a workspace
  fence a call hands at most two requests to the process runner, both for the command and the directory that
  the context allows; the first carries the fence of the context, and a second one without a fence exists
  only when a person was asked about this very call and approved it. What is reported as run outside the
  fence was.\<close>

theorem shell_leaves_fence_only_on_approval:
  assumes "cx_workspace_only (sx_ctx sx)"
    and "shell_execute e tool sx args s = (res, s')"
  shows "\<exists>new. ss_runs s' = ss_runs s @ new \<and> length new \<le> 2 \<and>
    (\<forall>r \<in> set new. \<exists>cmd. get_str ''command'' args = Some cmd \<and>
       pr_argv r = [resolve_shell (se_shell_var e), ''-c'', cmd] \<and>
       is_command_allowed (sx_ctx sx) cmd \<and>
       pr_cwd r = Some (working_dir e tool sx args) \<and>
       is_path_allowed (se_host e) (sx_ctx sx) (working_dir e tool sx args) \<and>
       (pr_fence r = Some (new_fence (workspace_root (se_host e) (sx_ctx sx)) (cx_allowed_paths (sx_ctx sx))
            (sx_fence_network sx) (sx_fence_namespaces sx)) \<or>
        pr_fence r = None \<and> escape_approved e (sx_ctx sx) args s))"
  using shell_execute_runs [OF assms(2)]
proof (elim disjE exE conjE)
  assume "s' = s" then show ?thesis by (intro exI [of _ "[]"]) simp
next
  fix req out esc
  assume c: "call_request e tool sx args req" and r: "run_and_escalate e sx args req s = ((out, esc), s')"
  from c obtain cmd b where
    req: "get_str ''command'' args = Some cmd" "is_command_allowed (sx_ctx sx) cmd"
      "is_path_allowed (se_host e) (sx_ctx sx) (working_dir e tool sx args)"
      "req = (shell_request e tool sx args cmd)\<lparr>pr_backend := b\<rparr>"
    unfolding call_request_def by blast
  have f: "pr_fence req = Some (new_fence (workspace_root (se_host e) (sx_ctx sx))
      (cx_allowed_paths (sx_ctx sx)) (sx_fence_network sx) (sx_fence_namespaces sx))"
    by (rule shell_request_fence [OF assms(1) c])
  from run_and_escalate_runs [OF r] show ?thesis
  proof (elim disjE conjE)
    assume "ss_runs s' = ss_runs s @ [req]"
    then show ?thesis using req f by (intro exI [of _ "[req]"]) (simp add: shell_request_def)
  next
    assume "ss_runs s' = ss_runs s @ [req, req\<lparr>pr_fence := None\<rparr>]" "escape_approved e (sx_ctx sx) args s"
    then show ?thesis
      using req f by (intro exI [of _ "[req, req\<lparr>pr_fence := None\<rparr>]"]) (simp add: shell_request_def)
  qed
qed

definition sample_shell_ctx :: shell_context where
  "sample_shell_ctx = \<lparr>sx_ctx = sample_ctx, sx_environment = [], sx_fence_network = False,
     sx_fence_namespaces = Ns_Auto, sx_backends = [], sx_sandboxed = False\<rparr>"

definition sample_shell_env :: shell_env where
  "sample_shell_env = \<lparr>se_host = sample_host, se_shell_var = None,
     se_run = (\<lambda>req. if pr_fence req = None
        then Inr \<lparr>co_status = Some (Exited 0), co_signal = None, co_stdout = ''done'', co_stderr = [], co_timed_out = False\<rparr>
        else Inr \<lparr>co_status = Some (Exited 1), co_signal = None, co_stdout = [],
               co_stderr = ''mkdir: Operation not permitted'', co_timed_out = False\<rparr>),
     se_elapsed = 5000000, se_now = 0, se_uuid = ''1'', se_human = (\<lambda>pa. Answered Approve)\<rparr>"

definition sample_shell_state :: shell_state where
  "sample_shell_state = \<lparr>ss_queue = Some new_queue, ss_runs = []\<rparr>"

theorem shell_leaves_fence_only_on_approval_witness:
  "\<exists>new. ss_runs (snd (shell_execute sample_shell_env default_shell_tool sample_shell_ctx
       (shell_call ''mkdir /x'') sample_shell_state)) = [] @ new \<and> length new \<le> 2"
proof -
  have w: "cx_workspace_only (sx_ctx sample_shell_ctx)" by code_simp
  show ?thesis
    using shell_leaves_fence_only_on_approval [OF w prod.collapse [symmetric],
        of sample_shell_env default_shell_tool "shell_call ''mkdir /x''" sample_shell_state]
    by (auto simp: sample_shell_state_def)
qed

text \<open>When a command allowlist is active and its entries are plain words, a command that passes both
  tests of the tool and has neither a new line nor a backslash is a single command: the splitter of
  chains finds one segment, and its program is an allowed one.\<close>

theorem allowlisted_command_is_one_segment:
  assumes "cx_allowed_commands ctx \<noteq> []" and "is_command_allowed ctx cmd" and "\<not> contains_shell_control cmd"
    and "\<forall>a \<in> set (cx_allowed_commands ctx). plain_text a \<and> no_operator a"
    and "CHR 0x0A \<notin> set cmd" and "backslash \<notin> set cmd" and "trim cmd \<noteq> []"
  shows "split_command_chain cmd = [trim cmd] \<and> leading_word cmd \<in> set (cx_allowed_commands ctx)"
proof -
  obtain t ts where t: "split_whitespace cmd = t # ts"
    using split_whitespace_blank [of cmd] trim_nonblank [OF assms(7)] by (cases "split_whitespace cmd") auto
  then have w: "leading_word cmd \<in> set (cx_allowed_commands ctx)"
    using assms(1,2) split_whitespace_leading [OF t]
    by (simp add: is_command_allowed_def list_ex_iff)
  then show ?thesis using uncontrolled_command_one_segment [of cmd] assms by blast
qed

definition allowlist_ctx :: tool_context where
  "allowlist_ctx = sample_ctx\<lparr>cx_allowed_commands := [''ls'', ''echo'']\<rparr>"

theorem allowlisted_command_is_one_segment_witness:
  "split_command_chain ''ls -l a'' = [trim ''ls -l a''] \<and> leading_word ''ls -l a'' \<in> set (cx_allowed_commands allowlist_ctx)"
  by (rule allowlisted_command_is_one_segment [where ctx = allowlist_ctx]) code_simp+

text \<open>The two tests do not hold a command to the allowlist: a second line, a substitution inside double
  quotes, and an operator between escaped quotes all pass, and the shell runs the program behind
  them.\<close>

theorem allowlist_is_evaded:
  "\<forall>cmd \<in> set [''ls'' @ [CHR 0x0A] @ ''rm -rf work'',
                 ''ls '' @ [dquote] @ ''$(rm -rf work)'' @ [dquote],
                 ''echo '' @ [backslash, dquote] @ '' ; rm -rf work '' @ [backslash, dquote]].
     is_command_allowed allowlist_ctx cmd \<and> \<not> contains_shell_control cmd"
  by code_simp

lemma evaded_command_is_a_chain:
  "split_command_chain (''ls'' @ [CHR 0x0A] @ ''rm -rf work'') = [''ls'', ''rm -rf work'']"
  by code_simp

end
