(* ===== verification/File_Tools.thy ===== *)
theory File_Tools
  imports Tool_Gate
begin

text \<open>
  The file tools (\<open>tools/file.rs\<close>) and the guard that makes them read before they write
  (\<open>tools/write_guard.rs\<close>).

  A path is the list of its components, which is how \<open>PathBuf\<close> compares; the file system maps such
  paths to directories and files with their text and modification time, without links. Whether an
  operation of the machine fails is an argument, and so are the clock, the identifier of a temporary file and
  the matcher of the glob crate. The temporary file of an atomic write has a fresh name and is renamed or
  removed before the call returns (one that could not be written completely stays behind; it is not part of
  the state).
\<close>

section \<open>Files\<close>

type_synonym path = "string list"

datatype node = Dir int | File string int

record file_version =
  fv_mtime_nanos :: int
  fv_len :: nat

datatype io_op = Io_Metadata | Io_Read | Io_Read_String | Io_Copy | Io_Create_Dir | Io_Write | Io_Rename

text \<open>\<open>Path::file_stem\<close> and \<open>with_extension\<close> of a path with a file name.\<close>

definition file_name :: "path \<Rightarrow> string option" where
  "file_name p = (if p = [] \<or> last p \<in> {''/'', ''.'', ''..''} then None else Some (last p))"

definition file_stem :: "string \<Rightarrow> string" where
  "file_stem name =
     (let ext = takeWhile (\<lambda>c. c \<noteq> CHR ''.'') (rev name);
          before = take (length name - length ext - 1) name
      in if CHR ''.'' \<notin> set name \<or> before = [] then name else before)"

definition with_extension :: "string \<Rightarrow> path \<Rightarrow> path" where
  "with_extension ext p =
     (case file_name p of None \<Rightarrow> p | Some name \<Rightarrow> butlast p @ [file_stem name @ ''.'' @ ext])"

definition parent_path :: "path \<Rightarrow> path option" where
  "parent_path p = (if p = [] \<or> p = [''/''] then None else Some (butlast p))"

record file_env =
  fe_host :: host
  fe_now :: int
  fe_fails :: "io_op \<Rightarrow> path \<Rightarrow> string option"
  fe_glob :: "string \<Rightarrow> string + (string + string) list"

record file_state =
  fl_fs :: "(path \<times> node) list"
  fl_observed :: "((string \<times> path) \<times> file_version) list"
  fl_authored :: "(path \<times> string) list"

definition path_exists :: "file_state \<Rightarrow> path \<Rightarrow> bool" where
  "path_exists s p \<longleftrightarrow> map_of (fl_fs s) p \<noteq> None"

definition is_file :: "file_state \<Rightarrow> path \<Rightarrow> bool" where
  "is_file s p = (case map_of (fl_fs s) p of Some (File _ _) \<Rightarrow> True | _ \<Rightarrow> False)"

definition file_text :: "file_state \<Rightarrow> path \<Rightarrow> string" where
  "file_text s p = (case map_of (fl_fs s) p of Some (File t _) \<Rightarrow> t | _ \<Rightarrow> [])"

definition put_file :: "int \<Rightarrow> path \<Rightarrow> string \<Rightarrow> file_state \<Rightarrow> file_state" where
  "put_file now p text s = s\<lparr>fl_fs := AList.update p (File text now) (fl_fs s)\<rparr>"

section \<open>The write guard\<close>

datatype write_guard_error = MustReadFirst | StaleSinceRead

definition version_of :: "file_state \<Rightarrow> path \<Rightarrow> file_version option" where
  "version_of s p =
     (case map_of (fl_fs s) p of
        None \<Rightarrow> None
      | Some (Dir t) \<Rightarrow> Some \<lparr>fv_mtime_nanos = t, fv_len = 0\<rparr>
      | Some (File text t) \<Rightarrow> Some \<lparr>fv_mtime_nanos = t, fv_len = byte_len text\<rparr>)"

definition guard_record :: "string \<Rightarrow> path \<Rightarrow> file_state \<Rightarrow> file_state" where
  "guard_record conv p s =
     (case version_of s p of
        None \<Rightarrow> s
      | Some v \<Rightarrow> s\<lparr>fl_observed := AList.update (conv, p) v (fl_observed s)\<rparr>)"

definition guard_check :: "string \<Rightarrow> path \<Rightarrow> file_state \<Rightarrow> write_guard_error option" where
  "guard_check conv p s =
     (case version_of s p of
        None \<Rightarrow> None
      | Some current \<Rightarrow>
          (case map_of (fl_observed s) (conv, p) of
             None \<Rightarrow> Some MustReadFirst
           | Some v \<Rightarrow> if v \<noteq> current then Some StaleSinceRead else None))"

section \<open>Reading\<close>

definition max_file_size :: nat where
  "max_file_size = 1024 * 1024"

definition max_write_size :: nat where
  "max_write_size = 10 * 1024 * 1024"

text \<open>The comparisons with the two limits, computed on binary numbers.\<close>

definition over_read_limit :: "string \<Rightarrow> bool" where
  "over_read_limit body \<longleftrightarrow> max_file_size < byte_len body"

definition over_write_limit :: "string \<Rightarrow> bool" where
  "over_write_limit body \<longleftrightarrow> max_write_size < byte_len body"

lemma limit_code [code]:
  "over_read_limit body \<longleftrightarrow> 1048576 < int (byte_len body)"
  "over_write_limit body \<longleftrightarrow> 10485760 < int (byte_len body)"
  by (auto simp: over_read_limit_def over_write_limit_def max_file_size_def max_write_size_def)

definition is_binary :: "string \<Rightarrow> bool" where
  "is_binary data \<longleftrightarrow> CHR 0x00 \<in> set (byte_take 1024 data)"

definition truncate_content :: "string \<Rightarrow> nat \<Rightarrow> string" where
  "truncate_content text max_chars =
     (if max_chars < byte_len text
      then byte_take (floor_char_boundary text (min max_chars (byte_len text))) text
           @ newline @ ''[File truncated: '' @ show_nat (byte_len text) @ '' total characters]''
      else text)"

text \<open>\<open>Value::as_u64\<close> of a number.\<close>

definition as_u64 :: "json \<Rightarrow> nat option" where
  "as_u64 v =
     (case v of
        JNumber ds \<Rightarrow>
          (let n = foldl (\<lambda>n c. n * 10 + (of_char c - 48 :: int)) 0 ds
           in if ds \<noteq> [] \<and> list_all (\<lambda>c. 48 \<le> (of_char c :: nat) \<and> (of_char c :: nat) \<le> 57) ds \<and> n < 2 ^ 64
              then Some (nat n) else None)
      | _ \<Rightarrow> None)"

definition missing_argument :: "string \<Rightarrow> syscity_error" where
  "missing_argument k = Validation (''Missing '' @ quoted k @ '' argument'')"

definition outside_error :: "string \<Rightarrow> string" where
  "outside_error shown = ''Path '' @ quoted shown @ '' is outside the workspace or not in the allowlist''"

definition io_result :: "string \<Rightarrow> syscity_error + tool_result" where
  "io_result e = Inl (Tool_Failed e)"

text \<open>The first half of the read tool, up to the data; \<open>Inl\<close> is an early return.\<close>

definition file_read_data ::
  "file_env \<Rightarrow> tool_context \<Rightarrow> json \<Rightarrow> file_state \<Rightarrow> (syscity_error + tool_result) + (path \<times> string)" where
  "file_read_data e ctx args s =
     (case get_str ''path'' args of
        None \<Rightarrow> Inl (Inl (missing_argument ''path''))
      | Some raw \<Rightarrow>
          (let full = resolve_path (fe_host e) ctx raw;
               p = path_components full
           in if \<not> is_path_allowed (fe_host e) ctx full then Inl (Inr (result_error (outside_error full)))
              else if \<not> path_exists s p then
                Inl (Inr (result_error (''File '' @ quoted full @ '' does not exist'')))
              else if \<not> is_file s p then Inl (Inr (result_error (quoted full @ '' is not a file'')))
              else case fe_fails e Io_Metadata p of
                  Some err \<Rightarrow> Inl (io_result err)
                | None \<Rightarrow>
                    (if over_read_limit (file_text s p) then
                       Inl (Inr (result_error (''File '' @ quoted full @ '' is too large (''
                         @ show_nat (byte_len (file_text s p)) @ '' bytes, max '' @ show_nat max_file_size @ '')'')))
                     else case fe_fails e Io_Read p of
                         Some err \<Rightarrow> Inl (io_result err)
                       | None \<Rightarrow> Inr (p, file_text s p))))"

text \<open>The second half: the observation is recorded, then the data shown.\<close>

definition file_read_finish ::
  "bool \<Rightarrow> tool_context \<Rightarrow> json \<Rightarrow> path \<Rightarrow> string \<Rightarrow> file_state \<Rightarrow> tool_result \<times> file_state" where
  "file_read_finish guarded ctx args p data s =
     (let s1 = (if guarded then guard_record (cx_conversation_id ctx) p s else s)
      in (if is_binary data then result_success (''[Binary file: '' @ show_nat (byte_len data) @ '' bytes]'')
          else case Option.bind (json_get ''limit'' args) as_u64 of
              Some lim \<Rightarrow> result_success (truncate_content data lim)
            | None \<Rightarrow> result_success data, s1))"

definition file_read ::
  "bool \<Rightarrow> file_env \<Rightarrow> tool_context \<Rightarrow> json \<Rightarrow> file_state \<Rightarrow> (syscity_error + tool_result) \<times> file_state" where
  "file_read guarded e ctx args s =
     (case file_read_data e ctx args s of
        Inl res \<Rightarrow> (res, s)
      | Inr (p, data) \<Rightarrow>
          (let (res, s1) = file_read_finish guarded ctx args p data s in (Inr res, s1)))"

section \<open>Writing\<close>

text \<open>\<open>create_dir_all\<close>: every missing prefix becomes a directory; a prefix that is a file is an
  error.\<close>

fun make_dirs :: "int \<Rightarrow> path \<Rightarrow> string list \<Rightarrow> file_state \<Rightarrow> string + file_state" where
  "make_dirs now pre [] s = Inr s"
| "make_dirs now pre (c # cs) s =
     (let p = pre @ [c]
      in case map_of (fl_fs s) p of
           None \<Rightarrow> make_dirs now p cs (s\<lparr>fl_fs := AList.update p (Dir now) (fl_fs s)\<rparr>)
         | Some (Dir _) \<Rightarrow> make_dirs now p cs s
         | Some (File _ _) \<Rightarrow> Inl ''Not a directory'')"

definition create_dir_all :: "file_env \<Rightarrow> path \<Rightarrow> file_state \<Rightarrow> string + file_state" where
  "create_dir_all e p s =
     (case fe_fails e Io_Create_Dir p of Some err \<Rightarrow> Inl err | None \<Rightarrow> make_dirs (fe_now e) [] p s)"

definition atomic_write :: "file_env \<Rightarrow> path \<Rightarrow> string \<Rightarrow> file_state \<Rightarrow> string + file_state" where
  "atomic_write e p text s =
     (case fe_fails e Io_Write p of
        Some err \<Rightarrow> Inl err
      | None \<Rightarrow>
          (case fe_fails e Io_Rename p of
             Some err \<Rightarrow> Inl err
           | None \<Rightarrow>
               (case map_of (fl_fs s) p of
                  Some (Dir _) \<Rightarrow> Inl ''Is a directory''
                | _ \<Rightarrow> Inr (put_file (fe_now e) p text s))))"

definition copy_file :: "file_env \<Rightarrow> path \<Rightarrow> path \<Rightarrow> file_state \<Rightarrow> file_state" where
  "copy_file e src dst s =
     (case (fe_fails e Io_Copy src, map_of (fl_fs s) src, map_of (fl_fs s) dst) of
        (Some _, _, _) \<Rightarrow> s
      | (None, Some (File text _), Some (Dir _)) \<Rightarrow> s
      | (None, Some (File text _), _) \<Rightarrow> put_file (fe_now e) dst (if src = dst then [] else text) s
      | _ \<Rightarrow> s)"

definition guard_message :: "bool \<Rightarrow> string \<Rightarrow> write_guard_error \<Rightarrow> string" where
  "guard_message editing full err =
     (case err of
        MustReadFirst \<Rightarrow>
          (if editing then ''File '' @ quoted full @ '' has not been read in this conversation. ''
             @ ''Use file_read on it first, then edit.''
           else ''File '' @ quoted full @ '' already exists and has not been read in this conversation. ''
             @ ''Use file_read on it first, then write.'')
      | StaleSinceRead \<Rightarrow>
          ''File '' @ quoted full @ '' changed on disk since you last read it. Re-read it with file_read, ''
          @ (if editing then ''then apply your edit.'' else ''then apply your changes.''))"

text \<open>The note that an agent wrote a skill.\<close>

definition note_skill :: "file_env \<Rightarrow> tool_context \<Rightarrow> path \<Rightarrow> file_state \<Rightarrow> file_state" where
  "note_skill e ctx p s =
     (if file_name p = Some ''SKILL.md'' \<and> h_installed (fe_host e)
         \<and> take (length (path_components (h_skills_dir (fe_host e)))) p = path_components (h_skills_dir (fe_host e))
      then (case parent_path p of
              Some d \<Rightarrow> s\<lparr>fl_authored := fl_authored s @ [(d, cx_conversation_id ctx)]\<rparr>
            | None \<Rightarrow> s)
      else s)"

definition file_write ::
  "bool \<Rightarrow> bool \<Rightarrow> file_env \<Rightarrow> tool_context \<Rightarrow> json \<Rightarrow> file_state \<Rightarrow> (syscity_error + tool_result) \<times> file_state" where
  "file_write guarded backup e ctx args s =
     (case get_str ''path'' args of
        None \<Rightarrow> (Inl (missing_argument ''path''), s)
      | Some raw \<Rightarrow>
     (case get_str ''content'' args of
        None \<Rightarrow> (Inl (missing_argument ''content''), s)
      | Some text \<Rightarrow>
     (if over_write_limit text then
        (Inr (result_error (''Content too large: '' @ show_nat (byte_len text) @ '' bytes (max ''
           @ show_nat max_write_size @ '')'')), s)
      else
        let full = resolve_path (fe_host e) ctx raw; p = path_components full; conv = cx_conversation_id ctx
        in if \<not> is_path_allowed (fe_host e) ctx full then (Inr (result_error (outside_error full)), s)
           else case (if guarded then guard_check conv p s else None) of
               Some err \<Rightarrow> (Inr (result_error (guard_message False full err)), s)
             | None \<Rightarrow>
                 (let s1 = (if backup \<and> path_exists s p then copy_file e p (with_extension ''bak'' p) s else s)
                  in case (case parent_path p of Some d \<Rightarrow> create_dir_all e d s1 | None \<Rightarrow> Inr s1) of
                       Inl err \<Rightarrow> (io_result err, s1)
                     | Inr s2 \<Rightarrow>
                         (case atomic_write e p text s2 of
                            Inl err \<Rightarrow> (io_result err, s2)
                          | Inr s3 \<Rightarrow>
                              (Inr (result_success (''Successfully wrote '' @ show_nat (byte_len text)
                                 @ '' bytes to '' @ quoted full)),
                               note_skill e ctx p (if guarded then guard_record conv p s3 else s3)))))))"

section \<open>Editing\<close>

text \<open>\<open>str::replace\<close> and \<open>str::matches\<close>: from left to right, without overlaps. The
  empty pattern matches before every character and at the end.\<close>

function replace_str :: "string \<Rightarrow> string \<Rightarrow> string \<Rightarrow> string" where
  "replace_str old new [] = (if old = [] then new else [])"
| "replace_str old new (c # cs) =
     (if old = [] then new @ c # replace_str old new cs
      else if starts_with (c # cs) old then new @ replace_str old new (drop (length old) (c # cs))
      else c # replace_str old new cs)"
  by pat_completeness auto
termination by (relation "measure (\<lambda>(old, _, s). length s)") auto

function count_matches :: "string \<Rightarrow> string \<Rightarrow> nat" where
  "count_matches old [] = (if old = [] then 1 else 0)"
| "count_matches old (c # cs) =
     (if old = [] then 1 + count_matches old cs
      else if starts_with (c # cs) old then 1 + count_matches old (drop (length old) (c # cs))
      else count_matches old cs)"
  by pat_completeness auto
termination by (relation "measure (\<lambda>(old, s). length s)") auto

declare replace_str.simps [simp del] count_matches.simps [simp del]

definition file_edit ::
  "bool \<Rightarrow> file_env \<Rightarrow> tool_context \<Rightarrow> json \<Rightarrow> file_state \<Rightarrow> (syscity_error + tool_result) \<times> file_state" where
  "file_edit guarded e ctx args s =
     (case get_str ''path'' args of
        None \<Rightarrow> (Inl (missing_argument ''path''), s)
      | Some raw \<Rightarrow>
     (case get_str ''old_string'' args of
        None \<Rightarrow> (Inl (missing_argument ''old_string''), s)
      | Some old \<Rightarrow>
     (case get_str ''new_string'' args of
        None \<Rightarrow> (Inl (missing_argument ''new_string''), s)
      | Some new \<Rightarrow>
        (let full = resolve_path (fe_host e) ctx raw; p = path_components full; conv = cx_conversation_id ctx
         in if \<not> is_path_allowed (fe_host e) ctx full then (Inr (result_error (outside_error full)), s)
            else if \<not> path_exists s p then
              (Inr (result_error (''File '' @ quoted full @ '' does not exist'')), s)
            else case (if guarded then guard_check conv p s else None) of
                Some err \<Rightarrow> (Inr (result_error (guard_message True full err)), s)
              | None \<Rightarrow>
                  (case (if is_file s p then fe_fails e Io_Read_String p else Some ''Is a directory'') of
                     Some err \<Rightarrow> (io_result err, s)
                   | None \<Rightarrow>
                       (if \<not> str_contains (file_text s p) old then
                          (Inr (result_error (''Could not find text to replace in '' @ quoted full)), s)
                        else case atomic_write e p (replace_str old new (file_text s p)) s of
                            Inl err \<Rightarrow> (io_result err, s)
                          | Inr s1 \<Rightarrow>
                              (Inr (result_success (''Successfully made '' @ show_nat (count_matches old (file_text s p))
                                 @ '' replacement(s) in '' @ quoted full)),
                               if guarded then guard_record conv p s1 else s1)))))))"

section \<open>Searching\<close>

definition glob_search :: "file_env \<Rightarrow> tool_context \<Rightarrow> json \<Rightarrow> file_state \<Rightarrow> syscity_error + tool_result" where
  "glob_search e ctx args s =
     (case get_str ''pattern'' args of
        None \<Rightarrow> Inl (missing_argument ''pattern'')
      | Some pattern \<Rightarrow>
          (let base = (case get_str ''path'' args of
                         Some p \<Rightarrow> resolve_path (fe_host e) ctx p
                       | None \<Rightarrow> workspace_root (fe_host e) ctx)
           in if \<not> is_path_allowed (fe_host e) ctx base then Inr (result_error (outside_error base))
              else case fe_glob e (path_join base pattern) of
                  Inl err \<Rightarrow> Inr (result_error (''Invalid glob pattern: '' @ err))
                | Inr entries \<Rightarrow>
                    (let files = List.map_filter (\<lambda>x. case x of
                               Inr f \<Rightarrow> if is_file s (path_components f) then Some f else None
                             | Inl _ \<Rightarrow> None) (take 100 entries)
                     in Inr ((result_success
                          (if files = [] then ''No files found matching the pattern'' else join_with newline files))
                          \<lparr>tr_data := Some (JObject [(''count'', JNumber (show_nat (length files)))])\<rparr>))))"

section \<open>What a call changes\<close>

fun node_time :: "node \<Rightarrow> int" where
  "node_time (Dir t) = t"
| "node_time (File _ t) = t"

text \<open>Every node that differs was written at this time and lies among the paths \<open>Q\<close>.\<close>

definition changed_at :: "int \<Rightarrow> path set \<Rightarrow> file_state \<Rightarrow> file_state \<Rightarrow> bool" where
  "changed_at now Q s s' \<longleftrightarrow> (\<forall>p. map_of (fl_fs s') p = map_of (fl_fs s) p \<or>
     (p \<in> Q \<and> (\<exists>n. map_of (fl_fs s') p = Some n \<and> node_time n = now)))"

lemma changed_at_refl [simp]: "changed_at now Q s s" by (simp add: changed_at_def)

lemma changed_at_trans:
  "changed_at now Q s s' \<Longrightarrow> changed_at now Q s' s'' \<Longrightarrow> changed_at now Q s s''"
  unfolding changed_at_def by metis

lemma changed_at_mono: "changed_at now Q s s' \<Longrightarrow> Q \<subseteq> R \<Longrightarrow> changed_at now R s s'"
  unfolding changed_at_def by blast

lemma changed_put: "p \<in> Q \<Longrightarrow> changed_at now Q s (put_file now p text s)"
  by (auto simp: changed_at_def put_file_def)

text \<open>The directories above a path.\<close>

definition ancestors :: "path \<Rightarrow> path set" where
  "ancestors p = {q. \<exists>r. r \<noteq> [] \<and> p = q @ r}"

lemma make_dirs_changes:
  "make_dirs now pre cs s = Inr s' \<Longrightarrow>
   changed_at now {q. \<exists>r. pre @ cs = q @ r} s s' \<and> fl_observed s' = fl_observed s"
proof (induction now pre cs s rule: make_dirs.induct)
  case (2 now pre c cs s)
  let ?Q = "{q. \<exists>r. pre @ c # cs = q @ r}"
  have Q: "{q. \<exists>r. (pre @ [c]) @ cs = q @ r} \<subseteq> ?Q" by auto
  have c: "pre @ [c] \<in> ?Q" by auto
  show ?case
  proof (cases "map_of (fl_fs s) (pre @ [c])")
    case None
    let ?s = "s\<lparr>fl_fs := AList.update (pre @ [c]) (Dir now) (fl_fs s)\<rparr>"
    have "changed_at now ?Q s ?s" using c by (auto simp: changed_at_def)
    moreover have "changed_at now ?Q ?s s' \<and> fl_observed s' = fl_observed ?s"
      using 2 None by (auto simp: Let_def intro: changed_at_mono [OF _ Q])
    ultimately show ?thesis using changed_at_trans by auto
  next
    case (Some n)
    then show ?thesis using 2 by (cases n) (auto simp: Let_def intro: changed_at_mono [OF _ Q])
  qed
qed simp

lemma create_dir_all_changes:
  assumes "create_dir_all e d s = Inr s'" "p = d @ [c]"
  shows "changed_at (fe_now e) (ancestors p) s s' \<and> fl_observed s' = fl_observed s"
proof -
  have "make_dirs (fe_now e) [] d s = Inr s'"
    using assms(1) by (simp add: create_dir_all_def split: option.splits)
  then have "changed_at (fe_now e) {q. \<exists>r. [] @ d = q @ r} s s' \<and> fl_observed s' = fl_observed s"
    by (rule make_dirs_changes)
  moreover have "{q. \<exists>r. [] @ d = q @ r} \<subseteq> ancestors p" using assms(2) by (auto simp: ancestors_def)
  ultimately show ?thesis using changed_at_mono by blast
qed

lemma copy_file_changes:
  "changed_at (fe_now e) {dst} s (copy_file e src dst s) \<and> fl_observed (copy_file e src dst s) = fl_observed s"
  by (auto simp: copy_file_def changed_put put_file_def split: option.splits node.splits)
     (auto simp: changed_at_def)

lemma atomic_write_changes:
  assumes "atomic_write e p text s = Inr s'"
  shows "s' = put_file (fe_now e) p text s" and "\<forall>t. map_of (fl_fs s) p \<noteq> Some (Dir t)"
  using assms by (auto simp: atomic_write_def split: option.splits node.splits)

text \<open>The path a call names, and what a call with the guard may do: nodes change at the named path, its
  backup and its directories only, and the only observation that changes is that of the caller, to the
  version of the file that is there afterwards.\<close>

definition named_path :: "file_env \<Rightarrow> tool_context \<Rightarrow> json \<Rightarrow> path" where
  "named_path e ctx args =
     path_components (resolve_path (fe_host e) ctx (case get_str ''path'' args of Some p \<Rightarrow> p | None \<Rightarrow> []))"

definition succeeded :: "syscity_error + tool_result \<Rightarrow> bool" where
  "succeeded res = (case res of Inr r \<Rightarrow> tr_success r | Inl _ \<Rightarrow> False)"

definition tool_effect ::
  "int \<Rightarrow> string \<Rightarrow> path \<Rightarrow> bool \<Rightarrow> file_state \<Rightarrow> file_state \<Rightarrow> bool" where
  "tool_effect now conv p ok s s' \<longleftrightarrow>
     changed_at now (insert p (insert (with_extension ''bak'' p) (ancestors p))) s s' \<and>
     (if ok then is_file s' p \<and> (\<exists>v. version_of s' p = Some v \<and>
          fl_observed s' = AList.update (conv, p) v (fl_observed s))
      else fl_observed s' = fl_observed s)"

lemma guard_record_file:
  assumes "is_file s p"
  shows "fl_fs (guard_record c p s) = fl_fs s"
    and "\<exists>v. version_of s p = Some v \<and> fl_observed (guard_record c p s) = AList.update (c, p) v (fl_observed s)"
  using assms by (auto simp: guard_record_def version_of_def is_file_def split: option.splits node.splits)

lemma fs_cong:
  "fl_fs s = fl_fs s' \<Longrightarrow> version_of s p = version_of s' p"
  "fl_fs s = fl_fs s' \<Longrightarrow> is_file s p = is_file s' p" "fl_fs s = fl_fs s' \<Longrightarrow> file_text s p = file_text s' p"
  by (simp_all add: version_of_def is_file_def file_text_def)

lemma put_file_file: "is_file (put_file now p text s) p" "file_text (put_file now p text s) p = text"
  by (simp_all add: put_file_def is_file_def file_text_def)

lemma file_read_effect:
  assumes "file_read True e ctx args s = (res, s')"
  shows "tool_effect (fe_now e) (cx_conversation_id ctx) (named_path e ctx args) (succeeded res) s s' \<and> fl_fs s' = fl_fs s"
proof (cases "file_read_data e ctx args s")
  case (Inl r)
  then have "\<not> succeeded r"
    by (auto simp: file_read_data_def succeeded_def result_error_def io_result_def Let_def
        split: option.splits if_splits)
  then show ?thesis using assms Inl by (auto simp: file_read_def tool_effect_def)
next
  case (Inr pd)
  then obtain p data where pd: "pd = (p, data)" "p = named_path e ctx args" "is_file s p"
    by (auto simp: file_read_data_def named_path_def Let_def split: option.splits if_splits)
  note g = guard_record_file [OF pd(3), of "cx_conversation_id ctx"]
  have s': "s' = guard_record (cx_conversation_id ctx) p s" and "succeeded res"
    using assms Inr pd(1)
    by (auto simp: file_read_def file_read_finish_def succeeded_def result_success_def Let_def
        split: option.splits if_splits)
  then show ?thesis
    using g pd(2,3) fs_cong [OF g(1)] by (auto simp: tool_effect_def changed_at_def)
qed

lemma note_skill_fields [simp]:
  "fl_fs (note_skill e ctx p s) = fl_fs s" "fl_observed (note_skill e ctx p s) = fl_observed s"
  by (simp_all add: note_skill_def split: option.split)

lemma parent_path_split: "parent_path p = Some d \<Longrightarrow> \<exists>c. p = d @ [c]"
  by (auto simp: parent_path_def split: if_splits) (metis append_butlast_last_id)

text \<open>The state after the backup and the directories.\<close>

definition prepare_write :: "bool \<Rightarrow> file_env \<Rightarrow> path \<Rightarrow> file_state \<Rightarrow> file_state \<times> (string + file_state)" where
  "prepare_write backup e p s =
     (let s1 = (if backup \<and> path_exists s p then copy_file e p (with_extension ''bak'' p) s else s)
      in (s1, case parent_path p of Some d \<Rightarrow> create_dir_all e d s1 | None \<Rightarrow> Inr s1))"

lemma prepare_write_changes:
  assumes "prepare_write backup e p s = (s1, r)"
  shows "changed_at (fe_now e) (insert (with_extension ''bak'' p) (ancestors p)) s s1 \<and> fl_observed s1 = fl_observed s"
    and "r = Inr s2 \<Longrightarrow> changed_at (fe_now e) (insert (with_extension ''bak'' p) (ancestors p)) s s2 \<and>
      fl_observed s2 = fl_observed s"
proof -
  let ?Q = "insert (with_extension ''bak'' p) (ancestors p)"
  show c1: "changed_at (fe_now e) ?Q s s1 \<and> fl_observed s1 = fl_observed s"
  proof (cases "backup \<and> path_exists s p")
    case True
    then have s1: "s1 = copy_file e p (with_extension ''bak'' p) s" using assms by (auto simp: prepare_write_def Let_def)
    show ?thesis
      unfolding s1 using copy_file_changes [of e "with_extension ''bak'' p" s p]
      by (auto elim: changed_at_mono)
  next
    case False
    then have "s1 = s" using assms by (auto simp: prepare_write_def Let_def)
    then show ?thesis by simp
  qed
  assume r: "r = Inr s2"
  have "changed_at (fe_now e) ?Q s1 s2 \<and> fl_observed s2 = fl_observed s1"
  proof (cases "parent_path p")
    case None
    then show ?thesis using assms r by (auto simp: prepare_write_def Let_def)
  next
    case (Some d)
    then obtain c where "p = d @ [c]" using parent_path_split by blast
    moreover have "create_dir_all e d s1 = Inr s2" using assms r Some by (auto simp: prepare_write_def Let_def)
    ultimately have "changed_at (fe_now e) (ancestors p) s1 s2 \<and> fl_observed s2 = fl_observed s1"
      by (rule create_dir_all_changes [rotated])
    then show ?thesis using changed_at_mono [of "fe_now e" "ancestors p" s1 s2 ?Q] by blast
  qed
  then show "changed_at (fe_now e) ?Q s s2 \<and> fl_observed s2 = fl_observed s"
    using c1 changed_at_trans [of "fe_now e" ?Q s s1 s2] by simp
qed

text \<open>The write tool once its arguments, its size, its path and the guard have been checked.\<close>

lemma file_write_cases:
  assumes "file_write guarded backup e ctx args s = (res, s')"
  defines "p \<equiv> named_path e ctx args"
  shows "(\<not> succeeded res \<and> s' = s) \<or>
    (\<exists>body s1 r. get_str ''content'' args = Some body \<and>
       is_path_allowed (fe_host e) ctx (resolve_path (fe_host e) ctx (the (get_str ''path'' args))) \<and>
       (guarded \<longrightarrow> guard_check (cx_conversation_id ctx) p s = None) \<and>
       prepare_write backup e p s = (s1, r) \<and>
       ((\<not> succeeded res \<and> (s' = s1 \<or> r = Inr s')) \<or>
        (\<exists>s2. r = Inr s2 \<and> succeeded res \<and> (\<forall>t. map_of (fl_fs s2) p \<noteq> Some (Dir t)) \<and>
           s' = note_skill e ctx p (if guarded then guard_record (cx_conversation_id ctx) p (put_file (fe_now e) p body s2)
                                    else put_file (fe_now e) p body s2))))"
proof (cases "get_str ''path'' args")
  case None
  then show ?thesis using assms(1) by (auto simp: file_write_def succeeded_def missing_argument_def)
next
  case (Some raw)
  note raw = Some
  have p: "p = path_components (resolve_path (fe_host e) ctx raw)" by (simp add: p_def named_path_def raw)
  show ?thesis
  proof (cases "get_str ''content'' args")
    case None
    then show ?thesis using assms(1) raw by (auto simp: file_write_def succeeded_def missing_argument_def)
  next
    case (Some body)
    let ?full = "resolve_path (fe_host e) ctx raw"
    let ?g = "if guarded then guard_check (cx_conversation_id ctx) p s else None"
    show ?thesis
    proof (cases "over_write_limit body \<or> \<not> is_path_allowed (fe_host e) ctx ?full \<or> ?g \<noteq> None")
      case True
      then have "\<not> succeeded res \<and> s' = s"
        using assms(1) raw Some
        by (auto simp: file_write_def succeeded_def result_error_def Let_def p [symmetric] split: if_splits option.splits)
      then show ?thesis ..
    next
      case False
      obtain s1 r where pr: "prepare_write backup e p s = (s1, r)" by force
      have w: "(res, s') = (case r of Inl err \<Rightarrow> (io_result err, s1)
          | Inr s2 \<Rightarrow> (case atomic_write e p body s2 of
              Inl err \<Rightarrow> (io_result err, s2)
            | Inr s3 \<Rightarrow> (Inr (result_success (''Successfully wrote '' @ show_nat (byte_len body) @ '' bytes to '' @ quoted ?full)),
                note_skill e ctx p (if guarded then guard_record (cx_conversation_id ctx) p s3 else s3))))"
        using assms(1) raw Some False pr unfolding file_write_def prepare_write_def Let_def p
        by (auto split: if_splits)
      have "(\<not> succeeded res \<and> (s' = s1 \<or> r = Inr s')) \<or>
        (\<exists>s2. r = Inr s2 \<and> succeeded res \<and> (\<forall>t. map_of (fl_fs s2) p \<noteq> Some (Dir t)) \<and>
           s' = note_skill e ctx p (if guarded then guard_record (cx_conversation_id ctx) p (put_file (fe_now e) p body s2)
                                    else put_file (fe_now e) p body s2))"
        using w atomic_write_changes [of e p body]
        by (cases r; cases "atomic_write e p body (projr r)")
           (auto simp: succeeded_def io_result_def result_success_def split: sum.splits)
      then show ?thesis using raw Some False pr by (auto split: if_splits)
    qed
  qed
qed

lemma put_record_effect:
  assumes "changed_at (fe_now e) (insert p Q) s s2" "fl_observed s2 = fl_observed s"
    and s3: "s3 = put_file (fe_now e) p body s2" and s': "fl_fs s' = fl_fs s3"
    "fl_observed s' = fl_observed (guard_record c p s3)"
  shows "changed_at (fe_now e) (insert p Q) s s' \<and> is_file s' p \<and> file_text s' p = body \<and>
    (\<exists>v. version_of s' p = Some v \<and> fl_observed s' = AList.update (c, p) v (fl_observed s))"
proof -
  have "changed_at (fe_now e) (insert p Q) s2 s'"
    using changed_put [of p "insert p Q" "fe_now e" s2 body] s' s3 by (simp add: changed_at_def)
  with assms(1) have "changed_at (fe_now e) (insert p Q) s s'" by (rule changed_at_trans)
  moreover have "is_file s3 p" "file_text s3 p = body" by (simp_all add: s3 put_file_file)
  moreover have "fl_observed s3 = fl_observed s" using assms(2) by (simp add: s3 put_file_def)
  ultimately show ?thesis
    using guard_record_file(2) [of s3 p c] s' fs_cong [OF s'(1)] by simp
qed

lemma file_write_effect:
  assumes "file_write True backup e ctx args s = (res, s')"
  shows "tool_effect (fe_now e) (cx_conversation_id ctx) (named_path e ctx args) (succeeded res) s s'"
proof -
  let ?p = "named_path e ctx args" let ?Q = "insert (with_extension ''bak'' ?p) (ancestors ?p)"
  let ?c = "cx_conversation_id ctx"
  from file_write_cases [OF assms] show ?thesis
  proof (elim disjE exE conjE)
    fix body s1 r assume "prepare_write backup e ?p s = (s1, r)" "\<not> succeeded res" "s' = s1"
    then have "changed_at (fe_now e) ?Q s s' \<and> fl_observed s' = fl_observed s"
      using prepare_write_changes(1) by blast
    then show ?thesis using \<open>\<not> succeeded res\<close> by (auto simp: tool_effect_def elim: changed_at_mono)
  next
    fix body s1 r assume "prepare_write backup e ?p s = (s1, r)" "\<not> succeeded res" "r = Inr s'"
    then have "changed_at (fe_now e) ?Q s s' \<and> fl_observed s' = fl_observed s"
      using prepare_write_changes(2) by blast
    then show ?thesis using \<open>\<not> succeeded res\<close> by (auto simp: tool_effect_def elim: changed_at_mono)
  next
    fix body s1 r s2
    assume pr: "prepare_write backup e ?p s = (s1, r)" "r = Inr s2" and ok: "succeeded res"
      and s': "s' = note_skill e ctx ?p (if True then guard_record ?c ?p (put_file (fe_now e) ?p body s2)
                 else put_file (fe_now e) ?p body s2)"
    let ?s3 = "put_file (fe_now e) ?p body s2"
    have "fl_fs s' = fl_fs ?s3" "fl_observed s' = fl_observed (guard_record ?c ?p ?s3)"
      using s' guard_record_file(1) [OF put_file_file(1)] by simp_all
    moreover have "changed_at (fe_now e) (insert ?p ?Q) s s2" "fl_observed s2 = fl_observed s"
      using prepare_write_changes(2) [OF pr] by (auto elim: changed_at_mono)
    ultimately show ?thesis
      using put_record_effect [of e ?p ?Q s s2 ?s3 body s' ?c] ok by (auto simp: tool_effect_def)
  qed (auto simp: tool_effect_def)
qed

text \<open>The edit tool once everything has been checked.\<close>

lemma file_edit_cases:
  assumes "file_edit guarded e ctx args s = (res, s')"
  defines "p \<equiv> named_path e ctx args"
  shows "(\<not> succeeded res \<and> s' = s) \<or>
    (\<exists>old new. get_str ''old_string'' args = Some old \<and> get_str ''new_string'' args = Some new \<and>
       is_path_allowed (fe_host e) ctx (resolve_path (fe_host e) ctx (the (get_str ''path'' args))) \<and>
       (guarded \<longrightarrow> guard_check (cx_conversation_id ctx) p s = None) \<and>
       is_file s p \<and> str_contains (file_text s p) old \<and> succeeded res \<and>
       s' = (let s1 = put_file (fe_now e) p (replace_str old new (file_text s p)) s
             in if guarded then guard_record (cx_conversation_id ctx) p s1 else s1))"
proof (cases "get_str ''path'' args")
  case None
  then show ?thesis using assms(1) by (auto simp: file_edit_def succeeded_def missing_argument_def)
next
  case (Some raw)
  note raw = Some
  have p: "p = path_components (resolve_path (fe_host e) ctx raw)" by (simp add: p_def named_path_def raw)
  show ?thesis
  proof (cases "get_str ''old_string'' args = None \<or> get_str ''new_string'' args = None")
    case True
    then show ?thesis
      using assms(1) raw by (auto simp: file_edit_def succeeded_def missing_argument_def split: option.splits)
  next
    case False
    then obtain old new where on: "get_str ''old_string'' args = Some old" "get_str ''new_string'' args = Some new"
      by auto
    let ?full = "resolve_path (fe_host e) ctx raw"
    let ?g = "if guarded then guard_check (cx_conversation_id ctx) p s else None"
    let ?r = "if is_file s p then fe_fails e Io_Read_String p else Some ''Is a directory''"
    show ?thesis
    proof (cases "is_path_allowed (fe_host e) ctx ?full \<and> path_exists s p \<and> ?g = None \<and> ?r = None
        \<and> str_contains (file_text s p) old")
      case False
      then have "\<not> succeeded res \<and> s' = s"
        using assms(1) raw on unfolding file_edit_def Let_def p
        by (auto simp: succeeded_def result_error_def io_result_def split: if_splits option.splits)
      then show ?thesis ..
    next
      case True
      then have w: "(res, s') = (case atomic_write e p (replace_str old new (file_text s p)) s of
              Inl err \<Rightarrow> (io_result err, s)
            | Inr s1 \<Rightarrow> (Inr (result_success (''Successfully made '' @ show_nat (count_matches old (file_text s p))
                 @ '' replacement(s) in '' @ quoted ?full)),
                if guarded then guard_record (cx_conversation_id ctx) p s1 else s1))"
        using assms(1) raw on unfolding file_edit_def Let_def p by (simp split: if_splits)
      show ?thesis
      proof (cases "atomic_write e p (replace_str old new (file_text s p)) s")
        case (Inl err)
        then show ?thesis using w by (auto simp: succeeded_def io_result_def)
      next
        case (Inr s1)
        then have "s1 = put_file (fe_now e) p (replace_str old new (file_text s p)) s"
          by (rule atomic_write_changes(1))
        then show ?thesis
          using w Inr True raw on by (auto simp: succeeded_def result_success_def Let_def split: if_splits)
      qed
    qed
  qed
qed

lemma file_edit_effect:
  assumes "file_edit True e ctx args s = (res, s')"
  shows "tool_effect (fe_now e) (cx_conversation_id ctx) (named_path e ctx args) (succeeded res) s s'"
  using file_edit_cases [OF assms]
proof (elim disjE exE conjE)
  fix old new
  let ?p = "named_path e ctx args" let ?c = "cx_conversation_id ctx"
  let ?s3 = "put_file (fe_now e) ?p (replace_str old new (file_text s ?p)) s"
  assume ok: "succeeded res" and s': "s' = (let s1 = ?s3 in if True then guard_record ?c ?p s1 else s1)"
  have "fl_fs s' = fl_fs ?s3" "fl_observed s' = fl_observed (guard_record ?c ?p ?s3)"
    using s' guard_record_file(1) [OF put_file_file(1)] by (simp_all add: Let_def)
  from put_record_effect [OF _ _ refl this, of "insert (with_extension ''bak'' ?p) (ancestors ?p)" s] ok
  show ?thesis by (auto simp: tool_effect_def)
qed (auto simp: tool_effect_def)

section \<open>Many conversations on one disk\<close>

text \<open>The three guarded tools, called by any conversation, between changes that other processes make.
  The clock of the file system moves on between any two changes. \<open>fw_seen\<close> is no state of the
  program: it is the text of the file at the last call of a conversation that succeeded.\<close>

datatype file_call = Call_Read | Call_Write bool | Call_Edit

definition run_call ::
  "file_call \<Rightarrow> file_env \<Rightarrow> tool_context \<Rightarrow> json \<Rightarrow> file_state \<Rightarrow> (syscity_error + tool_result) \<times> file_state" where
  "run_call c =
     (case c of Call_Read \<Rightarrow> file_read True | Call_Write backup \<Rightarrow> file_write True backup | Call_Edit \<Rightarrow> file_edit True)"

record file_world =
  fw_state :: file_state
  fw_clock :: int
  fw_seen :: "((string \<times> path) \<times> string) list"

definition note_seen :: "bool \<Rightarrow> string \<Rightarrow> path \<Rightarrow> file_state \<Rightarrow> ((string \<times> path) \<times> string) list \<Rightarrow>
  ((string \<times> path) \<times> string) list" where
  "note_seen ok conv p s seen = (if ok then AList.update (conv, p) (file_text s p) seen else seen)"

inductive file_step :: "file_world \<Rightarrow> file_world \<Rightarrow> bool" where
  tool_call:
    "run_call c e ctx args (fw_state w) = (res, s') \<Longrightarrow> fw_clock w < fe_now e \<Longrightarrow>
     file_step w \<lparr>fw_state = s', fw_clock = fe_now e, fw_seen = note_seen (succeeded res) (cx_conversation_id ctx)
       (named_path e ctx args) s' (fw_seen w)\<rparr>"
| outside_change:
    "fw_clock w < now \<Longrightarrow>
     \<forall>p. map_of fs' p \<in> {map_of (fl_fs (fw_state w)) p, None} \<or> map_option node_time (map_of fs' p) = Some now \<Longrightarrow>
     file_step w (w\<lparr>fw_state := (fw_state w)\<lparr>fl_fs := fs'\<rparr>, fw_clock := now\<rparr>)"

definition fresh_world :: "(path \<times> node) list \<Rightarrow> int \<Rightarrow> file_world" where
  "fresh_world fs now =
     \<lparr>fw_state = \<lparr>fl_fs = filter (\<lambda>(_, n). node_time n \<le> now) fs, fl_observed = [], fl_authored = []\<rparr>,
      fw_clock = now, fw_seen = []\<rparr>"

definition file_inv :: "file_world \<Rightarrow> bool" where
  "file_inv w \<longleftrightarrow>
     (\<forall>p n. map_of (fl_fs (fw_state w)) p = Some n \<longrightarrow> node_time n \<le> fw_clock w) \<and>
     (\<forall>k v. map_of (fl_observed (fw_state w)) k = Some v \<longrightarrow> fv_mtime_nanos v \<le> fw_clock w \<and>
        (version_of (fw_state w) (snd k) = Some v \<longrightarrow> map_of (fw_seen w) k = Some (file_text (fw_state w) (snd k))))"

lemma file_invD:
  assumes "file_inv w"
  shows "map_of (fl_fs (fw_state w)) p = Some n \<Longrightarrow> node_time n \<le> fw_clock w"
    and "map_of (fl_observed (fw_state w)) k = Some v \<Longrightarrow> fv_mtime_nanos v \<le> fw_clock w"
    and "map_of (fl_observed (fw_state w)) k = Some v \<Longrightarrow> version_of (fw_state w) (snd k) = Some v \<Longrightarrow>
      map_of (fw_seen w) k = Some (file_text (fw_state w) (snd k))"
  using assms unfolding file_inv_def by blast+

lemma version_time: "version_of s p = Some v \<longleftrightarrow>
   (\<exists>n. map_of (fl_fs s) p = Some n \<and> fv_mtime_nanos v = node_time n \<and>
      fv_len v = (case n of Dir _ \<Rightarrow> 0 | File body _ \<Rightarrow> byte_len body))"
  by (cases v) (auto simp: version_of_def split: option.splits node.splits)

text \<open>An observation that was made before a change cannot be the version of a node that it wrote.\<close>

lemma old_version_same_node:
  assumes "version_of s' p = Some v" "fv_mtime_nanos v < now"
    "map_of (fl_fs s') p \<in> {map_of (fl_fs s) p, None} \<or> map_option node_time (map_of (fl_fs s') p) = Some now"
  shows "map_of (fl_fs s') p = map_of (fl_fs s) p"
  using assms by (auto simp: version_time)

lemma node_eq_cong:
  assumes "map_of (fl_fs s') p = map_of (fl_fs s) p"
  shows "version_of s' p = version_of s p" "file_text s' p = file_text s p"
  using assms by (simp_all add: version_of_def file_text_def)

lemma run_call_effect:
  "run_call c e ctx args s = (res, s') \<Longrightarrow>
   tool_effect (fe_now e) (cx_conversation_id ctx) (named_path e ctx args) (succeeded res) s s'"
  using file_read_effect file_write_effect file_edit_effect by (cases c) (auto simp: run_call_def)

lemma inv_change:
  assumes "file_inv w" "fw_clock w < now"
    and ch: "\<forall>p. map_of (fl_fs s') p \<in> {map_of (fl_fs (fw_state w)) p, None} \<or>
      map_option node_time (map_of (fl_fs s') p) = Some now"
    and obs: "\<forall>k v. map_of (fl_observed s') k = Some v \<longrightarrow>
      (map_of (fl_observed (fw_state w)) k = Some v \<and> map_of seen' k = map_of (fw_seen w) k) \<or>
      (version_of s' (snd k) = Some v \<and> map_of seen' k = Some (file_text s' (snd k)))"
  shows "file_inv \<lparr>fw_state = s', fw_clock = now, fw_seen = seen'\<rparr>"
proof -
  let ?s = "fw_state w"
  have time: "node_time n \<le> now" if "map_of (fl_fs s') p = Some n" for p n
    using that ch [rule_format, of p] file_invD(1) [OF assms(1), of p n] assms(2) by auto
  moreover have "fv_mtime_nanos v \<le> now \<and>
      (version_of s' (snd k) = Some v \<longrightarrow> map_of seen' k = Some (file_text s' (snd k)))"
    if o: "map_of (fl_observed s') k = Some v" for k v
    using obs [rule_format, OF o]
  proof (elim disjE conjE)
    assume old: "map_of (fl_observed ?s) k = Some v" and seen: "map_of seen' k = map_of (fw_seen w) k"
    then have v: "fv_mtime_nanos v < now" using file_invD(2) [OF assms(1)] assms(2) by fastforce
    have "map_of seen' k = Some (file_text s' (snd k))" if "version_of s' (snd k) = Some v"
    proof -
      have "map_of (fl_fs s') (snd k) = map_of (fl_fs ?s) (snd k)"
        using that v ch [rule_format] by (rule old_version_same_node)
      note node_eq_cong [OF this]
      with that old seen file_invD(3) [OF assms(1)] show ?thesis by simp
    qed
    with v show ?thesis by simp
  next
    assume "version_of s' (snd k) = Some v" "map_of seen' k = Some (file_text s' (snd k))"
    then show ?thesis using time by (auto simp: version_time)
  qed
  ultimately show ?thesis by (simp add: file_inv_def)
qed

lemma file_step_inv: "file_step w w' \<Longrightarrow> file_inv w \<Longrightarrow> file_inv w'"
proof (induction rule: file_step.induct)
  case (tool_call c e ctx args w res s')
  let ?p = "named_path e ctx args"
  have eff: "tool_effect (fe_now e) (cx_conversation_id ctx) ?p (succeeded res) (fw_state w) s'"
    using tool_call(1) by (rule run_call_effect)
  show ?case
  proof (rule inv_change [OF tool_call(3,2)])
    show "\<forall>p. map_of (fl_fs s') p \<in> {map_of (fl_fs (fw_state w)) p, None} \<or>
      map_option node_time (map_of (fl_fs s') p) = Some (fe_now e)"
      using eff by (fastforce simp: tool_effect_def changed_at_def)
    show "\<forall>k v. map_of (fl_observed s') k = Some v \<longrightarrow>
      (map_of (fl_observed (fw_state w)) k = Some v \<and>
         map_of (note_seen (succeeded res) (cx_conversation_id ctx) ?p s' (fw_seen w)) k = map_of (fw_seen w) k) \<or>
      (version_of s' (snd k) = Some v \<and>
         map_of (note_seen (succeeded res) (cx_conversation_id ctx) ?p s' (fw_seen w)) k = Some (file_text s' (snd k)))"
      using eff by (auto simp: tool_effect_def note_seen_def update_conv' split: if_splits)
  qed
next
  case (outside_change w now fs')
  have "file_inv \<lparr>fw_state = (fw_state w)\<lparr>fl_fs := fs'\<rparr>, fw_clock = now, fw_seen = fw_seen w\<rparr>"
    by (rule inv_change [OF outside_change(3,1)]) (use outside_change(2) in auto)
  then show ?case by (cases w) simp
qed

lemma file_history_inv:
  assumes "file_step\<^sup>*\<^sup>* (fresh_world fs now) w"
  shows "file_inv w"
  using assms
proof (induction rule: rtranclp_induct)
  case base
  have "node_time n \<le> now" if "map_of (filter (\<lambda>(_, n). node_time n \<le> now) fs) p = Some n" for p n
    using map_of_SomeD [OF that] unfolding set_filter by blast
  then show ?case unfolding file_inv_def fresh_world_def file_world.simps file_state.simps map_of.simps by blast
next
  case (step w w')
  then show ?case using file_step_inv by blast
qed

section \<open>Replacement\<close>

text \<open>The pieces of a text between the matches, as the replacement finds them.\<close>

lemma join_with_Cons2: "join_with sep (x # y # ys) = x @ sep @ join_with sep (y # ys)"
  by (simp add: join_with_def)

lemma join_with_head: "ps \<noteq> [] \<Longrightarrow> join_with sep ((c # hd ps) # tl ps) = c # join_with sep ps"
  by (cases ps) (simp_all add: join_with_def)

lemma replace_pieces:
  assumes "old \<noteq> []"
  shows "\<exists>pieces. pieces \<noteq> [] \<and> s = join_with old pieces \<and> replace_str old new s = join_with new pieces \<and>
    length pieces = Suc (count_matches old s) \<and> (\<forall>q \<in> set pieces. \<not> str_contains q old) \<and>
    (\<forall>a b. s = a @ old @ b \<longrightarrow> length (hd pieces) \<le> length a)"
  using assms
proof (induction old new s rule: replace_str.induct)
  case (1 old new)
  then show ?case
    by (intro exI [of _ "[[]]"]) (simp add: join_with_def replace_str.simps count_matches.simps)
next
  case (2 old new c cs)
  show ?case
  proof (cases "starts_with (c # cs) old")
    case True
    let ?rest = "drop (length old) (c # cs)"
    have eq: "c # cs = old @ ?rest" using True by (metis starts_with_def append_take_drop_id)
    obtain ps where ps: "ps \<noteq> []" "?rest = join_with old ps" "replace_str old new ?rest = join_with new ps"
      "length ps = Suc (count_matches old ?rest)" "\<forall>q \<in> set ps. \<not> str_contains q old"
      using 2(2) [OF 2(4) True 2(4)] by blast
    then obtain y ys where ys: "ps = y # ys" by (cases ps) auto
    have "replace_str old new (c # cs) = new @ replace_str old new ?rest"
      "count_matches old (c # cs) = Suc (count_matches old ?rest)"
      using 2(4) True by (simp_all only: replace_str.simps(2) count_matches.simps(2) if_True if_False plus_1_eq_Suc)
    then have r: "replace_str old new (c # cs) = join_with new ([] # ps)"
      "length ([] # ps) = Suc (count_matches old (c # cs))"
      using ps(3,4) ys by (simp_all only: join_with_Cons2 append_Nil length_Cons)
    have "c # cs = join_with old ([] # ps)" using ps(2) ys eq by (simp only: join_with_Cons2 append_Nil)
    moreover have "\<forall>q \<in> set ([] # ps). \<not> str_contains q old" using ps(5) 2(4) by simp
    ultimately show ?thesis using r by (intro exI [of _ "[] # ps"] conjI) (auto simp only: list.sel list.size)
  next
    case False
    obtain ps where ps: "ps \<noteq> []" "cs = join_with old ps" "replace_str old new cs = join_with new ps"
      "length ps = Suc (count_matches old cs)" "\<forall>q \<in> set ps. \<not> str_contains q old"
      "\<And>a b. cs = a @ old @ b \<Longrightarrow> length (hd ps) \<le> length a"
      using 2(3) [OF 2(4) False 2(4)] by blast
    let ?ps = "(c # hd ps) # tl ps"
    have hd: "length (hd ?ps) \<le> length a" if "c # cs = a @ old @ b" for a b
      using that ps(6) False by (cases a) (auto simp: starts_with_iff)
    have "\<not> str_contains (c # hd ps) old"
    proof
      assume "str_contains (c # hd ps) old"
      then have "starts_with (c # hd ps) old" using ps(1,5) by (cases ps) auto
      then obtain r where "c # hd ps = old @ r" by (auto simp: starts_with_iff)
      moreover have "c # cs = (c # hd ps) @ (join_with old ([] # tl ps))"
        using ps(1,2) by (cases ps) (simp_all add: join_with_def)
      ultimately have "starts_with (c # cs) old" by (auto simp: starts_with_iff)
      with False show False ..
    qed
    then show ?thesis
      using ps 2(4) False hd
      by (intro exI [of _ ?ps])
         (auto simp: join_with_head replace_str.simps(2) count_matches.simps(2) dest: list.set_sel(2) [rotated])
  qed
qed

lemma replace_empty_pattern: "replace_str [] new s = new @ concat (map (\<lambda>c. c # new) s)"
  by (induction s) (simp_all add: replace_str.simps)

section \<open>Properties\<close>

text \<open>The facts of a call that changed the file it names.\<close>

lemma changed_call_was_checked:
  assumes "run_call c e ctx args s = (res, s')" "fl_fs s' \<noteq> fl_fs s"
  shows "guard_check (cx_conversation_id ctx) (named_path e ctx args) s = None \<and>
    is_path_allowed (fe_host e) ctx (resolve_path (fe_host e) ctx (the (get_str ''path'' args)))"
proof (cases c)
  case Call_Read
  then show ?thesis using assms file_read_effect by (simp add: run_call_def)
next
  case (Call_Write backup)
  then show ?thesis using assms file_write_cases by (fastforce simp: run_call_def)
next
  case Call_Edit
  then show ?thesis using assms file_edit_cases by (fastforce simp: run_call_def)
qed


definition sample_file_env :: "int \<Rightarrow> file_env" where
  "sample_file_env now =
     \<lparr>fe_host = sample_host, fe_now = now, fe_fails = (\<lambda>_ _. None), fe_glob = (\<lambda>_. Inr [])\<rparr>"

definition file_args :: "(string \<times> string) list \<Rightarrow> json" where
  "file_args kvs = JObject (map (\<lambda>(k, v). (k, JString v)) kvs)"

definition sample_fs :: "(path \<times> node) list" where
  "sample_fs = [([''/''], Dir 0), ([''/'', ''w''], Dir 0), ([''/'', ''w'', ''a''], File ''abcab'' 1)]"

definition sample_world :: file_world where
  "sample_world =
     (let s' = snd (run_call Call_Read (sample_file_env 3) sample_ctx (file_args [(''path'', ''a'')])
                 (fw_state (fresh_world sample_fs 2)))
      in \<lparr>fw_state = s', fw_clock = 3, fw_seen = [((''c1'', [''/'', ''w'', ''a'']), ''abcab'')]\<rparr>)"

lemma sample_world_reached: "file_step\<^sup>*\<^sup>* (fresh_world sample_fs 2) sample_world"
proof -
  let ?e = "sample_file_env 3" let ?a = "file_args [(''path'', ''a'')]"
  let ?o = "run_call Call_Read ?e sample_ctx ?a (fw_state (fresh_world sample_fs 2))"
  have lt: "fw_clock (fresh_world sample_fs 2) < fe_now ?e" by code_simp
  have "fe_now ?e = 3" "note_seen (succeeded (fst ?o)) (cx_conversation_id sample_ctx) (named_path ?e sample_ctx ?a) (snd ?o)
      (fw_seen (fresh_world sample_fs 2)) = [((''c1'', [''/'', ''w'', ''a'']), ''abcab'')]" by code_simp+
  then have "file_step (fresh_world sample_fs 2) sample_world"
    using file_step.tool_call [OF prod.collapse [symmetric] lt, of Call_Read sample_ctx ?a]
    by (simp add: sample_world_def Let_def)
  then show ?thesis ..
qed


text \<open>A file tool changes the disk only for a path the fence of its context admits, and only at that
  path, at its backup and at the directories above it; every node it changes carries the time of the
  call.\<close>

theorem file_call_stays_on_named_path:
  assumes "run_call c e ctx args s = (res, s')"
    and "map_of (fl_fs s') q \<noteq> map_of (fl_fs s) q"
  shows "is_path_allowed (fe_host e) ctx (resolve_path (fe_host e) ctx (the (get_str ''path'' args))) \<and>
    q \<in> insert (named_path e ctx args) (insert (with_extension ''bak'' (named_path e ctx args))
      (ancestors (named_path e ctx args))) \<and>
    map_option node_time (map_of (fl_fs s') q) = Some (fe_now e)"
proof -
  have "fl_fs s' \<noteq> fl_fs s" using assms(2) by auto
  then have "is_path_allowed (fe_host e) ctx (resolve_path (fe_host e) ctx (the (get_str ''path'' args)))"
    using changed_call_was_checked [OF assms(1)] by simp
  moreover have "map_of (fl_fs s') q = map_of (fl_fs s) q \<or>
      q \<in> insert (named_path e ctx args) (insert (with_extension ''bak'' (named_path e ctx args))
        (ancestors (named_path e ctx args))) \<and> (\<exists>n. map_of (fl_fs s') q = Some n \<and> node_time n = fe_now e)"
    using run_call_effect [OF assms(1)] unfolding tool_effect_def changed_at_def by blast
  ultimately show ?thesis using assms(2) by auto
qed

theorem file_call_stays_on_named_path_witness:
  "is_path_allowed sample_host sample_ctx (resolve_path sample_host sample_ctx ''a'')"
proof -
  let ?e = "sample_file_env 4" let ?a = "file_args [(''path'', ''a''), (''content'', ''new'')]"
  have d: "map_of (fl_fs (snd (run_call (Call_Write True) ?e sample_ctx ?a (fw_state sample_world)))) [''/'', ''w'', ''a.bak'']
      \<noteq> map_of (fl_fs (fw_state sample_world)) [''/'', ''w'', ''a.bak'']" by code_simp
  have "the (get_str ''path'' ?a) = ''a''" by code_simp
  moreover have "fe_host ?e = sample_host" by (simp add: sample_file_env_def)
  ultimately show ?thesis
    using file_call_stays_on_named_path [OF prod.collapse [symmetric] d] by simp
qed

text \<open>An edit replaces every match. When an edit with a text to find succeeds, the file was a sequence of
  pieces without that text, joined by it, and afterwards is the same pieces joined by the new text; the
  number reported is the number of joints. A failing edit leaves every file as it was.\<close>

theorem edit_replaces_every_match:
  assumes "file_edit guarded e ctx args s = (res, s')"
    and "get_str ''old_string'' args = Some old" and "get_str ''new_string'' args = Some new" and "old \<noteq> []"
  shows "if succeeded res
    then \<exists>pieces. file_text s (named_path e ctx args) = join_with old pieces \<and>
      file_text s' (named_path e ctx args) = join_with new pieces \<and>
      (\<forall>q \<in> set pieces. \<not> str_contains q old) \<and> 2 \<le> length pieces \<and>
      length pieces = Suc (count_matches old (file_text s (named_path e ctx args)))
    else fl_fs s' = fl_fs s"
  using file_edit_cases [OF assms(1)]
proof (elim disjE exE conjE)
  fix old' new'
  let ?p = "named_path e ctx args"
  assume a: "get_str ''old_string'' args = Some old'" "get_str ''new_string'' args = Some new'"
    and c: "str_contains (file_text s ?p) old'" and ok: "succeeded res"
    and s': "s' = (let s1 = put_file (fe_now e) ?p (replace_str old' new' (file_text s ?p)) s
                   in if guarded then guard_record (cx_conversation_id ctx) ?p s1 else s1)"
  have on: "old' = old" "new' = new" using a assms(2,3) by simp_all
  obtain ps where ps: "ps \<noteq> []" "file_text s ?p = join_with old ps"
      "replace_str old new (file_text s ?p) = join_with new ps"
      "length ps = Suc (count_matches old (file_text s ?p))" "\<forall>q \<in> set ps. \<not> str_contains q old"
    using replace_pieces [OF assms(4)] by blast
  have "fl_fs s' = fl_fs (put_file (fe_now e) ?p (join_with new ps) s)"
    using s' ps(3) on guard_record_file(1) [OF put_file_file(1)] by (simp add: Let_def)
  then have "file_text s' ?p = join_with new ps" using fs_cong(3) put_file_file(2) by metis
  moreover have "length ps \<noteq> 1" using c on ps(2,5) by (cases ps) (auto simp: join_with_def)
  then have "2 \<le> length ps" using ps(1) by (cases ps) (auto simp: Suc_le_eq)
  ultimately show ?thesis using ok ps by auto
qed simp

theorem edit_replaces_every_match_witness:
  "\<exists>pieces. ''abcab'' = join_with ''ab'' pieces \<and>
    file_text (snd (file_edit True (sample_file_env 4) sample_ctx
      (file_args [(''path'', ''a''), (''old_string'', ''ab''), (''new_string'', ''x'')]) (fw_state sample_world)))
      [''/'', ''w'', ''a''] = join_with ''x'' pieces"
proof -
  let ?e = "sample_file_env 4"
  let ?a = "file_args [(''path'', ''a''), (''old_string'', ''ab''), (''new_string'', ''x'')]"
  have "succeeded (fst (file_edit True ?e sample_ctx ?a (fw_state sample_world)))"
    "get_str ''old_string'' ?a = Some ''ab''" "get_str ''new_string'' ?a = Some ''x''"
    "named_path ?e sample_ctx ?a = [''/'', ''w'', ''a'']"
    "file_text (fw_state sample_world) [''/'', ''w'', ''a''] = ''abcab''" by code_simp+
  then show ?thesis
    using edit_replaces_every_match [OF prod.collapse [symmetric], of ?a "''ab''" "''x''" True ?e sample_ctx "fw_state sample_world"]
    by auto
qed

text \<open>What is written is read back: after a write that succeeded, a read of the same path, without a
  limit, by any context the fence admits, returns exactly the content that was written, unless it has more than a
  megabyte or a zero byte near its start.\<close>

theorem written_content_reads_back:
  assumes "file_write guarded backup e ctx args s = (res, s1)" and "succeeded res"
    and "get_str ''path'' args' = Some raw" and "named_path e' ctx' args' = named_path e ctx args"
    and "is_path_allowed (fe_host e') ctx' (resolve_path (fe_host e') ctx' raw)"
    and "get_str ''content'' args = Some body" and "\<not> over_read_limit body" and "\<not> is_binary body"
    and "json_get ''limit'' args' = None" and "\<forall>op q. fe_fails e' op q = None"
  shows "fst (file_read guarded' e' ctx' args' s1) = Inr (result_success body)"
  using file_write_cases [OF assms(1)]
proof (elim disjE exE conjE)
  fix body' sa r s2
  let ?p = "named_path e ctx args"
  assume b: "get_str ''content'' args = Some body'"
    and s1: "s1 = note_skill e ctx ?p (if guarded then guard_record (cx_conversation_id ctx) ?p (put_file (fe_now e) ?p body' s2)
               else put_file (fe_now e) ?p body' s2)"
  have fs: "fl_fs s1 = fl_fs (put_file (fe_now e) ?p body s2)"
    using s1 b assms(6) guard_record_file(1) [OF put_file_file(1)] by simp
  have f: "is_file s1 ?p" "file_text s1 ?p = body" using fs_cong(2,3) [OF fs] put_file_file by simp_all
  then have x: "path_exists s1 ?p" by (auto simp: is_file_def path_exists_def split: option.splits)
  have p: "path_components (resolve_path (fe_host e') ctx' raw) = ?p"
    using assms(3,4) by (simp add: named_path_def)
  show ?thesis
    using f x p assms(3,5,7-10)
    by (simp add: file_read_def file_read_data_def file_read_finish_def Let_def)
qed (use assms(2) in auto)

theorem written_content_reads_back_witness:
  "fst (file_read True (sample_file_env 5) sample_ctx (file_args [(''path'', ''./a'')])
     (snd (file_write True True (sample_file_env 4) sample_ctx (file_args [(''path'', ''a''), (''content'', ''new'')])
       (fw_state sample_world)))) = Inr (result_success ''new'')"
proof (rule written_content_reads_back [OF prod.collapse [symmetric], where raw = "''./a''" and body = "''new''"])
  show "\<forall>op q. fe_fails (sample_file_env 5) op q = None" by (simp add: sample_file_env_def)
qed code_simp+

text \<open>Two gaps of the guard. A read of one character counts as having seen the file, so the next write
  replaces the whole of it. The backup of a write replaces a file of that name that was never read.\<close>

definition gap_fs :: "(path \<times> node) list" where
  "gap_fs = [([''/''], Dir 0), ([''/'', ''w''], Dir 0), ([''/'', ''w'', ''a''], File ''secret'' 1),
     ([''/'', ''w'', ''a.bak''], File ''precious'' 1)]"

theorem one_character_read_licenses_overwrite:
  "let s0 = fw_state (fresh_world gap_fs 2);
       (r1, s1) = file_read True (sample_file_env 3) sample_ctx
         (JObject [(''path'', JString ''a''), (''limit'', JNumber ''1'')]) s0;
       (r2, s2) = file_write True True (sample_file_env 4) sample_ctx
         (file_args [(''path'', ''a''), (''content'', ''new'')]) s1
   in tr_output (projr r1) = ''s'' @ newline @ ''[File truncated: 6 total characters]'' \<and> succeeded r2 \<and>
      file_text s2 [''/'', ''w'', ''a''] = ''new'' \<and> file_text s2 [''/'', ''w'', ''a.bak''] = ''secret''"
  by code_simp

text \<open>An empty text to find is not refused: the new text is put before every character and at the end.\<close>

theorem empty_edit_rewrites_file:
  "let s0 = fw_state sample_world;
       (r, s1) = file_edit True (sample_file_env 4) sample_ctx
         (file_args [(''path'', ''a''), (''old_string'', []), (''new_string'', ''-'')]) s0
   in succeeded r \<and> file_text s1 [''/'', ''w'', ''a''] = ''-a-b-c-a-b-''"
  by code_simp

text \<open>The search tests its base directory against the fence and then joins the pattern to it, so an
  absolute pattern, or one that climbs, searches outside the workspace.\<close>

theorem absolute_pattern_leaves_fence:
  assumes "has_root pattern" and "get_str ''pattern'' args = Some pattern" and "get_str ''path'' args = None"
    and "is_path_allowed (fe_host e) ctx (workspace_root (fe_host e) ctx)"
    and "fe_glob e pattern = Inr [Inr f]" and "is_file s (path_components f)"
  shows "\<exists>r. glob_search e ctx args s = Inr r \<and> tr_success r \<and> tr_output r = f"
  using assms by (simp add: glob_search_def path_join_def Let_def map_filter_simps result_success_def join_with_def)

theorem absolute_pattern_leaves_fence_witness:
  "\<exists>r. glob_search ((sample_file_env 1)\<lparr>fe_glob := (\<lambda>_. Inr [Inr ''/etc/passwd''])\<rparr>) sample_ctx
     (file_args [(''pattern'', ''/etc/*'')])
     (fw_state (fresh_world [([''/'', ''etc'', ''passwd''], File ''root'' 0)] 0)) = Inr r \<and>
   tr_success r \<and> tr_output r = ''/etc/passwd''"
  by (rule absolute_pattern_leaves_fence [where pattern = "''/etc/*''"]) code_simp+

end
