(* ===== verification/Inbound_Debounce.thy ===== *)
theory Inbound_Debounce
  imports Prelude "HOL-Library.Multiset"
begin

text \<open>
  The inbound debouncer (\<open>inbound/debounce.rs\<close>): messages of one conversation are buffered
  and leave as a batch when a timer that every message restarts has run out.

  The map from keys to buffers holds references, as the code does: a buffer that has left the map lives on
  as long as a task still holds it. Timers are tasks: \<open>Sleeping\<close> until the window has passed,
  \<open>Locking\<close> after the buffer was removed from the map and before its lock is held (the lock on
  the map is kept meanwhile), \<open>Sending\<close> with the batch in hand. Aborting ends a task wherever it
  waits. An \<open>enqueue\<close> finds its buffer under the lock of the map and fills it under the lock
  of the buffer, two critical sections with a gap between them: \<open>enqueue_locate\<close> and
  \<open>enqueue_push\<close>.
\<close>

section \<open>State\<close>

record incoming_message =
  im_id :: string
  im_user_id :: string
  im_conversation_id :: string
  im_content :: string

record debounced_item =
  di_message :: incoming_message
  di_received_at :: int

record debounce_buffer =
  bf_items :: "debounced_item list"
  bf_timer_handle :: "nat option"
  bf_last_activity :: int

datatype flush_timer =
    Sleeping string
  | Locking nat
  | Sending "debounced_item list"
  | Finished
  | Aborted

record debouncer =
  db_max_tracked_keys :: nat
  db_bypass_prefixes :: "string list"
  db_buffers :: "(string \<times> nat) list"
  db_heap :: "debounce_buffer list"
  db_timers :: "flush_timer list"
  db_channel :: "debounced_item list list"

definition new_debouncer :: "nat \<Rightarrow> string list \<Rightarrow> debouncer" where
  "new_debouncer max_keys prefixes =
     \<lparr>db_max_tracked_keys = max_keys, db_bypass_prefixes = prefixes, db_buffers = [], db_heap = [],
      db_timers = [], db_channel = []\<rparr>"

section \<open>Operations\<close>

definition resolve_key :: "incoming_message \<Rightarrow> string" where
  "resolve_key m = im_conversation_id m"

definition should_bypass :: "debouncer \<Rightarrow> string \<Rightarrow> bool" where
  "should_bypass s content \<longleftrightarrow> list_ex (starts_with content) (db_bypass_prefixes s)"

definition abort_timer :: "nat option \<Rightarrow> debouncer \<Rightarrow> debouncer" where
  "abort_timer h s =
     (case h of
        None \<Rightarrow> s
      | Some i \<Rightarrow> s\<lparr>db_timers := (db_timers s)[i := if db_timers s ! i = Finished then Finished else Aborted]\<rparr>)"

text \<open>The scan for the buffer that was active longest ago, in the iteration order of the map.\<close>

fun oldest_loop :: "debouncer \<Rightarrow> (string \<times> nat) list \<Rightarrow> (string \<times> int) option \<Rightarrow> string option" where
  "oldest_loop s [] best = map_option fst best"
| "oldest_loop s ((k, b) # rest) best =
     (let t = bf_last_activity (db_heap s ! b)
      in if (case best of None \<Rightarrow> True | Some (_, t0) \<Rightarrow> t < t0)
         then oldest_loop s rest (Some (k, t))
         else oldest_loop s rest best)"

definition find_oldest_key :: "debouncer \<Rightarrow> string option" where
  "find_oldest_key s = oldest_loop s (db_buffers s) None"

definition send_batch :: "debounced_item list \<Rightarrow> debouncer \<Rightarrow> debouncer" where
  "send_batch batch s = (if batch = [] then s else s\<lparr>db_channel := db_channel s @ [batch]\<rparr>)"

definition remove_buffer :: "string \<Rightarrow> debouncer \<Rightarrow> debouncer" where
  "remove_buffer key s = s\<lparr>db_buffers := AList.delete key (db_buffers s)\<rparr>"

definition evict_lru_if_necessary :: "string \<Rightarrow> debouncer \<Rightarrow> debouncer" where
  "evict_lru_if_necessary key s =
     (if length (db_buffers s) < db_max_tracked_keys s \<or> map_of (db_buffers s) key \<noteq> None then s
      else case find_oldest_key s of
          None \<Rightarrow> s
        | Some oldest \<Rightarrow>
            (case map_of (db_buffers s) oldest of
               None \<Rightarrow> s
             | Some b \<Rightarrow>
                 send_batch (bf_items (db_heap s ! b))
                   (abort_timer (bf_timer_handle (db_heap s ! b)) (remove_buffer oldest s))))"

text \<open>The first critical section of \<open>enqueue\<close>: the buffer of the key, created when
  missing.\<close>

definition enqueue_locate :: "int \<Rightarrow> string \<Rightarrow> debouncer \<Rightarrow> nat \<times> debouncer" where
  "enqueue_locate now key s =
     (let s1 = evict_lru_if_necessary key s
      in case map_of (db_buffers s1) key of
           Some b \<Rightarrow> (b, s1)
         | None \<Rightarrow>
             (length (db_heap s1),
              s1\<lparr>db_heap := db_heap s1 @ [\<lparr>bf_items = [], bf_timer_handle = None, bf_last_activity = now\<rparr>],
                 db_buffers := db_buffers s1 @ [(key, length (db_heap s1))]\<rparr>))"

text \<open>The second one: the message is pushed, the old timer aborted and a new one started.\<close>

definition enqueue_push :: "int \<Rightarrow> string \<Rightarrow> nat \<Rightarrow> incoming_message \<Rightarrow> debouncer \<Rightarrow> debouncer" where
  "enqueue_push now key b m s =
     (let buf = db_heap s ! b;
          s1 = abort_timer (bf_timer_handle buf) s
      in s1\<lparr>db_heap := (db_heap s)[b := \<lparr>bf_items = bf_items buf @ [\<lparr>di_message = m, di_received_at = now\<rparr>],
                bf_timer_handle = Some (length (db_timers s)), bf_last_activity = now\<rparr>],
           db_timers := db_timers s1 @ [Sleeping key]\<rparr>)"

text \<open>Both sections without interruption; a message that bypasses is returned.\<close>

definition enqueue :: "int \<Rightarrow> incoming_message \<Rightarrow> debouncer \<Rightarrow> incoming_message option \<times> debouncer" where
  "enqueue now m s =
     (if should_bypass s (trim (im_content m)) then (Some m, s)
      else let (b, s1) = enqueue_locate now (resolve_key m) s
           in (None, enqueue_push now (resolve_key m) b m s1))"

definition timer_fire :: "nat \<Rightarrow> debouncer \<Rightarrow> debouncer" where
  "timer_fire h s =
     (case db_timers s ! h of
        Sleeping key \<Rightarrow>
          (case map_of (db_buffers s) key of
             Some b \<Rightarrow> (remove_buffer key s)\<lparr>db_timers := (db_timers s)[h := Locking b]\<rparr>
           | None \<Rightarrow> s\<lparr>db_timers := (db_timers s)[h := Finished]\<rparr>)
      | _ \<Rightarrow> s)"

definition timer_take :: "nat \<Rightarrow> debouncer \<Rightarrow> debouncer" where
  "timer_take h s =
     (case db_timers s ! h of
        Locking b \<Rightarrow> s\<lparr>db_timers := (db_timers s)[h := Sending (bf_items (db_heap s ! b))]\<rparr>
      | _ \<Rightarrow> s)"

definition timer_send :: "nat \<Rightarrow> debouncer \<Rightarrow> debouncer" where
  "timer_send h s =
     (case db_timers s ! h of
        Sending batch \<Rightarrow> send_batch batch (s\<lparr>db_timers := (db_timers s)[h := Finished]\<rparr>)
      | _ \<Rightarrow> s)"

definition flush_key :: "string \<Rightarrow> debouncer \<Rightarrow> incoming_message list \<times> debouncer" where
  "flush_key key s =
     (case map_of (db_buffers s) key of
        None \<Rightarrow> ([], s)
      | Some b \<Rightarrow>
          (map di_message (bf_items (db_heap s ! b)),
           abort_timer (bf_timer_handle (db_heap s ! b)) (remove_buffer key s)))"

fun flush_keys :: "string list \<Rightarrow> debouncer \<Rightarrow> incoming_message list \<times> debouncer" where
  "flush_keys [] s = ([], s)"
| "flush_keys (k # ks) s =
     (let (ms, s1) = flush_key k s; (rest, s2) = flush_keys ks s1 in (ms @ rest, s2))"

definition flush_all :: "debouncer \<Rightarrow> incoming_message list \<times> debouncer" where
  "flush_all s = flush_keys (map fst (db_buffers s)) s"

section \<open>Steps\<close>

text \<open>A system: the debouncer, the calls of \<open>enqueue\<close> between their critical sections, and
  the history, that is the messages absorbed and the messages handed out by explicit flushes.\<close>

record debounce_system =
  sy_db :: debouncer
  sy_calls :: "(string \<times> nat \<times> incoming_message) list"
  sy_absorbed :: "incoming_message list"
  sy_flushed :: "incoming_message list"

definition map_unlocked :: "debouncer \<Rightarrow> bool" where
  "map_unlocked s \<longleftrightarrow> (\<forall>t \<in> set (db_timers s). \<forall>b. t \<noteq> Locking b)"

inductive timer_step :: "debounce_system \<Rightarrow> debounce_system \<Rightarrow> bool" where
  fires: "\<lbrakk>h < length (db_timers (sy_db s)); db_timers (sy_db s) ! h = Sleeping key; map_unlocked (sy_db s)\<rbrakk>
    \<Longrightarrow> timer_step s (s\<lparr>sy_db := timer_fire h (sy_db s)\<rparr>)"
| takes: "\<lbrakk>h < length (db_timers (sy_db s)); db_timers (sy_db s) ! h = Locking b\<rbrakk>
    \<Longrightarrow> timer_step s (s\<lparr>sy_db := timer_take h (sy_db s)\<rparr>)"
| sends: "\<lbrakk>h < length (db_timers (sy_db s)); db_timers (sy_db s) ! h = Sending batch\<rbrakk>
    \<Longrightarrow> timer_step s (s\<lparr>sy_db := timer_send h (sy_db s)\<rparr>)"

text \<open>Calls that are not interrupted between their sections.\<close>

inductive serial_step :: "debounce_system \<Rightarrow> debounce_system \<Rightarrow> bool" where
  timer: "timer_step s s' \<Longrightarrow> serial_step s s'"
| enqueues: "\<lbrakk>map_unlocked (sy_db s); \<not> should_bypass (sy_db s) (trim (im_content m))\<rbrakk>
    \<Longrightarrow> serial_step s (s\<lparr>sy_db := snd (enqueue now m (sy_db s)), sy_absorbed := sy_absorbed s @ [m]\<rparr>)"
| flushes: "map_unlocked (sy_db s)
    \<Longrightarrow> serial_step s (s\<lparr>sy_db := snd (flush_key key (sy_db s)),
         sy_flushed := sy_flushed s @ fst (flush_key key (sy_db s))\<rparr>)"

text \<open>Calls that interleave with everything between their sections.\<close>

inductive racing_step :: "debounce_system \<Rightarrow> debounce_system \<Rightarrow> bool" where
  timer: "timer_step s s' \<Longrightarrow> racing_step s s'"
| locates: "\<lbrakk>map_unlocked (sy_db s); \<not> should_bypass (sy_db s) (trim (im_content m));
     enqueue_locate now (resolve_key m) (sy_db s) = (b, d)\<rbrakk>
    \<Longrightarrow> racing_step s (s\<lparr>sy_db := d, sy_calls := sy_calls s @ [(resolve_key m, b, m)]\<rparr>)"
| pushes: "sy_calls s = cs @ (key, b, m) # cs'
    \<Longrightarrow> racing_step s (s\<lparr>sy_db := enqueue_push now key b m (sy_db s), sy_calls := cs @ cs',
         sy_absorbed := sy_absorbed s @ [m]\<rparr>)"
| flushes: "map_unlocked (sy_db s)
    \<Longrightarrow> racing_step s (s\<lparr>sy_db := snd (flush_key key (sy_db s)),
         sy_flushed := sy_flushed s @ fst (flush_key key (sy_db s))\<rparr>)"

definition debounce_init :: "nat \<Rightarrow> string list \<Rightarrow> debounce_system" where
  "debounce_init max_keys prefixes =
     \<lparr>sy_db = new_debouncer max_keys prefixes, sy_calls = [], sy_absorbed = [], sy_flushed = []\<rparr>"

section \<open>Accounting\<close>

text \<open>Where a message can be: in a batch that was sent, in a buffer that the map or a timer still
  refers to, or in the hand of a timer.\<close>

fun lock_ref :: "flush_timer \<Rightarrow> nat multiset" where
  "lock_ref (Locking b) = {#b#}"
| "lock_ref _ = {#}"

fun in_hand :: "flush_timer \<Rightarrow> incoming_message multiset" where
  "in_hand (Sending batch) = mset (map di_message batch)"
| "in_hand _ = {#}"

definition live_refs :: "debouncer \<Rightarrow> nat multiset" where
  "live_refs s = mset (map snd (db_buffers s)) + sum_list (map lock_ref (db_timers s))"

definition content :: "debouncer \<Rightarrow> nat \<Rightarrow> incoming_message multiset" where
  "content s b = mset (map di_message (bf_items (db_heap s ! b)))"

definition delivered :: "debouncer \<Rightarrow> incoming_message multiset" where
  "delivered s = mset (map di_message (concat (db_channel s)))"

definition accounted :: "debouncer \<Rightarrow> incoming_message multiset" where
  "accounted s = delivered s + sum_mset (image_mset (content s) (live_refs s)) + sum_list (map in_hand (db_timers s))"

definition db_wf :: "debouncer \<Rightarrow> bool" where
  "db_wf s \<longleftrightarrow> hm_ok (db_buffers s) \<and> (\<forall>b. count (live_refs s) b \<le> 1) \<and>
     (\<forall>b \<in># live_refs s. b < length (db_heap s))"

lemma sum_list_map_update:
  fixes f :: "'a \<Rightarrow> 'b::comm_monoid_add"
  shows "h < length xs \<Longrightarrow> sum_list (map f (xs[h := x])) + f (xs ! h) = sum_list (map f xs) + f x"
proof (induction xs arbitrary: h)
  case (Cons y ys)
  then show ?case by (cases h) (auto simp: ac_simps)
qed simp

lemma sum_list_map_update_mono:
  fixes f :: "'a \<Rightarrow> 'b multiset"
  assumes "f x \<subseteq># f (xs ! h)"
  shows "sum_list (map f (xs[h := x])) \<subseteq># sum_list (map f xs)"
proof (cases "h < length xs")
  case True
  have "sum_list (map f (xs[h := x])) + f (xs ! h) = sum_list (map f xs) + f x"
    by (rule sum_list_map_update [OF True])
  also have "\<dots> \<subseteq># sum_list (map f xs) + f (xs ! h)" using assms by simp
  finally show ?thesis by simp
qed (simp add: list_update_beyond)

text \<open>Filling a buffer adds the message to what is accounted for exactly when the buffer is still
  referred to.\<close>

lemma sum_mset_fun_upd:
  "sum_mset (image_mset (f(b := f b + y)) R) = sum_mset (image_mset f R) + repeat_mset (count R b) (y :: 'c multiset)"
  by (induction R) (auto simp: ac_simps)

lemma accounted_fill:
  assumes "db_wf s" "b < length (db_heap s)" "bf_items buf = bf_items (db_heap s ! b) @ [item]"
    and s': "s' = s\<lparr>db_heap := (db_heap s)[b := buf]\<rparr>"
  shows "accounted s' = accounted s + (if b \<in># live_refs s then {#di_message item#} else {#})"
    and "live_refs s' = live_refs s" and "db_wf s'"
proof -
  show r: "live_refs s' = live_refs s" by (simp add: s' live_refs_def)
  then show "db_wf s'" using assms(1) by (simp add: db_wf_def s')
  have "content s' = (content s)(b := content s b + {#di_message item#})"
    using assms(2,3) by (auto simp: content_def s' nth_list_update fun_eq_iff)
  moreover have "count (live_refs s) b = (if b \<in># live_refs s then 1 else 0)"
  proof (cases "b \<in># live_refs s")
    case True
    then have "1 \<le> count (live_refs s) b" by simp
    moreover have "count (live_refs s) b \<le> 1" using assms(1) by (simp add: db_wf_def)
    ultimately have "count (live_refs s) b = 1" by (rule le_antisym [rotated])
    then show ?thesis using True by simp
  qed (simp add: not_in_iff)
  ultimately have "sum_mset (image_mset (content s') (live_refs s')) =
      sum_mset (image_mset (content s) (live_refs s)) + (if b \<in># live_refs s then {#di_message item#} else {#})"
    using sum_mset_fun_upd [of "content s" b "{#di_message item#}" "live_refs s"] by (simp add: r)
  then show "accounted s' = accounted s + (if b \<in># live_refs s then {#di_message item#} else {#})"
    by (simp add: accounted_def delivered_def s')
qed

text \<open>Aborting a task loses at most what it holds.\<close>

lemma abort_timer_fields [simp]:
  "db_heap (abort_timer h s) = db_heap s" "db_buffers (abort_timer h s) = db_buffers s"
  "db_channel (abort_timer h s) = db_channel s" "length (db_timers (abort_timer h s)) = length (db_timers s)"
  "db_max_tracked_keys (abort_timer h s) = db_max_tracked_keys s"
  "db_bypass_prefixes (abort_timer h s) = db_bypass_prefixes s"
  by (simp_all add: abort_timer_def split: option.split)

lemma abort_timer_le:
  shows "live_refs (abort_timer h s) \<subseteq># live_refs s" and "accounted (abort_timer h s) \<subseteq># accounted s"
proof -
  have ts: "sum_list (map f (db_timers (abort_timer h s))) \<subseteq># sum_list (map f (db_timers s))"
    if "f Aborted = {#}" for f :: "flush_timer \<Rightarrow> 'a multiset"
    using that by (auto simp: abort_timer_def sum_list_map_update_mono split: option.split)
  show r: "live_refs (abort_timer h s) \<subseteq># live_refs s"
    using ts [of lock_ref] by (simp add: live_refs_def)
  have "content (abort_timer h s) = content s" by (simp add: content_def fun_eq_iff)
  then have "sum_mset (image_mset (content (abort_timer h s)) (live_refs (abort_timer h s)))
      \<subseteq># sum_mset (image_mset (content s) (live_refs s))"
    using r by (metis image_mset_subseteq_mono subset_mset.le_iff_add sum_mset.union)
  then show "accounted (abort_timer h s) \<subseteq># accounted s"
    using ts [of in_hand] by (simp add: accounted_def delivered_def subset_mset.add_mono)
qed

lemma wf_abort_timer: "db_wf s \<Longrightarrow> db_wf (abort_timer h s)"
  using abort_timer_le(1) [of h s] unfolding db_wf_def
  by (auto dest: mset_subset_eqD) (meson le_trans mset_subset_eq_count)

text \<open>A task that holds nothing can be aborted without loss.\<close>

fun idle :: "flush_timer \<Rightarrow> bool" where
  "idle (Locking _) = False"
| "idle (Sending _) = False"
| "idle _ = True"

lemma idle_empty: "idle t \<Longrightarrow> lock_ref t = {#}" "idle t \<Longrightarrow> in_hand t = {#}"
  by (cases t; simp)+

lemma set_idle_timer:
  assumes "h < length (db_timers s)" "idle (db_timers s ! h)" "idle t"
  shows "live_refs (s\<lparr>db_timers := (db_timers s)[h := t]\<rparr>) = live_refs s"
    and "accounted (s\<lparr>db_timers := (db_timers s)[h := t]\<rparr>) = accounted s"
proof -
  let ?s = "s\<lparr>db_timers := (db_timers s)[h := t]\<rparr>"
  have ts: "sum_list (map f ((db_timers s)[h := t])) = sum_list (map f (db_timers s))"
    if "f t = {#}" "f (db_timers s ! h) = {#}" for f :: "flush_timer \<Rightarrow> 'a multiset"
    using sum_list_map_update [OF assms(1), of f t] that by simp
  show r: "live_refs ?s = live_refs s" using ts [of lock_ref] assms(2,3) idle_empty by (simp add: live_refs_def)
  have "content ?s = content s" by (simp add: content_def fun_eq_iff)
  then show "accounted ?s = accounted s"
    using r ts [of in_hand] assms(2,3) idle_empty by (simp add: accounted_def delivered_def)
qed

lemma abort_idle_timer:
  assumes "h < length (db_timers s)" "idle (db_timers s ! h)"
  shows "live_refs (abort_timer (Some h) s) = live_refs s" and "accounted (abort_timer (Some h) s) = accounted s"
  using set_idle_timer [OF assms] by (simp_all add: abort_timer_def)

text \<open>Taking a buffer out of the map.\<close>

lemma mset_delete:
  assumes "hm_ok m" "map_of m k = Some b"
  shows "mset (map snd m) = add_mset b (mset (map snd (AList.delete k m)))"
  using assms
proof (induction m)
  case (Cons kv m)
  obtain k' b' where kv: "kv = (k', b')" by force
  show ?case
  proof (cases "k' = k")
    case True
    then have "AList.delete k m = m"
      using Cons.prems(1) kv by (auto simp: AList.delete_eq filter_id_conv dest: hm_key_in)
    then show ?thesis using Cons.prems True kv by simp
  next
    case False
    then show ?thesis using Cons kv by auto
  qed
qed simp

lemma remove_buffer_fields [simp]:
  "db_heap (remove_buffer k s) = db_heap s" "db_timers (remove_buffer k s) = db_timers s"
  "db_channel (remove_buffer k s) = db_channel s" "db_buffers (remove_buffer k s) = AList.delete k (db_buffers s)"
  "db_max_tracked_keys (remove_buffer k s) = db_max_tracked_keys s"
  "db_bypass_prefixes (remove_buffer k s) = db_bypass_prefixes s"
  by (simp_all add: remove_buffer_def)

lemma remove_buffer_account:
  assumes "db_wf s" "map_of (db_buffers s) k = Some b"
  shows "live_refs s = add_mset b (live_refs (remove_buffer k s))"
    and "accounted s = accounted (remove_buffer k s) + content s b"
    and "db_wf (remove_buffer k s)"
proof -
  show r: "live_refs s = add_mset b (live_refs (remove_buffer k s))"
    using mset_delete [OF _ assms(2)] assms(1) by (simp add: live_refs_def db_wf_def)
  have "content (remove_buffer k s) = content s" by (simp add: content_def fun_eq_iff)
  then show "accounted s = accounted (remove_buffer k s) + content s b"
    by (simp add: accounted_def r delivered_def ac_simps)
  have "count (live_refs (remove_buffer k s)) x \<le> count (live_refs s) x" for x using r by simp
  then show "db_wf (remove_buffer k s)"
    using assms(1) r unfolding db_wf_def by (auto intro: le_trans)
qed

lemma buffer_is_live: "map_of (db_buffers s) k = Some b \<Longrightarrow> b \<in># live_refs s"
  by (auto simp: live_refs_def dest!: map_of_SomeD intro: image_eqI [where x = "(k, b)"])

lemma accounted_send_batch:
  "accounted (send_batch batch s) = accounted s + mset (map di_message batch)"
  "live_refs (send_batch batch s) = live_refs s" "db_wf (send_batch batch s) = db_wf s"
proof -
  have "content (send_batch batch s) = content s" by (simp add: send_batch_def content_def fun_eq_iff)
  then show "accounted (send_batch batch s) = accounted s + mset (map di_message batch)"
    by (simp add: accounted_def live_refs_def) (simp add: send_batch_def delivered_def)
  show "live_refs (send_batch batch s) = live_refs s" "db_wf (send_batch batch s) = db_wf s"
    by (simp_all add: send_batch_def live_refs_def db_wf_def)
qed

lemma send_batch_fields [simp]:
  "db_heap (send_batch batch s) = db_heap s" "db_timers (send_batch batch s) = db_timers s"
  "db_buffers (send_batch batch s) = db_buffers s" "db_bypass_prefixes (send_batch batch s) = db_bypass_prefixes s"
  "db_max_tracked_keys (send_batch batch s) = db_max_tracked_keys s"
  by (simp_all add: send_batch_def)

text \<open>The steps of a timer lose nothing.\<close>

lemma timer_fire_account:
  assumes "db_wf s" "h < length (db_timers s)" "db_timers s ! h = Sleeping key"
  shows "db_wf (timer_fire h s) \<and> accounted (timer_fire h s) = accounted s"
proof (cases "map_of (db_buffers s) key")
  case None
  then have "timer_fire h s = s\<lparr>db_timers := (db_timers s)[h := Finished]\<rparr>" using assms(3) by (simp add: timer_fire_def)
  then show ?thesis using set_idle_timer [OF assms(2), of Finished] assms(1,3) by (simp add: db_wf_def)
next
  case (Some b)
  let ?s = "remove_buffer key s" let ?t = "timer_fire h s"
  have t: "?t = ?s\<lparr>db_timers := (db_timers s)[h := Locking b]\<rparr>" using assms(3) Some by (simp add: timer_fire_def)
  note rb = remove_buffer_account [OF assms(1) Some]
  have "sum_list (map lock_ref ((db_timers s)[h := Locking b])) = sum_list (map lock_ref (db_timers s)) + {#b#}"
    using sum_list_map_update [OF assms(2), of lock_ref "Locking b"] assms(3) by simp
  moreover have "live_refs ?t = mset (map snd (db_buffers ?s)) + sum_list (map lock_ref ((db_timers s)[h := Locking b]))"
    by (simp add: t live_refs_def)
  moreover have "live_refs ?s = mset (map snd (db_buffers ?s)) + sum_list (map lock_ref (db_timers s))"
    by (simp add: live_refs_def)
  ultimately have refs: "live_refs ?t = live_refs s" by (simp add: rb(1))
  have "sum_list (map in_hand ((db_timers s)[h := Locking b])) = sum_list (map in_hand (db_timers s))"
    using sum_list_map_update [OF assms(2), of in_hand "Locking b"] assms(3) by simp
  moreover have "content ?t = content s" by (simp add: t content_def fun_eq_iff)
  ultimately have "accounted ?t = accounted s" by (simp add: accounted_def refs) (simp add: t delivered_def)
  moreover have "db_wf ?t" using assms(1) refs by (simp add: db_wf_def) (simp add: t)
  ultimately show ?thesis by simp
qed

lemma timer_take_account:
  assumes "db_wf s" "h < length (db_timers s)" "db_timers s ! h = Locking b"
  shows "db_wf (timer_take h s) \<and> accounted (timer_take h s) = accounted s"
proof -
  let ?x = "Sending (bf_items (db_heap s ! b))" let ?t = "timer_take h s"
  have t: "?t = s\<lparr>db_timers := (db_timers s)[h := ?x]\<rparr>" using assms(3) by (simp add: timer_take_def)
  have "sum_list (map lock_ref (db_timers s)) = add_mset b (sum_list (map lock_ref ((db_timers s)[h := ?x])))"
    using sum_list_map_update [OF assms(2), of lock_ref ?x] assms(3) by simp
  then have refs: "live_refs s = add_mset b (live_refs ?t)"
    by (simp add: live_refs_def t)
  have "sum_list (map in_hand ((db_timers s)[h := ?x])) = sum_list (map in_hand (db_timers s)) + content s b"
    using sum_list_map_update [OF assms(2), of in_hand ?x] assms(3) by (simp add: content_def)
  moreover have "content ?t = content s" by (simp add: t content_def fun_eq_iff)
  ultimately have "accounted ?t = accounted s" by (simp add: accounted_def refs) (simp add: t delivered_def)
  moreover have "count (live_refs ?t) x \<le> count (live_refs s) x" for x using refs by simp
  then have "db_wf ?t" using assms(1) refs unfolding db_wf_def by (auto simp: t intro: le_trans)
  ultimately show ?thesis by simp
qed

lemma timer_send_account:
  assumes "db_wf s" "h < length (db_timers s)" "db_timers s ! h = Sending batch"
  shows "db_wf (timer_send h s) \<and> accounted (timer_send h s) = accounted s"
proof -
  let ?s = "s\<lparr>db_timers := (db_timers s)[h := Finished]\<rparr>"
  have t: "timer_send h s = send_batch batch ?s" using assms(3) by (simp add: timer_send_def)
  have "sum_list (map lock_ref ((db_timers s)[h := Finished])) = sum_list (map lock_ref (db_timers s))"
    using sum_list_map_update [OF assms(2), of lock_ref Finished] assms(3) by simp
  then have refs: "live_refs ?s = live_refs s" by (simp add: live_refs_def)
  have "sum_list (map in_hand ((db_timers s)[h := Finished])) + mset (map di_message batch) = sum_list (map in_hand (db_timers s))"
    using sum_list_map_update [OF assms(2), of in_hand Finished] assms(3) by simp
  moreover have "content ?s = content s" by (simp add: content_def fun_eq_iff)
  ultimately have "accounted ?s + mset (map di_message batch) = accounted s"
    by (simp add: accounted_def refs delivered_def ac_simps)
  then show ?thesis using assms(1) refs by (simp add: t accounted_send_batch db_wf_def)
qed

text \<open>What the operations on the map do with what is accounted for.\<close>

lemma take_out_account:
  assumes "db_wf s" "map_of (db_buffers s) k = Some b"
  shows "db_wf (abort_timer h (remove_buffer k s))"
    and "accounted (abort_timer h (remove_buffer k s)) + content s b \<subseteq># accounted s"
  using remove_buffer_account [OF assms] wf_abort_timer abort_timer_le(2) [of h "remove_buffer k s"]
  by (simp_all add: subset_mset.add_right_mono)

lemma evict_account:
  assumes "db_wf s"
  shows "db_wf (evict_lru_if_necessary key s)" and "accounted (evict_lru_if_necessary key s) \<subseteq># accounted s"
  using assms take_out_account
  by (auto simp: evict_lru_if_necessary_def accounted_send_batch content_def split: option.split)

lemma new_buffer_account:
  assumes "db_wf s" "map_of (db_buffers s) key = None" "bf_items buf = []"
    and s': "s' = s\<lparr>db_heap := db_heap s @ [buf], db_buffers := db_buffers s @ [(key, length (db_heap s))]\<rparr>"
  shows "db_wf s'" and "accounted s' = accounted s"
proof -
  let ?n = "length (db_heap s)"
  have refs: "live_refs s' = add_mset ?n (live_refs s)" by (simp add: s' live_refs_def)
  have n: "?n \<notin># live_refs s" using assms(1) unfolding db_wf_def by blast
  have "content s' b = content s b" if "b \<in># live_refs s" for b
    using assms(1) that by (simp add: db_wf_def content_def s' nth_append)
  then have "image_mset (content s') (live_refs s) = image_mset (content s) (live_refs s)"
    by (rule image_mset_cong)
  moreover have "content s' ?n = {#}" using assms(3) by (simp add: content_def s')
  ultimately show "accounted s' = accounted s" by (simp add: accounted_def refs) (simp add: s' delivered_def)
  have "hm_ok (db_buffers s')" using assms(1,2) by (auto simp: s' db_wf_def map_of_eq_None_iff)
  moreover have "count (live_refs s') b \<le> 1" for b
    using assms(1) n by (auto simp: refs db_wf_def not_in_iff)
  moreover have "b < length (db_heap s')" if "b \<in># live_refs s'" for b
  proof -
    have "b = ?n \<or> b \<in># live_refs s" using that refs by simp
    then show ?thesis using assms(1) by (auto simp: db_wf_def s' less_Suc_eq)
  qed
  ultimately show "db_wf s'" by (simp add: db_wf_def)
qed

lemma locate_account:
  assumes "db_wf s" "enqueue_locate now key s = (b, s')"
  shows "db_wf s'" and "accounted s' \<subseteq># accounted s" and "map_of (db_buffers s') key = Some b"
    and "b < length (db_heap s')"
proof -
  let ?s = "evict_lru_if_necessary key s"
  note e = evict_account [OF assms(1), of key]
  show w: "db_wf s'" and "accounted s' \<subseteq># accounted s" and m: "map_of (db_buffers s') key = Some b"
  proof -
    have "db_wf s' \<and> accounted s' \<subseteq># accounted s \<and> map_of (db_buffers s') key = Some b"
    proof (cases "map_of (db_buffers ?s) key")
      case None
      let ?buf = "\<lparr>bf_items = [], bf_timer_handle = None, bf_last_activity = now\<rparr>"
      have s': "s' = ?s\<lparr>db_heap := db_heap ?s @ [?buf], db_buffers := db_buffers ?s @ [(key, length (db_heap ?s))]\<rparr>"
        and "b = length (db_heap ?s)"
        using assms(2) None by (auto simp: enqueue_locate_def Let_def)
      then show ?thesis using new_buffer_account [OF e(1) None _ s'] e(2) None by (simp add: map_add_def)
    next
      case (Some c)
      then show ?thesis using assms(2) e by (auto simp: enqueue_locate_def Let_def)
    qed
    then show "db_wf s'" "accounted s' \<subseteq># accounted s" "map_of (db_buffers s') key = Some b" by simp_all
  qed
  show "b < length (db_heap s')" using w buffer_is_live [OF m] by (simp add: db_wf_def)
qed

lemma push_account:
  assumes "db_wf s" "b < length (db_heap s)"
  shows "db_wf (enqueue_push now key b m s)" and "accounted (enqueue_push now key b m s) \<subseteq># accounted s + {#m#}"
proof -
  let ?h = "bf_timer_handle (db_heap s ! b)" let ?s = "abort_timer ?h s"
  let ?buf = "\<lparr>bf_items = bf_items (db_heap s ! b) @ [\<lparr>di_message = m, di_received_at = now\<rparr>],
                bf_timer_handle = Some (length (db_timers s)), bf_last_activity = now\<rparr>"
  let ?f = "?s\<lparr>db_heap := (db_heap ?s)[b := ?buf]\<rparr>"
  have t: "enqueue_push now key b m s = ?f\<lparr>db_timers := db_timers ?f @ [Sleeping key]\<rparr>"
    by (simp add: enqueue_push_def Let_def)
  have sl: "accounted (d\<lparr>db_timers := db_timers d @ [Sleeping key]\<rparr>) = accounted d"
    "db_wf (d\<lparr>db_timers := db_timers d @ [Sleeping key]\<rparr>) = db_wf d" for d
  proof -
    have "content (d\<lparr>db_timers := db_timers d @ [Sleeping key]\<rparr>) = content d" by (simp add: content_def fun_eq_iff)
    then show "accounted (d\<lparr>db_timers := db_timers d @ [Sleeping key]\<rparr>) = accounted d"
      by (simp add: accounted_def delivered_def live_refs_def)
  qed (simp add: live_refs_def db_wf_def)
  note f = accounted_fill [OF wf_abort_timer [OF assms(1), of ?h], of b ?buf, OF _ _ refl]
  show "db_wf (enqueue_push now key b m s)" unfolding t sl(2) using f(3) assms(2) by simp
  have "accounted ?f \<subseteq># accounted ?s + {#m#}" using f(1) assms(2) by simp
  also have "\<dots> \<subseteq># accounted s + {#m#}" using abort_timer_le(2) by simp
  finally show "accounted (enqueue_push now key b m s) \<subseteq># accounted s + {#m#}" unfolding t sl(1) .
qed

lemma flush_account:
  assumes "db_wf s"
  shows "db_wf (snd (flush_key key s))"
    and "accounted (snd (flush_key key s)) + mset (fst (flush_key key s)) \<subseteq># accounted s"
  using assms take_out_account by (auto simp: flush_key_def content_def split: option.split)

section \<open>Racing calls\<close>

definition racing_inv :: "debounce_system \<Rightarrow> bool" where
  "racing_inv s \<longleftrightarrow> db_wf (sy_db s) \<and> (\<forall>(k, b, m) \<in> set (sy_calls s). b < length (db_heap (sy_db s))) \<and>
     accounted (sy_db s) + mset (sy_flushed s) \<subseteq># mset (sy_absorbed s)"

lemma db_heap_timer [simp]:
  "db_heap (timer_fire h s) = db_heap s" "db_heap (timer_take h s) = db_heap s" "db_heap (timer_send h s) = db_heap s"
  by (simp_all add: timer_fire_def timer_take_def timer_send_def split: flush_timer.split option.split)

lemma timer_step_account:
  assumes "timer_step s s'" "db_wf (sy_db s)"
  shows "db_wf (sy_db s') \<and> accounted (sy_db s') = accounted (sy_db s) \<and>
    db_heap (sy_db s') = db_heap (sy_db s) \<and> sy_calls s' = sy_calls s \<and>
    sy_absorbed s' = sy_absorbed s \<and> sy_flushed s' = sy_flushed s"
  using assms timer_fire_account timer_take_account timer_send_account
  by (induction rule: timer_step.induct) simp_all

lemma heap_grows:
  "length (db_heap s) \<le> length (db_heap (evict_lru_if_necessary key s))"
  "enqueue_locate now key s = (b, s') \<Longrightarrow> length (db_heap s) \<le> length (db_heap s')"
  "length (db_heap (enqueue_push now key c m s)) = length (db_heap s)"
  "length (db_heap (snd (flush_key key s))) = length (db_heap s)"
proof -
  show e: "length (db_heap s) \<le> length (db_heap (evict_lru_if_necessary key s))"
    by (simp add: evict_lru_if_necessary_def split: option.split)
  show "enqueue_locate now key s = (b, s') \<Longrightarrow> length (db_heap s) \<le> length (db_heap s')"
    using e by (auto simp: enqueue_locate_def Let_def split: option.splits)
qed (simp_all add: enqueue_push_def flush_key_def Let_def split: option.split)

lemma racing_step_inv:
  assumes "racing_step s s'" "racing_inv s"
  shows "racing_inv s'"
  using assms
proof (induction rule: racing_step.induct)
  case (timer s s')
  then show ?case using timer_step_account [of s s'] by (simp add: racing_inv_def)
next
  case (locates s m now b d)
  then have w: "db_wf (sy_db s)" by (simp add: racing_inv_def)
  note l = locate_account [OF w locates(3)]
  have "accounted d + mset (sy_flushed s) \<subseteq># mset (sy_absorbed s)"
    using l(2) locates(4) unfolding racing_inv_def by (meson subset_mset.add_right_mono subset_mset.order_trans)
  then show ?case
    using l locates(4) heap_grows(2) [OF locates(3)] by (fastforce simp: racing_inv_def)
next
  case (pushes s cs key b m cs' now)
  then have w: "db_wf (sy_db s)" and b: "b < length (db_heap (sy_db s))" by (auto simp: racing_inv_def)
  note p = push_account [OF w b, of now key m]
  have "accounted (enqueue_push now key b m (sy_db s)) + mset (sy_flushed s)
      \<subseteq># (accounted (sy_db s) + {#m#}) + mset (sy_flushed s)"
    using p(2) by (rule subset_mset.add_right_mono)
  also have "\<dots> \<subseteq># mset (sy_absorbed s) + {#m#}" using pushes(2) by (simp add: racing_inv_def)
  finally show ?case using p(1) pushes by (auto simp: racing_inv_def heap_grows)
next
  case (flushes s key)
  then have w: "db_wf (sy_db s)" by (simp add: racing_inv_def)
  note f = flush_account [OF w, of key]
  have "accounted (snd (flush_key key (sy_db s))) + mset (sy_flushed s @ fst (flush_key key (sy_db s)))
      \<subseteq># accounted (sy_db s) + mset (sy_flushed s)"
    using subset_mset.add_right_mono [OF f(2), of "mset (sy_flushed s)"] by (simp add: ac_simps)
  also have "\<dots> \<subseteq># mset (sy_absorbed s)" using flushes(2) by (simp add: racing_inv_def)
  finally show ?case using f(1) flushes(2) by (auto simp: racing_inv_def heap_grows)
qed

lemma debounce_init_wf: "db_wf (new_debouncer n p)" "accounted (new_debouncer n p) = {#}"
  by (simp_all add: db_wf_def new_debouncer_def accounted_def delivered_def live_refs_def)

lemma racing_run_inv: "racing_step\<^sup>*\<^sup>* (debounce_init n p) s \<Longrightarrow> racing_inv s"
proof (induction rule: rtranclp_induct)
  case base
  then show ?case using debounce_init_wf by (simp add: racing_inv_def debounce_init_def)
qed (rule racing_step_inv)

section \<open>Serial calls\<close>

text \<open>Each buffer of the map, those of the keys \<open>K\<close> apart, has a timer of its own that sleeps
  for its key.\<close>

definition timed_except :: "string set \<Rightarrow> debouncer \<Rightarrow> bool" where
  "timed_except K s \<longleftrightarrow> (\<forall>k b. map_of (db_buffers s) k = Some b \<and> k \<notin> K \<longrightarrow>
     (\<exists>h < length (db_timers s). bf_timer_handle (db_heap s ! b) = Some h \<and> db_timers s ! h = Sleeping k))"

lemma timed_exceptD:
  "timed_except K s \<Longrightarrow> map_of (db_buffers s) k = Some b \<Longrightarrow> k \<notin> K \<Longrightarrow>
   \<exists>h < length (db_timers s). bf_timer_handle (db_heap s ! b) = Some h \<and> db_timers s ! h = Sleeping k"
  by (simp add: timed_except_def)

lemma timed_set_timer:
  assumes "timed_except K s" "\<forall>k. db_timers s ! h = Sleeping k \<longrightarrow> k \<in> K"
  shows "timed_except K (s\<lparr>db_timers := (db_timers s)[h := t]\<rparr>)"
  using assms unfolding timed_except_def
  by simp (metis nth_list_update_neq)

lemma timed_remove:
  "timed_except (insert k K) s \<Longrightarrow> timed_except K (remove_buffer k s)"
  by (auto simp: timed_except_def split: if_splits)

lemma timed_mono: "timed_except K s \<Longrightarrow> K \<subseteq> K' \<Longrightarrow> timed_except K' s"
  by (auto simp: timed_except_def)

lemma timed_abort:
  assumes "timed_except K s" "\<forall>i k. h = Some i \<and> db_timers s ! i = Sleeping k \<longrightarrow> k \<in> K"
  shows "timed_except K (abort_timer h s)"
  using timed_set_timer [OF assms(1)] assms by (cases h) (simp_all add: abort_timer_def)

lemma take_out_exact:
  assumes "db_wf s" "timed_except K s" "map_of (db_buffers s) k = Some b" "k \<notin> K"
  shows "timed_except K (abort_timer (bf_timer_handle (db_heap s ! b)) (remove_buffer k s))"
    and "accounted (abort_timer (bf_timer_handle (db_heap s ! b)) (remove_buffer k s)) + content s b = accounted s"
proof -
  obtain h where h: "h < length (db_timers s)" "bf_timer_handle (db_heap s ! b) = Some h" "db_timers s ! h = Sleeping k"
    using timed_exceptD [OF assms(2-4)] by blast
  have "timed_except (insert k K) (abort_timer (Some h) s)"
    using h(3) assms(2) by (intro timed_abort timed_mono [OF assms(2)]) auto
  moreover have "abort_timer (Some h) (remove_buffer k s) = remove_buffer k (abort_timer (Some h) s)"
    by (simp add: abort_timer_def remove_buffer_def)
  ultimately show "timed_except K (abort_timer (bf_timer_handle (db_heap s ! b)) (remove_buffer k s))"
    using timed_remove by (simp add: h(2))
  have "accounted (abort_timer (Some h) (remove_buffer k s)) = accounted (remove_buffer k s)"
    by (rule abort_idle_timer(2)) (simp_all add: h)
  then show "accounted (abort_timer (bf_timer_handle (db_heap s ! b)) (remove_buffer k s)) + content s b = accounted s"
    using remove_buffer_account(2) [OF assms(1,3)] by (simp add: h(2))
qed

lemma timed_send_batch [simp]: "timed_except K (send_batch batch s) = timed_except K s"
  by (simp add: timed_except_def)

lemma evict_exact:
  assumes "db_wf s" "timed_except {} s"
  shows "timed_except {} (evict_lru_if_necessary key s)" and "accounted (evict_lru_if_necessary key s) = accounted s"
  using assms take_out_exact [OF assms]
  by (auto simp: evict_lru_if_necessary_def accounted_send_batch content_def split: option.split)

lemma locate_exact:
  assumes "db_wf s" "timed_except {} s" "enqueue_locate now key s = (b, s')"
  shows "timed_except {key} s'" and "accounted s' = accounted s"
    and "\<forall>h. bf_timer_handle (db_heap s' ! b) = Some h \<longrightarrow> h < length (db_timers s') \<and> db_timers s' ! h = Sleeping key"
proof -
  let ?s = "evict_lru_if_necessary key s"
  note e = evict_exact [OF assms(1,2), of key] and w = evict_account(1) [OF assms(1), of key]
  have "timed_except {key} s' \<and> accounted s' = accounted s \<and>
    (\<forall>h. bf_timer_handle (db_heap s' ! b) = Some h \<longrightarrow> h < length (db_timers s') \<and> db_timers s' ! h = Sleeping key)"
  proof (cases "map_of (db_buffers ?s) key")
    case None
    let ?buf = "\<lparr>bf_items = [], bf_timer_handle = None, bf_last_activity = now\<rparr>"
    have s': "s' = ?s\<lparr>db_heap := db_heap ?s @ [?buf], db_buffers := db_buffers ?s @ [(key, length (db_heap ?s))]\<rparr>"
      and b: "b = length (db_heap ?s)"
      using assms(3) None by (auto simp: enqueue_locate_def Let_def)
    have "c < length (db_heap ?s)" if "map_of (db_buffers ?s) k = Some c" for k c
      using w buffer_is_live [OF that] by (simp add: db_wf_def)
    then have "timed_except {key} s'"
      using e(1) unfolding timed_except_def s' by (auto simp: map_add_def nth_append split: option.splits)
    then show ?thesis using new_buffer_account(2) [OF w None _ s'] e(2) s' b by simp
  next
    case (Some c)
    then have "s' = ?s" "b = c" using assms(3) by (auto simp: enqueue_locate_def Let_def)
    then show ?thesis using e timed_exceptD [OF e(1) Some] timed_mono [OF e(1)] by auto
  qed
  then show "timed_except {key} s'" "accounted s' = accounted s"
    "\<forall>h. bf_timer_handle (db_heap s' ! b) = Some h \<longrightarrow> h < length (db_timers s') \<and> db_timers s' ! h = Sleeping key"
    by simp_all
qed

lemma push_exact:
  assumes "db_wf s" "timed_except {key} s" "map_of (db_buffers s) key = Some b"
    and "\<forall>h. bf_timer_handle (db_heap s ! b) = Some h \<longrightarrow> h < length (db_timers s) \<and> db_timers s ! h = Sleeping key"
  shows "timed_except {} (enqueue_push now key b m s)" and "accounted (enqueue_push now key b m s) = accounted s + {#m#}"
proof -
  let ?h = "bf_timer_handle (db_heap s ! b)" let ?s = "abort_timer ?h s"
  let ?buf = "\<lparr>bf_items = bf_items (db_heap s ! b) @ [\<lparr>di_message = m, di_received_at = now\<rparr>],
                bf_timer_handle = Some (length (db_timers s)), bf_last_activity = now\<rparr>"
  let ?f = "?s\<lparr>db_heap := (db_heap ?s)[b := ?buf]\<rparr>"
  have t: "enqueue_push now key b m s = ?f\<lparr>db_timers := db_timers ?f @ [Sleeping key]\<rparr>"
    by (simp add: enqueue_push_def Let_def)
  have b: "b \<in># live_refs s" "b < length (db_heap s)"
    using buffer_is_live [OF assms(3)] assms(1) by (auto simp: db_wf_def)
  have ab: "live_refs ?s = live_refs s" "accounted ?s = accounted s"
    using abort_idle_timer assms(4) by (cases ?h; simp add: abort_timer_def [of None])+
  have content: "content (d\<lparr>db_timers := ts\<rparr>) = content d" for d ts by (simp add: content_def fun_eq_iff)
  have "accounted (?f\<lparr>db_timers := db_timers ?f @ [Sleeping key]\<rparr>) = accounted ?f"
    unfolding accounted_def content by (simp add: delivered_def live_refs_def)
  also have "\<dots> = accounted ?s + {#m#}"
    using accounted_fill(1) [OF wf_abort_timer [OF assms(1), of ?h], of b ?buf, OF _ _ refl] b ab(1) by simp
  finally show "accounted (enqueue_push now key b m s) = accounted s + {#m#}" unfolding t ab(2) .
  have others: "c \<noteq> b" if "map_of (db_buffers s) k = Some c" "k \<noteq> key" for k c
  proof
    assume "c = b"
    then have "map_of (db_buffers (remove_buffer key s)) k = Some b" using that by simp
    then have "b \<in># live_refs (remove_buffer key s)" by (rule buffer_is_live)
    then have "1 < count (live_refs s) b" using remove_buffer_account(1) [OF assms(1,3)] by simp
    moreover have "count (live_refs s) b \<le> 1" using assms(1) by (simp add: db_wf_def)
    ultimately show False by simp
  qed
  have sa: "timed_except {key} ?s" using assms(2,4) by (intro timed_abort) auto
  show "timed_except {} (enqueue_push now key b m s)"
    unfolding t timed_except_def
  proof (intro allI impI)
    fix k c assume "map_of (db_buffers (?f\<lparr>db_timers := db_timers ?f @ [Sleeping key]\<rparr>)) k = Some c \<and> k \<notin> {}"
    then have kc: "map_of (db_buffers s) k = Some c" by simp
    show "\<exists>h < length (db_timers (?f\<lparr>db_timers := db_timers ?f @ [Sleeping key]\<rparr>)).
       bf_timer_handle (db_heap (?f\<lparr>db_timers := db_timers ?f @ [Sleeping key]\<rparr>) ! c) = Some h \<and>
       db_timers (?f\<lparr>db_timers := db_timers ?f @ [Sleeping key]\<rparr>) ! h = Sleeping k"
    proof (cases "k = key")
      case True
      then show ?thesis using kc assms(3) b(2) by (auto simp: nth_append)
    next
      case False
      then show ?thesis
        using timed_exceptD [OF sa, of k c] kc others [OF kc] by (auto simp: nth_append)
    qed
  qed
qed

definition serial_inv :: "debounce_system \<Rightarrow> bool" where
  "serial_inv s \<longleftrightarrow> db_wf (sy_db s) \<and> timed_except {} (sy_db s) \<and>
     mset (sy_absorbed s) = accounted (sy_db s) + mset (sy_flushed s)"

lemma timer_step_timed:
  assumes "timer_step s s'" "timed_except {} (sy_db s)"
  shows "timed_except {} (sy_db s')"
  using assms
proof (induction rule: timer_step.induct)
  case (fires h s key)
  have t: "timed_except {key} ((sy_db s)\<lparr>db_timers := (db_timers (sy_db s))[h := x]\<rparr>)" for x
    using fires by (intro timed_set_timer timed_mono [OF fires(4)]) auto
  show ?case
  proof (cases "map_of (db_buffers (sy_db s)) key")
    case None
    have "timed_except {} ((sy_db s)\<lparr>db_timers := (db_timers (sy_db s))[h := Finished]\<rparr>)"
      using t [of Finished] None unfolding timed_except_def by fastforce
    then show ?thesis using None fires by (simp add: timer_fire_def)
  next
    case (Some b)
    then show ?thesis
      using timed_remove [of key "{}", OF t [of "Locking b"]] fires
      by (simp add: timer_fire_def timed_except_def)
  qed
next
  case (takes h s b)
  then show ?case using timed_set_timer [of "{}" "sy_db s" h] by (simp add: timer_take_def)
next
  case (sends h s batch)
  then show ?case using timed_set_timer [of "{}" "sy_db s" h] by (simp add: timer_send_def)
qed

lemma serial_step_inv:
  assumes "serial_step s s'" "serial_inv s"
  shows "serial_inv s'"
  using assms
proof (induction rule: serial_step.induct)
  case (timer s s')
  then show ?case using timer_step_account [of s s'] timer_step_timed [of s s'] by (simp add: serial_inv_def)
next
  case (enqueues s m now)
  then have w: "db_wf (sy_db s)" and t: "timed_except {} (sy_db s)" by (simp_all add: serial_inv_def)
  obtain b d where l: "enqueue_locate now (resolve_key m) (sy_db s) = (b, d)" by force
  note la = locate_account [OF w l] and le = locate_exact [OF w t l]
  note pa = push_account(1) [OF la(1,4), of now "resolve_key m" m] and pe = push_exact [OF la(1) le(1) la(3) le(3), of now m]
  have "snd (enqueue now m (sy_db s)) = enqueue_push now (resolve_key m) b m d"
    using enqueues(2) l by (simp add: enqueue_def)
  then show ?case using enqueues(3) le(2) pa pe by (simp add: serial_inv_def)
next
  case (flushes s key)
  then have w: "db_wf (sy_db s)" and t: "timed_except {} (sy_db s)" by (simp_all add: serial_inv_def)
  show ?case
    using flushes(2) flush_account(1) [OF w, of key] take_out_exact [OF w t, of key]
    by (cases "map_of (db_buffers (sy_db s)) key") (auto simp: serial_inv_def flush_key_def content_def ac_simps)
qed

lemma serial_run_inv: "serial_step\<^sup>*\<^sup>* (debounce_init n p) s \<Longrightarrow> serial_inv s"
proof (induction rule: rtranclp_induct)
  case base
  then show ?case
    using debounce_init_wf by (simp add: serial_inv_def debounce_init_def timed_except_def) (simp add: new_debouncer_def)
qed (rule serial_step_inv)

section \<open>Timers run out\<close>

lemma sum_list_all_empty: "(\<And>x. x \<in> set xs \<Longrightarrow> f x = {#}) \<Longrightarrow> sum_list (map f xs) = {#}"
  by (induction xs) auto

fun timer_weight :: "flush_timer \<Rightarrow> nat" where
  "timer_weight (Sleeping _) = 3"
| "timer_weight (Locking _) = 2"
| "timer_weight (Sending _) = 1"
| "timer_weight _ = 0"

definition timer_measure :: "debounce_system \<Rightarrow> nat" where
  "timer_measure s = sum_list (map timer_weight (db_timers (sy_db s)))"

lemma timer_step_measure: "timer_step s s' \<Longrightarrow> timer_measure s' < timer_measure s"
proof (induction rule: timer_step.induct)
  case (fires h s key)
  have "sum_list (map timer_weight ((db_timers (sy_db s))[h := t])) < sum_list (map timer_weight (db_timers (sy_db s)))"
    if "timer_weight t < 3" for t
    using sum_list_map_update [OF fires(1), of timer_weight t] fires(2) that by simp
  then show ?case
    using fires(2) by (simp add: timer_measure_def timer_fire_def split: option.split)
next
  case (takes h s b)
  then show ?case
    using sum_list_map_update [OF takes(1), of timer_weight "Sending (bf_items (db_heap (sy_db s) ! b))"]
    by (simp add: timer_measure_def timer_take_def)
next
  case (sends h s batch)
  then show ?case
    using sum_list_map_update [OF sends(1), of timer_weight Finished]
    by (simp add: timer_measure_def timer_send_def)
qed

lemma stuck_timers:
  assumes "\<nexists>s'. timer_step s s'" "t \<in> set (db_timers (sy_db s))"
  shows "t = Finished \<or> t = Aborted"
proof -
  have no_lock: "db_timers (sy_db s) ! h \<noteq> Locking b" if "h < length (db_timers (sy_db s))" for h b
    using assms(1) timer_step.takes [OF that] by blast
  then have unlocked: "map_unlocked (sy_db s)" unfolding map_unlocked_def by (metis in_set_conv_nth)
  obtain h where h: "h < length (db_timers (sy_db s))" "db_timers (sy_db s) ! h = t"
    using assms(2) by (metis in_set_conv_nth)
  show ?thesis
    using h no_lock [OF h(1)] assms(1) timer_step.fires [OF h(1) _ unlocked] timer_step.sends [OF h(1)]
    by (cases t) auto
qed

section \<open>Properties\<close>



definition sample_message :: "string \<Rightarrow> incoming_message" where
  "sample_message i = \<lparr>im_id = i, im_user_id = ''u'', im_conversation_id = ''c'', im_content = ''hello''\<rparr>"

lemma sample_serial:
  "serial_step (debounce_init 2 [''/''])
     ((debounce_init 2 [''/''])\<lparr>sy_db := snd (enqueue 1 (sample_message ''1'') (sy_db (debounce_init 2 [''/'']))),
        sy_absorbed := sy_absorbed (debounce_init 2 [''/'']) @ [sample_message ''1'']\<rparr>)"
  by (rule serial_step.enqueues) (simp add: map_unlocked_def debounce_init_def new_debouncer_def, code_simp)


lemma map_unlocked_code [code]:
  "map_unlocked s \<longleftrightarrow> list_all (\<lambda>t. case t of Locking _ \<Rightarrow> False | _ \<Rightarrow> True) (db_timers s)"
  by (auto simp: map_unlocked_def list_all_iff split: flush_timer.splits)

lemma no_timer_step: "list_all (\<lambda>t. timer_weight t = 0) (db_timers (sy_db s)) \<Longrightarrow> \<nexists>t. timer_step s t"
  by (auto simp: list_all_length elim!: timer_step.cases)

definition race_db :: "nat \<Rightarrow> debouncer" where
  "race_db i =
     [new_debouncer 2 [],
      snd (enqueue_locate 1 ''c'' (new_debouncer 2 [])),
      enqueue_push 1 ''c'' 0 (sample_message ''1'') (snd (enqueue_locate 1 ''c'' (new_debouncer 2 []))),
      timer_fire 0 (enqueue_push 1 ''c'' 0 (sample_message ''1'') (snd (enqueue_locate 1 ''c'' (new_debouncer 2 [])))),
      enqueue_push 2 ''c'' 0 (sample_message ''2'') (timer_fire 0 (enqueue_push 1 ''c'' 0 (sample_message ''1'')
        (snd (enqueue_locate 1 ''c'' (new_debouncer 2 []))))),
      timer_fire 1 (enqueue_push 2 ''c'' 0 (sample_message ''2'') (timer_fire 0 (enqueue_push 1 ''c'' 0
        (sample_message ''1'') (snd (enqueue_locate 1 ''c'' (new_debouncer 2 []))))))] ! i"

definition race_state :: "nat \<Rightarrow> incoming_message list \<Rightarrow> incoming_message list \<Rightarrow> debounce_system" where
  "race_state i calls absorbed =
     \<lparr>sy_db = race_db i, sy_calls = map (\<lambda>m. (''c'', 0, m)) calls, sy_absorbed = absorbed, sy_flushed = []\<rparr>"

lemma race_trace:
  "racing_step\<^sup>*\<^sup>* (debounce_init 2 []) (race_state 5 [] [sample_message ''1'', sample_message ''2''])"
proof -
  let ?m1 = "sample_message ''1''" and ?m2 = "sample_message ''2''"
  have key: "resolve_key ?m1 = ''c''" "resolve_key ?m2 = ''c''" by code_simp+
  have by1: "\<not> should_bypass (race_db i) (trim (im_content ?m1))" "\<not> should_bypass (race_db i) (trim (im_content ?m2))"
    if "i \<in> {0, 2}" for i using that by (auto, code_simp+)
  have l1: "enqueue_locate 1 (resolve_key ?m1) (race_db 0) = (0, race_db 1)"
    and l2: "enqueue_locate 2 (resolve_key ?m2) (race_db 2) = (0, race_db 2)" by code_simp+
  have u: "map_unlocked (race_db 0)" "map_unlocked (race_db 2)" "map_unlocked (race_db 4)" by code_simp+
  have t: "length (db_timers (race_db 2)) = 1" "db_timers (race_db 2) ! 0 = Sleeping ''c''"
    "length (db_timers (race_db 4)) = 2" "db_timers (race_db 4) ! 1 = Sleeping ''c''" by code_simp+
  have d: "race_db 2 = enqueue_push 1 ''c'' 0 ?m1 (race_db 1)" "race_db 3 = timer_fire 0 (race_db 2)"
    "race_db 4 = enqueue_push 2 ''c'' 0 ?m2 (race_db 3)" "race_db 5 = timer_fire 1 (race_db 4)"
    by (simp_all add: race_db_def eval_nat_numeral)
  have s1: "racing_step (race_state 0 [] []) (race_state 1 [?m1] [])"
    using racing_step.locates [of "race_state 0 [] []" ?m1 1 0 "race_db 1"] u by1 [of 0] l1 key
    by (simp add: race_state_def)
  have s2: "racing_step (race_state 1 [?m1] []) (race_state 2 [] [?m1])"
    using racing_step.pushes [of "race_state 1 [?m1] []" "[]" "''c''" 0 ?m1 "[]" 1] d(1) by (simp add: race_state_def)
  have s3: "racing_step (race_state 2 [] [?m1]) (race_state 2 [?m2] [?m1])"
    using racing_step.locates [of "race_state 2 [] [?m1]" ?m2 2 0 "race_db 2"] u by1 [of 2] l2 key
    by (simp add: race_state_def)
  have s4: "racing_step (race_state 2 [?m2] [?m1]) (race_state 3 [?m2] [?m1])"
    using racing_step.timer [OF timer_step.fires [of 0 "race_state 2 [?m2] [?m1]" "''c''"]] u t d(2)
    by (simp add: race_state_def)
  have s5: "racing_step (race_state 3 [?m2] [?m1]) (race_state 4 [] [?m1, ?m2])"
    using racing_step.pushes [of "race_state 3 [?m2] [?m1]" "[]" "''c''" 0 ?m2 "[]" 2] d(3) by (simp add: race_state_def)
  have s6: "racing_step (race_state 4 [] [?m1, ?m2]) (race_state 5 [] [?m1, ?m2])"
    using racing_step.timer [OF timer_step.fires [of 1 "race_state 4 [] [?m1, ?m2]" "''c''"]] u t d(4)
    by (simp add: race_state_def)
  have i: "debounce_init 2 [] = race_state 0 [] []"
    by (simp add: debounce_init_def race_state_def race_db_def)
  show ?thesis
    unfolding i
    by (rule converse_rtranclp_into_rtranclp, rule s1, rule converse_rtranclp_into_rtranclp, rule s2,
        rule converse_rtranclp_into_rtranclp, rule s3, rule converse_rtranclp_into_rtranclp, rule s4,
        rule converse_rtranclp_into_rtranclp, rule s5, rule r_into_rtranclp, rule s6)
qed


text \<open>Between its two critical sections a call holds a buffer that a timer may take out of the map. The
  message is then pushed into a buffer nobody will read, the timer about to read it is aborted, and the new timer finds
  nothing under its key: two messages of a conversation are absorbed, all timers run out, and none is
  delivered.\<close>

theorem racing_call_loses_messages:
  "\<exists>s. racing_step\<^sup>*\<^sup>* (debounce_init 2 []) s \<and> sy_calls s = [] \<and> (\<nexists>t. timer_step s t) \<and>
     delivered (sy_db s) + mset (sy_flushed s) = {#} \<and> sy_absorbed s = [sample_message ''1'', sample_message ''2'']"
proof -
  let ?m1 = "sample_message ''1''" and ?m2 = "sample_message ''2''"
  have "list_all (\<lambda>t. timer_weight t = 0) (db_timers (race_db 5))" "db_channel (race_db 5) = []" by code_simp+
  then have "\<nexists>t. timer_step (race_state 5 [] [?m1, ?m2]) t" "delivered (race_db 5) = {#}"
    using no_timer_step [of "race_state 5 [] [?m1, ?m2]"] by (auto simp: race_state_def delivered_def)
  then show ?thesis
    using race_trace by (intro exI [of _ "race_state 5 [] [?m1, ?m2]"]) (simp add: race_state_def)
qed

end
