(* ===== verification/Target_Lock.thy ===== *)
theory Target_Lock
  imports Tool_Spill
begin

text \<open>
  Exclusive use of a shared target: the file lock (\<open>tools/file_lock.rs\<close>), the locks of a process and
  the leases of a target and of an app (\<open>tools/target_lock.rs\<close>), with the keys and the order of calls of
  the Android tools (\<open>computer/platform/android\<close>).

  The advisory lock of the operating system and the clock are arguments of the polling loop; in the
  step relation a file lock has at most one holder. Tasks are numbers, each in a process.
\<close>

section \<open>The file of a key\<close>

text \<open>The bytes of a string in UTF-8.\<close>

definition utf8_char :: "char \<Rightarrow> nat list" where
  "utf8_char c = (let n = (of_char c :: nat) in if n < 128 then [n] else [192 + n div 64, 128 + n mod 64])"

definition str_bytes :: "string \<Rightarrow> nat list" where
  "str_bytes s = concat (map utf8_char s)"

definition hex_digit :: "nat \<Rightarrow> char" where
  "hex_digit d = char_of (if d < 10 then 48 + d else 87 + d)"

definition hex_byte :: "nat \<Rightarrow> string" where
  "hex_byte b = [hex_digit (b div 16), hex_digit (b mod 16)]"

definition safe_byte :: "nat \<Rightarrow> bool" where
  "safe_byte b \<longleftrightarrow> (48 \<le> b \<and> b \<le> 57) \<or> (65 \<le> b \<and> b \<le> 90) \<or> (97 \<le> b \<and> b \<le> 122) \<or> b \<in> {45, 95, 46}"

definition safe_key :: "string \<Rightarrow> bool" where
  "safe_key key \<longleftrightarrow> key \<noteq> [] \<and> byte_len key \<le> 100 \<and> list_all safe_byte (str_bytes key)"

definition lock_name :: "string \<Rightarrow> string" where
  "lock_name key = (if safe_key key then key else concat (map hex_byte (str_bytes key)))"

definition lock_path :: "string \<Rightarrow> string \<Rightarrow> string" where
  "lock_path root key = path_join root (lock_name key @ ''.lock'')"

definition desktop_key :: string where
  "desktop_key = ''desktop-input''"

definition android_key :: string where
  "android_key = ''android-input''"

definition android_device :: "string \<Rightarrow> string" where
  "android_device serial = ''android-device:'' @ serial"

definition show_i32 :: "int \<Rightarrow> string" where
  "show_i32 i = (if i < 0 then ''-'' @ show_nat (nat (- i)) else show_nat (nat i))"

definition android_display :: "string \<Rightarrow> int \<Rightarrow> string" where
  "android_display serial display = ''android-display:'' @ serial @ '':'' @ show_i32 display"

definition android_app :: "string \<Rightarrow> string \<Rightarrow> string" where
  "android_app serial package = ''android-app:'' @ serial @ '':'' @ package"

definition device_lock_key :: "string option \<Rightarrow> string" where
  "device_lock_key device = (case device of Some serial \<Rightarrow> android_device serial | None \<Rightarrow> android_key)"

datatype target = Screen | Display int

definition target_lock_key :: "string option \<Rightarrow> target \<Rightarrow> string" where
  "target_lock_key device t =
     (case t of
        Screen \<Rightarrow> device_lock_key device
      | Display i \<Rightarrow>
          (case device of
             Some serial \<Rightarrow> android_display serial i
           | None \<Rightarrow> ''android-display:any:'' @ show_i32 i))"

section \<open>The polling loop\<close>

datatype try_lock = Locked | Would_Block | Try_Error string

datatype lock_error = Timed_Out string int | Lock_Io string string

definition default_timeout :: int where
  "default_timeout = 30000"

definition poll_interval :: int where
  "poll_interval = 25"

text \<open>What the machine says: whether the directory and the file can be prepared, the answer to each
  attempt, and two readings of the time since the start (in nanoseconds) after each attempt.\<close>

record lock_env =
  le_create_dir :: "string option"
  le_open :: "string option"
  le_try :: "nat \<Rightarrow> try_lock"
  le_elapsed :: "nat \<Rightarrow> int"
  le_elapsed_again :: "nat \<Rightarrow> int"

partial_function (option) acquire_loop :: "lock_env \<Rightarrow> string \<Rightarrow> int \<Rightarrow> nat \<Rightarrow> (lock_error + string) option" where
  "acquire_loop e path timeout i =
     (case le_try e i of
        Locked \<Rightarrow> Some (Inr path)
      | Try_Error source \<Rightarrow> Some (Inl (Lock_Io path source))
      | Would_Block \<Rightarrow>
          (if timeout * 1000000 \<le> le_elapsed e i
           then Some (Inl (Timed_Out path (le_elapsed_again e i div 1000000)))
           else acquire_loop e path timeout (Suc i)))"

definition acquire :: "lock_env \<Rightarrow> string \<Rightarrow> int \<Rightarrow> (lock_error + string) option" where
  "acquire e path timeout =
     (case (if path_parent path = None then None else le_create_dir e) of
        Some source \<Rightarrow> Some (Inl (Lock_Io path source))
      | None \<Rightarrow>
          (case le_open e of
             Some source \<Rightarrow> Some (Inl (Lock_Io path source))
           | None \<Rightarrow> acquire_loop e path timeout 0))"

definition try_acquire :: "lock_env \<Rightarrow> string \<Rightarrow> (lock_error + string) option" where
  "try_acquire e path = acquire e path 0"

section \<open>Leases of a target\<close>

text \<open>A task waits for the mutex of its process and key, then polls for the file. It gets its lease
  with the file or, when the loop gave up, without it. The fields of a lease are dropped in their order:
  first the mutex, then the file. A process that dies loses both.\<close>

datatype lease_phase = L_Idle | L_Local string | L_Leased string bool | L_Releasing string bool

record lock_state =
  lk_local :: "nat \<times> string \<Rightarrow> nat option"
  lk_file :: "string \<Rightarrow> nat option"
  lk_task :: "nat \<Rightarrow> lease_phase"

definition new_locks :: lock_state where
  "new_locks = \<lparr>lk_local = (\<lambda>_. None), lk_file = (\<lambda>_. None), lk_task = (\<lambda>_. L_Idle)\<rparr>"

definition drop_file :: "string \<Rightarrow> bool \<Rightarrow> (string \<Rightarrow> nat option) \<Rightarrow> string \<Rightarrow> nat option" where
  "drop_file name with_file f = (if with_file then f(name := None) else f)"

inductive lock_step :: "(nat \<Rightarrow> nat) \<Rightarrow> lock_state \<Rightarrow> lock_state \<Rightarrow> bool" for proc where
  lock_named:
    "lk_task s t = L_Idle \<Longrightarrow> lk_local s (proc t, k) = None \<Longrightarrow>
     lock_step proc s (s\<lparr>lk_local := (lk_local s)((proc t, k) \<mapsto> t), lk_task := (lk_task s)(t := L_Local k)\<rparr>)"
| file_taken:
    "lk_task s t = L_Local k \<Longrightarrow> lk_file s (lock_name k) = None \<Longrightarrow>
     lock_step proc s (s\<lparr>lk_file := (lk_file s)(lock_name k \<mapsto> t), lk_task := (lk_task s)(t := L_Leased k True)\<rparr>)"
| file_unavailable:
    "lk_task s t = L_Local k \<Longrightarrow>
     lock_step proc s (s\<lparr>lk_task := (lk_task s)(t := L_Leased k False)\<rparr>)"
| drop_local:
    "lk_task s t = L_Leased k b \<Longrightarrow>
     lock_step proc s (s\<lparr>lk_local := (lk_local s)((proc t, k) := None), lk_task := (lk_task s)(t := L_Releasing k b)\<rparr>)"
| drop_lease_file:
    "lk_task s t = L_Releasing k b \<Longrightarrow>
     lock_step proc s (s\<lparr>lk_file := drop_file (lock_name k) b (lk_file s), lk_task := (lk_task s)(t := L_Idle)\<rparr>)"
| process_dies:
    "lock_step proc s
       \<lparr>lk_local = (\<lambda>(p, k). if p = dead then None else lk_local s (p, k)),
        lk_file = (\<lambda>n. case lk_file s n of Some t \<Rightarrow> (if proc t = dead then None else Some t) | None \<Rightarrow> None),
        lk_task = (\<lambda>t. if proc t = dead then L_Idle else lk_task s t)\<rparr>"

section \<open>Leases of an app\<close>

record app_gate =
  ag_lock :: "nat option"
  ag_completed :: nat

text \<open>A call reads the screen, reads the count of finished writes, waits for the app, acts, and drops the
  lease: the count goes up first, then the lock falls. The documentation of the gates wants the count
  before the screen; the tools read the screen first, because it names the app. \<open>version\<close> is no
  state of the program: it counts the writes to the screen of an app.\<close>

datatype app_phase =
    A_Idle
  | A_Counted string nat
  | A_Looked string nat
  | A_Ready string nat nat
  | A_Held string bool nat bool
  | A_Dropping string

record app_state =
  as_gate :: "string \<Rightarrow> app_gate"
  as_version :: "string \<Rightarrow> nat"
  as_task :: "nat \<Rightarrow> app_phase"

definition new_gates :: app_state where
  "new_gates = \<lparr>as_gate = (\<lambda>_. \<lparr>ag_lock = None, ag_completed = 0\<rparr>), as_version = (\<lambda>_. 0), as_task = (\<lambda>_. A_Idle)\<rparr>"

definition completed :: "app_state \<Rightarrow> string \<Rightarrow> nat" where
  "completed s key = ag_completed (as_gate s key)"

definition set_phase :: "nat \<Rightarrow> app_phase \<Rightarrow> app_state \<Rightarrow> app_state" where
  "set_phase t ph s = s\<lparr>as_task := (as_task s)(t := ph)\<rparr>"

definition lease :: "nat \<Rightarrow> string \<Rightarrow> nat \<Rightarrow> nat \<Rightarrow> app_state \<Rightarrow> app_state option" where
  "lease t key seen v s =
     (if ag_lock (as_gate s key) = None
      then Some (set_phase t (A_Held key (completed s key \<noteq> seen) v False)
             (s\<lparr>as_gate := (as_gate s)(key := (as_gate s key)\<lparr>ag_lock := Some t\<rparr>)\<rparr>))
      else None)"

definition write_app :: "nat \<Rightarrow> string \<Rightarrow> bool \<Rightarrow> nat \<Rightarrow> app_state \<Rightarrow> app_state" where
  "write_app t key stale v s =
     set_phase t (A_Held key stale v True) (s\<lparr>as_version := (as_version s)(key := Suc (as_version s key))\<rparr>)"

definition count_release :: "nat \<Rightarrow> string \<Rightarrow> app_state \<Rightarrow> app_state" where
  "count_release t key s =
     set_phase t (A_Dropping key)
       (s\<lparr>as_gate := (as_gate s)(key := (as_gate s key)\<lparr>ag_completed := Suc (completed s key)\<rparr>)\<rparr>)"

definition release_app :: "nat \<Rightarrow> string \<Rightarrow> app_state \<Rightarrow> app_state" where
  "release_app t key s =
     set_phase t A_Idle (s\<lparr>as_gate := (as_gate s)(key := (as_gate s key)\<lparr>ag_lock := None\<rparr>)\<rparr>)"

inductive lease_step :: "app_state \<Rightarrow> app_state \<Rightarrow> bool" where
  take_lease: "as_task s t = A_Ready k c v \<Longrightarrow> lease t k c v s = Some s' \<Longrightarrow> lease_step s s'"
| act: "as_task s t = A_Held k stale v w \<Longrightarrow> lease_step s (write_app t k stale v s)"
| drop_count: "as_task s t = A_Held k stale v w \<Longrightarrow> lease_step s (count_release t k s)"
| drop_lock: "as_task s t = A_Dropping k \<Longrightarrow> lease_step s (release_app t k s)"

inductive documented_step :: "app_state \<Rightarrow> app_state \<Rightarrow> bool" where
  leasing: "lease_step s s' \<Longrightarrow> documented_step s s'"
| count_first: "as_task s t = A_Idle \<Longrightarrow> documented_step s (set_phase t (A_Counted k (completed s k)) s)"
| then_look: "as_task s t = A_Counted k c \<Longrightarrow> documented_step s (set_phase t (A_Ready k c (as_version s k)) s)"

inductive caller_step :: "app_state \<Rightarrow> app_state \<Rightarrow> bool" where
  leasing: "lease_step s s' \<Longrightarrow> caller_step s s'"
| look_first: "as_task s t = A_Idle \<Longrightarrow> caller_step s (set_phase t (A_Looked k (as_version s k)) s)"
| then_count: "as_task s t = A_Looked k v \<Longrightarrow> caller_step s (set_phase t (A_Ready k (completed s k) v) s)"

section \<open>Laws\<close>

lemma str_bytes_simps [simp]: "str_bytes [] = []" "str_bytes (c # s) = utf8_char c @ str_bytes s"
  by (simp_all add: str_bytes_def)

lemma of_char_less: "(of_char c :: nat) < 256"
  using of_char_mod_256 [of c, where 'a = nat] by (metis mod_less_divisor zero_less_numeral)

lemma utf8_char_bytes: "\<forall>b \<in> set (utf8_char c). b < 256"
  using of_char_less [of c] less_mult_imp_div_less [of "of_char c :: nat" 4 64]
  by (auto simp: utf8_char_def Let_def)

lemma str_bytes_bytes: "\<forall>b \<in> set (str_bytes s). b < 256"
  by (induction s) (use utf8_char_bytes in auto)

text \<open>The encoding is uniquely decodable: no code of a character is a prefix of another.\<close>

lemma two_byte_code:
  assumes "128 \<le> (m :: nat)" "192 + m div 64 = 192 + n div 64" "128 + m mod 64 = 128 + n mod 64"
  shows "m = n"
  using assms by (metis add_left_cancel div_mult_mod_eq)

lemma utf8_char_prefix: "utf8_char c @ xs = utf8_char d @ ys \<Longrightarrow> c = d \<and> xs = ys"
proof -
  assume a: "utf8_char c @ xs = utf8_char d @ ys"
  let ?m = "of_char c :: nat" let ?n = "of_char d :: nat"
  have "?m = ?n \<and> xs = ys"
    using a two_byte_code [of ?m ?n]
    by (cases "?m < 128"; cases "?n < 128") (auto simp: utf8_char_def Let_def)
  then show ?thesis by simp
qed

lemma str_bytes_inj: "str_bytes s = str_bytes t \<Longrightarrow> s = t"
proof (induction s arbitrary: t)
  case Nil
  then show ?case by (cases t) (auto simp: utf8_char_def Let_def split: if_splits)
next
  case (Cons c s)
  then show ?case
  proof (cases t)
    case Nil
    then show ?thesis using Cons.prems by (auto simp: utf8_char_def Let_def split: if_splits)
  next
    case (Cons d u)
    then show ?thesis using Cons.prems Cons.IH utf8_char_prefix by auto
  qed
qed

lemma hex_digit_inj: "a < 16 \<Longrightarrow> b < 16 \<Longrightarrow> hex_digit a = hex_digit b \<Longrightarrow> a = b"
proof -
  assume ab: "a < 16" "b < 16" and eq: "hex_digit a = hex_digit b"
  have "(of_char (hex_digit n) :: nat) = (if n < 10 then 48 + n else 87 + n)" if "n < 16" for n
    using that by (simp add: hex_digit_def)
  from this [OF ab(1)] this [OF ab(2)] eq
  have "(if a < 10 then 48 + a else 87 + a) = (if b < 10 then 48 + b else 87 + b)" by metis
  with ab show "a = b" by (simp split: if_splits)
qed

lemma hex_byte_inj:
  assumes "a < 256" "b < 256" "hex_byte a = hex_byte b"
  shows "a = b"
proof -
  have d: "n div 16 < 16" if "n < 256" for n :: nat using that less_mult_imp_div_less [of n 16 16] by simp
  have "a div 16 = b div 16" using assms d by (intro hex_digit_inj) (auto simp: hex_byte_def)
  moreover have "a mod 16 = b mod 16" using assms by (intro hex_digit_inj) (auto simp: hex_byte_def)
  ultimately show ?thesis by (metis div_mult_mod_eq)
qed

lemma hex_inj:
  "\<forall>b \<in> set xs. b < 256 \<Longrightarrow> \<forall>b \<in> set ys. b < 256 \<Longrightarrow>
   concat (map hex_byte xs) = concat (map hex_byte ys) \<Longrightarrow> xs = ys"
proof (induction xs arbitrary: ys)
  case Nil
  then show ?case by (cases ys) (auto simp: hex_byte_def)
next
  case (Cons x xs)
  then obtain y zs where ys: "ys = y # zs" by (cases ys) (auto simp: hex_byte_def)
  have "hex_byte x = hex_byte y" "concat (map hex_byte xs) = concat (map hex_byte zs)"
    using Cons.prems(3) by (simp_all add: ys hex_byte_def [of x] hex_byte_def [of y])
  then have "x = y" "xs = zs" using Cons.prems(1,2) by (auto simp: ys intro: hex_byte_inj Cons.IH)
  then show ?case by (simp add: ys)
qed

abbreviation hex_key :: "string \<Rightarrow> string" where
  "hex_key key \<equiv> concat (map hex_byte (str_bytes key))"

lemma hex_key_inj: "hex_key k = hex_key k' \<longleftrightarrow> k = k'"
  using hex_inj str_bytes_bytes str_bytes_inj by blast

lemma lock_name_eq:
  "lock_name k = lock_name k' \<longleftrightarrow>
     k = k' \<or> (safe_key k \<and> \<not> safe_key k' \<and> k = hex_key k') \<or> (safe_key k' \<and> \<not> safe_key k \<and> k' = hex_key k)"
  by (auto simp: lock_name_def hex_key_inj)

lemma of_char_hex_digit: "d < 16 \<Longrightarrow> (of_char (hex_digit d) :: nat) = (if d < 10 then 48 + d else 87 + d)"
  by (simp add: hex_digit_def)

lemma hex_chars:
  assumes "c \<in> set (hex_key k)"
  shows "(of_char c :: nat) \<in> {48..57} \<union> {97..102}"
proof -
  obtain b where b: "b \<in> set (str_bytes k)" "c \<in> set (hex_byte b)" using assms by auto
  have "b div 16 < 16" using b(1) str_bytes_bytes less_mult_imp_div_less [of b 16 16] by fastforce
  moreover have "b mod 16 < 16" by simp
  moreover have "c = hex_digit (b div 16) \<or> c = hex_digit (b mod 16)" using b(2) by (auto simp: hex_byte_def)
  ultimately obtain d where "d < 16" "c = hex_digit d" by blast
  then show ?thesis by (auto simp: of_char_hex_digit)
qed

lemma safe_key_chars:
  assumes "safe_key k" "c \<in> set k"
  shows "safe_byte (of_char c)"
proof -
  have s: "list_all safe_byte (str_bytes k)" using assms(1) by (simp add: safe_key_def)
  have sub: "set (utf8_char c) \<subseteq> set (str_bytes k)" using assms(2) by (auto simp: str_bytes_def)
  then have all: "\<forall>b \<in> set (utf8_char c). safe_byte b" using s by (auto simp: list_all_iff)
  show ?thesis
  proof (cases "(of_char c :: nat) < 128")
    case True
    then show ?thesis using all by (simp add: utf8_char_def Let_def)
  next
    case False
    then have "safe_byte (192 + of_char c div 64)" using all by (simp add: utf8_char_def Let_def)
    then show ?thesis by (auto simp: safe_byte_def)
  qed
qed

lemma lock_name_chars: "c \<in> set (lock_name k) \<Longrightarrow> safe_byte (of_char c)"
  using safe_key_chars hex_chars by (fastforce simp: lock_name_def safe_byte_def split: if_splits)

lemma lock_name_no_slash: "CHR ''/'' \<notin> set (lock_name k)"
  using lock_name_chars [of "CHR ''/''" k] by (auto simp: safe_byte_def)

lemma lock_path_form:
  "lock_path root k = (if root = [] \<or> last root = CHR ''/'' then root else root @ ''/'') @ lock_name k @ ''.lock''"
proof -
  have "\<not> has_root (lock_name k @ ''.lock'')"
    using lock_name_no_slash [of k] by (cases "lock_name k") (auto simp: has_root_def starts_with_def)
  then show ?thesis by (simp add: lock_path_def path_join_def)
qed

lemma lock_path_eq: "lock_path root k = lock_path root k' \<longleftrightarrow> lock_name k = lock_name k'"
  by (simp add: lock_path_form)

lemma colon_unsafe: "CHR '':'' \<in> set k \<Longrightarrow> \<not> safe_key k"
  using safe_key_chars by (fastforce simp: safe_byte_def)

lemma not_hex: "c \<in> set k \<Longrightarrow> (of_char c :: nat) \<notin> {48..57} \<union> {97..102} \<Longrightarrow> k \<noteq> hex_key k'"
  using hex_chars by blast

lemma show_i32_inj: "show_i32 i = show_i32 j \<longleftrightarrow> i = j"
proof
  have nodash: "show_nat n \<noteq> CHR ''-'' # r" for n r using show_nat_digits [of "CHR ''-''" n] by auto
  assume "show_i32 i = show_i32 j"
  then show "i = j"
    using nodash by (auto simp: show_i32_def show_nat_inj split: if_splits) (metis nodash)+
qed simp

lemma show_i32_no_colon: "CHR '':'' \<notin> set (show_i32 i)"
  using show_nat_digits [of "CHR '':''" "nat i"] show_nat_digits [of "CHR '':''" "nat (- i)"]
  by (auto simp: show_i32_def)

lemma last_colon_split:
  assumes "CHR '':'' \<notin> set a" "CHR '':'' \<notin> set b" "s @ '':'' @ a = t @ '':'' @ b"
  shows "s = t \<and> a = b"
proof -
  have "takeWhile (\<lambda>c. c \<noteq> CHR '':'') (rev (u @ '':'' @ d)) = rev d" if "CHR '':'' \<notin> set d" for u d :: string
    using that by (auto simp: takeWhile_append2 takeWhile_tail)
  from this [OF assms(1), of s] this [OF assms(2), of t] have "rev a = rev b" using assms(3) by metis
  then show ?thesis using assms(3) by simp
qed

subsection \<open>The loop\<close>

text \<open>With a clock that the pauses move on, the loop ends: some attempt within the timeout is answered, or
  the time is up.\<close>

definition pauses_count :: "lock_env \<Rightarrow> bool" where
  "pauses_count e \<longleftrightarrow> (\<forall>i. int i * (poll_interval * 1000000) \<le> le_elapsed e i)"

definition still_waiting :: "lock_env \<Rightarrow> int \<Rightarrow> nat \<Rightarrow> bool" where
  "still_waiting e timeout j \<longleftrightarrow> le_try e j = Would_Block \<and> le_elapsed e j < timeout * 1000000"

fun loop_answer :: "lock_env \<Rightarrow> string \<Rightarrow> nat \<Rightarrow> lock_error + string" where
  "loop_answer e path i =
     (case le_try e i of
        Locked \<Rightarrow> Inr path
      | Try_Error source \<Rightarrow> Inl (Lock_Io path source)
      | Would_Block \<Rightarrow> Inl (Timed_Out path (le_elapsed_again e i div 1000000)))"

lemma acquire_loop_stops:
  "\<forall>j. i \<le> j \<and> j < n \<longrightarrow> still_waiting e timeout j \<Longrightarrow> i \<le> n \<Longrightarrow> \<not> still_waiting e timeout n \<Longrightarrow>
   acquire_loop e path timeout i = Some (loop_answer e path n)"
proof (induction "n - i" arbitrary: i)
  case 0
  then have "i = n" by simp
  then show ?case using 0 by (subst acquire_loop.simps) (auto simp: still_waiting_def split: try_lock.splits)
next
  case (Suc d)
  then have w: "still_waiting e timeout i" by auto
  have "acquire_loop e path timeout (Suc i) = Some (loop_answer e path n)"
    using Suc by (intro Suc.hyps(1)) auto
  then show ?case using w by (subst acquire_loop.simps) (simp add: still_waiting_def)
qed

lemma waiting_ends:
  assumes "pauses_count e"
  shows "\<exists>n. int n \<le> max 0 timeout div poll_interval + 1 \<and> \<not> still_waiting e timeout n \<and> (\<forall>j < n. still_waiting e timeout j)"
proof -
  let ?m = "nat (max 0 timeout div poll_interval + 1)"
  have "0 \<le> max 0 timeout div poll_interval" by (simp add: poll_interval_def)
  then have m: "int ?m = max 0 timeout div poll_interval + 1" by simp
  have "timeout \<le> (max 0 timeout div poll_interval + 1) * poll_interval" by (simp add: poll_interval_def)
  then have "timeout * 1000000 \<le> int ?m * (poll_interval * 1000000)" using m by (simp add: poll_interval_def)
  moreover have "int ?m * (poll_interval * 1000000) \<le> le_elapsed e ?m" using assms by (simp only: pauses_count_def)
  ultimately have "\<not> still_waiting e timeout ?m" unfolding still_waiting_def by linarith
  then obtain n where n: "\<not> still_waiting e timeout n" "\<forall>j < n. still_waiting e timeout j"
    using exists_least_iff [of "\<lambda>n. \<not> still_waiting e timeout n"] by blast
  then have "n \<le> ?m" using \<open>\<not> still_waiting e timeout ?m\<close> by (meson leI)
  then have "int n \<le> max 0 timeout div poll_interval + 1" using m by linarith
  then show ?thesis using n by blast
qed

subsection \<open>Holders\<close>

text \<open>The mutex of a process and key is held by exactly the task that is between its acquisition and its
  drop, and a file by exactly the task whose lease has it.\<close>

definition lock_inv :: "(nat \<Rightarrow> nat) \<Rightarrow> lock_state \<Rightarrow> bool" where
  "lock_inv proc s \<longleftrightarrow>
     (\<forall>t k. lk_task s t = L_Local k \<or> (\<exists>b. lk_task s t = L_Leased k b) \<longrightarrow> lk_local s (proc t, k) = Some t) \<and>
     (\<forall>t k. lk_task s t = L_Leased k True \<or> lk_task s t = L_Releasing k True \<longrightarrow> lk_file s (lock_name k) = Some t)"

lemma lock_step_inv: "lock_step proc s s' \<Longrightarrow> lock_inv proc s \<Longrightarrow> lock_inv proc s'"
proof (induction rule: lock_step.induct)
  case (lock_named s t k)
  then show ?case by (auto simp: lock_inv_def) (metis option.distinct(1))+
next
  case (file_taken s t k)
  then show ?case by (auto simp: lock_inv_def) (metis option.distinct(1))+
next
  case (drop_local s t k b)
  then show ?case by (auto simp: lock_inv_def) (metis option.inject)+
next
  case (drop_lease_file s t k b)
  then show ?case by (cases b) (auto simp: lock_inv_def drop_file_def, (metis option.inject)+)
next
  case (process_dies s dead)
  then show ?case by (auto simp: lock_inv_def split: if_splits)
qed (auto simp: lock_inv_def)

lemma locks_reachable_inv: "(lock_step proc)\<^sup>*\<^sup>* new_locks s \<Longrightarrow> lock_inv proc s"
proof (induction rule: rtranclp_induct)
  case base
  then show ?case by (simp add: lock_inv_def new_locks_def)
next
  case (step s s')
  then show ?case using lock_step_inv by blast
qed

subsection \<open>App leases\<close>

definition active :: "app_state \<Rightarrow> string \<Rightarrow> bool" where
  "active s k \<longleftrightarrow> (\<exists>u st v w. as_task s u = A_Held k st v w)"

definition gate_inv :: "app_state \<Rightarrow> bool" where
  "gate_inv s \<longleftrightarrow>
     (\<forall>t k. (\<exists>st v w. as_task s t = A_Held k st v w) \<or> as_task s t = A_Dropping k \<longrightarrow> ag_lock (as_gate s k) = Some t) \<and>
     (\<forall>t k c. as_task s t = A_Counted k c \<longrightarrow> c \<le> completed s k) \<and>
     (\<forall>t k c v. as_task s t = A_Ready k c v \<longrightarrow> c \<le> completed s k \<and>
        (as_version s k \<noteq> v \<longrightarrow> c < completed s k \<or> active s k)) \<and>
     (\<forall>t k v. as_task s t = A_Held k False v False \<longrightarrow> as_version s k = v)"

lemmas app_ops = lease_def write_app_def count_release_def release_app_def set_phase_def completed_def

lemma gate_invD:
  assumes "gate_inv s"
  shows "as_task s t = A_Held k st v w \<Longrightarrow> ag_lock (as_gate s k) = Some t"
    and "as_task s t = A_Dropping k \<Longrightarrow> ag_lock (as_gate s k) = Some t"
    and "as_task s t = A_Ready k c v \<Longrightarrow> c \<le> completed s k"
    and "as_task s t = A_Ready k c v \<Longrightarrow> as_version s k \<noteq> v \<Longrightarrow>
      c < completed s k \<or> active s k"
    and "as_task s t = A_Held k False v False \<Longrightarrow> as_version s k = v"
    and "as_task s t = A_Counted k c \<Longrightarrow> c \<le> completed s k"
  using assms unfolding gate_inv_def by blast+

lemma gate_invI:
  assumes "\<And>t k st v w. as_task s t = A_Held k st v w \<Longrightarrow> ag_lock (as_gate s k) = Some t"
    and "\<And>t k. as_task s t = A_Dropping k \<Longrightarrow> ag_lock (as_gate s k) = Some t"
    and "\<And>t k c. as_task s t = A_Counted k c \<Longrightarrow> c \<le> completed s k"
    and "\<And>t k c v. as_task s t = A_Ready k c v \<Longrightarrow> c \<le> completed s k"
    and "\<And>t k c v. as_task s t = A_Ready k c v \<Longrightarrow> as_version s k \<noteq> v \<Longrightarrow>
      c < completed s k \<or> active s k"
    and "\<And>t k v. as_task s t = A_Held k False v False \<Longrightarrow> as_version s k = v"
  shows "gate_inv s"
  unfolding gate_inv_def
proof (intro conjI allI impI)
  fix t k assume "(\<exists>st v w. as_task s t = A_Held k st v w) \<or> as_task s t = A_Dropping k"
  then show "ag_lock (as_gate s k) = Some t" using assms(1,2) by blast
qed (fact assms(3-6))+

lemma active_upd:
  assumes "active s k" "as_task s' = (as_task s)(t := ph)"
    "(\<forall>st v w. as_task s t \<noteq> A_Held k st v w) \<or> (\<exists>st v w. ph = A_Held k st v w)"
  shows "active s' k"
proof -
  obtain u st v w where u: "as_task s u = A_Held k st v w" using assms(1) by (auto simp: active_def)
  show ?thesis
  proof (cases "u = t")
    case True
    then show ?thesis using u assms(2,3) by (auto simp: active_def)
  next
    case False
    then have "as_task s' u = A_Held k st v w" using u assms(2) by simp
    then show ?thesis unfolding active_def by blast
  qed
qed

text \<open>A change of the phase of one task and of one gate, as every step makes it.\<close>

lemma gate_inv_step:
  assumes inv: "gate_inv s" and task: "as_task s' = (as_task s)(t := ph)"
    and lock: "\<And>k'. ag_lock (as_gate s' k') = (if k' = k then l else ag_lock (as_gate s k'))"
    and count: "\<And>k'. completed s k' \<le> completed s' k'"
    and version: "\<And>k'. k' \<noteq> k \<Longrightarrow> as_version s' k' = as_version s k'"
    and mine: "ag_lock (as_gate s k) = None \<or> ag_lock (as_gate s k) = Some t"
    and own: "(\<exists>st v w. ph = A_Held k st v w) \<or> ph = A_Dropping k \<longrightarrow> l = Some t"
    and other: "\<And>k' st v w c. k' \<noteq> k \<Longrightarrow> as_task s t \<noteq> A_Held k' st v w \<and> ph \<noteq> A_Held k' st v w \<and> ph \<noteq> A_Dropping k'"
    and counted: "\<And>k' c. ph = A_Counted k' c \<Longrightarrow> c \<le> completed s' k'"
    and ready: "\<And>k' c v. ph = A_Ready k' c v \<Longrightarrow> c \<le> completed s' k' \<and> as_version s' k' = v"
    and moved: "as_version s' k = as_version s k \<or> active s' k"
    and lasting: "active s k \<Longrightarrow> active s' k \<or> completed s k < completed s' k"
    and current: "\<And>v. ph = A_Held k False v False \<Longrightarrow> as_version s' k = v"
    and holder: "l = ag_lock (as_gate s k) \<or> ag_lock (as_gate s k) = None \<or> ag_lock (as_gate s k) = Some t"
  shows "gate_inv s'"
proof (rule gate_invI)
  fix u k' st v w assume "as_task s' u = A_Held k' st v w"
  then show "ag_lock (as_gate s' k') = Some u"
    using task lock own other mine gate_invD(1) [OF inv] by (cases "u = t"; cases "k' = k") fastforce+
next
  fix u k' assume "as_task s' u = A_Dropping k'"
  then show "ag_lock (as_gate s' k') = Some u"
    using task lock own other mine gate_invD(2) [OF inv] by (cases "u = t"; cases "k' = k") fastforce+
next
  fix u k' c assume "as_task s' u = A_Counted k' c"
  then show "c \<le> completed s' k'"
    using task counted le_trans [OF gate_invD(6) [OF inv] count] by (cases "u = t") auto
next
  fix u k' c v assume "as_task s' u = A_Ready k' c v"
  then show "c \<le> completed s' k'"
    using task ready le_trans [OF gate_invD(3) [OF inv] count] by (cases "u = t") auto
next
  fix u k' c v assume u: "as_task s' u = A_Ready k' c v" and v: "as_version s' k' \<noteq> v"
  then have ut: "u \<noteq> t" "as_task s u = A_Ready k' c v" using task ready by (auto split: if_splits)
  show "c < completed s' k' \<or> active s' k'"
  proof (cases "as_version s k' = v")
    case True
    then show ?thesis using v version moved by (cases "k' = k") auto
  next
    case False
    from gate_invD(4) [OF inv ut(2) False] show ?thesis
    proof
      assume "c < completed s k'" then show ?thesis using count [of k'] by auto
    next
      assume a: "active s k'"
      show ?thesis
      proof (cases "k' = k")
        case True
        then show ?thesis using lasting a gate_invD(3) [OF inv ut(2)] by auto
      next
        case False
        then show ?thesis using active_upd [OF a task] other by blast
      qed
    qed
  qed
next
  fix u k' v assume u: "as_task s' u = A_Held k' False v False"
  show "as_version s' k' = v"
  proof (cases "u = t")
    case True
    then show ?thesis using u task current other by (cases "k' = k") auto
  next
    case False
    then have h: "as_task s u = A_Held k' False v False" using u task by simp
    then have "k' \<noteq> k" using gate_invD(1) [OF inv h] mine False by auto
    then show ?thesis using gate_invD(5) [OF inv h] version by simp
  qed
qed

lemma lease_step_inv: "lease_step s s' \<Longrightarrow> gate_inv s \<Longrightarrow> gate_inv s'"
proof (induction rule: lease_step.induct)
  case (take_lease s t k c v s')
  have free: "ag_lock (as_gate s k) = None" using take_lease(2) by (auto simp: lease_def split: if_splits)
  have none: "\<not> active s k" using free gate_invD(1) [OF take_lease(3)] by (fastforce simp: active_def)
  have s': "s' = set_phase t (A_Held k (completed s k \<noteq> c) v False)
      (s\<lparr>as_gate := (as_gate s)(k := (as_gate s k)\<lparr>ag_lock := Some t\<rparr>)\<rparr>)"
    using take_lease(2) free by (simp add: lease_def)
  have cur: "completed s k \<noteq> c \<or> as_version s k = v" using gate_invD(4) [OF take_lease(3,1)] none by auto
  show ?case
    by (rule gate_inv_step [OF take_lease(3), of _ t "A_Held k (completed s k \<noteq> c) v False" k "Some t"])
       (use take_lease(1) free none cur in \<open>auto simp: s' set_phase_def completed_def\<close>)
next
  case (act s t k stale v w)
  have held: "ag_lock (as_gate s k) = Some t" using gate_invD(1) act by blast
  have "active (write_app t k stale v s) k" by (auto simp: active_def write_app_def set_phase_def)
  then show ?case
    by (intro gate_inv_step [OF act(2), of _ t "A_Held k stale v True" k "Some t"])
       (use act(1) held in \<open>auto simp: app_ops\<close>)
next
  case (drop_count s t k stale v w)
  have held: "ag_lock (as_gate s k) = Some t" using gate_invD(1) drop_count by blast
  show ?case
    by (rule gate_inv_step [OF drop_count(2), of _ t "A_Dropping k" k "Some t"])
       (use drop_count(1) held in \<open>auto simp: app_ops\<close>)
next
  case (drop_lock s t k)
  have held: "ag_lock (as_gate s k) = Some t" using gate_invD(2) drop_lock by blast
  then have "\<not> active s k" using gate_invD(1) [OF drop_lock(2)] drop_lock(1) by (fastforce simp: active_def)
  then show ?case
    by (intro gate_inv_step [OF drop_lock(2), of _ t A_Idle k None])
       (use drop_lock(1) held in \<open>auto simp: app_ops\<close>)
qed

lemma looking_inv:
  assumes inv: "gate_inv s" and idle: "\<And>k st v w. as_task s t \<noteq> A_Held k st v w"
    and ph: "ph = A_Counted k (completed s k) \<or> (ph = A_Ready k c (as_version s k) \<and> c \<le> completed s k)"
  shows "gate_inv (set_phase t ph s)"
proof (rule gate_invI)
  fix u k' c' v
  assume "as_task (set_phase t ph s) u = A_Ready k' c' v" "as_version (set_phase t ph s) k' \<noteq> v"
  then have u: "as_task s u = A_Ready k' c' v" "as_version s k' \<noteq> v"
    using ph by (auto simp: set_phase_def split: if_splits)
  have "active (set_phase t ph s) k'" if "active s k'"
    using active_upd [OF that, of "set_phase t ph s" t ph] idle by (simp add: set_phase_def)
  then show "c' < completed (set_phase t ph s) k' \<or> active (set_phase t ph s) k'"
    using gate_invD(4) [OF inv u] by (auto simp: completed_def set_phase_def)
qed (use ph gate_invD [OF inv] in \<open>auto simp: set_phase_def completed_def split: if_splits\<close>)

lemma documented_inv: "documented_step\<^sup>*\<^sup>* new_gates s \<Longrightarrow> gate_inv s"
proof (induction rule: rtranclp_induct)
  case base
  then show ?case by (auto simp: gate_inv_def new_gates_def)
next
  case (step s s')
  from step(2) show ?case
  proof cases
    case leasing
    then show ?thesis using lease_step_inv step by blast
  next
    case (count_first t k)
    then show ?thesis using looking_inv [OF step(3)] by simp
  next
    case (then_look t k c)
    show ?thesis
      unfolding then_look(1)
      by (rule looking_inv [OF step(3), of _ _ k c]) (use then_look(2) gate_invD(6) [OF step(3)] in auto)
  qed
qed

section \<open>Properties\<close>

text \<open>The lock files keep the keys of the program apart. The file of a key lies directly in the lock
  directory; two calls of the Android tools use the same file exactly when they use the same key, which for
  named devices is when device and target are the same; and the desktop has a file of its own.\<close>

theorem targets_have_own_lock_files:
  "(\<exists>name. lock_path root k = path_join root name \<and> CHR ''/'' \<notin> set name \<and> ends_with name ''.lock'') \<and>
   (lock_path root (target_lock_key (Some s) t) = lock_path root (target_lock_key (Some s') t') \<longleftrightarrow> s = s' \<and> t = t') \<and>
   lock_path root desktop_key \<noteq> lock_path root (target_lock_key d t)"
proof (intro conjI)
  show "\<exists>name. lock_path root k = path_join root name \<and> CHR ''/'' \<notin> set name \<and> ends_with name ''.lock''"
    using lock_name_no_slash [of k] by (intro exI [of _ "lock_name k @ ''.lock''"]) (simp add: lock_path_def ends_with_def)
next
  have unsafe: "\<not> safe_key (target_lock_key (Some s) t)" for s t
    by (rule colon_unsafe) (simp add: target_lock_key_def device_lock_key_def android_device_def android_display_def split: target.split)
  have "target_lock_key (Some s) t = target_lock_key (Some s') t' \<longleftrightarrow> s = s' \<and> t = t'"
    using last_colon_split [OF show_i32_no_colon show_i32_no_colon, of s _ s']
    by (cases t; cases t')
       (auto simp: target_lock_key_def device_lock_key_def android_device_def android_display_def show_i32_inj)
  then show "lock_path root (target_lock_key (Some s) t) = lock_path root (target_lock_key (Some s') t') \<longleftrightarrow> s = s' \<and> t = t'"
    using unsafe by (simp add: lock_path_eq lock_name_eq)
next
  have safe: "safe_key desktop_key" by code_simp
  have nohex: "desktop_key \<noteq> hex_key k" for k by (rule not_hex [of "CHR ''s''"]) (simp_all add: desktop_key_def)
  have "desktop_key \<noteq> target_lock_key d t"
    by (auto simp: desktop_key_def target_lock_key_def device_lock_key_def android_device_def android_display_def
        android_key_def split: target.split option.split)
  then show "lock_path root desktop_key \<noteq> lock_path root (target_lock_key d t)"
    using safe nohex unfolding lock_path_eq lock_name_eq by blast
qed

text \<open>The encoding is not injective on all keys, as the comment says: a key that is itself the hexadecimal
  code of an unsafe key gets the same file.\<close>

theorem lock_files_can_collide:
  "lock_path root ''612f62'' = lock_path root ''a/b''"
proof -
  have "lock_name ''612f62'' = lock_name ''a/b''" by code_simp
  then show ?thesis by (simp add: lock_path_eq)
qed

text \<open>Waiting for a lock file ends. If the clock counts the pauses, the loop returns after at most
  the timeout divided by the pause, and one more attempt; it reports the lock as taken exactly when the last
  attempt took it, and as timed out only when every attempt was refused and the time was up.\<close>

theorem lock_wait_returns:
  assumes "pauses_count e" and "le_create_dir e = None" and "le_open e = None"
  shows "\<exists>n r. acquire e path timeout = Some r \<and> int n \<le> max 0 timeout div poll_interval + 1 \<and>
    (\<forall>j < n. le_try e j = Would_Block) \<and>
    (r = Inr path \<longleftrightarrow> le_try e n = Locked) \<and>
    (\<forall>w. r = Inl (Timed_Out path w) \<longrightarrow> le_try e n = Would_Block \<and> timeout * 1000000 \<le> le_elapsed e n)"
proof -
  obtain n where n: "int n \<le> max 0 timeout div poll_interval + 1" "\<not> still_waiting e timeout n"
    "\<forall>j < n. still_waiting e timeout j"
    using waiting_ends [OF assms(1)] by blast
  have "acquire_loop e path timeout 0 = Some (loop_answer e path n)"
    using n by (intro acquire_loop_stops) auto
  then have a: "acquire e path timeout = Some (loop_answer e path n)" using assms(2,3) by (simp add: acquire_def)
  show ?thesis
    by (rule exI [of _ n], rule exI [of _ "loop_answer e path n"])
       (use a n in \<open>auto simp: still_waiting_def split: try_lock.splits\<close>)
qed

definition sample_lock_env :: lock_env where
  "sample_lock_env = \<lparr>le_create_dir = None, le_open = None,
     le_try = (\<lambda>i. if i < 2 then Would_Block else Locked),
     le_elapsed = (\<lambda>i. int i * 30000000), le_elapsed_again = (\<lambda>i. int i * 30000000)\<rparr>"

theorem lock_wait_returns_witness:
  "\<exists>r. acquire sample_lock_env ''/l/a.lock'' default_timeout = Some r"
  using lock_wait_returns [of sample_lock_env "''/l/a.lock''" default_timeout]
  by (auto simp: sample_lock_env_def pauses_count_def poll_interval_def)

text \<open>C20. Leases exclude each other. In every interleaving of tasks in many processes, with processes dying
  at any moment, two tasks of one process never hold leases on the same key at once, and no two tasks
  hold process-wide leases on the same key at once.\<close>

theorem target_lease_excludes:
  assumes "(lock_step proc)\<^sup>*\<^sup>* new_locks s"
    and "lk_task s t = L_Leased k b" and "lk_task s u = L_Leased k b'"
    and "proc t = proc u \<or> (b \<and> b')"
  shows "t = u"
proof -
  have local: "lk_local s (proc t, k) = Some t" "lk_local s (proc u, k) = Some u"
    using locks_reachable_inv [OF assms(1)] assms(2,3) unfolding lock_inv_def by blast+
  have on_disk: "lk_file s (lock_name k) = Some x" if "lk_task s x = L_Leased k True" for x
    using locks_reachable_inv [OF assms(1)] that unfolding lock_inv_def by blast
  from assms(4) show ?thesis
  proof
    assume "proc t = proc u"
    then have "Some t = Some u" using local by metis
    then show ?thesis by simp
  next
    assume b: "b \<and> b'"
    have "lk_file s (lock_name k) = Some t" by (rule on_disk) (use assms(2) b in simp)
    moreover have "lk_file s (lock_name k) = Some u" by (rule on_disk) (use assms(3) b in simp)
    ultimately show ?thesis by simp
  qed
qed

definition two_procs :: "nat \<Rightarrow> nat" where
  "two_procs t = t"

definition leased_once :: lock_state where
  "leased_once = \<lparr>lk_local = (\<lambda>_. None)((0, desktop_key) \<mapsto> 0), lk_file = (\<lambda>_. None)(lock_name desktop_key \<mapsto> 0),
     lk_task = (\<lambda>_. L_Idle)(0 := L_Leased desktop_key True)\<rparr>"

definition leased_twice :: lock_state where
  "leased_twice = leased_once\<lparr>lk_local := (lk_local leased_once)((1, desktop_key) \<mapsto> 1),
     lk_task := (lk_task leased_once)(1 := L_Leased desktop_key False)\<rparr>"

lemma leased_once_reached: "(lock_step two_procs)\<^sup>*\<^sup>* new_locks leased_once"
proof -
  let ?s1 = "new_locks\<lparr>lk_local := (lk_local new_locks)((two_procs 0, desktop_key) \<mapsto> 0),
    lk_task := (lk_task new_locks)(0 := L_Local desktop_key)\<rparr>"
  have "lock_step two_procs new_locks ?s1" by (rule lock_step.lock_named) (simp_all add: new_locks_def)
  moreover have "lock_step two_procs ?s1 (?s1\<lparr>lk_file := (lk_file ?s1)(lock_name desktop_key \<mapsto> 0),
      lk_task := (lk_task ?s1)(0 := L_Leased desktop_key True)\<rparr>)"
    by (rule lock_step.file_taken) (simp_all add: new_locks_def)
  moreover have "?s1\<lparr>lk_file := (lk_file ?s1)(lock_name desktop_key \<mapsto> 0),
      lk_task := (lk_task ?s1)(0 := L_Leased desktop_key True)\<rparr> = leased_once"
    by (simp add: new_locks_def leased_once_def two_procs_def)
  ultimately show ?thesis by (metis converse_rtranclp_into_rtranclp r_into_rtranclp)
qed

theorem target_lease_excludes_witness: "lk_task leased_once 1 \<noteq> L_Leased desktop_key True"
proof
  assume one: "lk_task leased_once 1 = L_Leased desktop_key True"
  have zero: "lk_task leased_once 0 = L_Leased desktop_key True" by (simp add: leased_once_def)
  show False using target_lease_excludes [OF leased_once_reached zero one] by simp
qed

text \<open>A lease that is not process-wide excludes nobody elsewhere: when the loop of a second process gives up,
  both processes hold a lease on the desktop. The header of the file lock says that the caller then refuses
  the action; the target lock proceeds, and none of its callers asks whether the lease is process-wide.\<close>

theorem two_processes_drive_one_desktop:
  "\<exists>s. (lock_step two_procs)\<^sup>*\<^sup>* new_locks s \<and> two_procs 0 \<noteq> two_procs 1 \<and>
     lk_task s 0 = L_Leased desktop_key True \<and> lk_task s 1 = L_Leased desktop_key False"
proof -
  let ?s1 = "leased_once\<lparr>lk_local := (lk_local leased_once)((two_procs 1, desktop_key) \<mapsto> 1),
    lk_task := (lk_task leased_once)(1 := L_Local desktop_key)\<rparr>"
  have "lock_step two_procs leased_once ?s1"
    by (rule lock_step.lock_named) (simp_all add: leased_once_def two_procs_def)
  moreover have "lock_step two_procs ?s1 (?s1\<lparr>lk_task := (lk_task ?s1)(1 := L_Leased desktop_key False)\<rparr>)"
    by (rule lock_step.file_unavailable) simp
  ultimately have "(lock_step two_procs)\<^sup>*\<^sup>* new_locks (?s1\<lparr>lk_task := (lk_task ?s1)(1 := L_Leased desktop_key False)\<rparr>)"
    using leased_once_reached by (meson rtranclp.rtrancl_into_rtrancl)
  then show ?thesis by (intro exI [of _ "?s1\<lparr>lk_task := (lk_task ?s1)(1 := L_Leased desktop_key False)\<rparr>"])
      (simp add: leased_once_def two_procs_def)
qed

text \<open>An app lease tells whether the picture is still true. If every call reads the count of finished
  writes before it reads the screen, then in every interleaving a lease that is not stale and has not been
  used yet was taken for the screen that is there, and nobody else holds the app.\<close>

theorem fresh_app_lease_is_current:
  assumes "documented_step\<^sup>*\<^sup>* new_gates s"
    and "as_task s t = A_Held k False v False"
  shows "as_version s k = v \<and> (\<forall>u st v' w. as_task s u = A_Held k st v' w \<longrightarrow> u = t)"
proof -
  note inv = documented_inv [OF assms(1)]
  have "u = t" if "as_task s u = A_Held k st v' w" for u st v' w
    using gate_invD(1) [OF inv that] gate_invD(1) [OF inv assms(2)] by simp
  then show ?thesis using gate_invD(5) [OF inv assms(2)] by blast
qed

definition app_held :: app_state where
  "app_held = the (lease 0 ''app'' 0 0 (set_phase 0 (A_Ready ''app'' 0 0) (set_phase 0 (A_Counted ''app'' 0) new_gates)))"

lemma app_held_reached: "documented_step\<^sup>*\<^sup>* new_gates app_held"
proof -
  let ?s1 = "set_phase 0 (A_Counted ''app'' (completed new_gates ''app'')) new_gates"
  let ?s2 = "set_phase 0 (A_Ready ''app'' 0 (as_version ?s1 ''app'')) ?s1"
  have c: "completed new_gates ''app'' = 0" "as_version ?s1 ''app'' = 0"
    by (simp_all add: new_gates_def completed_def set_phase_def)
  have "documented_step new_gates ?s1" by (rule documented_step.count_first) (simp add: new_gates_def)
  moreover have "documented_step ?s1 ?s2" by (rule documented_step.then_look) (simp add: set_phase_def c)
  moreover have "documented_step ?s2 app_held"
  proof (rule documented_step.leasing, rule lease_step.take_lease [of _ 0 "''app''" 0 0])
    show "as_task ?s2 0 = A_Ready ''app'' 0 0" using c by (simp add: set_phase_def)
    show "lease 0 ''app'' 0 0 ?s2 = Some app_held"
      by (simp add: app_held_def c) (simp add: lease_def set_phase_def new_gates_def)
  qed
  ultimately show ?thesis by (meson converse_rtranclp_into_rtranclp r_into_rtranclp)
qed

theorem fresh_app_lease_is_current_witness: "as_version app_held ''app'' = 0"
proof -
  have "as_task app_held 0 = A_Held ''app'' False 0 False"
    by (simp add: app_held_def lease_def set_phase_def new_gates_def completed_def)
  from fresh_app_lease_is_current [OF app_held_reached this] show ?thesis by simp
qed

text \<open>The tools read the screen first and the count afterwards. A write that finishes between the two is
  counted as seen: the lease is not stale although the screen has changed since it was read.\<close>

lemma caller_steps:
  "lease_step s s' \<Longrightarrow> caller_step\<^sup>*\<^sup>* r s \<Longrightarrow> caller_step\<^sup>*\<^sup>* r s'"
  "as_task s t = A_Idle \<Longrightarrow> s' = set_phase t (A_Looked k (as_version s k)) s \<Longrightarrow> caller_step\<^sup>*\<^sup>* r s \<Longrightarrow> caller_step\<^sup>*\<^sup>* r s'"
  "as_task s t = A_Looked k v \<Longrightarrow> s' = set_phase t (A_Ready k (completed s k) v) s \<Longrightarrow> caller_step\<^sup>*\<^sup>* r s \<Longrightarrow> caller_step\<^sup>*\<^sup>* r s'"
  by (meson caller_step.intros rtranclp.rtrancl_into_rtrancl)+

theorem late_count_misses_write:
  "\<exists>s. caller_step\<^sup>*\<^sup>* new_gates s \<and> as_task s 0 = A_Held ''app'' False 0 False \<and> as_version s ''app'' = 1"
proof -
  define g where "g b n = (\<lambda>_. \<lparr>ag_lock = None, ag_completed = 0\<rparr>)(''app'' := \<lparr>ag_lock = b, ag_completed = n\<rparr>)" for b n
  define st where "st b n v p q = \<lparr>as_gate = g b n, as_version = (\<lambda>_. 0)(''app'' := v),
    as_task = (\<lambda>_. A_Idle)(0 := p, 1 := q)\<rparr>" for b n v p q
  note defs = st_def g_def app_ops fun_upd_def
  have "new_gates = st None 0 0 A_Idle A_Idle" by (auto simp: new_gates_def st_def g_def)
  then have "caller_step\<^sup>*\<^sup>* new_gates (st None 0 0 A_Idle A_Idle)" by simp
  then have "caller_step\<^sup>*\<^sup>* new_gates (st None 0 0 (A_Looked ''app'' 0) A_Idle)"
    by (rule caller_steps(2) [rotated 2, where t = 0 and k = "''app''"]) (auto simp: defs)
  then have "caller_step\<^sup>*\<^sup>* new_gates (st None 0 0 (A_Looked ''app'' 0) (A_Looked ''app'' 0))"
    by (rule caller_steps(2) [rotated 2, where t = 1 and k = "''app''"]) (auto simp: defs)
  then have "caller_step\<^sup>*\<^sup>* new_gates (st None 0 0 (A_Looked ''app'' 0) (A_Ready ''app'' 0 0))"
    by (rule caller_steps(3) [rotated 2, where t = 1 and k = "''app''" and v = 0]) (auto simp: defs)
  then have "caller_step\<^sup>*\<^sup>* new_gates (st (Some 1) 0 0 (A_Looked ''app'' 0) (A_Held ''app'' False 0 False))"
    by (rule caller_steps(1) [rotated, OF _ lease_step.take_lease [where t = 1 and k = "''app''" and c = 0 and v = 0]])
       (auto simp: defs)
  then have "caller_step\<^sup>*\<^sup>* new_gates (write_app 1 ''app'' False 0 (st (Some 1) 0 0 (A_Looked ''app'' 0) (A_Held ''app'' False 0 False)))"
    by (rule caller_steps(1) [rotated, OF _ lease_step.act]) (auto simp: defs)
  moreover have "write_app 1 ''app'' False 0 (st (Some 1) 0 0 (A_Looked ''app'' 0) (A_Held ''app'' False 0 False))
      = st (Some 1) 0 1 (A_Looked ''app'' 0) (A_Held ''app'' False 0 True)" by (auto simp: defs)
  ultimately have "caller_step\<^sup>*\<^sup>* new_gates (count_release 1 ''app'' (st (Some 1) 0 1 (A_Looked ''app'' 0) (A_Held ''app'' False 0 True)))"
    by (intro caller_steps(1) [OF lease_step.drop_count [where v = 0 and stale = False and w = True]]) (auto simp: defs)
  moreover have "count_release 1 ''app'' (st (Some 1) 0 1 (A_Looked ''app'' 0) (A_Held ''app'' False 0 True))
      = st (Some 1) 1 1 (A_Looked ''app'' 0) (A_Dropping ''app'')" by (auto simp: defs)
  ultimately have "caller_step\<^sup>*\<^sup>* new_gates (release_app 1 ''app'' (st (Some 1) 1 1 (A_Looked ''app'' 0) (A_Dropping ''app'')))"
    by (intro caller_steps(1) [OF lease_step.drop_lock]) (auto simp: defs)
  moreover have "release_app 1 ''app'' (st (Some 1) 1 1 (A_Looked ''app'' 0) (A_Dropping ''app''))
      = st None 1 1 (A_Looked ''app'' 0) A_Idle" by (auto simp: defs)
  ultimately have "caller_step\<^sup>*\<^sup>* new_gates (st None 1 1 (A_Looked ''app'' 0) A_Idle)" by simp
  then have "caller_step\<^sup>*\<^sup>* new_gates (st None 1 1 (A_Ready ''app'' 1 0) A_Idle)"
    by (rule caller_steps(3) [rotated 2, where t = 0 and k = "''app''" and v = 0]) (auto simp: defs)
  then have "caller_step\<^sup>*\<^sup>* new_gates (st (Some 0) 1 1 (A_Held ''app'' False 0 False) A_Idle)"
    by (rule caller_steps(1) [rotated, OF _ lease_step.take_lease [where t = 0 and k = "''app''" and c = 1 and v = 0]])
       (auto simp: defs)
  then show ?thesis by (intro exI conjI) (auto simp: defs)
qed

end
