(* ===== verification/Access_Allowlist.thy ===== *)
theory Access_Allowlist
  imports Prelude
begin

text \<open>
  The multi-dimensional allowlist (\<open>security/allowlist.rs\<close>): match sources with star patterns, entries
  with scopes, the compiled cache, and the test that the pairing store uses. The text of a file that is loaded is
  an argument, already parsed.
\<close>

section \<open>Sources and patterns\<close>

datatype match_source =
    Ms_Id string
  | Ms_Username string
  | Ms_Name string
  | Ms_Tag string
  | Ms_E164 string
  | Ms_Prefixed_Id string string
  | Ms_Prefixed_User string string
  | Ms_Prefixed_Name string string
  | Ms_Slug string
  | Ms_Localpart string

abbreviation star_char :: char where "star_char \<equiv> CHR 0x2A"

text \<open>The loop over the parts between the stars; \<open>pos\<close> is the end of the last match.\<close>

fun wildcard_loop :: "nat \<Rightarrow> string list \<Rightarrow> string \<Rightarrow> nat \<Rightarrow> nat option" where
  "wildcard_loop i [] value pos = Some pos"
| "wildcard_loop i (part # parts) value pos =
     (if part = [] then wildcard_loop (Suc i) parts value pos
      else if i = 0 then
        (if starts_with value part then wildcard_loop (Suc i) parts value (length part) else None)
      else case find_str (drop pos value) part of
          Some idx \<Rightarrow> wildcard_loop (Suc i) parts value (pos + idx + length part)
        | None \<Rightarrow> None)"

definition wildcard_match :: "string \<Rightarrow> string \<Rightarrow> bool" where
  "wildcard_match pattern value =
     (if star_char \<notin> set pattern then False
      else let parts = split_char star_char pattern
           in if length parts = 1 then hd parts = []
              else case wildcard_loop 0 parts value 0 of
                  None \<Rightarrow> False
                | Some pos \<Rightarrow>
                    (if \<not> ends_with pattern [star_char] \<and> pos \<noteq> length value then ends_with value (last parts)
                     else True))"

definition cache_key :: "match_source \<Rightarrow> string" where
  "cache_key s =
     (case s of
        Ms_Id v \<Rightarrow> v | Ms_Username v \<Rightarrow> v | Ms_Name v \<Rightarrow> v | Ms_Tag v \<Rightarrow> v | Ms_E164 v \<Rightarrow> v
      | Ms_Slug v \<Rightarrow> v | Ms_Localpart v \<Rightarrow> v
      | Ms_Prefixed_Id p v \<Rightarrow> p @ '':'' @ v | Ms_Prefixed_User p v \<Rightarrow> p @ '':'' @ v
      | Ms_Prefixed_Name p v \<Rightarrow> p @ '':'' @ v)"

definition source_matches :: "match_source \<Rightarrow> string \<Rightarrow> bool" where
  "source_matches s value =
     (case s of
        Ms_Id v \<Rightarrow> v = value \<or> wildcard_match v value
      | Ms_Username v \<Rightarrow> v = value \<or> wildcard_match v value
      | Ms_Name v \<Rightarrow> v = value \<or> wildcard_match v value
      | Ms_Tag v \<Rightarrow> v = value \<or> wildcard_match v value
      | Ms_E164 v \<Rightarrow> v = value \<or> wildcard_match v value
      | Ms_Prefixed_Id p v \<Rightarrow> p @ '':'' @ v = value \<or> wildcard_match (p @ '':'' @ v) value
      | Ms_Prefixed_User p v \<Rightarrow> p @ '':'' @ v = value \<or> wildcard_match (p @ '':'' @ v) value
      | Ms_Prefixed_Name p v \<Rightarrow> p @ '':'' @ v = value \<or> wildcard_match (p @ '':'' @ v) value
      | Ms_Slug v \<Rightarrow> v = value \<or> wildcard_match v value
      | Ms_Localpart v \<Rightarrow> v = value \<or> wildcard_match v value)"

section \<open>The list\<close>

record allowlist_entry =
  ae_id :: string
  ae_sources :: "match_source list"
  ae_account_id :: "string option"
  ae_channel_id :: "string option"
  ae_group_id :: "string option"

definition entry_by_id :: "string \<Rightarrow> string \<Rightarrow> allowlist_entry" where
  "entry_by_id i v =
     \<lparr>ae_id = i, ae_sources = [Ms_Id v], ae_account_id = None, ae_channel_id = None, ae_group_id = None\<rparr>"

definition entry_by_username :: "string \<Rightarrow> string \<Rightarrow> allowlist_entry" where
  "entry_by_username i v =
     \<lparr>ae_id = i, ae_sources = [Ms_Username v], ae_account_id = None, ae_channel_id = None, ae_group_id = None\<rparr>"

definition entry_by_e164 :: "string \<Rightarrow> string \<Rightarrow> allowlist_entry" where
  "entry_by_e164 i v =
     \<lparr>ae_id = i, ae_sources = [Ms_E164 v], ae_account_id = None, ae_channel_id = None, ae_group_id = None\<rparr>"

record allowlist =
  al_entries :: "allowlist_entry list"
  al_compiled :: "string set"
  al_wildcards :: "(string \<times> string) list"

definition new_allowlist :: allowlist where
  "new_allowlist = \<lparr>al_entries = [], al_compiled = {}, al_wildcards = []\<rparr>"

text \<open>The cache is computed under the lock of the entries and stored under its own locks.\<close>

fun sources_cache ::
  "string \<Rightarrow> match_source list \<Rightarrow> string set \<times> (string \<times> string) list \<Rightarrow> string set \<times> (string \<times> string) list" where
  "sources_cache eid [] acc = acc"
| "sources_cache eid (s # ss) (compiled, wildcards) =
     sources_cache eid ss
       (if star_char \<in> set (cache_key s) then (compiled, wildcards @ [(to_lowercase (cache_key s), eid)])
        else (insert (to_lowercase (cache_key s)) compiled, wildcards))"

fun entries_cache ::
  "allowlist_entry list \<Rightarrow> string set \<times> (string \<times> string) list \<Rightarrow> string set \<times> (string \<times> string) list" where
  "entries_cache [] acc = acc"
| "entries_cache (e # es) acc = entries_cache es (sources_cache (ae_id e) (ae_sources e) acc)"

definition rebuild_read :: "allowlist \<Rightarrow> string set \<times> (string \<times> string) list" where
  "rebuild_read a = entries_cache (al_entries a) ({}, [])"

definition rebuild_write :: "string set \<times> (string \<times> string) list \<Rightarrow> allowlist \<Rightarrow> allowlist" where
  "rebuild_write c a = a\<lparr>al_compiled := fst c, al_wildcards := snd c\<rparr>"

definition rebuild_cache :: "allowlist \<Rightarrow> allowlist" where
  "rebuild_cache a = rebuild_write (rebuild_read a) a"

definition push_entry :: "allowlist_entry \<Rightarrow> allowlist \<Rightarrow> allowlist" where
  "push_entry e a = a\<lparr>al_entries := al_entries a @ [e]\<rparr>"

definition al_add :: "allowlist_entry \<Rightarrow> allowlist \<Rightarrow> allowlist" where
  "al_add e a = (if list_ex (\<lambda>x. ae_id x = ae_id e) (al_entries a) then a else rebuild_cache (push_entry e a))"

definition al_remove :: "string \<Rightarrow> allowlist \<Rightarrow> bool \<times> allowlist" where
  "al_remove i a =
     (let a' = a\<lparr>al_entries := filter (\<lambda>e. ae_id e \<noteq> i) (al_entries a)\<rparr>;
          removed = length (al_entries a') < length (al_entries a)
      in (removed, if removed then rebuild_cache a' else a'))"

datatype load_result = File_Missing | Read_Failed string | Bad_Json string | Entries "allowlist_entry list"

definition al_load :: "load_result \<Rightarrow> allowlist \<Rightarrow> (string + unit) \<times> allowlist" where
  "al_load r a =
     (case r of
        File_Missing \<Rightarrow> (Inr (), a)
      | Read_Failed e \<Rightarrow> (Inl e, a)
      | Bad_Json e \<Rightarrow> (Inl e, a)
      | Entries es \<Rightarrow> (Inr (), rebuild_cache (a\<lparr>al_entries := es\<rparr>)))"

definition is_allowed :: "allowlist \<Rightarrow> string \<Rightarrow> bool" where
  "is_allowed a value =
     (let normalized = to_lowercase value
      in normalized \<in> al_compiled a \<or> list_ex (\<lambda>(pattern, _). wildcard_match pattern normalized) (al_wildcards a))"

definition in_scope :: "string option \<Rightarrow> string option \<Rightarrow> bool" where
  "in_scope wanted given = (case wanted of None \<Rightarrow> True | Some w \<Rightarrow> given = Some w)"

definition is_allowed_in_scope ::
  "allowlist \<Rightarrow> string \<Rightarrow> string option \<Rightarrow> string option \<Rightarrow> string option \<Rightarrow> bool" where
  "is_allowed_in_scope a value account channel grp =
     list_ex (\<lambda>e. in_scope (ae_account_id e) account \<and> in_scope (ae_channel_id e) channel
         \<and> in_scope (ae_group_id e) grp \<and> list_ex (\<lambda>s. source_matches s (to_lowercase value)) (ae_sources e))
       (al_entries a)"

definition is_user_allowed :: "allowlist \<Rightarrow> string \<Rightarrow> string \<Rightarrow> string option \<Rightarrow> bool" where
  "is_user_allowed a channel user username =
     (if is_allowed a user then True
      else if is_allowed a (channel @ '':'' @ user) then True
      else if (case username of
                 Some u \<Rightarrow> is_allowed a u \<or> is_allowed a (channel @ '':'' @ u)
               | None \<Rightarrow> False) then True
      else is_allowed_in_scope a user None (Some channel) None)"

section \<open>What a pattern means\<close>

text \<open>The parts of a pattern stand in the value in their order, without overlap, the first at its start and
  the last at its end.\<close>

fun tail_denotes :: "string list \<Rightarrow> string \<Rightarrow> bool" where
  "tail_denotes [] w \<longleftrightarrow> w = []"
| "tail_denotes [p] w \<longleftrightarrow> (\<exists>t. w = t @ p)"
| "tail_denotes (p # q # ps) w \<longleftrightarrow> (\<exists>t r. w = t @ p @ r \<and> tail_denotes (q # ps) r)"

definition wildcard_denotes :: "string \<Rightarrow> string \<Rightarrow> bool" where
  "wildcard_denotes pattern value \<longleftrightarrow>
     (let parts = split_char star_char pattern
      in \<exists>r. value = hd parts @ r \<and> tail_denotes (tl parts) r)"

lemma tail_denotes_extend: "ps \<noteq> [] \<Longrightarrow> tail_denotes ps r \<Longrightarrow> tail_denotes ps (t @ r)"
proof (induction ps r rule: tail_denotes.induct)
  case (2 p w)
  then show ?case by (metis append.assoc tail_denotes.simps(2))
next
  case (3 p q ps w)
  then show ?case by (metis append.assoc tail_denotes.simps(3))
qed simp

text \<open>The search finds the leftmost place.\<close>

lemma find_str_least:
  assumes "find_str s p = Some n" "s = a @ p @ b"
  shows "n \<le> length a"
  using assms
proof (induction s arbitrary: n a)
  case Nil
  then show ?case by (auto split: if_splits)
next
  case (Cons c s)
  show ?case
  proof (cases "starts_with (c # s) p")
    case True
    then show ?thesis using Cons.prems(1) by simp
  next
    case False
    then obtain m where m: "find_str s p = Some m" "n = Suc m" using Cons.prems(1) by auto
    obtain a' where "a = c # a'" using False Cons.prems(2) by (cases a) (auto simp: starts_with_iff)
    then show ?thesis using Cons.IH [OF m(1)] m(2) Cons.prems(2) by simp
  qed
qed

lemma find_str_drop:
  assumes "find_str w p = Some n"
  shows "w = take n w @ p @ drop (n + length p) w"
proof -
  obtain b where b: "w = take n w @ p @ b" "n \<le> length w" using find_str_split [OF assms] by blast
  then have "drop n w = p @ b" by (metis append_take_drop_id same_append_eq)
  then have "drop (length p) (drop n w) = b" by simp
  then have "drop (n + length p) w = b" by (simp add: add.commute)
  then show ?thesis using b(1) by simp
qed

lemma tail_denotes_step:
  assumes "find_str w p = Some n" "ps \<noteq> []"
  shows "tail_denotes (p # ps) w \<longleftrightarrow> tail_denotes ps (drop (n + length p) w)"
proof -
  obtain q qs where ps: "ps = q # qs" using assms(2) by (cases ps) auto
  show ?thesis
  proof
    assume "tail_denotes (p # ps) w"
    then obtain t r where w: "w = t @ p @ r" "tail_denotes ps r" by (auto simp: ps)
    have n: "n \<le> length t" using find_str_least [OF assms(1) w(1)] .
    have "drop (n + length p) w = drop (n + length p) (t @ p) @ r" using w(1) n by simp
    then show "tail_denotes ps (drop (n + length p) w)" using tail_denotes_extend [OF assms(2) w(2)] by (simp only:)
  next
    assume "tail_denotes ps (drop (n + length p) w)"
    then show "tail_denotes (p # ps) w" using find_str_drop [OF assms(1)] by (auto simp: ps)
  qed
qed

lemma tail_denotes_contains: "tail_denotes (p # ps) w \<Longrightarrow> str_contains w p"
  by (cases ps) (auto simp: str_contains_iff, metis append.right_neutral)

lemma tail_denotes_skip: "ps \<noteq> [] \<Longrightarrow> tail_denotes ([] # ps) w \<longleftrightarrow> tail_denotes ps w"
proof -
  assume "ps \<noteq> []"
  then obtain q qs where ps: "ps = q # qs" by (cases ps) auto
  then show ?thesis using tail_denotes_extend [of ps] by auto
qed

text \<open>The loop after the first part.\<close>

definition loop_ok :: "string list \<Rightarrow> string \<Rightarrow> nat option \<Rightarrow> bool" where
  "loop_ok parts value r =
     (case r of None \<Rightarrow> False
      | Some pos \<Rightarrow> last parts = [] \<or> pos = length value \<or> ends_with value (last parts))"

lemma ends_with_drop:
  assumes "ends_with v p" "n + length p \<le> length v"
  shows "\<exists>t. drop n v = t @ p"
proof -
  obtain r where "v = r @ p" using assms(1) by (auto simp: ends_with_iff)
  then show ?thesis using assms(2) by simp
qed

lemma wildcard_loop_tail:
  assumes "parts \<noteq> []" "pos \<le> length value" "0 < i"
  shows "loop_ok parts value (wildcard_loop i parts value pos) \<longleftrightarrow> tail_denotes parts (drop pos value)"
  using assms
proof (induction parts arbitrary: i pos)
  case (Cons p ps)
  show ?case
  proof (cases "p = []")
    case True
    show ?thesis
    proof (cases "ps = []")
      case True
      then show ?thesis using \<open>p = []\<close> by (simp add: loop_ok_def)
    next
      case False
      have "loop_ok (p # ps) value (wildcard_loop i (p # ps) value pos)
          = loop_ok ps value (wildcard_loop (Suc i) ps value pos)" using True False by (simp add: loop_ok_def last_ConsR split: option.split)
      then show ?thesis using Cons.IH [OF False Cons.prems(2), of "Suc i"] True tail_denotes_skip [OF False] by simp
    qed
  next
    case ne: False
    show ?thesis
    proof (cases "find_str (drop pos value) p")
      case None
      then have "\<not> str_contains (drop pos value) p" using find_str_Some_iff [of "drop pos value" p] by simp
      then show ?thesis using ne None Cons.prems(3) tail_denotes_contains by (auto simp: loop_ok_def)
    next
      case (Some n)
      let ?pos = "pos + n + length p"
      have w: "drop pos value = take n (drop pos value) @ p @ drop (n + length p) (drop pos value)"
        by (rule find_str_drop [OF Some])
      obtain b where b: "drop pos value = take n (drop pos value) @ p @ b" "n \<le> length (drop pos value)"
        using find_str_split [OF Some] by blast
      have "length (drop pos value) = n + length p + length b"
        by (subst b(1)) (use b(2) in simp)
      then have le: "?pos \<le> length value" using Cons.prems(2) by simp
      have step: "wildcard_loop i (p # ps) value pos = wildcard_loop (Suc i) ps value ?pos"
        using ne Some Cons.prems(3) by simp
      show ?thesis
      proof (cases "ps = []")
        case True
        have fits: "pos + length p \<le> length value" using le by simp
        have "loop_ok [p] value (Some ?pos) \<longleftrightarrow> (\<exists>t. drop pos value = t @ p)"
        proof
          assume l: "loop_ok [p] value (Some ?pos)"
          have "ends_with value p"
          proof (cases "?pos = length value")
            case True
            have "value = take pos value @ take n (drop pos value) @ p"
              using w True by (metis append.right_neutral append_take_drop_id drop_all drop_drop add.assoc add.commute order_refl)
            then show ?thesis unfolding ends_with_iff by (metis append.assoc)
          next
            case False
            then show ?thesis using l ne by (simp add: loop_ok_def)
          qed
          then show "\<exists>t. drop pos value = t @ p" using ends_with_drop fits by blast
        next
          assume "\<exists>t. drop pos value = t @ p"
          then have "ends_with value p" unfolding ends_with_iff by (metis append.assoc append_take_drop_id)
          then show "loop_ok [p] value (Some ?pos)" by (simp add: loop_ok_def)
        qed
        then show ?thesis using True step by simp
      next
        case False
        have "loop_ok (p # ps) value (wildcard_loop i (p # ps) value pos)
            = loop_ok ps value (wildcard_loop (Suc i) ps value ?pos)" using step False by (simp add: loop_ok_def last_ConsR split: option.split)
        also have "\<dots> = tail_denotes ps (drop ?pos value)" using Cons.IH [OF False le] by simp
        also have "\<dots> = tail_denotes (p # ps) (drop pos value)"
          using tail_denotes_step [OF Some False] by (simp add: add.commute add.left_commute)
        finally show ?thesis .
      qed
    qed
  qed
qed simp


lemma split_char_last_star: "ends_with p [star_char] \<longleftrightarrow> star_char \<in> set p \<and> last (split_char star_char p) = []"
proof (induction p)
  case Nil
  then show ?case by (simp add: ends_with_def)
next
  case (Cons x xs)
  obtain q qs where q: "split_char star_char xs = q # qs" by (cases "split_char star_char xs") auto
  have e: "ends_with (x # xs) [star_char] \<longleftrightarrow> (if xs = [] then x = star_char else ends_with xs [star_char])"
    by (cases xs rule: rev_cases) (auto simp: ends_with_iff)
  show ?case
  proof (cases "star_char \<in> set xs")
    case True
    then have "xs \<noteq> []" "qs \<noteq> []"
      using q split_char_join [of star_char xs] split_char_no_sep [of q star_char xs] by (auto simp: join_with_def)
    then show ?thesis using e Cons.IH q True by auto
  next
    case False
    then have "split_char star_char xs = [xs]" by (rule split_char_absent)
    then show ?thesis using e False by (auto simp: ends_with_iff)
  qed
qed

lemma split_char_two: "c \<in> set p \<Longrightarrow> \<exists>a b bs. split_char c p = a # b # bs"
proof -
  assume c: "c \<in> set p"
  obtain a as where a: "split_char c p = a # as" by (cases "split_char c p") auto
  have "as \<noteq> []" using a c split_char_join [of c p] split_char_no_sep [of a c p] by (auto simp: join_with_def)
  then show ?thesis using a by (cases as) auto
qed

lemma wildcard_match_denotes:
  assumes "star_char \<in> set pattern"
  shows "wildcard_match pattern value \<longleftrightarrow> wildcard_denotes pattern value"
proof -
  obtain p q ps where parts: "split_char star_char pattern = p # q # ps" using split_char_two [OF assms] by blast
  let ?loop = "wildcard_loop 0 (p # q # ps) value 0"
  have "wildcard_match pattern value \<longleftrightarrow> loop_ok (q # ps) value ?loop"
    using assms split_char_last_star [of pattern] by (auto simp: wildcard_match_def parts loop_ok_def split: option.splits)
  also have "\<dots> \<longleftrightarrow> starts_with value p \<and> tail_denotes (q # ps) (drop (length p) value)"
  proof (cases "p = []")
    case True
    then show ?thesis using wildcard_loop_tail [of "q # ps" 0 "value" 1] by simp
  next
    case False
    show ?thesis
    proof (cases "starts_with value p")
      case True
      then have "length p \<le> length value" by (auto simp: starts_with_iff)
      then show ?thesis using wildcard_loop_tail [of "q # ps" "length p" "value" 1] False True by simp
    next
      case no: False
      then show ?thesis using False by (simp add: loop_ok_def)
    qed
  qed
  also have "\<dots> \<longleftrightarrow> wildcard_denotes pattern value"
    by (auto simp: wildcard_denotes_def parts starts_with_iff)
  finally show ?thesis .
qed

section \<open>The cache\<close>

lemma lower_char_star [simp]: "lower_char c = star_char \<longleftrightarrow> c = star_char"
proof -
  let ?n = "of_char c :: nat"
  have "lower_char c = star_char \<Longrightarrow> ?n = 42"
  proof -
    assume l: "lower_char c = star_char"
    show "?n = 42"
    proof (cases "(65 \<le> ?n \<and> ?n \<le> 90) \<or> (192 \<le> ?n \<and> ?n \<le> 222 \<and> ?n \<noteq> 215)")
      case True
      then have "(of_char (lower_char c) :: nat) = ?n + 32" by (auto simp: lower_char_def Let_def)
      then show ?thesis using l True by auto
    next
      case False
      then have "lower_char c = c" by (auto simp: lower_char_def Let_def)
      then have "c = star_char" using l by simp
      then show ?thesis by simp
    qed
  qed
  moreover have "?n = 42 \<Longrightarrow> c = star_char" using of_char_eq_iff [of c star_char, where 'a = nat] by simp
  ultimately show ?thesis by (auto simp: lower_char_def)
qed

lemma star_lowercase: "star_char \<in> set (to_lowercase s) \<longleftrightarrow> star_char \<in> set s"
  unfolding to_lowercase_def set_map image_iff by (metis lower_char_star)


text \<open>What a source stands for once case is ignored.\<close>

definition source_denotes :: "match_source \<Rightarrow> string \<Rightarrow> bool" where
  "source_denotes s v \<longleftrightarrow>
     (let k = to_lowercase (cache_key s)
      in if star_char \<in> set k then wildcard_denotes k v else v = k)"

lemma sources_cache_fst:
  "v \<in> fst (sources_cache eid ss acc) \<longleftrightarrow>
     v \<in> fst acc \<or> (\<exists>s \<in> set ss. star_char \<notin> set (cache_key s) \<and> v = to_lowercase (cache_key s))"
  by (induction eid ss acc rule: sources_cache.induct) auto

lemma sources_cache_snd:
  "x \<in> set (snd (sources_cache eid ss acc)) \<longleftrightarrow>
     x \<in> set (snd acc) \<or> (\<exists>s \<in> set ss. star_char \<in> set (cache_key s) \<and> x = (to_lowercase (cache_key s), eid))"
  by (induction eid ss acc rule: sources_cache.induct) auto

lemma entries_cache_fst:
  "v \<in> fst (entries_cache es acc) \<longleftrightarrow>
     v \<in> fst acc \<or> (\<exists>e \<in> set es. \<exists>s \<in> set (ae_sources e). star_char \<notin> set (cache_key s) \<and> v = to_lowercase (cache_key s))"
  by (induction es acc rule: entries_cache.induct) (auto simp: sources_cache_fst)

lemma entries_cache_snd:
  "x \<in> set (snd (entries_cache es acc)) \<longleftrightarrow>
     x \<in> set (snd acc) \<or> (\<exists>e \<in> set es. \<exists>s \<in> set (ae_sources e). star_char \<in> set (cache_key s) \<and>
       x = (to_lowercase (cache_key s), ae_id e))"
  by (induction es acc rule: entries_cache.induct) (auto simp: sources_cache_snd)

definition cache_ok :: "allowlist \<Rightarrow> bool" where
  "cache_ok a \<longleftrightarrow> (al_compiled a, al_wildcards a) = rebuild_read a"

lemma cache_ok_rebuild [simp]: "cache_ok (rebuild_cache a)"
  by (simp add: cache_ok_def rebuild_cache_def rebuild_write_def rebuild_read_def)

inductive allowlist_reachable :: "allowlist \<Rightarrow> bool" where
  al_new: "allowlist_reachable new_allowlist"
| al_added: "allowlist_reachable a \<Longrightarrow> allowlist_reachable (al_add e a)"
| al_removed: "allowlist_reachable a \<Longrightarrow> allowlist_reachable (snd (al_remove i a))"
| al_loaded: "allowlist_reachable a \<Longrightarrow> allowlist_reachable (snd (al_load r a))"

lemma reachable_cache_ok: "allowlist_reachable a \<Longrightarrow> cache_ok a"
proof (induction rule: allowlist_reachable.induct)
  case al_new
  then show ?case by (simp add: cache_ok_def new_allowlist_def rebuild_read_def)
next
  case (al_removed a i)
  have "\<not> length (filter (\<lambda>e. ae_id e \<noteq> i) (al_entries a)) < length (al_entries a) \<Longrightarrow>
      filter (\<lambda>e. ae_id e \<noteq> i) (al_entries a) = al_entries a"
    by (metis filter_id_conv length_filter_less)
  then show ?case using al_removed by (auto simp: al_remove_def Let_def)
qed (auto simp: al_add_def al_load_def split: load_result.splits)

lemma cache_is_allowed:
  assumes "cache_ok a"
  shows "is_allowed a v \<longleftrightarrow> (\<exists>e \<in> set (al_entries a). \<exists>s \<in> set (ae_sources e). source_denotes s (to_lowercase v))"
proof -
  have c: "al_compiled a = fst (rebuild_read a)" "al_wildcards a = snd (rebuild_read a)"
    using assms by (metis cache_ok_def fst_conv, metis cache_ok_def snd_conv)
  have "is_allowed a v \<longleftrightarrow> (\<exists>e \<in> set (al_entries a). \<exists>s \<in> set (ae_sources e).
      if star_char \<in> set (cache_key s) then wildcard_match (to_lowercase (cache_key s)) (to_lowercase v)
      else to_lowercase v = to_lowercase (cache_key s))"
    unfolding is_allowed_def Let_def c rebuild_read_def entries_cache_fst list_ex_iff Bex_def entries_cache_snd
    by (fastforce split: if_splits)
  then show ?thesis
    by (simp add: source_denotes_def Let_def star_lowercase wildcard_match_denotes cong: if_cong)
qed

section \<open>Properties\<close>

text \<open>The star matcher is right: with a star in it, a pattern matches a value exactly when its parts
  stand in the value in order and without overlap, the first at the start and the last at the end. The
  search that takes the leftmost place for each part loses no match.\<close>

theorem wildcard_match_exact:
  "wildcard_match pattern v \<longleftrightarrow> star_char \<in> set pattern \<and> wildcard_denotes pattern v"
  using wildcard_match_denotes [of pattern v] by (cases "star_char \<in> set pattern") (auto simp: wildcard_match_def)

text \<open>The compiled cache is the list: after any sequence of additions, removals and loads a value is
  allowed exactly when a source of an entry stands for it, case ignored.\<close>

theorem allowlist_cache_exact:
  assumes "allowlist_reachable a"
  shows "is_allowed a v \<longleftrightarrow> (\<exists>e \<in> set (al_entries a). \<exists>s \<in> set (ae_sources e). source_denotes s (to_lowercase v))"
  by (rule cache_is_allowed [OF reachable_cache_ok [OF assms]])

definition sample_list :: allowlist where
  "sample_list = al_add (entry_by_id ''e1'' ''U123'') (al_add (entry_by_username ''e2'' ''*_bot'') new_allowlist)"

theorem allowlist_cache_exact_witness:
  "is_allowed sample_list ''u123'' \<longleftrightarrow>
     (\<exists>e \<in> set (al_entries sample_list). \<exists>s \<in> set (ae_sources e). source_denotes s (to_lowercase ''u123''))"
  by (rule allowlist_cache_exact) (auto simp: sample_list_def intro: allowlist_reachable.intros)

text \<open>The scope of an entry is not enforced: the test for a user first asks the list without a scope, so an
  entry for one channel admits the same identifier on every channel. Where the scope is looked at, the
  value is in lower case and the pattern is not.\<close>

theorem scope_is_ignored:
  "let a = al_add ((entry_by_id ''e1'' ''u123'')\<lparr>ae_channel_id := Some ''telegram''\<rparr>) new_allowlist
   in is_user_allowed a ''discord'' ''u123'' None \<and> \<not> is_allowed_in_scope a ''u123'' None (Some ''discord'') None"
  by code_simp

theorem scoped_match_is_case_sensitive:
  "let a = al_add (entry_by_id ''e1'' ''Alice'') new_allowlist
   in is_allowed a ''Alice'' \<and> \<not> is_allowed_in_scope a ''Alice'' None None None"
  by code_simp

text \<open>The lock of the entries is dropped before the cache is rebuilt. When an addition has computed its
  cache and a removal runs to its end before that cache is stored, the removed user stays allowed.\<close>

theorem removed_user_stays_allowed:
  "let a1 = push_entry (entry_by_id ''e1'' ''u1'') new_allowlist;
       late = rebuild_read a1;
       (removed, a2) = al_remove ''e1'' a1;
       a3 = rebuild_write late a2
   in removed \<and> al_entries a3 = [] \<and> is_allowed a3 ''u1''"
  by code_simp

end
