(* ===== verification/Pairing_Store.thy ===== *)
theory Pairing_Store
  imports Access_Allowlist Tool_Spill
begin

text \<open>
  Pairing of users with the assistant (\<open>security/pairing.rs\<close>): a user asks for access and gets a code, an
  operator approves or rejects the code, access can be revoked, and expired requests are swept. The
  clock (in seconds) and the random code are arguments; a call reads the clock once. The two critical
  sections of a request for access, the tests and the insertion, are definitions of their own.
\<close>

section \<open>Data\<close>

datatype dm_policy = Dm_Open | Dm_Pairing | Dm_Allowlist

definition show_policy :: "dm_policy \<Rightarrow> string" where
  "show_policy p = (case p of Dm_Open \<Rightarrow> ''open'' | Dm_Pairing \<Rightarrow> ''pairing'' | Dm_Allowlist \<Rightarrow> ''allowlist'')"

definition parse_policy :: "string \<Rightarrow> string + dm_policy" where
  "parse_policy s =
     (let l = to_lowercase s
      in if l = ''open'' then Inr Dm_Open
         else if l = ''pairing'' then Inr Dm_Pairing
         else if l = ''allowlist'' then Inr Dm_Allowlist
         else Inl (''Invalid DM policy: '' @ s @ ''. Expected: open, pairing, allowlist''))"

record pending_request =
  pq_code :: string
  pq_channel :: string
  pq_user_id :: string
  pq_username :: "string option"
  pq_created_at :: int
  pq_expires_at :: int
  pq_attempt_count :: u32

definition request_valid :: "int \<Rightarrow> pending_request \<Rightarrow> bool" where
  "request_valid now r \<longleftrightarrow> now < pq_expires_at r"

definition is_locked :: "u32 \<Rightarrow> pending_request \<Rightarrow> bool" where
  "is_locked max_attempts r \<longleftrightarrow> max_attempts \<le> pq_attempt_count r"

record authorized_user =
  au_channel :: string
  au_user_id :: string
  au_username :: "string option"
  au_authorized_at :: int
  au_expires_at :: "int option"
  au_approved_by :: "string option"
  au_code_used :: "string option"

definition user_valid :: "int \<Rightarrow> authorized_user \<Rightarrow> bool" where
  "user_valid now u = (case au_expires_at u of Some t \<Rightarrow> now < t | None \<Rightarrow> True)"

datatype request_access_result =
    New_Request string
  | Already_Pending string int
  | Already_Authorized

datatype pairing_error = Rate_Limited string int

record pairing_store =
  ps_pending :: "(string \<times> pending_request) list"
  ps_pending_index :: "((string \<times> string) \<times> string) list"
  ps_authorized :: "((string \<times> string) \<times> authorized_user) list"
  ps_allowlist :: allowlist
  ps_default_ttl :: int
  ps_max_requests_per_user :: nat
  ps_min_request_interval :: int

definition pairing_with_config :: "int \<Rightarrow> nat \<Rightarrow> int \<Rightarrow> pairing_store" where
  "pairing_with_config ttl max_requests interval =
     \<lparr>ps_pending = [], ps_pending_index = [], ps_authorized = [], ps_allowlist = new_allowlist,
      ps_default_ttl = ttl, ps_max_requests_per_user = max_requests, ps_min_request_interval = interval\<rparr>"

definition default_pairing :: pairing_store where
  "default_pairing = pairing_with_config 3600 3 600"

section \<open>Operations\<close>

definition is_authorized :: "int \<Rightarrow> string \<Rightarrow> string \<Rightarrow> pairing_store \<Rightarrow> bool" where
  "is_authorized now channel user s =
     ((case map_of (ps_authorized s) (channel, user) of Some u \<Rightarrow> user_valid now u | None \<Rightarrow> False)
      \<or> is_user_allowed (ps_allowlist s) channel user None)"

definition user_requests :: "int \<Rightarrow> string \<Rightarrow> string \<Rightarrow> pairing_store \<Rightarrow> pending_request list" where
  "user_requests now channel user s =
     filter (\<lambda>r. pq_channel r = channel \<and> pq_user_id r = user \<and> request_valid now r) (map snd (ps_pending s))"

definition check_rate_limits :: "int \<Rightarrow> string \<Rightarrow> string \<Rightarrow> pairing_store \<Rightarrow> pairing_error option" where
  "check_rate_limits now channel user s =
     (if ps_max_requests_per_user s \<le> length (user_requests now channel user s)
      then Some (Rate_Limited (''Maximum '' @ show_nat (ps_max_requests_per_user s) @ '' pending requests reached'')
        (ps_min_request_interval s))
      else None)"

text \<open>The tests: an early result, or go on.\<close>

definition request_check ::
  "int \<Rightarrow> string \<Rightarrow> string \<Rightarrow> pairing_store \<Rightarrow> (pairing_error + request_access_result) option" where
  "request_check now channel user s =
     (if is_authorized now channel user s then Some (Inr Already_Authorized)
      else case Option.bind (map_of (ps_pending_index s) (channel, user))
                  (\<lambda>code. Option.bind (map_of (ps_pending s) code)
                     (\<lambda>r. if request_valid now r then Some (code, pq_created_at r) else None)) of
          Some (code, created) \<Rightarrow> Some (Inr (Already_Pending code created))
        | None \<Rightarrow> map_option Inl (check_rate_limits now channel user s))"

definition request_insert ::
  "int \<Rightarrow> string \<Rightarrow> string \<Rightarrow> string \<Rightarrow> string option \<Rightarrow> pairing_store \<Rightarrow> pairing_store" where
  "request_insert now code channel user username s =
     s\<lparr>ps_pending := AList.update code
          \<lparr>pq_code = code, pq_channel = channel, pq_user_id = user, pq_username = username,
           pq_created_at = now, pq_expires_at = now + ps_default_ttl s, pq_attempt_count = 0\<rparr> (ps_pending s),
       ps_pending_index := AList.update (channel, user) code (ps_pending_index s)\<rparr>"

definition request_access ::
  "int \<Rightarrow> string \<Rightarrow> string \<Rightarrow> string \<Rightarrow> string option \<Rightarrow> pairing_store
     \<Rightarrow> (pairing_error + request_access_result) \<times> pairing_store" where
  "request_access now code channel user username s =
     (case request_check now channel user s of
        Some r \<Rightarrow> (r, s)
      | None \<Rightarrow> (Inr (New_Request code), request_insert now code channel user username s))"

definition drop_request :: "string \<Rightarrow> pending_request \<Rightarrow> pairing_store \<Rightarrow> pairing_store" where
  "drop_request code r s =
     s\<lparr>ps_pending := AList.delete code (ps_pending s),
       ps_pending_index := AList.delete (pq_channel r, pq_user_id r) (ps_pending_index s)\<rparr>"

definition approve :: "int \<Rightarrow> string \<Rightarrow> string \<Rightarrow> string option \<Rightarrow> pairing_store \<Rightarrow> authorized_user option \<times> pairing_store" where
  "approve now channel code approved_by s =
     (case map_of (ps_pending s) code of
        None \<Rightarrow> (None, s)
      | Some r \<Rightarrow>
          (if pq_channel r \<noteq> channel then (None, s)
           else if \<not> request_valid now r then (None, drop_request code r s)
           else let u = \<lparr>au_channel = pq_channel r, au_user_id = pq_user_id r, au_username = pq_username r,
                         au_authorized_at = now, au_expires_at = None, au_approved_by = approved_by,
                         au_code_used = Some code\<rparr>
                in (Some u, (drop_request code r s)\<lparr>ps_authorized :=
                      AList.update (pq_channel r, pq_user_id r) u (ps_authorized s)\<rparr>)))"

definition reject :: "string \<Rightarrow> string \<Rightarrow> pairing_store \<Rightarrow> pending_request option \<times> pairing_store" where
  "reject channel code s =
     (case map_of (ps_pending s) code of
        None \<Rightarrow> (None, s)
      | Some r \<Rightarrow> if pq_channel r \<noteq> channel then (None, s) else (Some r, drop_request code r s))"

definition has_pending :: "string \<Rightarrow> string \<Rightarrow> pairing_store \<Rightarrow> pending_request option" where
  "has_pending channel user s =
     Option.bind (map_of (ps_pending_index s) (channel, user)) (map_of (ps_pending s))"

definition list_pending :: "int \<Rightarrow> string \<Rightarrow> pairing_store \<Rightarrow> pending_request list" where
  "list_pending now channel s =
     filter (\<lambda>r. pq_channel r = channel \<and> request_valid now r) (map snd (ps_pending s))"

definition list_authorized :: "int \<Rightarrow> pairing_store \<Rightarrow> authorized_user list" where
  "list_authorized now s = filter (user_valid now) (map snd (ps_authorized s))"

definition list_authorized_for_channel :: "int \<Rightarrow> string \<Rightarrow> pairing_store \<Rightarrow> authorized_user list" where
  "list_authorized_for_channel now channel s =
     filter (\<lambda>u. au_channel u = channel \<and> user_valid now u) (map snd (ps_authorized s))"

definition revoke :: "string \<Rightarrow> string \<Rightarrow> pairing_store \<Rightarrow> bool \<times> pairing_store" where
  "revoke channel user s =
     (map_of (ps_authorized s) (channel, user) \<noteq> None,
      s\<lparr>ps_authorized := AList.delete (channel, user) (ps_authorized s)\<rparr>)"

definition add_to_allowlist ::
  "int \<Rightarrow> string \<Rightarrow> string \<Rightarrow> string option \<Rightarrow> string option \<Rightarrow> pairing_store \<Rightarrow> authorized_user \<times> pairing_store" where
  "add_to_allowlist now channel user username added_by s =
     (let u = \<lparr>au_channel = channel, au_user_id = user, au_username = username, au_authorized_at = now,
               au_expires_at = None, au_approved_by = added_by, au_code_used = None\<rparr>
      in (u, s\<lparr>ps_authorized := AList.update (channel, user) u (ps_authorized s)\<rparr>))"

fun sweep_codes :: "string list \<Rightarrow> pairing_store \<Rightarrow> pairing_store" where
  "sweep_codes [] s = s"
| "sweep_codes (code # codes) s =
     sweep_codes codes (case map_of (ps_pending s) code of Some r \<Rightarrow> drop_request code r s | None \<Rightarrow> s)"

definition sweep_expired :: "int \<Rightarrow> pairing_store \<Rightarrow> pairing_store" where
  "sweep_expired now s =
     (let expired = map pq_code (filter (\<lambda>r. \<not> request_valid now r) (map snd (ps_pending s)));
          s1 = sweep_codes expired s
      in s1\<lparr>ps_authorized := hm_retain (\<lambda>_ u. user_valid now u) (ps_authorized s1)\<rparr>)"

section \<open>Histories\<close>

text \<open>The log is no state of the program: it records what was asked, granted and revoked.\<close>

datatype pairing_event =
    Ev_Request string string string
  | Ev_Grant string string "string option"
  | Ev_Revoke string string

record pairing_world =
  pw_store :: pairing_store
  pw_clock :: int
  pw_log :: "pairing_event list"

inductive pairing_step :: "pairing_world \<Rightarrow> pairing_world \<Rightarrow> bool" where
  step_insert:
    "pw_clock w \<le> now \<Longrightarrow>
     pairing_step w \<lparr>pw_store = request_insert now code channel user username (pw_store w), pw_clock = now,
       pw_log = pw_log w @ [Ev_Request channel user code]\<rparr>"
| step_approve:
    "pw_clock w \<le> now \<Longrightarrow> approve now channel code who (pw_store w) = (res, s') \<Longrightarrow>
     pairing_step w \<lparr>pw_store = s', pw_clock = now,
       pw_log = pw_log w @ (case res of Some u \<Rightarrow> [Ev_Grant channel (au_user_id u) (Some code)] | None \<Rightarrow> [])\<rparr>"
| step_reject:
    "pairing_step w (w\<lparr>pw_store := snd (reject channel code (pw_store w))\<rparr>)"
| step_revoke:
    "pairing_step w (w\<lparr>pw_store := snd (revoke channel user (pw_store w)), pw_log := pw_log w @ [Ev_Revoke channel user]\<rparr>)"
| step_add:
    "pw_clock w \<le> now \<Longrightarrow>
     pairing_step w \<lparr>pw_store = snd (add_to_allowlist now channel user username who (pw_store w)), pw_clock = now,
       pw_log = pw_log w @ [Ev_Grant channel user None]\<rparr>"
| step_sweep:
    "pw_clock w \<le> now \<Longrightarrow> pairing_step w (w\<lparr>pw_store := sweep_expired now (pw_store w), pw_clock := now\<rparr>)"
| step_allowlist:
    "pairing_step w (w\<lparr>pw_store := (pw_store w)\<lparr>ps_allowlist := a\<rparr>\<rparr>)"

definition pairing_start :: "pairing_store \<Rightarrow> int \<Rightarrow> pairing_world" where
  "pairing_start s now = \<lparr>pw_store = s, pw_clock = now, pw_log = []\<rparr>"

text \<open>The last decision about a user on a channel was a grant.\<close>

definition granted :: "pairing_event list \<Rightarrow> string \<Rightarrow> string \<Rightarrow> bool" where
  "granted log ch u \<longleftrightarrow> (\<exists>l1 c l2. log = l1 @ Ev_Grant ch u c # l2 \<and> Ev_Revoke ch u \<notin> set l2)"

text \<open>Every code that led to a grant had been asked for by that user on that channel before.\<close>

definition authentic :: "pairing_event list \<Rightarrow> bool" where
  "authentic log \<longleftrightarrow>
     (\<forall>l1 ch u code l2. log = l1 @ Ev_Grant ch u (Some code) # l2 \<longrightarrow> Ev_Request ch u code \<in> set l1)"

lemma granted_snoc:
  "granted (log @ [e]) ch u \<longleftrightarrow> (\<exists>c. e = Ev_Grant ch u c) \<or> (e \<noteq> Ev_Revoke ch u \<and> granted log ch u)"
proof
  assume "granted (log @ [e]) ch u"
  then obtain l1 c l2 where l: "log @ [e] = l1 @ Ev_Grant ch u c # l2" "Ev_Revoke ch u \<notin> set l2"
    by (auto simp: granted_def)
  then show "(\<exists>c. e = Ev_Grant ch u c) \<or> (e \<noteq> Ev_Revoke ch u \<and> granted log ch u)"
    by (cases l2 rule: rev_cases) (auto simp: granted_def)
next
  assume r: "(\<exists>c. e = Ev_Grant ch u c) \<or> (e \<noteq> Ev_Revoke ch u \<and> granted log ch u)"
  show "granted (log @ [e]) ch u"
  proof (cases "\<exists>c. e = Ev_Grant ch u c")
    case True
    then show ?thesis unfolding granted_def by (metis empty_iff list.set(1))
  next
    case False
    then obtain l1 c l2 where "log = l1 @ Ev_Grant ch u c # l2" "Ev_Revoke ch u \<notin> set l2" "e \<noteq> Ev_Revoke ch u"
      using r by (auto simp: granted_def)
    then have "log @ [e] = l1 @ Ev_Grant ch u c # (l2 @ [e]) \<and> Ev_Revoke ch u \<notin> set (l2 @ [e])" by auto
    then show ?thesis unfolding granted_def by blast
  qed
qed

lemma authentic_snoc:
  "authentic (log @ [e]) \<longleftrightarrow> authentic log \<and> (\<forall>ch u code. e = Ev_Grant ch u (Some code) \<longrightarrow> Ev_Request ch u code \<in> set log)"
proof
  assume a: "authentic (log @ [e])"
  have "Ev_Request ch u code \<in> set l1" if "log = l1 @ Ev_Grant ch u (Some code) # l2" for l1 ch u code l2
    using a [unfolded authentic_def, rule_format, of l1 ch u code "l2 @ [e]"] that by simp
  then show "authentic log \<and> (\<forall>ch u code. e = Ev_Grant ch u (Some code) \<longrightarrow> Ev_Request ch u code \<in> set log)"
    using a unfolding authentic_def by blast
next
  assume a: "authentic log \<and> (\<forall>ch u code. e = Ev_Grant ch u (Some code) \<longrightarrow> Ev_Request ch u code \<in> set log)"
  show "authentic (log @ [e])"
    unfolding authentic_def
  proof (intro allI impI)
    fix l1 ch u code l2 assume l: "log @ [e] = l1 @ Ev_Grant ch u (Some code) # l2"
    then show "Ev_Request ch u code \<in> set l1"
      using a by (cases l2 rule: rev_cases) (auto simp: authentic_def)
  qed
qed

definition pairing_inv :: "pairing_world \<Rightarrow> bool" where
  "pairing_inv w \<longleftrightarrow>
     (\<forall>code r. map_of (ps_pending (pw_store w)) code = Some r \<longrightarrow>
        pq_code r = code \<and> Ev_Request (pq_channel r) (pq_user_id r) code \<in> set (pw_log w)) \<and>
     (\<forall>ch u. (map_of (ps_authorized (pw_store w)) (ch, u) \<noteq> None) = granted (pw_log w) ch u) \<and>
     (\<forall>k a. map_of (ps_authorized (pw_store w)) k = Some a \<longrightarrow> au_expires_at a = None) \<and>
     hm_ok (ps_authorized (pw_store w)) \<and> authentic (pw_log w)"

declare map_of_eq_Some_iff [simp del]

lemma drop_request_maps [simp]:
  "map_of (ps_pending (drop_request code r s)) = (map_of (ps_pending s))(code := None)"
  "ps_authorized (drop_request code r s) = ps_authorized s"
  "ps_max_requests_per_user (drop_request code r s) = ps_max_requests_per_user s"
  by (simp_all add: drop_request_def)

lemma sweep_codes_maps:
  "map_of (ps_pending (sweep_codes codes s)) c = (if c \<in> set codes then None else map_of (ps_pending s) c)"
  "ps_authorized (sweep_codes codes s) = ps_authorized s"
  by (induction codes s rule: sweep_codes.induct) (auto split: option.splits)

lemma pairing_step_inv: "pairing_step w w' \<Longrightarrow> pairing_inv w \<Longrightarrow> pairing_inv w'"
proof (induction rule: pairing_step.induct)
  case (step_insert w now code channel user username)
  then show ?case
    by (auto simp: pairing_inv_def request_insert_def granted_snoc authentic_snoc)
next
  case (step_approve w now channel code who res s')
  show ?case
  proof (cases res)
    case None
    then show ?thesis
      using step_approve
      by (auto simp: pairing_inv_def approve_def Let_def split: option.splits if_splits) blast
  next
    case (Some u)
    then obtain r where r: "map_of (ps_pending (pw_store w)) code = Some r" "pq_channel r = channel" "au_user_id u = pq_user_id r"
      "au_expires_at u = None" "s' = (drop_request code r (pw_store w))\<lparr>ps_authorized :=
         AList.update (channel, pq_user_id r) u (ps_authorized (pw_store w))\<rparr>"
      using step_approve(2) by (auto simp: approve_def Let_def split: option.splits if_splits)
    then have "Ev_Request channel (pq_user_id r) code \<in> set (pw_log w)"
      using step_approve(3) by (auto simp: pairing_inv_def)
    then show ?thesis
      using step_approve(3) Some r by (auto simp: pairing_inv_def granted_snoc authentic_snoc)
  qed
next
  case (step_reject w channel code)
  then show ?case by (auto simp: pairing_inv_def reject_def split: option.splits if_splits)
next
  case (step_revoke w channel user)
  then show ?case by (auto simp: pairing_inv_def revoke_def granted_snoc authentic_snoc)
next
  case (step_add w now channel user username who)
  then show ?case by (auto simp: pairing_inv_def add_to_allowlist_def Let_def granted_snoc authentic_snoc)
next
  case (step_sweep w now)
  have "au_expires_at a = None" if "map_of (ps_authorized (pw_store w)) k = Some a" for k a
    using step_sweep(2) that unfolding pairing_inv_def by blast
  then have "map_of (hm_retain (\<lambda>_ u. user_valid now u) (ps_authorized (pw_store w))) k
      = map_of (ps_authorized (pw_store w)) k" for k
    using step_sweep(2) by (simp add: pairing_inv_def map_of_retain user_valid_def split: option.split)
  then show ?case
    using step_sweep(2) by (auto simp: pairing_inv_def sweep_expired_def Let_def sweep_codes_maps)
qed (simp add: pairing_inv_def)

lemma pairing_history_inv:
  "pairing_step\<^sup>*\<^sup>* (pairing_start (pairing_with_config ttl mx iv) t) w \<Longrightarrow> pairing_inv w"
proof (induction rule: rtranclp_induct)
  case base
  then show ?case
    by (simp add: pairing_inv_def pairing_start_def pairing_with_config_def granted_def authentic_def)
next
  case (step w w')
  then show ?case using pairing_step_inv by blast
qed

section \<open>The number of requests\<close>

text \<open>With the calls not overlapping, the valid requests of one user stay below the limit.\<close>

definition requests_bounded :: "int \<Rightarrow> pairing_store \<Rightarrow> bool" where
  "requests_bounded now s \<longleftrightarrow> hm_ok (ps_pending s) \<and>
     (\<forall>ch u. length (user_requests now ch u s) \<le> max 1 (ps_max_requests_per_user s))"

lemma user_requests_length:
  "length (user_requests now ch u s) =
     length (filter (\<lambda>x. pq_channel (snd x) = ch \<and> pq_user_id (snd x) = u \<and> request_valid now (snd x)) (ps_pending s))"
  by (simp add: user_requests_def filter_map comp_def)

lemma filter_delete: "length (filter P (AList.delete c m)) \<le> length (filter P m)"
  by (induction m) auto

lemma filter_update: "length (filter (\<lambda>x. P (snd x)) (AList.update c r m)) \<le> length (filter (\<lambda>x. P (snd x)) m) + (if P r then 1 else 0)"
  by (induction m) auto

lemma filter_mono_length: "(\<And>x. P x \<Longrightarrow> Q x) \<Longrightarrow> length (filter P xs) \<le> length (filter Q xs)"
  by (induction xs) auto

lemma user_requests_later:
  "now \<le> now' \<Longrightarrow> length (user_requests now' ch u s) \<le> length (user_requests now ch u s)"
  unfolding user_requests_length by (rule filter_mono_length) (auto simp: request_valid_def)

lemma drop_request_fewer: "length (user_requests now ch u (drop_request code r s)) \<le> length (user_requests now ch u s)"
  unfolding user_requests_length by (simp add: drop_request_def filter_delete)

lemma drop_request_ok: "hm_ok (ps_pending s) \<Longrightarrow> hm_ok (ps_pending (drop_request code r s))"
  by (simp add: drop_request_def)

lemma request_insert_count:
  "length (user_requests now ch' u' (request_insert now' code ch u name s))
     \<le> length (user_requests now ch' u' s) + (if ch' = ch \<and> u' = u then 1 else 0)"
  using filter_update [of "\<lambda>r. pq_channel r = ch' \<and> pq_user_id r = u' \<and> request_valid now r" code
      "\<lparr>pq_code = code, pq_channel = ch, pq_user_id = u, pq_username = name, pq_created_at = now',
        pq_expires_at = now' + ps_default_ttl s, pq_attempt_count = 0\<rparr>" "ps_pending s"]
  by (auto simp: user_requests_length request_insert_def split: if_splits)

lemma sweep_codes_fewer:
  "length (user_requests now ch u (sweep_codes codes s)) \<le> length (user_requests now ch u s)"
proof (induction codes s rule: sweep_codes.induct)
  case (2 code codes s)
  then show ?case using drop_request_fewer [of now ch u code _ s] by (auto split: option.splits intro: order_trans)
qed simp

lemma sweep_codes_fields:
  "hm_ok (ps_pending s) \<Longrightarrow> hm_ok (ps_pending (sweep_codes codes s))"
  "ps_max_requests_per_user (sweep_codes codes s) = ps_max_requests_per_user s"
  by (induction codes s rule: sweep_codes.induct) (auto simp: drop_request_def split: option.splits)

inductive pairing_calls :: "int \<Rightarrow> pairing_store \<Rightarrow> bool" where
  calls_new: "pairing_calls now (pairing_with_config ttl mx iv)"
| calls_request: "pairing_calls now s \<Longrightarrow> now \<le> now' \<Longrightarrow> pairing_calls now' (snd (request_access now' code ch u name s))"
| calls_approve: "pairing_calls now s \<Longrightarrow> now \<le> now' \<Longrightarrow> pairing_calls now' (snd (approve now' ch code who s))"
| calls_reject: "pairing_calls now s \<Longrightarrow> pairing_calls now (snd (reject ch code s))"
| calls_revoke: "pairing_calls now s \<Longrightarrow> pairing_calls now (snd (revoke ch u s))"
| calls_add: "pairing_calls now s \<Longrightarrow> pairing_calls now (snd (add_to_allowlist now ch u name who s))"
| calls_sweep: "pairing_calls now s \<Longrightarrow> now \<le> now' \<Longrightarrow> pairing_calls now' (sweep_expired now' s)"

lemma requests_bounded_shrink:
  assumes "requests_bounded now s" "hm_ok (ps_pending s')" "ps_max_requests_per_user s' = ps_max_requests_per_user s"
    "\<And>ch u. length (user_requests now' ch u s') \<le> length (user_requests now ch u s)"
  shows "requests_bounded now' s'"
  using assms unfolding requests_bounded_def by (metis order_trans)

lemma requests_bounded_later: "requests_bounded now s \<Longrightarrow> now \<le> now' \<Longrightarrow> requests_bounded now' s"
  by (rule requests_bounded_shrink) (auto simp: requests_bounded_def user_requests_later)

lemma requests_bounded_drop: "requests_bounded now s \<Longrightarrow> requests_bounded now (drop_request code r s)"
  by (rule requests_bounded_shrink) (auto simp: requests_bounded_def drop_request_fewer drop_request_ok)

lemma requests_bounded_cong:
  "requests_bounded now s \<Longrightarrow> ps_pending s' = ps_pending s \<Longrightarrow> ps_max_requests_per_user s' = ps_max_requests_per_user s \<Longrightarrow>
   requests_bounded now s'"
  by (simp add: requests_bounded_def user_requests_def)

lemma requests_bounded_authorized [simp]: "requests_bounded now (s\<lparr>ps_authorized := a\<rparr>) = requests_bounded now s"
  by (simp add: requests_bounded_def user_requests_def)

lemma pairing_calls_bounded: "pairing_calls now s \<Longrightarrow> requests_bounded now s"
proof (induction rule: pairing_calls.induct)
  case (calls_request now s now' code ch u name)
  note later = user_requests_later [OF calls_request(2)]
  show ?case
  proof (cases "request_check now' ch u s")
    case (Some r)
    then show ?thesis using requests_bounded_later [OF calls_request(3,2)] by (simp add: request_access_def)
  next
    case None
    let ?s = "request_insert now' code ch u name s"
    have "check_rate_limits now' ch u s = None" using None by (auto simp: request_check_def split: if_splits option.splits)
    then have few: "length (user_requests now' ch u s) < ps_max_requests_per_user s"
      by (auto simp: check_rate_limits_def split: if_splits)
    have "length (user_requests now' ch' u' ?s) \<le> max 1 (ps_max_requests_per_user s)" for ch' u'
    proof (cases "ch' = ch \<and> u' = u")
      case True
      then show ?thesis using few request_insert_count [of now' ch' u' now' code ch u name s] by auto
    next
      case False
      then have "length (user_requests now' ch' u' ?s) \<le> length (user_requests now' ch' u' s)"
        using request_insert_count [of now' ch' u' now' code ch u name s] by auto
      then show ?thesis using later [of ch' u' s] calls_request(3) unfolding requests_bounded_def by (meson order_trans)
    qed
    moreover have "hm_ok (ps_pending ?s)" using calls_request(3) by (simp add: requests_bounded_def request_insert_def)
    ultimately show ?thesis using None by (simp add: request_access_def requests_bounded_def request_insert_def)
  qed
next
  case (calls_approve now s now' ch code who)
  note later = requests_bounded_later [OF calls_approve(3,2)]
  show ?case
    using later requests_bounded_drop [OF later]
    by (auto simp: approve_def Let_def split: option.splits)
next
  case (calls_reject now s ch code)
  then show ?case by (auto simp: reject_def intro: requests_bounded_drop split: option.splits)
next
  case (calls_sweep now s now')
  let ?c = "map pq_code (filter (\<lambda>r. \<not> request_valid now' r) (map snd (ps_pending s)))"
  have "requests_bounded now' (sweep_codes ?c s)"
    by (rule requests_bounded_shrink [OF requests_bounded_later [OF calls_sweep(3,2)]])
       (use calls_sweep(3) in \<open>auto simp: requests_bounded_def sweep_codes_fields sweep_codes_fewer\<close>)
  then show ?case by (rule requests_bounded_cong) (simp_all add: sweep_expired_def Let_def)
next
  case (calls_new now ttl mx iv)
  then show ?case by (simp add: requests_bounded_def pairing_with_config_def user_requests_def)
qed (auto simp: revoke_def add_to_allowlist_def Let_def intro: requests_bounded_cong)

section \<open>Properties\<close>


definition sample_pairing :: pairing_world where
  "sample_pairing = \<lparr>pw_store = snd (approve 5 ''tg'' ''ABC234'' None
      (request_insert 1 ''ABC234'' ''tg'' ''u1'' None default_pairing)), pw_clock = 5,
     pw_log = [Ev_Request ''tg'' ''u1'' ''ABC234'', Ev_Grant ''tg'' ''u1'' (Some ''ABC234'')]\<rparr>"

lemma sample_pairing_reached: "pairing_step\<^sup>*\<^sup>* (pairing_start (pairing_with_config 3600 3 600) 0) sample_pairing"
proof -
  let ?w0 = "pairing_start (pairing_with_config 3600 3 600) 0"
  let ?w1 = "\<lparr>pw_store = request_insert 1 ''ABC234'' ''tg'' ''u1'' None (pw_store ?w0), pw_clock = 1,
    pw_log = pw_log ?w0 @ [Ev_Request ''tg'' ''u1'' ''ABC234'']\<rparr>"
  have s1: "pairing_step ?w0 ?w1" by (rule pairing_step.step_insert) (simp add: pairing_start_def)
  have c: "pw_clock ?w1 \<le> 5" by simp
  let ?r = "approve 5 ''tg'' ''ABC234'' None (pw_store ?w1)"
  have "map_option au_user_id (fst ?r) = Some ''u1''" by code_simp
  then have u: "(case fst ?r of Some u \<Rightarrow> [Ev_Grant ''tg'' (au_user_id u) (Some ''ABC234'')] | None \<Rightarrow> [])
      = [Ev_Grant ''tg'' ''u1'' (Some ''ABC234'')]" by (cases "fst ?r") auto
  have "pairing_step ?w1 sample_pairing"
    using pairing_step.step_approve [OF c prod.collapse [symmetric], of "''tg''" "''ABC234''" None] u
    by (simp add: sample_pairing_def default_pairing_def pairing_start_def)
  with s1 show ?thesis by (meson converse_rtranclp_into_rtranclp r_into_rtranclp)
qed


text \<open>A pairing code works once, on its channel and before it expires: an approval succeeds exactly for a
  pending request of that channel that has not expired; it authorises exactly that user, leaves everybody
  else as they were, and the same code is worthless afterwards.\<close>

theorem pairing_code_single_use:
  assumes "approve now ch code who s = (res, s')"
  shows "(res \<noteq> None \<longleftrightarrow> (\<exists>r. map_of (ps_pending s) code = Some r \<and> pq_channel r = ch \<and> now < pq_expires_at r)) \<and>
    (\<forall>u. res = Some u \<longrightarrow> map_of (ps_authorized s') = (map_of (ps_authorized s))((ch, au_user_id u) \<mapsto> u)) \<and>
    (res = None \<longrightarrow> ps_authorized s' = ps_authorized s) \<and>
    (res \<noteq> None \<longrightarrow> approve now' ch' code who' s' = (None, s'))"
  using assms by (auto simp: approve_def Let_def request_valid_def split: option.splits if_splits)

theorem pairing_code_single_use_witness:
  "approve 6 ''tg'' ''ABC234'' None (pw_store sample_pairing) = (None, pw_store sample_pairing)"
proof -
  let ?s = "request_insert 1 ''ABC234'' ''tg'' ''u1'' None default_pairing"
  have "fst (approve 5 ''tg'' ''ABC234'' None ?s) \<noteq> None" by code_simp
  then show ?thesis
    using pairing_code_single_use [OF prod.collapse [symmetric], of 5 "''tg''" "''ABC234''" None ?s 6 "''tg''" None]
    by (simp add: sample_pairing_def)
qed

text \<open>Nobody piles up requests: as long as calls do not overlap, the requests of one user on one channel
  that are still valid never exceed the configured limit (or one, when the limit is zero).\<close>

theorem pending_requests_bounded:
  assumes "pairing_calls now s"
  shows "length (user_requests now ch u s) \<le> max 1 (ps_max_requests_per_user s)"
  using pairing_calls_bounded [OF assms] by (simp add: requests_bounded_def)

theorem pending_requests_bounded_witness:
  "length (user_requests 1 ''tg'' ''u1'' (snd (request_access 1 ''ABC234'' ''tg'' ''u1'' None (pairing_with_config 3600 3 600))))
     \<le> max 1 (ps_max_requests_per_user (snd (request_access 1 ''ABC234'' ''tg'' ''u1'' None (pairing_with_config 3600 3 600))))"
  by (rule pending_requests_bounded, rule calls_request [OF calls_new [of 0]]) simp

text \<open>The names of the policies read back.\<close>

theorem policy_round_trip: "parse_policy (show_policy p) = Inr p"
proof (cases p)
  case Dm_Open
  show ?thesis unfolding Dm_Open by code_simp
next
  case Dm_Pairing
  show ?thesis unfolding Dm_Pairing by code_simp
next
  case Dm_Allowlist
  show ?thesis unfolding Dm_Allowlist by code_simp
qed

text \<open>The sweep forgets a fresh request. When a request has expired and the user has asked again, the sweep
  of the old code also removes the entry of the index for the new one: the request is listed, but the store
  says that the user has none, and asking once more makes another.\<close>

theorem sweep_loses_fresh_request:
  "let s0 = default_pairing;
       s1 = snd (request_access 0 ''OLD222'' ''tg'' ''u1'' None s0);
       s2 = snd (request_access 4000 ''NEW222'' ''tg'' ''u1'' None s1);
       s3 = sweep_expired 4001 s2
   in map_option pq_code (has_pending ''tg'' ''u1'' s2) = Some ''NEW222'' \<and>
      has_pending ''tg'' ''u1'' s3 = None \<and>
      map pq_code (list_pending 4001 ''tg'' s3) = [''NEW222''] \<and>
      fst (request_access 4002 ''MORE22'' ''tg'' ''u1'' None s3) = Inr (New_Request ''MORE22'')"
  by code_simp

text \<open>The interval between requests is not enforced: after a rejection a user gets the next code at once.\<close>

theorem interval_not_enforced:
  "let s1 = snd (request_access 0 ''AAA222'' ''tg'' ''u1'' None default_pairing);
       s2 = snd (reject ''tg'' ''AAA222'' s1)
   in ps_min_request_interval s2 = 600 \<and>
      fst (request_access 0 ''BBB222'' ''tg'' ''u1'' None s2) = Inr (New_Request ''BBB222'')"
  by code_simp

end
