(* ===== verification/Audit_Log.thy ===== *)
theory Audit_Log
  imports Tool_Types
begin

text \<open>
  The audit logs: the ring buffer in memory (\<open>security/runtime_audit.rs\<close>) and the log of the gateway, which keeps such
  a buffer and writes every entry to a table of the database as well (\<open>security/persistent_audit.rs\<close>). Identifiers and
  time stamps of entries are left out, details are their text. A write to the database may fail; the log then goes on.
\<close>

section \<open>The buffer\<close>

record audit_entry =
  at_event_type :: audit_event_type
  at_actor :: string
  at_target :: string
  at_allowed :: bool
  at_description :: string
  at_details :: "string option"

record audit_log =
  ad_entries :: "audit_entry list"
  ad_capacity :: nat

definition audit_with_capacity :: "nat \<Rightarrow> audit_log" where
  "audit_with_capacity n = \<lparr>ad_entries = [], ad_capacity = n\<rparr>"

definition audit_append :: "audit_entry \<Rightarrow> audit_log \<Rightarrow> audit_log" where
  "audit_append e l =
     l\<lparr>ad_entries := (if ad_capacity l \<le> length (ad_entries l) then drop 1 (ad_entries l) else ad_entries l) @ [e]\<rparr>"

definition audit_recent :: "nat \<Rightarrow> audit_log \<Rightarrow> audit_entry list" where
  "audit_recent n l = take n (rev (ad_entries l))"

definition audit_filter :: "audit_event_type \<Rightarrow> audit_log \<Rightarrow> audit_entry list" where
  "audit_filter ty l = filter (\<lambda>e. at_event_type e = ty) (ad_entries l)"

definition audit_clear :: "audit_log \<Rightarrow> audit_log" where
  "audit_clear l = l\<lparr>ad_entries := []\<rparr>"

section \<open>The log of the gateway\<close>

text \<open>\<open>pa_rows\<close> is the table; \<open>None\<close> is a log without a database.\<close>

record persistent_audit =
  pa_memory :: "audit_entry list"
  pa_rows :: "audit_entry list option"
  pa_capacity :: nat

definition persistent_new :: persistent_audit where
  "persistent_new = \<lparr>pa_memory = [], pa_rows = None, pa_capacity = 1000\<rparr>"

definition persistent_with_pool :: "audit_entry list \<Rightarrow> persistent_audit" where
  "persistent_with_pool rows = \<lparr>pa_memory = [], pa_rows = Some rows, pa_capacity = 1000\<rparr>"

definition push_memory :: "audit_entry \<Rightarrow> persistent_audit \<Rightarrow> persistent_audit" where
  "push_memory e l =
     l\<lparr>pa_memory := (if pa_capacity l \<le> length (pa_memory l) then tl (pa_memory l) else pa_memory l) @ [e]\<rparr>"

definition persistent_append :: "bool \<Rightarrow> audit_entry \<Rightarrow> persistent_audit \<Rightarrow> persistent_audit" where
  "persistent_append written e l =
     (let l1 = push_memory e l
      in if written then l1\<lparr>pa_rows := map_option (\<lambda>rows. rows @ [e]) (pa_rows l1)\<rparr> else l1)"

definition persistent_recent :: "nat \<Rightarrow> persistent_audit \<Rightarrow> audit_entry list" where
  "persistent_recent n l = take n (rev (pa_memory l))"

definition persistent_all :: "persistent_audit \<Rightarrow> audit_entry list" where
  "persistent_all l = pa_memory l"

definition persistent_filter :: "audit_event_type \<Rightarrow> persistent_audit \<Rightarrow> audit_entry list" where
  "persistent_filter ty l = filter (\<lambda>e. at_event_type e = ty) (pa_memory l)"

definition persisted_count :: "persistent_audit \<Rightarrow> nat" where
  "persisted_count l = (case pa_rows l of Some rows \<Rightarrow> length rows | None \<Rightarrow> 0)"

definition persistent_clear :: "persistent_audit \<Rightarrow> persistent_audit" where
  "persistent_clear l = l\<lparr>pa_memory := []\<rparr>"

text \<open>The name of an event in the table, and how a query reads it back.\<close>

fun event_name :: "audit_event_type \<Rightarrow> string" where
  "event_name Audit_Access_Check = ''AccessCheck''"
| "event_name Audit_Pairing_Request = ''PairingRequest''"
| "event_name Audit_Pairing_Approve = ''PairingApprove''"
| "event_name Audit_Pairing_Reject = ''PairingReject''"
| "event_name Audit_Pairing_Revoke = ''PairingRevoke''"
| "event_name Audit_Command_Gate = ''CommandGate''"
| "event_name Audit_Config_Change = ''ConfigChange''"
| "event_name Audit_Tool_Invocation = ''ToolInvocation''"
| "event_name Audit_Tool_Deny = ''ToolDeny''"
| "event_name Audit_Security = ''Security''"
| "event_name Audit_Acp_Spawn = ''AcpSpawn''"
| "event_name Audit_Acp_Terminate = ''AcpTerminate''"
| "event_name Audit_Acp_Message = ''AcpMessage''"
| "event_name Audit_Content_Filter = ''ContentFilter''"
| "event_name Audit_Trusted_Proxy_Login = ''TrustedProxyLogin''"
| "event_name Audit_Login = ''Login''"
| "event_name Audit_Logout = ''Logout''"
| "event_name Audit_Token_Validation = ''TokenValidation''"
| "event_name Audit_Network_Policy = ''NetworkPolicy''"

definition read_event :: "string \<Rightarrow> audit_event_type" where
  "read_event s =
     (if s = ''AccessCheck'' then Audit_Access_Check
      else if s = ''PairingRequest'' then Audit_Pairing_Request
      else if s = ''PairingApprove'' then Audit_Pairing_Approve
      else if s = ''PairingReject'' then Audit_Pairing_Reject
      else if s = ''PairingRevoke'' then Audit_Pairing_Revoke
      else if s = ''CommandGate'' then Audit_Command_Gate
      else if s = ''ConfigChange'' then Audit_Config_Change
      else if s = ''ToolInvocation'' then Audit_Tool_Invocation
      else if s = ''ToolDeny'' then Audit_Tool_Deny
      else if s = ''NetworkPolicy'' then Audit_Network_Policy
      else Audit_Security)"

section \<open>Laws\<close>

text \<open>A buffer of capacity \<open>n\<close> that holds the latest of the entries \<open>es\<close>.\<close>

definition latest :: "nat \<Rightarrow> 'a list \<Rightarrow> 'a list \<Rightarrow> bool" where
  "latest n es xs \<longleftrightarrow> xs = drop (length es - max 1 n) es"

lemma latest_Nil [simp]: "latest n [] []"
  by (simp add: latest_def)

lemma latest_push:
  "latest n es xs \<Longrightarrow> latest n (es @ [e]) ((if n \<le> length xs then drop 1 xs else xs) @ [e])"
  by (cases "n = 0"; cases "length es < n") (auto simp: latest_def Suc_diff_le)

lemma audit_append_latest:
  "latest (ad_capacity l) es (ad_entries l) \<Longrightarrow>
   latest (ad_capacity (audit_append e l)) (es @ [e]) (ad_entries (audit_append e l))"
  using latest_push [of "ad_capacity l" es "ad_entries l" e] by (simp add: audit_append_def)

lemma persistent_append_fields [simp]:
  "pa_capacity (persistent_append w e l) = pa_capacity l"
  "pa_rows (persistent_append w e l) = (if w then map_option (\<lambda>rows. rows @ [e]) (pa_rows l) else pa_rows l)"
  "pa_memory (persistent_append w e l) = pa_memory (push_memory e l)"
  by (simp_all add: persistent_append_def push_memory_def Let_def)

lemma push_memory_latest:
  "latest (pa_capacity l) es (pa_memory l) \<Longrightarrow> latest (pa_capacity l) (es @ [e]) (pa_memory (push_memory e l))"
  using latest_push [of "pa_capacity l" es "pa_memory l" e] by (auto simp: push_memory_def drop_Suc split: if_splits)

lemma push_memory_last: "persistent_recent (Suc 0) (persistent_append w e l) = [e]"
  by (simp add: persistent_recent_def push_memory_def)

text \<open>What a query reads back: ten of the types survive, every other one comes back as a generic event.\<close>

lemma event_read_back:
  "read_event (event_name ty) = ty \<longleftrightarrow>
     ty \<notin> {Audit_Acp_Spawn, Audit_Acp_Terminate, Audit_Acp_Message, Audit_Content_Filter, Audit_Trusted_Proxy_Login,
       Audit_Login, Audit_Logout, Audit_Token_Validation}"
  by (cases ty) (simp_all add: read_event_def)

end
