(* ===== verification/Channel_Gate.thy ===== *)
theory Channel_Gate
  imports Pairing_Store Glob_Match Audit_Log
begin

text \<open>
  Who may talk to the assistant through a channel: the mention gate (\<open>security/mention_gate.rs\<close>), the command
  gate (\<open>tools/command_gate.rs\<close>), the settings of a channel
  (\<open>gateway/config.rs\<close>) and the check that puts them together
  (\<open>GatewayState::check_incoming_access\<close> in \<open>gateway/mod.rs\<close>). Every decision goes to the audit log of \<open>Audit_Log\<close>.
\<close>

section \<open>Mentions\<close>

datatype mention_state = Direct_Message | Mentioned | Not_Mentioned

definition should_process :: "mention_state \<Rightarrow> bool \<Rightarrow> bool" where
  "should_process m require_mention =
     (case m of Direct_Message \<Rightarrow> True | Mentioned \<Rightarrow> True | Not_Mentioned \<Rightarrow> \<not> require_mention)"

definition is_reply_to_bot :: "string \<Rightarrow> string option \<Rightarrow> bool" where
  "is_reply_to_bot bot_id reply_to \<longleftrightarrow> reply_to = Some bot_id"

definition is_quoting_bot :: "string \<Rightarrow> string \<Rightarrow> bool" where
  "is_quoting_bot message bot_name \<longleftrightarrow> str_contains message bot_name \<or> str_contains message (''@'' @ bot_name)"

definition implicit_mention :: "string \<Rightarrow> string \<Rightarrow> string \<Rightarrow> string option \<Rightarrow> mention_state" where
  "implicit_mention bot_id bot_name message reply_to =
     (if is_reply_to_bot bot_id reply_to \<or> is_quoting_bot message bot_name then Mentioned else Not_Mentioned)"

datatype mention_policy = Mp_Allow | Mp_Block | Mp_Allowlist | Mp_Blocklist

definition show_mention_policy :: "mention_policy \<Rightarrow> string" where
  "show_mention_policy p =
     (case p of Mp_Allow \<Rightarrow> ''allow'' | Mp_Block \<Rightarrow> ''block'' | Mp_Allowlist \<Rightarrow> ''allowlist'' | Mp_Blocklist \<Rightarrow> ''blocklist'')"

record channel_mentions =
  cm_allowlist :: "string list"
  cm_blocklist :: "string list"

record mention_gate =
  mg_policy :: mention_policy
  mg_channels :: "(string \<times> channel_mentions) list"

definition new_mention_gate :: "mention_policy \<Rightarrow> mention_gate" where
  "new_mention_gate p = \<lparr>mg_policy = p, mg_channels = []\<rparr>"

definition set_mention_policy :: "mention_policy \<Rightarrow> mention_gate \<Rightarrow> mention_gate" where
  "set_mention_policy p g = g\<lparr>mg_policy := p\<rparr>"

definition pattern_matches :: "string \<Rightarrow> string \<Rightarrow> bool" where
  "pattern_matches pattern txt =
     (if pattern = star then True
      else if starts_with pattern star \<and> ends_with pattern star then
        str_contains txt (take (length pattern - 2) (drop 1 pattern))
      else case strip_prefix star pattern of
          Some suffix \<Rightarrow> ends_with txt suffix
        | None \<Rightarrow>
            (case strip_suffix star pattern of
               Some pre \<Rightarrow> starts_with txt pre
             | None \<Rightarrow> pattern = txt))"

definition mention_check :: "mention_gate \<Rightarrow> string \<Rightarrow> string \<Rightarrow> bool" where
  "mention_check g channel mention =
     (case mg_policy g of
        Mp_Allow \<Rightarrow> True
      | Mp_Block \<Rightarrow> False
      | Mp_Allowlist \<Rightarrow>
          (case map_of (mg_channels g) channel of
             Some c \<Rightarrow> list_ex (\<lambda>p. pattern_matches p mention) (cm_allowlist c)
           | None \<Rightarrow> False)
      | Mp_Blocklist \<Rightarrow>
          \<not> (case map_of (mg_channels g) channel of
               Some c \<Rightarrow> list_ex (\<lambda>p. pattern_matches p mention) (cm_blocklist c)
             | None \<Rightarrow> False))"

definition channel_entry :: "string \<Rightarrow> mention_gate \<Rightarrow> channel_mentions" where
  "channel_entry channel g =
     (case map_of (mg_channels g) channel of Some c \<Rightarrow> c | None \<Rightarrow> \<lparr>cm_allowlist = [], cm_blocklist = []\<rparr>)"

definition add_allow_mention :: "string \<Rightarrow> string \<Rightarrow> mention_gate \<Rightarrow> mention_gate" where
  "add_allow_mention channel pattern g =
     (let c = channel_entry channel g;
          c' = (if pattern \<in> set (cm_allowlist c) then c else c\<lparr>cm_allowlist := cm_allowlist c @ [pattern]\<rparr>)
      in g\<lparr>mg_channels := AList.update channel c' (mg_channels g)\<rparr>)"

definition add_block_mention :: "string \<Rightarrow> string \<Rightarrow> mention_gate \<Rightarrow> mention_gate" where
  "add_block_mention channel pattern g =
     (let c = channel_entry channel g;
          c' = (if pattern \<in> set (cm_blocklist c) then c else c\<lparr>cm_blocklist := cm_blocklist c @ [pattern]\<rparr>)
      in g\<lparr>mg_channels := AList.update channel c' (mg_channels g)\<rparr>)"

definition remove_allow_mention :: "string \<Rightarrow> string \<Rightarrow> mention_gate \<Rightarrow> bool \<times> mention_gate" where
  "remove_allow_mention channel pattern g =
     (case map_of (mg_channels g) channel of
        None \<Rightarrow> (False, g)
      | Some c \<Rightarrow>
          (let xs = filter (\<lambda>p. p \<noteq> pattern) (cm_allowlist c)
           in (length xs < length (cm_allowlist c),
               g\<lparr>mg_channels := AList.update channel (c\<lparr>cm_allowlist := xs\<rparr>) (mg_channels g)\<rparr>)))"

definition remove_block_mention :: "string \<Rightarrow> string \<Rightarrow> mention_gate \<Rightarrow> bool \<times> mention_gate" where
  "remove_block_mention channel pattern g =
     (case map_of (mg_channels g) channel of
        None \<Rightarrow> (False, g)
      | Some c \<Rightarrow>
          (let xs = filter (\<lambda>p. p \<noteq> pattern) (cm_blocklist c)
           in (length xs < length (cm_blocklist c),
               g\<lparr>mg_channels := AList.update channel (c\<lparr>cm_blocklist := xs\<rparr>) (mg_channels g)\<rparr>)))"

definition clear_mentions :: "string \<Rightarrow> mention_gate \<Rightarrow> mention_gate" where
  "clear_mentions channel g = g\<lparr>mg_channels := AList.delete channel (mg_channels g)\<rparr>"

section \<open>Commands\<close>

datatype user_level = Level_Chat | Level_User | Level_Admin

fun level_number :: "user_level \<Rightarrow> nat" where
  "level_number Level_Chat = 0"
| "level_number Level_User = 1"
| "level_number Level_Admin = 2"

instantiation user_level :: linorder
begin

definition less_eq_user_level :: "user_level \<Rightarrow> user_level \<Rightarrow> bool" where
  "less_eq_user_level a b \<longleftrightarrow> level_number a \<le> level_number b"

definition less_user_level :: "user_level \<Rightarrow> user_level \<Rightarrow> bool" where
  "less_user_level a b \<longleftrightarrow> level_number a < level_number b"

instance
proof
  fix a b :: user_level
  show "a \<le> b \<Longrightarrow> b \<le> a \<Longrightarrow> a = b"
    by (cases a; cases b) (simp_all add: less_eq_user_level_def)
qed (auto simp: less_eq_user_level_def less_user_level_def)

end

definition show_level :: "user_level \<Rightarrow> string" where
  "show_level l = (case l of Level_Chat \<Rightarrow> ''chat'' | Level_User \<Rightarrow> ''user'' | Level_Admin \<Rightarrow> ''admin'')"

datatype control_command = Ctl_Start | Ctl_Stop | Ctl_Help | Ctl_Pair | Ctl_Unpair | Ctl_Restart | Ctl_Status

definition detect_control :: "string \<Rightarrow> control_command option" where
  "detect_control content =
     (case split_whitespace content of
        [] \<Rightarrow> None
      | word # _ \<Rightarrow>
          (let w = to_lowercase word
           in if w = ''/start'' \<or> w = ''/begin'' then Some Ctl_Start
              else if w = ''/stop'' \<or> w = ''/end'' then Some Ctl_Stop
              else if w = ''/help'' \<or> w = ''/h'' then Some Ctl_Help
              else if w = ''/pair'' \<or> w = ''/link'' then Some Ctl_Pair
              else if w = ''/unpair'' \<or> w = ''/unlink'' then Some Ctl_Unpair
              else if w = ''/restart'' \<or> w = ''/reload'' then Some Ctl_Restart
              else if w = ''/status'' then Some Ctl_Status
              else None))"

datatype request_class = Class_Chat | Class_Command | Class_Admin | Class_Control control_command

definition admin_prefixes :: "string list" where
  "admin_prefixes = [''/admin'', ''/security audit'', ''/security pair'', ''/security revoke'']"

definition classify :: "string \<Rightarrow> request_class" where
  "classify content =
     (let trimmed = trim content
      in case detect_control content of
           Some c \<Rightarrow> Class_Control c
         | None \<Rightarrow>
             (if list_ex (starts_with trimmed) admin_prefixes then Class_Admin
              else if starts_with trimmed ''/'' then Class_Command
              else Class_Chat))"

definition required_level :: "request_class \<Rightarrow> user_level" where
  "required_level c =
     (case c of Class_Chat \<Rightarrow> Level_Chat | Class_Command \<Rightarrow> Level_User | Class_Admin \<Rightarrow> Level_Admin
      | Class_Control _ \<Rightarrow> Level_User)"

record command_gate =
  cg_levels :: "(string \<times> user_level) list"
  cg_unknown_user_level :: user_level

definition new_command_gate :: command_gate where
  "new_command_gate = \<lparr>cg_levels = [], cg_unknown_user_level = Level_Chat\<rparr>"

definition open_command_gate :: command_gate where
  "open_command_gate = \<lparr>cg_levels = [], cg_unknown_user_level = Level_User\<rparr>"

definition set_user_level :: "string \<Rightarrow> user_level \<Rightarrow> command_gate \<Rightarrow> command_gate" where
  "set_user_level user l g = g\<lparr>cg_levels := AList.update user l (cg_levels g)\<rparr>"

definition clear_user_level :: "string \<Rightarrow> command_gate \<Rightarrow> command_gate" where
  "clear_user_level user g = g\<lparr>cg_levels := AList.delete user (cg_levels g)\<rparr>"

definition user_level_of :: "command_gate \<Rightarrow> string \<Rightarrow> user_level" where
  "user_level_of g user = (case map_of (cg_levels g) user of Some l \<Rightarrow> l | None \<Rightarrow> cg_unknown_user_level g)"

definition command_check :: "command_gate \<Rightarrow> string \<Rightarrow> string \<Rightarrow> string option" where
  "command_check g user content =
     (let required = required_level (classify content); current = user_level_of g user
      in if required \<le> current then None
         else Some (''User '' @ quoted user @ '' has level '' @ quoted (show_level current) @ '' but ''
           @ quoted (show_level required) @ '' is required for this request''))"

section \<open>The check of a message\<close>

record channel_config =
  cc_dm_policy :: dm_policy
  cc_require_mention :: bool
  cc_allow_from :: "string list"
  cc_block_from :: "string list"

definition is_in_allowlist :: "channel_config \<Rightarrow> string \<Rightarrow> bool" where
  "is_in_allowlist c user = list_ex (\<lambda>a. a = user) (cc_allow_from c)"

definition is_blocked :: "channel_config \<Rightarrow> string \<Rightarrow> bool" where
  "is_blocked c user = list_ex (\<lambda>b. b = user) (cc_block_from c)"

text \<open>\<open>ca_db_ok\<close> is what the database answers to the write of the entry.\<close>

record channel_access =
  ca_config :: "(string \<times> channel_config) list"
  ca_pairing :: pairing_store
  ca_mention_gate :: mention_gate
  ca_command_gate :: command_gate
  ca_audit :: persistent_audit
  ca_db_ok :: bool

definition audited ::
  "audit_event_type \<Rightarrow> string \<Rightarrow> string \<Rightarrow> bool \<Rightarrow> string \<Rightarrow> string option \<Rightarrow> channel_access \<Rightarrow> channel_access" where
  "audited ty user channel ok reason details s =
     s\<lparr>ca_audit := persistent_append (ca_db_ok s)
         \<lparr>at_event_type = ty, at_actor = user, at_target = channel, at_allowed = ok, at_description = reason,
          at_details = details\<rparr>
         (ca_audit s)\<rparr>"

text \<open>The part that needs the settings of the channel; \<open>Inl\<close> drops the message.\<close>

definition check_channel ::
  "int \<Rightarrow> string \<Rightarrow> string \<Rightarrow> string \<Rightarrow> mention_state \<Rightarrow> channel_config \<Rightarrow> channel_access \<Rightarrow> (string + unit) \<times> channel_access" where
  "check_channel now code channel user mention cfg s =
     (if is_blocked cfg user then
        let reason = ''User '' @ user @ '' is blocked on channel '' @ channel
        in (Inl reason, audited Audit_Access_Check user channel False reason None s)
      else if cc_dm_policy cfg = Dm_Pairing \<and> \<not> is_authorized now channel user (ca_pairing s) then
        let s1 = s\<lparr>ca_pairing := snd (request_access now code channel user None (ca_pairing s))\<rparr>;
            reason = ''User '' @ user @ '' not authorized on channel '' @ channel @ '' (pairing required)''
        in (Inl reason, audited Audit_Pairing_Request user channel False reason None s1)
      else if cc_dm_policy cfg = Dm_Allowlist \<and> \<not> is_in_allowlist cfg user
          \<and> \<not> is_authorized now channel user (ca_pairing s) then
        let reason = ''User '' @ user @ '' not in allowlist for channel '' @ channel
        in (Inl reason, audited Audit_Access_Check user channel False reason None s)
      else if \<not> should_process mention (cc_require_mention cfg) then
        let reason = ''Message from '' @ user @ '' on channel '' @ channel @ '' ignored (mention required in groups)''
        in (Inl reason, audited Audit_Access_Check user channel False reason None s)
      else if mention = Mentioned \<and> \<not> mention_check (ca_mention_gate s) channel ''*'' then
        let reason = ''Mention gate blocked message on channel '' @ channel @ '' (policy: ''
              @ show_mention_policy (mg_policy (ca_mention_gate s)) @ '')''
        in (Inl reason, audited Audit_Access_Check user channel False reason None s)
      else (Inr (), s))"

definition check_incoming_access ::
  "int \<Rightarrow> string \<Rightarrow> string \<Rightarrow> string \<Rightarrow> string \<Rightarrow> mention_state \<Rightarrow> channel_access \<Rightarrow> (string + unit) \<times> channel_access" where
  "check_incoming_access now code channel user content mention s =
     (case (case map_of (ca_config s) channel of
              Some cfg \<Rightarrow> check_channel now code channel user mention cfg s
            | None \<Rightarrow> (Inr (), s)) of
        (Inl reason, s1) \<Rightarrow> (Inl reason, s1)
      | (Inr _, s1) \<Rightarrow>
          (case command_check (ca_command_gate s1) user content of
             Some reason \<Rightarrow>
               (let msg = ''Command gate denied for user '' @ user @ '': '' @ reason
                in (Inl msg, audited Audit_Command_Gate user channel False msg (Some reason) s1))
           | None \<Rightarrow> (Inr (), audited Audit_Access_Check user channel True ''Access allowed'' None s1)))"

section \<open>Laws\<close>

text \<open>The patterns of the mention gate are those of the hook matcher.\<close>

lemma pattern_matches_is_glob: "pattern_matches p t \<longleftrightarrow> glob_match p t"
proof (cases "p = star \<or> \<not> starts_with p star")
  case True
  then show ?thesis by (auto simp: pattern_matches_def glob_match_def strip_prefix_def split: option.split)
next
  case False
  then obtain r where p: "p = CHR 0x2A # r" "r \<noteq> []" by (auto simp: starts_with_iff)
  have e: "ends_with p star = ends_with r star" using ends_with_Cons_star [OF p(2)] p(1) by simp
  have pre: "strip_prefix star p = Some r" using p(1) by (simp add: strip_prefix_def starts_with_def)
  have inner: "take (length p - 2) (drop (Suc 0) p) = take (length r - 1) r" using p(1) by simp
  have strip: "strip_suffix star r = (if ends_with r star then Some (take (length r - 1) r) else None)"
    by (simp add: strip_suffix_def)
  show ?thesis
    using False e by (simp add: pattern_matches_def glob_match_def pre inner strip)
qed

text \<open>What the rules say about a configured channel.\<close>

definition policy_admits :: "int \<Rightarrow> string \<Rightarrow> string \<Rightarrow> channel_config \<Rightarrow> channel_access \<Rightarrow> bool" where
  "policy_admits now channel user cfg s =
     (case cc_dm_policy cfg of
        Dm_Open \<Rightarrow> True
      | Dm_Pairing \<Rightarrow> is_authorized now channel user (ca_pairing s)
      | Dm_Allowlist \<Rightarrow> is_in_allowlist cfg user \<or> is_authorized now channel user (ca_pairing s))"

lemma check_channel_ok:
  "fst (check_channel now code channel user mention cfg s) = Inr () \<longleftrightarrow>
     \<not> is_blocked cfg user \<and> policy_admits now channel user cfg s \<and>
     should_process mention (cc_require_mention cfg) \<and>
     (mention = Mentioned \<longrightarrow> mention_check (ca_mention_gate s) channel ''*'')"
  by (cases "cc_dm_policy cfg") (simp_all add: check_channel_def Let_def policy_admits_def)

definition asks_pairing :: "int \<Rightarrow> string \<Rightarrow> string \<Rightarrow> channel_config \<Rightarrow> channel_access \<Rightarrow> bool" where
  "asks_pairing now channel user cfg s \<longleftrightarrow>
     \<not> is_blocked cfg user \<and> cc_dm_policy cfg = Dm_Pairing \<and> \<not> is_authorized now channel user (ca_pairing s)"

lemma check_channel_passed:
  "check_channel now code channel user mention cfg s = (Inr u, s') \<Longrightarrow> s' = s"
  by (simp add: check_channel_def Let_def split: if_splits)

lemma check_channel_dropped:
  "check_channel now code channel user mention cfg s = (Inl reason, s') \<Longrightarrow>
   \<exists>ty. s' = audited ty user channel False reason None
     (if asks_pairing now channel user cfg s
      then s\<lparr>ca_pairing := snd (request_access now code channel user None (ca_pairing s))\<rparr> else s)"
  by (auto simp: check_channel_def asks_pairing_def Let_def split: if_splits)

definition channel_admits :: "int \<Rightarrow> string \<Rightarrow> string \<Rightarrow> mention_state \<Rightarrow> channel_access \<Rightarrow> bool" where
  "channel_admits now channel user mention s =
     (case map_of (ca_config s) channel of
        None \<Rightarrow> True
      | Some cfg \<Rightarrow> \<not> is_blocked cfg user \<and> policy_admits now channel user cfg s \<and>
          should_process mention (cc_require_mention cfg) \<and>
          (mention \<noteq> Mentioned \<or> mention_check (ca_mention_gate s) channel ''*''))"

definition admitted :: "int \<Rightarrow> string \<Rightarrow> string \<Rightarrow> string \<Rightarrow> mention_state \<Rightarrow> channel_access \<Rightarrow> bool" where
  "admitted now channel user content mention s \<longleftrightarrow>
     channel_admits now channel user mention s \<and>
     required_level (classify content) \<le> user_level_of (ca_command_gate s) user"

lemma audited_fields [simp]:
  "ca_config (audited ty u c ok r d s) = ca_config s"
  "ca_pairing (audited ty u c ok r d s) = ca_pairing s"
  "ca_mention_gate (audited ty u c ok r d s) = ca_mention_gate s"
  "ca_command_gate (audited ty u c ok r d s) = ca_command_gate s"
  "ca_db_ok (audited ty u c ok r d s) = ca_db_ok s"
  "ca_audit (audited ty u c ok r d s) = persistent_append (ca_db_ok s)
     \<lparr>at_event_type = ty, at_actor = u, at_target = c, at_allowed = ok, at_description = r, at_details = d\<rparr> (ca_audit s)"
  by (simp_all add: audited_def)

lemma check_channel_admits:
  "map_of (ca_config s) channel = Some cfg \<Longrightarrow>
   fst (check_channel now code channel user mention cfg s) = Inr () \<longleftrightarrow> channel_admits now channel user mention s"
  by (simp add: check_channel_ok channel_admits_def disj_imp)

text \<open>One message: the answer, and what the check leaves behind.\<close>

definition pairing_after :: "int \<Rightarrow> string \<Rightarrow> string \<Rightarrow> string \<Rightarrow> channel_access \<Rightarrow> pairing_store" where
  "pairing_after now code channel user s =
     (case map_of (ca_config s) channel of
        None \<Rightarrow> ca_pairing s
      | Some cfg \<Rightarrow>
          if asks_pairing now channel user cfg s then snd (request_access now code channel user None (ca_pairing s))
          else ca_pairing s)"

lemma check_incoming_passed:
  assumes "admitted now channel user content mention s"
  shows "check_incoming_access now code channel user content mention s =
           (Inr (), audited Audit_Access_Check user channel True ''Access allowed'' None s)"
proof (cases "map_of (ca_config s) channel")
  case None
  then show ?thesis using assms by (simp add: check_incoming_access_def admitted_def command_check_def Let_def)
next
  case (Some cfg)
  then have "fst (check_channel now code channel user mention cfg s) = Inr ()"
    using assms by (simp add: check_channel_admits admitted_def)
  then have "check_channel now code channel user mention cfg s = (Inr (), s)"
    using check_channel_passed by (metis prod.collapse)
  then show ?thesis using assms Some by (simp add: check_incoming_access_def admitted_def command_check_def Let_def)
qed

lemma check_incoming_dropped:
  assumes "\<not> admitted now channel user content mention s"
  shows "\<exists>ty reason d. check_incoming_access now code channel user content mention s =
           (Inl reason, audited ty user channel False reason d (s\<lparr>ca_pairing := pairing_after now code channel user s\<rparr>))"
proof (cases "channel_admits now channel user mention s")
  case True
  have "(case map_of (ca_config s) channel of Some cfg \<Rightarrow> check_channel now code channel user mention cfg s
          | None \<Rightarrow> (Inr (), s)) = (Inr (), s) \<and> pairing_after now code channel user s = ca_pairing s"
  proof (cases "map_of (ca_config s) channel")
    case (Some cfg)
    then have "fst (check_channel now code channel user mention cfg s) = Inr ()"
      using True by (simp add: check_channel_admits)
    then have "check_channel now code channel user mention cfg s = (Inr (), s)"
      using check_channel_passed by (metis prod.collapse)
    moreover have "\<not> asks_pairing now channel user cfg s"
      using True Some by (auto simp: channel_admits_def asks_pairing_def policy_admits_def)
    ultimately show ?thesis using Some by (simp add: pairing_after_def)
  qed (simp add: pairing_after_def)
  moreover have "command_check (ca_command_gate s) user content \<noteq> None"
    using assms True by (simp add: admitted_def command_check_def Let_def)
  moreover have "s\<lparr>ca_pairing := ca_pairing s\<rparr> = s" by simp
  ultimately show ?thesis unfolding check_incoming_access_def Let_def by (fastforce simp del: append.simps)
next
  case False
  then obtain cfg where cfg: "map_of (ca_config s) channel = Some cfg"
    by (auto simp: channel_admits_def split: option.splits)
  obtain r s' where c: "check_channel now code channel user mention cfg s = (r, s')" by fastforce
  with False cfg have "r \<noteq> Inr ()" using check_channel_admits [OF cfg] by (metis fst_conv)
  then obtain reason where "r = Inl reason" by (cases r) auto
  with c check_channel_dropped cfg show ?thesis
    by (fastforce simp: check_incoming_access_def pairing_after_def)
qed

section \<open>Sequences of messages\<close>

record incoming =
  im_time :: int
  im_code :: string
  im_channel :: string
  im_user :: string
  im_content :: string
  im_mention :: mention_state
  im_written :: bool

definition check_one :: "incoming \<Rightarrow> channel_access \<Rightarrow> (string + unit) \<times> channel_access" where
  "check_one m s = check_incoming_access (im_time m) (im_code m) (im_channel m) (im_user m) (im_content m) (im_mention m)
     (s\<lparr>ca_db_ok := im_written m\<rparr>)"

fun deliver :: "incoming list \<Rightarrow> channel_access \<Rightarrow> (string + unit) list \<times> channel_access" where
  "deliver [] s = ([], s)"
| "deliver (m # ms) s = (case check_one m s of (r, s1) \<Rightarrow> (case deliver ms s1 of (rs, s2) \<Rightarrow> (r # rs, s2)))"

definition records_decision :: "audit_entry \<Rightarrow> incoming \<times> (string + unit) \<Rightarrow> bool" where
  "records_decision e mr \<longleftrightarrow>
     at_actor e = im_user (fst mr) \<and> at_target e = im_channel (fst mr) \<and>
     (case snd mr of Inr _ \<Rightarrow> at_allowed e \<and> at_description e = ''Access allowed''
      | Inl reason \<Rightarrow> \<not> at_allowed e \<and> at_description e = reason)"

lemma deliver_Cons:
  "deliver (m # ms) s =
     (fst (check_one m s) # fst (deliver ms (snd (check_one m s))), snd (deliver ms (snd (check_one m s))))"
  by (simp split: prod.split)

lemma deliver_length: "length (fst (deliver ms s)) = length ms"
  by (induction ms arbitrary: s) (simp_all add: deliver_Cons del: deliver.simps(2))

lemma request_access_grants [simp]:
  "ps_authorized (snd (request_access now code ch u n s)) = ps_authorized s"
  "ps_allowlist (snd (request_access now code ch u n s)) = ps_allowlist s"
  by (simp_all add: request_access_def request_insert_def split: option.split)

lemma pairing_after_grants [simp]:
  "ps_authorized (pairing_after now code ch u s) = ps_authorized (ca_pairing s)"
  "ps_allowlist (pairing_after now code ch u s) = ps_allowlist (ca_pairing s)"
  by (simp_all add: pairing_after_def split: option.split)

lemma pairing_after_db [simp]: "pairing_after now code ch u (s\<lparr>ca_db_ok := b\<rparr>) = pairing_after now code ch u s"
  by (simp add: pairing_after_def asks_pairing_def split: option.split)

text \<open>The answer, the entry and the store after one message.\<close>

lemma check_one_effect:
  obtains e where "records_decision e (m, fst (check_one m s))"
    and "ca_audit (snd (check_one m s)) = persistent_append (im_written m) e (ca_audit s)"
    and "ca_pairing (snd (check_one m s)) \<in> {ca_pairing s, pairing_after (im_time m) (im_code m) (im_channel m) (im_user m) s}"
proof (cases "admitted (im_time m) (im_channel m) (im_user m) (im_content m) (im_mention m) (s\<lparr>ca_db_ok := im_written m\<rparr>)")
  case True
  let ?e = "\<lparr>at_event_type = Audit_Access_Check, at_actor = im_user m, at_target = im_channel m, at_allowed = True,
      at_description = ''Access allowed'', at_details = None\<rparr>"
  from True show ?thesis
    by (intro that [of ?e]) (simp_all add: check_one_def check_incoming_passed records_decision_def)
next
  case False
  then obtain ty reason d where "check_one m s =
      (Inl reason, audited ty (im_user m) (im_channel m) False reason d
        (s\<lparr>ca_db_ok := im_written m,
           ca_pairing := pairing_after (im_time m) (im_code m) (im_channel m) (im_user m) (s\<lparr>ca_db_ok := im_written m\<rparr>)\<rparr>))"
    using check_incoming_dropped unfolding check_one_def by blast
  then show ?thesis
    by (intro that [of "\<lparr>at_event_type = ty, at_actor = im_user m, at_target = im_channel m, at_allowed = False,
          at_description = reason, at_details = d\<rparr>"])
      (simp_all add: records_decision_def)
qed

lemma check_one_authorized: "is_authorized t ch u (ca_pairing (snd (check_one m s))) = is_authorized t ch u (ca_pairing s)"
  by (rule check_one_effect [of m s]) (auto simp: is_authorized_def)

definition written_entries :: "incoming list \<Rightarrow> audit_entry list \<Rightarrow> audit_entry list" where
  "written_entries ms es = map snd (filter (\<lambda>p. im_written (fst p)) (zip ms es))"

lemma deliver_latest:
  "latest (pa_capacity (ca_audit s)) old (pa_memory (ca_audit s)) \<Longrightarrow>
   \<exists>es. list_all2 records_decision es (zip ms (fst (deliver ms s))) \<and>
     latest (pa_capacity (ca_audit s)) (old @ es) (pa_memory (ca_audit (snd (deliver ms s)))) \<and>
     pa_rows (ca_audit (snd (deliver ms s))) =
       map_option (\<lambda>rows. rows @ written_entries ms es) (pa_rows (ca_audit s))"
proof (induction ms arbitrary: s old)
  case (Cons m ms)
  obtain e where e: "records_decision e (m, fst (check_one m s))"
      "ca_audit (snd (check_one m s)) = persistent_append (im_written m) e (ca_audit s)"
    by (rule check_one_effect)
  have "latest (pa_capacity (ca_audit (snd (check_one m s)))) (old @ [e]) (pa_memory (ca_audit (snd (check_one m s))))"
    using push_memory_latest [OF Cons.prems] by (simp add: e)
  from Cons.IH [OF this] obtain es where
    "list_all2 records_decision es (zip ms (fst (deliver ms (snd (check_one m s)))))"
    "latest (pa_capacity (ca_audit s)) ((old @ [e]) @ es) (pa_memory (ca_audit (snd (deliver ms (snd (check_one m s))))))"
    "pa_rows (ca_audit (snd (deliver ms (snd (check_one m s))))) =
       map_option (\<lambda>rows. rows @ written_entries ms es) (pa_rows (ca_audit (snd (check_one m s))))"
    by (auto simp: e)
  then show ?case using e
    by (intro exI [of _ "e # es"])
      (simp add: deliver_Cons written_entries_def option.map_comp comp_def del: deliver.simps(2))
qed (auto simp: written_entries_def option.map_ident)

section \<open>Properties\<close>

text \<open>A message is let through exactly when the command gate accepts its class for the level of the sender and, on a
  configured channel, the sender is not blocked, the policy for direct messages admits the sender, and the rules for
  mentions admit the message.
\<close>

theorem incoming_access_exact:
  "fst (check_incoming_access now code channel user content mention s) = Inr () \<longleftrightarrow>
     admitted now channel user content mention s"
proof (cases "admitted now channel user content mention s")
  case True
  then show ?thesis by (simp add: check_incoming_passed)
next
  case False
  then obtain ty reason d where "check_incoming_access now code channel user content mention s =
      (Inl reason, audited ty user channel False reason d (s\<lparr>ca_pairing := pairing_after now code channel user s\<rparr>))"
    using check_incoming_dropped by blast
  then show ?thesis using False by (simp only: fst_conv sum.distinct)
qed

text \<open>Messages never grant access: after any sequence of messages, answered or dropped, exactly the users who were
  authorised before are authorised, whatever the time and the channel asked about.
\<close>

theorem messages_never_authorise:
  "is_authorized t ch u (ca_pairing (snd (deliver ms s))) \<longleftrightarrow> is_authorized t ch u (ca_pairing s)"
proof (induction ms arbitrary: s)
  case (Cons m ms)
  then show ?case by (simp add: deliver_Cons check_one_authorized del: deliver.simps(2))
qed simp

text \<open>C14. After any sequence of messages the log in memory holds exactly the latest thousand decisions in the order they
  were taken, and the table holds what it held before followed by exactly the decisions whose write succeeded. There is
  one decision per message; it names the sender, the channel and the answer that message got.
\<close>

theorem audit_keeps_latest_decisions:
  "\<exists>es. list_all2 records_decision es (zip ms (fst (deliver ms (s\<lparr>ca_audit := persistent_with_pool rows\<rparr>)))) \<and>
     length es = length ms \<and>
     pa_memory (ca_audit (snd (deliver ms (s\<lparr>ca_audit := persistent_with_pool rows\<rparr>)))) = drop (length es - 1000) es \<and>
     pa_rows (ca_audit (snd (deliver ms (s\<lparr>ca_audit := persistent_with_pool rows\<rparr>)))) =
       Some (rows @ written_entries ms es)"
proof -
  let ?s = "s\<lparr>ca_audit := persistent_with_pool rows\<rparr>"
  have "latest (pa_capacity (ca_audit ?s)) [] (pa_memory (ca_audit ?s))" by (simp add: persistent_with_pool_def)
  from deliver_latest [OF this] obtain es where es: "list_all2 records_decision es (zip ms (fst (deliver ms ?s)))"
      "latest (pa_capacity (ca_audit ?s)) ([] @ es) (pa_memory (ca_audit (snd (deliver ms ?s))))"
      "pa_rows (ca_audit (snd (deliver ms ?s))) = map_option (\<lambda>rows. rows @ written_entries ms es) (pa_rows (ca_audit ?s))"
    by blast
  moreover have "length es = length ms"
    using list_all2_lengthD [OF es(1)] by (simp add: deliver_length)
  ultimately show ?thesis by (auto simp: latest_def persistent_with_pool_def)
qed

section \<open>Where the code departs from its documentation\<close>

text \<open>
  The mention gate is asked about the literal text \<open>*\<close> and not about the mention: a gate that allows \<open>@alice\<close> drops a
  message that mentions her, and a gate that blocks \<open>@spam\<close> lets every mention through.
\<close>

definition mention_scene :: "mention_policy \<Rightarrow> string \<Rightarrow> channel_access" where
  "mention_scene p name =
     \<lparr>ca_config = [(''telegram'', \<lparr>cc_dm_policy = Dm_Open, cc_require_mention = True, cc_allow_from = [], cc_block_from = []\<rparr>)],
      ca_pairing = default_pairing,
      ca_mention_gate = add_block_mention ''telegram'' name (add_allow_mention ''telegram'' name (new_mention_gate p)),
      ca_command_gate = new_command_gate, ca_audit = persistent_new, ca_db_ok = True\<rparr>"

lemma mention_gate_ignores_the_mention:
  "mention_check (ca_mention_gate (mention_scene Mp_Allowlist ''@alice'')) ''telegram'' ''@alice''
   \<and> fst (check_incoming_access 0 ''c'' ''telegram'' ''u'' ''@alice hi'' Mentioned (mention_scene Mp_Allowlist ''@alice'')) \<noteq> Inr ()
   \<and> \<not> mention_check (ca_mention_gate (mention_scene Mp_Blocklist ''@spam'')) ''telegram'' ''@spam''
   \<and> fst (check_incoming_access 0 ''c'' ''telegram'' ''u'' ''@spam hi'' Mentioned (mention_scene Mp_Blocklist ''@spam'')) = Inr ()"
  by (intro conjI; code_simp)

text \<open>An unknown user cannot ask for help or for pairing: the default level does not cover control commands.\<close>

lemma control_commands_need_a_level:
  "command_check new_command_gate u ''/help'' \<noteq> None \<and> command_check new_command_gate u ''/pair'' \<noteq> None"
proof -
  have "required_level (classify ''/help'') = Level_User" "required_level (classify ''/pair'') = Level_User"
    by code_simp+
  then show ?thesis
    by (simp add: command_check_def user_level_of_def new_command_gate_def less_eq_user_level_def Let_def)
qed

end
