(* ===== verification/Gateway_Protocol.thy ===== *)
theory Gateway_Protocol
  imports Prelude
begin

text \<open>
  The protocol of the web-socket gateway (\<open>gateway/protocol.rs\<close>): the scopes, the table of methods with the scope each
  needs, how granted scopes are resolved, the state of a connection, and the task that sends events to it
  (\<open>handle_websocket\<close> in \<open>gateway/ws/core.rs\<close>) with the audience of every event. Payloads are left out: an event is its
  constructor with the fields that decide where it goes and what it is called.
\<close>

section \<open>Scopes\<close>

definition scope_chat :: string where "scope_chat = ''chat''"
definition scope_read :: string where "scope_read = ''read''"
definition scope_write :: string where "scope_write = ''write''"
definition scope_admin :: string where "scope_admin = ''admin''"
definition scope_pairing :: string where "scope_pairing = ''pairing''"
definition scope_acp :: string where "scope_acp = ''acp''"

lemmas scope_defs = scope_chat_def scope_read_def scope_write_def scope_admin_def scope_pairing_def scope_acp_def

definition all_scopes :: "string list" where
  "all_scopes = [scope_chat, scope_read, scope_write, scope_admin, scope_pairing, scope_acp]"

definition default_scopes :: "string list" where
  "default_scopes = [scope_chat, scope_read]"

definition resolve_scopes :: "string list \<Rightarrow> string list \<Rightarrow> string list" where
  "resolve_scopes entitled requested =
     (if requested = [] then entitled else filter (\<lambda>s. s \<in> set requested) entitled)"

definition method_scopes :: "(string \<times> string option) list" where
  "method_scopes = [
    (''chat.send'', Some scope_chat), (''chat.abort'', Some scope_chat), (''ask.respond'', Some scope_chat),
    (''feedback.vote'', Some scope_chat), (''chat.history'', Some scope_read),
    (''sessions.list'', Some scope_read), (''agents.list'', Some scope_read), (''agents.get'', Some scope_read),
    (''agents.get_config'', Some scope_read), (''agents.memory.get'', Some scope_read),
    (''agents.export'', Some scope_read), (''agents.registry'', Some scope_read), (''health'', Some scope_read),
    (''system.presence'', Some scope_read), (''cost.get'', Some scope_read),
    (''commands.list'', Some scope_read), (''config.get'', Some scope_read), (''methods.list'', Some scope_read),
    (''models.list'', Some scope_read), (''models.presets'', Some scope_read),
    (''models.default'', Some scope_read), (''cron.list'', Some scope_read), (''skills.list'', Some scope_read),
    (''logs.subscribe'', Some scope_read), (''logs.unsubscribe'', Some scope_read),
    (''workspace.list'', Some scope_read), (''workspace.read'', Some scope_read),
    (''tasks.list'', Some scope_read), (''mcp.list'', Some scope_read), (''mcp.presets'', Some scope_read),
    (''mcp.tools'', Some scope_read), (''mcp.resources'', Some scope_read),
    (''mcp.auth_status'', Some scope_read), (''device.capabilities'', Some scope_read),
    (''device.permission.status'', Some scope_read), (''device.adb.status'', Some scope_read),
    (''debug.tool.invoke'', Some scope_write), (''device.shortcut.results'', Some scope_read),
    (''device.shortcut.inbox'', Some scope_read), (''eval.trace.list'', Some scope_read),
    (''eval.dashboard'', Some scope_read), (''eval.optimizer.status'', Some scope_read),
    (''feedback.ops'', Some scope_read), (''connectors.list'', Some scope_read),
    (''connectors.auth_status'', Some scope_read), (''connectors.updates'', Some scope_read),
    (''connectors.catalog'', Some scope_read), (''onboarding.status'', Some scope_read),
    (''cloud.status'', Some scope_read), (''cloud.subscription'', Some scope_read),
    (''cloud.usage'', Some scope_read), (''cloud.credits.claims'', Some scope_read),
    (''cloud.credits.packs'', Some scope_read), (''cloud.credits.ledger'', Some scope_read),
    (''cloud.credits.invite'', Some scope_read), (''update.status'', Some scope_read),
    (''update.progress'', Some scope_read), (''plugins.list'', Some scope_read),
    (''plugins.versions'', Some scope_read), (''providers.list'', Some scope_read),
    (''providers.usage'', Some scope_read), (''providers.health'', Some scope_read),
    (''providers.fallback'', Some scope_read), (''providers.auth_status'', Some scope_read),
    (''traces.get'', Some scope_read), (''cron.get'', Some scope_read), (''cron.logs'', Some scope_read),
    (''skills.get'', Some scope_read), (''skills.versions'', Some scope_read),
    (''skills.archived'', Some scope_read), (''channels.list'', Some scope_read),
    (''approvals.list'', Some scope_read), (''approvals.get'', Some scope_read),
    (''audit.recent'', Some scope_read), (''audit.all'', Some scope_read), (''memory.search'', Some scope_read),
    (''memory.collections'', Some scope_read), (''mention.policy'', Some scope_read),
    (''mention.allowlist'', Some scope_read), (''mention.blocklist'', Some scope_read),
    (''auth_profiles.list'', Some scope_read), (''auth_profiles.get'', Some scope_read),
    (''security.gate.list'', Some scope_read), (''security.allowlist.list'', Some scope_read),
    (''security.status'', Some scope_read), (''status.get'', Some scope_read),
    (''kb.collections'', Some scope_read), (''kb.docs'', Some scope_read), (''kb.doc_content'', Some scope_read),
    (''cloud.kb.list'', Some scope_read), (''cloud.kb.docs'', Some scope_read),
    (''cloud.kb.query'', Some scope_read), (''sessions.create'', Some scope_write),
    (''sessions.delete'', Some scope_write), (''agents.create'', Some scope_write),
    (''agents.delete'', Some scope_write), (''agents.purge'', Some scope_write),
    (''agents.rename'', Some scope_write), (''cost.reset'', Some scope_write),
    (''sessions.rename'', Some scope_write), (''sessions.undo'', Some scope_write),
    (''sessions.plan'', Some scope_read), (''sessions.export'', Some scope_read),
    (''sessions.import'', Some scope_write), (''sessions.branch'', Some scope_write),
    (''sessions.snapshot'', Some scope_write), (''sessions.snapshots'', Some scope_read),
    (''sessions.rollback'', Some scope_write), (''sessions.handoff'', Some scope_read),
    (''sessions.handoff_take'', Some scope_write), (''sessions.set_pinned'', Some scope_write),
    (''sessions.set_model'', Some scope_write), (''sessions.set_mode'', Some scope_write),
    (''sessions.reset'', Some scope_write), (''sessions.subscribe'', Some scope_write),
    (''sessions.unsubscribe'', Some scope_write), (''subscribe'', Some scope_write),
    (''unsubscribe'', Some scope_write), (''subscribe_all'', Some scope_write),
    (''permissions.request_macos_accessibility'', Some scope_write), (''commands.execute'', Some scope_write),
    (''config.set'', Some scope_write), (''tasks.schedule'', Some scope_write),
    (''tasks.delete'', Some scope_write), (''tasks.enable'', Some scope_write),
    (''tasks.disable'', Some scope_write), (''mcp.add'', Some scope_write), (''mcp.remove'', Some scope_write),
    (''mcp.connect'', Some scope_write), (''mcp.disconnect'', Some scope_write),
    (''mcp.auth_cancel'', Some scope_write), (''device.permission.request'', Some scope_write),
    (''device.adb.pair'', Some scope_write), (''device.shortcut.run'', Some scope_write),
    (''device.pairing.pending'', Some scope_write), (''device.pairing.authorized'', Some scope_write),
    (''device.pairing.qr'', Some scope_write), (''device.pairing.setup'', Some scope_write),
    (''device.pairing.approve'', Some scope_write), (''device.pairing.reject'', Some scope_write),
    (''device.pairing.revoke'', Some scope_write), (''models.fetch_remote'', Some scope_write),
    (''models.add'', Some scope_write), (''models.remove'', Some scope_write),
    (''models.set_default'', Some scope_write), (''skills.install'', Some scope_write),
    (''skills.install_source'', Some scope_write), (''mcp.call_tool'', Some scope_write),
    (''system.reload'', Some scope_write), (''channels.enable'', Some scope_write),
    (''channels.disable'', Some scope_write), (''agents.update'', Some scope_write),
    (''agents.default'', Some scope_write), (''agents.memory.clear'', Some scope_write),
    (''agents.import'', Some scope_write), (''security.gate.set'', Some scope_write),
    (''security.gate.clear'', Some scope_write), (''security.allowlist.add'', Some scope_write),
    (''security.allowlist.remove'', Some scope_write), (''approvals.approve'', Some scope_write),
    (''approvals.deny'', Some scope_write), (''memory.add'', Some scope_write),
    (''mention.policy.set'', Some scope_write), (''mention.allowlist.add'', Some scope_write),
    (''mention.allowlist.remove'', Some scope_write), (''mention.blocklist.add'', Some scope_write),
    (''mention.blocklist.remove'', Some scope_write), (''auth_profiles.rotate'', Some scope_write),
    (''eval.optimizer.run'', Some scope_write), (''eval.optimizer.resume'', Some scope_write),
    (''eval.optimizer.rollback'', Some scope_write), (''eval.propose'', Some scope_write),
    (''connectors.install'', Some scope_write), (''connectors.enable'', Some scope_write),
    (''connectors.disable'', Some scope_write), (''connectors.uninstall'', Some scope_write),
    (''connectors.catalog_install'', Some scope_write), (''onboarding.apply'', Some scope_write),
    (''cloud.token'', Some scope_write), (''cloud.logout'', Some scope_write),
    (''update.trigger'', Some scope_write), (''plugins.enable'', Some scope_write),
    (''plugins.disable'', Some scope_write), (''plugins.sign'', Some scope_write),
    (''plugins.unload'', Some scope_write), (''plugins.reload'', Some scope_write),
    (''plugins.reload_all'', Some scope_write), (''plugins.uninstall'', Some scope_write),
    (''plugins.pin'', Some scope_write), (''plugins.rollback'', Some scope_write),
    (''providers.enable'', Some scope_write), (''providers.disable'', Some scope_write),
    (''providers.check'', Some scope_write), (''providers.switch'', Some scope_write),
    (''providers.auth_start'', Some scope_write), (''providers.auth_cancel'', Some scope_write),
    (''cron.enable'', Some scope_write), (''cron.disable'', Some scope_write), (''cron.run'', Some scope_write),
    (''cron.add'', Some scope_write), (''cron.remove'', Some scope_write), (''skills.enable'', Some scope_write),
    (''skills.disable'', Some scope_write), (''skills.uninstall'', Some scope_write),
    (''skills.run'', Some scope_write), (''skills.pin'', Some scope_write),
    (''skills.rollback'', Some scope_write), (''skills.archive'', Some scope_write),
    (''skills.restore'', Some scope_write), (''kb.ingest'', Some scope_write),
    (''kb.delete_doc'', Some scope_write), (''cloud.kb.create'', Some scope_write),
    (''cloud.kb.delete'', Some scope_write), (''cloud.kb.upload'', Some scope_write),
    (''cloud.kb.push'', Some scope_write), (''cloud.kb.pull'', Some scope_write),
    (''cloud.credits.daily_claim'', Some scope_write), (''cloud.credits.signup_claim'', Some scope_write),
    (''cloud.credits.invite_redeem'', Some scope_write), (''acp.spawn'', Some scope_acp),
    (''acp.terminate'', Some scope_acp), (''acp.message'', Some scope_acp), (''acp.pause'', Some scope_acp),
    (''acp.resume'', Some scope_acp), (''acp.step'', Some scope_acp), (''acp.cancel'', Some scope_acp),
    (''acp.execute.session'', Some scope_acp), (''acp.execute.run'', Some scope_acp),
    (''acp.list'', Some scope_read), (''acp.status'', Some scope_read), (''acp.tree'', Some scope_read),
    (''connect'', None), (''ping'', None)]"

definition method_scope :: "string \<Rightarrow> string option" where
  "method_scope m = (case map_of method_scopes m of Some scope \<Rightarrow> scope | None \<Rightarrow> Some scope_admin)"

definition scopes_allow :: "string list \<Rightarrow> string \<Rightarrow> bool" where
  "scopes_allow granted m =
     (if scope_admin \<in> set granted then True
      else case method_scope m of Some required \<Rightarrow> required \<in> set granted | None \<Rightarrow> True)"

datatype auth_mode = Auth_None | Auth_Token | Auth_Device | Auth_Tailscale

section \<open>Connections\<close>

record protocol_connection =
  pc_handshaked :: bool
  pc_scopes :: "string list"
  pc_user_id :: "string option"
  pc_client :: "string option"
  pc_subscriptions :: "string list"
  pc_seq :: nat
  pc_conn_id :: string

definition new_connection :: "string \<Rightarrow> protocol_connection" where
  "new_connection conn_id =
     \<lparr>pc_handshaked = False, pc_scopes = default_scopes, pc_user_id = None, pc_client = None, pc_subscriptions = [],
      pc_seq = 0, pc_conn_id = conn_id\<rparr>"

definition is_subscribed :: "protocol_connection \<Rightarrow> string \<Rightarrow> bool" where
  "is_subscribed c sid \<longleftrightarrow> pc_subscriptions c = [] \<or> sid \<in> set (pc_subscriptions c)"

definition next_seq :: "protocol_connection \<Rightarrow> nat \<times> protocol_connection" where
  "next_seq c = (Suc (pc_seq c), c\<lparr>pc_seq := Suc (pc_seq c)\<rparr>)"

fun add_subscriptions :: "string list \<Rightarrow> string list \<Rightarrow> string list" where
  "add_subscriptions [] subs = subs"
| "add_subscriptions (i # ids) subs = add_subscriptions ids (if i \<in> set subs then subs else subs @ [i])"

section \<open>Events\<close>

datatype gateway_event =
    Ev_Message_Received | Ev_Device_Pair_Requested | Ev_Approval_Required "string option"
  | Ev_Agent_Response string | Ev_Thinking string | Ev_Content_Delta string | Ev_Tool_Calling string |
    Ev_Tool_Result string | Ev_Completed string | Ev_Processing_Error string | Ev_Goal_Progress string |
    Ev_Session_Created string | Ev_Session_Renamed string | Ev_Session_Pinned string |
    Ev_Session_Model_Changed string | Ev_Session_Mode_Changed string | Ev_Acp_Spawned string |
    Ev_Acp_Completed string | Ev_Acp_Status_Changed string | Ev_Acp_Recovered string | Ev_Agent_Usage string |
    Ev_Delegation_Task_Updated string | Ev_Ask_Required string | Ev_Ask_Resolved string
  | Ev_Agent_Status | Ev_Channel_Status | Ev_Cron_Announce | Ev_Repair_Action | Ev_Device_Status_Changed |
    Ev_Connector_Changed string | Ev_Mcp_Connected | Ev_Mcp_Disconnected | Ev_Mcp_Recovered |
    Ev_Mcp_Resource_Changed | Ev_Mcp_Auth_Required | Ev_Mcp_Auth_Complete | Ev_Mcp_Auth_Failed |
    Ev_Mcp_Token_Refreshed | Ev_Provider_Auth_Complete | Ev_Provider_Auth_Failed | Ev_Acp_Thread_Switched

datatype audience = Aud_All | Aud_Session string | Aud_Pairing | Aud_Channel

fun audience_of :: "gateway_event \<Rightarrow> audience" where
  "audience_of Ev_Device_Pair_Requested = Aud_Pairing"
| "audience_of Ev_Message_Received = Aud_Channel"
| "audience_of (Ev_Approval_Required (Some sid)) = Aud_Session sid"
| "audience_of (Ev_Approval_Required None) = Aud_All"
| "audience_of (Ev_Agent_Response sid) = Aud_Session sid"
| "audience_of (Ev_Thinking sid) = Aud_Session sid"
| "audience_of (Ev_Content_Delta sid) = Aud_Session sid"
| "audience_of (Ev_Tool_Calling sid) = Aud_Session sid"
| "audience_of (Ev_Tool_Result sid) = Aud_Session sid"
| "audience_of (Ev_Completed sid) = Aud_Session sid"
| "audience_of (Ev_Processing_Error sid) = Aud_Session sid"
| "audience_of (Ev_Goal_Progress sid) = Aud_Session sid"
| "audience_of (Ev_Session_Created sid) = Aud_Session sid"
| "audience_of (Ev_Session_Renamed sid) = Aud_Session sid"
| "audience_of (Ev_Session_Pinned sid) = Aud_Session sid"
| "audience_of (Ev_Session_Model_Changed sid) = Aud_Session sid"
| "audience_of (Ev_Session_Mode_Changed sid) = Aud_Session sid"
| "audience_of (Ev_Acp_Spawned sid) = Aud_Session sid"
| "audience_of (Ev_Acp_Completed sid) = Aud_Session sid"
| "audience_of (Ev_Acp_Status_Changed sid) = Aud_Session sid"
| "audience_of (Ev_Acp_Recovered sid) = Aud_Session sid"
| "audience_of (Ev_Agent_Usage sid) = Aud_Session sid"
| "audience_of (Ev_Delegation_Task_Updated sid) = Aud_Session sid"
| "audience_of (Ev_Ask_Required sid) = Aud_Session sid"
| "audience_of (Ev_Ask_Resolved sid) = Aud_Session sid"
| "audience_of Ev_Agent_Status = Aud_All"
| "audience_of Ev_Channel_Status = Aud_All"
| "audience_of Ev_Cron_Announce = Aud_All"
| "audience_of Ev_Repair_Action = Aud_All"
| "audience_of Ev_Device_Status_Changed = Aud_All"
| "audience_of (Ev_Connector_Changed _) = Aud_All"
| "audience_of Ev_Mcp_Connected = Aud_All"
| "audience_of Ev_Mcp_Disconnected = Aud_All"
| "audience_of Ev_Mcp_Recovered = Aud_All"
| "audience_of Ev_Mcp_Resource_Changed = Aud_All"
| "audience_of Ev_Mcp_Auth_Required = Aud_All"
| "audience_of Ev_Mcp_Auth_Complete = Aud_All"
| "audience_of Ev_Mcp_Auth_Failed = Aud_All"
| "audience_of Ev_Mcp_Token_Refreshed = Aud_All"
| "audience_of Ev_Provider_Auth_Complete = Aud_All"
| "audience_of Ev_Provider_Auth_Failed = Aud_All"
| "audience_of Ev_Acp_Thread_Switched = Aud_All"

fun gateway_event_to_ws :: "gateway_event \<Rightarrow> string option" where
  "gateway_event_to_ws Ev_Device_Pair_Requested = Some ''device.pair.requested''"
| "gateway_event_to_ws Ev_Message_Received = Some ''message.received''"
| "gateway_event_to_ws (Ev_Approval_Required _) = Some ''approval.required''"
| "gateway_event_to_ws (Ev_Agent_Response _) = None"
| "gateway_event_to_ws (Ev_Thinking _) = Some ''agent.thinking''"
| "gateway_event_to_ws (Ev_Content_Delta _) = Some ''chat.delta''"
| "gateway_event_to_ws (Ev_Tool_Calling _) = Some ''tool.calling''"
| "gateway_event_to_ws (Ev_Tool_Result _) = Some ''tool.result''"
| "gateway_event_to_ws (Ev_Completed _) = Some ''chat.final''"
| "gateway_event_to_ws (Ev_Processing_Error _) = Some ''chat.error''"
| "gateway_event_to_ws (Ev_Goal_Progress _) = Some ''goal.progress''"
| "gateway_event_to_ws (Ev_Session_Created _) = Some ''session.created''"
| "gateway_event_to_ws (Ev_Session_Renamed _) = Some ''session.renamed''"
| "gateway_event_to_ws (Ev_Session_Pinned _) = Some ''session.pinned''"
| "gateway_event_to_ws (Ev_Session_Model_Changed _) = Some ''session.model_changed''"
| "gateway_event_to_ws (Ev_Session_Mode_Changed _) = Some ''session.mode_changed''"
| "gateway_event_to_ws (Ev_Acp_Spawned _) = Some ''acp.spawned''"
| "gateway_event_to_ws (Ev_Acp_Completed _) = Some ''acp.completed''"
| "gateway_event_to_ws (Ev_Acp_Status_Changed _) = Some ''acp.status_changed''"
| "gateway_event_to_ws (Ev_Acp_Recovered _) = Some ''acp.recovered''"
| "gateway_event_to_ws (Ev_Agent_Usage _) = Some ''agent.usage''"
| "gateway_event_to_ws (Ev_Delegation_Task_Updated _) = Some ''delegation.updated''"
| "gateway_event_to_ws (Ev_Ask_Required _) = Some ''ask.required''"
| "gateway_event_to_ws (Ev_Ask_Resolved _) = Some ''ask.resolved''"
| "gateway_event_to_ws Ev_Agent_Status = Some ''agent.status''"
| "gateway_event_to_ws Ev_Channel_Status = Some ''channel.status''"
| "gateway_event_to_ws Ev_Cron_Announce = Some ''cron.completed''"
| "gateway_event_to_ws Ev_Repair_Action = Some ''repair.action''"
| "gateway_event_to_ws Ev_Device_Status_Changed = Some ''device.status_changed''"
| "gateway_event_to_ws (Ev_Connector_Changed state) = Some
     (if state = ''installed'' then ''connector.installed''
      else if state = ''enabled'' then ''connector.enabled''
      else if state = ''disabled'' then ''connector.disabled''
      else if state = ''uninstalled'' then ''connector.uninstalled''
      else if state = ''error'' then ''connector.error''
      else ''connector.updated'')"
| "gateway_event_to_ws Ev_Mcp_Connected = Some ''mcp.connected''"
| "gateway_event_to_ws Ev_Mcp_Disconnected = Some ''mcp.disconnected''"
| "gateway_event_to_ws Ev_Mcp_Recovered = Some ''mcp.recovered''"
| "gateway_event_to_ws Ev_Mcp_Resource_Changed = Some ''mcp.resource_changed''"
| "gateway_event_to_ws Ev_Mcp_Auth_Required = Some ''mcp.auth_required''"
| "gateway_event_to_ws Ev_Mcp_Auth_Complete = Some ''mcp.auth_complete''"
| "gateway_event_to_ws Ev_Mcp_Auth_Failed = Some ''mcp.auth_failed''"
| "gateway_event_to_ws Ev_Mcp_Token_Refreshed = Some ''mcp.token_refreshed''"
| "gateway_event_to_ws Ev_Provider_Auth_Complete = Some ''providers.auth_complete''"
| "gateway_event_to_ws Ev_Provider_Auth_Failed = Some ''providers.auth_failed''"
| "gateway_event_to_ws Ev_Acp_Thread_Switched = Some ''acp.thread_switched''"

definition should_send :: "protocol_connection \<Rightarrow> gateway_event \<Rightarrow> bool" where
  "should_send c e =
     (case audience_of e of
        Aud_All \<Rightarrow> True
      | Aud_Session sid \<Rightarrow> is_subscribed c sid
      | Aud_Pairing \<Rightarrow> list_ex (\<lambda>s. s = scope_pairing \<or> s = scope_admin) (pc_scopes c)
      | Aud_Channel \<Rightarrow> list_ex (\<lambda>s. s = scope_write \<or> s = scope_admin) (pc_scopes c))"

section \<open>The sending task\<close>

text \<open>What the task takes from its two channels, and what it writes to the socket.\<close>

datatype send_input =
    In_Event gateway_event
  | In_Lagged nat
  | In_Closed
  | In_Response string
  | In_Subscribe "string list"
  | In_Unsubscribe "string list"

datatype out_frame =
    Out_Event string nat
  | Out_Response string

text \<open>One turn of the loop; the flag says whether the loop goes on.\<close>

definition send_turn :: "send_input \<Rightarrow> protocol_connection \<Rightarrow> out_frame list \<times> bool \<times> protocol_connection" where
  "send_turn i c =
     (case i of
        In_Event e \<Rightarrow>
          if \<not> pc_handshaked c then ([], True, c)
          else if \<not> should_send c e then ([], True, c)
          else (case gateway_event_to_ws e of
                  Some name \<Rightarrow> (case next_seq c of (seq, c1) \<Rightarrow> ([Out_Event name seq], True, c1))
                | None \<Rightarrow> ([], True, c))
      | In_Lagged missed \<Rightarrow>
          if pc_handshaked c then (case next_seq c of (seq, c1) \<Rightarrow> ([Out_Event ''stream.lagged'' seq], False, c1))
          else ([], False, c)
      | In_Closed \<Rightarrow> ([], False, c)
      | In_Response t \<Rightarrow> ([Out_Response t], True, c)
      | In_Subscribe ids \<Rightarrow> ([], True, c\<lparr>pc_subscriptions := add_subscriptions ids (pc_subscriptions c)\<rparr>)
      | In_Unsubscribe ids \<Rightarrow>
          ([], True, c\<lparr>pc_subscriptions := filter (\<lambda>s. s \<notin> set ids) (pc_subscriptions c)\<rparr>))"

fun send_loop :: "send_input list \<Rightarrow> protocol_connection \<Rightarrow> out_frame list \<times> protocol_connection" where
  "send_loop [] c = ([], c)"
| "send_loop (i # is) c =
     (case send_turn i c of (out, go_on, c1) \<Rightarrow>
        if go_on then (case send_loop is c1 of (outs, c2) \<Rightarrow> (out @ outs, c2)) else (out, c1))"

section \<open>Laws\<close>

lemma set_resolve_scopes: "set (resolve_scopes e r) = (if r = [] then set e else set e \<inter> set r)"
  by (auto simp: resolve_scopes_def)

lemma table_scopes:
  "list_all (\<lambda>(m, sc). case sc of None \<Rightarrow> m = ''connect'' \<or> m = ''ping'' | Some s \<Rightarrow> s \<in> set all_scopes) method_scopes"
  by code_simp

lemma table_open: "map_of method_scopes ''connect'' = Some None" "map_of method_scopes ''ping'' = Some None"
  by code_simp+

lemma method_scope_None: "method_scope m = None \<longleftrightarrow> m = ''connect'' \<or> m = ''ping''"
proof
  assume "method_scope m = None"
  then have "(m, None) \<in> set method_scopes"
    by (auto simp: method_scope_def split: option.splits dest: map_of_SomeD)
  then show "m = ''connect'' \<or> m = ''ping''" using table_scopes by (auto simp: list_all_iff)
qed (auto simp: method_scope_def table_open)

lemma table_scope_known: "map_of method_scopes m = Some (Some s) \<Longrightarrow> s \<in> set all_scopes"
  using table_scopes by (auto simp: list_all_iff dest!: map_of_SomeD)

text \<open>The scopes of a connection never change while its events are sent; its numbers only grow.\<close>

lemma send_turn_keeps:
  "send_turn i c = (out, go, c1) \<Longrightarrow> pc_scopes c1 = pc_scopes c \<and> pc_handshaked c1 = pc_handshaked c"
  by (auto simp: send_turn_def next_seq_def split: send_input.splits if_splits option.splits)

definition event_frames :: "out_frame list \<Rightarrow> (string \<times> nat) list" where
  "event_frames fs = List.map_filter (\<lambda>f. case f of Out_Event n q \<Rightarrow> Some (n, q) | Out_Response _ \<Rightarrow> None) fs"

lemma event_frames_simps [simp]:
  "event_frames [] = []" "event_frames (Out_Event n q # fs) = (n, q) # event_frames fs"
  "event_frames (Out_Response t # fs) = event_frames fs" "event_frames (fs @ gs) = event_frames fs @ event_frames gs"
  by (simp_all add: event_frames_def map_filter_def)

lemma send_turn_numbers:
  "send_turn i c = (out, go, c1) \<Longrightarrow>
   map snd (event_frames out) = [Suc (pc_seq c)..<Suc (pc_seq c1)] \<and> pc_seq c \<le> pc_seq c1"
  by (auto simp: send_turn_def next_seq_def split: send_input.splits if_splits option.splits)

lemma send_loop_numbers:
  "send_loop is c = (fs, c') \<Longrightarrow>
   map snd (event_frames fs) = [Suc (pc_seq c)..<Suc (pc_seq c')] \<and> pc_seq c \<le> pc_seq c'"
proof (induction "is" arbitrary: c fs c')
  case (Cons i "is")
  obtain out go c1 where t: "send_turn i c = (out, go, c1)" by (cases "send_turn i c") auto
  note n1 = send_turn_numbers [OF t]
  show ?case
  proof (cases go)
    case True
    obtain outs c2 where l: "send_loop is c1 = (outs, c2)" by fastforce
    with True t Cons.prems have "fs = out @ outs" "c' = c2" by auto
    with n1 Cons.IH [OF l] show ?thesis
      using upt_add_eq_append [of "Suc (pc_seq c)" "Suc (pc_seq c1)" "pc_seq c2 - pc_seq c1"] by simp
  next
    case False
    with t Cons.prems have "fs = out" "c' = c1" by auto
    with n1 show ?thesis by simp
  qed
qed simp

text \<open>The audience of the two kinds of events that need a scope, by the name of the frame.\<close>

lemma event_name_audience:
  "gateway_event_to_ws e = Some ''device.pair.requested'' \<Longrightarrow> audience_of e = Aud_Pairing"
  "gateway_event_to_ws e = Some ''message.received'' \<Longrightarrow> audience_of e = Aud_Channel"
  by (induction e rule: gateway_event_to_ws.induct; simp split: if_splits)+

lemma send_turn_audience:
  assumes "send_turn i c = (out, go, c1)" and "(name, q) \<in> set (event_frames out)"
  shows "pc_handshaked c"
    and "name = ''device.pair.requested'' \<Longrightarrow> scope_pairing \<in> set (pc_scopes c) \<or> scope_admin \<in> set (pc_scopes c)"
    and "name = ''message.received'' \<Longrightarrow> scope_write \<in> set (pc_scopes c) \<or> scope_admin \<in> set (pc_scopes c)"
  using assms event_name_audience
  by (auto simp: send_turn_def next_seq_def should_send_def list_ex_iff split: send_input.splits if_splits option.splits)

lemma send_loop_audience:
  assumes "(name, q) \<in> set (event_frames (fst (send_loop is c)))"
  shows "pc_handshaked c"
    and "name = ''device.pair.requested'' \<Longrightarrow> scope_pairing \<in> set (pc_scopes c) \<or> scope_admin \<in> set (pc_scopes c)"
    and "name = ''message.received'' \<Longrightarrow> scope_write \<in> set (pc_scopes c) \<or> scope_admin \<in> set (pc_scopes c)"
proof -
  have "\<exists>i c2 out go c1. send_turn i c2 = (out, go, c1) \<and> (name, q) \<in> set (event_frames out) \<and>
      pc_scopes c2 = pc_scopes c \<and> pc_handshaked c2 = pc_handshaked c"
    using assms
  proof (induction "is" arbitrary: c)
    case (Cons i "is")
    obtain out go c1 where t: "send_turn i c = (out, go, c1)" by (cases "send_turn i c") auto
    show ?case
    proof (cases "(name, q) \<in> set (event_frames out)")
      case True
      with t show ?thesis by blast
    next
      case False
      with t Cons.prems have "(name, q) \<in> set (event_frames (fst (send_loop is c1)))"
        by (auto split: if_splits prod.splits)
      from Cons.IH [OF this] show ?thesis using send_turn_keeps [OF t] by auto
    qed
  qed simp
  then obtain i c2 out go c1 where t: "send_turn i c2 = (out, go, c1)" "(name, q) \<in> set (event_frames out)"
    "pc_scopes c2 = pc_scopes c" "pc_handshaked c2 = pc_handshaked c" by blast
  note send_turn_audience [OF t(1,2)]
  with t(3,4) show "pc_handshaked c"
    "name = ''device.pair.requested'' \<Longrightarrow> scope_pairing \<in> set (pc_scopes c) \<or> scope_admin \<in> set (pc_scopes c)"
    "name = ''message.received'' \<Longrightarrow> scope_write \<in> set (pc_scopes c) \<or> scope_admin \<in> set (pc_scopes c)"
    by auto
qed

section \<open>Properties\<close>

text \<open>A request passes the scope check exactly when the connection holds admin, or the method is connect or ping, or
  the table gives the method a scope that the connection holds. A name that is not in the table needs admin.
\<close>

theorem scope_check_exact:
  "scopes_allow granted m \<longleftrightarrow>
     scope_admin \<in> set granted \<or> m = ''connect'' \<or> m = ''ping'' \<or>
     (\<exists>s. map_of method_scopes m = Some (Some s) \<and> s \<in> set granted)"
proof (cases "map_of method_scopes m")
  case None
  then have "m \<noteq> ''connect''" "m \<noteq> ''ping''" using table_open by auto
  with None show ?thesis by (simp add: scopes_allow_def method_scope_def)
next
  case (Some sc)
  show ?thesis
  proof (cases sc)
    case None
    with Some have "method_scope m = None" by (simp add: method_scope_def)
    then show ?thesis using method_scope_None [of m] by (auto simp: scopes_allow_def)
  next
    case (Some s)
    with \<open>map_of method_scopes m = Some sc\<close> have "method_scope m = Some s" by (simp add: method_scope_def)
    moreover then have "m \<noteq> ''connect''" "m \<noteq> ''ping''" using method_scope_None [of m] by auto
    ultimately show ?thesis using Some \<open>map_of method_scopes m = Some sc\<close> by (simp add: scopes_allow_def)
  qed
qed

text \<open>Events keep their order: whatever the sending task receives, the events it writes are numbered consecutively from
  the number after the last one, and the connection remembers exactly how far it came.
\<close>

theorem event_numbers_gapless:
  "map snd (event_frames (fst (send_loop is c))) = [Suc (pc_seq c)..<Suc (pc_seq (snd (send_loop is c)))]"
proof -
  obtain fs c' where "send_loop is c = (fs, c')" by fastforce
  with send_loop_numbers [OF this] show ?thesis by simp
qed


definition chat_connection :: protocol_connection where
  "chat_connection = (new_connection ''c1'')\<lparr>pc_handshaked := True\<rparr>"


section \<open>Where the code departs from its documentation\<close>

text \<open>
  No subscription means every session: a client that subscribed to one session and unsubscribes from it again receives
  the events of all of them.
\<close>

lemma unsubscribing_widens:
  "event_frames (fst (send_loop [In_Subscribe [''s1''], In_Event (Ev_Content_Delta ''s2'')] chat_connection)) = []
   \<and> event_frames (fst (send_loop [In_Subscribe [''s1''], In_Unsubscribe [''s1''], In_Event (Ev_Content_Delta ''s2'')]
       chat_connection)) = [(''chat.delta'', 1)]"
  by code_simp

end
