(* ===== verification/Ws_Entry.thy ===== *)
theory Ws_Entry
  imports Tool_Spill
begin

text \<open>
  What stands before a web-socket connection: the check of the \<open>Origin\<close> and \<open>Host\<close> headers
  (\<open>gateway/auth/ws_origin.rs\<close>), the single-use tickets (\<open>gateway/ws/tickets.rs\<close>) and the cap on connections
  (\<open>try_take_connection_slot\<close> in \<open>gateway/ws/core.rs\<close>). A header is its text, \<open>None\<close> where it is absent or not
  readable. Times are nanoseconds; the names of tickets are arguments.
\<close>

declare map_of_eq_Some_iff [simp del]

section \<open>Origin and host\<close>

definition tauri_origins :: "string list" where
  "tauri_origins = [''tauri://localhost'', ''http://tauri.localhost'', ''https://tauri.localhost'']"

definition local_origins :: "nat \<Rightarrow> string list" where
  "local_origins port =
     concat (map (\<lambda>scheme. map (\<lambda>host. scheme @ ''://'' @ host @ '':'' @ show_nat port)
       [''localhost'', ''127.0.0.1'', ''[::1]'']) [''http'', ''https''])"

definition origin_allowed :: "string \<Rightarrow> nat \<Rightarrow> string list \<Rightarrow> bool" where
  "origin_allowed origin port extra =
     (if list_ex (\<lambda>o'. o' = origin) extra then True
      else if origin \<in> set tauri_origins then True
      else list_ex (\<lambda>o'. o' = origin) (local_origins port))"

fun split_once_str :: "string \<Rightarrow> string \<Rightarrow> (string \<times> string) option" where
  "split_once_str sep s =
     (case find_str s sep of None \<Rightarrow> None | Some i \<Rightarrow> Some (take i s, drop (i + length sep) s))"

declare split_once_str.simps [simp del]

definition trim_end_slashes :: "string \<Rightarrow> string" where
  "trim_end_slashes s = rev (dropWhile (\<lambda>c. c = CHR ''/'') (rev s))"

text \<open>\<open>eq_ignore_ascii_case\<close> compares these.\<close>

definition low :: "char \<Rightarrow> char" where
  "low c = (if of_char c \<in> {65..90 :: nat} then char_of (of_char c + 32 :: nat) else c)"

definition ascii_lower :: "string \<Rightarrow> string" where
  "ascii_lower s = map low s"

definition origin_matches_host :: "string \<Rightarrow> string \<Rightarrow> bool" where
  "origin_matches_host origin host =
     (case split_once_str ''://'' origin of
        None \<Rightarrow> False
      | Some (_, authority) \<Rightarrow> ascii_lower (trim_end_slashes authority) = ascii_lower (trim host))"

definition split_host :: "string \<Rightarrow> (string \<times> string option) option" where
  "split_host header =
     (let host = trim header
      in if host = [] then None
         else case strip_prefix ''['' host of
             Some rest \<Rightarrow>
               (case split_once (CHR '']'') rest of
                  None \<Rightarrow> None
                | Some (name, tail) \<Rightarrow> Some (name, strip_prefix '':'' tail))
           | None \<Rightarrow>
               (case split_once (CHR '':'') host of
                  Some (name, port) \<Rightarrow> Some (name, Some port)
                | None \<Rightarrow> Some (host, None)))"

definition loopback_names :: "string list" where
  "loopback_names = [''localhost'', ''127.0.0.1'', ''::1'', ''[::1]'']"

definition host_allowed :: "string \<Rightarrow> bool \<Rightarrow> bool" where
  "host_allowed header loopback =
     (if \<not> loopback then True
      else case split_host header of None \<Rightarrow> False | Some (name, _) \<Rightarrow> name \<in> set loopback_names)"

definition is_loopback_bind :: "string \<Rightarrow> bool" where
  "is_loopback_bind host \<longleftrightarrow> host \<in> {''127.0.0.1'', ''localhost'', ''::1'', ''[::1]''}"

record upgrade_headers =
  uh_host :: "string option"
  uh_origin :: "string option"

definition check_upgrade :: "upgrade_headers \<Rightarrow> string \<Rightarrow> nat \<Rightarrow> string list \<Rightarrow> string + unit" where
  "check_upgrade hs bound_host port extra =
     (let loopback = is_loopback_bind bound_host;
          bad_host = (case uh_host hs of Some host \<Rightarrow> \<not> host_allowed host loopback | None \<Rightarrow> False)
      in if bad_host then Inl (''unexpected Host: '' @ the (uh_host hs))
         else case uh_origin hs of
             None \<Rightarrow> Inr ()
           | Some origin \<Rightarrow>
               let host = (case uh_host hs of Some host \<Rightarrow> host | None \<Rightarrow> [])
               in if \<not> origin_matches_host origin host \<and> \<not> origin_allowed origin port extra
                  then Inl (''origin not allowed: '' @ origin) else Inr ())"

section \<open>Tickets\<close>

definition ticket_ttl :: int where "ticket_ttl = 30000000000"

definition max_tickets :: nat where "max_tickets = 1024"

record ticket_grant =
  tg_user_id :: string
  tg_scopes :: "string list"
  tg_expires_at :: int

type_synonym ws_tickets = "(string \<times> ticket_grant) list"

fun closest_to_expiry :: "ws_tickets \<Rightarrow> string option" where
  "closest_to_expiry [] = None"
| "closest_to_expiry ((k, g) # ts) =
     (case closest_to_expiry ts of
        None \<Rightarrow> Some k
      | Some k' \<Rightarrow> (case map_of ts k' of
            Some g' \<Rightarrow> if tg_expires_at g \<le> tg_expires_at g' then Some k else Some k'
          | None \<Rightarrow> Some k))"

definition issue_ticket :: "int \<Rightarrow> string \<Rightarrow> string \<Rightarrow> string list \<Rightarrow> ws_tickets \<Rightarrow> ws_tickets" where
  "issue_ticket now ticket user scopes issued =
     (let kept = hm_retain (\<lambda>_ g. now < tg_expires_at g) issued;
          room = (if max_tickets \<le> length kept
                  then case closest_to_expiry kept of Some k \<Rightarrow> AList.delete k kept | None \<Rightarrow> kept
                  else kept)
      in AList.update ticket \<lparr>tg_user_id = user, tg_scopes = scopes, tg_expires_at = now + ticket_ttl\<rparr> room)"

definition consume_ticket :: "int \<Rightarrow> string \<Rightarrow> ws_tickets \<Rightarrow> ticket_grant option \<times> ws_tickets" where
  "consume_ticket now ticket issued =
     (case map_of issued ticket of
        None \<Rightarrow> (None, issued)
      | Some g \<Rightarrow> (if tg_expires_at g \<le> now then None else Some g, AList.delete ticket issued))"

definition outstanding :: "ws_tickets \<Rightarrow> nat" where
  "outstanding issued = length issued"

section \<open>The cap on connections\<close>

text \<open>
  Every upgrade counts itself, then looks at what it found: the two accesses of a task to the shared counter are steps of
  their own.
\<close>

datatype slot_phase = Slot_Idle | Slot_Counted nat | Slot_Held | Slot_Refused | Slot_Released

record slot_state =
  sl_active :: nat
  sl_tasks :: "slot_phase list"

inductive slot_step :: "nat \<Rightarrow> slot_state \<Rightarrow> slot_state \<Rightarrow> bool" for cap where
  slot_count: "i < length (sl_tasks s) \<Longrightarrow> sl_tasks s ! i = Slot_Idle \<Longrightarrow>
    slot_step cap s (s\<lparr>sl_active := sl_active s + 1, sl_tasks := (sl_tasks s)[i := Slot_Counted (sl_active s)]\<rparr>)"
| slot_refuse: "i < length (sl_tasks s) \<Longrightarrow> sl_tasks s ! i = Slot_Counted current \<Longrightarrow> cap \<le> current \<Longrightarrow>
    slot_step cap s (s\<lparr>sl_active := sl_active s - 1, sl_tasks := (sl_tasks s)[i := Slot_Refused]\<rparr>)"
| slot_hold: "i < length (sl_tasks s) \<Longrightarrow> sl_tasks s ! i = Slot_Counted current \<Longrightarrow> \<not> cap \<le> current \<Longrightarrow>
    slot_step cap s (s\<lparr>sl_tasks := (sl_tasks s)[i := Slot_Held]\<rparr>)"
| slot_release: "i < length (sl_tasks s) \<Longrightarrow> sl_tasks s ! i = Slot_Held \<Longrightarrow>
    slot_step cap s (s\<lparr>sl_active := sl_active s - 1, sl_tasks := (sl_tasks s)[i := Slot_Released]\<rparr>)"

section \<open>Laws of the header check\<close>

lemma low_eq: "of_char d \<notin> {65..90 :: nat} \<Longrightarrow> of_char d \<notin> {97..122 :: nat} \<Longrightarrow> low c = d \<longleftrightarrow> c = d"
proof -
  assume d: "of_char d \<notin> {65..90 :: nat}" "of_char d \<notin> {97..122 :: nat}"
  show ?thesis
  proof (cases "of_char c \<in> {65..90 :: nat}")
    case True
    then have "of_char (low c) = (of_char c :: nat) + 32" by (simp add: low_def of_char_of)
    then have "of_char (low c) \<in> {97..122 :: nat}" using True by simp
    then show ?thesis using d True by auto
  qed (auto simp: low_def)
qed

lemma low_delims [simp]:
  "low c = CHR ''['' \<longleftrightarrow> c = CHR ''[''" "low c = CHR '']'' \<longleftrightarrow> c = CHR '']''" "low c = CHR '':'' \<longleftrightarrow> c = CHR '':''"
  by (rule low_eq; simp)+

lemma low_whitespace [simp]: "is_whitespace (low c) = is_whitespace c"
  unfolding is_whitespace_def by (simp add: low_eq)

lemma ascii_lower_trim: "trim (ascii_lower s) = ascii_lower (trim s)"
  by (simp add: trim_def trim_start_def trim_end_def ascii_lower_def dropWhile_map comp_def rev_map)

lemma split_once_map: "(\<And>x. f x = c \<longleftrightarrow> x = c) \<Longrightarrow> split_once c (map f s) = map_option (\<lambda>(a, b). (map f a, map f b)) (split_once c s)"
  by (induction s) (auto simp: option.map_comp comp_def case_prod_beta)

lemma strip_prefix_low:
  "strip_prefix ''['' (ascii_lower s) = map_option ascii_lower (strip_prefix ''['' s)"
  by (cases s) (simp_all add: strip_prefix_def starts_with_def ascii_lower_def)

lemma trim_trim [simp]: "trim (trim s) = trim s"
proof -
  have "trim_start (trim s) = trim s"
  proof (cases "trim s")
    case (Cons x xs)
    obtain w where w: "trim_start s = trim s @ w" using trim_end_prefix [of "trim_start s"] by (auto simp: trim_def)
    with Cons have "\<not> is_whitespace x" unfolding trim_start_def by (metis append_Cons hd_dropWhile list.distinct(1) list.sel(1))
    then show ?thesis using Cons by (simp add: trim_start_def)
  qed (simp add: trim_start_def)
  moreover have "trim_end (trim s) = trim s" by (simp add: trim_def trim_end_def)
  ultimately show ?thesis by (simp add: trim_def [of "trim s"])
qed

lemma split_host_lower:
  assumes "split_host h = Some (n, p)"
  shows "\<exists>p'. split_host (ascii_lower (trim h)) = Some (ascii_lower n, p')"
proof -
  let ?t = "trim h"
  have ne: "?t \<noteq> []" using assms by (auto simp: split_host_def)
  have once: "split_once c (ascii_lower x) = map_option (\<lambda>(a, b). (ascii_lower a, ascii_lower b)) (split_once c x)"
    if "c = CHR '']'' \<or> c = CHR '':''" for c x
    using that unfolding ascii_lower_def by (intro split_once_map) auto
  have e: "trim (ascii_lower ?t) = ascii_lower ?t" by (simp add: ascii_lower_trim)
  have ne': "ascii_lower ?t \<noteq> []" using ne by (simp add: ascii_lower_def)
  show ?thesis
  proof (cases "strip_prefix ''['' ?t")
    case None
    then show ?thesis using assms ne ne' e
      by (auto simp: split_host_def Let_def strip_prefix_low once split: option.splits)
  next
    case (Some rest)
    then show ?thesis using assms ne ne' e
      by (auto simp: split_host_def Let_def strip_prefix_low once split: option.splits)
  qed
qed

definition loopback_authority :: "string \<Rightarrow> bool" where
  "loopback_authority a \<longleftrightarrow> (case split_host (ascii_lower a) of Some (name, _) \<Rightarrow> name \<in> set loopback_names | None \<Rightarrow> False)"

lemma loopback_names_lower: "name \<in> set loopback_names \<Longrightarrow> ascii_lower name = name"
  by (auto simp: loopback_names_def ascii_lower_def low_def)

lemma same_host_is_loopback:
  assumes "host_allowed host True" and "ascii_lower a = ascii_lower (trim host)"
  shows "loopback_authority a"
proof -
  obtain name p where n: "split_host host = Some (name, p)" "name \<in> set loopback_names"
    using assms(1) by (auto simp: host_allowed_def split: option.splits)
  from split_host_lower [OF n(1)] obtain p' where "split_host (ascii_lower (trim host)) = Some (ascii_lower name, p')" by blast
  then show ?thesis using n(2) assms(2) loopback_names_lower by (simp add: loopback_authority_def)
qed

lemma split_once_str_eq: "split_once_str sep s = Some (a, b) \<Longrightarrow> s = a @ sep @ b"
proof -
  assume "split_once_str sep s = Some (a, b)"
  then obtain i where i: "find_str s sep = Some i" "a = take i s" "b = drop (i + length sep) s"
    by (auto simp: split_once_str.simps split: option.splits)
  obtain r where r: "s = take i s @ sep @ r" "i \<le> length s" using find_str_split [OF i(1)] by blast
  then have "drop (i + length sep) s = r"
    by (metis add_diff_cancel_left' append_eq_conv_conj drop_append drop_drop length_take min.absorb2 append_Nil drop_all order_refl)
  with i r show ?thesis by simp
qed

section \<open>Properties\<close>

text \<open>C29. No foreign page opens a connection to a gateway that listens on the loopback interface: an upgrade that names its
  origin and its host passes only if the host is a loopback name and the origin is configured, the desktop shell, the
  gateway's own, or names a loopback host itself.
\<close>

theorem foreign_origins_refused:
  assumes "is_loopback_bind bound" and "uh_host hs = Some host" and "uh_origin hs = Some origin"
    and "check_upgrade hs bound port extra = Inr ()"
  shows "host_allowed host True \<and>
    (origin \<in> set extra \<union> set tauri_origins \<union> set (local_origins port) \<or>
     (\<exists>scheme authority. origin = scheme @ ''://'' @ authority \<and> loopback_authority (trim_end_slashes authority)))"
proof -
  have h: "host_allowed host True" and o: "origin_matches_host origin host \<or> origin_allowed origin port extra"
    using assms by (auto simp: check_upgrade_def Let_def split: if_splits)
  from o show ?thesis
  proof
    assume "origin_matches_host origin host"
    then obtain scheme authority where a: "split_once_str ''://'' origin = Some (scheme, authority)"
        "ascii_lower (trim_end_slashes authority) = ascii_lower (trim host)"
      by (auto simp: origin_matches_host_def split: option.splits)
    from split_once_str_eq [OF a(1)] same_host_is_loopback [OF h a(2)] h show ?thesis by blast
  next
    assume "origin_allowed origin port extra"
    then show ?thesis using h by (auto simp: origin_allowed_def list_ex_iff split: if_splits)
  qed
qed

theorem foreign_origins_refused_witness:
  "check_upgrade \<lparr>uh_host = Some ''localhost:8'', uh_origin = Some ''http://LOCALHOST:8/''\<rparr> ''127.0.0.1'' 8 [] = Inr () \<and>
   check_upgrade \<lparr>uh_host = Some ''localhost:8'', uh_origin = Some ''http://evil.example''\<rparr> ''127.0.0.1'' 8 [] \<noteq> Inr () \<and>
   host_allowed ''localhost:8'' True"
proof -
  have ok: "check_upgrade \<lparr>uh_host = Some ''localhost:8'', uh_origin = Some ''http://LOCALHOST:8/''\<rparr>
      ''127.0.0.1'' 8 [] = Inr ()" by code_simp
  have "check_upgrade \<lparr>uh_host = Some ''localhost:8'', uh_origin = Some ''http://evil.example''\<rparr>
      ''127.0.0.1'' 8 [] \<noteq> Inr ()" by code_simp
  then show ?thesis
    using ok foreign_origins_refused [OF _ _ _ ok, of "''localhost:8''" "''http://LOCALHOST:8/''"]
    by (simp add: is_loopback_bind_def)
qed

section \<open>Laws of the tickets\<close>

text \<open>What happened to tickets: when one was issued, for whom and for what, and when one was accepted.\<close>

datatype ticket_event = Ticket_Issued string string "string list" int | Ticket_Used string ticket_grant int

record ticket_world =
  tw_issued :: ws_tickets
  tw_events :: "ticket_event list"
  tw_time :: int

definition issued_names :: "ticket_event list \<Rightarrow> string set" where
  "issued_names es = {t. \<exists>u sc at. Ticket_Issued t u sc at \<in> set es}"

definition used_names :: "ticket_event list \<Rightarrow> string set" where
  "used_names es = {t. \<exists>g at. Ticket_Used t g at \<in> set es}"

inductive ticket_step :: "ticket_world \<Rightarrow> ticket_world \<Rightarrow> bool" where
  tk_tick: "tw_time w \<le> t \<Longrightarrow> ticket_step w (w\<lparr>tw_time := t\<rparr>)"
| tk_issue: "name \<notin> issued_names (tw_events w) \<Longrightarrow>
    ticket_step w (w\<lparr>tw_issued := issue_ticket (tw_time w) name user scopes (tw_issued w),
      tw_events := tw_events w @ [Ticket_Issued name user scopes (tw_time w)]\<rparr>)"
| tk_use: "consume_ticket (tw_time w) name (tw_issued w) = (Some g, rest) \<Longrightarrow>
    ticket_step w (w\<lparr>tw_issued := rest, tw_events := tw_events w @ [Ticket_Used name g (tw_time w)]\<rparr>)"
| tk_refuse: "consume_ticket (tw_time w) name (tw_issued w) = (None, rest) \<Longrightarrow> ticket_step w (w\<lparr>tw_issued := rest\<rparr>)"

definition ticket_start :: "int \<Rightarrow> ticket_world" where
  "ticket_start t = \<lparr>tw_issued = [], tw_events = [], tw_time = t\<rparr>"

text \<open>An event of use is honest: the ticket was issued before, once, to this grant, not longer ago than the lifetime, and
  was not used before.\<close>

definition honest_use :: "ticket_event list \<Rightarrow> ticket_event \<Rightarrow> bool" where
  "honest_use before e =
     (case e of
        Ticket_Issued t u sc at \<Rightarrow> True
      | Ticket_Used t g at \<Rightarrow> t \<notin> used_names before \<and>
          (\<exists>at0. Ticket_Issued t (tg_user_id g) (tg_scopes g) at0 \<in> set before \<and> at0 \<le> at \<and> at < at0 + ticket_ttl))"

fun honest :: "ticket_event list \<Rightarrow> bool" where
  "honest [] = True"
| "honest (e # es) = (honest_use (rev es) e \<and> honest es)"

definition ticket_inv :: "ticket_world \<Rightarrow> bool" where
  "ticket_inv w \<longleftrightarrow>
     hm_ok (tw_issued w) \<and> length (tw_issued w) \<le> max_tickets \<and> honest (rev (tw_events w)) \<and>
     used_names (tw_events w) \<subseteq> issued_names (tw_events w) \<and>
     (\<forall>t g. map_of (tw_issued w) t = Some g \<longrightarrow> t \<notin> used_names (tw_events w) \<and>
        (\<exists>at0. Ticket_Issued t (tg_user_id g) (tg_scopes g) at0 \<in> set (tw_events w) \<and> at0 \<le> tw_time w \<and>
           tg_expires_at g = at0 + ticket_ttl))"

lemma names_snoc [simp]:
  "issued_names (es @ [Ticket_Issued t u sc at]) = insert t (issued_names es)"
  "issued_names (es @ [Ticket_Used t g at]) = issued_names es"
  "used_names (es @ [Ticket_Issued t u sc at]) = used_names es"
  "used_names (es @ [Ticket_Used t g at]) = insert t (used_names es)"
  by (auto simp: issued_names_def used_names_def)

lemma closest_in: "closest_to_expiry ts = Some k \<Longrightarrow> k \<in> hm_keys ts"
  by (induction ts arbitrary: k rule: closest_to_expiry.induct) (auto split: option.splits if_splits)

lemma closest_None: "closest_to_expiry ts = None \<longleftrightarrow> ts = []"
  by (cases ts rule: closest_to_expiry.cases) (auto split: option.splits)

lemma length_delete_key: "hm_ok m \<Longrightarrow> k \<in> hm_keys m \<Longrightarrow> length (AList.delete k m) = length m - 1"
proof (induction m)
  case (Cons a m)
  show ?case
  proof (cases "fst a = k")
    case True
    with Cons.prems have "k \<notin> hm_keys m" by auto
    then have "AList.delete k m = m" by (force simp: AList.delete_eq filter_id_conv)
    with True show ?thesis by (cases a) simp
  next
    case False
    with Cons.prems have k: "k \<in> hm_keys m" "hm_ok m" by auto
    then have "m \<noteq> []" by auto
    with Cons.IH [OF k(2) k(1)] False show ?thesis by (cases a) (simp add: Suc_diff_Suc length_greater_0_conv)
  qed
qed simp

lemma issue_ticket_shape:
  assumes "hm_ok issued" and "length issued \<le> max_tickets"
  shows "\<exists>room. issue_ticket now t u sc issued =
      AList.update t \<lparr>tg_user_id = u, tg_scopes = sc, tg_expires_at = now + ticket_ttl\<rparr> room \<and>
    hm_ok room \<and> length room < max_tickets \<and> (\<forall>k g. map_of room k = Some g \<longrightarrow> map_of issued k = Some g)"
proof -
  let ?kept = "hm_retain (\<lambda>_ g. now < tg_expires_at g) issued"
  have ok: "hm_ok ?kept" using assms(1) by simp
  have len: "length ?kept \<le> max_tickets" using assms(2) by (simp add: hm_retain_def) (meson length_filter_le order_trans)
  have sub: "map_of issued k = Some g" if "map_of ?kept k = Some g" for k g
    using that map_of_retain [OF assms(1)] by (auto split: option.splits if_splits)
  show ?thesis
  proof (cases "max_tickets \<le> length ?kept")
    case True
    then have "?kept \<noteq> []" by (auto simp: max_tickets_def)
    then obtain k where k: "closest_to_expiry ?kept = Some k" using closest_None by fastforce
    have "length (AList.delete k ?kept) < max_tickets"
      using length_delete_key [OF ok closest_in [OF k]] len by (simp add: max_tickets_def)
    with True k ok sub show ?thesis
      by (intro exI [of _ "AList.delete k ?kept"]) (auto simp: issue_ticket_def Let_def distinct_delete split: if_splits)
  next
    case False
    with ok sub show ?thesis by (intro exI [of _ ?kept]) (auto simp: issue_ticket_def Let_def)
  qed
qed

lemma ticket_step_inv: "ticket_step w w' \<Longrightarrow> ticket_inv w \<Longrightarrow> ticket_inv w'"
proof (induction rule: ticket_step.induct)
  case (tk_tick w t)
  then show ?case by (fastforce simp: ticket_inv_def)
next
  case (tk_issue name w user scopes)
  then obtain room where room: "issue_ticket (tw_time w) name user scopes (tw_issued w) =
      AList.update name \<lparr>tg_user_id = user, tg_scopes = scopes, tg_expires_at = tw_time w + ticket_ttl\<rparr> room"
    "hm_ok room" "length room < max_tickets" "\<And>k g. map_of room k = Some g \<Longrightarrow> map_of (tw_issued w) k = Some g"
    using issue_ticket_shape unfolding ticket_inv_def by meson
  have unused: "name \<notin> used_names (tw_events w)" using tk_issue by (auto simp: ticket_inv_def)
  have old: "t \<notin> used_names (tw_events w) \<and> (\<exists>at0. Ticket_Issued t (tg_user_id g) (tg_scopes g) at0 \<in> set (tw_events w) \<and>
      at0 \<le> tw_time w \<and> tg_expires_at g = at0 + ticket_ttl)" if "map_of room t = Some g" for t g
    using tk_issue.prems room(4) [OF that] by (simp add: ticket_inv_def)
  have "length (AList.update name x room) \<le> max_tickets" for x
    using length_update_le [of name x room] room(3) by simp
  then show ?case using tk_issue.prems room(1,2) unused old
    by (auto simp: ticket_inv_def distinct_update honest_use_def split: if_splits)
next
  case (tk_use w name g rest)
  then have g: "map_of (tw_issued w) name = Some g" "tw_time w < tg_expires_at g" "rest = AList.delete name (tw_issued w)"
    by (auto simp: consume_ticket_def split: option.splits if_splits)
  then have fresh: "name \<notin> used_names (tw_events w)" and
    iss: "\<exists>at0. Ticket_Issued name (tg_user_id g) (tg_scopes g) at0 \<in> set (tw_events w) \<and> at0 \<le> tw_time w \<and>
        tg_expires_at g = at0 + ticket_ttl"
    using tk_use.prems by (auto simp: ticket_inv_def)
  then have use: "honest_use (tw_events w) (Ticket_Used name g (tw_time w))" using g(2) by (auto simp: honest_use_def)
  have "name \<in> issued_names (tw_events w)" using iss by (auto simp: issued_names_def)
  moreover have "length rest \<le> max_tickets" using tk_use.prems g(3) length_delete_le [of name "tw_issued w"]
    by (simp add: ticket_inv_def)
  ultimately show ?case using tk_use.prems g use by (auto simp: ticket_inv_def distinct_delete)
next
  case (tk_refuse w name rest)
  then have "rest = tw_issued w \<or> rest = AList.delete name (tw_issued w)"
    by (auto simp: consume_ticket_def split: option.splits if_splits)
  moreover have "length (AList.delete name (tw_issued w)) \<le> max_tickets"
    using tk_refuse.prems length_delete_le [of name "tw_issued w"] by (simp add: ticket_inv_def)
  ultimately show ?case using tk_refuse.prems by (auto simp: ticket_inv_def distinct_delete split: if_splits)
qed

lemma ticket_reached_inv: "ticket_step\<^sup>*\<^sup>* (ticket_start t) w \<Longrightarrow> ticket_inv w"
proof (induction rule: rtranclp_induct)
  case base
  then show ?case by (simp add: ticket_inv_def ticket_start_def used_names_def)
next
  case (step y z)
  then show ?case using ticket_step_inv by blast
qed

text \<open>C30. Tickets hand over and never add. Whatever is issued and presented, every accepted ticket was issued before, to
  exactly that user with exactly those scopes, less than thirty seconds earlier, and had not been accepted before; and
  there are never more than 1024 tickets outstanding. Names of tickets are assumed not to repeat.
\<close>

theorem tickets_single_use:
  assumes "ticket_step\<^sup>*\<^sup>* (ticket_start t) w"
  shows "honest (rev (tw_events w)) \<and> outstanding (tw_issued w) \<le> max_tickets"
  using ticket_reached_inv [OF assms] by (simp add: ticket_inv_def outstanding_def)

definition minted :: ticket_world where
  "minted = \<lparr>tw_issued = issue_ticket 5 ''wst_1'' ''shared'' [''chat''] [], tw_events = [Ticket_Issued ''wst_1'' ''shared'' [''chat''] 5],
     tw_time = 5\<rparr>"

definition connected :: ticket_world where
  "connected = \<lparr>tw_issued = [], tw_events = [Ticket_Issued ''wst_1'' ''shared'' [''chat''] 5,
       Ticket_Used ''wst_1'' \<lparr>tg_user_id = ''shared'', tg_scopes = [''chat''], tg_expires_at = 5 + ticket_ttl\<rparr> 5], tw_time = 5\<rparr>"

lemma connected_reached: "ticket_step\<^sup>*\<^sup>* (ticket_start 5) connected"
proof -
  have "ticket_step (ticket_start 5) minted"
    using tk_issue [of "''wst_1''" "ticket_start 5" "''shared''" "[''chat'']"]
    by (simp add: ticket_start_def minted_def issued_names_def)
  moreover have "ticket_step minted connected"
    using tk_use [of minted "''wst_1''" "\<lparr>tg_user_id = ''shared'', tg_scopes = [''chat''], tg_expires_at = 5 + ticket_ttl\<rparr>" "[]"]
    by (simp add: minted_def connected_def consume_ticket_def issue_ticket_def hm_retain_def max_tickets_def ticket_ttl_def Let_def)
  ultimately show ?thesis by (rule converse_rtranclp_into_rtranclp [OF _ r_into_rtranclp])
qed

theorem tickets_single_use_witness:
  "honest (rev (tw_events connected)) \<and> outstanding (tw_issued connected) \<le> max_tickets"
  by (rule tickets_single_use [OF connected_reached])

text \<open>
  What the gateway relies on when it hands a credential over: a ticket presented within its lifetime yields what it was
  issued for, and a ticket that was presented yields nothing afterwards.
\<close>

locale ticket_office =
  fixes issue :: "int \<Rightarrow> string \<Rightarrow> string \<Rightarrow> string list \<Rightarrow> 'd \<Rightarrow> 'd"
    and redeem :: "int \<Rightarrow> string \<Rightarrow> 'd \<Rightarrow> ticket_grant option \<times> 'd"
    and lifetime :: int
  assumes redeem_issued: "now \<le> t \<Longrightarrow> t < now + lifetime \<Longrightarrow>
      fst (redeem t n (issue now n u sc d)) = Some \<lparr>tg_user_id = u, tg_scopes = sc, tg_expires_at = now + lifetime\<rparr>"
    and redeem_spent: "fst (redeem t' n (snd (redeem t n d))) = None"
begin

lemma handed_over_once:
  "now \<le> t \<Longrightarrow> t < now + lifetime \<Longrightarrow>
   map_option (\<lambda>g. (tg_user_id g, tg_scopes g)) (fst (redeem t n (issue now n u sc d))) = Some (u, sc) \<and>
   fst (redeem t' n (snd (redeem t n (issue now n u sc d)))) = None"
  by (simp add: redeem_issued redeem_spent)

end

interpretation ws_office: ticket_office issue_ticket consume_ticket ticket_ttl
proof
  fix now t :: int and n u :: string and sc :: "string list" and d :: ws_tickets
  assume "now \<le> t" "t < now + ticket_ttl"
  then show "fst (consume_ticket t n (issue_ticket now n u sc d)) =
      Some \<lparr>tg_user_id = u, tg_scopes = sc, tg_expires_at = now + ticket_ttl\<rparr>"
    by (simp add: issue_ticket_def consume_ticket_def Let_def)
next
  fix t t' :: int and n :: string and d :: ws_tickets
  show "fst (consume_ticket t' n (snd (consume_ticket t n d))) = None"
    by (simp add: consume_ticket_def split: option.split)
qed

section \<open>The cap on connections\<close>

definition holds :: "slot_phase \<Rightarrow> bool" where
  "holds p \<longleftrightarrow> p = Slot_Held"

fun counts :: "slot_phase \<Rightarrow> bool" where
  "counts (Slot_Counted _) = True"
| "counts Slot_Held = True"
| "counts _ = False"

text \<open>Tasks that hold a slot or will.\<close>

fun entitled_to_slot :: "nat \<Rightarrow> slot_phase \<Rightarrow> bool" where
  "entitled_to_slot cap (Slot_Counted c) = (c < cap)"
| "entitled_to_slot cap Slot_Held = True"
| "entitled_to_slot cap _ = False"

lemma count_update:
  "i < length xs \<Longrightarrow>
   length (filter P (xs[i := v])) + (if P (xs ! i) then 1 else 0) = length (filter P xs) + (if P v then 1 else 0)"
proof (induction xs arbitrary: i)
  case (Cons x xs)
  then show ?case by (cases i) auto
qed simp

definition slot_inv :: "nat \<Rightarrow> slot_state \<Rightarrow> bool" where
  "slot_inv cap s \<longleftrightarrow>
     sl_active s = length (filter counts (sl_tasks s)) \<and> length (filter (entitled_to_slot cap) (sl_tasks s)) \<le> cap"

lemma entitled_counts: "entitled_to_slot cap p \<Longrightarrow> counts p"
  by (cases p) auto

lemma entitled_le_counts: "length (filter (entitled_to_slot cap) xs) \<le> length (filter counts xs)"
  by (induction xs) (auto dest: entitled_counts)

lemma slot_step_inv: "slot_step cap s s' \<Longrightarrow> slot_inv cap s \<Longrightarrow> slot_inv cap s'"
proof (induction rule: slot_step.induct)
  case (slot_count i s)
  let ?new = "Slot_Counted (sl_active s)"
  note count_update [OF slot_count(1), of counts ?new] count_update [OF slot_count(1), of "entitled_to_slot cap" ?new]
  then show ?case using slot_count(2,3) entitled_le_counts [of cap "sl_tasks s"]
    by (auto simp: slot_inv_def split: if_splits)
next
  case (slot_refuse i s current)
  note count_update [OF slot_refuse(1), of counts Slot_Refused] count_update [OF slot_refuse(1), of "entitled_to_slot cap" Slot_Refused]
  then show ?case using slot_refuse(2-4) by (auto simp: slot_inv_def)
next
  case (slot_hold i s current)
  note count_update [OF slot_hold(1), of counts Slot_Held] count_update [OF slot_hold(1), of "entitled_to_slot cap" Slot_Held]
  then show ?case using slot_hold(2-4) by (auto simp: slot_inv_def)
next
  case (slot_release i s)
  note count_update [OF slot_release(1), of counts Slot_Released] count_update [OF slot_release(1), of "entitled_to_slot cap" Slot_Released]
  then show ?case using slot_release(2,3) by (auto simp: slot_inv_def)
qed

lemma holders_entitled: "length (filter holds xs) \<le> length (filter (entitled_to_slot cap) xs)"
  by (induction xs) (auto simp: holds_def)

text \<open>Under every interleaving of any number of upgrades, refusals and disconnects, no more connections hold a slot than
  the cap allows, and the shared counter is exactly the number of upgrades under way and slots held.
\<close>

theorem connections_within_cap:
  assumes "(slot_step cap)\<^sup>*\<^sup>* \<lparr>sl_active = 0, sl_tasks = replicate n Slot_Idle\<rparr> s"
  shows "length (filter holds (sl_tasks s)) \<le> cap \<and> sl_active s = length (filter counts (sl_tasks s))"
proof -
  have "slot_inv cap s"
    using assms
  proof (induction rule: rtranclp_induct)
    case (step y z)
    then show ?case using slot_step_inv by blast
  qed (simp add: slot_inv_def)
  then show ?thesis using holders_entitled [of "sl_tasks s" cap] by (simp add: slot_inv_def)
qed

theorem connections_within_cap_witness:
  "length (filter holds [Slot_Held]) \<le> 1 \<and> (1 :: nat) = length (filter counts [Slot_Held])"
proof -
  have "slot_step 1 \<lparr>sl_active = 0, sl_tasks = replicate 1 Slot_Idle\<rparr> \<lparr>sl_active = 1, sl_tasks = [Slot_Counted 0]\<rparr>"
    using slot_count [of 0 "\<lparr>sl_active = 0, sl_tasks = replicate 1 Slot_Idle\<rparr>" 1] by simp
  moreover have "slot_step 1 \<lparr>sl_active = 1, sl_tasks = [Slot_Counted 0]\<rparr> \<lparr>sl_active = 1, sl_tasks = [Slot_Held]\<rparr>"
    using slot_hold [of 0 "\<lparr>sl_active = 1, sl_tasks = [Slot_Counted 0]\<rparr>" 0 1] by simp
  ultimately have "(slot_step 1)\<^sup>*\<^sup>* \<lparr>sl_active = 0, sl_tasks = replicate 1 Slot_Idle\<rparr> \<lparr>sl_active = 1, sl_tasks = [Slot_Held]\<rparr>"
    by (rule converse_rtranclp_into_rtranclp [OF _ r_into_rtranclp])
  from connections_within_cap [OF this] show ?thesis by simp
qed

end
