(* ===== verification/Auth_Sessions.thy ===== *)
theory Auth_Sessions
  imports Audit_Log
begin

text \<open>
  Sessions of authenticated users: \<open>AuthManager\<close> of \<open>security/mod.rs\<close>, a write-through cache over the rows of
  \<open>security/auth_store.rs\<close>. Tokens are addressed by their digest \<open>h\<close>. Times are nanoseconds since the epoch, rows hold
  milliseconds; \<open>rep\<close> says which milliseconds the time library can represent. The random token of a new session and
  what the database answers are arguments. Registration dates and names of users and the details of audit entries are
  left out.
\<close>

section \<open>Users and sessions\<close>

record auth_user =
  us_id :: string
  us_is_admin :: bool
  us_scopes :: "string list"

record auth_session =
  se_token :: string
  se_user_id :: string
  se_created_at :: int
  se_expires_at :: int
  se_device_fingerprint :: "string option"
  se_scopes :: "string list"

record stored_session =
  ss_user_id :: string
  ss_created_at_ms :: int
  ss_expires_at_ms :: int
  ss_device_fingerprint :: "string option"
  ss_scopes :: "string list"

definition millis :: "int \<Rightarrow> int" where
  "millis t = t div 1000000"

definition from_session :: "auth_session \<Rightarrow> stored_session" where
  "from_session s =
     \<lparr>ss_user_id = se_user_id s, ss_created_at_ms = millis (se_created_at s), ss_expires_at_ms = millis (se_expires_at s),
      ss_device_fingerprint = se_device_fingerprint s, ss_scopes = se_scopes s\<rparr>"

definition into_session :: "(int \<Rightarrow> bool) \<Rightarrow> string \<Rightarrow> stored_session \<Rightarrow> auth_session option" where
  "into_session rep digest r =
     (if \<not> rep (ss_created_at_ms r) then None
      else if \<not> rep (ss_expires_at_ms r) then None
      else Some \<lparr>se_token = digest, se_user_id = ss_user_id r, se_created_at = ss_created_at_ms r * 1000000,
             se_expires_at = ss_expires_at_ms r * 1000000, se_device_fingerprint = ss_device_fingerprint r,
             se_scopes = ss_scopes r\<rparr>)"

text \<open>\<open>am_rows\<close> is the table of sessions and \<open>am_audit\<close> the audit log; \<open>None\<close> where there is none.\<close>

record auth_manager =
  am_users :: "(string \<times> auth_user) list"
  am_sessions :: "(string \<times> auth_session) list"
  am_pairing_required :: bool
  am_rows :: "(string \<times> stored_session) list option"
  am_audit :: "persistent_audit option"

definition new_auth_manager :: auth_manager where
  "new_auth_manager = \<lparr>am_users = [], am_sessions = [], am_pairing_required = False, am_rows = None, am_audit = None\<rparr>"

definition with_audit_log :: "persistent_audit \<Rightarrow> auth_manager \<Rightarrow> auth_manager" where
  "with_audit_log l s = s\<lparr>am_audit := Some l\<rparr>"

definition log_auth :: "audit_event_type \<Rightarrow> string \<Rightarrow> string \<Rightarrow> bool \<Rightarrow> string \<Rightarrow> auth_manager \<Rightarrow> auth_manager" where
  "log_auth ty actor target allowed description s =
     s\<lparr>am_audit := map_option (persistent_append True
        \<lparr>at_event_type = ty, at_actor = actor, at_target = target, at_allowed = allowed, at_description = description,
         at_details = None\<rparr>) (am_audit s)\<rparr>"

definition register_user :: "auth_user \<Rightarrow> auth_manager \<Rightarrow> (string + unit) \<times> auth_manager" where
  "register_user u s =
     (if us_id u \<in> hm_keys (am_users s) then (Inl (''User '' @ us_id u @ '' already exists''), s)
      else (Inr (), s\<lparr>am_users := AList.update (us_id u) u (am_users s)\<rparr>))"

definition user_exists :: "string \<Rightarrow> auth_manager \<Rightarrow> bool" where
  "user_exists u s \<longleftrightarrow> u \<in> hm_keys (am_users s)"

section \<open>Operations on sessions\<close>

fun restore_sessions ::
  "(int \<Rightarrow> bool) \<Rightarrow> int \<Rightarrow> (string \<times> stored_session) list \<Rightarrow> (string \<times> auth_session) list \<Rightarrow> (string \<times> auth_session) list" where
  "restore_sessions rep now_ms [] m = m"
| "restore_sessions rep now_ms ((digest, r) # rs) m =
     restore_sessions rep now_ms rs
       (case into_session rep digest r of
          Some se \<Rightarrow> if now_ms < millis (se_expires_at se) then AList.update digest se m else m
        | None \<Rightarrow> m)"

definition prune_rows :: "int \<Rightarrow> (string \<times> stored_session) list \<Rightarrow> (string \<times> stored_session) list" where
  "prune_rows now_ms rows = hm_retain (\<lambda>_ r. now_ms < ss_expires_at_ms r) rows"

definition with_persistence :: "(int \<Rightarrow> bool) \<Rightarrow> bool \<Rightarrow> int \<Rightarrow> (string \<times> stored_session) list \<Rightarrow> auth_manager \<Rightarrow> auth_manager" where
  "with_persistence rep pruned now rows s =
     (let rows1 = (if pruned then prune_rows (millis now) rows else rows)
      in s\<lparr>am_sessions := restore_sessions rep (millis now) rows1 (am_sessions s), am_rows := Some rows1\<rparr>)"

definition create_session ::
  "(string \<Rightarrow> string) \<Rightarrow> bool \<Rightarrow> int \<Rightarrow> string \<Rightarrow> string \<Rightarrow> int \<Rightarrow> string list option \<Rightarrow> auth_manager
     \<Rightarrow> (string + auth_session) \<times> auth_manager" where
  "create_session h written now token user ttl_hours scopes s =
     (if \<not> user_exists user s then (Inl (''User '' @ user @ '' not found''), s)
      else let resolved = (case scopes of Some sc \<Rightarrow> sc
                           | None \<Rightarrow> (case map_of (am_users s) user of Some u \<Rightarrow> us_scopes u | None \<Rightarrow> []));
               se = \<lparr>se_token = token, se_user_id = user, se_created_at = now,
                     se_expires_at = now + ttl_hours * 3600000000000, se_device_fingerprint = None, se_scopes = resolved\<rparr>;
               s1 = s\<lparr>am_sessions := AList.update (h token) se (am_sessions s)\<rparr>;
               s2 = (if written then s1\<lparr>am_rows := map_option (AList.update (h token) (from_session se)) (am_rows s1)\<rparr> else s1)
           in (Inr se, log_auth Audit_Login user token True ''Session created'' s2))"

definition validate_scopes :: "(string \<Rightarrow> string) \<Rightarrow> int \<Rightarrow> string \<Rightarrow> string list \<Rightarrow> auth_manager \<Rightarrow> bool" where
  "validate_scopes h now token required s =
     (case map_of (am_sessions s) (h token) of
        None \<Rightarrow> False
      | Some se \<Rightarrow>
          if se_expires_at se \<le> now then False
          else if ''admin'' \<in> set (se_scopes se) then True
          else list_all (\<lambda>r. r \<in> set (se_scopes se)) required)"

text \<open>What the database answers while a session is looked up.\<close>

record session_db =
  db_read :: bool
  db_delete :: bool

definition delete_session :: "bool \<Rightarrow> string \<Rightarrow> auth_manager \<Rightarrow> auth_manager" where
  "delete_session ok digest s = (if ok then s\<lparr>am_rows := map_option (AList.delete digest) (am_rows s)\<rparr> else s)"

definition load_session_from_store ::
  "(int \<Rightarrow> bool) \<Rightarrow> session_db \<Rightarrow> int \<Rightarrow> string \<Rightarrow> auth_manager \<Rightarrow> auth_session option \<times> auth_manager" where
  "load_session_from_store rep db now digest s =
     (case am_rows s of
        None \<Rightarrow> (None, s)
      | Some rows \<Rightarrow>
          if \<not> db_read db then (None, s)
          else case map_of rows digest of
              None \<Rightarrow> (None, s)
            | Some r \<Rightarrow>
                if ss_expires_at_ms r \<le> millis now then (None, delete_session (db_delete db) digest s)
                else case into_session rep digest r of
                    None \<Rightarrow> (None, s)
                  | Some se \<Rightarrow> (Some se, s\<lparr>am_sessions := AList.update digest se (am_sessions s)\<rparr>))"

definition look_up_session ::
  "(string \<Rightarrow> string) \<Rightarrow> (int \<Rightarrow> bool) \<Rightarrow> session_db \<Rightarrow> int \<Rightarrow> string \<Rightarrow> auth_manager \<Rightarrow> auth_session option \<times> auth_manager" where
  "look_up_session h rep db now token s =
     (case map_of (am_sessions s) (h token) of
        Some se \<Rightarrow>
          if now < se_expires_at se then (Some se, s)
          else load_session_from_store rep db now (h token) (s\<lparr>am_sessions := AList.delete (h token) (am_sessions s)\<rparr>)
      | None \<Rightarrow> load_session_from_store rep db now (h token) s)"

definition validate_session ::
  "(string \<Rightarrow> string) \<Rightarrow> (int \<Rightarrow> bool) \<Rightarrow> session_db \<Rightarrow> int \<Rightarrow> string \<Rightarrow> auth_manager \<Rightarrow> auth_session option \<times> auth_manager" where
  "validate_session h rep db now token s =
     (case look_up_session h rep db now token s of (result, s1) \<Rightarrow>
        (result,
         case result of
           Some se \<Rightarrow> log_auth Audit_Token_Validation (se_user_id se) token True ''Token validation succeeded'' s1
         | None \<Rightarrow> log_auth Audit_Token_Validation ''unknown'' token False ''Token validation failed'' s1))"

definition revoke_session :: "(string \<Rightarrow> string) \<Rightarrow> bool \<Rightarrow> string \<Rightarrow> auth_manager \<Rightarrow> bool \<times> auth_manager" where
  "revoke_session h deleted token s =
     (let s1 = delete_session deleted (h token) (s\<lparr>am_sessions := AList.delete (h token) (am_sessions s)\<rparr>)
      in case map_of (am_sessions s) (h token) of
           Some se \<Rightarrow> (True, log_auth Audit_Logout (se_user_id se) token True ''Session revoked'' s1)
         | None \<Rightarrow> (False, s1))"

definition auth_restart :: "(int \<Rightarrow> bool) \<Rightarrow> int \<Rightarrow> auth_manager \<Rightarrow> auth_manager" where
  "auth_restart rep now s =
     (let fresh = new_auth_manager\<lparr>am_pairing_required := am_pairing_required s, am_audit := am_audit s\<rparr>
      in case am_rows s of None \<Rightarrow> fresh | Some rows \<Rightarrow> with_persistence rep True now rows fresh)"

section \<open>Histories\<close>

declare map_of_eq_Some_iff [simp del]

text \<open>Events by digest: a grant is a session created, a withdrawal is a revocation.\<close>

record session_world =
  sw_manager :: auth_manager
  sw_events :: "(string, auth_session) grant_event list"
  sw_time :: int

definition healthy :: session_db where
  "healthy = \<lparr>db_read = True, db_delete = True\<rparr>"

inductive session_step :: "(string \<Rightarrow> string) \<Rightarrow> (int \<Rightarrow> bool) \<Rightarrow> session_world \<Rightarrow> session_world \<Rightarrow> bool" for h rep where
  ses_tick: "sw_time w \<le> t \<Longrightarrow> session_step h rep w (w\<lparr>sw_time := t\<rparr>)"
| ses_register: "session_step h rep w (w\<lparr>sw_manager := snd (register_user u (sw_manager w))\<rparr>)"
| ses_create: "create_session h True (sw_time w) token user ttl scopes (sw_manager w) = (Inr se, s') \<Longrightarrow>
    session_step h rep w (w\<lparr>sw_manager := s', sw_events := sw_events w @ [Granted (h token) se]\<rparr>)"
| ses_validate: "session_step h rep w (w\<lparr>sw_manager := snd (validate_session h rep healthy (sw_time w) token (sw_manager w))\<rparr>)"
| ses_revoke: "session_step h rep w (w\<lparr>sw_manager := snd (revoke_session h True token (sw_manager w)),
    sw_events := sw_events w @ [Withdrawn (h token)]\<rparr>)"
| ses_restart: "session_step h rep w (w\<lparr>sw_manager := auth_restart rep (sw_time w) (sw_manager w)\<rparr>)"

definition session_like :: "auth_session \<Rightarrow> auth_session \<Rightarrow> bool" where
  "session_like se s0 \<longleftrightarrow>
     se_user_id se = se_user_id s0 \<and> se_scopes se = se_scopes s0 \<and> se_device_fingerprint se = se_device_fingerprint s0 \<and>
     se_expires_at se \<le> se_expires_at s0 \<and> millis (se_expires_at se) = millis (se_expires_at s0)"

definition cache_ok :: "(string, auth_session) grant_event list \<Rightarrow> (string \<times> auth_session) list \<Rightarrow> bool" where
  "cache_ok es c \<longleftrightarrow> (\<forall>k se. map_of c k = Some se \<longrightarrow> (\<exists>s0. held es k = Some s0 \<and> session_like se s0))"

definition rows_ok :: "int \<Rightarrow> (string, auth_session) grant_event list \<Rightarrow> (string \<times> stored_session) list \<Rightarrow> bool" where
  "rows_ok now es rows \<longleftrightarrow>
     hm_ok rows \<and>
     (\<forall>k r. map_of rows k = Some r \<longrightarrow> (\<exists>s0. held es k = Some s0 \<and> r = from_session s0)) \<and>
     (\<forall>k s0. held es k = Some s0 \<and> millis now < millis (se_expires_at s0) \<longrightarrow> map_of rows k = Some (from_session s0))"

definition session_inv :: "session_world \<Rightarrow> bool" where
  "session_inv w \<longleftrightarrow>
     cache_ok (sw_events w) (am_sessions (sw_manager w)) \<and>
     (\<exists>rows. am_rows (sw_manager w) = Some rows \<and> rows_ok (sw_time w) (sw_events w) rows)"

lemma millis_mono: "a \<le> b \<Longrightarrow> millis a \<le> millis b"
  by (simp add: millis_def zdiv_mono1)

lemma millis_whole [simp]: "millis (m * 1000000) = m"
  by (simp add: millis_def)

lemma session_like_refl [simp]: "session_like se se"
  by (simp add: session_like_def)

lemma into_session_like: "into_session rep k (from_session s0) = Some se \<Longrightarrow> session_like se s0"
  by (auto simp: into_session_def from_session_def session_like_def millis_def split: if_splits)

lemma log_auth_keeps [simp]:
  "am_sessions (log_auth ty a t ok d s) = am_sessions s" "am_rows (log_auth ty a t ok d s) = am_rows s"
  "am_users (log_auth ty a t ok d s) = am_users s"
  by (simp_all add: log_auth_def)

lemma cache_ok_delete: "cache_ok es c \<Longrightarrow> cache_ok es (AList.delete k c)"
  by (auto simp: cache_ok_def)

lemma cache_ok_update: "cache_ok es c \<Longrightarrow> held es k = Some s0 \<Longrightarrow> session_like se s0 \<Longrightarrow> cache_ok es (AList.update k se c)"
  by (auto simp: cache_ok_def)

lemma rows_ok_later: "rows_ok now es rows \<Longrightarrow> now \<le> t \<Longrightarrow> rows_ok t es rows"
  using millis_mono [of now t] by (auto simp: rows_ok_def)

lemma rows_okD:
  assumes "rows_ok now es rows"
  shows "hm_ok rows"
    and "map_of rows k = Some r \<Longrightarrow> \<exists>s0. held es k = Some s0 \<and> r = from_session s0"
    and "held es k = Some s0 \<Longrightarrow> millis now < millis (se_expires_at s0) \<Longrightarrow> map_of rows k = Some (from_session s0)"
  using assms by (auto simp: rows_ok_def)

lemma from_session_expiry [simp]: "ss_expires_at_ms (from_session s0) = millis (se_expires_at s0)"
  by (simp add: from_session_def)

lemma rows_ok_drop_expired:
  assumes "rows_ok now es rows" "map_of rows k = Some r" "ss_expires_at_ms r \<le> millis now"
  shows "rows_ok now es (AList.delete k rows)"
proof -
  note rows_okD [OF assms(1)]
  moreover have "\<not> millis now < millis (se_expires_at s0)" if "held es k = Some s0" for s0
    using rows_okD(2) [OF assms(1) assms(2)] assms(3) that by auto
  ultimately show ?thesis by (auto simp: rows_ok_def distinct_delete)
qed

lemma rows_ok_prune:
  assumes "rows_ok now es rows"
  shows "rows_ok now es (prune_rows (millis now) rows)"
proof -
  have keep: "map_of (prune_rows (millis now) rows) k =
      (case map_of rows k of None \<Rightarrow> None | Some r \<Rightarrow> if millis now < ss_expires_at_ms r then Some r else None)" for k
    using rows_okD(1) [OF assms] by (simp add: prune_rows_def map_of_retain)
  show ?thesis unfolding rows_ok_def
  proof (intro conjI allI impI)
    show "hm_ok (prune_rows (millis now) rows)" using rows_okD(1) [OF assms] by (simp add: prune_rows_def)
    show "\<exists>s0. held es k = Some s0 \<and> r = from_session s0" if "map_of (prune_rows (millis now) rows) k = Some r" for k r
      using that keep [of k] rows_okD(2) [OF assms] by (simp split: option.splits if_splits)
    show "map_of (prune_rows (millis now) rows) k = Some (from_session s0)"
      if "held es k = Some s0 \<and> millis now < millis (se_expires_at s0)" for k s0
      using that keep [of k] rows_okD(3) [OF assms] by simp
  qed
qed

lemma restore_sessions_ok:
  "(\<And>k r. (k, r) \<in> set rows \<Longrightarrow> \<exists>s0. held es k = Some s0 \<and> r = from_session s0) \<Longrightarrow> cache_ok es m \<Longrightarrow>
   cache_ok es (restore_sessions rep t rows m)"
proof (induction rep t rows m rule: restore_sessions.induct)
  case (2 rep t k r rs m)
  from 2(2) [of k r] obtain s0 where s0: "held es k = Some s0" "r = from_session s0" by auto
  have "cache_ok es (case into_session rep k r of
      Some se \<Rightarrow> if t < millis (se_expires_at se) then AList.update k se m else m | None \<Rightarrow> m)"
    using s0 2(3) cache_ok_update into_session_like by (auto split: option.split)
  then show ?case using 2(1) 2(2) by simp
qed simp

lemma millis_less: "millis a < millis b \<Longrightarrow> a < b"
  using millis_mono [of b a] by linarith

text \<open>What a lookup in the table answers and leaves, for a cache that is right.\<close>

lemma load_session_right:
  assumes rows: "am_rows s = Some rows" "rows_ok now es rows" and cache: "cache_ok es (am_sessions s)"
    and load: "load_session_from_store rep healthy now k s = (res, s1)"
  shows "cache_ok es (am_sessions s1)" and "\<exists>rows1. am_rows s1 = Some rows1 \<and> rows_ok now es rows1"
    and "res = Some se \<Longrightarrow> \<exists>s0. held es k = Some s0 \<and> session_like se s0 \<and> now < se_expires_at s0"
    and "held es k = Some s0 \<Longrightarrow> millis now < millis (se_expires_at s0) \<Longrightarrow> rep (millis (se_created_at s0)) \<Longrightarrow>
      rep (millis (se_expires_at s0)) \<Longrightarrow> res \<noteq> None"
proof -
  have main: "cache_ok es (am_sessions s1) \<and> (\<exists>rows1. am_rows s1 = Some rows1 \<and> rows_ok now es rows1) \<and>
      (\<forall>se. res = Some se \<longrightarrow> (\<exists>s0. held es k = Some s0 \<and> session_like se s0 \<and> now < se_expires_at s0)) \<and>
      (\<forall>s0. held es k = Some s0 \<and> millis now < millis (se_expires_at s0) \<and> rep (millis (se_created_at s0)) \<and>
        rep (millis (se_expires_at s0)) \<longrightarrow> res \<noteq> None)"
  proof (cases "map_of rows k")
    case None
    then have "\<not> millis now < millis (se_expires_at s0)" if "held es k = Some s0" for s0
      using rows_okD(3) [OF rows(2) that] by auto
    with None load rows cache show ?thesis
      by (auto simp: load_session_from_store_def healthy_def)
  next
    case (Some r)
    then obtain s0 where s0: "held es k = Some s0" "r = from_session s0" using rows_okD(2) [OF rows(2)] by blast
    show ?thesis
    proof (cases "ss_expires_at_ms r \<le> millis now")
      case True
      with load rows Some have "res = None" "s1 = s\<lparr>am_rows := Some (AList.delete k rows)\<rparr>"
        by (auto simp: load_session_from_store_def healthy_def delete_session_def)
      with True cache s0 rows_ok_drop_expired [OF rows(2) Some True] show ?thesis by auto
    next
      case False
      then have later: "now < se_expires_at s0" using s0 millis_less by simp
      show ?thesis
      proof (cases "into_session rep k r")
        case None
        with load rows Some False have "res = None" "s1 = s" by (auto simp: load_session_from_store_def healthy_def)
        with None cache rows s0 show ?thesis by (auto simp: into_session_def from_session_def split: if_splits)
      next
        case (Some se)
        with load rows \<open>map_of rows k = Some r\<close> False
        have "res = Some se" "s1 = s\<lparr>am_sessions := AList.update k se (am_sessions s)\<rparr>"
          by (auto simp: load_session_from_store_def healthy_def)
        with Some s0 cache rows later into_session_like cache_ok_update show ?thesis by auto
      qed
    qed
  qed
  then show "cache_ok es (am_sessions s1)" "\<exists>rows1. am_rows s1 = Some rows1 \<and> rows_ok now es rows1" by blast+
  show "res = Some se \<Longrightarrow> \<exists>s0. held es k = Some s0 \<and> session_like se s0 \<and> now < se_expires_at s0" using main by blast
  show "held es k = Some s0 \<Longrightarrow> millis now < millis (se_expires_at s0) \<Longrightarrow> rep (millis (se_created_at s0)) \<Longrightarrow>
      rep (millis (se_expires_at s0)) \<Longrightarrow> res \<noteq> None" using main by blast
qed

lemma look_up_right:
  assumes inv: "session_inv w" and look: "look_up_session h rep healthy (sw_time w) token (sw_manager w) = (res, s1)"
  shows "session_inv (w\<lparr>sw_manager := s1\<rparr>)"
    and "res = Some se \<Longrightarrow> \<exists>s0. held (sw_events w) (h token) = Some s0 \<and> session_like se s0 \<and> sw_time w < se_expires_at s0"
    and "held (sw_events w) (h token) = Some s0 \<Longrightarrow> millis (sw_time w) < millis (se_expires_at s0) \<Longrightarrow>
      rep (millis (se_created_at s0)) \<Longrightarrow> rep (millis (se_expires_at s0)) \<Longrightarrow> res \<noteq> None"
proof -
  let ?s = "sw_manager w"
  from inv obtain rows where rows: "am_rows ?s = Some rows" "rows_ok (sw_time w) (sw_events w) rows"
    and cache: "cache_ok (sw_events w) (am_sessions ?s)" by (auto simp: session_inv_def)
  consider (hit) se where "map_of (am_sessions ?s) (h token) = Some se" "sw_time w < se_expires_at se" "res = Some se" "s1 = ?s"
    | (miss) s2 where "load_session_from_store rep healthy (sw_time w) (h token) s2 = (res, s1)"
        "am_rows s2 = Some rows" "cache_ok (sw_events w) (am_sessions s2)"
  proof (cases "map_of (am_sessions ?s) (h token)")
    case None
    then have "load_session_from_store rep healthy (sw_time w) (h token) ?s = (res, s1)"
      using look by (simp add: look_up_session_def)
    then show ?thesis by (rule miss) (fact rows(1), fact cache)
  next
    case (Some se)
    show ?thesis
    proof (cases "sw_time w < se_expires_at se")
      case True
      then have "res = Some se" "s1 = ?s" using Some look by (simp_all add: look_up_session_def)
      then show ?thesis by (rule hit [OF Some True])
    next
      case False
      then have "load_session_from_store rep healthy (sw_time w) (h token)
          (?s\<lparr>am_sessions := AList.delete (h token) (am_sessions ?s)\<rparr>) = (res, s1)"
        using look Some by (simp add: look_up_session_def)
      then show ?thesis by (rule miss) (simp_all add: rows(1) cache_ok_delete [OF cache])
    qed
  qed
  then have "session_inv (w\<lparr>sw_manager := s1\<rparr>) \<and>
      (\<forall>se. res = Some se \<longrightarrow> (\<exists>s0. held (sw_events w) (h token) = Some s0 \<and> session_like se s0 \<and> sw_time w < se_expires_at s0)) \<and>
      (\<forall>s0. held (sw_events w) (h token) = Some s0 \<and> millis (sw_time w) < millis (se_expires_at s0) \<and>
        rep (millis (se_created_at s0)) \<and> rep (millis (se_expires_at s0)) \<longrightarrow> res \<noteq> None)"
  proof cases
    case hit
    then obtain s0 where "held (sw_events w) (h token) = Some s0" "session_like se s0" using cache by (auto simp: cache_ok_def)
    with hit inv show ?thesis by (auto simp: session_like_def)
  next
    case miss
    note load_session_right [OF miss(2) rows(2) miss(3) miss(1)]
    then show ?thesis by (auto simp: session_inv_def)
  qed
  then show "session_inv (w\<lparr>sw_manager := s1\<rparr>)"
    and "res = Some se \<Longrightarrow> \<exists>s0. held (sw_events w) (h token) = Some s0 \<and> session_like se s0 \<and> sw_time w < se_expires_at s0"
    and "held (sw_events w) (h token) = Some s0 \<Longrightarrow> millis (sw_time w) < millis (se_expires_at s0) \<Longrightarrow>
      rep (millis (se_created_at s0)) \<Longrightarrow> rep (millis (se_expires_at s0)) \<Longrightarrow> res \<noteq> None"
    by blast+
qed

lemma session_inv_cong:
  "session_inv w \<Longrightarrow> am_sessions (sw_manager w') = am_sessions (sw_manager w) \<Longrightarrow> am_rows (sw_manager w') = am_rows (sw_manager w)
   \<Longrightarrow> sw_events w' = sw_events w \<Longrightarrow> sw_time w' = sw_time w \<Longrightarrow> session_inv w'"
  by (simp add: session_inv_def)

lemma validate_session_state:
  "look_up_session h rep db now token s = (res, s1) \<Longrightarrow>
   fst (validate_session h rep db now token s) = res \<and>
   am_sessions (snd (validate_session h rep db now token s)) = am_sessions s1 \<and>
   am_rows (snd (validate_session h rep db now token s)) = am_rows s1"
  by (simp add: validate_session_def split: option.split)

lemma rows_ok_create:
  assumes "rows_ok now es rows"
  shows "rows_ok now (es @ [Granted k se]) (AList.update k (from_session se) rows)"
  using rows_okD [OF assms] by (auto simp: rows_ok_def distinct_update)

lemma rows_ok_revoke:
  assumes "rows_ok now es rows"
  shows "rows_ok now (es @ [Withdrawn k]) (AList.delete k rows)"
  using rows_okD [OF assms] by (auto simp: rows_ok_def distinct_delete)

lemma session_step_inv: "session_step h rep w w' \<Longrightarrow> session_inv w \<Longrightarrow> session_inv w'"
proof (induction rule: session_step.induct)
  case (ses_tick w t)
  then show ?case using rows_ok_later by (auto simp: session_inv_def)
next
  case (ses_register w u)
  then show ?case by (elim session_inv_cong) (simp_all add: register_user_def)
next
  case (ses_create w token user ttl scopes se s')
  then have "am_sessions s' = AList.update (h token) se (am_sessions (sw_manager w))"
    "am_rows s' = map_option (AList.update (h token) (from_session se)) (am_rows (sw_manager w))"
    by (auto simp: create_session_def Let_def split: if_splits)
  with ses_create.prems rows_ok_create show ?case by (auto simp: session_inv_def cache_ok_def)
next
  case (ses_validate w token)
  obtain res s1 where look: "look_up_session h rep healthy (sw_time w) token (sw_manager w) = (res, s1)" by fastforce
  from look_up_right(1) [OF ses_validate look] show ?case
    by (elim session_inv_cong) (use validate_session_state [OF look] in simp_all)
next
  case (ses_revoke w token)
  have "am_sessions (snd (revoke_session h True token (sw_manager w))) = AList.delete (h token) (am_sessions (sw_manager w))"
    "am_rows (snd (revoke_session h True token (sw_manager w))) = map_option (AList.delete (h token)) (am_rows (sw_manager w))"
    by (simp_all add: revoke_session_def delete_session_def Let_def split: option.split)
  with ses_revoke rows_ok_revoke show ?case by (auto simp: session_inv_def cache_ok_def)
next
  case (ses_restart w)
  then obtain rows where rows: "am_rows (sw_manager w) = Some rows" "rows_ok (sw_time w) (sw_events w) rows"
    by (auto simp: session_inv_def)
  let ?rows = "prune_rows (millis (sw_time w)) rows"
  have ok: "rows_ok (sw_time w) (sw_events w) ?rows" by (rule rows_ok_prune [OF rows(2)])
  have "cache_ok (sw_events w) (restore_sessions rep (millis (sw_time w)) ?rows [])"
    using rows_okD(1,2) [OF ok] by (intro restore_sessions_ok) (simp_all add: map_of_eq_Some_iff cache_ok_def)
  with rows ok show ?case by (simp add: session_inv_def auth_restart_def with_persistence_def new_auth_manager_def Let_def)
qed

definition session_start :: "int \<Rightarrow> session_world" where
  "session_start t = \<lparr>sw_manager = new_auth_manager\<lparr>am_rows := Some []\<rparr>, sw_events = [], sw_time = t\<rparr>"

lemma session_reached_inv: "(session_step h rep)\<^sup>*\<^sup>* (session_start t) w \<Longrightarrow> session_inv w"
proof (induction rule: rtranclp_induct)
  case base
  then show ?case by (simp add: session_inv_def session_start_def cache_ok_def rows_ok_def new_auth_manager_def)
next
  case (step y z)
  then show ?case using session_step_inv by blast
qed

section \<open>Properties\<close>


definition sample_user :: auth_user where
  "sample_user = \<lparr>us_id = ''alice'', us_is_admin = False, us_scopes = [''chat'']\<rparr>"

definition registered :: session_world where
  "registered = (session_start 0)\<lparr>sw_manager := snd (register_user sample_user (sw_manager (session_start 0)))\<rparr>"

definition logged_in :: session_world where
  "logged_in = (case create_session id True 0 ''tok'' ''alice'' 1 None (sw_manager registered) of
     (Inr se, s') \<Rightarrow> registered\<lparr>sw_manager := s', sw_events := sw_events registered @ [Granted ''tok'' se]\<rparr>
   | (Inl _, s') \<Rightarrow> registered)"

lemma logged_in_reached: "(session_step id (\<lambda>_. True))\<^sup>*\<^sup>* (session_start 0) logged_in"
proof -
  have "session_step id (\<lambda>_. True) (session_start 0) registered"
    unfolding registered_def by (rule ses_register)
  moreover have "session_step id (\<lambda>_. True) registered logged_in"
  proof -
    obtain se s' where c: "create_session id True 0 ''tok'' ''alice'' 1 None (sw_manager registered) = (Inr se, s')"
      by (simp add: create_session_def registered_def session_start_def register_user_def sample_user_def user_exists_def
          new_auth_manager_def Let_def)
    moreover have "sw_time registered = 0" by (simp add: registered_def session_start_def)
    ultimately show ?thesis using ses_create [of id registered "''tok''" "''alice''" 1 None se s' "\<lambda>_. True"]
      by (simp add: logged_in_def)
  qed
  ultimately show ?thesis by (rule converse_rtranclp_into_rtranclp [OF _ r_into_rtranclp])
qed


lemma logged_in_token_accepted:
  "map_option se_user_id (fst (validate_session id (\<lambda>_. True) healthy 5 ''tok'' (sw_manager logged_in))) = Some ''alice''"
  by code_simp

section \<open>Where the code departs from its documentation\<close>

text \<open>
  Validation looks a missing token up in the table, so a revocation whose row could not be deleted is undone by the next
  use of the token, without a restart.
\<close>

lemma failed_delete_revives_session:
  "(let s = snd (revoke_session id False ''tok'' (sw_manager logged_in))
    in fst (revoke_session id False ''tok'' (sw_manager logged_in))
       \<and> map_option se_user_id (fst (validate_session id (\<lambda>_. True) healthy 5 ''tok'' s)) = Some ''alice'')"
  by code_simp

text \<open>Every token presented, accepted or not, is written to the audit log in clear.\<close>

lemma presented_token_is_logged:
  "am_audit s = Some l \<Longrightarrow>
   \<exists>l'. am_audit (snd (validate_session h rep db now token s)) = Some l' \<and>
     map at_target (persistent_recent (Suc 0) l') = [token]"
proof -
  assume l: "am_audit s = Some l"
  obtain res s1 where look: "look_up_session h rep db now token s = (res, s1)" by fastforce
  have "am_audit s1 = am_audit s"
    using look by (auto simp: look_up_session_def load_session_from_store_def delete_session_def
        split: option.splits if_splits)
  with l look show ?thesis
    by (simp add: validate_session_def log_auth_def push_memory_last split: option.split)
qed

end
