(* ===== verification/Device_Pairing.thy ===== *)
theory Device_Pairing
  imports Prelude
begin

text \<open>
  Pairing of devices with the gateway (\<open>security/device_pairing.rs\<close>) and the rows that keep authorised devices over a
  restart (\<open>StoredDevice\<close> in \<open>security/auth_store.rs\<close>). Times are nanoseconds since the epoch, rows hold milliseconds.
  The digest of a token is a parameter \<open>h\<close>, the random codes and tokens are arguments, and so is whether the database
  accepts a write. A device can be restored from its row only without its token.
\<close>

section \<open>The store\<close>

record pending_device =
  pd_code :: string
  pd_device_id :: string
  pd_display_name :: "string option"
  pd_public_key :: "string option"
  pd_created_at :: int
  pd_expires_at :: int

definition pending_device_valid :: "int \<Rightarrow> pending_device \<Rightarrow> bool" where
  "pending_device_valid now r \<longleftrightarrow> now < pd_expires_at r"

record authorized_device =
  dv_device_id :: string
  dv_display_name :: "string option"
  dv_public_key :: "string option"
  dv_token :: string
  dv_token_hash :: string
  dv_authorized_at :: int
  dv_approved_by :: "string option"

record stored_device =
  sd_device_id :: string
  sd_display_name :: "string option"
  sd_public_key :: "string option"
  sd_token_hash :: string
  sd_authorized_at_ms :: int
  sd_approved_by :: "string option"

definition from_authorized :: "authorized_device \<Rightarrow> stored_device" where
  "from_authorized d =
     \<lparr>sd_device_id = dv_device_id d, sd_display_name = dv_display_name d, sd_public_key = dv_public_key d,
      sd_token_hash = dv_token_hash d,
      sd_authorized_at_ms = (if dv_authorized_at d < 0 then 0 else dv_authorized_at d div 1000000),
      sd_approved_by = dv_approved_by d\<rparr>"

definition into_authorized :: "stored_device \<Rightarrow> authorized_device" where
  "into_authorized r =
     \<lparr>dv_device_id = sd_device_id r, dv_display_name = sd_display_name r, dv_public_key = sd_public_key r,
      dv_token = [], dv_token_hash = sd_token_hash r,
      dv_authorized_at = max (sd_authorized_at_ms r) 0 * 1000000, dv_approved_by = sd_approved_by r\<rparr>"

datatype device_access_result =
    Device_Authorized string
  | Pairing_Required string
  | Device_Already_Pending string
  | Device_Rate_Limited

text \<open>\<open>dp_rows\<close> is the table of devices; \<open>None\<close> is a store without a database.\<close>

record device_store =
  dp_pending :: "(string \<times> pending_device) list"
  dp_pending_index :: "(string \<times> string) list"
  dp_authorized :: "(string \<times> authorized_device) list"
  dp_default_ttl :: int
  dp_max_pending :: nat
  dp_rows :: "(string \<times> stored_device) list option"

definition device_with_config :: "int \<Rightarrow> nat \<Rightarrow> device_store" where
  "device_with_config ttl max_pending =
     \<lparr>dp_pending = [], dp_pending_index = [], dp_authorized = [], dp_default_ttl = ttl, dp_max_pending = max_pending,
      dp_rows = None\<rparr>"

definition default_device_store :: device_store where
  "default_device_store = device_with_config 3600000000000 100"

fun restore_devices :: "(string \<times> stored_device) list \<Rightarrow> (string \<times> authorized_device) list \<Rightarrow> (string \<times> authorized_device) list" where
  "restore_devices [] m = m"
| "restore_devices ((_, r) # rs) m = restore_devices rs (AList.update (sd_device_id r) (into_authorized r) m)"

definition device_with_persistence :: "(string \<times> stored_device) list \<Rightarrow> device_store \<Rightarrow> device_store" where
  "device_with_persistence rows s =
     s\<lparr>dp_authorized := restore_devices rows (dp_authorized s), dp_rows := Some rows\<rparr>"

section \<open>Operations\<close>

definition device_has_valid_pending :: "int \<Rightarrow> string \<Rightarrow> device_store \<Rightarrow> string option" where
  "device_has_valid_pending now d s =
     (case map_of (dp_pending_index s) d of
        None \<Rightarrow> None
      | Some code \<Rightarrow>
          (case map_of (dp_pending s) code of
             None \<Rightarrow> None
           | Some r \<Rightarrow> if pending_device_valid now r then Some code else None))"

definition device_request_access ::
  "int \<Rightarrow> string \<Rightarrow> string \<Rightarrow> string option \<Rightarrow> string option \<Rightarrow> device_store \<Rightarrow> device_access_result \<times> device_store" where
  "device_request_access now code d name key s =
     (case map_of (dp_authorized s) d of
        Some dev \<Rightarrow> (Device_Authorized (dv_token dev), s)
      | None \<Rightarrow>
          (case device_has_valid_pending now d s of
             Some c \<Rightarrow> (Device_Already_Pending c, s)
           | None \<Rightarrow>
               if dp_max_pending s \<le> length (dp_pending s) then (Device_Rate_Limited, s)
               else (Pairing_Required code,
                 s\<lparr>dp_pending := AList.update code
                      \<lparr>pd_code = code, pd_device_id = d, pd_display_name = name, pd_public_key = key,
                       pd_created_at = now, pd_expires_at = now + dp_default_ttl s\<rparr> (dp_pending s),
                    dp_pending_index := AList.update d code (dp_pending_index s)\<rparr>)))"

definition upsert_device :: "bool \<Rightarrow> authorized_device \<Rightarrow> device_store \<Rightarrow> device_store" where
  "upsert_device ok d s =
     (if ok then s\<lparr>dp_rows := map_option (AList.update (dv_device_id d) (from_authorized d)) (dp_rows s)\<rparr> else s)"

definition delete_device :: "bool \<Rightarrow> string \<Rightarrow> device_store \<Rightarrow> device_store" where
  "delete_device ok d s = (if ok then s\<lparr>dp_rows := map_option (AList.delete d) (dp_rows s)\<rparr> else s)"

definition device_approve ::
  "(string \<Rightarrow> string) \<Rightarrow> bool \<Rightarrow> int \<Rightarrow> string \<Rightarrow> string \<Rightarrow> string option \<Rightarrow> device_store \<Rightarrow> string option \<times> device_store" where
  "device_approve h ok now code token approved_by s =
     (case map_of (dp_pending s) code of
        None \<Rightarrow> (None, s)
      | Some r \<Rightarrow>
          (let s1 = s\<lparr>dp_pending := AList.delete code (dp_pending s),
                      dp_pending_index := AList.delete (pd_device_id r) (dp_pending_index s)\<rparr>
           in if \<not> pending_device_valid now r then (None, s1)
              else let d = \<lparr>dv_device_id = pd_device_id r, dv_display_name = pd_display_name r,
                            dv_public_key = pd_public_key r, dv_token = token, dv_token_hash = h token,
                            dv_authorized_at = now, dv_approved_by = approved_by\<rparr>
                   in (Some token,
                       upsert_device ok d (s1\<lparr>dp_authorized := AList.update (pd_device_id r) d (dp_authorized s1)\<rparr>))))"

definition device_reject :: "string \<Rightarrow> device_store \<Rightarrow> pending_device option \<times> device_store" where
  "device_reject code s =
     (case map_of (dp_pending s) code of
        None \<Rightarrow> (None, s)
      | Some r \<Rightarrow> (Some r, s\<lparr>dp_pending := AList.delete code (dp_pending s),
                            dp_pending_index := AList.delete (pd_device_id r) (dp_pending_index s)\<rparr>))"

definition device_revoke :: "bool \<Rightarrow> string \<Rightarrow> device_store \<Rightarrow> bool \<times> device_store" where
  "device_revoke ok d s =
     (case map_of (dp_authorized s) d of
        None \<Rightarrow> (False, s)
      | Some _ \<Rightarrow> (True, delete_device ok d (s\<lparr>dp_authorized := AList.delete d (dp_authorized s)\<rparr>)))"

fun find_token :: "string \<Rightarrow> (string \<times> authorized_device) list \<Rightarrow> string option" where
  "find_token digest [] = None"
| "find_token digest ((d, dev) # ds) = (if dv_token_hash dev = digest then Some d else find_token digest ds)"

definition validate_token :: "(string \<Rightarrow> string) \<Rightarrow> string \<Rightarrow> device_store \<Rightarrow> string option" where
  "validate_token h token s = find_token (h token) (dp_authorized s)"

definition get_device :: "string \<Rightarrow> device_store \<Rightarrow> authorized_device option" where
  "get_device d s = map_of (dp_authorized s) d"

text \<open>A restart loses everything but the rows and the settings.\<close>

definition device_restart :: "device_store \<Rightarrow> device_store" where
  "device_restart s =
     (let fresh = device_with_config (dp_default_ttl s) (dp_max_pending s)
      in case dp_rows s of None \<Rightarrow> fresh | Some rows \<Rightarrow> device_with_persistence rows fresh)"

section \<open>Histories\<close>

text \<open>A grant is an approval with the token it issued, a withdrawal is a revocation.\<close>

record device_world =
  dw_store :: device_store
  dw_events :: "(string, string) grant_event list"
  dw_time :: int

inductive device_step :: "(string \<Rightarrow> string) \<Rightarrow> device_world \<Rightarrow> device_world \<Rightarrow> bool" for h where
  dev_tick: "dw_time w \<le> t \<Longrightarrow> device_step h w (w\<lparr>dw_time := t\<rparr>)"
| dev_ask: "code \<notin> hm_keys (dp_pending (dw_store w)) \<Longrightarrow>
    device_step h w (w\<lparr>dw_store := snd (device_request_access (dw_time w) code d name key (dw_store w))\<rparr>)"
| dev_approve: "device_approve h True (dw_time w) code token by_whom (dw_store w) = (Some token, s') \<Longrightarrow>
    map_of (dp_pending (dw_store w)) code = Some r \<Longrightarrow>
    device_step h w (w\<lparr>dw_store := s', dw_events := dw_events w @ [Granted (pd_device_id r) token]\<rparr>)"
| dev_refuse: "device_approve h True (dw_time w) code token by_whom (dw_store w) = (None, s') \<Longrightarrow>
    device_step h w (w\<lparr>dw_store := s'\<rparr>)"
| dev_reject: "device_step h w (w\<lparr>dw_store := snd (device_reject code (dw_store w))\<rparr>)"
| dev_revoke: "device_step h w (w\<lparr>dw_store := snd (device_revoke True d (dw_store w)),
    dw_events := dw_events w @ [Withdrawn d]\<rparr>)"
| dev_restart: "device_step h w (w\<lparr>dw_store := device_restart (dw_store w)\<rparr>)"

definition device_inv :: "(string \<Rightarrow> string) \<Rightarrow> device_world \<Rightarrow> bool" where
  "device_inv h w \<longleftrightarrow>
     hm_ok (dp_authorized (dw_store w)) \<and>
     (\<forall>d. map_option dv_token_hash (map_of (dp_authorized (dw_store w)) d) = map_option h (held (dw_events w) d)) \<and>
     (\<exists>rows. dp_rows (dw_store w) = Some rows \<and> hm_ok rows \<and>
        (\<forall>d. map_option sd_token_hash (map_of rows d) = map_option h (held (dw_events w) d)) \<and>
        (\<forall>d r. map_of rows d = Some r \<longrightarrow> sd_device_id r = d))"

lemma restore_devices_map:
  "hm_ok rows \<Longrightarrow> (\<And>d r. map_of rows d = Some r \<Longrightarrow> sd_device_id r = d) \<Longrightarrow>
   map_of (restore_devices rows m) d = (case map_of rows d of Some r \<Rightarrow> Some (into_authorized r) | None \<Rightarrow> map_of m d)"
proof (induction rows arbitrary: m)
  case (Cons a rows)
  obtain k r where a: "a = (k, r)" by fastforce
  have id: "sd_device_id r = k" using Cons.prems(2) [of k r] a by simp
  have none: "map_of rows k = None" using Cons.prems(1) a by (simp add: map_of_eq_None_iff)
  have "sd_device_id r' = d'" if "map_of rows d' = Some r'" for d' r'
    using Cons.prems(2) [of d' r'] a none that by (cases "d' = k") simp_all
  then have "map_of (restore_devices rows m') d =
      (case map_of rows d of Some r \<Rightarrow> Some (into_authorized r) | None \<Rightarrow> map_of m' d)" for m'
    using Cons.IH Cons.prems(1) a by simp
  then show ?case using a id none by (cases "d = k") (simp_all split: option.split)
qed simp

lemma restore_devices_ok [simp]: "hm_ok m \<Longrightarrow> hm_ok (restore_devices rows m)"
  by (induction rows m rule: restore_devices.induct) (auto simp: distinct_update)

lemma into_from_hash [simp]: "dv_token_hash (into_authorized r) = sd_token_hash r" "sd_token_hash (from_authorized d) = dv_token_hash d"
  "sd_device_id (from_authorized d) = dv_device_id d"
  by (simp_all add: into_authorized_def from_authorized_def)

lemma device_inv_cong:
  "device_inv h w \<Longrightarrow> dp_authorized (dw_store w') = dp_authorized (dw_store w) \<Longrightarrow> dp_rows (dw_store w') = dp_rows (dw_store w)
   \<Longrightarrow> dw_events w' = dw_events w \<Longrightarrow> device_inv h w'"
  by (simp add: device_inv_def)

lemma request_keeps [simp]:
  "dp_authorized (snd (device_request_access now c d n k s)) = dp_authorized s"
  "dp_rows (snd (device_request_access now c d n k s)) = dp_rows s"
  by (simp_all add: device_request_access_def split: option.split)

lemma reject_keeps [simp]:
  "dp_authorized (snd (device_reject c s)) = dp_authorized s" "dp_rows (snd (device_reject c s)) = dp_rows s"
  by (simp_all add: device_reject_def split: option.split)

lemma device_step_inv: "device_step h w w' \<Longrightarrow> device_inv h w \<Longrightarrow> device_inv h w'"
proof (induction rule: device_step.induct)
  case (dev_approve w code token by_whom s' r)
  then obtain d where "s' = upsert_device True d
        (dw_store w\<lparr>dp_pending := AList.delete code (dp_pending (dw_store w)),
           dp_pending_index := AList.delete (pd_device_id r) (dp_pending_index (dw_store w)),
           dp_authorized := AList.update (pd_device_id r) d (dp_authorized (dw_store w))\<rparr>)"
      "dv_device_id d = pd_device_id r" "dv_token_hash d = h token"
    by (auto simp: device_approve_def Let_def split: if_splits)
  then show ?case using dev_approve.prems
    by (auto simp: device_inv_def upsert_device_def distinct_update)
next
  case (dev_refuse w code token by_whom s')
  then show ?case
    by (elim device_inv_cong) (auto simp: device_approve_def Let_def split: option.splits if_splits)
next
  case (dev_revoke w d)
  then obtain rows where rows: "dp_rows (dw_store w) = Some rows" "hm_ok rows" by (auto simp: device_inv_def)
  show ?case
  proof (cases "map_of (dp_authorized (dw_store w)) d")
    case None
    then have "held (dw_events w) d = None"
      using dev_revoke.prems by (simp add: device_inv_def) (metis option.map_disc_iff)
    then have "held (dw_events w @ [Withdrawn d]) = held (dw_events w)"
      by (intro ext) auto
    with None dev_revoke.prems show ?thesis by (simp add: device_inv_def device_revoke_def)
  next
    case (Some dev)
    then show ?thesis using dev_revoke.prems
      by (auto simp: device_inv_def device_revoke_def delete_device_def distinct_delete)
  qed
next
  case (dev_restart w)
  then obtain rows where rows: "dp_rows (dw_store w) = Some rows" "hm_ok rows"
    and ids: "\<And>d r. map_of rows d = Some r \<Longrightarrow> sd_device_id r = d"
    and hash: "\<And>d. map_option sd_token_hash (map_of rows d) = map_option h (held (dw_events w) d)"
    by (auto simp: device_inv_def)
  have "map_option dv_token_hash (map_of (restore_devices rows []) d) = map_option h (held (dw_events w) d)" for d
    using hash [of d] restore_devices_map [OF rows(2) ids, of "[]" d] by (cases "map_of rows d") auto
  then show ?case using rows ids hash
    by (auto simp: device_inv_def device_restart_def device_with_persistence_def device_with_config_def)
qed (erule device_inv_cong; simp)+

lemma find_token_sound: "find_token g ds = Some d \<Longrightarrow> hm_ok ds \<Longrightarrow> \<exists>dev. map_of ds d = Some dev \<and> dv_token_hash dev = g"
proof (induction g ds rule: find_token.induct)
  case (2 digest d' dev ds)
  show ?case
  proof (cases "dv_token_hash dev = digest")
    case False
    with 2 obtain dev' where dev': "map_of ds d = Some dev'" "dv_token_hash dev' = digest" by auto
    moreover have "map_of ds d' = None" using 2(3) by (simp add: map_of_eq_None_iff)
    ultimately show ?thesis by (cases "d = d'") auto
  qed (use 2 in simp)
qed simp

lemma find_token_complete: "map_of ds d = Some dev \<Longrightarrow> dv_token_hash dev = g \<Longrightarrow> find_token g ds \<noteq> None"
  by (induction g ds rule: find_token.induct) (auto split: if_splits)

definition device_start :: "int \<Rightarrow> nat \<Rightarrow> int \<Rightarrow> device_world" where
  "device_start ttl n t = \<lparr>dw_store = device_with_persistence [] (device_with_config ttl n), dw_events = [], dw_time = t\<rparr>"

lemma device_start_inv: "device_inv h (device_start ttl n t)"
  by (simp add: device_inv_def device_start_def device_with_persistence_def device_with_config_def )

lemma device_reached_inv: "(device_step h)\<^sup>*\<^sup>* (device_start ttl n t) w \<Longrightarrow> device_inv h w"
  by (induction rule: rtranclp_induct) (use device_start_inv device_step_inv in blast)+

lemma request_bounded:
  assumes "length (dp_pending s) \<le> dp_max_pending s"
  shows "length (dp_pending (snd (device_request_access now c d n k s)))
    \<le> dp_max_pending (snd (device_request_access now c d n k s))"
proof (cases "dp_max_pending s \<le> length (dp_pending s)")
  case True
  then show ?thesis using assms by (simp add: device_request_access_def split: option.split)
next
  case False
  then have "length (AList.update c r (dp_pending s)) \<le> dp_max_pending s" for r
    using length_update_le [of c r "dp_pending s"] by simp
  then show ?thesis using assms by (simp add: device_request_access_def split: option.split)
qed

definition pending_in_bounds :: "device_store \<Rightarrow> bool" where
  "pending_in_bounds s \<longleftrightarrow> length (dp_pending s) \<le> dp_max_pending s"

lemma pending_delete_bounded: "pending_in_bounds s \<Longrightarrow> length (AList.delete c (dp_pending s)) \<le> dp_max_pending s"
  using length_delete_le [of c "dp_pending s"] by (simp add: pending_in_bounds_def)

lemma device_step_bounded: "device_step h w w' \<Longrightarrow> pending_in_bounds (dw_store w) \<Longrightarrow> pending_in_bounds (dw_store w')"
proof (induction rule: device_step.induct)
  case (dev_ask code w d name key)
  then show ?case using request_bounded by (simp add: pending_in_bounds_def)
next
  case (dev_approve w code token by_whom s' r)
  then show ?case using pending_delete_bounded [OF dev_approve.prems]
    by (auto simp: device_approve_def Let_def upsert_device_def pending_in_bounds_def split: if_splits)
next
  case (dev_refuse w code token by_whom s')
  then show ?case using pending_delete_bounded [OF dev_refuse.prems]
    by (auto simp: device_approve_def Let_def pending_in_bounds_def split: if_splits option.splits)
next
  case (dev_reject w code)
  then show ?case using pending_delete_bounded [OF dev_reject.prems]
    by (auto simp: device_reject_def pending_in_bounds_def split: option.splits)
next
  case (dev_revoke w d)
  then show ?case by (simp add: device_revoke_def delete_device_def pending_in_bounds_def split: option.split)
next
  case (dev_restart w)
  then show ?case
    by (simp add: device_restart_def device_with_persistence_def device_with_config_def pending_in_bounds_def Let_def split: option.split)
qed simp

section \<open>Properties\<close>


definition sample_devices :: device_world where
  "sample_devices =
     \<lparr>dw_store = snd (device_approve id True 5 ''CODE'' ''dt_1'' None
        (snd (device_request_access 5 ''CODE'' ''phone'' None None (device_with_persistence [] (device_with_config 10 2))))),
      dw_events = [Granted ''phone'' ''dt_1''], dw_time = 5\<rparr>"

definition asked_devices :: device_world where
  "asked_devices =
     \<lparr>dw_store = snd (device_request_access 5 ''CODE'' ''phone'' None None (device_with_persistence [] (device_with_config 10 2))),
      dw_events = [], dw_time = 5\<rparr>"

lemma sample_devices_reached: "(device_step id)\<^sup>*\<^sup>* (device_start 10 2 5) sample_devices"
proof -
  have "device_step id (device_start 10 2 5) asked_devices"
    using dev_ask [of "''CODE''" "device_start 10 2 5" id "''phone''" None None]
    by (simp add: device_start_def device_with_persistence_def device_with_config_def asked_devices_def)
  moreover have "device_step id asked_devices sample_devices"
    using dev_approve [of id asked_devices "''CODE''" "''dt_1''" None "dw_store sample_devices"]
    by (simp add: asked_devices_def device_with_persistence_def device_with_config_def device_request_access_def
        device_has_valid_pending_def device_approve_def pending_device_valid_def sample_devices_def upsert_device_def Let_def)
  ultimately show ?thesis by (rule converse_rtranclp_into_rtranclp [OF _ r_into_rtranclp])
qed


text \<open>However devices ask, the number of pending requests never exceeds the limit.\<close>

theorem device_requests_bounded:
  assumes "(device_step h)\<^sup>*\<^sup>* (device_start ttl n t) w"
  shows "length (dp_pending (dw_store w)) \<le> dp_max_pending (dw_store w)"
proof -
  have "pending_in_bounds (dw_store w)"
    using assms
  proof (induction rule: rtranclp_induct)
    case base
    then show ?case by (simp add: pending_in_bounds_def device_start_def device_with_persistence_def device_with_config_def)
  next
    case (step y z)
    then show ?case using device_step_bounded by blast
  qed
  then show ?thesis by (simp add: pending_in_bounds_def)
qed

theorem device_requests_bounded_witness:
  "length (dp_pending (dw_store sample_devices)) \<le> dp_max_pending (dw_store sample_devices)"
  by (rule device_requests_bounded [OF sample_devices_reached])

section \<open>Where the code departs from its documentation\<close>

text \<open>
  Expired requests are never removed but by their codes: once the limit is reached by requests nobody decides, no new
  device can ask, at any later time.
\<close>

lemma expired_requests_lock_out:
  "dp_max_pending s \<le> length (dp_pending s) \<Longrightarrow> map_of (dp_authorized s) d = None \<Longrightarrow> d \<notin> hm_keys (dp_pending_index s) \<Longrightarrow>
   device_request_access now code d name key s = (Device_Rate_Limited, s)"
  by (simp add: device_request_access_def device_has_valid_pending_def map_of_eq_None_iff [symmetric] split: option.split)

lemma expired_requests_lock_out_example:
  "(let s = snd (device_request_access 0 ''B'' ''b'' None None (snd (device_request_access 0 ''A'' ''a'' None None (device_with_config 10 2))))
    in list_all (\<lambda>(_, r). \<not> pending_device_valid 1000 r) (dp_pending s)
       \<and> fst (device_request_access 1000 ''C'' ''c'' None None s) = Device_Rate_Limited)"
  by code_simp

text \<open>A revocation whose row could not be deleted is undone by a restart.\<close>

lemma failed_delete_revives_device:
  "(let s = dw_store sample_devices; s1 = snd (device_revoke False ''phone'' s)
    in validate_token id ''dt_1'' s1 = None \<and> validate_token id ''dt_1'' (device_restart s1) = Some ''phone'')"
  by code_simp

end
