(* ===== verification/Gateway_Access.thy ===== *)
theory Gateway_Access
  imports Gateway_Protocol Ws_Entry Auth_Sessions Device_Pairing
begin

text \<open>
  The way of a client into the gateway: the REST credential check (\<open>gateway/middleware.rs\<close>), the exchange of a
  credential for a ticket (\<open>gateway/handlers/ws_ticket.rs\<close>), the check of an upgrade and the receiving task of a
  connection with its rate limit (\<open>gateway/ws/core.rs\<close>), the handshake (\<open>gateway/ws/handshake.rs\<close>) and the dispatcher.
  What the handlers behind the dispatcher do is a parameter; everything that decides whether they run is modelled.
  Digests, the decoding of URLs, the clock and random names are parameters, a connect frame is the record its parser
  yields. The frame limiter counts in billionths of a frame, without the rounding of the floating point numbers of the
  code.
\<close>

section \<open>The gateway\<close>

record gateway_security =
  sc_auth_required :: bool
  sc_auth_mode :: auth_mode
  sc_shared_token :: "string option"
  sc_local_scopes :: "string list"
  sc_shared_token_scopes :: "string list"
  sc_device_scopes :: "string list"
  sc_allowed_ws_origins :: "string list"
  sc_host :: string
  sc_port :: nat

definition default_local_scopes :: "string list" where
  "default_local_scopes = [scope_chat, scope_read, scope_write, scope_pairing]"

definition default_shared_token_scopes :: "string list" where
  "default_shared_token_scopes = [scope_chat, scope_read, scope_pairing]"

definition default_device_scopes :: "string list" where
  "default_device_scopes = default_local_scopes"

record gateway =
  gw_config :: gateway_security
  gw_auth :: auth_manager
  gw_tickets :: ws_tickets
  gw_devices :: device_store
  gw_pair_events :: "(string \<times> string) list"

text \<open>What lies outside: the digests, the representable times, the database, and the URL decoder.\<close>

record outside =
  ou_session_hash :: "string \<Rightarrow> string"
  ou_device_hash :: "string \<Rightarrow> string"
  ou_representable :: "int \<Rightarrow> bool"
  ou_db :: session_db
  ou_decode :: "string \<Rightarrow> string option"

definition gw_validate :: "outside \<Rightarrow> int \<Rightarrow> string \<Rightarrow> gateway \<Rightarrow> auth_session option \<times> gateway" where
  "gw_validate o' now token g =
     (case validate_session (ou_session_hash o') (ou_representable o') (ou_db o') now token (gw_auth g) of
        (r, m) \<Rightarrow> (r, g\<lparr>gw_auth := m\<rparr>))"

definition session_worth :: "auth_session \<Rightarrow> string list" where
  "session_worth se = (if se_scopes se = [] then default_scopes else se_scopes se)"

definition bearer :: "string option \<Rightarrow> string option" where
  "bearer header = (case header of Some t \<Rightarrow> strip_prefix ''Bearer '' t | None \<Rightarrow> None)"

section \<open>REST\<close>

datatype rest_auth =
    Rest_Open
  | Rest_Context string "string list"
  | Rest_Unauthorized

definition shared_token_matches :: "string option \<Rightarrow> string \<Rightarrow> bool" where
  "shared_token_matches shared presented = (case shared of Some t \<Rightarrow> presented = t | None \<Rightarrow> False)"

definition auth_middleware :: "outside \<Rightarrow> int \<Rightarrow> string \<Rightarrow> string \<Rightarrow> string option \<Rightarrow> gateway \<Rightarrow> rest_auth \<times> gateway" where
  "auth_middleware o' now actor path header g =
     (let cfg = gw_config g; required = sc_auth_required cfg \<or> sc_auth_mode cfg = Auth_Token
      in if \<not> required then (Rest_Open, g)
         else case header of
             None \<Rightarrow> (Rest_Unauthorized,
               g\<lparr>gw_auth := log_auth Audit_Token_Validation actor path False ''Authorization header missing'' (gw_auth g)\<rparr>)
           | Some _ \<Rightarrow>
               (case bearer header of
                  None \<Rightarrow> (Rest_Unauthorized,
                    g\<lparr>gw_auth := log_auth Audit_Token_Validation actor path False ''Bearer token missing or malformed'' (gw_auth g)\<rparr>)
                | Some token \<Rightarrow>
                    (case gw_validate o' now token g of
                       (Some se, g1) \<Rightarrow> (Rest_Context (se_user_id se) (session_worth se), g1)
                     | (None, g1) \<Rightarrow>
                         if shared_token_matches (sc_shared_token cfg) token
                         then (Rest_Context ''shared'' (sc_shared_token_scopes cfg), g1)
                         else (Rest_Unauthorized, g1))))"

text \<open>\<open>POST /api/v1/ws-ticket\<close>, behind the credential check; \<open>None\<close> is the refusal.\<close>

definition ws_ticket_handler :: "int \<Rightarrow> string \<Rightarrow> rest_auth \<Rightarrow> gateway \<Rightarrow> string option \<times> gateway" where
  "ws_ticket_handler now name auth g =
     (case auth of
        Rest_Unauthorized \<Rightarrow> (None, g)
      | Rest_Open \<Rightarrow> (Some name, g\<lparr>gw_tickets := issue_ticket now name ''anonymous'' (sc_local_scopes (gw_config g)) (gw_tickets g)\<rparr>)
      | Rest_Context user scopes \<Rightarrow> (Some name, g\<lparr>gw_tickets := issue_ticket now name user scopes (gw_tickets g)\<rparr>))"

section \<open>The upgrade\<close>

record ws_auth_result =
  wa_user_id :: string
  wa_scopes :: "string list"

record upgrade_request =
  ur_headers :: upgrade_headers
  ur_authorization :: "string option"
  ur_query :: "string option"

definition query_param :: "(string \<Rightarrow> string option) \<Rightarrow> string option \<Rightarrow> string \<Rightarrow> string option" where
  "query_param decode query name =
     (case query of
        None \<Rightarrow> None
      | Some q \<Rightarrow>
          (case find (\<lambda>p. starts_with p (name @ ''='')) (split_char (CHR ''&'') q) of
             None \<Rightarrow> None
           | Some p \<Rightarrow> decode (drop (length name + 1) p)))"

datatype upgrade_refusal = Upgrade_Forbidden string | Upgrade_Unauthorized string

definition validate_ws_upgrade_request ::
  "outside \<Rightarrow> int \<Rightarrow> string option \<Rightarrow> string option \<Rightarrow> string option \<Rightarrow> gateway \<Rightarrow> (upgrade_refusal + ws_auth_result) \<times> gateway" where
  "validate_ws_upgrade_request o' now authorization query_token query_ticket g =
     (case query_ticket of
        Some ticket \<Rightarrow>
          (case consume_ticket now ticket (gw_tickets g) of
             (Some grant, rest) \<Rightarrow>
               (Inr \<lparr>wa_user_id = tg_user_id grant, wa_scopes = tg_scopes grant\<rparr>, g\<lparr>gw_tickets := rest\<rparr>)
           | (None, rest) \<Rightarrow>
               (Inl (Upgrade_Unauthorized ''Unauthorized: the ticket is invalid or expired''), g\<lparr>gw_tickets := rest\<rparr>))
      | None \<Rightarrow>
          (let tok = bearer authorization;
               by_session = (case tok of Some t \<Rightarrow> gw_validate o' now t g | None \<Rightarrow> (None, g));
               g1 = snd by_session; cfg = gw_config g1;
               shared = \<lparr>wa_user_id = ''shared'', wa_scopes = sc_shared_token_scopes cfg\<rparr>
           in case fst by_session of
                Some se \<Rightarrow> (Inr \<lparr>wa_user_id = se_user_id se, wa_scopes = session_worth se\<rparr>, g1)
              | None \<Rightarrow>
                  if sc_shared_token cfg \<noteq> None \<and> tok \<noteq> None \<and> tok = sc_shared_token cfg then (Inr shared, g1)
                  else if sc_shared_token cfg \<noteq> None \<and> query_token \<noteq> None \<and> query_token = sc_shared_token cfg then (Inr shared, g1)
                  else (Inl (Upgrade_Unauthorized ''Unauthorized: a valid API token is required''), g1)))"

definition ws_auth_middleware ::
  "outside \<Rightarrow> int \<Rightarrow> upgrade_request \<Rightarrow> gateway \<Rightarrow> (upgrade_refusal + ws_auth_result) \<times> gateway" where
  "ws_auth_middleware o' now r g =
     (let cfg = gw_config g
      in case check_upgrade (ur_headers r) (sc_host cfg) (sc_port cfg) (sc_allowed_ws_origins cfg) of
           Inl reason \<Rightarrow> (Inl (Upgrade_Forbidden (''Forbidden: '' @ reason)), g)
         | Inr _ \<Rightarrow>
             if sc_auth_mode cfg = Auth_None
             then (Inr \<lparr>wa_user_id = ''anonymous'', wa_scopes = sc_local_scopes cfg\<rparr>, g)
             else validate_ws_upgrade_request o' now (ur_authorization r)
                    (query_param (ou_decode o') (ur_query r) ''token'') (query_param (ou_decode o') (ur_query r) ''ticket'') g)"

section \<open>The handshake\<close>

record connect_params =
  cp_protocol_version :: nat
  cp_client :: "string option"
  cp_token :: "string option"
  cp_device :: "(string \<times> string option) option"
  cp_scopes :: "string list"

text \<open>The parameters of a frame: absent, not readable as connect parameters, or parsed.\<close>

datatype connect_frame = Missing_Params | Bad_Params string | Connect_Params connect_params

datatype gateway_response = Resp_Hello string "string list" | Resp_Ok | Resp_Err string string

definition resp_ok :: "gateway_response \<Rightarrow> bool" where
  "resp_ok r = (case r of Resp_Err _ _ \<Rightarrow> False | _ \<Rightarrow> True)"

definition protocol_version_min :: nat where "protocol_version_min = 1"

definition protocol_version :: nat where "protocol_version = 1"

definition finalize_hello_ok ::
  "connect_params \<Rightarrow> string option \<Rightarrow> string list \<Rightarrow> protocol_connection \<Rightarrow> gateway_response \<times> protocol_connection" where
  "finalize_hello_ok p user granted c =
     (let c1 = c\<lparr>pc_client := (case cp_client p of Some k \<Rightarrow> Some k | None \<Rightarrow> pc_client c), pc_user_id := user,
                  pc_scopes := granted, pc_handshaked := True\<rparr>;
          channel = (case pc_client c1 of Some k \<Rightarrow> k | None \<Rightarrow> ''ws'');
          who = (case user of Some u \<Rightarrow> u | None \<Rightarrow> ''anonymous'')
      in (Resp_Hello (channel @ '':'' @ who) granted, c1))"

definition resolve_token_auth ::
  "outside \<Rightarrow> int \<Rightarrow> connect_params \<Rightarrow> gateway \<Rightarrow> (string option \<times> string list) \<times> gateway" where
  "resolve_token_auth o' now p g =
     (let by_session = (case cp_token p of Some t \<Rightarrow> gw_validate o' now t g | None \<Rightarrow> (None, g));
          g1 = snd by_session; cfg = gw_config g1
      in case fst by_session of
           Some se \<Rightarrow> ((Some (se_user_id se), session_worth se), g1)
         | None \<Rightarrow>
             if sc_shared_token cfg \<noteq> None \<and> cp_token p \<noteq> None \<and> cp_token p = sc_shared_token cfg
             then ((Some ''shared'', resolve_scopes (sc_shared_token_scopes cfg) (cp_scopes p)), g1)
             else ((None, []), g1))"

definition handle_device_auth ::
  "outside \<Rightarrow> int \<Rightarrow> string \<Rightarrow> connect_params \<Rightarrow> protocol_connection \<Rightarrow> gateway \<Rightarrow> gateway_response \<times> protocol_connection \<times> gateway" where
  "handle_device_auth o' now code p c g =
     (let scopes = resolve_scopes (sc_device_scopes (gw_config g)) (cp_scopes p)
      in case (case cp_token p of Some t \<Rightarrow> validate_token (ou_device_hash o') t (gw_devices g) | None \<Rightarrow> None) of
           Some d \<Rightarrow> (case finalize_hello_ok p (Some d) scopes c of (r, c1) \<Rightarrow> (r, c1, g))
         | None \<Rightarrow>
             (case cp_device p of
                None \<Rightarrow> (Resp_Err ''INVALID_PARAMS'' ''Device auth requires device.id'', c, g)
              | Some (d, key) \<Rightarrow>
                  (case device_request_access now code d None key (gw_devices g) of
                     (Device_Authorized _, ds) \<Rightarrow>
                       (case finalize_hello_ok p (Some d) scopes c of (r, c1) \<Rightarrow> (r, c1, g\<lparr>gw_devices := ds\<rparr>))
                   | (Pairing_Required pc, ds) \<Rightarrow>
                       (Resp_Err ''INVALID_PARAMS'' (''Device pairing required. Use '' @ quoted (''syscity device approve '' @ pc)
                          @ '' to approve.''), c,
                        g\<lparr>gw_devices := ds, gw_pair_events := gw_pair_events g @ [(d, pc)]\<rparr>)
                   | (Device_Already_Pending pc, ds) \<Rightarrow>
                       (Resp_Err ''INVALID_PARAMS'' (''Device pairing pending. Code: '' @ pc @ ''. Wait for admin approval.''), c,
                        g\<lparr>gw_devices := ds\<rparr>)
                   | (Device_Rate_Limited, ds) \<Rightarrow>
                       (Resp_Err ''RATE_LIMITED'' ''Too many requests'', c, g\<lparr>gw_devices := ds\<rparr>))))"

definition handle_connect ::
  "outside \<Rightarrow> int \<Rightarrow> string \<Rightarrow> auth_mode \<Rightarrow> ws_auth_result \<Rightarrow> connect_frame \<Rightarrow> protocol_connection \<Rightarrow> gateway
     \<Rightarrow> gateway_response \<times> protocol_connection \<times> gateway" where
  "handle_connect o' now code mode pre f c g =
     (case f of
        Missing_Params \<Rightarrow> (Resp_Err ''INVALID_PARAMS'' ''Missing connect params'', c, g)
      | Bad_Params e \<Rightarrow> (Resp_Err ''INVALID_PARAMS'' (''Invalid connect params: '' @ e), c, g)
      | Connect_Params p \<Rightarrow>
          if cp_protocol_version p < protocol_version_min \<or> protocol_version < cp_protocol_version p
          then (Resp_Err ''VERSION_MISMATCH'' ''Protocol version not supported'', c, g)
          else case mode of
              Auth_None \<Rightarrow>
                (case finalize_hello_ok p (Some (wa_user_id pre)) (resolve_scopes (wa_scopes pre) (cp_scopes p)) c of
                   (r, c1) \<Rightarrow> (r, c1, g))
            | Auth_Token \<Rightarrow>
                (case resolve_token_auth o' now p g of
                   ((user, scopes), g1) \<Rightarrow>
                     (case (if user \<noteq> None then (user, scopes)
                            else if wa_scopes pre = [] then (user, scopes)
                            else (Some (wa_user_id pre), resolve_scopes (wa_scopes pre) (cp_scopes p))) of
                        (user1, scopes1) \<Rightarrow>
                          (case finalize_hello_ok p user1 scopes1 c of (r, c1) \<Rightarrow> (r, c1, g1))))
            | Auth_Device \<Rightarrow> handle_device_auth o' now code p c g
            | Auth_Tailscale \<Rightarrow>
                (case finalize_hello_ok p (Some ''tailscale'') (resolve_scopes default_scopes (cp_scopes p)) c of
                   (r, c1) \<Rightarrow> (r, c1, g)))"

section \<open>The dispatcher\<close>

text \<open>
  A handler gets the method and what it may change: the gateway and the subscriptions of the connection. The trace lists
  the methods whose handlers ran.
\<close>

type_synonym handler = "string \<Rightarrow> gateway \<times> string list \<Rightarrow> gateway_response \<times> gateway \<times> string list"

definition dispatch_method ::
  "handler \<Rightarrow> string \<Rightarrow> protocol_connection \<Rightarrow> gateway \<Rightarrow> gateway_response \<times> string list \<times> protocol_connection \<times> gateway" where
  "dispatch_method handler m c g =
     (case method_scope m of
        Some required \<Rightarrow>
          if \<not> scopes_allow (pc_scopes c) m
          then (Resp_Err ''FORBIDDEN'' (''Missing required scope: '' @ required), [], c, g)
          else if m \<notin> fst ` set method_scopes then (Resp_Err ''METHOD_NOT_FOUND'' (''Unknown method: '' @ m), [], c, g)
          else (case handler m (g, pc_subscriptions c) of
                  (r, g1, subs) \<Rightarrow> (r, [m], c\<lparr>pc_subscriptions := subs\<rparr>, g1))
      | None \<Rightarrow>
          if m = ''ping'' then (Resp_Ok, [m], c, g)
          else (Resp_Err ''INVALID_REQUEST'' ''connect can only be sent as first message'', [], c, g))"

section \<open>The frame limiter\<close>

definition nano :: int where "nano = 1000000000"

definition ws_rate_per_sec :: int where "ws_rate_per_sec = 600"

definition ws_rate_burst :: int where "ws_rate_burst = 1200"

definition ws_rate_strikes :: nat where "ws_rate_strikes = 10"

record frame_limiter =
  fl_tokens :: int
  fl_last :: int
  fl_strikes :: nat

definition new_frame_limiter :: "int \<Rightarrow> frame_limiter" where
  "new_frame_limiter now = \<lparr>fl_tokens = ws_rate_burst * nano, fl_last = now, fl_strikes = 0\<rparr>"

definition allow_at :: "int \<Rightarrow> frame_limiter \<Rightarrow> bool \<times> frame_limiter" where
  "allow_at now l =
     (let elapsed = max 0 (now - fl_last l);
          tokens = min (fl_tokens l + elapsed * ws_rate_per_sec) (ws_rate_burst * nano)
      in if nano \<le> tokens then (True, \<lparr>fl_tokens = tokens - nano, fl_last = now, fl_strikes = 0\<rparr>)
         else (False, \<lparr>fl_tokens = tokens, fl_last = now, fl_strikes = fl_strikes l + 1\<rparr>))"

section \<open>The receiving task\<close>

datatype frame =
    Fr_Connect connect_frame
  | Fr_Request string
  | Fr_Malformed string
  | Fr_Close
  | Fr_Other

text \<open>
  The first phase: the first text frame must be a connect; anything else ends the connection. A timeout is an end of the
  input. The answer says whether the handshake succeeded and what is left of the input.
\<close>

fun await_connect ::
  "outside \<Rightarrow> auth_mode \<Rightarrow> ws_auth_result \<Rightarrow> (int \<times> string \<times> frame) list \<Rightarrow> protocol_connection \<Rightarrow> gateway
     \<Rightarrow> gateway_response list \<times> (int \<times> string \<times> frame) list option \<times> protocol_connection \<times> gateway" where
  "await_connect o' mode pre [] c g = ([], None, c, g)"
| "await_connect o' mode pre ((now, code, f) # fs) c g =
     (case f of
        Fr_Connect p \<Rightarrow>
          (case handle_connect o' now code mode pre p c g of
             (r, c1, g1) \<Rightarrow> if resp_ok r then ([r], Some fs, c1\<lparr>pc_handshaked := True\<rparr>, g1) else ([r], None, c1, g1))
      | Fr_Request m \<Rightarrow> ([Resp_Err ''INVALID_REQUEST'' ''First message must be connect''], None, c, g)
      | Fr_Malformed e \<Rightarrow> ([], None, c, g)
      | Fr_Close \<Rightarrow> ([], None, c, g)
      | Fr_Other \<Rightarrow> await_connect o' mode pre fs c g)"

text \<open>The second phase. The trace collects the methods whose handlers ran.\<close>

definition method_of :: "frame \<Rightarrow> string + string" where
  "method_of f =
     (case f of Fr_Connect _ \<Rightarrow> Inr ''connect'' | Fr_Request m \<Rightarrow> Inr m | Fr_Malformed e \<Rightarrow> Inl e | _ \<Rightarrow> Inl [])"

fun serve_frames ::
  "handler \<Rightarrow> (int \<times> string \<times> frame) list \<Rightarrow> frame_limiter \<Rightarrow> protocol_connection \<Rightarrow> gateway
     \<Rightarrow> gateway_response list \<times> string list \<times> protocol_connection \<times> gateway" where
  "serve_frames handler [] l c g = ([], [], c, g)"
| "serve_frames handler ((now, code, f) # fs) l c g =
     (if f = Fr_Close then ([], [], c, g)
      else if f = Fr_Other then serve_frames handler fs l c g
      else case allow_at now l of
          (False, l1) \<Rightarrow>
            if ws_rate_strikes \<le> fl_strikes l1 then ([], [], c, g)
            else (case serve_frames handler fs l1 c g of
                    (rs, ms, c2, g2) \<Rightarrow> (Resp_Err ''RATE_LIMITED'' ''Too many requests: 600 frames/s sustained, 1200 burst'' # rs, ms, c2, g2))
        | (True, l1) \<Rightarrow>
            (case method_of f of
               Inl e \<Rightarrow>
                 (case serve_frames handler fs l1 c g of
                    (rs, ms, c2, g2) \<Rightarrow> (Resp_Err ''INVALID_JSON'' (''Malformed request frame: '' @ e) # rs, ms, c2, g2))
             | Inr m \<Rightarrow>
                 (case dispatch_method handler m c g of
                    (r, ran_now, c1, g1) \<Rightarrow>
                      (case serve_frames handler fs l1 c1 g1 of (rs, ms, c2, g2) \<Rightarrow> (r # rs, ran_now @ ms, c2, g2)))))"

definition handle_websocket ::
  "outside \<Rightarrow> handler \<Rightarrow> string \<Rightarrow> string option \<Rightarrow> auth_mode \<Rightarrow> ws_auth_result \<Rightarrow> (int \<times> string \<times> frame) list \<Rightarrow> int \<Rightarrow> gateway
     \<Rightarrow> gateway_response list \<times> string list \<times> protocol_connection \<times> gateway" where
  "handle_websocket o' handler conn_id session mode pre fs served g =
     (let c = (new_connection conn_id)\<lparr>pc_subscriptions := (case session of Some s \<Rightarrow> [s] | None \<Rightarrow> [])\<rparr>
      in case await_connect o' mode pre fs c g of
           (rs, None, c1, g1) \<Rightarrow> (rs, [], c1, g1)
         | (rs, Some rest, c1, g1) \<Rightarrow>
             (case serve_frames handler rest (new_frame_limiter served) c1 g1 of (rs2, ms, c2, g2) \<Rightarrow> (rs @ rs2, ms, c2, g2)))"

section \<open>What a credential is worth\<close>

text \<open>The scopes a frame token is worth by itself, and the scopes a connection may get under each mode.\<close>

definition token_worth :: "outside \<Rightarrow> int \<Rightarrow> string option \<Rightarrow> gateway \<Rightarrow> string set" where
  "token_worth o' now token g =
     (case token of
        None \<Rightarrow> {}
      | Some t \<Rightarrow>
          (case fst (gw_validate o' now t g) of
             Some se \<Rightarrow> set (session_worth se)
           | None \<Rightarrow> if sc_shared_token (gw_config g) = Some t then set (sc_shared_token_scopes (gw_config g)) else {}))"

definition device_worth :: "outside \<Rightarrow> connect_params \<Rightarrow> gateway \<Rightarrow> string set" where
  "device_worth o' p g =
     (if (\<exists>t d. cp_token p = Some t \<and> validate_token (ou_device_hash o') t (gw_devices g) = Some d) \<or>
         (\<exists>d k. cp_device p = Some (d, k) \<and> get_device d (gw_devices g) \<noteq> None)
      then set (sc_device_scopes (gw_config g)) else {})"

definition worth :: "outside \<Rightarrow> int \<Rightarrow> auth_mode \<Rightarrow> ws_auth_result \<Rightarrow> connect_params \<Rightarrow> gateway \<Rightarrow> string set" where
  "worth o' now mode pre p g =
     (case mode of
        Auth_None \<Rightarrow> set (wa_scopes pre)
      | Auth_Token \<Rightarrow> set (wa_scopes pre) \<union> token_worth o' now (cp_token p) g
      | Auth_Device \<Rightarrow> device_worth o' p g
      | Auth_Tailscale \<Rightarrow> set default_scopes)"

lemma gw_validate_config [simp]: "gw_config (snd (gw_validate o' now t g)) = gw_config g"
  by (simp add: gw_validate_def split: prod.split)

lemma resolve_nothing [simp]: "resolve_scopes [] r = []"
  by (simp add: resolve_scopes_def)

lemma finalize_fields:
  "finalize_hello_ok p user granted c = (r, c1) \<Longrightarrow>
   pc_scopes c1 = granted \<and> pc_user_id c1 = user \<and> pc_handshaked c1 \<and> pc_subscriptions c1 = pc_subscriptions c"
  by (auto simp: finalize_hello_ok_def Let_def)

lemma resolve_token_worth:
  assumes "resolve_token_auth o' now p g = ((user, scopes), g1)"
  shows "set scopes \<subseteq> token_worth o' now (cp_token p) g" and "user = None \<Longrightarrow> scopes = []"
proof -
  have "set scopes \<subseteq> token_worth o' now (cp_token p) g \<and> (user = None \<longrightarrow> scopes = [])"
  proof (cases "cp_token p")
    case None
    with assms show ?thesis by (simp add: resolve_token_auth_def)
  next
    case (Some t)
    obtain r g2 where v: "gw_validate o' now t g = (r, g2)" by fastforce
    then have cfg: "gw_config g2 = gw_config g" using gw_validate_config [of o' now t g] by simp
    show ?thesis using assms Some v cfg set_resolve_scopes
      by (cases r) (auto simp: resolve_token_auth_def token_worth_def Let_def split: if_splits)
  qed
  then show "set scopes \<subseteq> token_worth o' now (cp_token p) g" "user = None \<Longrightarrow> scopes = []" by blast+
qed

lemma device_auth_worth:
  assumes "handle_device_auth o' now code p c g = (r, c1, g1)" and "resp_ok r"
  shows "set (pc_scopes c1) \<subseteq> device_worth o' p g"
proof -
  have narrow: "set (resolve_scopes (sc_device_scopes (gw_config g)) (cp_scopes p)) \<subseteq> set (sc_device_scopes (gw_config g))"
    by (auto simp: set_resolve_scopes)
  show ?thesis
  proof (cases "case cp_token p of Some t \<Rightarrow> validate_token (ou_device_hash o') t (gw_devices g) | None \<Rightarrow> None")
    case (Some d)
    then have "\<exists>t d. cp_token p = Some t \<and> validate_token (ou_device_hash o') t (gw_devices g) = Some d"
      by (cases "cp_token p") auto
    moreover have "pc_scopes c1 = resolve_scopes (sc_device_scopes (gw_config g)) (cp_scopes p)"
      using assms Some by (auto simp: handle_device_auth_def Let_def dest: finalize_fields split: prod.splits)
    ultimately show ?thesis using narrow by (simp add: device_worth_def)
  next
    case None
    with assms obtain d key where d: "cp_device p = Some (d, key)"
      by (auto simp: handle_device_auth_def Let_def resp_ok_def split: option.splits)
    with assms None obtain dev where dev: "map_of (dp_authorized (gw_devices g)) d = Some dev"
      by (auto simp: handle_device_auth_def Let_def resp_ok_def device_request_access_def split: option.splits if_splits)
    have "pc_scopes c1 = resolve_scopes (sc_device_scopes (gw_config g)) (cp_scopes p)"
      using assms None d dev
      by (auto simp: handle_device_auth_def Let_def device_request_access_def dest: finalize_fields split: prod.splits)
    then show ?thesis using narrow d dev by (auto simp: device_worth_def get_device_def)
  qed
qed

lemma connect_worth:
  assumes "handle_connect o' now code mode pre (Connect_Params p) c g = (r, c1, g1)" and "resp_ok r"
  shows "set (pc_scopes c1) \<subseteq> worth o' now mode pre p g"
proof (cases mode)
  case Auth_None
  with assms show ?thesis
    by (auto simp: handle_connect_def worth_def set_resolve_scopes resp_ok_def dest!: finalize_fields split: prod.splits if_splits)
next
  case Auth_Token
  obtain user scopes g2 where t: "resolve_token_auth o' now p g = ((user, scopes), g2)" by (metis surj_pair)
  have "pc_scopes c1 = scopes \<or> pc_scopes c1 = resolve_scopes (wa_scopes pre) (cp_scopes p)"
    using assms Auth_Token t
    by (auto simp: handle_connect_def resp_ok_def dest!: finalize_fields split: prod.splits if_splits)
  then show ?thesis using resolve_token_worth(1) [OF t] Auth_Token by (auto simp: worth_def set_resolve_scopes split: if_splits)
next
  case Auth_Device
  with assms have "handle_device_auth o' now code p c g = (r, c1, g1)"
    by (auto simp: handle_connect_def resp_ok_def split: if_splits)
  from device_auth_worth [OF this assms(2)] Auth_Device show ?thesis by (simp add: worth_def)
next
  case Auth_Tailscale
  with assms show ?thesis
    by (auto simp: handle_connect_def worth_def set_resolve_scopes resp_ok_def dest!: finalize_fields split: prod.splits if_splits)
qed

lemma dispatch_allowed:
  assumes "dispatch_method handler m c g = (r, ms, c1, g1)" and "m' \<in> set ms"
  shows "m' = m \<and> m \<noteq> ''connect'' \<and> scopes_allow (pc_scopes c) m"
  using assms method_scope_None [of m] method_scope_None [of "''connect''"]
  by (auto simp: dispatch_method_def scopes_allow_def split: option.splits if_splits prod.splits)

lemma dispatch_keeps_scopes: "dispatch_method handler m c g = (r, ms, c1, g1) \<Longrightarrow> pc_scopes c1 = pc_scopes c"
  by (auto simp: dispatch_method_def split: option.splits if_splits prod.splits)

lemma serve_frames_allowed:
  "serve_frames handler fs l c g = (rs, ms, c1, g1) \<Longrightarrow> m \<in> set ms \<Longrightarrow> m \<noteq> ''connect'' \<and> scopes_allow (pc_scopes c) m"
proof (induction fs arbitrary: l c g rs ms c1 g1)
  case (Cons x fs)
  obtain now code f where x: "x = (now, code, f)" by (metis surj_pair)
  obtain ok l1 where a: "allow_at now l = (ok, l1)" by fastforce
  show ?case
  proof (cases "f = Fr_Close \<or> f = Fr_Other \<or> \<not> ok")
    case True
    with Cons.prems x a Cons.IH show ?thesis by (auto split: if_splits prod.splits)
  next
    case False
    show ?thesis
    proof (cases "method_of f")
      case (Inl e)
      with Cons.prems x a False Cons.IH show ?thesis by (auto split: prod.splits)
    next
      case (Inr m0)
      obtain r ran_now c2 g2 where d: "dispatch_method handler m0 c g = (r, ran_now, c2, g2)" by (metis surj_pair)
      obtain rs2 ms2 c3 g3 where s: "serve_frames handler fs l1 c2 g2 = (rs2, ms2, c3, g3)" by (metis surj_pair)
      have "ms = ran_now @ ms2" using Cons.prems(1) x False a Inr d s by auto
      then consider "m \<in> set ran_now" | "m \<in> set ms2" using Cons.prems(2) by auto
      then show ?thesis
      proof cases
        case 1
        then show ?thesis using dispatch_allowed [OF d] by blast
      next
        case 2
        then show ?thesis using Cons.IH [OF s] dispatch_keeps_scopes [OF d] by simp
      qed
    qed
  qed
qed simp

lemma await_connect_worth:
  "await_connect o' mode pre fs c g = (rs, Some rest, c1, g1) \<Longrightarrow>
   \<exists>now code p. (now, code, Fr_Connect (Connect_Params p)) \<in> set fs \<and> set (pc_scopes c1) \<subseteq> worth o' now mode pre p g"
proof (induction fs)
  case (Cons x fs)
  obtain now code f where x: "x = (now, code, f)" by (metis surj_pair)
  show ?case
  proof (cases f)
    case (Fr_Connect q)
    obtain r c2 g2 where h: "handle_connect o' now code mode pre q c g = (r, c2, g2)" by (metis surj_pair)
    with Cons.prems x Fr_Connect have ok: "resp_ok r" "c1 = c2\<lparr>pc_handshaked := True\<rparr>" by (auto split: if_splits)
    then obtain p where "q = Connect_Params p" using h
      by (cases q) (auto simp: handle_connect_def resp_ok_def)
    with connect_worth h ok x Fr_Connect show ?thesis by fastforce
  qed (use Cons x in auto)
qed simp

section \<open>Properties\<close>

text \<open>C3. No connection ever does more than its credentials are worth. Over the whole life of a connection, from the
  upgrade through the handshake and every frame that follows, a handler runs only for ping or for a method whose scope,
  or admin, is among the scopes that the credentials of the upgrade or of the connect frame confer: the local scopes,
  the ticket, the session, the shared token, the device or the tailnet. What the client asks for never adds a scope.
\<close>

theorem methods_within_credentials:
  assumes "handle_websocket o' handler conn_id session mode pre fs served g = (rs, ms, c, g')" and "m \<in> set ms"
  shows "m = ''ping'' \<or> (\<exists>now code p s. (now, code, Fr_Connect (Connect_Params p)) \<in> set fs \<and>
    s \<in> worth o' now mode pre p g \<and> (s = scope_admin \<or> map_of method_scopes m = Some (Some s)))"
proof -
  let ?c = "(new_connection conn_id)\<lparr>pc_subscriptions := (case session of Some s \<Rightarrow> [s] | None \<Rightarrow> [])\<rparr>"
  obtain rs1 next_frames c1 g1 where a: "await_connect o' mode pre fs ?c g = (rs1, next_frames, c1, g1)" by (metis surj_pair)
  then obtain rest where rest: "next_frames = Some rest" using assms by (cases next_frames) (auto simp: handle_websocket_def Let_def)
  obtain rs2 ms2 c2 g2 where s: "serve_frames handler rest (new_frame_limiter served) c1 g1 = (rs2, ms2, c2, g2)" by (metis surj_pair)
  with a rest assms have "m \<in> set ms2" by (auto simp: handle_websocket_def Let_def)
  from serve_frames_allowed [OF s this] have "m \<noteq> ''connect''" "scopes_allow (pc_scopes c1) m" by blast+
  then have allowed: "m = ''ping'' \<or> (\<exists>s. s \<in> set (pc_scopes c1) \<and> (s = scope_admin \<or> map_of method_scopes m = Some (Some s)))"
    using method_scope_None [of m] by (auto simp: scopes_allow_def method_scope_def split: if_splits option.splits)
  from await_connect_worth [OF a [unfolded rest]] obtain now code p where
    "(now, code, Fr_Connect (Connect_Params p)) \<in> set fs" "set (pc_scopes c1) \<subseteq> worth o' now mode pre p g" by blast
  then show ?thesis using allowed by blast
qed

definition sample_outside :: outside where
  "sample_outside = \<lparr>ou_session_hash = (\<lambda>t. t), ou_device_hash = (\<lambda>t. t), ou_representable = (\<lambda>_. True), ou_db = healthy,
     ou_decode = Some\<rparr>"

definition demo_gateway :: "auth_mode \<Rightarrow> gateway" where
  "demo_gateway mode =
     \<lparr>gw_config = \<lparr>sc_auth_required = False, sc_auth_mode = mode, sc_shared_token = Some ''secret'',
        sc_local_scopes = default_local_scopes, sc_shared_token_scopes = default_shared_token_scopes,
        sc_device_scopes = default_device_scopes, sc_allowed_ws_origins = [], sc_host = ''127.0.0.1'', sc_port = 8\<rparr>,
      gw_auth = with_audit_log persistent_new (sw_manager logged_in), gw_tickets = [],
      gw_devices = dw_store sample_devices, gw_pair_events = []\<rparr>"

definition plain_connect :: connect_params where
  "plain_connect = \<lparr>cp_protocol_version = 1, cp_client = None, cp_token = None, cp_device = None, cp_scopes = []\<rparr>"

definition echo :: handler where
  "echo m s = (Resp_Ok, s)"

definition sample_run :: "gateway_response list \<times> string list \<times> protocol_connection \<times> gateway" where
  "sample_run = handle_websocket sample_outside echo ''c1'' None Auth_None
     \<lparr>wa_user_id = ''anonymous'', wa_scopes = default_local_scopes\<rparr>
     [(0, ''X'', Fr_Connect (Connect_Params plain_connect)), (1, ''X'', Fr_Request ''health'')] 0 (demo_gateway Auth_None)"

theorem methods_within_credentials_witness:
  "''health'' \<in> set (fst (snd sample_run)) \<and>
   (''health'' = ''ping'' \<or> (\<exists>now code p s. (now, code, Fr_Connect (Connect_Params p)) \<in>
        set [(0, ''X'', Fr_Connect (Connect_Params plain_connect)), (1, ''X'', Fr_Request ''health'')] \<and>
      s \<in> worth sample_outside now Auth_None \<lparr>wa_user_id = ''anonymous'', wa_scopes = default_local_scopes\<rparr> p (demo_gateway Auth_None) \<and>
      (s = scope_admin \<or> map_of method_scopes ''health'' = Some (Some s))))"
proof -
  have ran: "fst (snd sample_run) = [''health'']" by code_simp
  obtain rs ms c g' where run: "sample_run = (rs, ms, c, g')" by (metis surj_pair)
  then have "ms = fst (snd sample_run)" by (metis fst_conv snd_conv)
  then have "''health'' \<in> set ms" using ran by (metis list.set_intros(1))
  from methods_within_credentials [OF run [unfolded sample_run_def] this] show ?thesis
    using ran by (metis list.set_intros(1))
qed

text \<open>C10. Outside the open mode an upgrade is accepted only with a credential, and is worth what that credential is worth:
  a ticket that is accepted now, with the scopes it was issued for; a session token that validates now, with the scopes
  of the session, or the default ones where it has none; or the shared token, with the scopes configured for it. The
  headers have passed the origin check.
\<close>

theorem upgrade_needs_credential:
  assumes "ws_auth_middleware o' now r g = (Inr a, g')" and "sc_auth_mode (gw_config g) \<noteq> Auth_None"
  shows "check_upgrade (ur_headers r) (sc_host (gw_config g)) (sc_port (gw_config g)) (sc_allowed_ws_origins (gw_config g)) = Inr () \<and>
    ((\<exists>t grant. query_param (ou_decode o') (ur_query r) ''ticket'' = Some t \<and>
        fst (consume_ticket now t (gw_tickets g)) = Some grant \<and> wa_user_id a = tg_user_id grant \<and> wa_scopes a = tg_scopes grant) \<or>
     (\<exists>t se. bearer (ur_authorization r) = Some t \<and> fst (gw_validate o' now t g) = Some se \<and>
        wa_user_id a = se_user_id se \<and> wa_scopes a = session_worth se) \<or>
     (\<exists>t. sc_shared_token (gw_config g) = Some t \<and>
        t \<in> set_option (bearer (ur_authorization r)) \<union> set_option (query_param (ou_decode o') (ur_query r) ''token'') \<and>
        wa_user_id a = ''shared'' \<and> wa_scopes a = sc_shared_token_scopes (gw_config g)))"
proof -
  let ?tok = "bearer (ur_authorization r)" and ?qt = "query_param (ou_decode o') (ur_query r) ''token''"
    and ?ticket = "query_param (ou_decode o') (ur_query r) ''ticket''"
  have origin: "check_upgrade (ur_headers r) (sc_host (gw_config g)) (sc_port (gw_config g)) (sc_allowed_ws_origins (gw_config g)) = Inr ()"
    and v: "validate_ws_upgrade_request o' now (ur_authorization r) ?qt ?ticket g = (Inr a, g')"
    using assms by (auto simp: ws_auth_middleware_def Let_def split: sum.splits)
  show ?thesis
  proof (cases ?ticket)
    case (Some t)
    with v origin show ?thesis by (auto simp: validate_ws_upgrade_request_def split: prod.splits option.splits)
  next
    case None
    define res where "res = (case ?tok of Some t \<Rightarrow> gw_validate o' now t g | None \<Rightarrow> (None, g))"
    have cfg: "gw_config (snd res) = gw_config g" by (simp add: res_def split: option.split)
    show ?thesis
    proof (cases "fst res")
      case (Some se)
      then obtain t where "?tok = Some t" "fst (gw_validate o' now t g) = Some se" by (auto simp: res_def split: option.splits)
      moreover have "a = \<lparr>wa_user_id = se_user_id se, wa_scopes = session_worth se\<rparr>"
        using v None Some by (simp add: validate_ws_upgrade_request_def Let_def flip: res_def)
      ultimately show ?thesis using origin by auto
    next
      case none: None
      then have "(if sc_shared_token (gw_config g) \<noteq> None \<and> ?tok \<noteq> None \<and> ?tok = sc_shared_token (gw_config g) then True
          else sc_shared_token (gw_config g) \<noteq> None \<and> ?qt \<noteq> None \<and> ?qt = sc_shared_token (gw_config g)) \<and>
          a = \<lparr>wa_user_id = ''shared'', wa_scopes = sc_shared_token_scopes (gw_config g)\<rparr>"
        using v None cfg by (simp add: validate_ws_upgrade_request_def Let_def flip: res_def split: if_splits)
      then show ?thesis using origin by (auto split: if_splits)
    qed
  qed
qed

definition shared_upgrade :: upgrade_request where
  "shared_upgrade = \<lparr>ur_headers = \<lparr>uh_host = Some ''localhost:8'', uh_origin = None\<rparr>,
     ur_authorization = Some ''Bearer secret'', ur_query = None\<rparr>"

theorem upgrade_needs_credential_witness:
  "\<exists>a g'. ws_auth_middleware sample_outside 5 shared_upgrade (demo_gateway Auth_Token) = (Inr a, g') \<and>
     check_upgrade (ur_headers shared_upgrade) ''127.0.0.1'' 8 [] = Inr () \<and> wa_scopes a = default_shared_token_scopes"
proof -
  let ?run = "ws_auth_middleware sample_outside 5 shared_upgrade (demo_gateway Auth_Token)"
  have ok: "(case fst ?run of Inr a \<Rightarrow> wa_scopes a = default_shared_token_scopes | Inl _ \<Rightarrow> False)" by code_simp
  then obtain a where a: "fst ?run = Inr a" "wa_scopes a = default_shared_token_scopes" by (auto split: sum.splits)
  then obtain g' where run: "?run = (Inr a, g')" by (metis prod.collapse)
  have "check_upgrade (ur_headers shared_upgrade) (sc_host (gw_config (demo_gateway Auth_Token)))
      (sc_port (gw_config (demo_gateway Auth_Token))) (sc_allowed_ws_origins (gw_config (demo_gateway Auth_Token))) = Inr ()"
    using upgrade_needs_credential [OF run] by (simp add: demo_gateway_def)
  then show ?thesis using run a by (simp add: demo_gateway_def)
qed

text \<open>Exchanging a credential for a ticket changes nothing but its form: within thirty seconds the upgrade with the ticket
  of an authenticated client carries exactly the user and the scopes of the credential, and the same request is refused
  from then on.
\<close>

theorem ticket_exchange_round_trip:
  assumes "sc_auth_mode (gw_config g) \<noteq> Auth_None"
    and "check_upgrade (ur_headers r) (sc_host (gw_config g)) (sc_port (gw_config g)) (sc_allowed_ws_origins (gw_config g)) = Inr ()"
    and "query_param (ou_decode o') (ur_query r) ''ticket'' = Some name"
    and "now \<le> t" and "t < now + ticket_ttl"
  shows "(case ws_auth_middleware o' t r (snd (ws_ticket_handler now name (Rest_Context user scopes) g)) of
            (first, g1) \<Rightarrow> first = Inr \<lparr>wa_user_id = user, wa_scopes = scopes\<rparr> \<and>
              (\<exists>e. fst (ws_auth_middleware o' t' r g1) = Inl e))"
proof -
  let ?ts = "issue_ticket now name user scopes (gw_tickets g)"
  obtain grant rest where c: "consume_ticket t name ?ts = (Some grant, rest)"
      "tg_user_id grant = user" "tg_scopes grant = scopes" "fst (consume_ticket t' name rest) = None"
    using ws_office.handed_over_once [OF assms(4,5), of name user scopes "gw_tickets g" t']
    by (cases "consume_ticket t name ?ts") auto
  have one: "ws_auth_middleware o' t r (g\<lparr>gw_tickets := ?ts\<rparr>) =
      (Inr \<lparr>wa_user_id = user, wa_scopes = scopes\<rparr>, g\<lparr>gw_tickets := rest\<rparr>)"
    using assms(1-3) c by (simp add: ws_auth_middleware_def validate_ws_upgrade_request_def Let_def)
  obtain rest2 where "consume_ticket t' name rest = (None, rest2)" using c(4) by (metis prod.collapse)
  then have "\<exists>e. fst (ws_auth_middleware o' t' r (g\<lparr>gw_tickets := rest\<rparr>)) = Inl e"
    using assms(1-3) by (simp add: ws_auth_middleware_def validate_ws_upgrade_request_def Let_def)
  with one show ?thesis by (simp add: ws_ticket_handler_def)
qed

definition ticket_upgrade :: upgrade_request where
  "ticket_upgrade = \<lparr>ur_headers = \<lparr>uh_host = Some ''localhost:8'', uh_origin = None\<rparr>, ur_authorization = None,
     ur_query = Some ''ticket=wst_1''\<rparr>"

theorem ticket_exchange_round_trip_witness:
  "case ws_auth_middleware sample_outside 6 ticket_upgrade
     (snd (ws_ticket_handler 5 ''wst_1'' (Rest_Context ''shared'' [''chat'']) (demo_gateway Auth_Token))) of
     (first, g1) \<Rightarrow> first = Inr \<lparr>wa_user_id = ''shared'', wa_scopes = [''chat'']\<rparr> \<and>
       (\<exists>e. fst (ws_auth_middleware sample_outside 7 ticket_upgrade g1) = Inl e)"
  by (rule ticket_exchange_round_trip) code_simp+

section \<open>The rate of frames\<close>

fun frame_run :: "int list \<Rightarrow> frame_limiter \<Rightarrow> bool list \<times> frame_limiter" where
  "frame_run [] l = ([], l)"
| "frame_run (t # ts) l =
     (case allow_at t l of (ok, l1) \<Rightarrow> (case frame_run ts l1 of (oks, l2) \<Rightarrow> (ok # oks, l2)))"

definition limiter_ok :: "frame_limiter \<Rightarrow> bool" where
  "limiter_ok l \<longleftrightarrow> 0 \<le> fl_tokens l \<and> fl_tokens l \<le> ws_rate_burst * nano"

lemma allow_at_budget:
  assumes "limiter_ok l" and "fl_last l \<le> t" and "allow_at t l = (ok, l1)"
  shows "limiter_ok l1" and "fl_last l1 = t"
    and "(if ok then nano else 0) + fl_tokens l1 \<le> fl_tokens l + ws_rate_per_sec * (t - fl_last l)"
proof -
  have "ws_rate_per_sec * (t - fl_last l) \<ge> 0" using assms(2) by (simp add: ws_rate_per_sec_def)
  then show "limiter_ok l1" "fl_last l1 = t"
    "(if ok then nano else 0) + fl_tokens l1 \<le> fl_tokens l + ws_rate_per_sec * (t - fl_last l)"
    using assms by (auto simp: allow_at_def limiter_ok_def Let_def nano_def ws_rate_burst_def mult.commute split: if_splits)
qed

lemma frame_run_budget:
  "limiter_ok l \<Longrightarrow> sorted (fl_last l # ts) \<Longrightarrow> frame_run ts l = (oks, l1) \<Longrightarrow>
   limiter_ok l1 \<and> fl_last l1 = last (fl_last l # ts) \<and>
   int (length (filter (\<lambda>b. b) oks)) * nano + fl_tokens l1 \<le> fl_tokens l + ws_rate_per_sec * (last (fl_last l # ts) - fl_last l)"
proof (induction ts arbitrary: l oks l1)
  case (Cons t ts)
  obtain ok l2 where a: "allow_at t l = (ok, l2)" by fastforce
  obtain oks2 l3 where r: "frame_run ts l2 = (oks2, l3)" by fastforce
  have t: "fl_last l \<le> t" using Cons.prems(2) by simp
  note one = allow_at_budget [OF Cons.prems(1) t a]
  have "sorted (fl_last l2 # ts)" using Cons.prems(2) one(2) by simp
  from Cons.IH [OF one(1) this r] have rest: "limiter_ok l3" "fl_last l3 = last (t # ts)"
    "int (length (filter (\<lambda>b. b) oks2)) * nano + fl_tokens l3 \<le> fl_tokens l2 + ws_rate_per_sec * (last (t # ts) - t)"
    by (simp_all only: one(2))
  have "oks = ok # oks2" "l1 = l3" using Cons.prems(3) a r by auto
  with rest one(3) show ?case by (auto simp: algebra_simps split: if_splits)
qed simp

lemma frame_run_append:
  "frame_run (ts @ us) l = (case frame_run ts l of (a, l1) \<Rightarrow> (case frame_run us l1 of (b, l2) \<Rightarrow> (a @ b, l2)))"
  by (induction ts arbitrary: l) (auto split: prod.split)

text \<open>C37. However a client spaces its frames, in every stretch of its life the number of accepted frames is at most the
  burst plus the sustained rate times the length of the stretch.
\<close>

theorem frame_rate_bounded:
  assumes "sorted (start # before @ stretch)"
  shows "int (length (filter (\<lambda>b. b) (drop (length before) (fst (frame_run (before @ stretch) (new_frame_limiter start)))))) * nano
    \<le> ws_rate_burst * nano + ws_rate_per_sec * (last (start # before @ stretch) - last (start # before))"
proof -
  let ?l = "new_frame_limiter start"
  obtain a l1 where one: "frame_run before ?l = (a, l1)" by fastforce
  obtain b l2 where two: "frame_run stretch l1 = (b, l2)" by fastforce
  have ok: "limiter_ok ?l" "fl_last ?l = start" by (simp_all add: limiter_ok_def new_frame_limiter_def ws_rate_burst_def nano_def)
  have len: "length (fst (frame_run ts l)) = length ts" for ts l
    by (induction ts arbitrary: l) (simp_all add: case_prod_beta)
  have "sorted (fl_last ?l # before)" using assms ok by (simp add: sorted_append)
  from frame_run_budget [OF ok(1) this one] ok have l1: "limiter_ok l1" "fl_last l1 = last (start # before)" by auto
  have "sorted (fl_last l1 # stretch)"
    using assms l1(2) by (cases before rule: rev_cases) (auto simp: sorted_append)
  from frame_run_budget [OF l1(1) this two]
  have "int (length (filter (\<lambda>b. b) b)) * nano \<le> fl_tokens l1 + ws_rate_per_sec * (last (fl_last l1 # stretch) - fl_last l1)"
    by (auto simp: limiter_ok_def)
  also have "fl_tokens l1 \<le> ws_rate_burst * nano" using l1(1) by (simp add: limiter_ok_def)
  finally have "int (length (filter (\<lambda>b. b) b)) * nano \<le>
      ws_rate_burst * nano + ws_rate_per_sec * (last (fl_last l1 # stretch) - fl_last l1)" by simp
  moreover have "last (fl_last l1 # stretch) = last (start # before @ stretch)" using l1(2) by (cases stretch) auto
  moreover have "drop (length before) (fst (frame_run (before @ stretch) ?l)) = b"
    using one two len [of before ?l] by (simp add: frame_run_append)
  ultimately show ?thesis using l1(2) by simp
qed

theorem frame_rate_bounded_witness:
  "int (length (filter (\<lambda>b. b) (drop (length [1 :: int]) (fst (frame_run ([1] @ [2, 3]) (new_frame_limiter 0)))))) * nano
    \<le> ws_rate_burst * nano + ws_rate_per_sec * (last (0 # [1] @ [2, 3]) - last (0 # [1]))"
  by (rule frame_rate_bounded) simp

section \<open>Session titles\<close>

text \<open>
  The title of a session from its first message. The slice of forty bytes panics inside a character, \<open>None\<close> here.
\<close>

definition replace_breaks :: "string \<Rightarrow> string" where
  "replace_breaks s = map (\<lambda>c. if c = CHR 0x0A \<or> c = CHR 0x0D then CHR '' '' else c) s"

definition clean_session_title :: "string \<Rightarrow> string option" where
  "clean_session_title raw =
     (let name = trim (replace_breaks raw)
      in if 40 < byte_len name then (if is_char_boundary name 40 then Some (byte_take 40 name @ ''...'') else None)
         else if name = [] then Some ''New Session''
         else Some name)"

definition fallback_session_name :: "string \<Rightarrow> string option" where
  "fallback_session_name message = clean_session_title (join_with '' '' (take 6 (split_whitespace message)))"

section \<open>Where the code departs from its documentation\<close>

text \<open>
  With device pairing, the name of a paired device is enough: a client without any credential gets a ticket, passes the
  upgrade with it, names the device, and holds all scopes of a device, without the token that pairing issued and without
  a signature.
\<close>

definition intruder_ticket :: "string option \<times> gateway" where
  "intruder_ticket =
     (case auth_middleware sample_outside 5 ''10.0.0.9'' ''/api/v1/ws-ticket'' None (demo_gateway Auth_Device) of
        (r, g) \<Rightarrow> ws_ticket_handler 5 ''wst_1'' r g)"

definition intruder_connection :: "gateway_response \<times> protocol_connection \<times> gateway" where
  "intruder_connection =
     (case ws_auth_middleware sample_outside 6
         \<lparr>ur_headers = \<lparr>uh_host = Some ''localhost:8'', uh_origin = None\<rparr>, ur_authorization = None, ur_query = Some ''ticket=wst_1''\<rparr>
         (snd intruder_ticket) of
        (Inr a, g) \<Rightarrow> handle_connect sample_outside 7 ''CODE2'' Auth_Device a
            (Connect_Params (plain_connect\<lparr>cp_device := Some (''phone'', None)\<rparr>)) (new_connection ''c'') g
      | (Inl _, g) \<Rightarrow> (Resp_Err [] [], new_connection ''c'', g))"

lemma device_name_is_enough:
  "fst intruder_ticket = Some ''wst_1'' \<and> resp_ok (fst intruder_connection) \<and>
   pc_scopes (fst (snd intruder_connection)) = default_device_scopes \<and> pc_user_id (fst (snd intruder_connection)) = Some ''phone''"
  by code_simp

text \<open>Scopes asked for do not narrow a session: a client that asks for less still gets all scopes of its session.\<close>

lemma session_is_not_narrowed:
  "pc_scopes (fst (snd (handle_connect sample_outside 7 ''C'' Auth_Token \<lparr>wa_user_id = ''x'', wa_scopes = [scope_chat]\<rparr>
     (Connect_Params (plain_connect\<lparr>cp_token := Some ''tok'', cp_scopes := [''read'']\<rparr>)) (new_connection ''c'') (demo_gateway Auth_Token))))
   = [scope_chat]"
  by code_simp

text \<open>
  The shared token is tried as a session token first, and every token tried is logged in clear: after one upgrade with the
  shared token, a connection that may only read finds the token in the audit log.
\<close>

lemma shared_token_is_readable:
  "(case am_audit (gw_auth (snd (ws_auth_middleware sample_outside 5 shared_upgrade (demo_gateway Auth_Token)))) of
      Some l \<Rightarrow> map at_target (persistent_recent 1 l) = [''secret''] | None \<Rightarrow> False)
   \<and> map_of method_scopes ''audit.recent'' = Some (Some scope_read)"
  by (intro conjI; code_simp)

text \<open>A handshake without any scope succeeds, and the connection then receives every event that needs no scope.\<close>

lemma handshake_without_scopes_succeeds:
  "(case handle_connect sample_outside 7 ''C'' Auth_Token \<lparr>wa_user_id = ''x'', wa_scopes = []\<rparr> (Connect_Params plain_connect)
      (new_connection ''c'') (demo_gateway Auth_Token) of
      (r, c, g) \<Rightarrow> resp_ok r \<and> pc_handshaked c \<and> pc_scopes c = [] \<and> should_send c (Ev_Content_Delta ''s''))"
  by code_simp

text \<open>A first message of twenty-one two-byte characters after a one-byte one panics.\<close>

lemma title_panics_inside_character:
  "fallback_session_name (''a'' @ replicate 21 (CHR 0xE9)) = None"
  by code_simp

end
