(* ===== verification/Failure_Class.thy ===== *)
theory Failure_Class
  imports Prelude
begin

text \<open>
  Classification of provider failures (\<open>src/model_router/failure_class.rs\<close>), with the errors a provider call
  can return (\<open>src/error.rs\<close>) and their printed form, which is all the classifier looks at. The build with the
  cloud relay is modelled (the release profile): it has two classes more than the default build.
\<close>

section \<open>Errors\<close>

text \<open>The variants a provider call and the router produce. An error of \<open>reqwest\<close> carries its text and the two
  facts the client asks of it. Any other variant is its printed text.\<close>

datatype router_error =
    External_Service string
  | Config_Invalid string string
  | Http_Error string bool bool
  | Validation_Failed string
  | Other_Error string

fun display_error :: "router_error \<Rightarrow> string" where
  "display_error (External_Service source) = ''External service error: '' @ source"
| "display_error (Config_Invalid key message) =
     ''Configuration error: Invalid configuration value for '' @ quoted key @ '': '' @ message"
| "display_error (Http_Error t _ _) = ''HTTP error: '' @ t"
| "display_error (Validation_Failed m) = ''Validation error: '' @ m"
| "display_error (Other_Error t) = t"

section \<open>Classes\<close>

datatype failure_class =
    AuthTemporary | AuthPermanent | RateLimit | Billing | InsufficientCredits | CloudAuthExpired
  | Overloaded | Timeout | ConnectionError | ContentPolicy | ModelNotFound | ContextLength
  | ServerError | Unknown

definition is_retryable :: "failure_class \<Rightarrow> bool" where
  "is_retryable c \<longleftrightarrow>
     c \<in> {AuthTemporary, RateLimit, Overloaded, Timeout, ConnectionError, ServerError}"

definition should_rotate_key :: "failure_class \<Rightarrow> bool" where
  "should_rotate_key c \<longleftrightarrow> c \<in> {AuthTemporary, RateLimit}"

definition should_disable_key :: "failure_class \<Rightarrow> bool" where
  "should_disable_key c \<longleftrightarrow> c \<in> {AuthPermanent, Billing}"

definition should_cooldown_provider :: "failure_class \<Rightarrow> bool" where
  "should_cooldown_provider c \<longleftrightarrow> c \<in> {RateLimit, Overloaded, ServerError, Timeout}"

definition default_backoff_secs :: "failure_class \<Rightarrow> nat" where
  "default_backoff_secs c =
     (case c of RateLimit \<Rightarrow> 60 | Overloaded \<Rightarrow> 30 | ServerError \<Rightarrow> 15 | Timeout \<Rightarrow> 10
      | AuthTemporary \<Rightarrow> 5 | ConnectionError \<Rightarrow> 5 | CloudAuthExpired \<Rightarrow> 0 | _ \<Rightarrow> 0)"

section \<open>Classification\<close>

definition contains_any :: "string list \<Rightarrow> string \<Rightarrow> bool" where
  "contains_any ps s = list_ex (str_contains s) ps"

definition from_status_code :: "nat \<Rightarrow> router_error \<Rightarrow> failure_class" where
  "from_status_code code error =
     (if code = 400 then
        (let msg = to_lowercase (display_error error)
         in if contains_any [''context'', ''too long'', ''max_tokens'', ''token limit''] msg then ContextLength
            else if contains_any [''content'', ''policy'', ''safety'', ''moderation'', ''filtered''] msg
            then ContentPolicy
            else Unknown)
      else if code = 401 then AuthTemporary
      else if code = 403 then
        (let msg = to_lowercase (display_error error)
         in if str_contains msg ''insufficient_credits'' then InsufficientCredits
            else if contains_any [''billing'', ''payment'', ''quota'', ''insufficient''] msg then Billing
            else AuthPermanent)
      else if code = 404 then ModelNotFound
      else if code = 408 then Timeout
      else if code = 429 then RateLimit
      else if code = 502 \<or> code = 503 then Overloaded
      else if code = 500 \<or> code = 501 \<or> code = 504 \<or> code = 505 \<or> (520 \<le> code \<and> code \<le> 599) then ServerError
      else Unknown)"

definition is_ascii_digit :: "char \<Rightarrow> bool" where
  "is_ascii_digit c \<longleftrightarrow> 48 \<le> (of_char c :: nat) \<and> (of_char c :: nat) \<le> 57"

text \<open>\<open>char::is_alphanumeric\<close> on the block: letters, digits, the ordinal indicators, the micro sign, superscripts
  and fractions.\<close>

definition is_alphanumeric :: "char \<Rightarrow> bool" where
  "is_alphanumeric c \<longleftrightarrow>
     (let n = (of_char c :: nat)
      in (48 \<le> n \<and> n \<le> 57) \<or> (65 \<le> n \<and> n \<le> 90) \<or> (97 \<le> n \<and> n \<le> 122)
         \<or> n \<in> {170, 178, 179, 181, 185, 186, 188, 189, 190}
         \<or> (192 \<le> n \<and> n \<noteq> 215 \<and> n \<noteq> 247))"

fun code_after_prefix :: "string list \<Rightarrow> string \<Rightarrow> nat option" where
  "code_after_prefix [] msg = None"
| "code_after_prefix (prefix # ps) msg =
     (case find_str msg prefix of
        None \<Rightarrow> code_after_prefix ps msg
      | Some pos \<Rightarrow>
          (let digits = filter is_ascii_digit (take 3 (drop (pos + length prefix) msg))
           in if length digits = 3 then Some (digits_value digits) else code_after_prefix ps msg))"

text \<open>The scan for a run of exactly three digits that stands alone. The character before the rest is kept.\<close>

function standalone_code :: "char option \<Rightarrow> string \<Rightarrow> nat option" where
  "standalone_code before [] = None"
| "standalone_code before (c # cs) =
     (if is_ascii_digit c then
        (let run = takeWhile is_ascii_digit (c # cs);
             rest = dropWhile is_ascii_digit (c # cs);
             bounded_left = (case before of None \<Rightarrow> True | Some b \<Rightarrow> \<not> is_alphanumeric b);
             bounded_right = (case rest of [] \<Rightarrow> True | r # _ \<Rightarrow> \<not> is_alphanumeric r);
             code = digits_value run
         in if length run = 3 \<and> bounded_left \<and> bounded_right \<and> 100 \<le> code \<and> code \<le> 599
            then Some code else standalone_code (Some (last run)) rest)
      else standalone_code (Some c) cs)"
  by pat_completeness auto

termination
  by (relation "measure (\<lambda>(_, s). length s)") (auto simp: length_dropWhile_le le_imp_less_Suc)

definition status_prefixes :: "string list" where
  "status_prefixes = [''error '', ''http '', ''status '', ''api error '']"

definition extract_status_code :: "string \<Rightarrow> nat option" where
  "extract_status_code msg =
     (case code_after_prefix status_prefixes msg of
        Some code \<Rightarrow> Some code
      | None \<Rightarrow> standalone_code None msg)"

definition from_error_string :: "router_error \<Rightarrow> failure_class" where
  "from_error_string error =
     (let msg = to_lowercase (display_error error)
      in case extract_status_code msg of
           Some code \<Rightarrow> from_status_code code error
         | None \<Rightarrow>
             if contains_any [''timeout'', ''timed out''] msg then Timeout
             else if contains_any [''connection closed'', ''broken pipe'', ''connection reset'', ''reset by peer'',
                                   ''unexpected eof'', ''connection refused''] msg then ConnectionError
             else if contains_any [''overloaded'', ''service unavailable''] msg then Overloaded
             else if contains_any [''context length'', ''context window'', ''maximum context'', ''too many tokens'',
                                   ''max_tokens'', ''token limit''] msg then ContextLength
             else Unknown)"

definition from_error :: "router_error \<Rightarrow> nat option \<Rightarrow> failure_class" where
  "from_error error status_code =
     (case status_code of Some code \<Rightarrow> from_status_code code error | None \<Rightarrow> from_error_string error)"

section \<open>The error of an HTTP answer\<close>

text \<open>What \<open>execute_with_retry\<close> of \<open>gateway_client.rs\<close> makes of an answer that is no success:
  \<open>HTTP {status}: {body}\<close>, where the status prints as its number and its reason phrase.\<close>

definition http_error :: "nat \<Rightarrow> string \<Rightarrow> string \<Rightarrow> router_error" where
  "http_error code reason body =
     External_Service (''HTTP '' @ show_nat code @ '' '' @ reason @ '': '' @ body)"

section \<open>The classes follow the status\<close>

lemma three_digits:
  assumes "100 \<le> n" "n \<le> 999"
  shows "\<exists>a b c. show_nat n = [a, b, c] \<and> is_ascii_digit a \<and> is_ascii_digit b \<and> is_ascii_digit c"
proof -
  have "n div 10 div 10 < 10" using assms by auto
  then have "\<exists>a b c. show_nat n = [a, b, c]"
    using assms by (simp add: show_nat.simps [of n] show_nat.simps [of "n div 10"] show_nat.simps [of "n div 10 div 10"])
  then obtain a b c where abc: "show_nat n = [a, b, c]" by blast
  have "is_ascii_digit d" if "d \<in> set (show_nat n)" for d
    using show_nat_digits [OF that] by (simp add: is_ascii_digit_def)
  with abc show ?thesis by simp
qed

lemma lower_digit [simp]: "is_ascii_digit c \<Longrightarrow> lower_char c = c"
  by (simp add: is_ascii_digit_def lower_char_def)

lemma digit_not_letter: "is_ascii_digit c \<Longrightarrow> c \<noteq> CHR ''e'' \<and> c \<noteq> CHR ''r'' \<and> c \<noteq> CHR '' ''"
  by (auto simp: is_ascii_digit_def)

lemma lower_prefixes:
  "to_lowercase ''External service error: HTTP '' = ''external service error: http ''" "to_lowercase '' '' = '' ''"
  by code_simp+

lemma to_lowercase_append: "to_lowercase (a @ b) = to_lowercase a @ to_lowercase b"
  by (simp add: to_lowercase_def)

lemma lower_http_error:
  "to_lowercase (display_error (http_error code reason body)) =
     ''external service error: http '' @ to_lowercase (show_nat code) @ '' '' @ to_lowercase (reason @ '': '' @ body)"
proof -
  have "display_error (http_error code reason body) =
      ''External service error: HTTP '' @ show_nat code @ '' '' @ (reason @ '': '' @ body)"
    by (simp add: http_error_def)
  then show ?thesis by (simp only: to_lowercase_append lower_prefixes)
qed

lemma find_str_None_iff: "find_str s p = None \<longleftrightarrow> \<not> str_contains s p"
  using find_str_Some_iff [of s p] by (cases "find_str s p") auto

lemma http_code_extracted:
  assumes "100 \<le> code" "code \<le> 999" and "\<not> str_contains (to_lowercase (reason @ '': '' @ body)) ''error ''"
  shows "extract_status_code (to_lowercase (display_error (http_error code reason body))) = Some code"
proof -
  obtain a b c where abc: "show_nat code = [a, b, c]" "is_ascii_digit a" "is_ascii_digit b" "is_ascii_digit c"
    using three_digits assms(1,2) by blast
  let ?rest = "to_lowercase (reason @ '': '' @ body)"
  have msg: "to_lowercase (display_error (http_error code reason body)) =
      ''external service error: http '' @ [a, b, c] @ '' '' @ ?rest"
    using lower_http_error [of code reason body] abc by (simp add: to_lowercase_def)
  have no_error: "find_str (''external service error: http '' @ [a, b, c] @ '' '' @ ?rest) ''error '' = None"
    using assms(3) digit_not_letter [OF abc(2)] digit_not_letter [OF abc(3)] digit_not_letter [OF abc(4)]
    by (simp add: find_str_None_iff starts_with_def)
  have http: "find_str (''external service error: http '' @ [a, b, c] @ '' '' @ ?rest) ''http '' = Some 24"
    by (simp add: starts_with_def)
  have "code_after_prefix status_prefixes (''external service error: http '' @ [a, b, c] @ '' '' @ ?rest)
      = Some (digits_value (show_nat code))"
    unfolding status_prefixes_def code_after_prefix.simps no_error http using abc by (simp add: Let_def)
  then show ?thesis by (simp only: msg extract_status_code_def show_nat_value option.case)
qed

text \<open>The failure of a provider that answered with a status is classified by that status, whatever its reason
  phrase and its body, when neither of them prints the word \<open>error\<close> followed by a space.\<close>

theorem http_failure_follows_status:
  assumes "100 \<le> code" and "code \<le> 999"
    and "\<not> str_contains (to_lowercase (reason @ '': '' @ body)) ''error ''"
  shows "from_error (http_error code reason body) None = from_error (http_error code reason body) (Some code)"
  using http_code_extracted [OF assms] by (simp add: from_error_def from_error_string_def Let_def)

theorem http_failure_follows_status_witness:
  "from_error (http_error 429 ''Too Many Requests'' ''{slow down}'') None = RateLimit"
proof -
  have "\<not> str_contains (to_lowercase (''Too Many Requests'' @ '': '' @ ''{slow down}'')) ''error ''"
    by code_simp
  from http_failure_follows_status [OF _ _ this, of 429] show ?thesis
    by (simp add: from_error_def from_status_code_def)
qed

section \<open>Where the classifier departs from its documentation\<close>

text \<open>A body that prints \<open>error\<close> and three digits overrides the status of the answer: a relay that answers 500 and
  quotes the upstream error is classified by the quoted number, and its key is rotated.\<close>

lemma body_overrides_status:
  "from_error (http_error 500 ''Internal Server Error'' ''upstream error 401'') None = AuthTemporary"
  by code_simp

text \<open>The client's own rate limiter says how long to wait; the number of seconds is read as a status when it has
  three digits, and otherwise the error is no rate limit at all.\<close>

definition limiter_error :: "nat \<Rightarrow> router_error" where
  "limiter_error retry_after_secs =
     External_Service (''Rate limited: retry after '' @ show_nat retry_after_secs @ '' seconds'')"

lemma waiting_time_read_as_status:
  "from_error (limiter_error 403) None = AuthPermanent"
  "from_error (limiter_error 30) None = Unknown"
  by code_simp+

end
