(* ===== verification/Auth_Profile.thy ===== *)
theory Auth_Profile
  imports Failure_Class
begin

text \<open>
  API keys of a provider, their rotation and their persistence (\<open>src/model_router/auth_profile.rs\<close>,
  \<open>auth_profile_store.rs\<close>). Instants are nanoseconds; all readings of the clock within one call are one
  instant. A row of the table holds an instant where the code holds its RFC 3339 text, which \<open>chrono\<close> prints
  with all its digits. Cool-downs beyond the range of \<open>chrono::Duration\<close> are outside the model.
\<close>

section \<open>Keys\<close>

datatype key_status = Active | Cooldown | Disabled

record key_entry =
  ke_key :: string
  ke_label :: string
  ke_status :: key_status
  ke_failure_count :: u32
  ke_success_count :: u64
  ke_last_failure :: "int option"
  ke_cooldown_until :: "int option"

definition new_key :: "string \<Rightarrow> string \<Rightarrow> key_entry" where
  "new_key key label =
     \<lparr>ke_key = key, ke_label = label, ke_status = Active, ke_failure_count = 0, ke_success_count = 0,
      ke_last_failure = None, ke_cooldown_until = None\<rparr>"

definition is_available :: "int \<Rightarrow> key_entry \<Rightarrow> bool" where
  "is_available now e =
     (if ke_status e = Disabled then False
      else case ke_cooldown_until e of Some until \<Rightarrow> until \<le> now | None \<Rightarrow> True)"

definition key_record_success :: "key_entry \<Rightarrow> key_entry" where
  "key_record_success e =
     e\<lparr>ke_success_count := ke_success_count e + 1, ke_failure_count := 0, ke_status := Active,
       ke_cooldown_until := None\<rparr>"

definition key_record_failure :: "int \<Rightarrow> nat \<Rightarrow> key_entry \<Rightarrow> key_entry" where
  "key_record_failure now cooldown_secs e =
     (let e' = e\<lparr>ke_failure_count := ke_failure_count e + 1, ke_last_failure := Some now\<rparr>
      in if 0 < cooldown_secs
         then e'\<lparr>ke_cooldown_until := Some (now + int cooldown_secs * 1000000000), ke_status := Cooldown\<rparr>
         else e')"

text \<open>The first four bytes; \<open>None\<close> is the panic of slicing inside a character.\<close>

definition masked_key :: "key_entry \<Rightarrow> string option" where
  "masked_key e =
     (if byte_len (ke_key e) \<le> 8 then Some ''****''
      else if is_char_boundary (ke_key e) 4 then Some (byte_take 4 (ke_key e) @ ''****'')
      else None)"

section \<open>Profiles\<close>

record auth_profile =
  ap_provider_name :: string
  ap_keys :: "key_entry list"
  ap_current_index :: nat
  ap_cooldown_secs :: nat
  ap_max_failures :: u32

definition with_keys :: "string \<Rightarrow> (string \<times> string) list \<Rightarrow> nat \<Rightarrow> u32 \<Rightarrow> auth_profile" where
  "with_keys provider_name keys cooldown_secs max_failures =
     \<lparr>ap_provider_name = provider_name,
      ap_keys = map (\<lambda>(i, key, label). new_key key (if label = [] then ''key-'' @ show_nat i else label))
                  (List.enumerate 0 keys),
      ap_current_index = 0, ap_cooldown_secs = cooldown_secs, ap_max_failures = max_failures\<rparr>"

definition single_key :: "string \<Rightarrow> string \<Rightarrow> auth_profile" where
  "single_key provider_name key = with_keys provider_name [(key, ''primary'')] 60 3"

definition profile_current_key :: "auth_profile \<Rightarrow> string option" where
  "profile_current_key p =
     (if ap_current_index p < length (ap_keys p) then Some (ke_key (ap_keys p ! ap_current_index p)) else None)"

definition update_current :: "(key_entry \<Rightarrow> key_entry) \<Rightarrow> auth_profile \<Rightarrow> auth_profile" where
  "update_current f p =
     (if ap_current_index p < length (ap_keys p)
      then p\<lparr>ap_keys := (ap_keys p)[ap_current_index p := f (ap_keys p ! ap_current_index p)]\<rparr> else p)"

definition fail_key :: "int \<Rightarrow> nat \<Rightarrow> u32 \<Rightarrow> key_entry \<Rightarrow> key_entry" where
  "fail_key now cooldown_secs max_failures e =
     (let e' = key_record_failure now cooldown_secs e
      in if max_failures \<le> ke_failure_count e' then e'\<lparr>ke_status := Disabled\<rparr> else e')"

definition rotate_key :: "int \<Rightarrow> nat \<Rightarrow> auth_profile \<Rightarrow> string option \<times> auth_profile" where
  "rotate_key now cooldown_secs p =
     (let p1 = update_current (fail_key now cooldown_secs (ap_max_failures p)) p;
          start = ap_current_index p1;
          count = length (ap_keys p1)
      in case find (\<lambda>offset. is_available now (ap_keys p1 ! ((start + offset) mod count))) [1..<Suc count] of
           Some offset \<Rightarrow>
             (let idx = (start + offset) mod count
              in (Some (ke_key (ap_keys p1 ! idx)), p1\<lparr>ap_current_index := idx\<rparr>))
         | None \<Rightarrow> (None, p1))"

definition profile_record_success :: "auth_profile \<Rightarrow> auth_profile" where
  "profile_record_success p = update_current key_record_success p"

record key_status_info =
  ki_label :: string
  ki_masked_key :: "string option"
  ki_status :: key_status
  ki_failure_count :: u32
  ki_success_count :: u64
  ki_last_failure :: "int option"
  ki_cooldown_until :: "int option"
  ki_is_available :: bool

definition key_statuses :: "int \<Rightarrow> auth_profile \<Rightarrow> key_status_info list" where
  "key_statuses now p =
     map (\<lambda>k. \<lparr>ki_label = ke_label k, ki_masked_key = masked_key k, ki_status = ke_status k,
               ki_failure_count = ke_failure_count k, ki_success_count = ke_success_count k,
               ki_last_failure = ke_last_failure k, ki_cooldown_until = ke_cooldown_until k,
               ki_is_available = is_available now k\<rparr>) (ap_keys p)"

definition available_count :: "int \<Rightarrow> auth_profile \<Rightarrow> nat" where
  "available_count now p = length (filter (is_available now) (ap_keys p))"

text \<open>\<open>key_entry_mut\<close> and an assignment through it: the first key with the label.\<close>

fun update_labelled :: "string \<Rightarrow> (key_entry \<Rightarrow> key_entry) \<Rightarrow> key_entry list \<Rightarrow> key_entry list" where
  "update_labelled label f [] = []"
| "update_labelled label f (k # ks) =
     (if ke_label k = label then f k # ks else k # update_labelled label f ks)"

section \<open>The table of key states\<close>

text \<open>A row, by provider and label. The counters are stored as signed 64-bit integers.\<close>

record key_row =
  kr_failure_count :: "64 word"
  kr_success_count :: "64 word"
  kr_status :: string
  kr_cooldown_until :: "int option"
  kr_last_failure :: "int option"
  kr_updated_at :: int

type_synonym key_table = "((string \<times> string) \<times> key_row) list"

definition status_str :: "key_status \<Rightarrow> string" where
  "status_str s = (case s of Active \<Rightarrow> ''active'' | Cooldown \<Rightarrow> ''cooldown'' | Disabled \<Rightarrow> ''disabled'')"

definition parse_status :: "string \<Rightarrow> key_status" where
  "parse_status s = (if s = ''disabled'' then Disabled else if s = ''cooldown'' then Cooldown else Active)"

definition key_row_of :: "int \<Rightarrow> key_entry \<Rightarrow> key_row" where
  "key_row_of now k =
     \<lparr>kr_failure_count = ucast (ke_failure_count k), kr_success_count = ke_success_count k,
      kr_status = status_str (ke_status k), kr_cooldown_until = ke_cooldown_until k,
      kr_last_failure = ke_last_failure k, kr_updated_at = now\<rparr>"

text \<open>The statements run one by one; the one at position \<open>fails\<close> fails and ends the call. The two
  statements that create the table and its index come first and change no row: a failure there is \<open>fails = Some 0\<close>.
  The keys are those whose masking does not panic.\<close>

fun upsert_keys :: "nat option \<Rightarrow> int \<Rightarrow> string \<Rightarrow> key_entry list \<Rightarrow> key_table \<Rightarrow> bool \<times> key_table" where
  "upsert_keys fails now provider [] t = (True, t)"
| "upsert_keys fails now provider (k # ks) t =
     (if fails = Some 0 then (False, t)
      else upsert_keys (map_option (\<lambda>n. n - 1) fails) now provider ks
             (AList.update (provider, ke_label k) (key_row_of now k) t))"

definition save_profile_state ::
  "nat option \<Rightarrow> int \<Rightarrow> string \<Rightarrow> auth_profile \<Rightarrow> key_table \<Rightarrow> bool \<times> key_table" where
  "save_profile_state fails now provider p t =
     (let (ok, t') = upsert_keys fails now provider (ap_keys p) t;
          labels = map ke_label (ap_keys p)
      in if \<not> ok then (False, t')
         else if labels = [] then (True, t')
         else if fails = Some (length labels) then (False, t')
         else (True, hm_retain (\<lambda>(q, label) _. \<not> (q = provider \<and> label \<notin> set labels)) t'))"

definition row_into :: "key_row \<Rightarrow> key_entry \<Rightarrow> key_entry" where
  "row_into r e =
     e\<lparr>ke_failure_count := ucast (kr_failure_count r), ke_success_count := kr_success_count r,
       ke_status := parse_status (kr_status r), ke_cooldown_until := kr_cooldown_until r,
       ke_last_failure := kr_last_failure r\<rparr>"

definition load_profile_state :: "string \<Rightarrow> key_table \<Rightarrow> auth_profile \<Rightarrow> auth_profile" where
  "load_profile_state provider t p =
     fold (\<lambda>((q, label), r) p. if q = provider
             then p\<lparr>ap_keys := update_labelled label (row_into r) (ap_keys p)\<rparr> else p) t p"

definition delete_profile_state :: "string \<Rightarrow> key_table \<Rightarrow> key_table" where
  "delete_profile_state provider t = hm_retain (\<lambda>(q, _) _. q \<noteq> provider) t"

section \<open>The manager\<close>

record auth_key_config =
  ac_key :: string
  ac_label :: string

record auth_profile_config =
  pf_keys :: "auth_key_config list"
  pf_cooldown_secs :: nat
  pf_max_failures :: u32

record key_manager =
  am_profiles :: "(string \<times> auth_profile) list"
  am_store :: "key_table option"

definition register_profile :: "string \<Rightarrow> auth_profile \<Rightarrow> key_manager \<Rightarrow> key_manager" where
  "register_profile provider_name p m = m\<lparr>am_profiles := AList.update provider_name p (am_profiles m)\<rparr>"

text \<open>\<open>save\<close> and \<open>load\<close>: without a store or a profile nothing happens, and a failing statement is only logged.
  \<open>readable\<close> says whether the table could be read.\<close>

definition save :: "nat option \<Rightarrow> int \<Rightarrow> string \<Rightarrow> key_manager \<Rightarrow> key_manager" where
  "save fails now provider_name m =
     (case (am_store m, map_of (am_profiles m) provider_name) of
        (Some t, Some p) \<Rightarrow> m\<lparr>am_store := Some (snd (save_profile_state fails now provider_name p t))\<rparr>
      | _ \<Rightarrow> m)"

definition load :: "bool \<Rightarrow> string \<Rightarrow> key_manager \<Rightarrow> key_manager" where
  "load readable provider_name m =
     (case (am_store m, map_of (am_profiles m) provider_name) of
        (Some t, Some p) \<Rightarrow>
          if readable then register_profile provider_name (load_profile_state provider_name t p) m else m
      | _ \<Rightarrow> m)"

definition register_single_key :: "string \<Rightarrow> string \<Rightarrow> key_manager \<Rightarrow> key_manager" where
  "register_single_key provider_name key m = register_profile provider_name (single_key provider_name key) m"

definition register_from_config ::
  "bool \<Rightarrow> string \<Rightarrow> auth_profile_config \<Rightarrow> key_manager \<Rightarrow> key_manager" where
  "register_from_config readable provider_name config m =
     (let keys = map (\<lambda>(i, k). (ac_key k, if ac_label k = [] then ''key-'' @ show_nat i else ac_label k))
                   (List.enumerate 0 (pf_keys config))
      in load readable provider_name
           (register_profile provider_name
              (with_keys provider_name keys (pf_cooldown_secs config) (pf_max_failures config)) m))"

definition current_key :: "string \<Rightarrow> key_manager \<Rightarrow> string option" where
  "current_key provider_name m = Option.bind (map_of (am_profiles m) provider_name) profile_current_key"

definition manager_rotate ::
  "nat option \<Rightarrow> int \<Rightarrow> string \<Rightarrow> nat \<Rightarrow> key_manager \<Rightarrow> string option \<times> key_manager" where
  "manager_rotate fails now provider_name cooldown_secs m =
     (case map_of (am_profiles m) provider_name of
        None \<Rightarrow> (None, m)
      | Some p \<Rightarrow>
          (let (result, p') = rotate_key now cooldown_secs p;
               m' = register_profile provider_name p' m
           in (result, if result \<noteq> None then save fails now provider_name m' else m')))"

definition manager_record_success :: "nat option \<Rightarrow> int \<Rightarrow> string \<Rightarrow> key_manager \<Rightarrow> key_manager" where
  "manager_record_success fails now provider_name m =
     save fails now provider_name
       (case map_of (am_profiles m) provider_name of
          None \<Rightarrow> m
        | Some p \<Rightarrow> register_profile provider_name (profile_record_success p) m)"

record profile_status =
  ps_provider_name :: string
  ps_current_key_label :: string
  ps_current_key_masked :: "string option"
  ps_total_keys :: nat
  ps_available_keys :: nat
  ps_keys :: "key_status_info list"

definition status_of_profile :: "int \<Rightarrow> auth_profile \<Rightarrow> profile_status" where
  "status_of_profile now p =
     (let current = (if ap_current_index p < length (ap_keys p) then Some (ap_keys p ! ap_current_index p) else None)
      in \<lparr>ps_provider_name = ap_provider_name p,
          ps_current_key_label = (case current of Some k \<Rightarrow> ke_label k | None \<Rightarrow> []),
          ps_current_key_masked = (case current of Some k \<Rightarrow> masked_key k | None \<Rightarrow> Some []),
          ps_total_keys = length (ap_keys p), ps_available_keys = available_count now p,
          ps_keys = key_statuses now p\<rparr>)"

definition get_status :: "int \<Rightarrow> string \<Rightarrow> key_manager \<Rightarrow> profile_status option" where
  "get_status now provider_name m = map_option (status_of_profile now) (map_of (am_profiles m) provider_name)"

definition all_statuses :: "int \<Rightarrow> key_manager \<Rightarrow> profile_status list" where
  "all_statuses now m = map (\<lambda>(_, p). status_of_profile now p) (am_profiles m)"

definition should_rotate :: "router_error \<Rightarrow> bool" where
  "should_rotate error = should_rotate_key (from_error error None)"

section \<open>Rotation\<close>

lemma find_map: "find P (map f xs) = map_option f (find (\<lambda>x. P (f x)) xs)"
  by (induction xs) auto

lemma cyclic_keys:
  assumes "c < length ks"
  shows "map (\<lambda>offset. ks ! ((c + offset) mod length ks)) [1..<Suc (length ks)] = drop (Suc c) ks @ take (Suc c) ks"
proof (rule nth_equalityI)
  fix i assume "i < length (map (\<lambda>offset. ks ! ((c + offset) mod length ks)) [1..<Suc (length ks)])"
  then have i: "i < length ks" by (simp del: upt_Suc)
  show "map (\<lambda>offset. ks ! ((c + offset) mod length ks)) [1..<Suc (length ks)] ! i =
      (drop (Suc c) ks @ take (Suc c) ks) ! i"
  proof (cases "Suc c + i < length ks")
    case True
    then have "i < length ks - Suc c" by simp
    with True show ?thesis using i by (simp add: nth_append del: upt_Suc)
  next
    case False
    then have "(Suc c + i) mod length ks = Suc c + i - length ks"
      using assms i by (simp add: le_mod_geq)
    moreover have "\<not> i < length ks - Suc c" using False by simp
    ultimately show ?thesis using False assms i by (simp add: nth_append add.commute del: upt_Suc)
  qed
qed (use assms in simp)

lemma fail_key_fields [simp]:
  "ke_key (fail_key now cd mx e) = ke_key e" "ke_label (fail_key now cd mx e) = ke_label e"
  by (simp_all add: fail_key_def key_record_failure_def Let_def)

lemma failed_key_unavailable: "0 < cd \<Longrightarrow> \<not> is_available now (fail_key now cd mx e)"
  by (simp add: fail_key_def key_record_failure_def is_available_def Let_def)

lemma find_append: "find P (xs @ ys) = (case find P xs of Some x \<Rightarrow> Some x | None \<Rightarrow> find P ys)"
  by (induction xs) auto

lemma rotate_key_find:
  fixes p now cd
  defines "ks \<equiv> ap_keys (update_current (fail_key now cd (ap_max_failures p)) p)"
  assumes "ap_current_index p < length (ap_keys p)"
  shows "fst (rotate_key now cd p) =
           map_option ke_key (find (is_available now) (drop (Suc (ap_current_index p)) ks @ take (Suc (ap_current_index p)) ks))"
    and "ap_keys (snd (rotate_key now cd p)) = ks"
    and "fst (rotate_key now cd p) = Some k \<Longrightarrow> profile_current_key (snd (rotate_key now cd p)) = Some k"
    and "fst (rotate_key now cd p) = None \<Longrightarrow> ap_current_index (snd (rotate_key now cd p)) = ap_current_index p"
proof -
  let ?p1 = "update_current (fail_key now cd (ap_max_failures p)) p"
  let ?f = "\<lambda>offset. ks ! ((ap_current_index p + offset) mod length ks)"
  have c: "ap_current_index ?p1 = ap_current_index p" "length ks = length (ap_keys p)" "ap_current_index p < length ks"
    using assms(2) by (simp_all add: ks_def update_current_def)
  have r: "rotate_key now cd p =
      (case find (\<lambda>offset. is_available now (?f offset)) [1..<Suc (length ks)] of
         Some offset \<Rightarrow> (Some (ke_key (?f offset)), ?p1\<lparr>ap_current_index := (ap_current_index p + offset) mod length ks\<rparr>)
       | None \<Rightarrow> (None, ?p1))"
    by (auto simp: rotate_key_def Let_def c ks_def [symmetric] simp del: upt_Suc split: option.split)
  have "find (is_available now) (drop (Suc (ap_current_index p)) ks @ take (Suc (ap_current_index p)) ks) =
      map_option ?f (find (\<lambda>offset. is_available now (?f offset)) [1..<Suc (length ks)])"
    unfolding cyclic_keys [OF c(3), symmetric] by (rule find_map)
  then show "fst (rotate_key now cd p) =
           map_option ke_key (find (is_available now) (drop (Suc (ap_current_index p)) ks @ take (Suc (ap_current_index p)) ks))"
    by (simp add: r option.map_comp comp_def del: upt_Suc split: option.split)
  show "ap_keys (snd (rotate_key now cd p)) = ks"
    by (simp add: r ks_def [symmetric] del: upt_Suc split: option.split)
  have "0 < length ks" using c(3) by linarith
  then show "fst (rotate_key now cd p) = Some k \<Longrightarrow> profile_current_key (snd (rotate_key now cd p)) = Some k"
    by (auto simp: r profile_current_key_def ks_def [symmetric] simp del: upt_Suc split: option.splits)
  show "fst (rotate_key now cd p) = None \<Longrightarrow> ap_current_index (snd (rotate_key now cd p)) = ap_current_index p"
    by (simp add: r c del: upt_Suc split: option.splits)
qed

text \<open>C23. Rotating away from a key with a cool-down hands out the first available key after it in cyclic order, and
  nothing exactly when no other key is available. The failed key is unavailable afterwards, no other key changes, and
  the key handed out is the current one.\<close>

theorem rotation_picks_next_available:
  assumes "ap_current_index p < length (ap_keys p)" and "0 < cooldown_secs"
  shows "fst (rotate_key now cooldown_secs p) =
           map_option ke_key (find (is_available now)
             (drop (Suc (ap_current_index p)) (ap_keys p) @ take (ap_current_index p) (ap_keys p)))
         \<and> profile_current_key (snd (rotate_key now cooldown_secs p)) =
             (case fst (rotate_key now cooldown_secs p) of Some k \<Rightarrow> Some k | None \<Rightarrow> profile_current_key p)
         \<and> (\<exists>e. \<not> is_available now e \<and>
                ap_keys (snd (rotate_key now cooldown_secs p)) = (ap_keys p)[ap_current_index p := e])"
proof -
  let ?c = "ap_current_index p" and ?e = "fail_key now cooldown_secs (ap_max_failures p) (ap_keys p ! ap_current_index p)"
  have ks: "ap_keys (update_current (fail_key now cooldown_secs (ap_max_failures p)) p) = (ap_keys p)[?c := ?e]"
    using assms(1) by (simp add: update_current_def)
  note r = rotate_key_find [OF assms(1), of now cooldown_secs, unfolded ks]
  have e: "\<not> is_available now ?e" using failed_key_unavailable assms(2) by blast
  have "take (Suc ?c) ((ap_keys p)[?c := ?e]) = take ?c (ap_keys p) @ [?e]"
    using assms(1) by (simp add: take_Suc_conv_app_nth)
  then have "find (is_available now) (drop (Suc ?c) ((ap_keys p)[?c := ?e]) @ take (Suc ?c) ((ap_keys p)[?c := ?e])) =
      find (is_available now) (drop (Suc ?c) (ap_keys p) @ take ?c (ap_keys p))"
    using e by (simp add: find_append split: option.split)
  with r(1) have 1: "fst (rotate_key now cooldown_secs p) = map_option ke_key (find (is_available now)
      (drop (Suc ?c) (ap_keys p) @ take ?c (ap_keys p)))" by simp
  have 2: "profile_current_key (snd (rotate_key now cooldown_secs p)) =
      (case fst (rotate_key now cooldown_secs p) of Some k \<Rightarrow> Some k | None \<Rightarrow> profile_current_key p)"
  proof (cases "fst (rotate_key now cooldown_secs p)")
    case None
    then show ?thesis using r(2,4) assms(1) by (simp add: profile_current_key_def)
  qed (use r(3) in simp)
  show ?thesis using 1 2 r(2) e by blast
qed

definition two_keys :: auth_profile where
  "two_keys = with_keys ''openai'' [(''key-one'', ''first''), (''key-two'', ''second'')] 60 3"

theorem rotation_picks_next_available_witness: "fst (rotate_key 0 60 two_keys) = Some ''key-two''"
proof -
  have "ap_current_index two_keys < length (ap_keys two_keys)" by code_simp
  from rotation_picks_next_available [OF this, of 60 0] have "fst (rotate_key 0 60 two_keys) =
      map_option ke_key (find (is_available 0)
        (drop (Suc (ap_current_index two_keys)) (ap_keys two_keys) @ take (ap_current_index two_keys) (ap_keys two_keys)))"
    by simp
  also have "\<dots> = Some ''key-two''" by code_simp
  finally show ?thesis .
qed

section \<open>Persistence\<close>

lemma update_labelled_map:
  assumes "distinct (map ke_label ks)"
  shows "update_labelled l f ks = map (\<lambda>k. if ke_label k = l then f k else k) ks"
  using assms
proof (induction ks)
  case (Cons k ks)
  then have "map (\<lambda>x. if ke_label x = ke_label k then f x else x) ks = ks"
    by (intro map_idI) (auto simp: image_iff)
  with Cons show ?case by auto
qed simp

lemma row_into_label [simp]: "ke_label (row_into r e) = ke_label e"
  by (simp add: row_into_def)

lemma load_profile_keys:
  assumes "hm_ok t" and "distinct (map ke_label (ap_keys q))"
  shows "ap_keys (load_profile_state provider t q) =
           map (\<lambda>k. case map_of t (provider, ke_label k) of Some r \<Rightarrow> row_into r k | None \<Rightarrow> k) (ap_keys q)"
  using assms
proof (induction t arbitrary: q)
  case Nil
  then show ?case by (simp add: load_profile_state_def)
next
  case (Cons a t)
  obtain pr l r where a: "a = ((pr, l), r)" by (cases a) auto
  let ?q = "if pr = provider then q\<lparr>ap_keys := update_labelled l (row_into r) (ap_keys q)\<rparr> else q"
  have step: "load_profile_state provider (a # t) q = load_profile_state provider t ?q"
    by (simp add: load_profile_state_def a)
  have keys: "ap_keys ?q = map (\<lambda>k. if pr = provider \<and> ke_label k = l then row_into r k else k) (ap_keys q)"
    using update_labelled_map [OF Cons.prems(2)] by (auto intro: map_idI [symmetric])
  have "map ke_label (ap_keys ?q) = map ke_label (ap_keys q)" unfolding keys by simp
  with Cons.prems have "ap_keys (load_profile_state provider t ?q) =
      map (\<lambda>k. case map_of t (provider, ke_label k) of Some r \<Rightarrow> row_into r k | None \<Rightarrow> k) (ap_keys ?q)"
    by (intro Cons.IH) auto
  moreover have "map_of t (pr, l) = None" using Cons.prems(1) by (simp add: a map_of_eq_None_iff)
  ultimately show ?case unfolding step keys by (auto simp: a)
qed

lemma upsert_keys_lookup:
  assumes "distinct (map ke_label ks)"
  shows "map_of (snd (upsert_keys None now provider ks t)) (q, l) =
           (case find (\<lambda>k. ke_label k = l) ks of
              Some k \<Rightarrow> if q = provider then Some (key_row_of now k) else map_of t (q, l)
            | None \<Rightarrow> map_of t (q, l))"
  using assms
proof (induction ks arbitrary: t)
  case (Cons k ks)
  have "find (\<lambda>k'. ke_label k' = ke_label k) ks = None"
    using Cons.prems by (auto simp: find_None_iff image_iff)
  with Cons show ?case by (auto split: option.split)
qed simp

lemma upsert_keys_ok [simp]:
  "fst (upsert_keys None now provider ks t)" "hm_ok t \<Longrightarrow> hm_ok (snd (upsert_keys None now provider ks t))"
  by (induction ks arbitrary: t) auto

lemma find_by_key: "distinct (map f xs) \<Longrightarrow> x \<in> set xs \<Longrightarrow> find (\<lambda>y. f y = f x) xs = Some x"
  by (induction xs) (auto simp: image_iff)

lemma saved_row:
  assumes "hm_ok t" and "distinct (map ke_label (ap_keys p))" and "k \<in> set (ap_keys p)"
  shows "map_of (snd (save_profile_state None now provider p t)) (provider, ke_label k) = Some (key_row_of now k)"
proof -
  let ?t = "snd (upsert_keys None now provider (ap_keys p) t)"
  have "find (\<lambda>k'. ke_label k' = ke_label k) (ap_keys p) = Some k"
    using assms(2,3) by (rule find_by_key)
  then have "map_of ?t (provider, ke_label k) = Some (key_row_of now k)"
    using upsert_keys_lookup [OF assms(2)] by simp
  moreover have "snd (save_profile_state None now provider p t) =
      hm_retain (\<lambda>(q, label) _. \<not> (q = provider \<and> label \<notin> set (map ke_label (ap_keys p)))) ?t"
    using assms(3) by (auto simp: save_profile_state_def split_beta Let_def)
  ultimately show ?thesis using assms by (simp add: map_of_retain)
qed

lemma widened_count [simp]: "ucast (ucast (n :: u32) :: 64 word) = n"
  by transfer (simp add: take_bit_take_bit)

lemma row_into_row_of:
  "ke_key e = ke_key k \<Longrightarrow> ke_label e = ke_label k \<Longrightarrow> row_into (key_row_of now k) e = k"
  by (cases k; cases e; cases "ke_status k")
     (simp_all add: row_into_def key_row_of_def status_str_def parse_status_def)

text \<open>What is known about the keys of a provider survives a restart: a profile that has the same keys under the
  same distinct labels and reads the table after a save has every key in the state it was saved in, whatever other
  rows the table held.\<close>

theorem key_states_survive_restart:
  assumes "hm_ok t" and "distinct (map ke_label (ap_keys p))"
    and "map (\<lambda>k. (ke_key k, ke_label k)) (ap_keys q) = map (\<lambda>k. (ke_key k, ke_label k)) (ap_keys p)"
  shows "ap_keys (load_profile_state provider (snd (save_profile_state None now provider p t)) q) = ap_keys p"
proof -
  let ?t = "snd (save_profile_state None now provider p t)"
  have len: "length (ap_keys q) = length (ap_keys p)" using assms(3) by (metis length_map)
  have same: "ke_key (ap_keys q ! i) = ke_key (ap_keys p ! i)" "ke_label (ap_keys q ! i) = ke_label (ap_keys p ! i)"
    if "i < length (ap_keys p)" for i
    using arg_cong [OF assms(3), of "\<lambda>xs. xs ! i"] that len by auto
  have "hm_ok ?t" using assms(1) by (auto simp: save_profile_state_def split_beta Let_def)
  moreover have "distinct (map ke_label (ap_keys q))"
    using assms(2) same len by (metis (mono_tags, lifting) length_map nth_equalityI nth_map)
  ultimately have loaded: "ap_keys (load_profile_state provider ?t q) =
      map (\<lambda>k. case map_of ?t (provider, ke_label k) of Some r \<Rightarrow> row_into r k | None \<Rightarrow> k) (ap_keys q)"
    by (rule load_profile_keys)
  show ?thesis unfolding loaded
  proof (rule nth_equalityI)
    fix i assume "i < length (map (\<lambda>k. case map_of ?t (provider, ke_label k) of Some r \<Rightarrow> row_into r k | None \<Rightarrow> k) (ap_keys q))"
    with len have i: "i < length (ap_keys p)" by simp
    with saved_row [OF assms(1,2)] have "map_of ?t (provider, ke_label (ap_keys p ! i)) = Some (key_row_of now (ap_keys p ! i))"
      by simp
    with row_into_row_of [OF same [OF i]] same [OF i] show
      "map (\<lambda>k. case map_of ?t (provider, ke_label k) of Some r \<Rightarrow> row_into r k | None \<Rightarrow> k) (ap_keys q) ! i = ap_keys p ! i"
      using i len by simp
  qed (use len in simp)
qed

theorem key_states_survive_restart_witness:
  "ap_keys (load_profile_state ''openai''
     (snd (save_profile_state None 5 ''openai'' (snd (rotate_key 0 60 two_keys)) [])) two_keys) =
   ap_keys (snd (rotate_key 0 60 two_keys))"
  by (rule key_states_survive_restart) code_simp+

section \<open>Where the code departs from its documentation\<close>

text \<open>A rotation that finds no key is not saved: the disabling it did is forgotten by a restart.\<close>

definition lone_key_manager :: key_manager where
  "lone_key_manager =
     register_from_config True ''openai'' \<lparr>pf_keys = [\<lparr>ac_key = ''key-one'', ac_label = ''only''\<rparr>], pf_cooldown_secs = 60, pf_max_failures = 1\<rparr>
       \<lparr>am_profiles = [], am_store = Some []\<rparr>"

lemma failed_rotation_is_not_saved:
  "let (r, m) = manager_rotate None 0 ''openai'' 60 lone_key_manager
   in r = None \<and> map_option (\<lambda>p. map ke_status (ap_keys p)) (map_of (am_profiles m) ''openai'') = Some [Disabled]
      \<and> am_store m = Some []"
  by code_simp

text \<open>A key that was permanently disabled is active again after one success, which the code records on the current
  key: a rotation that found nothing leaves the disabled key current.\<close>

lemma success_revives_disabled_key:
  "is_available now (key_record_success e)" "ke_status (key_record_success e) = Active"
  by (simp_all add: key_record_success_def is_available_def)

text \<open>Two requests that fail with the same key rotate twice: the second rotation blames the key the first one
  moved to, which has served no request.\<close>

lemma late_failure_blames_fresh_key:
  "map (is_available 0) (ap_keys (snd (rotate_key 0 60 (snd (rotate_key 0 60 two_keys))))) = [False, False]"
  by code_simp

text \<open>Masking slices bytes: a key whose fourth byte is inside a character panics the status listing and the save.\<close>

lemma masking_panics_inside_character: "masked_key (new_key (''abc'' @ [CHR 0xE9] @ ''defgh'') ''k'') = None"
  by code_simp

end
