(* ===== verification/Circuit_Breaker.thy ===== *)
theory Circuit_Breaker
  imports Failure_Class
begin

text \<open>
  Health of a provider and its circuit breaker: \<open>ProviderHealth\<close> of \<open>src/model_router/config.rs\<close>, the recording of
  successes, failures and probe failures of \<open>router/failure.rs\<close>, the health check of \<open>router/health.rs\<close> and the
  manual switches of \<open>router/admin.rs\<close>. Instants are nanoseconds.
\<close>

datatype circuit_state = Closed | Open | HalfOpen

record provider_health =
  ph_state :: circuit_state
  ph_failures :: u32
  ph_successes :: u64
  ph_last_failure :: "int option"
  ph_avg_latency_ms :: u64
  ph_last_health_check :: "int option"

definition default_health :: provider_health where
  "default_health =
     \<lparr>ph_state = Closed, ph_failures = 0, ph_successes = 0, ph_last_failure = None, ph_avg_latency_ms = 0,
      ph_last_health_check = None\<rparr>"

definition health_success :: "u64 \<Rightarrow> provider_health \<Rightarrow> provider_health" where
  "health_success latency_ms h =
     h\<lparr>ph_successes := ph_successes h + 1, ph_failures := 0, ph_state := Closed,
       ph_avg_latency_ms := (ph_avg_latency_ms h * 9 + latency_ms) div 10\<rparr>"

definition saturating_sub :: "u32 \<Rightarrow> u32 \<Rightarrow> u32" where
  "saturating_sub a b = (if a < b then 0 else a - b)"

definition effective_threshold :: "u32 \<Rightarrow> failure_class option \<Rightarrow> u32" where
  "effective_threshold threshold cls =
     (case cls of
        Some RateLimit \<Rightarrow> max (saturating_sub threshold 2) 1
      | Some Overloaded \<Rightarrow> max (saturating_sub threshold 1) 1
      | _ \<Rightarrow> threshold)"

definition health_failure :: "u32 \<Rightarrow> int \<Rightarrow> failure_class option \<Rightarrow> provider_health \<Rightarrow> provider_health" where
  "health_failure threshold now cls h =
     (let h' = h\<lparr>ph_failures := ph_failures h + 1, ph_last_failure := Some now\<rparr>
      in if effective_threshold threshold cls \<le> ph_failures h' \<and> ph_state h' \<noteq> Open
         then h'\<lparr>ph_state := Open\<rparr> else h')"

definition health_probe_failure :: "u32 \<Rightarrow> int \<Rightarrow> provider_health \<Rightarrow> provider_health" where
  "health_probe_failure threshold now h =
     (let h' = h\<lparr>ph_failures := ph_failures h + 1\<rparr>
      in if ph_state h' \<noteq> Open
         then (let h2 = h'\<lparr>ph_last_failure := Some now\<rparr>
               in if threshold \<le> ph_failures h2 then h2\<lparr>ph_state := Open\<rparr> else h2)
         else h')"

text \<open>\<open>TimeDelta::num_seconds\<close> rounds towards zero, and \<open>reset_secs as i64\<close> reads the word as signed.\<close>

definition num_seconds :: "int \<Rightarrow> int" where
  "num_seconds ns = (if 0 \<le> ns then ns div 1000000000 else - (- ns div 1000000000))"

definition health_check_due :: "u64 \<Rightarrow> int \<Rightarrow> provider_health \<Rightarrow> provider_health" where
  "health_check_due reset_secs now h =
     (let h' = h\<lparr>ph_last_health_check := Some now\<rparr>
      in if ph_state h' = Open
         then (case ph_last_failure h' of
                 Some failed_at \<Rightarrow> if sint reset_secs \<le> num_seconds (now - failed_at) then h'\<lparr>ph_state := HalfOpen\<rparr> else h'
               | None \<Rightarrow> h')
         else h')"

definition health_enable :: "provider_health \<Rightarrow> provider_health" where
  "health_enable h = h\<lparr>ph_state := Closed, ph_failures := 0\<rparr>"

definition health_disable :: "provider_health \<Rightarrow> provider_health" where
  "health_disable h = h\<lparr>ph_state := Open\<rparr>"

text \<open>One round of \<open>run_health_checks\<close> for one provider. The probe answers at a later instant than the check, so the
  state between the two is seen by requests.\<close>

definition health_round ::
  "u32 \<Rightarrow> u64 \<Rightarrow> int \<Rightarrow> int \<Rightarrow> u64 \<Rightarrow> bool \<Rightarrow> provider_health \<Rightarrow> provider_health" where
  "health_round threshold reset_secs now answered latency_ms healthy h =
     (let h' = health_check_due reset_secs now h
      in if healthy then health_success latency_ms h' else health_probe_failure threshold answered h')"

section \<open>When the breaker opens\<close>

fun record_failures :: "u32 \<Rightarrow> (int \<times> failure_class option) list \<Rightarrow> provider_health \<Rightarrow> provider_health" where
  "record_failures threshold [] h = h"
| "record_failures threshold ((now, cls) # fs) h =
     record_failures threshold fs (health_failure threshold now cls h)"

lemma record_failures_snoc:
  "record_failures th (fs @ [(now, cls)]) h = health_failure th now cls (record_failures th fs h)"
  by (induction fs arbitrary: h) auto

lemma health_failure_fields [simp]:
  "ph_failures (health_failure th now cls h) = ph_failures h + 1"
  "ph_last_failure (health_failure th now cls h) = Some now"
  "ph_state (health_failure th now cls h) =
     (if effective_threshold th cls \<le> ph_failures h + 1 then Open else ph_state h)"
  by (simp_all add: health_failure_def Let_def)

lemma count_le_iff: "k < 2 ^ 32 \<Longrightarrow> (t :: u32) \<le> of_nat k \<longleftrightarrow> unat t \<le> k"
  by (simp add: word_le_nat_alt unat_of_nat take_bit_nat_eq_self)

text \<open>After a success the breaker of a provider is open exactly when one of the failures since then was at or
  above the threshold that its class has: the configured one, one less for an overloaded provider and two less for a
  rate limit, but at least one.\<close>

theorem breaker_opens_exactly:
  assumes "length fs < 2 ^ 32"
  shows "ph_state (record_failures threshold fs (health_success latency h)) =
           (if \<exists>k < length fs. unat (effective_threshold threshold (snd (fs ! k))) \<le> Suc k then Open else Closed)
         \<and> ph_failures (record_failures threshold fs (health_success latency h)) = of_nat (length fs)"
  using assms
proof (induction fs rule: rev_induct)
  case Nil
  then show ?case by (simp add: health_success_def)
next
  case (snoc x xs)
  obtain now cls where x: "x = (now, cls)" by (cases x)
  let ?h = "record_failures threshold xs (health_success latency h)"
  let ?E = "\<exists>k < length xs. unat (effective_threshold threshold (snd (xs ! k))) \<le> Suc k"
  have len: "Suc (length xs) < 2 ^ 32" using snoc.prems by simp
  have h: "ph_state ?h = (if ?E then Open else Closed)" "ph_failures ?h + 1 = of_nat (Suc (length xs))"
    using snoc.IH [OF Suc_lessD [OF len]] by (simp_all only: of_nat_Suc add.commute)
  have "(\<exists>k < length (xs @ [x]). unat (effective_threshold threshold (snd ((xs @ [x]) ! k))) \<le> Suc k) \<longleftrightarrow>
      ?E \<or> effective_threshold threshold cls \<le> of_nat (Suc (length xs))"
    unfolding count_le_iff [OF len]
    by (metis (no_types, lifting) length_append_singleton less_Suc_eq nth_append nth_append_length snd_conv x)
  then show ?case by (simp only: x record_failures_snoc health_failure_fields h) simp
qed

theorem breaker_opens_exactly_witness:
  "ph_state (record_failures 5 [(0, Some RateLimit), (1, Some RateLimit), (2, Some RateLimit)]
     (health_success 0 default_health)) = Open"
proof -
  have l: "length [(0 :: int, Some RateLimit), (1, Some RateLimit), (2, Some RateLimit)] < 2 ^ 32" by simp
  have "unat (effective_threshold 5 (Some RateLimit)) \<le> Suc 2"
    by (simp add: effective_threshold_def saturating_sub_def)
  then have "\<exists>k < length [(0 :: int, Some RateLimit), (1, Some RateLimit), (2, Some RateLimit)].
      unat (effective_threshold 5 (snd ([(0 :: int, Some RateLimit), (1, Some RateLimit), (2, Some RateLimit)] ! k))) \<le> Suc k"
    by (intro exI [of _ 2]) simp
  with breaker_opens_exactly [OF l, of 5 0 default_health] show ?thesis by metis
qed

section \<open>Where the code departs from its documentation\<close>

text \<open>The comment asks for the half-open state to open again on a failure. A breaker that a rate limit opened early
  has counted too few failures for it: a trial that fails in another way leaves it half open.\<close>

lemma half_open_survives_failure:
  "ph_state (health_failure 5 400000000000 (Some ServerError)
     (health_check_due 300 310000000000
        (record_failures 5 [(0, Some RateLimit), (1, Some RateLimit), (2, Some RateLimit)] default_health))) = HalfOpen"
  by code_simp

text \<open>The comment wants requests to try a provider after the reset time even while its probes fail. The round that
  makes the breaker half open also sends the probe, and its failure opens the breaker again and restarts the time: at
  the end of every round the breaker is open, and only requests that arrive during the probe can pass.\<close>

lemma failing_probe_ends_trial:
  assumes "ph_state h = Open" and "threshold \<le> ph_failures h + 1"
  shows "ph_state (health_round threshold reset_secs now answered latency False h) = Open"
proof -
  have "ph_failures (health_check_due reset_secs now h) = ph_failures h"
    by (simp add: health_check_due_def Let_def split: option.split)
  then show ?thesis using assms(2)
    by (simp add: health_round_def health_probe_failure_def Let_def)
qed

lemma failing_probe_restarts_reset:
  assumes "ph_state h = Open" "ph_last_failure h = Some failed_at" "sint reset_secs \<le> num_seconds (now - failed_at)"
  shows "ph_last_failure (health_round threshold reset_secs now answered latency False h) = Some answered"
  using assms by (simp add: health_round_def health_probe_failure_def health_check_due_def Let_def)

text \<open>A provider that the operator disabled is enabled again by the next successful probe.\<close>

lemma probe_undoes_disable:
  "ph_state (health_round threshold reset_secs now answered latency True (health_disable h)) = Closed"
  by (simp add: health_round_def health_success_def Let_def)

end
