(* ===== verification/Model_Catalog.thy ===== *)
theory Model_Catalog
  imports Prelude
begin

text \<open>
  The catalog of models (\<open>src/model_router/model_catalog.rs\<close>): entries by the key \<open>provider:model\<close>, suppressed
  keys and discovery sources. Prices are not modelled: nothing that is modelled compares them. A plugin source is the
  list of entries its manifests give.
\<close>

record model_entry =
  me_id :: string
  me_name :: string
  me_provider :: string
  me_context_window :: "nat option"
  me_supports_vision :: bool
  me_supports_tools :: bool
  me_supports_reasoning :: bool
  me_input_modalities :: "string list"
  me_capabilities :: "string list"

definition new_model_entry :: "string \<Rightarrow> string \<Rightarrow> string \<Rightarrow> model_entry" where
  "new_model_entry mid mname provider =
     \<lparr>me_id = mid, me_name = mname, me_provider = provider, me_context_window = None, me_supports_vision = False,
      me_supports_tools = False, me_supports_reasoning = False, me_input_modalities = [''text''],
      me_capabilities = []\<rparr>"

definition apply_known_model_metadata :: "model_entry \<Rightarrow> string \<Rightarrow> model_entry" where
  "apply_known_model_metadata entry model_id =
     (let id_lower = to_lowercase model_id;
          is_claude = (starts_with id_lower ''claude''
            \<and> list_ex (str_contains id_lower) [''opus'', ''sonnet'', ''haiku''])
      in if is_claude then
           entry\<lparr>me_context_window := Some 200000, me_supports_vision := True, me_supports_tools := True,
                 me_supports_reasoning := True, me_input_modalities := [''text'', ''image''],
                 me_capabilities := [''long_context'', ''vision'']\<rparr>
         else if str_contains id_lower ''gpt-4o'' \<or> str_contains id_lower ''gpt-4-turbo'' then
           entry\<lparr>me_context_window := Some 128000, me_supports_vision := True, me_supports_tools := True,
                 me_input_modalities := [''text'', ''image'']\<rparr>
         else if str_contains id_lower ''gpt-4'' then
           entry\<lparr>me_context_window := Some 8192, me_supports_tools := True\<rparr>
         else if str_contains id_lower ''gpt-3.5'' \<or> str_contains id_lower ''gpt-35'' then
           entry\<lparr>me_context_window := Some 16385, me_supports_tools := True\<rparr>
         else if str_contains id_lower ''o1'' \<or> str_contains id_lower ''o3'' then
           entry\<lparr>me_context_window := Some 200000, me_supports_reasoning := True, me_supports_tools := True,
                 me_input_modalities := [''text'', ''image'']\<rparr>
         else entry)"

datatype discovery_source = Static_Source string "(string \<times> string) list" | Plugin_Source "model_entry list"

fun discover_source :: "discovery_source \<Rightarrow> model_entry list" where
  "discover_source (Static_Source owner models) =
     map (\<lambda>(provider, model_id).
            apply_known_model_metadata (new_model_entry model_id model_id provider) model_id) models"
| "discover_source (Plugin_Source entries) = entries"

fun matches_provider :: "string \<Rightarrow> discovery_source \<Rightarrow> bool" where
  "matches_provider provider (Static_Source owner _) = (owner = provider)"
| "matches_provider provider (Plugin_Source _) = False"

record model_catalog =
  mc_entries :: "(string \<times> model_entry) list"
  mc_suppressed :: "string list"
  mc_sources :: "discovery_source list"

definition empty_catalog :: model_catalog where
  "empty_catalog = \<lparr>mc_entries = [], mc_suppressed = [], mc_sources = []\<rparr>"

definition catalog_key :: "string \<Rightarrow> string \<Rightarrow> string" where
  "catalog_key provider model_id = provider @ '':'' @ model_id"

definition add_source :: "discovery_source \<Rightarrow> model_catalog \<Rightarrow> model_catalog" where
  "add_source source c = c\<lparr>mc_sources := mc_sources c @ [source]\<rparr>"

text \<open>\<open>str::rsplit_once\<close>.\<close>

definition rsplit_once :: "char \<Rightarrow> string \<Rightarrow> (string \<times> string) option" where
  "rsplit_once sep s = map_option (\<lambda>(a, b). (rev b, rev a)) (split_once sep (rev s))"

definition replace_static_source :: "string \<Rightarrow> string list \<Rightarrow> model_catalog \<Rightarrow> model_catalog" where
  "replace_static_source provider models c =
     c\<lparr>mc_sources := filter (\<lambda>s. \<not> matches_provider provider s) (mc_sources c)
                     @ [Static_Source provider (map (\<lambda>m. (provider, m)) models)],
       mc_entries := hm_retain (\<lambda>key _. map_option fst (rsplit_once (CHR '':'') key) \<noteq> Some provider) (mc_entries c)\<rparr>"

definition insert_entry :: "model_entry \<Rightarrow> (string \<times> model_entry) list \<Rightarrow> (string \<times> model_entry) list" where
  "insert_entry e es = AList.update (catalog_key (me_provider e) (me_id e)) e es"

definition discover :: "model_catalog \<Rightarrow> model_catalog" where
  "discover c = c\<lparr>mc_entries := fold insert_entry (concat (map discover_source (mc_sources c))) (mc_entries c)\<rparr>"

definition register_model :: "model_entry \<Rightarrow> model_catalog \<Rightarrow> model_catalog" where
  "register_model e c = c\<lparr>mc_entries := insert_entry e (mc_entries c)\<rparr>"

definition catalog_get :: "string \<Rightarrow> string \<Rightarrow> model_catalog \<Rightarrow> model_entry option" where
  "catalog_get provider model_id c = map_of (mc_entries c) (catalog_key provider model_id)"

definition catalog_list :: "model_catalog \<Rightarrow> model_entry list" where
  "catalog_list c =
     filter (\<lambda>e. catalog_key (me_provider e) (me_id e) \<notin> set (mc_suppressed c)) (map snd (mc_entries c))"

definition list_all_entries :: "model_catalog \<Rightarrow> model_entry list" where
  "list_all_entries c = map snd (mc_entries c)"

definition suppress :: "string \<Rightarrow> string \<Rightarrow> model_catalog \<Rightarrow> model_catalog" where
  "suppress provider model_id c =
     c\<lparr>mc_suppressed := List.insert (catalog_key provider model_id) (mc_suppressed c)\<rparr>"

definition unsuppress :: "string \<Rightarrow> string \<Rightarrow> model_catalog \<Rightarrow> model_catalog" where
  "unsuppress provider model_id c =
     c\<lparr>mc_suppressed := removeAll (catalog_key provider model_id) (mc_suppressed c)\<rparr>"

definition is_suppressed :: "string \<Rightarrow> string \<Rightarrow> model_catalog \<Rightarrow> bool" where
  "is_suppressed provider model_id c \<longleftrightarrow> catalog_key provider model_id \<in> set (mc_suppressed c)"

definition clear_catalog :: "model_catalog \<Rightarrow> model_catalog" where
  "clear_catalog c = c\<lparr>mc_entries := [], mc_sources := [], mc_suppressed := []\<rparr>"

definition find_by_capability :: "string \<Rightarrow> model_catalog \<Rightarrow> model_entry list" where
  "find_by_capability capability c = filter (\<lambda>e. capability \<in> set (me_capabilities e)) (catalog_list c)"

definition find_by_provider :: "string \<Rightarrow> model_catalog \<Rightarrow> model_entry list" where
  "find_by_provider provider c = filter (\<lambda>e. me_provider e = provider) (catalog_list c)"

section \<open>Keys\<close>

lemma catalog_key_eq:
  assumes "CHR '':'' \<notin> set p" "CHR '':'' \<notin> set q"
  shows "catalog_key p m = catalog_key q n \<longleftrightarrow> p = q \<and> m = n"
proof
  assume "catalog_key p m = catalog_key q n"
  moreover have "split_once (CHR '':'') (catalog_key r k) = Some (r, k)" if "CHR '':'' \<notin> set r" for r k
    using that by (simp add: catalog_key_def split_once_Some)
  ultimately show "p = q \<and> m = n" using assms by (metis option.inject prod.inject)
qed simp

lemma rsplit_key:
  assumes "CHR '':'' \<notin> set m"
  shows "rsplit_once (CHR '':'') (catalog_key p m) = Some (p, m)"
proof -
  have "split_once (CHR '':'') (rev (catalog_key p m)) = Some (rev m, rev p)"
    using assms by (simp add: catalog_key_def split_once_Some)
  then show ?thesis by (simp add: rsplit_once_def)
qed

lemma rsplit_key_other:
  assumes "CHR '':'' \<notin> set p" "CHR '':'' \<notin> set q" "p \<noteq> q"
  shows "map_option fst (rsplit_once (CHR '':'') (catalog_key p m)) \<noteq> Some q"
proof
  assume "map_option fst (rsplit_once (CHR '':'') (catalog_key p m)) = Some q"
  then obtain r where "split_once (CHR '':'') (rev (catalog_key p m)) = Some (r, rev q)"
    by (auto simp: rsplit_once_def)
  then have "rev (catalog_key p m) = r @ CHR '':'' # rev q" by (simp add: split_once_Some)
  then have "catalog_key p m = q @ '':'' @ rev r" by (metis append.assoc append_Cons append_Nil rev_append rev_rev_ident rev.simps)
  with assms catalog_key_eq [of p q m "rev r"] show False by (simp add: catalog_key_def)
qed

lemma fold_insert_known:
  "map_of (fold insert_entry es t) k \<noteq> None \<longleftrightarrow>
     (\<exists>e \<in> set es. catalog_key (me_provider e) (me_id e) = k) \<or> map_of t k \<noteq> None"
  by (induction es arbitrary: t) (auto simp: insert_entry_def)

lemma metadata_keeps [simp]:
  "me_provider (apply_known_model_metadata e m) = me_provider e" "me_id (apply_known_model_metadata e m) = me_id e"
  by (simp_all add: apply_known_model_metadata_def Let_def)

lemma new_entry_fields [simp]:
  "me_provider (new_model_entry m n p) = p" "me_id (new_model_entry m n p) = m"
  by (simp_all add: new_model_entry_def)

text \<open>A catalog fed by the static sources of providers whose names have no colon. Every source offers models of its
  own provider only, and every entry lies under its own key.\<close>

fun own_source :: "discovery_source \<Rightarrow> bool" where
  "own_source (Static_Source owner models) = (CHR '':'' \<notin> set owner \<and> (\<forall>x \<in> set models. fst x = owner))"
| "own_source (Plugin_Source _) = False"

definition entry_ok :: "string \<times> model_entry \<Rightarrow> bool" where
  "entry_ok x \<longleftrightarrow>
     fst x = catalog_key (me_provider (snd x)) (me_id (snd x)) \<and> CHR '':'' \<notin> set (me_provider (snd x))"

definition catalog_ok :: "model_catalog \<Rightarrow> bool" where
  "catalog_ok c \<longleftrightarrow>
     hm_ok (mc_entries c) \<and> (\<forall>s \<in> set (mc_sources c). own_source s) \<and> (\<forall>x \<in> set (mc_entries c). entry_ok x)"

lemma discover_own:
  "own_source s \<Longrightarrow> e \<in> set (discover_source s) \<Longrightarrow>
     matches_provider (me_provider e) s \<and> CHR '':'' \<notin> set (me_provider e)"
  by (cases s) auto

lemma set_update_subset: "set (AList.update k v t) \<subseteq> insert (k, v) (set t)"
  by (induction t) auto

lemma insert_entry_ok:
  assumes "hm_ok t" "\<forall>x \<in> set t. entry_ok x" and "\<forall>e \<in> set es. CHR '':'' \<notin> set (me_provider e)"
  shows "hm_ok (fold insert_entry es t) \<and> (\<forall>x \<in> set (fold insert_entry es t). entry_ok x)"
  using assms
proof (induction es arbitrary: t)
  case (Cons e es)
  have "entry_ok (catalog_key (me_provider e) (me_id e), e)" using Cons.prems(3) by (simp add: entry_ok_def)
  then have "\<forall>x \<in> set (insert_entry e t). entry_ok x"
    using Cons.prems(2) set_update_subset unfolding insert_entry_def by fastforce
  moreover have "hm_ok (insert_entry e t)" using Cons.prems(1) by (simp add: insert_entry_def)
  ultimately show ?case using Cons.IH [of "insert_entry e t"] Cons.prems(3) by simp
qed simp

lemma catalog_ok_discover: "catalog_ok c \<Longrightarrow> catalog_ok (discover c)"
proof -
  assume c: "catalog_ok c"
  then have "\<forall>e \<in> set (concat (map discover_source (mc_sources c))). CHR '':'' \<notin> set (me_provider e)"
    using discover_own by (fastforce simp: catalog_ok_def)
  with c show ?thesis
    using insert_entry_ok [of "mc_entries c" "concat (map discover_source (mc_sources c))"]
    by (simp add: catalog_ok_def discover_def)
qed

lemma catalog_ok_replace: "catalog_ok c \<Longrightarrow> CHR '':'' \<notin> set p \<Longrightarrow> catalog_ok (replace_static_source p ms c)"
  by (auto simp: catalog_ok_def replace_static_source_def hm_retain_def intro: distinct_map_filter)

text \<open>Replacing the models of a provider and discovering again leaves the catalog with exactly the new models of
  that provider among those whose name has no colon, and with every entry that it had of another provider.\<close>

theorem catalog_refresh_exact:
  assumes "catalog_ok c" and "CHR '':'' \<notin> set p"
  shows "(CHR '':'' \<notin> set m \<longrightarrow>
            (catalog_get p m (discover (replace_static_source p ms c)) \<noteq> None \<longleftrightarrow> m \<in> set ms)) \<and>
         (q \<noteq> p \<and> CHR '':'' \<notin> set q \<and> catalog_get q n c \<noteq> None \<longrightarrow>
            catalog_get q n (discover (replace_static_source p ms c)) \<noteq> None)"
proof -
  let ?c = "replace_static_source p ms c"
  let ?es = "concat (map discover_source (mc_sources ?c))"
  have ok: "catalog_ok ?c" using assms by (rule catalog_ok_replace)
  have look: "catalog_get q n (discover ?c) \<noteq> None \<longleftrightarrow>
      (\<exists>e \<in> set ?es. catalog_key (me_provider e) (me_id e) = catalog_key q n) \<or> catalog_get q n ?c \<noteq> None" for q n
    using fold_insert_known [of ?es "mc_entries ?c" "catalog_key q n"]
    by (simp add: catalog_get_def discover_def del: not_None_eq)
  have kept: "catalog_get q n ?c = (if map_option fst (rsplit_once (CHR '':'') (catalog_key q n)) \<noteq> Some p
      then catalog_get q n c else None)" for q n
    using assms(1) by (simp add: catalog_get_def replace_static_source_def catalog_ok_def map_of_retain split: option.split)
  have offered: "(\<exists>e \<in> set ?es. catalog_key (me_provider e) (me_id e) = catalog_key p m) \<longleftrightarrow> m \<in> set ms"
  proof
    assume "\<exists>e \<in> set ?es. catalog_key (me_provider e) (me_id e) = catalog_key p m"
    then obtain s e where s: "s \<in> set (mc_sources ?c)" "e \<in> set (discover_source s)"
        "catalog_key (me_provider e) (me_id e) = catalog_key p m" by auto
    moreover have "own_source s" using ok s(1) by (simp add: catalog_ok_def)
    ultimately have "matches_provider p s" "me_id e = m"
      using discover_own [of s e] catalog_key_eq [of "me_provider e" p "me_id e" m] assms(2) by auto
    with s(1,2) show "m \<in> set ms" by (auto simp: replace_static_source_def)
  qed (force simp: replace_static_source_def)
  show ?thesis
  proof (intro conjI impI)
    assume "CHR '':'' \<notin> set m"
    then show "catalog_get p m (discover ?c) \<noteq> None \<longleftrightarrow> m \<in> set ms"
      unfolding look offered kept by (simp add: rsplit_key)
  next
    assume "q \<noteq> p \<and> CHR '':'' \<notin> set q \<and> catalog_get q n c \<noteq> None"
    then show "catalog_get q n (discover ?c) \<noteq> None"
      unfolding look kept using rsplit_key_other [of q p n] assms(2) by simp
  qed
qed

definition two_provider_catalog :: model_catalog where
  "two_provider_catalog =
     discover (replace_static_source ''openai'' [''gpt-4o''] (discover (replace_static_source ''ollama'' [''llama3''] empty_catalog)))"

theorem catalog_refresh_exact_witness:
  "catalog_get ''ollama'' ''llama3'' (discover (replace_static_source ''ollama'' [''qwen''] two_provider_catalog)) = None"
proof -
  have "catalog_ok two_provider_catalog"
    unfolding two_provider_catalog_def
    by (intro catalog_ok_discover catalog_ok_replace) (simp_all add: catalog_ok_def empty_catalog_def)
  from catalog_refresh_exact [OF this, of "''ollama''" "''llama3''" "[''qwen'']"] show ?thesis by auto
qed

section \<open>Where the code departs from its documentation\<close>

text \<open>The entries to drop are found by the last colon of their key. A model whose name has a colon stays in the
  catalog after the provider has dropped it.\<close>

lemma tagged_model_lingers:
  "catalog_get ''ollama'' ''llama3:8b''
     (discover (replace_static_source ''ollama'' [''qwen2:7b'']
        (discover (replace_static_source ''ollama'' [''llama3:8b''] empty_catalog)))) \<noteq> None"
  by code_simp

end
