(* ===== verification/Provider_Client.thy ===== *)
theory Provider_Client
  imports Failure_Class
begin

text \<open>
  The HTTP client of a provider (\<open>src/model_router/gateway_client.rs\<close>), its credentials
  (\<open>oauth_credential.rs\<close>) and the chain of providers (\<open>src/providers/fallback.rs\<close>). Three loops of the model
  router take the first conclusive answer of a sequence: the locale \<open>answer_loop\<close> states what they share. The
  answers of the network and of the token endpoint are arguments.
\<close>

section \<open>Loops that end with the first answer\<close>

text \<open>The state after passing every element of a list, when none of them answers.\<close>

fun passed :: "('c \<Rightarrow> 's \<Rightarrow> 'o option \<times> 's) \<Rightarrow> 'c list \<Rightarrow> 's \<Rightarrow> 's option" where
  "passed visit [] s = Some s"
| "passed visit (c # cs) s = (case visit c s of (None, s') \<Rightarrow> passed visit cs s' | (Some _, _) \<Rightarrow> None)"

locale answer_loop =
  fixes loop :: "'c list \<Rightarrow> 's \<Rightarrow> 'o \<times> 's"
    and visit :: "'c \<Rightarrow> 's \<Rightarrow> 'o option \<times> 's"
    and exhausted :: "'s \<Rightarrow> 'o"
  assumes loop_Nil: "loop [] s = (exhausted s, s)"
    and loop_Cons: "loop (c # cs) s = (case visit c s of (Some x, s') \<Rightarrow> (x, s') | (None, s') \<Rightarrow> loop cs s')"
begin

lemma loop_answer:
  "(\<exists>s'. passed visit cs s = Some s' \<and> loop cs s = (exhausted s', s')) \<or>
   (\<exists>pre c post t. cs = pre @ c # post \<and> passed visit pre s = Some t \<and>
      visit c t = (Some (fst (loop cs s)), snd (loop cs s)))"
proof (induction cs arbitrary: s)
  case Nil
  then show ?case by (simp add: loop_Nil)
next
  case (Cons c cs)
  obtain r s' where v: "visit c s = (r, s')" by (cases "visit c s")
  show ?case
  proof (cases r)
    case (Some x)
    then have "c # cs = [] @ c # cs \<and> passed visit [] s = Some s \<and>
        visit c s = (Some (fst (loop (c # cs) s)), snd (loop (c # cs) s))"
      using v by (simp add: loop_Cons)
    then show ?thesis by blast
  next
    case None
    then have eq: "loop (c # cs) s = loop cs s'" using v by (simp add: loop_Cons)
    from Cons.IH [of s'] show ?thesis
    proof
      assume "\<exists>t. passed visit cs s' = Some t \<and> loop cs s' = (exhausted t, t)"
      then show ?thesis using eq v None by simp
    next
      assume "\<exists>pre d post t. cs = pre @ d # post \<and> passed visit pre s' = Some t \<and>
          visit d t = (Some (fst (loop cs s')), snd (loop cs s'))"
      then obtain pre d post t where "cs = pre @ d # post" "passed visit pre s' = Some t"
          "visit d t = (Some (fst (loop cs s')), snd (loop cs s'))" by blast
      then have "c # cs = (c # pre) @ d # post \<and> passed visit (c # pre) s = Some t \<and>
          visit d t = (Some (fst (loop (c # cs) s)), snd (loop (c # cs) s))"
        using v None eq by simp
      then show ?thesis by blast
    qed
  qed
qed

lemma loop_invariant:
  assumes "\<And>c s. c \<in> set cs \<Longrightarrow> I s \<Longrightarrow> I (snd (visit c s))" and "I s"
  shows "I (snd (loop cs s))"
  using assms
proof (induction cs arbitrary: s)
  case (Cons c cs)
  obtain r s' where v: "visit c s = (r, s')" by (cases "visit c s")
  then have "I s'" using Cons.prems by (metis list.set_intros(1) snd_conv)
  with Cons v show ?case by (cases r) (simp_all add: loop_Cons)
qed (simp add: loop_Nil)

lemma loop_cost:
  fixes cost :: "'s \<Rightarrow> nat"
  assumes "\<And>c s. cost (snd (visit c s)) \<le> cost s + n"
  shows "cost (snd (loop cs s)) \<le> cost s + n * length cs"
proof (induction cs arbitrary: s)
  case (Cons c cs)
  obtain r s' where v: "visit c s = (r, s')" by (cases "visit c s")
  then have "cost s' \<le> cost s + n" using assms [of c s] by simp
  with Cons [of s'] v show ?case by (cases r) (simp_all add: loop_Cons)
qed (simp add: loop_Nil)

end

section \<open>Credentials\<close>

record oauth2_credential =
  oc_access_token :: string
  oc_refresh_token :: "string option"
  oc_expires_at :: int
  oc_token_url :: string
  oc_client_id :: string
  oc_client_secret :: "string option"
  oc_scope :: "string option"

datatype credential =
    ApiKey string
  | BearerToken string "int option"
  | OAuth2 oauth2_credential

fun authorization_header :: "credential \<Rightarrow> string" where
  "authorization_header (ApiKey key) = ''Bearer '' @ key"
| "authorization_header (BearerToken token _) = ''Bearer '' @ token"
| "authorization_header (OAuth2 c) = ''Bearer '' @ oc_access_token c"

fun is_expired :: "int \<Rightarrow> credential \<Rightarrow> bool" where
  "is_expired now (ApiKey _) = False"
| "is_expired now (BearerToken _ expires_at) = (case expires_at of Some t \<Rightarrow> t \<le> now | None \<Rightarrow> False)"
| "is_expired now (OAuth2 c) = (oc_expires_at c \<le> now)"

fun is_expiring_soon :: "int \<Rightarrow> int \<Rightarrow> credential \<Rightarrow> bool" where
  "is_expiring_soon now margin (ApiKey _) = False"
| "is_expiring_soon now margin (BearerToken _ expires_at) =
     (case expires_at of Some t \<Rightarrow> t \<le> now + margin | None \<Rightarrow> False)"
| "is_expiring_soon now margin (OAuth2 c) = (oc_expires_at c \<le> now + margin)"

definition refresh_params :: "oauth2_credential \<Rightarrow> string \<Rightarrow> (string \<times> string) list" where
  "refresh_params c refresh =
     [(''grant_type'', ''refresh_token''), (''refresh_token'', refresh), (''client_id'', oc_client_id c)]
     @ (case oc_client_secret c of Some secret \<Rightarrow> [(''client_secret'', secret)] | None \<Rightarrow> [])
     @ (case oc_scope c of Some scope \<Rightarrow> [(''scope'', scope)] | None \<Rightarrow> [])"

record token_response =
  tr_access_token :: string
  tr_expires_in :: u64
  tr_refresh_token :: "string option"

text \<open>What the token endpoint does with a form: an error of the transport, a refusal with its body, an answer that
  does not parse, or tokens. The answer is read at \<open>later\<close>. Instants are seconds here.\<close>

datatype token_answer =
    Token_Transport router_error | Token_Refused string | Token_Invalid string | Token_Granted token_response

type_synonym token_endpoint = "string \<Rightarrow> (string \<times> string) list \<Rightarrow> token_answer"

definition refresh_if_needed ::
  "token_endpoint \<Rightarrow> int \<Rightarrow> int \<Rightarrow> credential \<Rightarrow> (router_error + string option) \<times> credential" where
  "refresh_if_needed endpoint now later c =
     (if \<not> (is_expired now c \<or> is_expiring_soon now 300 c) then (Inr None, c)
      else case c of
        OAuth2 o2 \<Rightarrow>
          (case oc_refresh_token o2 of
             None \<Rightarrow> (Inr None, c)
           | Some refresh \<Rightarrow>
               (case endpoint (oc_token_url o2) (refresh_params o2 refresh) of
                  Token_Transport e \<Rightarrow> (Inl e, c)
                | Token_Refused body \<Rightarrow> (Inl (External_Service (''OAuth2 refresh failed: '' @ body)), c)
                | Token_Invalid e \<Rightarrow> (Inl (External_Service (''OAuth2 refresh response invalid: '' @ e)), c)
                | Token_Granted data \<Rightarrow>
                    (Inr (tr_refresh_token data),
                     OAuth2 (o2\<lparr>oc_access_token := tr_access_token data,
                                oc_expires_at := later + sint (tr_expires_in data),
                                oc_refresh_token :=
                                  (case tr_refresh_token data of Some r \<Rightarrow> Some r | None \<Rightarrow> Some refresh)\<rparr>))))
      | _ \<Rightarrow> (Inr None, c))"

section \<open>The client\<close>

text \<open>The state of a client: its credential, and where a rotated refresh token is written, with what is stored there.\<close>

record http_client =
  hc_base_url :: string
  hc_credential :: credential
  hc_max_retries :: nat
  hc_retry_delay_ms :: nat
  hc_api_key_header :: "string option"
  hc_refresh_target :: "(string \<times> string option) option"

definition auth_for_credential :: "http_client \<Rightarrow> credential \<Rightarrow> string \<times> string" where
  "auth_for_credential hc c =
     (case (c, hc_api_key_header hc) of
        (ApiKey key, Some header_name) \<Rightarrow> (header_name, key)
      | _ \<Rightarrow> (''Authorization'', authorization_header c))"

text \<open>\<open>store_ok\<close> says whether the secret store took the token; a failure is only logged.\<close>

definition persist_rotated_refresh_token :: "bool \<Rightarrow> string \<Rightarrow> http_client \<Rightarrow> http_client" where
  "persist_rotated_refresh_token store_ok new_token hc =
     (case hc_refresh_target hc of
        None \<Rightarrow> hc
      | Some (sid, old) \<Rightarrow> if store_ok then hc\<lparr>hc_refresh_target := Some (sid, Some new_token)\<rparr> else hc)"

definition refresh_credential_if_needed ::
  "token_endpoint \<Rightarrow> bool \<Rightarrow> int \<Rightarrow> int \<Rightarrow> http_client \<Rightarrow> router_error option \<times> http_client" where
  "refresh_credential_if_needed endpoint store_ok now later hc =
     (case refresh_if_needed endpoint now later (hc_credential hc) of
        (Inl e, c) \<Rightarrow> (Some e, hc\<lparr>hc_credential := c\<rparr>)
      | (Inr None, c) \<Rightarrow> (None, hc\<lparr>hc_credential := c\<rparr>)
      | (Inr (Some new_token), c) \<Rightarrow>
          (None, persist_rotated_refresh_token store_ok new_token (hc\<lparr>hc_credential := c\<rparr>)))"

definition trim_end_char :: "char \<Rightarrow> string \<Rightarrow> string" where
  "trim_end_char c s = rev (dropWhile (\<lambda>x. x = c) (rev s))"

definition client_url :: "http_client \<Rightarrow> string \<Rightarrow> string" where
  "client_url hc path =
     (if starts_with path ''http://'' \<or> starts_with path ''https://'' then path
      else trim_end_char (CHR ''/'') (hc_base_url hc) @ path)"

fun is_retryable_error :: "router_error \<Rightarrow> bool" where
  "is_retryable_error (Http_Error _ is_timeout is_connect) = (is_timeout \<or> is_connect)"
| "is_retryable_error (External_Service source) =
     contains_any [''timeout'', ''timed out'', ''connection'', ''overloaded'', ''service unavailable''] (to_lowercase source)"
| "is_retryable_error _ = False"

text \<open>What one send of the request gives.\<close>

datatype http_outcome = Answered nat string string | Unsent router_error

record retry_state =
  rt_last_error :: "router_error option"
  rt_sent :: nat
  rt_waited_ms :: nat

text \<open>The back-off doubles; its factor is a 32-bit power.\<close>

definition retry_delay :: "http_client \<Rightarrow> nat \<Rightarrow> nat" where
  "retry_delay hc attempt = hc_retry_delay_ms hc * unat ((2 :: u32) ^ attempt)"

definition keep_trying :: "http_client \<Rightarrow> router_error \<Rightarrow> nat \<Rightarrow> retry_state \<Rightarrow> retry_state" where
  "keep_trying hc e attempt s =
     s\<lparr>rt_last_error := Some e,
       rt_waited_ms := rt_waited_ms s + (if attempt < hc_max_retries hc then retry_delay hc attempt else 0)\<rparr>"

definition retry_visit ::
  "http_client \<Rightarrow> (nat \<Rightarrow> http_outcome) \<Rightarrow> nat \<Rightarrow> retry_state
     \<Rightarrow> (router_error + nat \<times> string) option \<times> retry_state" where
  "retry_visit hc operation attempt s =
     (let s1 = s\<lparr>rt_sent := Suc (rt_sent s)\<rparr>
      in case operation attempt of
           Answered status reason body \<Rightarrow>
             if 200 \<le> status \<and> status < 300 then (Some (Inr (status, body)), s1)
             else (let err = http_error status reason body
                   in if (400 \<le> status \<and> status < 500) \<or> status = 501 \<or> attempt = hc_max_retries hc
                      then (Some (Inl err), s1)
                      else (None, keep_trying hc err attempt s1))
         | Unsent e \<Rightarrow>
             if \<not> is_retryable_error e \<or> attempt = hc_max_retries hc then (Some (Inl e), s1)
             else (None, keep_trying hc e attempt s1))"

fun retry_loop ::
  "http_client \<Rightarrow> (nat \<Rightarrow> http_outcome) \<Rightarrow> nat list \<Rightarrow> retry_state \<Rightarrow> (router_error + nat \<times> string) \<times> retry_state" where
  "retry_loop hc operation [] s =
     (Inl (case rt_last_error s of Some e \<Rightarrow> e | None \<Rightarrow> External_Service ''All retry attempts exhausted''), s)"
| "retry_loop hc operation (attempt # rest) s =
     (case retry_visit hc operation attempt s of
        (Some r, s') \<Rightarrow> (r, s')
      | (None, s') \<Rightarrow> retry_loop hc operation rest s')"

text \<open>\<open>denied\<close> is the answer of the client's rate limiter, when it has one and it refuses.\<close>

definition execute_with_retry ::
  "nat option \<Rightarrow> http_client \<Rightarrow> (nat \<Rightarrow> http_outcome) \<Rightarrow> (router_error + nat \<times> string) \<times> retry_state" where
  "execute_with_retry denied hc operation =
     (let s = \<lparr>rt_last_error = None, rt_sent = 0, rt_waited_ms = 0\<rparr>
      in case denied of
           Some retry_after_secs \<Rightarrow> (Inl (limiter_error retry_after_secs), s)
         | None \<Rightarrow> retry_loop hc operation [0..<Suc (hc_max_retries hc)] s)"

section \<open>Chains of providers\<close>

text \<open>A provider as the chain sees it. Each is asked at most once in a call.\<close>

record ('q, 'r, 's) chain_provider =
  cp_name :: string
  cp_default_model :: string
  cp_supports_tools :: bool
  cp_max_context :: nat
  cp_timeout :: "nat option"
  cp_complete :: "'q \<Rightarrow> router_error + 'r"
  cp_stream :: "'q \<Rightarrow> router_error + 's"
  cp_health_check :: "router_error + bool"

type_synonym ('q, 'r, 's) fallback_provider = "string \<times> ('q, 'r, 's) chain_provider list"

definition add_chain_provider ::
  "('q, 'r, 's) chain_provider \<Rightarrow> ('q, 'r, 's) fallback_provider \<Rightarrow> ('q, 'r, 's) fallback_provider" where
  "add_chain_provider p fp = (fst fp, snd fp @ [p])"

definition chain_names :: "('q, 'r, 's) fallback_provider \<Rightarrow> string list" where
  "chain_names fp = map cp_name (snd fp)"

definition chain_default_model :: "('q, 'r, 's) fallback_provider \<Rightarrow> string" where
  "chain_default_model fp = (case snd fp of p # _ \<Rightarrow> cp_default_model p | [] \<Rightarrow> ''unknown'')"

definition chain_supports_tools :: "('q, 'r, 's) fallback_provider \<Rightarrow> bool" where
  "chain_supports_tools fp = list_all cp_supports_tools (snd fp)"

definition chain_max_context :: "('q, 'r, 's) fallback_provider \<Rightarrow> nat" where
  "chain_max_context fp =
     (case map cp_max_context (snd fp) of [] \<Rightarrow> 4096 | n # ns \<Rightarrow> fold min ns n)"

definition chain_timeout :: "('q, 'r, 's) fallback_provider \<Rightarrow> nat option" where
  "chain_timeout fp =
     (case List.map_filter cp_timeout (snd fp) of [] \<Rightarrow> None | n # ns \<Rightarrow> Some (fold min ns n))"

text \<open>The loop of \<open>complete\<close> and of \<open>stream\<close>, which differ in the call and in their message. The last error is kept as
  the cause, which does not print.\<close>

definition ask_visit :: "('p \<Rightarrow> router_error + 'r) \<Rightarrow> 'p \<Rightarrow> router_error option \<Rightarrow> (router_error + 'r) option \<times> router_error option" where
  "ask_visit ask p last_error = (case ask p of Inr r \<Rightarrow> (Some (Inr r), last_error) | Inl e \<Rightarrow> (None, Some e))"

fun ask_loop ::
  "string \<Rightarrow> ('p \<Rightarrow> router_error + 'r) \<Rightarrow> 'p list \<Rightarrow> router_error option \<Rightarrow> (router_error + 'r) \<times> router_error option" where
  "ask_loop message ask [] last_error = (Inl (External_Service message), last_error)"
| "ask_loop message ask (p # ps) last_error =
     (case ask p of Inr r \<Rightarrow> (Inr r, last_error) | Inl e \<Rightarrow> ask_loop message ask ps (Some e))"

definition chain_complete :: "('q, 'r, 's) fallback_provider \<Rightarrow> 'q \<Rightarrow> router_error + 'r" where
  "chain_complete fp request =
     fst (ask_loop ''All providers in fallback chain failed'' (\<lambda>p. cp_complete p request) (snd fp) None)"

definition chain_stream :: "('q, 'r, 's) fallback_provider \<Rightarrow> 'q \<Rightarrow> router_error + 's" where
  "chain_stream fp request =
     fst (ask_loop ''All providers in fallback chain failed for streaming'' (\<lambda>p. cp_stream p request) (snd fp) None)"

definition chain_health_check :: "('q, 'r, 's) fallback_provider \<Rightarrow> router_error + bool" where
  "chain_health_check fp = Inr (list_ex (\<lambda>p. cp_health_check p = Inr True) (snd fp))"

section \<open>The loops are answer loops\<close>

interpretation retries: answer_loop "retry_loop hc operation" "retry_visit hc operation"
  "\<lambda>s. Inl (case rt_last_error s of Some e \<Rightarrow> e | None \<Rightarrow> External_Service ''All retry attempts exhausted'')"
  by unfold_locales simp_all

interpretation chain: answer_loop "ask_loop message ask" "ask_visit ask" "\<lambda>_. Inl (External_Service message)"
  by unfold_locales (simp_all add: ask_visit_def split: sum.split)

section \<open>Retries\<close>

text \<open>Outcomes after which the request is sent again, and what an outcome gives when it is the last.\<close>

fun transient :: "http_outcome \<Rightarrow> bool" where
  "transient (Answered status _ _) \<longleftrightarrow>
     \<not> (200 \<le> status \<and> status < 300) \<and> \<not> (400 \<le> status \<and> status < 500) \<and> status \<noteq> 501"
| "transient (Unsent e) \<longleftrightarrow> is_retryable_error e"

fun outcome_result :: "http_outcome \<Rightarrow> router_error + nat \<times> string" where
  "outcome_result (Answered status reason body) =
     (if 200 \<le> status \<and> status < 300 then Inr (status, body) else Inl (http_error status reason body))"
| "outcome_result (Unsent e) = Inl e"

lemma retry_visit_cases:
  "retry_visit hc op a s =
     (if transient (op a) \<and> a \<noteq> hc_max_retries hc
      then (None, keep_trying hc (case outcome_result (op a) of Inl e \<Rightarrow> e) a (s\<lparr>rt_sent := Suc (rt_sent s)\<rparr>))
      else (Some (outcome_result (op a)), s\<lparr>rt_sent := Suc (rt_sent s)\<rparr>))"
  by (cases "op a") (auto simp: retry_visit_def Let_def)

lemma passed_append: "passed v (xs @ ys) s = Option.bind (passed v xs s) (passed v ys)"
  by (induction xs arbitrary: s) (auto split: option.split prod.split)

lemma passed_attempts:
  assumes "passed (retry_visit hc op) [0..<k] s = Some t" and "k \<le> hc_max_retries hc"
  shows "(\<forall>i < k. transient (op i)) \<and> rt_sent t = rt_sent s + k \<and>
         rt_waited_ms t = rt_waited_ms s + (\<Sum>i < k. retry_delay hc i)"
  using assms
proof (induction k arbitrary: t)
  case (Suc k)
  from Suc.prems(1) obtain u where p: "passed (retry_visit hc op) [0..<k] s = Some u"
      "passed (retry_visit hc op) [k] u = Some t"
    by (auto simp: passed_append bind_eq_Some_conv)
  then have u: "passed (retry_visit hc op) [0..<k] s = Some u" "retry_visit hc op k u = (None, t)"
    by (cases "retry_visit hc op k u"; cases "fst (retry_visit hc op k u)"; simp)+
  from u(2) have "transient (op k)" "t = keep_trying hc (case outcome_result (op k) of Inl e \<Rightarrow> e) k (u\<lparr>rt_sent := Suc (rt_sent u)\<rparr>)"
    by (auto simp: retry_visit_cases split: if_splits)
  with Suc.IH [OF u(1)] Suc.prems(2) show ?case by (auto simp: keep_trying_def less_Suc_eq)
qed simp

lemma upt_split: "[0..<n] = pre @ c # post \<Longrightarrow> c < n \<and> pre = [0..<c]"
proof -
  assume eq: "[0..<n] = pre @ c # post"
  have "length [0..<n] = length (pre @ c # post)" by (rule arg_cong [OF eq])
  then have "length pre < n" by simp
  moreover have "c = length pre" using arg_cong [OF eq, of "\<lambda>xs. xs ! length pre"] calculation by simp
  moreover have "pre = take (length pre) [0..<n]" using eq by simp
  ultimately show ?thesis by (simp add: take_upt)
qed

text \<open>A request is sent until the first outcome that is not transient, and at most once more than the number of
  retries: the call returns what the last outcome gives, every outcome before it was transient, and between two sends
  it waits twice as long as before.\<close>

theorem retries_end_with_first_lasting_outcome:
  "\<exists>k \<le> hc_max_retries hc.
     (\<forall>i < k. transient (operation i)) \<and> (k < hc_max_retries hc \<longrightarrow> \<not> transient (operation k)) \<and>
     fst (execute_with_retry None hc operation) = outcome_result (operation k) \<and>
     rt_sent (snd (execute_with_retry None hc operation)) = Suc k \<and>
     rt_waited_ms (snd (execute_with_retry None hc operation)) = (\<Sum>i < k. retry_delay hc i)"
proof -
  let ?s = "\<lparr>rt_last_error = None, rt_sent = 0, rt_waited_ms = 0\<rparr>"
  let ?n = "hc_max_retries hc" and ?r = "execute_with_retry None hc operation"
  have r: "?r = retry_loop hc operation [0..<Suc ?n] ?s" by (simp add: execute_with_retry_def Let_def del: upt_Suc)
  have "passed (retry_visit hc operation) [0..<Suc ?n] ?s = None"
    by (auto simp: passed_append retry_visit_cases split: Option.bind_split)
  then obtain pre c post t where c: "[0..<Suc ?n] = pre @ c # post" "passed (retry_visit hc operation) pre ?s = Some t"
      "retry_visit hc operation c t = (Some (fst ?r), snd ?r)"
    using retries.loop_answer [of hc operation "[0..<Suc ?n]" ?s] r by auto
  then have le: "c \<le> ?n" and p: "passed (retry_visit hc operation) [0..<c] ?s = Some t"
    using upt_split [OF c(1)] by auto
  from c(3) have "\<not> (transient (operation c) \<and> c \<noteq> ?n)" "fst ?r = outcome_result (operation c)"
      "snd ?r = t\<lparr>rt_sent := Suc (rt_sent t)\<rparr>"
    by (auto simp: retry_visit_cases split: if_splits)
  with passed_attempts [OF p le] le show ?thesis by (intro exI [of _ c]) auto
qed

definition sample_client :: http_client where
  "sample_client =
     \<lparr>hc_base_url = ''https://api.example'', hc_credential = ApiKey ''k'', hc_max_retries = 3, hc_retry_delay_ms = 500,
      hc_api_key_header = None, hc_refresh_target = None\<rparr>"

definition flaky_operation :: "nat \<Rightarrow> http_outcome" where
  "flaky_operation i = (if i < 2 then Answered 503 ''Service Unavailable'' [] else Answered 200 ''OK'' ''done'')"

theorem retries_end_with_first_lasting_outcome_witness:
  "fst (execute_with_retry None sample_client flaky_operation) = Inr (200, ''done'')"
proof -
  have t: "transient (flaky_operation i) \<longleftrightarrow> i < 2" for i by (simp add: flaky_operation_def)
  have m: "hc_max_retries sample_client = 3" by (simp add: sample_client_def)
  obtain k where k: "k \<le> 3" "\<forall>i < k. i < 2" "k < 3 \<longrightarrow> \<not> k < 2"
      "fst (execute_with_retry None sample_client flaky_operation) = outcome_result (flaky_operation k)"
    using retries_end_with_first_lasting_outcome [of sample_client flaky_operation] unfolding t m by blast
  then have "\<not> k < 2" by auto
  with k(4) show ?thesis by (simp add: flaky_operation_def)
qed

section \<open>Chains\<close>

lemma ask_loop_find:
  "fst (ask_loop message ask ps le) =
     (case find (\<lambda>p. \<not> isl (ask p)) ps of Some p \<Rightarrow> ask p | None \<Rightarrow> Inl (External_Service message))"
  by (induction ps arbitrary: le) (auto split: sum.split)

lemma fold_min_le: "fold min ns (n :: nat) \<le> n \<and> (\<forall>m \<in> set ns. fold min ns n \<le> m)"
proof (induction ns arbitrary: n)
  case (Cons a ns)
  from Cons [of "min a n"] show ?case by auto
qed simp

text \<open>A chain answers with the first of its providers that answers, for a completion and for a stream, and with an
  error exactly when each of them fails. The context it claims is one that each of its providers has.\<close>

theorem chain_answers_with_first_success:
  "chain_complete (n, ps) request =
     (case find (\<lambda>p. \<not> isl (cp_complete p request)) ps of
        Some p \<Rightarrow> cp_complete p request
      | None \<Rightarrow> Inl (External_Service ''All providers in fallback chain failed''))
   \<and> chain_stream (n, ps) request =
     (case find (\<lambda>p. \<not> isl (cp_stream p request)) ps of
        Some p \<Rightarrow> cp_stream p request
      | None \<Rightarrow> Inl (External_Service ''All providers in fallback chain failed for streaming''))
   \<and> list_all (\<lambda>p. chain_max_context (n, ps) \<le> cp_max_context p) ps"
  using fold_min_le
  by (auto simp: chain_complete_def chain_stream_def chain_max_context_def ask_loop_find list_all_iff split: list.split)

section \<open>Refresh tokens\<close>

text \<open>The token under which the client would refresh, and the one that is stored for the next start.\<close>

fun refresh_token_of :: "credential \<Rightarrow> string option" where
  "refresh_token_of (OAuth2 c) = oc_refresh_token c"
| "refresh_token_of _ = None"

text \<open>As long as the secret store takes what it is given, the stored refresh token stays the one the credential
  holds, whatever the token endpoint answers: no answer that rotates the token is lost, and no error changes either.\<close>

theorem stored_refresh_token_stays_current:
  assumes "hc_refresh_target hc = Some (sid, refresh_token_of (hc_credential hc))"
  shows "hc_refresh_target (snd (refresh_credential_if_needed endpoint True now later hc)) =
           Some (sid, refresh_token_of (hc_credential (snd (refresh_credential_if_needed endpoint True now later hc))))"
  using assms
  by (cases "hc_credential hc")
     (auto simp: refresh_credential_if_needed_def refresh_if_needed_def persist_rotated_refresh_token_def
        split: option.split token_answer.split)

theorem stored_refresh_token_stays_current_witness:
  "hc_refresh_target (snd (refresh_credential_if_needed
     (\<lambda>_ _. Token_Granted \<lparr>tr_access_token = ''a2'', tr_expires_in = 3600, tr_refresh_token = Some ''r2''\<rparr>) True 100 101
     \<lparr>hc_base_url = [], hc_credential = OAuth2 \<lparr>oc_access_token = [], oc_refresh_token = Some ''r1'', oc_expires_at = 99,
        oc_token_url = ''https://idp/token'', oc_client_id = ''c'', oc_client_secret = None, oc_scope = None\<rparr>,
      hc_max_retries = 3, hc_retry_delay_ms = 500, hc_api_key_header = None,
      hc_refresh_target = Some (''llm-oauth/grok'', Some ''r1'')\<rparr>)) = Some (''llm-oauth/grok'', Some ''r2'')"
  by (subst stored_refresh_token_stays_current [of _ "''llm-oauth/grok''"]) code_simp+

end
