(* ===== verification/Router_Config.thy ===== *)
theory Router_Config
  imports Auth_Profile Circuit_Breaker Model_Catalog Provider_Client
    "HOL-Library.Char_ord" "HOL-Library.List_Lexorder"
begin

text \<open>
  Configuration and administration of the model router (\<open>src/model_router/config.rs\<close>, \<open>router/mod.rs\<close>,
  \<open>router/init.rs\<close>, \<open>router/admin.rs\<close>): which provider serves a model, and the calls that add, change and remove
  providers, models and chains. Hash maps are association lists in their order of iteration. Building the concrete
  client of a provider is an argument. Timeouts, base URLs and usage quotas are left out, and so are prices.
\<close>

section \<open>Configuration\<close>

datatype provider_key = Inline string | Key_Ref string

record provider_config =
  pv_models :: "string list"
  pv_default_model :: string
  pv_api_key :: provider_key
  pv_api_keys :: "string list"
  pv_auth_profile :: "auth_profile_config option"

definition inline_value :: "provider_key \<Rightarrow> string option" where
  "inline_value k = (case k of Inline s \<Rightarrow> Some s | Key_Ref _ \<Rightarrow> None)"

definition provider_default_model :: "provider_config \<Rightarrow> string" where
  "provider_default_model p =
     (if pv_default_model p \<in> set (pv_models p) then pv_default_model p
      else case pv_models p of m # _ \<Rightarrow> m | [] \<Rightarrow> [])"

definition supports_model :: "provider_config \<Rightarrow> string \<Rightarrow> bool" where
  "supports_model p model_id \<longleftrightarrow> model_id \<in> set (pv_models p)"

text \<open>\<open>secrets\<close> is the secret store, when there is one: a reference that it cannot resolve is an empty key.\<close>

definition effective_key :: "(string \<Rightarrow> string option) option \<Rightarrow> provider_config \<Rightarrow> string" where
  "effective_key secrets p =
     (case (case pv_auth_profile p of Some a \<Rightarrow> pf_keys a | None \<Rightarrow> []) of
        k # _ \<Rightarrow> ac_key k
      | [] \<Rightarrow>
          (case pv_api_keys p of
             k # _ \<Rightarrow> k
           | [] \<Rightarrow>
               (case pv_api_key p of
                  Inline s \<Rightarrow> s
                | Key_Ref r \<Rightarrow>
                    (case secrets of
                       Some look \<Rightarrow> (case look r of Some v \<Rightarrow> v | None \<Rightarrow> [])
                     | None \<Rightarrow> []))))"

definition derived_auth_profile_config :: "provider_config \<Rightarrow> auth_profile_config" where
  "derived_auth_profile_config p =
     (case pv_auth_profile p of
        Some a \<Rightarrow> a
      | None \<Rightarrow>
          \<lparr>pf_keys =
             (case inline_value (pv_api_key p) of
                Some key \<Rightarrow> if key \<noteq> [] then [\<lparr>ac_key = key, ac_label = ''primary''\<rparr>] else []
              | None \<Rightarrow> [])
             @ map (\<lambda>(i, key). \<lparr>ac_key = key, ac_label = ''key-'' @ show_nat i\<rparr>)
                 (filter (\<lambda>(i, key). \<not> (i = 0 \<and> inline_value (pv_api_key p) = Some key))
                    (List.enumerate 0 (pv_api_keys p))),
           pf_cooldown_secs = 60, pf_max_failures = 3\<rparr>)"

record fallback_entry =
  fe_provider :: string
  fe_model :: string
  fe_enabled :: bool
  fe_health_score :: nat

definition chain_entry :: "string \<Rightarrow> string \<Rightarrow> fallback_entry" where
  "chain_entry model_id provider =
     \<lparr>fe_provider = provider, fe_model = model_id, fe_enabled = True, fe_health_score = 100\<rparr>"

text \<open>The router. The calls are a log of the requests sent to providers: the name, the credential in use and the model
  asked for.\<close>

record model_router =
  mr_default_model :: string
  mr_configs :: "(string \<times> provider_config) list"
  mr_config_chains :: "(string \<times> string list) list"
  mr_threshold :: u32
  mr_reset_secs :: u64
  mr_providers :: "(string \<times> credential) list"
  mr_health :: "(string \<times> provider_health) list"
  mr_chains :: "(string \<times> fallback_entry list) list"
  mr_auth :: key_manager
  mr_catalog :: model_catalog
  mr_calls :: "(string \<times> credential \<times> string option) list"

definition new_router :: "string \<Rightarrow> (string \<times> provider_config) list \<Rightarrow> (string \<times> string list) list \<Rightarrow> model_router" where
  "new_router default_model configs chain_table =
     \<lparr>mr_default_model = default_model, mr_configs = configs, mr_config_chains = chain_table, mr_threshold = 5,
      mr_reset_secs = 300, mr_providers = [], mr_health = [], mr_chains = [],
      mr_auth = \<lparr>am_profiles = [], am_store = None\<rparr>, mr_catalog = empty_catalog, mr_calls = []\<rparr>"

section \<open>Which provider serves a model\<close>

definition parse_model_ref :: "string \<Rightarrow> string option \<times> string" where
  "parse_model_ref model_ref =
     (case strip_prefix ''cloud/'' model_ref of
        Some rest \<Rightarrow> if rest \<noteq> [] then (Some ''cloud'', rest) else (None, model_ref)
      | None \<Rightarrow> (None, model_ref))"

definition cloud_serves :: "model_router \<Rightarrow> string \<Rightarrow> bool" where
  "cloud_serves r bare =
     (case map_of (mr_configs r) ''cloud'' of Some p \<Rightarrow> supports_model p bare | None \<Rightarrow> False)"

definition config_provider_for_model :: "model_router \<Rightarrow> string \<Rightarrow> string option" where
  "config_provider_for_model r model_id =
     (if (case parse_model_ref model_id of (Some _, bare) \<Rightarrow> cloud_serves r bare | (None, _) \<Rightarrow> False)
      then Some ''cloud''
      else case find (\<lambda>(n, p). n \<noteq> ''cloud'' \<and> supports_model p model_id) (mr_configs r) of
             Some (n, _) \<Rightarrow> Some n
           | None \<Rightarrow>
               map_option fst (find (\<lambda>(n, p). n = ''cloud'' \<and> supports_model p model_id) (mr_configs r)))"

definition provider_for_model :: "model_router \<Rightarrow> string \<Rightarrow> string option" where
  "provider_for_model r model_id =
     (case config_provider_for_model r model_id of
        Some p \<Rightarrow> Some p
      | None \<Rightarrow>
          (let entries = catalog_list (mr_catalog r);
               in_cloud = (case parse_model_ref model_id of
                             (Some _, bare) \<Rightarrow> find (\<lambda>e. me_provider e = ''cloud'' \<and> me_id e = bare) entries
                           | (None, _) \<Rightarrow> None)
           in case in_cloud of
                Some e \<Rightarrow> Some (me_provider e)
              | None \<Rightarrow> map_option me_provider (find (\<lambda>e. me_id e = model_id) entries)))"

definition models_with_providers :: "model_router \<Rightarrow> (string \<times> string) list" where
  "models_with_providers r =
     (let ordered = sort_key fst (filter (\<lambda>(n, _). n \<noteq> ''cloud'') (mr_configs r))
                    @ filter (\<lambda>(n, _). n = ''cloud'') (mr_configs r);
          listed = concat (map (\<lambda>(n, p). map (\<lambda>m. (n, m)) (pv_models p)) ordered);
          found = map (\<lambda>e. (me_provider e, me_id e))
                    (filter (\<lambda>e. me_provider e \<in> fst ` set (mr_configs r)) (catalog_list (mr_catalog r)))
      in rev (remdups (rev (listed @ found))))"

definition unknown_model :: "string \<Rightarrow> string \<Rightarrow> router_error" where
  "unknown_model key model_id = Config_Invalid key (''Unknown model: '' @ model_id)"

definition unknown_provider :: "string \<Rightarrow> router_error" where
  "unknown_provider n = Config_Invalid ''provider'' (''Unknown provider: '' @ n)"

section \<open>Administration\<close>

definition switch_default_model :: "string \<Rightarrow> model_router \<Rightarrow> router_error option \<times> model_router" where
  "switch_default_model model_id r =
     (if provider_for_model r model_id = None then (Some (unknown_model ''default_model'' model_id), r)
      else (None, r\<lparr>mr_default_model := model_id\<rparr>))"

definition on_health :: "string \<Rightarrow> (provider_health \<Rightarrow> provider_health) \<Rightarrow> model_router \<Rightarrow> model_router" where
  "on_health n f r = r\<lparr>mr_health := AList.map_entry n f (mr_health r)\<rparr>"

definition enable_provider :: "string \<Rightarrow> model_router \<Rightarrow> router_error option \<times> model_router" where
  "enable_provider n r =
     (if n \<in> hm_keys (mr_health r) then (None, on_health n health_enable r) else (Some (unknown_provider n), r))"

definition disable_provider :: "string \<Rightarrow> model_router \<Rightarrow> router_error option \<times> model_router" where
  "disable_provider n r =
     (if n \<in> hm_keys (mr_health r) then (None, on_health n health_disable r) else (Some (unknown_provider n), r))"

text \<open>The arguments of \<open>add_provider\<close> and \<open>update_provider\<close>: whether the table of key states could be read, and the
  concrete client that is built, as its credential, or why it could not be built.\<close>

definition add_provider ::
  "bool \<Rightarrow> router_error + credential \<Rightarrow> string \<Rightarrow> provider_config \<Rightarrow> model_router \<Rightarrow> router_error option \<times> model_router" where
  "add_provider readable built n config r =
     (if n \<in> hm_keys (mr_providers r)
      then (Some (Config_Invalid ''provider'' (''Provider already exists: '' @ n)), r)
      else (let r1 = r\<lparr>mr_auth := register_from_config readable n (derived_auth_profile_config config) (mr_auth r)\<rparr>
            in case built of
                 Inl e \<Rightarrow> (Some e, r1)
               | Inr c \<Rightarrow>
                   (None, r1\<lparr>mr_providers := AList.update n c (mr_providers r1),
                             mr_health := AList.update n default_health (mr_health r1),
                             mr_configs := AList.update n config (mr_configs r1),
                             mr_catalog := discover (replace_static_source n (pv_models config) (mr_catalog r1))\<rparr>)))"

definition update_provider ::
  "bool \<Rightarrow> router_error + credential \<Rightarrow> string \<Rightarrow> provider_config \<Rightarrow> model_router \<Rightarrow> router_error option \<times> model_router" where
  "update_provider readable built n config r =
     (if n \<notin> hm_keys (mr_providers r) then (Some (unknown_provider n), r)
      else (let r1 = r\<lparr>mr_auth := register_from_config readable n (derived_auth_profile_config config) (mr_auth r)\<rparr>
            in case built of
                 Inl e \<Rightarrow> (Some e, r1)
               | Inr c \<Rightarrow>
                   (let old_models = (case map_of (mr_configs r1) n of Some p \<Rightarrow> pv_models p | None \<Rightarrow> []);
                        dropped = filter (\<lambda>m. m \<notin> set (pv_models config)) old_models;
                        r2 = r1\<lparr>mr_providers := AList.update n c (mr_providers r1),
                                mr_configs := AList.update n config (mr_configs r1),
                                mr_catalog := discover (replace_static_source n (pv_models config) (mr_catalog r1))\<rparr>;
                        owned = concat (map (\<lambda>(_, p). pv_models p) (mr_configs r2));
                        gone = filter (\<lambda>m. m \<notin> set owned) dropped
                    in (None, r2\<lparr>mr_chains := fold AList.delete gone (mr_chains r2),
                                 mr_config_chains := fold AList.delete gone (mr_config_chains r2)\<rparr>))))"

definition add_provider_instance :: "string \<Rightarrow> credential \<Rightarrow> model_router \<Rightarrow> model_router" where
  "add_provider_instance n c r =
     r\<lparr>mr_providers := AList.update n c (mr_providers r),
       mr_health := AList.update n default_health (mr_health r)\<rparr>"

definition remove_provider :: "string \<Rightarrow> model_router \<Rightarrow> router_error option \<times> model_router" where
  "remove_provider n r =
     (if n \<notin> hm_keys (mr_providers r) then (Some (unknown_provider n), r)
      else (None, r\<lparr>mr_providers := AList.delete n (mr_providers r), mr_health := AList.delete n (mr_health r),
                    mr_configs := AList.delete n (mr_configs r)\<rparr>))"

definition fallback_default_model :: "model_router \<Rightarrow> string" where
  "fallback_default_model r =
     (case sort_key fst (map (\<lambda>(n, p). (n, provider_default_model p))
             (filter (\<lambda>(_, p). pv_models p \<noteq> []) (mr_configs r))) of
        (_, m) # _ \<Rightarrow> m
      | [] \<Rightarrow> [])"

definition remove_model :: "string \<Rightarrow> model_router \<Rightarrow> router_error option \<times> model_router" where
  "remove_model model_id r =
     (case provider_for_model r model_id of
        None \<Rightarrow> (Some (unknown_model ''model'' model_id), r)
      | Some n \<Rightarrow>
          (let bare_id = snd (parse_model_ref model_id)
           in case map_of (mr_configs r) n of
                None \<Rightarrow> (Some (unknown_provider n), r)
              | Some p \<Rightarrow>
                  (let p' = p\<lparr>pv_models := filter (\<lambda>m. m \<noteq> bare_id) (pv_models p)\<rparr>;
                       r1 = r\<lparr>mr_configs := AList.update n p' (mr_configs r)\<rparr>;
                       (failed, r2) = (if pv_models p' = [] then remove_provider n r1 else (None, r1))
                   in case failed of
                        Some e \<Rightarrow> (Some e, r2)
                      | None \<Rightarrow>
                          (let r3 = r2\<lparr>mr_config_chains := AList.delete model_id (mr_config_chains r2)\<rparr>
                           in (None, if mr_default_model r3 = model_id
                                     then r3\<lparr>mr_default_model := fallback_default_model r3\<rparr> else r3)))))"

definition get_fallback_chain :: "string \<Rightarrow> model_router \<Rightarrow> string list" where
  "get_fallback_chain model_id r =
     (case map_of (mr_chains r) model_id of Some es \<Rightarrow> map fe_provider es | None \<Rightarrow> [])"

definition set_fallback_chain :: "string \<Rightarrow> string list \<Rightarrow> model_router \<Rightarrow> router_error option \<times> model_router" where
  "set_fallback_chain model_id provider_chain r =
     (if provider_for_model r model_id = None then (Some (unknown_model ''model'' model_id), r)
      else (None, r\<lparr>mr_chains := AList.update model_id (map (chain_entry model_id) provider_chain) (mr_chains r),
                    mr_config_chains := AList.update model_id provider_chain (mr_config_chains r)\<rparr>))"

definition init_fallback_chains_from_config :: "model_router \<Rightarrow> model_router" where
  "init_fallback_chains_from_config r =
     r\<lparr>mr_chains := fold (\<lambda>(m, ps). AList.update m (map (chain_entry m) ps)) (mr_config_chains r) (mr_chains r)\<rparr>"

definition init_catalog_and_chains :: "model_router \<Rightarrow> model_router" where
  "init_catalog_and_chains r =
     (let r1 = init_fallback_chains_from_config r
      in r1\<lparr>mr_catalog :=
             discover (fold (\<lambda>(n, p). replace_static_source n (pv_models p)) (mr_configs r1) (mr_catalog r1))\<rparr>)"

section \<open>Well-formed routers\<close>

text \<open>Maps have one value per key, every registered provider has a breaker and no breaker is left behind, and the
  entries of a chain carry the model it is for.\<close>

definition chains_ok :: "(string \<times> fallback_entry list) list \<Rightarrow> bool" where
  "chains_ok cs \<longleftrightarrow> hm_ok cs \<and> (\<forall>(m, es) \<in> set cs. \<forall>e \<in> set es. fe_model e = m)"

definition router_ok :: "model_router \<Rightarrow> bool" where
  "router_ok r \<longleftrightarrow>
     hm_ok (mr_configs r) \<and> hm_ok (mr_config_chains r) \<and> hm_ok (mr_providers r) \<and> hm_ok (mr_health r) \<and>
     hm_keys (mr_health r) = hm_keys (mr_providers r) \<and> chains_ok (mr_chains r)"

datatype admin_call =
    Switch_Default string | Enable string | Disable string
  | Add_Provider bool "router_error + credential" string provider_config
  | Update_Provider bool "router_error + credential" string provider_config
  | Add_Instance string credential | Remove_Provider string | Remove_Model string
  | Set_Chain string "string list" | Init_Catalog

fun run_admin :: "admin_call \<Rightarrow> model_router \<Rightarrow> model_router" where
  "run_admin (Switch_Default m) r = snd (switch_default_model m r)"
| "run_admin (Enable n) r = snd (enable_provider n r)"
| "run_admin (Disable n) r = snd (disable_provider n r)"
| "run_admin (Add_Provider readable built n config) r = snd (add_provider readable built n config r)"
| "run_admin (Update_Provider readable built n config) r = snd (update_provider readable built n config r)"
| "run_admin (Add_Instance n c) r = add_provider_instance n c r"
| "run_admin (Remove_Provider n) r = snd (remove_provider n r)"
| "run_admin (Remove_Model m) r = snd (remove_model m r)"
| "run_admin (Set_Chain m ps) r = snd (set_fallback_chain m ps r)"
| "run_admin Init_Catalog r = init_catalog_and_chains r"

lemma hm_keys_update: "hm_keys (AList.update k v m) = insert k (hm_keys m)"
  by (simp add: dom_update)

lemma hm_ok_map_entry [simp]: "hm_ok m \<Longrightarrow> hm_ok (AList.map_entry k f m)"
  by (rule distinct_map_entry)

lemma hm_ok_fold_delete [simp]: "hm_ok m \<Longrightarrow> hm_ok (fold AList.delete ks m)"
  by (induction ks arbitrary: m) auto

lemma chains_ok_update: "chains_ok cs \<Longrightarrow> chains_ok (AList.update m (map (chain_entry m) ps) cs)"
  using set_update_subset [of m "map (chain_entry m) ps" cs]
  by (fastforce simp: chains_ok_def chain_entry_def)

lemma chains_ok_delete: "chains_ok cs \<Longrightarrow> chains_ok (fold AList.delete ms cs)"
proof (induction ms arbitrary: cs)
  case (Cons m ms)
  have "chains_ok (AList.delete m cs)" using Cons.prems by (auto simp: chains_ok_def AList.delete_eq intro: distinct_map_filter)
  with Cons.IH show ?case by simp
qed simp

lemma chains_ok_init: "chains_ok cs \<Longrightarrow> chains_ok (fold (\<lambda>(m, ps). AList.update m (map (chain_entry m) ps)) ds cs)"
  by (induction ds arbitrary: cs) (auto simp: chains_ok_update)

lemmas router_maps = hm_keys_update hm_keys_delete dom_map_entry chains_ok_update chains_ok_delete

lemma router_ok_on_health: "router_ok r \<Longrightarrow> router_ok (on_health n f r)"
  by (simp add: router_ok_def on_health_def dom_map_entry)

lemma router_ok_remove_provider: "router_ok r \<Longrightarrow> router_ok (snd (remove_provider n r))"
  by (simp add: router_ok_def remove_provider_def hm_keys_delete)

lemma router_ok_remove_model: "router_ok r \<Longrightarrow> router_ok (snd (remove_model m r))"
proof -
  assume r: "router_ok r"
  then show ?thesis
    by (auto simp: remove_model_def Let_def split_beta router_ok_def remove_provider_def hm_keys_delete split: option.split)
qed

lemma router_ok_add_provider: "router_ok r \<Longrightarrow> router_ok (snd (add_provider readable built n config r))"
  by (auto simp: add_provider_def router_ok_def Let_def hm_keys_update split: sum.split)

lemma router_ok_update_provider: "router_ok r \<Longrightarrow> router_ok (snd (update_provider readable built n config r))"
  by (auto simp: update_provider_def router_ok_def Let_def hm_keys_update chains_ok_delete insert_absorb split: sum.split)

lemma router_ok_run_admin: "router_ok r \<Longrightarrow> router_ok (run_admin c r)"
proof (cases c)
  case (Switch_Default m)
  then show "router_ok r \<Longrightarrow> ?thesis" by (simp add: switch_default_model_def router_ok_def)
next
  case (Enable n)
  then show "router_ok r \<Longrightarrow> ?thesis" by (simp add: enable_provider_def router_ok_on_health)
next
  case (Disable n)
  then show "router_ok r \<Longrightarrow> ?thesis" by (simp add: disable_provider_def router_ok_on_health)
next
  case (Add_Instance n c)
  then show "router_ok r \<Longrightarrow> ?thesis" by (simp add: add_provider_instance_def router_ok_def hm_keys_update)
next
  case (Set_Chain m ps)
  then show "router_ok r \<Longrightarrow> ?thesis" by (simp add: set_fallback_chain_def router_ok_def chains_ok_update)
next
  case Init_Catalog
  then show "router_ok r \<Longrightarrow> ?thesis"
    by (simp add: init_catalog_and_chains_def init_fallback_chains_from_config_def router_ok_def chains_ok_init Let_def)
qed (simp_all add: router_ok_add_provider router_ok_update_provider router_ok_remove_provider router_ok_remove_model)


definition deepseek_config :: provider_config where
  "deepseek_config =
     \<lparr>pv_models = [''deepseek''], pv_default_model = ''deepseek'', pv_api_key = Inline ''k1'', pv_api_keys = [''k1'', ''k2''],
      pv_auth_profile = None\<rparr>"


section \<open>References to the cloud proxy\<close>

lemma find_fst_Some: "find P xs = Some x \<Longrightarrow> x \<in> set xs \<and> P x"
  by (induction xs) (auto split: if_splits)

text \<open>A configured model resolves to a provider that lists it. The proxy is chosen only when the reference is
  qualified and the proxy lists the model, or when no other provider does.\<close>

theorem model_resolves_to_provider_listing_it:
  assumes "hm_ok (mr_configs r)" and "config_provider_for_model r model_id = Some n"
  shows "(\<exists>p. map_of (mr_configs r) n = Some p \<and>
            (supports_model p model_id \<or> n = ''cloud'' \<and> supports_model p (snd (parse_model_ref model_id)))) \<and>
         (n = ''cloud'' \<longrightarrow>
            fst (parse_model_ref model_id) = Some ''cloud'' \<and> cloud_serves r (snd (parse_model_ref model_id)) \<or>
            (\<forall>(q, p) \<in> set (mr_configs r). q \<noteq> ''cloud'' \<longrightarrow> \<not> supports_model p model_id))"
proof (cases "case parse_model_ref model_id of (Some _, bare) \<Rightarrow> cloud_serves r bare | (None, _) \<Rightarrow> False")
  case True
  then obtain h bare where p: "parse_model_ref model_id = (Some h, bare)" "cloud_serves r bare"
    by (cases "parse_model_ref model_id"; cases "fst (parse_model_ref model_id)") auto
  then have "h = ''cloud''" by (auto simp: parse_model_ref_def split: option.splits if_splits)
  moreover have "n = ''cloud''" using assms(2) True by (simp add: config_provider_for_model_def)
  ultimately show ?thesis using p by (auto simp: cloud_serves_def split: option.splits)
next
  case False
  let ?direct = "find (\<lambda>(n, p). n \<noteq> ''cloud'' \<and> supports_model p model_id) (mr_configs r)"
  show ?thesis
  proof (cases ?direct)
    case (Some np)
    with assms(2) False have "np \<in> set (mr_configs r)" "n = fst np" "n \<noteq> ''cloud''" "supports_model (snd np) model_id"
      using find_fst_Some [OF Some] by (auto simp: config_provider_for_model_def)
    then show ?thesis using assms(1) by (cases np) (auto simp: map_of_is_SomeI)
  next
    case None
    with assms(2) False obtain p where "find (\<lambda>(n, p). n = ''cloud'' \<and> supports_model p model_id) (mr_configs r) = Some (n, p)"
      by (auto simp: config_provider_for_model_def)
    from find_fst_Some [OF this] have "(n, p) \<in> set (mr_configs r)" "n = ''cloud''" "supports_model p model_id" by auto
    moreover have "\<forall>(q, p) \<in> set (mr_configs r). q \<noteq> ''cloud'' \<longrightarrow> \<not> supports_model p model_id"
      using None by (fastforce simp: find_None_iff)
    ultimately show ?thesis using assms(1) by (auto simp: map_of_is_SomeI)
  qed
qed

definition local_and_cloud :: model_router where
  "local_and_cloud =
     fold run_admin [Add_Provider True (Inr (ApiKey ''k1'')) ''openai'' deepseek_config,
                     Add_Provider True (Inr (ApiKey ''s'')) ''cloud'' deepseek_config] (new_router ''deepseek'' [] [])"

theorem model_resolves_to_provider_listing_it_witness:
  "(\<exists>p. map_of (mr_configs local_and_cloud) ''cloud'' = Some p \<and>
     (supports_model p ''cloud/deepseek'' \<or> supports_model p (snd (parse_model_ref ''cloud/deepseek''))))"
proof -
  have "hm_ok (mr_configs local_and_cloud)" "config_provider_for_model local_and_cloud ''cloud/deepseek'' = Some ''cloud''"
    by code_simp+
  from model_resolves_to_provider_listing_it [OF this] show ?thesis by blast
qed

section \<open>Where the code departs from its documentation\<close>

text \<open>Removing a provider leaves its models in the catalog, and a model that only the catalog knows still resolves to
  it: the listing hides the model and the router accepts it.\<close>

lemma removed_provider_still_serves:
  "let r = run_admin (Remove_Provider ''openai'')
             (run_admin (Add_Provider True (Inr (ApiKey ''k1'')) ''openai'' deepseek_config) (new_router [] [] []))
   in provider_for_model r ''deepseek'' = Some ''openai'' \<and> models_with_providers r = [] \<and> mr_providers r = []"
  by code_simp

text \<open>Removing a model drops the chain of the configuration only: the chain in use stays.\<close>

lemma removed_model_keeps_chain:
  "get_fallback_chain ''deepseek''
     (fold run_admin [Add_Provider True (Inr (ApiKey ''k1'')) ''openai'' deepseek_config,
        Set_Chain ''deepseek'' [''openai'', ''backup''], Remove_Model ''deepseek''] (new_router [] [] [])) = [''openai'', ''backup'']"
  by code_simp

text \<open>With two direct providers for a model the answer follows the order of the hash map.\<close>

lemma direct_provider_follows_map_order:
  "config_provider_for_model (new_router [] [(''a'', deepseek_config), (''b'', deepseek_config)] []) ''deepseek'' = Some ''a''"
  "config_provider_for_model (new_router [] [(''b'', deepseek_config), (''a'', deepseek_config)] []) ''deepseek'' = Some ''b''"
  by code_simp+

text \<open>A model that the provider said it does not know is suppressed, and still resolves to that provider when the
  configuration lists it.\<close>

lemma suppressed_model_still_resolves:
  "provider_for_model (local_and_cloud\<lparr>mr_catalog := suppress ''openai'' ''deepseek'' (mr_catalog local_and_cloud)\<rparr>) ''deepseek''
     = Some ''openai''"
  by code_simp

end
