(* ===== verification/Model_Router.thy ===== *)
theory Model_Router
  imports Router_Config "HOL-Library.Sublist"
begin

text \<open>
  Routing of completions and streams through the model router (\<open>src/model_router/router/routing.rs\<close>,
  \<open>router/failure.rs\<close>, \<open>router/health.rs\<close>, \<open>complete_with_provider\<close> and \<open>check_provider_health\<close> of
  \<open>router/admin.rs\<close>): the candidates of a request, the circuit breaker, key rotation with one retry, and the record of
  the route. What the providers answer, the clock and the secret store are the environment, indexed by the number of
  requests sent so far. One call of the router runs at a time; the tools, sampling parameters and usage accounting of a
  request do not influence its route and are left out. The build with the cloud relay is modelled. An arrow in a
  printed reason is written as \<open>->\<close>, a long dash in a message as \<open>-\<close>.
\<close>

record request =
  rq_model :: "string option"
  rq_messages :: "string list"
  rq_stream :: bool
  rq_fallback_models :: "string list"

record 'r router_env =
  re_call :: "nat \<Rightarrow> string \<Rightarrow> credential \<Rightarrow> request \<Rightarrow> router_error + 'r"
  re_set_credential :: "nat \<Rightarrow> string \<Rightarrow> credential \<Rightarrow> router_error option"
  re_now :: "nat \<Rightarrow> int"
  re_latency_ms :: "nat \<Rightarrow> u64"
  re_save_fails :: "nat \<Rightarrow> nat option"
  re_probe :: "nat \<Rightarrow> string \<Rightarrow> router_error + bool"

record route_record =
  rr_candidate_chain :: "string list"
  rr_chosen :: string
  rr_reason :: "string option"
  rr_fallback_occurred :: bool

section \<open>Health and keys\<close>

abbreviation sent :: "model_router \<Rightarrow> nat" where
  "sent r \<equiv> length (mr_calls r)"

definition is_circuit_open :: "string \<Rightarrow> model_router \<Rightarrow> bool" where
  "is_circuit_open n r = (case map_of (mr_health r) n of Some h \<Rightarrow> ph_state h = Open | None \<Rightarrow> False)"

definition record_provider_success :: "'r router_env \<Rightarrow> string \<Rightarrow> model_router \<Rightarrow> model_router" where
  "record_provider_success env n r = on_health n (health_success (re_latency_ms env (sent r))) r"

definition record_provider_failure :: "'r router_env \<Rightarrow> string \<Rightarrow> failure_class option \<Rightarrow> model_router \<Rightarrow> model_router" where
  "record_provider_failure env n cls r = on_health n (health_failure (mr_threshold r) (re_now env (sent r)) cls) r"

definition record_probe_failure :: "'r router_env \<Rightarrow> string \<Rightarrow> model_router \<Rightarrow> model_router" where
  "record_probe_failure env n r = on_health n (health_probe_failure (mr_threshold r) (re_now env (sent r))) r"

definition keys_success :: "'r router_env \<Rightarrow> string \<Rightarrow> model_router \<Rightarrow> model_router" where
  "keys_success env n r =
     r\<lparr>mr_auth := manager_record_success (re_save_fails env (sent r)) (re_now env (sent r)) n (mr_auth r)\<rparr>"

definition cooldown_for_failure :: "string \<Rightarrow> failure_class \<Rightarrow> model_router \<Rightarrow> nat" where
  "cooldown_for_failure n cls r =
     max (default_backoff_secs cls)
       (case map_of (mr_configs r) n of
          Some p \<Rightarrow> pf_cooldown_secs (derived_auth_profile_config p)
        | None \<Rightarrow> 60)"

definition no_keys_error :: "string \<Rightarrow> router_error" where
  "no_keys_error n = External_Service (''No available API keys for provider '' @ quoted n @ '' after rotation'')"

definition rotate_provider_credential ::
  "'r router_env \<Rightarrow> string \<Rightarrow> nat \<Rightarrow> model_router \<Rightarrow> (router_error + string) \<times> model_router" where
  "rotate_provider_credential env n cooldown_secs r =
     (if n \<notin> hm_keys (mr_providers r) then (Inl (unknown_provider n), r)
      else case manager_rotate (re_save_fails env (sent r)) (re_now env (sent r)) n cooldown_secs (mr_auth r) of
             (Some next_key, m) \<Rightarrow>
               (case re_set_credential env (sent r) n (ApiKey next_key) of
                  Some e \<Rightarrow> (Inl e, r\<lparr>mr_auth := m\<rparr>)
                | None \<Rightarrow>
                    (Inr next_key,
                     r\<lparr>mr_auth := m, mr_providers := AList.update n (ApiKey next_key) (mr_providers r)\<rparr>))
           | (None, m) \<Rightarrow> (Inl (no_keys_error n), r\<lparr>mr_auth := m\<rparr>))"

definition rotate_auth_key :: "'r router_env \<Rightarrow> string \<Rightarrow> model_router \<Rightarrow> (router_error + string) \<times> model_router" where
  "rotate_auth_key env n r = rotate_provider_credential env n 60 r"

section \<open>One candidate\<close>

text \<open>A request goes to a registered provider under its credential, and is logged.\<close>

definition send :: "'r router_env \<Rightarrow> string \<Rightarrow> credential \<Rightarrow> request \<Rightarrow> model_router \<Rightarrow> (router_error + 'r) \<times> model_router" where
  "send env n c request r =
     (re_call env (sent r) n c request, r\<lparr>mr_calls := mr_calls r @ [(n, c, rq_model request)]\<rparr>)"

definition retry_once :: "'r router_env \<Rightarrow> string \<Rightarrow> request \<Rightarrow> model_router \<Rightarrow> (router_error + 'r) \<times> model_router" where
  "retry_once env n request r =
     (case map_of (mr_providers r) n of
        Some c \<Rightarrow> send env n c request r
      | None \<Rightarrow> (Inl (unknown_provider n), r))"

definition handle_provider_failure ::
  "'r router_env \<Rightarrow> string \<Rightarrow> string \<Rightarrow> failure_class \<Rightarrow> router_error \<Rightarrow> request \<Rightarrow> model_router
     \<Rightarrow> (router_error + 'r) \<times> model_router" where
  "handle_provider_failure env n model cls error request r0 =
     (let r = (if cls = ModelNotFound then r0\<lparr>mr_catalog := suppress n model (mr_catalog r0)\<rparr> else r0)
      in if should_disable_key cls then
           (let r1 = snd (rotate_provider_credential env n (cooldown_for_failure n cls r) r)
            in (Inl (External_Service (''Provider '' @ n @ '' auth disabled: '' @ display_error error)),
                record_provider_failure env n (Some cls) r1))
         else if cls = CloudAuthExpired then
           (Inl (External_Service (''cloud login expired - re-login required (provider '' @ n @ '': '' @ display_error error @ '')'')),
            record_provider_failure env n (Some cls) r)
         else if should_rotate_key cls then
           (case rotate_provider_credential env n (cooldown_for_failure n cls r) r of
              (Inr _, r1) \<Rightarrow>
                (case retry_once env n request r1 of
                   (Inr response, r2) \<Rightarrow> (Inr response, r2)
                 | (Inl e2, r2) \<Rightarrow> (Inl e2, record_provider_failure env n (Some (from_error e2 None)) r2))
            | (Inl rotate_err, r1) \<Rightarrow> (Inl rotate_err, record_provider_failure env n (Some cls) r1))
         else
           (Inl (External_Service (''Provider '' @ n @ '' failed: '' @ display_error error)),
            record_provider_failure env n (Some cls) r))"

text \<open>The class of an error of a provider: the cloud proxy's key is the login itself.\<close>

definition route_class :: "string \<Rightarrow> router_error \<Rightarrow> failure_class" where
  "route_class n e =
     (let cls = from_error e None in if n = ''cloud'' \<and> cls = AuthTemporary then CloudAuthExpired else cls)"

definition try_candidate ::
  "'r router_env \<Rightarrow> fallback_entry \<Rightarrow> credential \<Rightarrow> request \<Rightarrow> model_router \<Rightarrow> (router_error + 'r) \<times> model_router" where
  "try_candidate env entry c request r =
     (case send env (fe_provider entry) c request r of
        (Inr response, r1) \<Rightarrow>
          (Inr response, keys_success env (fe_provider entry) (record_provider_success env (fe_provider entry) r1))
      | (Inl e, r1) \<Rightarrow>
          (case handle_provider_failure env (fe_provider entry) (fe_model entry)
                  (route_class (fe_provider entry) e) e request r1 of
             (Inr response, r2) \<Rightarrow>
               (Inr response, keys_success env (fe_provider entry) (record_provider_success env (fe_provider entry) r2))
           | (Inl err, r2) \<Rightarrow> (Inl err, r2)))"

section \<open>The route\<close>

definition route_entry_label :: "fallback_entry \<Rightarrow> string" where
  "route_entry_label entry = fe_provider entry @ ''/'' @ fe_model entry"

definition route_reason :: "nat \<Rightarrow> nat \<Rightarrow> string" where
  "route_reason failed skipped =
     (if failed = 0 \<and> skipped = 0 then ''primary''
      else ''fallback after '' @ show_nat failed @ '' failed / '' @ show_nat skipped @ '' skipped candidate(s)'')"

record route_state =
  ro_last_error :: "router_error option"
  ro_candidate_chain :: "string list"
  ro_failed :: nat
  ro_skipped :: nat
  ro_router :: model_router

definition route_visit ::
  "'r router_env \<Rightarrow> request \<Rightarrow> fallback_entry \<Rightarrow> route_state
     \<Rightarrow> (router_error + 'r \<times> route_record) option \<times> route_state" where
  "route_visit env request entry s =
     (let label = route_entry_label entry;
          r = ro_router s
      in if \<not> fe_enabled entry \<or> is_circuit_open (fe_provider entry) r
         then (None, s\<lparr>ro_skipped := Suc (ro_skipped s), ro_candidate_chain := ro_candidate_chain s @ [label]\<rparr>)
         else case map_of (mr_providers r) (fe_provider entry) of
           None \<Rightarrow> (None, s)
         | Some c \<Rightarrow>
             (let s1 = s\<lparr>ro_candidate_chain := ro_candidate_chain s @ [label]\<rparr>
              in case try_candidate env entry c request r of
                   (Inr response, r') \<Rightarrow>
                     (Some (Inr (response,
                        \<lparr>rr_candidate_chain = ro_candidate_chain s1, rr_chosen = label,
                         rr_reason = Some (route_reason (ro_failed s1) (ro_skipped s1)),
                         rr_fallback_occurred = (0 < ro_failed s1 \<or> 0 < ro_skipped s1)\<rparr>)),
                      s1\<lparr>ro_router := r'\<rparr>)
                 | (Inl err, r') \<Rightarrow>
                     (None, s1\<lparr>ro_last_error := Some err, ro_failed := Suc (ro_failed s1), ro_router := r'\<rparr>)))"

definition route_exhausted :: "route_state \<Rightarrow> router_error + 'r \<times> route_record" where
  "route_exhausted s =
     Inl (case ro_last_error s of Some e \<Rightarrow> e | None \<Rightarrow> External_Service ''All providers failed'')"

fun route_loop ::
  "'r router_env \<Rightarrow> request \<Rightarrow> fallback_entry list \<Rightarrow> route_state \<Rightarrow> (router_error + 'r \<times> route_record) \<times> route_state" where
  "route_loop env request [] s = (route_exhausted s, s)"
| "route_loop env request (entry # rest) s =
     (case route_visit env request entry s of
        (Some answer, s') \<Rightarrow> (answer, s')
      | (None, s') \<Rightarrow> route_loop env request rest s')"

definition start_route :: "model_router \<Rightarrow> route_state" where
  "start_route r =
     \<lparr>ro_last_error = None, ro_candidate_chain = [], ro_failed = 0, ro_skipped = 0, ro_router = r\<rparr>"

definition route_with_fallback ::
  "'r router_env \<Rightarrow> request \<Rightarrow> fallback_entry list \<Rightarrow> model_router \<Rightarrow> (router_error + 'r \<times> route_record) \<times> model_router" where
  "route_with_fallback env request providers_to_try r =
     (let (answer, s) = route_loop env request providers_to_try (start_route r) in (answer, ro_router s))"

section \<open>Requests\<close>

definition build_request ::
  "string \<Rightarrow> string list \<Rightarrow> bool \<Rightarrow> model_router \<Rightarrow> router_error + string \<times> string \<times> request" where
  "build_request model_id messages streaming r =
     (let resolved =
        (case provider_for_model r model_id of
           Some provider \<Rightarrow>
             Inr (provider,
               case parse_model_ref model_id of
                 (Some _, rest) \<Rightarrow> if provider = ''cloud'' \<and> cloud_serves r rest then rest else model_id
               | (None, _) \<Rightarrow> model_id)
         | None \<Rightarrow>
             (case provider_for_model r (mr_default_model r) of
                Some provider \<Rightarrow> Inr (provider, mr_default_model r)
              | None \<Rightarrow> Inl (unknown_model ''model'' model_id)))
      in case resolved of
           Inl e \<Rightarrow> Inl e
         | Inr (provider, resolved_model) \<Rightarrow>
             Inr (provider, resolved_model,
               \<lparr>rq_model = Some resolved_model, rq_messages = messages, rq_stream = streaming, rq_fallback_models = []\<rparr>))"

definition get_provider_chain :: "string \<Rightarrow> string \<Rightarrow> model_router \<Rightarrow> fallback_entry list" where
  "get_provider_chain provider model_id r =
     (case map_of (mr_chains r) model_id of Some chain \<Rightarrow> chain | None \<Rightarrow> [chain_entry model_id provider])"

definition same_candidate :: "fallback_entry \<Rightarrow> fallback_entry \<Rightarrow> bool" where
  "same_candidate a b \<longleftrightarrow> fe_provider a = fe_provider b \<and> fe_model a = fe_model b"

definition get_providers_to_try :: "string \<Rightarrow> string \<Rightarrow> request \<Rightarrow> model_router \<Rightarrow> fallback_entry list" where
  "get_providers_to_try provider model_id request r =
     fold (\<lambda>fallback es.
             case provider_for_model r fallback of
               None \<Rightarrow> es
             | Some fb \<Rightarrow>
                 fold (\<lambda>entry es. if list_ex (\<lambda>e. same_candidate e entry) es then es else es @ [entry])
                   (get_provider_chain fb fallback r) es)
       (rq_fallback_models request) (get_provider_chain provider model_id r)"

definition merge_reason :: "route_record \<Rightarrow> string \<Rightarrow> route_record" where
  "merge_reason rec addition =
     rec\<lparr>rr_reason := Some (case rr_reason rec of Some reason \<Rightarrow> reason @ ''; '' @ addition | None \<Rightarrow> addition)\<rparr>"

definition complete_with_route ::
  "'r router_env \<Rightarrow> string \<Rightarrow> string list \<Rightarrow> bool \<Rightarrow> model_router \<Rightarrow> (router_error + 'r \<times> route_record) \<times> model_router" where
  "complete_with_route env requested messages streaming r =
     (case build_request requested messages streaming r of
        Inl e \<Rightarrow> (Inl e, r)
      | Inr (provider, model_id, request) \<Rightarrow>
          (case route_with_fallback env request (get_providers_to_try provider model_id request r) r of
             (Inl e, r') \<Rightarrow> (Inl e, r')
           | (Inr (response, rec), r') \<Rightarrow>
               (Inr (response,
                  if model_id \<noteq> requested
                  then merge_reason rec (''model re-resolved '' @ quoted requested @ '' -> '' @ quoted model_id) else rec),
                r')))"

text \<open>A stream is the list of its chunks. The router waits for the first one: an error there is a failed open, and
  otherwise the chunk goes back to the front.\<close>

record stream_chunk =
  ck_content :: "string option"
  ck_error :: "string option"
  ck_is_done :: bool

definition open_stream :: "router_error + stream_chunk list \<Rightarrow> router_error + stream_chunk list" where
  "open_stream opened =
     (case opened of
        Inl e \<Rightarrow> Inl e
      | Inr chunks \<Rightarrow>
          (case chunks of
             first # later \<Rightarrow>
               (case ck_error first of
                  Some source \<Rightarrow> Inl (External_Service source)
                | None \<Rightarrow> Inr ([first] @ later))
           | [] \<Rightarrow> Inr []))"

definition stream_with_route ::
  "stream_chunk list router_env \<Rightarrow> string \<Rightarrow> string list \<Rightarrow> model_router
     \<Rightarrow> (router_error + stream_chunk list \<times> route_record) \<times> model_router" where
  "stream_with_route env requested messages r =
     complete_with_route (env\<lparr>re_call := \<lambda>i n c q. open_stream (re_call env i n c q)\<rparr>) requested messages True r"

definition complete_with_provider ::
  "'r router_env \<Rightarrow> string \<Rightarrow> string option \<Rightarrow> string list \<Rightarrow> model_router \<Rightarrow> (router_error + 'r) \<times> model_router" where
  "complete_with_provider env n model messages r =
     (case map_of (mr_providers r) n of
        None \<Rightarrow> (Inl (unknown_provider n), r)
      | Some c \<Rightarrow>
          if is_circuit_open n r then (Inl (External_Service (''Provider '' @ n @ '' circuit is open'')), r)
          else (let request = \<lparr>rq_model = model, rq_messages = messages, rq_stream = False, rq_fallback_models = []\<rparr>;
                    usage_model = (case model of Some m \<Rightarrow> m | None \<Rightarrow> ''unknown'')
                in case send env n c request r of
                     (Inr response, r1) \<Rightarrow> (Inr response, keys_success env n (record_provider_success env n r1))
                   | (Inl e, r1) \<Rightarrow>
                       (case handle_provider_failure env n usage_model (from_error e None) e request r1 of
                          (Inr response, r2) \<Rightarrow> (Inr response, keys_success env n (record_provider_success env n r2))
                        | (Inl err, r2) \<Rightarrow> (Inl err, r2))))"

section \<open>Health checks\<close>

definition check_one_health :: "'r router_env \<Rightarrow> string \<Rightarrow> model_router \<Rightarrow> model_router" where
  "check_one_health env n r =
     (let r1 = on_health n (health_check_due (mr_reset_secs r) (re_now env (sent r))) r
      in if n \<notin> hm_keys (mr_providers r1) then r1
         else case re_probe env (sent r1) n of
                Inr True \<Rightarrow> record_provider_success env n r1
              | _ \<Rightarrow> record_probe_failure env n r1)"

definition run_health_checks :: "'r router_env \<Rightarrow> model_router \<Rightarrow> model_router" where
  "run_health_checks env r = fold (check_one_health env) (map fst (mr_providers r)) r"

definition check_provider_health :: "'r router_env \<Rightarrow> string \<Rightarrow> model_router \<Rightarrow> (router_error + bool) \<times> model_router" where
  "check_provider_health env n r =
     (if n \<notin> hm_keys (mr_providers r) then (Inl (unknown_provider n), r)
      else case re_probe env (sent r) n of
             Inr True \<Rightarrow> (Inr True, record_provider_success env n r)
           | _ \<Rightarrow> (Inr False, record_provider_failure env n None r))"

interpretation route: answer_loop "route_loop env request" "route_visit env request" route_exhausted
  by unfold_locales simp_all

section \<open>What a candidate touches\<close>

text \<open>A step for one provider: the breakers of the others, the chains and the configuration stay, the same providers
  are registered, and up to \<open>k\<close> requests for the model are sent to it.\<close>

definition touches :: "string \<Rightarrow> string option \<Rightarrow> nat \<Rightarrow> model_router \<Rightarrow> model_router \<Rightarrow> bool" where
  "touches n model k r r' \<longleftrightarrow>
     (\<forall>p. p \<noteq> n \<longrightarrow> map_of (mr_health r') p = map_of (mr_health r) p) \<and>
     hm_keys (mr_providers r') = hm_keys (mr_providers r) \<and>
     (\<exists>cs. mr_calls r' = mr_calls r @ cs \<and> length cs \<le> k \<and> (\<forall>(p, _, m) \<in> set cs. p = n \<and> m = model))"

lemma touches_refl: "touches n model k r r"
  by (simp add: touches_def)

lemma touches_trans:
  assumes "touches n model i r r1" "touches n model j r1 r2"
  shows "touches n model (i + j) r r2"
proof -
  obtain cs ds where cs: "mr_calls r1 = mr_calls r @ cs" "length cs \<le> i" "\<forall>(p, _, m) \<in> set cs. p = n \<and> m = model"
    and ds: "mr_calls r2 = mr_calls r1 @ ds" "length ds \<le> j" "\<forall>(p, _, m) \<in> set ds. p = n \<and> m = model"
    using assms unfolding touches_def by metis
  then have "mr_calls r2 = mr_calls r @ (cs @ ds) \<and> length (cs @ ds) \<le> i + j \<and>
      (\<forall>(p, _, m) \<in> set (cs @ ds). p = n \<and> m = model)" by auto
  then show ?thesis using assms unfolding touches_def by metis
qed

lemma touches_more: "touches n model i r r' \<Longrightarrow> i \<le> j \<Longrightarrow> touches n model j r r'"
  unfolding touches_def by (meson order_trans)

lemma touches_on_health: "touches n model 0 r (on_health n f r)"
  by (simp add: touches_def on_health_def map_of_map_entry)

lemma touches_keys: "touches n model 0 r (keys_success env n r)"
  by (simp add: touches_def keys_success_def)

lemma touches_rotate: "touches n model 0 r (snd (rotate_provider_credential env n cd r))"
  by (auto simp: touches_def rotate_provider_credential_def dom_update insert_absorb split: prod.split option.split)

lemma touches_send: "touches n (rq_model q) 1 r (snd (send env n c q r))"
  by (simp add: touches_def send_def)

lemma touches_retry: "touches n (rq_model q) 1 r (snd (retry_once env n q r))"
  using touches_send [of n q r env] by (auto simp: retry_once_def touches_refl split: option.split)

lemma touches_suppress: "touches n model 0 r (r\<lparr>mr_catalog := c\<rparr>)"
  by (simp add: touches_def)

lemmas touches_steps = touches_on_health touches_keys touches_rotate touches_retry touches_send touches_suppress

lemma touches_failure:
  "touches n model k r r' \<Longrightarrow> touches n model k r (record_provider_failure env n cls r')"
  using touches_trans [OF _ touches_on_health, of n model k r r'] by (simp add: record_provider_failure_def)

lemma touches_success:
  "touches n model k r r' \<Longrightarrow> touches n model k r (keys_success env n (record_provider_success env n r'))"
  using touches_trans [OF touches_trans [OF _ touches_on_health] touches_keys, of n model k r r']
  by (simp add: record_provider_success_def)

lemma touches_handle:
  "touches n (rq_model q) 1 r (snd (handle_provider_failure env n model cls e q r))"
proof -
  let ?r = "if cls = ModelNotFound then r\<lparr>mr_catalog := suppress n model (mr_catalog r)\<rparr> else r"
  let ?cd = "cooldown_for_failure n cls ?r"
  have s: "touches n (rq_model q) 0 r ?r" by (simp add: touches_suppress touches_refl)
  obtain x r1 where rot: "rotate_provider_credential env n ?cd ?r = (x, r1)" by (cases "rotate_provider_credential env n ?cd ?r")
  then have t: "touches n (rq_model q) 0 r r1"
    using touches_trans [OF s, of 0 r1] touches_rotate [of n "rq_model q" ?r env ?cd] by simp
  obtain y r2 where ret: "retry_once env n q r1 = (y, r2)" by (cases "retry_once env n q r1")
  then have u: "touches n (rq_model q) 1 r r2"
    using touches_trans [OF t, of 1 r2] touches_retry [of n q r1 env] by simp
  have t1: "touches n (rq_model q) 1 r r1" "touches n (rq_model q) 1 r ?r" using t s touches_more by fastforce+
  show ?thesis
    unfolding handle_provider_failure_def Let_def using rot ret t1 u
    by (auto intro!: touches_failure split: sum.split)
qed

lemma touches_try: "touches (fe_provider e) (rq_model q) 2 r (snd (try_candidate env e c q r))"
proof -
  let ?n = "fe_provider e"
  obtain x r1 where s: "send env ?n c q r = (x, r1)" by (cases "send env ?n c q r")
  have 1: "touches ?n (rq_model q) 1 r r1" using touches_send [of ?n q r env c] s by simp
  show ?thesis
  proof (cases x)
    case (Inr resp)
    then show ?thesis using s touches_success [OF touches_more [OF 1, of 2]] by (simp add: try_candidate_def)
  next
    case (Inl err)
    obtain y r2 where h: "handle_provider_failure env ?n (fe_model e) (route_class ?n err) err q r1 = (y, r2)"
      by (cases "handle_provider_failure env ?n (fe_model e) (route_class ?n err) err q r1")
    have 2: "touches ?n (rq_model q) 2 r r2"
      using touches_trans [OF 1, of 1 r2] touches_handle [of ?n q r1 env "fe_model e" "route_class ?n err" err] h
      by (simp add: numeral_2_eq_2)
    with s Inl h show ?thesis by (cases y) (simp_all add: try_candidate_def touches_success)
  qed
qed

lemma route_visit_router:
  "ro_router (snd (route_visit env q e s)) = ro_router s \<or>
   \<not> is_circuit_open (fe_provider e) (ro_router s) \<and>
     touches (fe_provider e) (rq_model q) 2 (ro_router s) (ro_router (snd (route_visit env q e s)))"
proof (cases "map_of (mr_providers (ro_router s)) (fe_provider e)")
  case (Some c)
  obtain x r' where t: "try_candidate env e c q (ro_router s) = (x, r')" by (cases "try_candidate env e c q (ro_router s)")
  with touches_try [of e q "ro_router s" env c] Some show ?thesis
    by (cases x) (simp_all add: route_visit_def Let_def)
qed (simp add: route_visit_def Let_def)

section \<open>Open circuits\<close>

definition spared :: "string \<Rightarrow> model_router \<Rightarrow> model_router \<Rightarrow> bool" where
  "spared p r r' \<longleftrightarrow> is_circuit_open p r' \<and> (\<exists>cs. mr_calls r' = mr_calls r @ cs \<and> p \<notin> fst ` set cs)"

lemma spared_visit:
  assumes "spared p r (ro_router s)"
  shows "spared p r (ro_router (snd (route_visit env q e s)))"
  using route_visit_router [of env q e s]
proof
  assume a: "\<not> is_circuit_open (fe_provider e) (ro_router s) \<and>
      touches (fe_provider e) (rq_model q) 2 (ro_router s) (ro_router (snd (route_visit env q e s)))"
  then have p: "p \<noteq> fe_provider e" using assms by (auto simp: spared_def)
  obtain cs where cs: "mr_calls (ro_router s) = mr_calls r @ cs" "p \<notin> fst ` set cs" using assms by (auto simp: spared_def)
  obtain ds where ds: "mr_calls (ro_router (snd (route_visit env q e s))) = mr_calls (ro_router s) @ ds"
      "\<forall>(x, _, m) \<in> set ds. x = fe_provider e \<and> m = rq_model q" using a unfolding touches_def by blast
  have "p \<notin> fst ` set (cs @ ds)" using cs(2) ds(2) p by auto
  moreover have "is_circuit_open p (ro_router (snd (route_visit env q e s)))"
    using a p assms by (simp add: touches_def spared_def is_circuit_open_def)
  ultimately show ?thesis using cs(1) ds(1) unfolding spared_def by (metis append.assoc)
qed (use assms in simp)

lemma route_router: "snd (route_with_fallback env q es r) = ro_router (snd (route_loop env q es (start_route r)))"
  by (simp add: route_with_fallback_def split_beta)

lemma complete_router:
  "snd (complete_with_route env m msgs st r) = r \<or>
   (\<exists>n mid q. build_request m msgs st r = Inr (n, mid, q) \<and>
      snd (complete_with_route env m msgs st r) = snd (route_with_fallback env q (get_providers_to_try n mid q r) r))"
  by (auto simp: complete_with_route_def split: sum.split prod.split)

text \<open>C7. A provider whose circuit is open when a completion starts gets no request during it, whatever the candidates
  and whatever the other providers answer, and its circuit is open afterwards.\<close>

theorem open_circuits_get_no_requests:
  assumes "is_circuit_open p r"
  shows "\<exists>cs. mr_calls (snd (complete_with_route env model_id messages streaming r)) = mr_calls r @ cs \<and>
              p \<notin> fst ` set cs \<and> is_circuit_open p (snd (complete_with_route env model_id messages streaming r))"
proof -
  have "spared p r r" using assms by (simp add: spared_def)
  then have "spared p r (snd (route_with_fallback env q es r))" for q es
    unfolding route_router by (rule_tac route.loop_invariant) (auto intro: spared_visit simp: start_route_def)
  with \<open>spared p r r\<close> have "spared p r (snd (complete_with_route env model_id messages streaming r))"
    using complete_router [of env model_id messages streaming r] by metis
  then show ?thesis by (auto simp: spared_def)
qed

section \<open>The number of requests\<close>

lemma visit_cost: "sent (ro_router (snd (route_visit env q e s))) \<le> sent (ro_router s) + 2"
  using route_visit_router [of env q e s] by (auto simp: touches_def)

text \<open>A completion sends at most two requests per candidate: one, and one more after a key rotation.\<close>

theorem requests_per_candidate_bounded:
  "sent (snd (route_with_fallback env request es r)) \<le> sent r + 2 * length es"
proof -
  have "sent (ro_router (snd (route_loop env request es (start_route r)))) \<le> sent (ro_router (start_route r)) + 2 * length es"
    by (rule route.loop_cost) (rule visit_cost)
  then show ?thesis by (simp add: route_router start_route_def)
qed

section \<open>The record of a route\<close>

text \<open>A response that a candidate gives came with the last request sent.\<close>

definition answered_last :: "'r router_env \<Rightarrow> string \<Rightarrow> request \<Rightarrow> 'r \<Rightarrow> model_router \<Rightarrow> bool" where
  "answered_last env n q resp r \<longleftrightarrow>
     (\<exists>cs c. mr_calls r = cs @ [(n, c, rq_model q)] \<and> re_call env (length cs) n c q = Inr resp)"

lemma answered_send: "send env n c q r = (Inr resp, r') \<Longrightarrow> answered_last env n q resp r'"
  by (auto simp: send_def answered_last_def)

lemma answered_handle:
  "handle_provider_failure env n model cls e q r = (Inr resp, r') \<Longrightarrow> answered_last env n q resp r'"
  by (auto simp: handle_provider_failure_def retry_once_def Let_def answered_send
      split: if_splits prod.splits sum.splits option.splits)

lemma success_calls [simp]: "mr_calls (keys_success env n (record_provider_success env n r)) = mr_calls r"
  by (simp add: keys_success_def record_provider_success_def on_health_def)

lemma answered_try:
  assumes "try_candidate env e c q r = (Inr resp, r')"
  shows "answered_last env (fe_provider e) q resp r'"
proof -
  obtain r1 where r1: "answered_last env (fe_provider e) q resp r1" "mr_calls r' = mr_calls r1"
    using assms answered_send answered_handle
    by (fastforce simp: try_candidate_def split: prod.splits sum.splits)
  then show ?thesis by (simp add: answered_last_def)
qed

text \<open>The record that is being built: every entry of the chain was counted.\<close>

definition counted :: "route_state \<Rightarrow> bool" where
  "counted s \<longleftrightarrow> length (ro_candidate_chain s) = ro_failed s + ro_skipped s"

lemma counted_visit: "counted s \<Longrightarrow> route_visit env q e s = (None, s') \<Longrightarrow> counted s'"
  by (auto simp: route_visit_def counted_def Let_def split: if_splits option.splits prod.splits sum.splits)

lemma passed_counted: "passed (route_visit env q) es s = Some s' \<Longrightarrow> counted s \<Longrightarrow> counted s'"
proof (induction es arbitrary: s)
  case (Cons e es)
  then show ?case by (auto dest: counted_visit split: prod.splits option.splits)
qed simp

lemma passed_labels:
  "passed (route_visit env q) es s = Some s' \<Longrightarrow>
     \<exists>ls. ro_candidate_chain s' = ro_candidate_chain s @ ls \<and> subseq ls (map route_entry_label es)"
proof (induction es arbitrary: s)
  case (Cons e es)
  obtain s1 where s1: "route_visit env q e s = (None, s1)" "passed (route_visit env q) es s1 = Some s'"
    using Cons.prems by (cases "route_visit env q e s"; cases "fst (route_visit env q e s)") auto
  from s1(1) have "ro_candidate_chain s1 = ro_candidate_chain s \<or>
      ro_candidate_chain s1 = ro_candidate_chain s @ [route_entry_label e]"
    by (auto simp: route_visit_def Let_def split: if_splits option.splits prod.splits sum.splits)
  with Cons.IH [OF s1(2)] show ?case by fastforce
qed simp

lemma route_answer:
  assumes "route_visit env q e s = (Some (Inr (resp, rec)), s')"
  shows "fe_enabled e \<and> \<not> is_circuit_open (fe_provider e) (ro_router s) \<and>
         answered_last env (fe_provider e) q resp (ro_router s') \<and>
         rr_chosen rec = route_entry_label e \<and>
         rr_candidate_chain rec = ro_candidate_chain s @ [route_entry_label e] \<and>
         (rr_fallback_occurred rec \<longleftrightarrow> 0 < ro_failed s + ro_skipped s)"
  using assms
  by (auto simp: route_visit_def Let_def dest: answered_try split: if_splits option.splits prod.splits sum.splits)

lemma visit_never_fails: "route_visit env q e s = (Some x, s') \<Longrightarrow> \<not> isl x"
  by (auto simp: route_visit_def Let_def split: if_splits option.splits prod.splits sum.splits)

lemma route_response:
  assumes "route_with_fallback env request es r = (Inr (response, rec), r')"
  shows "\<exists>pre e post ls. es = pre @ e # post \<and> fe_enabled e \<and> rr_chosen rec = route_entry_label e \<and>
           answered_last env (fe_provider e) request response r' \<and>
           rr_candidate_chain rec = ls @ [route_entry_label e] \<and> subseq ls (map route_entry_label pre) \<and>
           (rr_fallback_occurred rec \<longleftrightarrow> ls \<noteq> [])"
proof -
  let ?s = "start_route r" and ?v = "route_visit env request"
  obtain t where l: "route_loop env request es ?s = (Inr (response, rec), t)" "ro_router t = r'"
    using assms by (auto simp: route_with_fallback_def split: prod.splits)
  with route.loop_answer [of env request es ?s] obtain pre e post u where
      u: "es = pre @ e # post" "passed ?v pre ?s = Some u" "?v e u = (Some (Inr (response, rec)), t)"
    by (auto simp: route_exhausted_def)
  have "counted ?s" by (simp add: counted_def start_route_def)
  with passed_counted [OF u(2)] have "counted u" .
  moreover obtain ls where "ro_candidate_chain u = ls" "subseq ls (map route_entry_label pre)"
    using passed_labels [OF u(2)] by (auto simp: start_route_def)
  ultimately show ?thesis using route_answer [OF u(3)] u(1) l(2) by (fastforce simp: counted_def)
qed

text \<open>C8. The record of a route is true: the chosen label is that of an enabled candidate, the response is what its
  provider answered to the last request sent, the candidates recorded are among those before it in their order, and a
  fallback is reported exactly when the record has another candidate before it.\<close>

theorem route_record_truthful:
  assumes "route_with_fallback env request es r = (Inr (response, rec), r')"
  shows "\<exists>pre e post ls. es = pre @ e # post \<and> fe_enabled e \<and> rr_chosen rec = route_entry_label e \<and>
           answered_last env (fe_provider e) request response r' \<and>
           rr_candidate_chain rec = ls @ [route_entry_label e] \<and> subseq ls (map route_entry_label pre) \<and>
           (rr_fallback_occurred rec \<longleftrightarrow> ls \<noteq> [])"
  using assms by (rule route_response)

section \<open>Routes that fail\<close>

lemma route_passed:
  assumes "route_with_fallback env q es r = (Inl e, r')"
  obtains s where "passed (route_visit env q) es (start_route r) = Some s" "ro_router s = r'"
proof -
  obtain t where l: "route_loop env q es (start_route r) = (Inl e, t)" "ro_router t = r'"
    using assms by (auto simp: route_with_fallback_def split: prod.splits)
  from route.loop_answer [of env q es "start_route r"] show ?thesis
  proof
    assume "\<exists>s'. passed (route_visit env q) es (start_route r) = Some s' \<and>
        route_loop env q es (start_route r) = (route_exhausted s', s')"
    then show ?thesis using that l by auto
  next
    assume "\<exists>pre c post u. es = pre @ c # post \<and> passed (route_visit env q) pre (start_route r) = Some u \<and>
        route_visit env q c u = (Some (fst (route_loop env q es (start_route r))), snd (route_loop env q es (start_route r)))"
    then have "\<not> isl (fst (route_loop env q es (start_route r)))" using visit_never_fails by blast
    then show ?thesis using l(1) by simp
  qed
qed

lemma send_logs: "touches n m k (snd (send env n c q r)) r' \<Longrightarrow> n \<in> fst ` set (drop (sent r) (mr_calls r'))"
  by (auto simp: touches_def send_def)

lemma visit_asks:
  assumes "fe_enabled e" "\<not> is_circuit_open (fe_provider e) (ro_router s)" "fe_provider e \<in> hm_keys (mr_providers (ro_router s))"
  shows "fe_provider e \<in> fst ` set (drop (sent (ro_router s)) (mr_calls (ro_router (snd (route_visit env q e s)))))"
proof -
  let ?r = "ro_router s" and ?n = "fe_provider e"
  obtain c where c: "map_of (mr_providers ?r) ?n = Some c" using assms(3) by (metis map_of_eq_None_iff not_None_eq)
  obtain x r1 where s: "send env ?n c q ?r = (x, r1)" by (cases "send env ?n c q ?r")
  have "\<exists>k. touches ?n (rq_model q) k r1 (snd (try_candidate env e c q ?r))"
  proof (cases x)
    case (Inr resp)
    then show ?thesis using s by (auto simp: try_candidate_def intro!: exI [of _ 0] touches_success touches_refl)
  next
    case (Inl err)
    obtain y r2 where h: "handle_provider_failure env ?n (fe_model e) (route_class ?n err) err q r1 = (y, r2)"
      by (cases "handle_provider_failure env ?n (fe_model e) (route_class ?n err) err q r1")
    then have "touches ?n (rq_model q) 1 r1 r2"
      using touches_handle [of ?n q r1 env "fe_model e" "route_class ?n err" err] by simp
    with s Inl h show ?thesis by (cases y) (auto simp: try_candidate_def intro: touches_success)
  qed
  with send_logs [of ?n "rq_model q" _ env c q ?r] s
  have "?n \<in> fst ` set (drop (sent ?r) (mr_calls (snd (try_candidate env e c q ?r))))" by auto
  moreover obtain y r' where "try_candidate env e c q ?r = (y, r')" by (cases "try_candidate env e c q ?r")
  ultimately show ?thesis using assms(1,2) c by (cases y) (simp_all add: route_visit_def Let_def)
qed

lemma visit_calls: "\<exists>cs. mr_calls (ro_router (snd (route_visit env q e s))) = mr_calls (ro_router s) @ cs"
  using route_visit_router [of env q e s] by (auto simp: touches_def)

lemma passed_calls: "passed (route_visit env q) es s = Some s' \<Longrightarrow> \<exists>cs. mr_calls (ro_router s') = mr_calls (ro_router s) @ cs"
proof (induction es arbitrary: s)
  case (Cons e es)
  obtain s1 where s1: "route_visit env q e s = (None, s1)" "passed (route_visit env q) es s1 = Some s'"
    using Cons.prems by (cases "route_visit env q e s"; cases "fst (route_visit env q e s)") auto
  from Cons.IH [OF s1(2)] visit_calls [of env q e s] s1(1) show ?case by auto
qed simp

definition askable :: "fallback_entry \<Rightarrow> model_router \<Rightarrow> bool" where
  "askable e r \<longleftrightarrow>
     fe_enabled e \<and> \<not> is_circuit_open (fe_provider e) r \<and> fe_provider e \<in> hm_keys (mr_providers r)"

lemma visit_keeps_askable:
  "fe_provider f \<noteq> fe_provider e \<Longrightarrow> askable f (ro_router (snd (route_visit env q e s))) = askable f (ro_router s)"
  using route_visit_router [of env q e s] by (auto simp: askable_def touches_def is_circuit_open_def)

lemma passed_asks:
  assumes "passed (route_visit env q) es s = Some s'" "distinct (map fe_provider es)" "f \<in> set es" "askable f (ro_router s)"
  shows "fe_provider f \<in> fst ` set (drop (sent (ro_router s)) (mr_calls (ro_router s')))"
  using assms
proof (induction es arbitrary: s)
  case (Cons e es)
  obtain s1 where s1: "route_visit env q e s = (None, s1)" "passed (route_visit env q) es s1 = Some s'"
    using Cons.prems(1) by (cases "route_visit env q e s"; cases "fst (route_visit env q e s)") auto
  obtain cs where cs: "mr_calls (ro_router s1) = mr_calls (ro_router s) @ cs" using visit_calls [of env q e s] s1(1) by auto
  obtain ds where ds: "mr_calls (ro_router s') = mr_calls (ro_router s1) @ ds" using passed_calls [OF s1(2)] by blast
  show ?case
  proof (cases "f = e")
    case True
    with Cons.prems(4) visit_asks [of e s env q] s1(1) cs ds show ?thesis by (auto simp: askable_def)
  next
    case False
    then have "f \<in> set es" using Cons.prems(3) by simp
    moreover from this have "fe_provider f \<in> set (map fe_provider es)" by simp
    moreover have "fe_provider e \<notin> set (map fe_provider es)" using Cons.prems(2) by simp
    ultimately have f: "f \<in> set es" "fe_provider f \<noteq> fe_provider e" by metis+
    then have "askable f (ro_router s1)" using visit_keeps_askable [of f e env q s] Cons.prems(4) s1(1) by simp
    with Cons.IH [OF s1(2)] Cons.prems(2) f(1) show ?thesis using cs ds by auto
  qed
qed simp

text \<open>C16. A route fails only after asking everyone: with each provider once among the candidates, a route without a
  response has sent a request to every candidate that was enabled, registered and not behind an open circuit.\<close>

theorem failed_route_asked_everyone:
  assumes "route_with_fallback env request es r = (Inl err, r')" and "distinct (map fe_provider es)"
    and "e \<in> set es" and "askable e r"
  shows "fe_provider e \<in> fst ` set (drop (sent r) (mr_calls r'))"
proof -
  obtain s where s: "passed (route_visit env request) es (start_route r) = Some s" "ro_router s = r'"
    using route_passed [OF assms(1)] .
  with passed_asks [OF s(1) assms(2,3)] assms(4) show ?thesis by (simp add: start_route_def)
qed

section \<open>Streams\<close>

text \<open>A stream that is handed out begins without an error and is the stream the chosen provider opened, chunk by
  chunk: waiting for the first chunk loses nothing and repeats nothing.\<close>

theorem streams_start_clean:
  assumes "stream_with_route env model_id messages r = (Inr (chunks, rec), r')"
  shows "(\<forall>c later. chunks = c # later \<longrightarrow> ck_error c = None) \<and>
         (\<exists>cs n c q. mr_calls r' = cs @ [(n, c, rq_model q)] \<and> re_call env (length cs) n c q = Inr chunks)"
proof -
  let ?env = "env\<lparr>re_call := \<lambda>i n c q. open_stream (re_call env i n c q)\<rparr>"
  obtain q es rec0 where "route_with_fallback ?env q es r = (Inr (chunks, rec0), r')"
    using assms unfolding stream_with_route_def complete_with_route_def
    by (auto split: sum.splits prod.splits)
  from route_response [OF this] obtain n cs c where
    "mr_calls r' = cs @ [(n, c, rq_model q)]" "open_stream (re_call env (length cs) n c q) = Inr chunks"
    by (auto simp: answered_last_def)
  moreover from this(2) have "re_call env (length cs) n c q = Inr chunks"
    by (auto simp: open_stream_def split: sum.splits list.splits option.splits)
  ultimately show ?thesis by (force simp: open_stream_def split: option.splits)
qed

section \<open>A router with two candidates\<close>

definition two_candidates :: model_router where
  "two_candidates =
     fold run_admin [Add_Provider True (Inr (ApiKey ''k1'')) ''deepseek'' deepseek_config,
                     Add_Instance ''backup'' (ApiKey ''b1''), Set_Chain ''deepseek'' [''deepseek'', ''backup'']]
       (new_router ''deepseek'' [] [])"

definition serving_env :: "(string \<Rightarrow> router_error + 'r) \<Rightarrow> 'r router_env" where
  "serving_env answer =
     \<lparr>re_call = \<lambda>i n c q. answer n, re_set_credential = \<lambda>i n c. None, re_now = \<lambda>i. int i, re_latency_ms = \<lambda>i. 0,
      re_save_fails = \<lambda>i. None, re_probe = \<lambda>i n. Inr True\<rparr>"

definition backup_serves :: "string router_env" where
  "backup_serves =
     serving_env (\<lambda>n. if n = ''backup'' then Inr ''ok'' else Inl (http_error 500 ''Internal Server Error'' []))"

definition nobody_serves :: "string router_env" where
  "nobody_serves = serving_env (\<lambda>n. Inl (http_error 500 ''Internal Server Error'' []))"

definition hello_request :: request where
  "hello_request = \<lparr>rq_model = Some ''deepseek'', rq_messages = [''hi''], rq_stream = False, rq_fallback_models = []\<rparr>"

definition hello_candidates :: "fallback_entry list" where
  "hello_candidates = get_provider_chain ''deepseek'' ''deepseek'' two_candidates"

theorem open_circuits_get_no_requests_witness:
  "\<exists>cs. mr_calls (snd (complete_with_route backup_serves ''deepseek'' [''hi''] False
       (snd (disable_provider ''deepseek'' two_candidates)))) =
     mr_calls (snd (disable_provider ''deepseek'' two_candidates)) @ cs \<and> ''deepseek'' \<notin> fst ` set cs"
proof -
  have "is_circuit_open ''deepseek'' (snd (disable_provider ''deepseek'' two_candidates))" by code_simp
  from open_circuits_get_no_requests [OF this] show ?thesis by blast
qed

theorem route_record_truthful_witness:
  "\<exists>e. e \<in> set hello_candidates \<and>
     answered_last backup_serves (fe_provider e) hello_request ''ok''
       (snd (route_with_fallback backup_serves hello_request hello_candidates two_candidates))"
proof -
  obtain rec where "fst (route_with_fallback backup_serves hello_request hello_candidates two_candidates) = Inr (''ok'', rec)"
    by (rule that [of "\<lparr>rr_candidate_chain = [''deepseek/deepseek'', ''backup/deepseek''], rr_chosen = ''backup/deepseek'',
          rr_reason = Some ''fallback after 1 failed / 0 skipped candidate(s)'', rr_fallback_occurred = True\<rparr>"]) code_simp
  then have "route_with_fallback backup_serves hello_request hello_candidates two_candidates =
      (Inr (''ok'', rec), snd (route_with_fallback backup_serves hello_request hello_candidates two_candidates))"
    by (simp add: prod_eq_iff)
  from route_record_truthful [OF this] show ?thesis by (metis in_set_conv_decomp)
qed

theorem failed_route_asked_everyone_witness:
  "''backup'' \<in> fst ` set (drop (sent two_candidates)
     (mr_calls (snd (route_with_fallback nobody_serves hello_request hello_candidates two_candidates))))"
proof -
  obtain err where "fst (route_with_fallback nobody_serves hello_request hello_candidates two_candidates) = Inl err"
    by (rule that [of "External_Service
          ''Provider backup failed: External service error: HTTP 500 Internal Server Error: ''"]) code_simp
  then have f: "route_with_fallback nobody_serves hello_request hello_candidates two_candidates =
      (Inl err, snd (route_with_fallback nobody_serves hello_request hello_candidates two_candidates))"
    by (simp add: prod_eq_iff)
  have c: "distinct (map fe_provider hello_candidates)" "chain_entry ''deepseek'' ''backup'' \<in> set hello_candidates"
    "askable (chain_entry ''deepseek'' ''backup'') two_candidates" by code_simp+
  from failed_route_asked_everyone [OF f c] show ?thesis by (simp add: chain_entry_def)
qed

definition stream_serves :: "stream_chunk list router_env" where
  "stream_serves =
     serving_env (\<lambda>n. if n = ''backup'' then Inr [\<lparr>ck_content = Some ''ok'', ck_error = None, ck_is_done = True\<rparr>]
                      else Inr [\<lparr>ck_content = None, ck_error = Some ''boom'', ck_is_done = True\<rparr>])"

theorem streams_start_clean_witness:
  "\<exists>cs n c q. mr_calls (snd (stream_with_route stream_serves ''deepseek'' [''hi''] two_candidates)) = cs @ [(n, c, rq_model q)] \<and>
     re_call stream_serves (length cs) n c q = Inr [\<lparr>ck_content = Some ''ok'', ck_error = None, ck_is_done = True\<rparr>]"
proof -
  obtain rec where "fst (stream_with_route stream_serves ''deepseek'' [''hi''] two_candidates) =
      Inr ([\<lparr>ck_content = Some ''ok'', ck_error = None, ck_is_done = True\<rparr>], rec)"
    by (rule that [of "\<lparr>rr_candidate_chain = [''deepseek/deepseek'', ''backup/deepseek''], rr_chosen = ''backup/deepseek'',
          rr_reason = Some ''fallback after 1 failed / 0 skipped candidate(s)'', rr_fallback_occurred = True\<rparr>"]) code_simp
  then have "stream_with_route stream_serves ''deepseek'' [''hi''] two_candidates =
      (Inr ([\<lparr>ck_content = Some ''ok'', ck_error = None, ck_is_done = True\<rparr>], rec),
       snd (stream_with_route stream_serves ''deepseek'' [''hi''] two_candidates))"
    by (simp add: prod_eq_iff)
  from streams_start_clean [OF this] show ?thesis by blast
qed

section \<open>Where the code departs from its documentation\<close>

text \<open>An explicit reference to the cloud proxy loses to a chain of the bare model: the request goes to the chain.\<close>

lemma cloud_reference_follows_bare_chain:
  "let r = snd (set_fallback_chain ''deepseek'' [''openai''] local_and_cloud)
   in map fst (mr_calls (snd (complete_with_route (serving_env (\<lambda>n. Inr n)) ''cloud/deepseek'' [''hi''] False r))) = [''openai'']"
  by code_simp

text \<open>A candidate that is not registered is dropped without a trace: the record says that the first choice served.\<close>

lemma missing_candidate_is_not_recorded:
  "let r = snd (remove_provider ''deepseek'' two_candidates)
   in map_sum id (\<lambda>(x, rec). (rr_chosen rec, rr_candidate_chain rec, rr_reason rec, rr_fallback_occurred rec))
        (fst (route_with_fallback backup_serves hello_request hello_candidates r)) =
      Inr (''backup/deepseek'', [''backup/deepseek''], Some ''primary'', False)"
  by code_simp

text \<open>A refused key is not disabled. It cools down like any other, and is tried again.\<close>

lemma refused_key_is_not_disabled:
  "let r = snd (try_candidate (serving_env (\<lambda>n. Inl (http_error 403 ''Forbidden'' []) :: router_error + string))
                  (chain_entry ''deepseek'' ''deepseek'') (ApiKey ''k1'') hello_request two_candidates)
   in map_option (\<lambda>p. map ke_status (ap_keys p)) (map_of (am_profiles (mr_auth r)) ''deepseek'') = Some [Cooldown, Active]"
  by code_simp

end
