(* ===== verification/Utf8_Text.thy ===== *)
theory Utf8_Text
  imports Prelude
begin

text \<open>
  Texts as the bytes of their UTF-8 encoding: characters, white space and lines as the functions of \<open>str\<close> of the
  Rust library see them. Parts that count bytes and cut texts use this form; \<open>len()\<close> is the length of the list.
\<close>

section \<open>Characters\<close>

text \<open>The bytes of UTF-8 that continue a character, and the first characters of a text.\<close>

definition is_continuation :: "char \<Rightarrow> bool" where
  "is_continuation c \<longleftrightarrow> 128 \<le> (of_char c :: nat) \<and> (of_char c :: nat) < 192"

fun take_chars :: "nat \<Rightarrow> string \<Rightarrow> string" where
  "take_chars n [] = []"
| "take_chars n (c # s) =
     (if is_continuation c then c # take_chars n s
      else case n of 0 \<Rightarrow> [] | Suc k \<Rightarrow> c # take_chars k s)"

definition ellipsis :: string where
  "ellipsis = [CHR 0xE2, CHR 0x80, CHR 0xA6]"

definition em_dash_utf8 :: string where
  "em_dash_utf8 = [CHR 0xE2, CHR 0x80, CHR 0x94]"

definition newline_str :: string where
  "newline_str = [CHR 0x0A]"

section \<open>White space and lines\<close>

text \<open>White space of Unicode, as UTF-8, and \<open>str::trim\<close> on bytes.\<close>

definition utf8_spaces :: "string list" where
  "utf8_spaces =
     map (\<lambda>c. [c]) [CHR 0x09, CHR 0x0A, CHR 0x0B, CHR 0x0C, CHR 0x0D, CHR 0x20]
     @ [[CHR 0xC2, CHR 0x85], [CHR 0xC2, CHR 0xA0], [CHR 0xE1, CHR 0x9A, CHR 0x80]]
     @ map (\<lambda>c. [CHR 0xE2, CHR 0x80, c])
         [CHR 0x80, CHR 0x81, CHR 0x82, CHR 0x83, CHR 0x84, CHR 0x85, CHR 0x86, CHR 0x87, CHR 0x88, CHR 0x89,
          CHR 0x8A, CHR 0xA8, CHR 0xA9, CHR 0xAF]
     @ [[CHR 0xE2, CHR 0x81, CHR 0x9F], [CHR 0xE3, CHR 0x80, CHR 0x80]]"

lemma utf8_spaces_nonempty: "w \<in> set utf8_spaces \<Longrightarrow> w \<noteq> []"
  by (auto simp: utf8_spaces_def)

function utf8_trim_start :: "string \<Rightarrow> string" where
  "utf8_trim_start s =
     (case find (starts_with s) utf8_spaces of
        None \<Rightarrow> s
      | Some w \<Rightarrow> utf8_trim_start (drop (length w) s))"
  by pat_completeness auto
termination
proof (relation "measure length")
  fix s w assume "find (starts_with s) utf8_spaces = Some w"
  then have "w \<noteq> []" "starts_with s w" using utf8_spaces_nonempty by (auto simp: find_Some_iff)
  then show "(drop (length w) s, s) \<in> measure length" by (cases s) (auto simp: starts_with_def)
qed simp

function utf8_trim_end :: "string \<Rightarrow> string" where
  "utf8_trim_end s =
     (case find (ends_with s) utf8_spaces of
        None \<Rightarrow> s
      | Some w \<Rightarrow> utf8_trim_end (take (length s - length w) s))"
  by pat_completeness auto
termination
proof (relation "measure length")
  fix s w assume "find (ends_with s) utf8_spaces = Some w"
  then have "w \<noteq> []" "ends_with s w" using utf8_spaces_nonempty by (auto simp: find_Some_iff)
  then show "(take (length s - length w) s, s) \<in> measure length" by (cases s) (auto simp: ends_with_def)
qed simp

declare utf8_trim_start.simps [simp del] utf8_trim_end.simps [simp del]

definition utf8_trim :: "string \<Rightarrow> string" where
  "utf8_trim s = utf8_trim_end (utf8_trim_start s)"

text \<open>\<open>str::lines\<close>.\<close>

definition strip_cr :: "string \<Rightarrow> string" where
  "strip_cr s = (if s \<noteq> [] \<and> last s = CHR 0x0D then butlast s else s)"

definition str_lines :: "string \<Rightarrow> string list" where
  "str_lines s =
     (let parts = split_char (CHR 0x0A) s
      in map strip_cr (if last parts = [] then butlast parts else parts))"

end
