(* ===== verification/Conversation.thy ===== *)
theory Conversation
  imports Delegation_Scope Utf8_Text
begin

text \<open>
  The messages of a conversation and the window of them that an agent keeps (\<open>agent/context.rs\<close>,
  messages of \<open>providers/mod.rs\<close>). A provider refuses a request in which a tool result does not follow
  the assistant message that made its call, or in which a call has no result; \<open>balanced\<close> says that
  neither is the case. Adding messages prunes the window; the removal of old turns, the pruning to the token
  limit and the summary of the middle are the loops of the source.

  Message texts are the bytes of their UTF-8 encoding, so that \<open>len()\<close> is the length of the list and
  \<open>chars().take(n)\<close> counts the bytes that start a character. Times are arguments.
\<close>

section \<open>Messages\<close>

datatype role = Role_System | Role_User | Role_Assistant | Role_Tool

definition show_role :: "role \<Rightarrow> string" where
  "show_role r =
     (case r of Role_System \<Rightarrow> ''system'' | Role_User \<Rightarrow> ''user'' | Role_Assistant \<Rightarrow> ''assistant'' | Role_Tool \<Rightarrow> ''tool'')"

datatype content_block = Text_Block string | Image_Block string string

record function_call =
  fc_name :: string
  fc_arguments :: string

record tool_call =
  tc_id :: string
  tc_call_type :: string
  tc_function :: function_call
  tc_index :: "u32 option"
  tc_result :: "string option"

record message =
  msg_role :: role
  msg_content :: string
  msg_content_blocks :: "content_block list option"
  msg_reasoning_content :: "string option"
  msg_name :: "string option"
  msg_tool_calls :: "tool_call list option"
  msg_tool_call_id :: "string option"
  msg_metadata :: "(string \<times> string) list option"

definition plain_message :: "role \<Rightarrow> string \<Rightarrow> message" where
  "plain_message r body =
     \<lparr>msg_role = r, msg_content = body, msg_content_blocks = None, msg_reasoning_content = None, msg_name = None,
      msg_tool_calls = None, msg_tool_call_id = None, msg_metadata = None\<rparr>"

definition message_system :: "string \<Rightarrow> message" where
  "message_system body = plain_message Role_System body"

definition message_user :: "string \<Rightarrow> message" where
  "message_user body = plain_message Role_User body"

definition message_user_named :: "string \<Rightarrow> string \<Rightarrow> message" where
  "message_user_named nm body = (message_user body)\<lparr>msg_name := Some nm\<rparr>"

definition message_assistant :: "string \<Rightarrow> message" where
  "message_assistant body = plain_message Role_Assistant body"

definition message_tool :: "string \<Rightarrow> string \<Rightarrow> message" where
  "message_tool body call_id = (plain_message Role_Tool body)\<lparr>msg_tool_call_id := Some call_id\<rparr>"

definition with_tool_calls :: "message \<Rightarrow> tool_call list \<Rightarrow> message" where
  "with_tool_calls m calls = m\<lparr>msg_tool_calls := Some calls\<rparr>"

definition is_tool :: "message \<Rightarrow> bool" where
  "is_tool m \<longleftrightarrow> msg_role m = Role_Tool"

definition is_user :: "message \<Rightarrow> bool" where
  "is_user m \<longleftrightarrow> msg_role m = Role_User"

definition tokens_of :: "message \<Rightarrow> nat" where
  "tokens_of m = length (msg_content m) div 4"

text \<open>The first \<open>n\<close> characters, with an ellipsis when the text has more than \<open>n\<close> bytes.\<close>

definition preview_of :: "nat \<Rightarrow> string \<Rightarrow> string" where
  "preview_of n s = take_chars n s @ (if n < length s then ellipsis else [])"

section \<open>The context\<close>

record turn_usage =
  tu_prompt_tokens :: u32
  tu_completion_tokens :: u32
  tu_total_tokens :: u32
  tu_cache_read_tokens :: u32
  tu_cache_creation_tokens :: u32

record tool_call_record =
  tcr_name :: string
  tcr_args :: string
  tcr_result :: string
  tcr_success :: bool
  tcr_duration_ms :: u64

record agent_context =
  cx_id :: string
  cx_system_prompt :: string
  cx_messages :: "message list"
  cx_max_tokens :: nat
  cx_token_count :: nat
  cx_created_at :: int
  cx_last_accessed :: int
  cx_tool_iterations :: nat
  cx_max_tool_iterations :: nat
  cx_executed_tool_calls :: "string list"
  cx_tools_used :: "string list"
  cx_max_turns :: "nat option"
  cx_tool_call_records :: "tool_call_record list"
  cx_turn_token_usage :: "turn_usage option"
  cx_delegation :: "delegation_scope option"

definition default_max_tool_iterations :: nat where
  "default_max_tool_iterations = 10"

definition new_context :: "int \<Rightarrow> string \<Rightarrow> string \<Rightarrow> nat \<Rightarrow> agent_context" where
  "new_context now cid prompt max_tokens =
     \<lparr>cx_id = cid, cx_system_prompt = prompt, cx_messages = [], cx_max_tokens = max_tokens, cx_token_count = 0,
      cx_created_at = now, cx_last_accessed = now, cx_tool_iterations = 0,
      cx_max_tool_iterations = default_max_tool_iterations, cx_executed_tool_calls = [], cx_tools_used = [],
      cx_max_turns = None, cx_tool_call_records = [], cx_turn_token_usage = None, cx_delegation = None\<rparr>"

definition set_delegation :: "delegation_scope option \<Rightarrow> agent_context \<Rightarrow> agent_context" where
  "set_delegation sc cx = cx\<lparr>cx_delegation := sc\<rparr>"

definition with_max_turns :: "nat \<Rightarrow> agent_context \<Rightarrow> agent_context" where
  "with_max_turns turns cx = cx\<lparr>cx_max_turns := Some turns\<rparr>"

text \<open>\<open>Vec::remove\<close> together with the correction of the token count, as all loops do it.\<close>

definition remove_message :: "nat \<Rightarrow> agent_context \<Rightarrow> agent_context" where
  "remove_message i cx =
     cx\<lparr>cx_messages := take i (cx_messages cx) @ drop (Suc i) (cx_messages cx),
        cx_token_count := cx_token_count cx - tokens_of (cx_messages cx ! i)\<rparr>"

primrec position_of :: "('a \<Rightarrow> bool) \<Rightarrow> 'a list \<Rightarrow> nat option" where
  "position_of P [] = None"
| "position_of P (x # xs) = (if P x then Some 0 else map_option Suc (position_of P xs))"

lemma position_of_Some: "position_of P xs = Some i \<Longrightarrow> i < length xs \<and> P (xs ! i) \<and> (\<forall>j<i. \<not> P (xs ! j))"
proof (induction xs arbitrary: i)
  case (Cons x xs)
  then show ?case by (auto split: if_splits simp: nth_Cons split: nat.splits)
qed simp

lemma position_of_None: "position_of P xs = None \<longleftrightarrow> (\<forall>x\<in>set xs. \<not> P x)"
  by (induction xs) auto

lemma remove_message_length:
  "length (cx_messages (remove_message i cx)) = (if i < length (cx_messages cx) then length (cx_messages cx) - 1
     else length (cx_messages cx))"
  by (simp add: remove_message_def)

definition user_count :: "agent_context \<Rightarrow> nat" where
  "user_count cx = length (filter is_user (cx_messages cx))"

definition drop_turn :: "nat \<Rightarrow> agent_context \<Rightarrow> agent_context" where
  "drop_turn oldest_user cx =
     (let cx1 = remove_message oldest_user cx
      in if oldest_user < length (cx_messages cx1) \<and> msg_role (cx_messages cx1 ! oldest_user) = Role_Assistant
         then remove_message oldest_user cx1
         else cx1)"

lemma drop_turn_shorter:
  "i < length (cx_messages cx) \<Longrightarrow> length (cx_messages (drop_turn i cx)) < length (cx_messages cx)"
  by (auto simp: drop_turn_def Let_def remove_message_length)

function limit_loop :: "nat \<Rightarrow> agent_context \<Rightarrow> agent_context" where
  "limit_loop max_turns cx =
     (if user_count cx \<le> max_turns then cx
      else case position_of is_user (cx_messages cx) of
             None \<Rightarrow> cx
           | Some oldest_user \<Rightarrow> limit_loop max_turns (drop_turn oldest_user cx))"
  by pat_completeness auto
termination
  by (relation "measure (\<lambda>(_, cx). length (cx_messages cx))")
    (auto dest!: position_of_Some intro: drop_turn_shorter)

declare limit_loop.simps [simp del]

definition limit_turns :: "agent_context \<Rightarrow> agent_context" where
  "limit_turns cx = (case cx_max_turns cx of None \<Rightarrow> cx | Some max_turns \<Rightarrow> limit_loop max_turns cx)"

section \<open>Tool calls of a turn\<close>

definition call_key :: "string \<Rightarrow> string \<Rightarrow> string" where
  "call_key tool_name params = tool_name @ '':'' @ params"

definition is_tool_call_duplicate :: "agent_context \<Rightarrow> string \<Rightarrow> string \<Rightarrow> bool" where
  "is_tool_call_duplicate cx tool_name params \<longleftrightarrow> call_key tool_name params \<in> set (cx_executed_tool_calls cx)"

definition record_tool_call :: "string \<Rightarrow> string \<Rightarrow> agent_context \<Rightarrow> agent_context" where
  "record_tool_call tool_name params cx =
     cx\<lparr>cx_executed_tool_calls := List.insert (call_key tool_name params) (cx_executed_tool_calls cx),
        cx_tools_used := (if tool_name \<in> set (cx_tools_used cx) then cx_tools_used cx
                          else cx_tools_used cx @ [tool_name])\<rparr>"

definition clear_tools_used :: "agent_context \<Rightarrow> agent_context" where
  "clear_tools_used cx = cx\<lparr>cx_tools_used := []\<rparr>"

definition clear_executed_tool_calls :: "agent_context \<Rightarrow> agent_context" where
  "clear_executed_tool_calls cx = cx\<lparr>cx_executed_tool_calls := []\<rparr>"

definition push_tool_call_record :: "tool_call_record \<Rightarrow> agent_context \<Rightarrow> agent_context" where
  "push_tool_call_record r cx = cx\<lparr>cx_tool_call_records := cx_tool_call_records cx @ [r]\<rparr>"

definition take_tool_call_records :: "agent_context \<Rightarrow> tool_call_record list \<times> agent_context" where
  "take_tool_call_records cx = (cx_tool_call_records cx, cx\<lparr>cx_tool_call_records := []\<rparr>)"

definition set_turn_token_usage :: "turn_usage \<Rightarrow> agent_context \<Rightarrow> agent_context" where
  "set_turn_token_usage u cx = cx\<lparr>cx_turn_token_usage := Some u\<rparr>"

text \<open>The sums are of 32 bits and wrap in a release build.\<close>

definition accumulate_turn_token_usage :: "turn_usage \<Rightarrow> agent_context \<Rightarrow> agent_context" where
  "accumulate_turn_token_usage u cx =
     cx\<lparr>cx_turn_token_usage :=
          (case cx_turn_token_usage cx of
             Some acc \<Rightarrow>
               Some \<lparr>tu_prompt_tokens = tu_prompt_tokens acc + tu_prompt_tokens u,
                     tu_completion_tokens = tu_completion_tokens acc + tu_completion_tokens u,
                     tu_total_tokens = tu_total_tokens acc + tu_total_tokens u,
                     tu_cache_read_tokens = tu_cache_read_tokens acc + tu_cache_read_tokens u,
                     tu_cache_creation_tokens = tu_cache_creation_tokens acc + tu_cache_creation_tokens u\<rparr>
           | None \<Rightarrow> Some u)\<rparr>"

definition take_turn_token_usage :: "agent_context \<Rightarrow> turn_usage option \<times> agent_context" where
  "take_turn_token_usage cx = (cx_turn_token_usage cx, cx\<lparr>cx_turn_token_usage := None\<rparr>)"

definition increment_tool_iteration :: "agent_context \<Rightarrow> bool \<times> agent_context" where
  "increment_tool_iteration cx =
     (let n = cx_tool_iterations cx + 1
      in (n < cx_max_tool_iterations cx, cx\<lparr>cx_tool_iterations := n\<rparr>))"

definition is_tool_limit_reached :: "agent_context \<Rightarrow> bool" where
  "is_tool_limit_reached cx \<longleftrightarrow> cx_max_tool_iterations cx \<le> cx_tool_iterations cx"

definition set_max_tool_iterations :: "nat \<Rightarrow> agent_context \<Rightarrow> agent_context" where
  "set_max_tool_iterations n cx = cx\<lparr>cx_max_tool_iterations := n\<rparr>"

text \<open>The limit for a message; \<open>override\<close> is the value of \<open>SYSCITY_MAX_TOOL_ITERATIONS\<close> when it parses. Lower
  case matters for ASCII letters only: no other character has a lower case that occurs in the words.\<close>

definition ascii_lowercase :: "string \<Rightarrow> string" where
  "ascii_lowercase s =
     map (\<lambda>c. let n = (of_char c :: nat) in if 65 \<le> n \<and> n \<le> 90 then char_of (n + 32) else c) s"

definition calculate_dynamic_limit :: "nat option \<Rightarrow> string \<Rightarrow> nat" where
  "calculate_dynamic_limit override body =
     (case override of
        Some parsed \<Rightarrow> parsed
      | None \<Rightarrow>
          let long = (if 200 < length body then 5 else 0);
              parts = Suc (length (filter (\<lambda>c. c \<in> {CHR '','', CHR '';''}) body));
              steps = (if str_contains (ascii_lowercase body) ''steps''
                          \<or> str_contains (ascii_lowercase body) ''step by step'' then 5 else 0)
          in min 30 (10 + (long + (parts - 1) * 2 + steps)))"

section \<open>Pruning\<close>

definition call_ids :: "message \<Rightarrow> string list" where
  "call_ids m = (case msg_tool_calls m of None \<Rightarrow> [] | Some calls \<Rightarrow> map tc_id calls)"

definition pending_tool_call_ids :: "agent_context \<Rightarrow> string list" where
  "pending_tool_call_ids cx = List.map_filter msg_tool_call_id (filter is_tool (cx_messages cx))"

definition has_pending_results :: "string list \<Rightarrow> message \<Rightarrow> bool" where
  "has_pending_results pending m \<longleftrightarrow> list_ex (\<lambda>i. i \<in> set pending) (call_ids m)"

definition answers_call :: "string list \<Rightarrow> message \<Rightarrow> bool" where
  "answers_call ids m \<longleftrightarrow> is_tool m \<and> (case msg_tool_call_id m of None \<Rightarrow> False | Some i \<Rightarrow> i \<in> set ids)"

fun group_from :: "string list \<Rightarrow> nat \<Rightarrow> nat \<Rightarrow> message list \<Rightarrow> (nat \<times> nat) option" where
  "group_from pending n i [] = None"
| "group_from pending n i (m # ms) =
     (if msg_role m \<noteq> Role_Assistant \<or> call_ids m = [] \<or> has_pending_results pending m
      then group_from pending n (Suc i) ms
      else let group_size = Suc (length (takeWhile (answers_call (call_ids m)) ms))
           in if n \<le> group_size then group_from pending n (Suc i) ms
              else Some (i, group_size))"

definition find_prunable_tool_group :: "string list \<Rightarrow> agent_context \<Rightarrow> (nat \<times> nat) option" where
  "find_prunable_tool_group pending cx = group_from pending (length (cx_messages cx)) 0 (cx_messages cx)"

fun prunable_from :: "string list \<Rightarrow> nat \<Rightarrow> bool \<Rightarrow> nat \<Rightarrow> message list \<Rightarrow> nat option" where
  "prunable_from pending n has_tool_calls i [] = None"
| "prunable_from pending n has_tool_calls i (m # ms) =
     (if i = n - 1 then None
      else if (i = 0 \<and> is_user m \<and> has_tool_calls)
              \<or> (msg_role m = Role_Assistant \<and> has_pending_results pending m)
              \<or> is_tool m
      then prunable_from pending n has_tool_calls (Suc i) ms
      else Some i)"

definition find_prunable_message :: "string list \<Rightarrow> agent_context \<Rightarrow> nat option" where
  "find_prunable_message pending cx =
     prunable_from pending (length (cx_messages cx))
       (list_ex (\<lambda>m. msg_tool_calls m \<noteq> None) (cx_messages cx)) 0 (cx_messages cx)"

definition token_count :: "agent_context \<Rightarrow> nat" where
  "token_count cx = cx_token_count cx + length (cx_system_prompt cx) div 4"

definition needs_pruning :: "agent_context \<Rightarrow> bool" where
  "needs_pruning cx \<longleftrightarrow> cx_max_tokens cx < token_count cx"

definition remove_group :: "nat \<Rightarrow> nat \<Rightarrow> agent_context \<Rightarrow> agent_context" where
  "remove_group start count cx = (remove_message start ^^ count) cx"

lemma group_from_Some:
  "group_from pending n i ms = Some (s, c) \<Longrightarrow>
   \<exists>k < length ms. s = i + k \<and> msg_role (ms ! k) = Role_Assistant \<and> \<not> has_pending_results pending (ms ! k)
     \<and> c = Suc (length (takeWhile (answers_call (call_ids (ms ! k))) (drop (Suc k) ms))) \<and> c < n"
proof (induction ms arbitrary: i)
  case (Cons m ms)
  show ?case
  proof (cases "group_from pending n (Suc i) ms = Some (s, c)")
    case True
    then obtain k where "k < length ms" "s = Suc i + k" "msg_role (ms ! k) = Role_Assistant"
      "\<not> has_pending_results pending (ms ! k)" "c = Suc (length (takeWhile (answers_call (call_ids (ms ! k))) (drop (Suc k) ms)))"
      "c < n" using Cons.IH by blast
    then show ?thesis by (intro exI [of _ "Suc k"]) simp
  next
    case False
    then show ?thesis using Cons.prems
      by (intro exI [of _ 0]) (auto simp: Let_def not_le split: if_splits)
  qed
qed simp

lemma prunable_from_Some:
  "prunable_from pending n h i ms = Some j \<Longrightarrow>
   \<exists>k < length ms. j = i + k \<and> \<not> is_tool (ms ! k)
     \<and> (msg_role (ms ! k) = Role_Assistant \<longrightarrow> \<not> has_pending_results pending (ms ! k)) \<and> j \<noteq> n - 1"
proof (induction ms arbitrary: i)
  case (Cons m ms)
  show ?case
  proof (cases "prunable_from pending n h (Suc i) ms = Some j")
    case True
    then obtain k where "k < length ms" "j = Suc i + k" "\<not> is_tool (ms ! k)"
      "msg_role (ms ! k) = Role_Assistant \<longrightarrow> \<not> has_pending_results pending (ms ! k)" "j \<noteq> n - 1"
      using Cons.IH by blast
    then show ?thesis by (intro exI [of _ "Suc k"]) simp
  next
    case False
    then show ?thesis using Cons.prems
      by (intro exI [of _ 0]) (auto split: if_splits)
  qed
qed simp

lemma remove_group_length: "length (cx_messages (remove_group s c cx)) \<le> length (cx_messages cx)"
proof (induction c)
  case (Suc c)
  then show ?case using remove_message_length [of s "remove_group s c cx"] by (simp add: remove_group_def split: if_splits)
qed (simp add: remove_group_def)

lemma remove_group_shorter:
  assumes "s < length (cx_messages cx)" "0 < c"
  shows "length (cx_messages (remove_group s c cx)) < length (cx_messages cx)"
proof -
  obtain d where c: "c = Suc d" using assms(2) gr0_conv_Suc by blast
  have "remove_group s c cx = remove_group s d (remove_message s cx)"
    by (simp add: remove_group_def c funpow_swap1)
  then have "length (cx_messages (remove_group s c cx)) \<le> length (cx_messages (remove_message s cx))"
    by (simp add: remove_group_length)
  then show ?thesis using assms(1) by (simp add: remove_message_length)
qed

function prune_loop :: "string list \<Rightarrow> agent_context \<Rightarrow> agent_context" where
  "prune_loop pending cx =
     (if needs_pruning cx \<and> 1 < length (cx_messages cx)
      then case find_prunable_tool_group pending cx of
             Some (start, count) \<Rightarrow> prune_loop pending (remove_group start count cx)
           | None \<Rightarrow>
               (case find_prunable_message pending cx of
                  Some index \<Rightarrow> prune_loop pending (remove_message index cx)
                | None \<Rightarrow> cx)
      else cx)"
  by pat_completeness auto
termination
proof (relation "measure (\<lambda>(_, cx). length (cx_messages cx))")
  fix pending cx x start count
  assume "find_prunable_tool_group pending cx = Some x" and x: "(start, count) = x"
  then have g: "group_from pending (length (cx_messages cx)) 0 (cx_messages cx) = Some (start, count)"
    by (simp add: find_prunable_tool_group_def)
  show "((pending, remove_group start count cx), pending, cx) \<in> measure (\<lambda>(_, cx). length (cx_messages cx))"
    using group_from_Some [OF g] remove_group_shorter by auto
next
  fix pending cx index
  assume "find_prunable_message pending cx = Some index"
  then show "((pending, remove_message index cx), pending, cx) \<in> measure (\<lambda>(_, cx). length (cx_messages cx))"
    by (auto simp: find_prunable_message_def remove_message_length dest!: prunable_from_Some)
qed auto

declare prune_loop.simps [simp del]

definition prune_if_needed :: "agent_context \<Rightarrow> agent_context" where
  "prune_if_needed cx = prune_loop (pending_tool_call_ids cx) cx"

definition add_message :: "int \<Rightarrow> message \<Rightarrow> agent_context \<Rightarrow> agent_context" where
  "add_message now m cx =
     prune_if_needed (limit_turns
       (cx\<lparr>cx_token_count := cx_token_count cx + tokens_of m, cx_messages := cx_messages cx @ [m],
           cx_last_accessed := now\<rparr>))"

definition add_batch :: "int \<Rightarrow> message list \<Rightarrow> agent_context \<Rightarrow> agent_context" where
  "add_batch now ms cx =
     (if ms = [] then cx
      else prune_if_needed (limit_turns
             (cx\<lparr>cx_token_count := cx_token_count cx + sum_list (map tokens_of ms),
                 cx_messages := cx_messages cx @ ms, cx_last_accessed := now\<rparr>)))"


section \<open>Requests and summaries\<close>

definition state_snapshot_name :: string where
  "state_snapshot_name = ''state_snapshot''"

text \<open>The calendar day, the weekday and the offset of the zone are arguments.\<close>

definition state_snapshot_message :: "string \<Rightarrow> string \<Rightarrow> string \<Rightarrow> message" where
  "state_snapshot_message day weekday zone =
     message_user_named state_snapshot_name
       (''[state snapshot] Today is '' @ day @ '' ('' @ weekday @ ''), timezone UTC'' @ zone
        @ ''. For the exact current time, use the time tool.'')"

definition to_messages :: "message \<Rightarrow> agent_context \<Rightarrow> message list" where
  "to_messages snapshot cx = message_system (cx_system_prompt cx) # cx_messages cx @ [snapshot]"

definition clear_context :: "int \<Rightarrow> agent_context \<Rightarrow> agent_context" where
  "clear_context now cx = cx\<lparr>cx_messages := [], cx_token_count := 0, cx_last_accessed := now\<rparr>"

definition recalculate_tokens :: "agent_context \<Rightarrow> agent_context" where
  "recalculate_tokens cx = cx\<lparr>cx_token_count := sum_list (map tokens_of (cx_messages cx))\<rparr>"

definition replace_messages :: "int \<Rightarrow> message list \<Rightarrow> agent_context \<Rightarrow> agent_context" where
  "replace_messages now ms cx = (recalculate_tokens (cx\<lparr>cx_messages := ms\<rparr>))\<lparr>cx_last_accessed := now\<rparr>"

definition is_stale :: "int \<Rightarrow> int \<Rightarrow> agent_context \<Rightarrow> bool" where
  "is_stale now max_age cx \<longleftrightarrow> (if cx_last_accessed cx \<le> now then max_age < now - cx_last_accessed cx else True)"

text \<open>The loops that move a boundary forward past tool results, up to a limit.\<close>

function skip_tools :: "message list \<Rightarrow> nat \<Rightarrow> nat \<Rightarrow> nat" where
  "skip_tools ms i j = (if i < j \<and> is_tool (ms ! i) then skip_tools ms (Suc i) j else i)"
  by pat_completeness auto
termination by (relation "measure (\<lambda>(_, i, j). j - i)") auto

declare skip_tools.simps [simp del]

definition compaction_summary_name :: string where
  "compaction_summary_name = ''compaction_summary''"

definition summary_text :: "nat \<Rightarrow> string list \<Rightarrow> string" where
  "summary_text n lines =
     ''[Summary of '' @ show_nat n @ '' earlier messages]'' @ newline_str @ join_with newline_str lines"

definition turn_line :: "message \<Rightarrow> string" where
  "turn_line m = show_role (msg_role m) @ '': '' @ preview_of 200 (msg_content m)"

definition middle_summary :: "message list \<Rightarrow> message" where
  "middle_summary middle =
     (message_system (summary_text (length middle) (map turn_line (filter (\<lambda>m. msg_content m \<noteq> []) middle))))
       \<lparr>msg_name := Some compaction_summary_name\<rparr>"

definition keep_first :: nat where
  "keep_first = 2"

definition keep_last :: nat where
  "keep_last = 4"

definition summarize :: "agent_context \<Rightarrow> agent_context" where
  "summarize cx =
     (let ms = cx_messages cx; n = length ms
      in if n \<le> keep_first + keep_last + 1 then cx
         else let start0 = keep_first; end0 = n - keep_last
              in if end0 \<le> start0 then cx
                 else let middle_start = skip_tools ms start0 end0;
                          middle_end = skip_tools ms end0 n
                      in if middle_end \<le> middle_start then cx
                         else let middle = take (middle_end - middle_start) (drop middle_start ms)
                              in recalculate_tokens
                                   (cx\<lparr>cx_messages := take middle_start ms @ middle_summary middle # drop middle_end ms\<rparr>))"

section \<open>Balanced histories\<close>

text \<open>Every tool result follows the assistant message that made its call, with nothing but results between.\<close>

fun paired_from :: "string list \<Rightarrow> message list \<Rightarrow> bool" where
  "paired_from calls [] = True"
| "paired_from calls (m # ms) =
     (if is_tool m then answers_call calls m \<and> paired_from calls ms else paired_from (call_ids m) ms)"

abbreviation paired :: "message list \<Rightarrow> bool" where
  "paired ms \<equiv> paired_from [] ms"

text \<open>Every call of a message is answered in the results that follow it.\<close>

fun answered :: "message list \<Rightarrow> bool" where
  "answered [] = True"
| "answered (m # ms) =
     ((\<forall>i\<in>set (call_ids m). \<exists>r\<in>set (takeWhile is_tool ms). msg_tool_call_id r = Some i) \<and> answered ms)"

text \<open>Only the assistant makes calls.\<close>

definition calls_by_assistant :: "message list \<Rightarrow> bool" where
  "calls_by_assistant ms \<longleftrightarrow> list_all (\<lambda>m. call_ids m = [] \<or> msg_role m = Role_Assistant) ms"

definition balanced :: "message list \<Rightarrow> bool" where
  "balanced ms \<longleftrightarrow> paired ms \<and> answered ms \<and> calls_by_assistant ms"

text \<open>The token count of a context is the sum over its messages.\<close>

definition tokens_counted :: "agent_context \<Rightarrow> bool" where
  "tokens_counted cx \<longleftrightarrow> cx_token_count cx = sum_list (map tokens_of (cx_messages cx))"

text \<open>A list that does not go on with a tool result: the place where a history may be cut.\<close>

definition cuttable :: "message list \<Rightarrow> bool" where
  "cuttable ms \<longleftrightarrow> (case ms of [] \<Rightarrow> True | m # _ \<Rightarrow> \<not> is_tool m)"

lemma cuttable_simps [simp]: "cuttable []" "cuttable (m # ms) \<longleftrightarrow> \<not> is_tool m"
  by (simp_all add: cuttable_def)

lemma takeWhile_cut: "cuttable ys \<Longrightarrow> takeWhile is_tool (xs @ ys) = takeWhile is_tool xs"
  by (induction xs) (auto simp: cuttable_def takeWhile_append split: list.splits)

lemma paired_any: "cuttable ms \<Longrightarrow> paired_from c ms = paired_from d ms"
  by (cases ms) auto

lemma paired_append:
  "cuttable ys \<Longrightarrow> paired_from c (xs @ ys) \<longleftrightarrow> paired_from c xs \<and> paired ys"
proof (induction xs arbitrary: c)
  case Nil
  then show ?case using paired_any [of ys c "[]"] by simp
qed auto

lemma answered_append: "cuttable ys \<Longrightarrow> answered (xs @ ys) \<longleftrightarrow> answered xs \<and> answered ys"
  by (induction xs) (auto simp: takeWhile_cut)

lemma paired_prefix: "paired_from c (xs @ ys) \<Longrightarrow> paired_from c xs"
  by (induction xs arbitrary: c) (auto split: if_splits)

lemma calls_by_assistant_append [simp]:
  "calls_by_assistant (xs @ ys) \<longleftrightarrow> calls_by_assistant xs \<and> calls_by_assistant ys"
  by (simp add: calls_by_assistant_def)

lemma balanced_append:
  "cuttable ys \<Longrightarrow> balanced (xs @ ys) \<longleftrightarrow> balanced xs \<and> balanced ys"
  by (auto simp: balanced_def paired_append answered_append)

lemma paired_cuttable: "paired ms \<Longrightarrow> cuttable ms"
  by (cases ms) (auto simp: answers_call_def split: option.splits)

lemma answered_single: "\<not> is_tool m \<Longrightarrow> call_ids m = [] \<Longrightarrow> balanced [m]"
  by (simp add: balanced_def calls_by_assistant_def)

text \<open>Taking a message out that no result follows.\<close>

lemma balanced_drop:
  assumes "balanced (xs @ m # ys)" "\<not> is_tool m" "cuttable ys"
  shows "balanced (xs @ ys)"
proof -
  have "balanced xs" "balanced (m # ys)" using balanced_append [of "m # ys" xs] assms by auto
  moreover have "balanced ys" using balanced_append [of ys "[m]"] assms(3) \<open>balanced (m # ys)\<close> by simp
  ultimately show ?thesis using balanced_append [OF assms(3)] by simp
qed

lemma paired_drop:
  assumes "paired (xs @ m # ys)" "\<not> is_tool m" "cuttable ys"
  shows "paired (xs @ ys)"
proof -
  have "paired xs" "paired (m # ys)" using paired_append [of "m # ys" "[]" xs] assms(1,2) by auto
  then show ?thesis using paired_append [OF assms(3)] assms(2) paired_any [OF assms(3)] by auto
qed

text \<open>In a paired history a message with calls that no result names is not followed by one.\<close>

lemma uncalled_cuttable:
  assumes "paired (xs @ m # ys)" "\<not> is_tool m"
    and "\<forall>r\<in>set (filter is_tool ys). \<forall>i. msg_tool_call_id r = Some i \<longrightarrow> i \<notin> set (call_ids m)"
  shows "cuttable ys"
proof (cases ys)
  case (Cons y zs)
  have "paired (m # ys)" using paired_append [of "m # ys" "[]" xs] assms(1,2) by auto
  then show ?thesis using assms(2,3) Cons by (auto simp: answers_call_def split: option.splits)
qed simp

section \<open>Pruning keeps histories balanced\<close>

lemma set_map_filter: "set (List.map_filter f xs) = {y. \<exists>x\<in>set xs. f x = Some y}"
  by (auto simp: List.map_filter_def) force

text \<open>The ids collected at the start name every result that is still there.\<close>

definition covers :: "string list \<Rightarrow> message list \<Rightarrow> bool" where
  "covers pending ms \<longleftrightarrow> (\<forall>r\<in>set ms. is_tool r \<longrightarrow> (\<forall>i. msg_tool_call_id r = Some i \<longrightarrow> i \<in> set pending))"

lemma covers_pending: "covers (pending_tool_call_ids cx) (cx_messages cx)"
  by (auto simp: covers_def pending_tool_call_ids_def set_map_filter)

lemma covers_subset: "covers pending ms \<Longrightarrow> set ms' \<subseteq> set ms \<Longrightarrow> covers pending ms'"
  by (auto simp: covers_def)

text \<open>What one round of pruning takes out: a message that is no result and has no result.\<close>

definition removable :: "string list \<Rightarrow> message list \<Rightarrow> nat \<Rightarrow> bool" where
  "removable pending ms i \<longleftrightarrow>
     i < length ms \<and> \<not> is_tool (ms ! i) \<and> (msg_role (ms ! i) = Role_Assistant \<longrightarrow> \<not> has_pending_results pending (ms ! i))"

lemma group_is_single:
  assumes "covers pending (cx_messages cx)" "find_prunable_tool_group pending cx = Some (s, c)"
  shows "c = 1 \<and> removable pending (cx_messages cx) s"
proof -
  let ?ms = "cx_messages cx"
  obtain k where k: "k < length ?ms" "s = k" "msg_role (?ms ! k) = Role_Assistant" "\<not> has_pending_results pending (?ms ! k)"
    "c = Suc (length (takeWhile (answers_call (call_ids (?ms ! k))) (drop (Suc k) ?ms)))"
    using group_from_Some [OF assms(2) [unfolded find_prunable_tool_group_def]] by auto
  have "\<not> answers_call (call_ids (?ms ! k)) r" if "r \<in> set (drop (Suc k) ?ms)" for r
    using k(4) assms(1) in_set_dropD [OF that]
    by (auto simp: covers_def answers_call_def has_pending_results_def list_ex_iff split: option.splits)
  then have "takeWhile (answers_call (call_ids (?ms ! k))) (drop (Suc k) ?ms) = []"
    by (cases "drop (Suc k) ?ms") auto
  then show ?thesis using k by (simp add: removable_def is_tool_def)
qed

lemma message_removable:
  "find_prunable_message pending cx = Some i \<Longrightarrow> removable pending (cx_messages cx) i"
  by (auto simp: find_prunable_message_def removable_def dest!: prunable_from_Some)

text \<open>Induction over the rounds of pruning.\<close>

lemma prune_loop_induct:
  assumes "covers pending (cx_messages cx)" "P cx"
    and step: "\<And>cx i. covers pending (cx_messages cx) \<Longrightarrow> removable pending (cx_messages cx) i \<Longrightarrow> needs_pruning cx \<Longrightarrow>
      1 < length (cx_messages cx) \<Longrightarrow> P cx \<Longrightarrow> P (remove_message i cx)"
  shows "P (prune_loop pending cx)"
  using assms
proof (induction pending cx rule: prune_loop.induct)
  case (1 pending cx)
  have keep: "covers pending (cx_messages (remove_message i cx))" for i
    by (rule covers_subset [OF "1.prems"(1)]) (auto simp: remove_message_def dest: in_set_takeD in_set_dropD)
  show ?case
  proof (cases "needs_pruning cx \<and> 1 < length (cx_messages cx)")
    case True
    show ?thesis
    proof (cases "find_prunable_tool_group pending cx")
      case (Some g)
      then obtain s c where g: "find_prunable_tool_group pending cx = Some (s, c)" by (cases g) auto
      have one: "c = 1" "removable pending (cx_messages cx) s" using group_is_single [OF "1.prems"(1) g] by auto
      then have rm: "remove_group s c cx = remove_message s cx" by (simp add: remove_group_def)
      have "P (prune_loop pending (remove_message s cx))"
        using "1.IH"(2) [OF True g refl] keep "1.prems"(3) [OF "1.prems"(1) one(2)] True "1.prems"(2,3) rm by auto
      then show ?thesis using True g rm by (subst prune_loop.simps) simp
    next
      case None
      show ?thesis
      proof (cases "find_prunable_message pending cx")
        case (Some i)
        have "P (prune_loop pending (remove_message i cx))"
          using "1.IH"(1) [OF True None Some] keep "1.prems"(3) [OF "1.prems"(1) message_removable [OF Some]] True "1.prems"(2,3) by auto
        then show ?thesis using True None Some by (subst prune_loop.simps) simp
      qed (use True None "1.prems" in \<open>subst prune_loop.simps, simp\<close>)
    qed
  qed (use "1.prems"(2) in \<open>subst prune_loop.simps, auto\<close>)
qed


lemmas prune_induct = prune_loop_induct [OF covers_pending, folded prune_if_needed_def]

lemma remove_splits:
  assumes "i < length (cx_messages cx)"
  obtains xs ys where "cx_messages cx = xs @ cx_messages cx ! i # ys" "cx_messages (remove_message i cx) = xs @ ys"
proof
  show "cx_messages cx = take i (cx_messages cx) @ cx_messages cx ! i # drop (Suc i) (cx_messages cx)"
    using assms by (simp add: id_take_nth_drop)
qed (simp add: remove_message_def)

lemma remove_counted:
  assumes "tokens_counted cx" "i < length (cx_messages cx)"
  shows "tokens_counted (remove_message i cx)"
proof -
  obtain xs ys where split: "cx_messages cx = xs @ cx_messages cx ! i # ys" "cx_messages (remove_message i cx) = xs @ ys"
    using remove_splits [OF assms(2)] .
  have "sum_list (map tokens_of (cx_messages cx))
      = sum_list (map tokens_of xs) + tokens_of (cx_messages cx ! i) + sum_list (map tokens_of ys)"
    by (subst split(1)) simp
  then show ?thesis using assms(1) split(2) by (simp add: tokens_counted_def remove_message_def)
qed

lemma removable_cuttable:
  assumes "covers pending ms" "removable pending ms i" "paired ms" "calls_by_assistant ms" "ms = xs @ ms ! i # ys"
  shows "cuttable ys"
proof (rule uncalled_cuttable)
  let ?m = "ms ! i"
  show "paired (xs @ ?m # ys)" using assms(3) by (subst assms(5) [symmetric])
  show "\<not> is_tool ?m" using assms(2) by (simp add: removable_def)
  have "\<not> has_pending_results pending ?m"
  proof (cases "msg_role ?m = Role_Assistant")
    case False
    have "?m \<in> set ms" using assms(2) by (simp add: removable_def)
    then have "call_ids ?m = []" using assms(4) False by (auto simp: calls_by_assistant_def list_all_iff)
    then show ?thesis by (simp add: has_pending_results_def)
  qed (use assms(2) in \<open>simp add: removable_def\<close>)
  moreover have "set ys \<subseteq> set ms" by (subst assms(5)) auto
  ultimately show "\<forall>r\<in>set (filter is_tool ys). \<forall>j. msg_tool_call_id r = Some j \<longrightarrow> j \<notin> set (call_ids ?m)"
    using assms(1) by (auto simp: covers_def has_pending_results_def list_ex_iff)
qed

lemma remove_balanced:
  assumes "covers pending (cx_messages cx)" "removable pending (cx_messages cx) i" "balanced (cx_messages cx)"
  shows "balanced (cx_messages (remove_message i cx))"
proof -
  let ?ms = "cx_messages cx"
  have "i < length ?ms" "\<not> is_tool (?ms ! i)" using assms(2) by (auto simp: removable_def)
  then obtain xs ys where split: "?ms = xs @ ?ms ! i # ys" "cx_messages (remove_message i cx) = xs @ ys"
    using remove_splits by blast
  have "cuttable ys"
    using removable_cuttable [OF assms(1,2) _ _ split(1)] assms(3) by (simp add: balanced_def)
  then show ?thesis using balanced_drop [of xs "?ms ! i" ys] assms(3) split \<open>\<not> is_tool _\<close> by simp
qed

lemma remove_paired:
  assumes "covers pending (cx_messages cx)" "removable pending (cx_messages cx) i"
    and "paired (cx_messages cx)" "calls_by_assistant (cx_messages cx)"
  shows "paired (cx_messages (remove_message i cx)) \<and> calls_by_assistant (cx_messages (remove_message i cx))"
proof -
  let ?ms = "cx_messages cx"
  have "i < length ?ms" "\<not> is_tool (?ms ! i)" using assms(2) by (auto simp: removable_def)
  then obtain xs ys where split: "?ms = xs @ ?ms ! i # ys" "cx_messages (remove_message i cx) = xs @ ys"
    using remove_splits by blast
  have "calls_by_assistant (xs @ ys)" using assms(4) split(1)
    by (metis append_Cons append_Nil calls_by_assistant_append)
  then show ?thesis
    using paired_drop [of xs "?ms ! i" ys] removable_cuttable [OF assms split(1)] assms(3) split \<open>\<not> is_tool _\<close> by simp
qed

lemma prune_balanced: "balanced (cx_messages cx) \<Longrightarrow> balanced (cx_messages (prune_if_needed cx))"
  by (rule prune_induct [where P = "\<lambda>cx. balanced (cx_messages cx)"]) (auto intro: remove_balanced)

lemma prune_paired:
  assumes "paired (cx_messages cx)" "calls_by_assistant (cx_messages cx)"
  shows "paired (cx_messages (prune_if_needed cx)) \<and> calls_by_assistant (cx_messages (prune_if_needed cx))"
  by (rule prune_induct [where P = "\<lambda>cx. paired (cx_messages cx) \<and> calls_by_assistant (cx_messages cx)"])
    (use assms remove_paired in auto)

lemma prune_counted: "tokens_counted cx \<Longrightarrow> tokens_counted (prune_if_needed cx)"
  by (rule prune_induct [where P = tokens_counted]) (auto intro: remove_counted simp: removable_def)

lemma filter_tool_remove:
  assumes "i < length (cx_messages cx)" "\<not> is_tool (cx_messages cx ! i)"
  shows "filter is_tool (cx_messages (remove_message i cx)) = filter is_tool (cx_messages cx)"
proof -
  obtain xs ys where split: "cx_messages cx = xs @ cx_messages cx ! i # ys" "cx_messages (remove_message i cx) = xs @ ys"
    using remove_splits [OF assms(1)] .
  have "filter is_tool (cx_messages cx) = filter is_tool (xs @ ys)" by (subst split(1)) (simp add: assms(2))
  then show ?thesis using split(2) by simp
qed

lemma prune_keeps_results:
  "filter is_tool (cx_messages (prune_if_needed cx)) = filter is_tool (cx_messages cx)"
  by (rule prune_induct [where P = "\<lambda>c. filter is_tool (cx_messages c) = filter is_tool (cx_messages cx)"])
    (auto simp: removable_def filter_tool_remove)

text \<open>Pruning and the limit of turns touch the messages and their count only.\<close>

definition same_settings :: "agent_context \<Rightarrow> agent_context \<Rightarrow> bool" where
  "same_settings a b \<longleftrightarrow>
     a\<lparr>cx_messages := [], cx_token_count := 0, cx_last_accessed := 0\<rparr>
       = b\<lparr>cx_messages := [], cx_token_count := 0, cx_last_accessed := 0\<rparr>"

lemma same_settings_refl [simp]: "same_settings a a"
  by (simp add: same_settings_def)

lemma same_settings_trans: "same_settings a b \<Longrightarrow> same_settings b c \<Longrightarrow> same_settings a c"
  by (simp add: same_settings_def)

lemma same_settingsD:
  assumes "same_settings a b"
  shows "cx_id a = cx_id b" "cx_system_prompt a = cx_system_prompt b" "cx_max_tokens a = cx_max_tokens b"
    "cx_tool_iterations a = cx_tool_iterations b" "cx_max_tool_iterations a = cx_max_tool_iterations b"
    "cx_executed_tool_calls a = cx_executed_tool_calls b" "cx_tools_used a = cx_tools_used b"
    "cx_max_turns a = cx_max_turns b" "cx_delegation a = cx_delegation b"
  by (use assms in \<open>cases a; cases b; simp add: same_settings_def\<close>)+

lemma same_settings_remove [simp]: "same_settings (remove_message i cx) cx"
  by (simp add: same_settings_def remove_message_def)

lemma same_settings_prune [simp]: "same_settings (prune_if_needed cx) cx"
  by (rule prune_induct [where P = "\<lambda>c. same_settings c cx"]) (auto intro: same_settings_trans [OF same_settings_remove])

lemma same_settings_limit_loop: "same_settings (limit_loop n cx) cx"
proof (induction n cx rule: limit_loop.induct)
  case (1 n cx)
  have "same_settings (drop_turn i cx) cx" for i
    using same_settings_trans [OF same_settings_remove same_settings_remove] by (simp add: drop_turn_def Let_def)
  then show ?case using 1 same_settings_trans
    by (subst limit_loop.simps) (auto split: option.split)
qed

lemma same_settings_limit_turns [simp]: "same_settings (limit_turns cx) cx"
  by (simp add: limit_turns_def same_settings_limit_loop split: option.split)

lemma limit_loop_counted: "tokens_counted cx \<Longrightarrow> tokens_counted (limit_loop n cx)"
proof (induction n cx rule: limit_loop.induct)
  case (1 n cx)
  have "tokens_counted (drop_turn i cx)" if "i < length (cx_messages cx)" for i
    using remove_counted [OF "1.prems" that] by (auto simp: drop_turn_def Let_def intro: remove_counted)
  then have "tokens_counted (limit_loop n (drop_turn i cx))" if "\<not> user_count cx \<le> n" "position_of is_user (cx_messages cx) = Some i" for i
    using 1 that position_of_Some [OF that(2)] by blast
  then show ?case using "1.prems" by (subst limit_loop.simps) (auto split: option.split)
qed

lemma limit_turns_counted: "tokens_counted cx \<Longrightarrow> tokens_counted (limit_turns cx)"
  by (simp add: limit_turns_def limit_loop_counted split: option.split)

lemma limit_turns_none: "cx_max_turns cx = None \<Longrightarrow> limit_turns cx = cx"
  by (simp add: limit_turns_def)

lemma skip_tools_le: "i \<le> j \<Longrightarrow> i \<le> skip_tools ms i j \<and> skip_tools ms i j \<le> j"
proof (induction ms i j rule: skip_tools.induct)
  case (1 ms i j)
  then show ?case by (subst (1 2) skip_tools.simps) auto
qed

lemma skip_tools_stop: "skip_tools ms i j < j \<Longrightarrow> \<not> is_tool (ms ! skip_tools ms i j)"
proof (induction ms i j rule: skip_tools.induct)
  case (1 ms i j)
  then show ?case by (cases "i < j \<and> is_tool (ms ! i)") (auto simp: skip_tools.simps [of ms i j])
qed

lemma skip_tools_all: "i \<le> k \<Longrightarrow> k < skip_tools ms i j \<Longrightarrow> is_tool (ms ! k)"
proof (induction ms i j rule: skip_tools.induct)
  case (1 ms i j)
  show ?case
  proof (cases "i < j \<and> is_tool (ms ! i)")
    case True
    then show ?thesis using 1 by (cases "i = k") (simp_all add: skip_tools.simps [of ms i j])
  next
    case False
    then have "skip_tools ms i j = i" by (subst skip_tools.simps) auto
    then show ?thesis using "1.prems" by simp
  qed
qed

lemma cuttable_drop_skip: "i \<le> length ms \<Longrightarrow> cuttable (drop (skip_tools ms i (length ms)) ms)"
  using skip_tools_stop [of ms i "length ms"] skip_tools_le [of i "length ms" ms]
  by (cases "skip_tools ms i (length ms) < length ms") (simp_all add: Cons_nth_drop_Suc [symmetric])

text \<open>Replacing a stretch of the history by a message without calls.\<close>

lemma cut_paired:
  assumes "paired ms" "cuttable (drop b ms)" "a \<le> b" "\<not> is_tool s" "call_ids s = []"
  shows "paired (take a ms @ s # drop b ms)"
proof -
  have "paired (take a ms)" using assms(1) paired_prefix [of "[]" "take a ms" "drop a ms"] by simp
  moreover have "paired (drop b ms)" using assms(1,2) paired_append [of "drop b ms" "[]" "take b ms"] by simp
  ultimately show ?thesis using paired_append [of "s # drop b ms" "[]" "take a ms"] assms(4,5) by simp
qed

lemma cut_balanced:
  assumes "balanced ms" "cuttable (drop a ms)" "cuttable (drop b ms)" "\<not> is_tool s" "call_ids s = []"
  shows "balanced (take a ms @ s # drop b ms)"
proof -
  have "balanced (take a ms)" using assms(1,2) balanced_append [of "drop a ms" "take a ms"] by simp
  moreover have "balanced (drop b ms)" using assms(1,3) balanced_append [of "drop b ms" "take b ms"] by simp
  ultimately have "balanced ((take a ms @ [s]) @ drop b ms)"
    using balanced_append [OF assms(3), of "take a ms @ [s]"] balanced_append [of "[s]" "take a ms"]
      answered_single assms(4,5) by simp
  then show ?thesis by simp
qed


section \<open>What the operations keep\<close>

lemma add_batch_eq:
  "ms \<noteq> [] \<Longrightarrow> add_batch now ms cx = prune_if_needed (limit_turns
     (cx\<lparr>cx_token_count := cx_token_count cx + sum_list (map tokens_of ms),
         cx_messages := cx_messages cx @ ms, cx_last_accessed := now\<rparr>))"
  by (simp add: add_batch_def)

lemma add_message_batch: "add_message now m cx = add_batch now [m] cx"
  by (simp add: add_message_def add_batch_def)

lemma add_batch_counted: "tokens_counted cx \<Longrightarrow> tokens_counted (add_batch now ms cx)"
  by (cases "ms = []")
    (auto simp: add_batch_def tokens_counted_def intro!: prune_counted [unfolded tokens_counted_def] limit_turns_counted [unfolded tokens_counted_def])

lemma add_batch_settings: "same_settings (add_batch now ms cx) cx"
proof (cases "ms = []")
  case False
  let ?c = "cx\<lparr>cx_token_count := cx_token_count cx + sum_list (map tokens_of ms),
      cx_messages := cx_messages cx @ ms, cx_last_accessed := now\<rparr>"
  have "same_settings (prune_if_needed (limit_turns ?c)) ?c"
    using same_settings_trans [OF same_settings_prune same_settings_limit_turns] .
  moreover have "same_settings ?c cx" by (simp add: same_settings_def)
  ultimately show ?thesis unfolding add_batch_eq [OF False] by (rule same_settings_trans)
qed (simp add: add_batch_def)

text \<open>Without a limit of turns, adding a balanced batch keeps the history balanced.\<close>

lemma add_batch_balanced:
  assumes "cx_max_turns cx = None" "balanced (cx_messages cx)" "balanced ms"
  shows "balanced (cx_messages (add_batch now ms cx))"
proof (cases "ms = []")
  case False
  have "cuttable ms" using assms(3) by (intro paired_cuttable) (simp add: balanced_def)
  then have "balanced (cx_messages cx @ ms)" using balanced_append assms(2,3) by simp
  then show ?thesis using False assms(1) by (simp add: add_batch_eq limit_turns_none prune_balanced)
qed (simp add: add_batch_def assms(2))

lemma add_batch_paired:
  assumes "cx_max_turns cx = None" "paired (cx_messages cx)" "calls_by_assistant (cx_messages cx)" "balanced ms"
  shows "paired (cx_messages (add_batch now ms cx)) \<and> calls_by_assistant (cx_messages (add_batch now ms cx))"
proof (cases "ms = []")
  case False
  have ms: "paired ms" "calls_by_assistant ms" using assms(4) by (simp_all add: balanced_def)
  have "paired (cx_messages cx @ ms)" "calls_by_assistant (cx_messages cx @ ms)"
    using paired_append [OF paired_cuttable [OF ms(1)]] assms(2,3) ms by simp_all
  then show ?thesis using False assms(1) prune_paired by (simp add: add_batch_eq limit_turns_none)
qed (simp add: add_batch_def assms(2,3))

lemma replace_messages_simps [simp]:
  "cx_messages (replace_messages now ms cx) = ms"
  "tokens_counted (replace_messages now ms cx)"
  "same_settings (replace_messages now ms cx) cx"
  by (simp_all add: replace_messages_def recalculate_tokens_def tokens_counted_def same_settings_def)

lemma middle_summary_simps [simp]: "\<not> is_tool (middle_summary ms)" "call_ids (middle_summary ms) = []"
  by (simp_all add: middle_summary_def message_system_def plain_message_def is_tool_def call_ids_def)

lemma summarize_cases:
  assumes "P cx"
    and "\<And>a b. a \<le> b \<Longrightarrow> a = skip_tools (cx_messages cx) keep_first (length (cx_messages cx) - keep_last) \<Longrightarrow>
      b = skip_tools (cx_messages cx) (length (cx_messages cx) - keep_last) (length (cx_messages cx)) \<Longrightarrow>
      keep_first + keep_last < length (cx_messages cx) \<Longrightarrow>
      P (recalculate_tokens (cx\<lparr>cx_messages := take a (cx_messages cx)
           @ middle_summary (take (b - a) (drop a (cx_messages cx))) # drop b (cx_messages cx)\<rparr>))"
  shows "P (summarize cx)"
  unfolding summarize_def Let_def using assms by auto

text \<open>The boundaries of a summary: the tail never starts with a result, and the head never ends in the middle
  of results unless results fill the whole stretch that was to be summarised.\<close>

lemma snapped_bounds:
  assumes "s \<le> e" "e \<le> length ms"
  shows "skip_tools ms s e \<le> skip_tools ms e (length ms)" "cuttable (drop (skip_tools ms e (length ms)) ms)"
    and "\<exists>k\<in>{s..<e}. \<not> is_tool (ms ! k) \<Longrightarrow> cuttable (drop (skip_tools ms s e) ms)"
proof -
  show "skip_tools ms s e \<le> skip_tools ms e (length ms)"
    using skip_tools_le [OF assms(1)] skip_tools_le [OF assms(2)] by (meson order_trans)
  show "cuttable (drop (skip_tools ms e (length ms)) ms)" using assms(2) by (rule cuttable_drop_skip)
next
  assume "\<exists>k\<in>{s..<e}. \<not> is_tool (ms ! k)"
  then obtain k where k: "s \<le> k" "k < e" "\<not> is_tool (ms ! k)" by auto
  have "skip_tools ms s e \<le> k" using skip_tools_all [OF k(1)] k(3) not_less by blast
  then have lt: "skip_tools ms s e < e" using k(2) by simp
  then show "cuttable (drop (skip_tools ms s e) ms)"
    using skip_tools_stop [OF lt] assms(2) by (simp add: Cons_nth_drop_Suc [symmetric])
qed

lemma summarize_paired:
  assumes "paired (cx_messages cx)" "calls_by_assistant (cx_messages cx)"
  shows "paired (cx_messages (summarize cx)) \<and> calls_by_assistant (cx_messages (summarize cx))"
proof (rule summarize_cases)
  fix a b
  assume ab: "a \<le> b" and b: "b = skip_tools (cx_messages cx) (length (cx_messages cx) - keep_last) (length (cx_messages cx))"
  let ?ms = "cx_messages cx"
  have "paired (take a ?ms @ middle_summary (take (b - a) (drop a ?ms)) # drop b ?ms)"
    using assms(1) _ ab by (rule cut_paired) (simp_all add: b cuttable_drop_skip)
  moreover have "calls_by_assistant (take a ?ms @ middle_summary (take (b - a) (drop a ?ms)) # drop b ?ms)"
    using assms(2) by (auto simp: calls_by_assistant_def list_all_iff dest: in_set_takeD in_set_dropD)
  ultimately show "paired (cx_messages (recalculate_tokens (cx\<lparr>cx_messages := take a ?ms
      @ middle_summary (take (b - a) (drop a ?ms)) # drop b ?ms\<rparr>)))
    \<and> calls_by_assistant (cx_messages (recalculate_tokens (cx\<lparr>cx_messages := take a ?ms
      @ middle_summary (take (b - a) (drop a ?ms)) # drop b ?ms\<rparr>)))"
    by (simp add: recalculate_tokens_def)
qed (use assms in simp)

lemma summarize_counted: "tokens_counted cx \<Longrightarrow> tokens_counted (summarize cx)"
  by (rule summarize_cases [where P = tokens_counted]) (auto simp: tokens_counted_def recalculate_tokens_def)

lemma summarize_settings: "same_settings (summarize cx) cx"
  by (rule summarize_cases [where P = "\<lambda>c. same_settings c cx"]) (auto simp: same_settings_def recalculate_tokens_def)

section \<open>Pruning of plain conversations\<close>

definition plain_history :: "message list \<Rightarrow> bool" where
  "plain_history ms \<longleftrightarrow> list_all (\<lambda>m. \<not> is_tool m \<and> msg_tool_calls m = None) ms"

lemma plain_group_none:
  "plain_history ms \<Longrightarrow> group_from pending n i ms = None"
  by (induction ms arbitrary: i) (auto simp: plain_history_def call_ids_def)

lemma plain_prunable:
  assumes "plain_history (cx_messages cx)" "1 < length (cx_messages cx)"
  shows "find_prunable_tool_group pending cx = None" "find_prunable_message pending cx = Some 0"
proof -
  show "find_prunable_tool_group pending cx = None"
    using assms(1) by (simp add: find_prunable_tool_group_def plain_group_none)
  obtain m ms where ms: "cx_messages cx = m # ms" using assms(2) by (cases "cx_messages cx") auto
  have "\<not> list_ex (\<lambda>m. msg_tool_calls m \<noteq> None) (cx_messages cx)"
    using assms(1) by (auto simp: plain_history_def list_ex_iff list_all_iff)
  then show "find_prunable_message pending cx = Some 0"
    using assms ms by (simp add: find_prunable_message_def plain_history_def has_pending_results_def call_ids_def)
qed

lemma plain_prune_loop:
  assumes "plain_history (cx_messages cx)" "tokens_counted cx"
  shows "\<exists>k. cx_messages (prune_loop pending cx) = drop k (cx_messages cx)
    \<and> (needs_pruning (prune_loop pending cx) \<longrightarrow> length (cx_messages (prune_loop pending cx)) \<le> 1)
    \<and> (\<forall>j<k. cx_max_tokens cx < sum_list (map tokens_of (drop j (cx_messages cx))) + length (cx_system_prompt cx) div 4)"
  using assms
proof (induction "length (cx_messages cx)" arbitrary: cx)
  case 0
  then show ?case by (intro exI [of _ 0]) (simp add: prune_loop.simps)
next
  case (Suc n)
  show ?case
  proof (cases "needs_pruning cx \<and> 1 < length (cx_messages cx)")
    case True
    let ?c = "remove_message 0 cx"
    have step: "prune_loop pending cx = prune_loop pending ?c"
      using True plain_prunable [OF Suc.prems(1)] by (subst prune_loop.simps) simp
    have ms: "cx_messages ?c = drop 1 (cx_messages cx)" by (simp add: remove_message_def)
    have over: "cx_max_tokens cx < sum_list (map tokens_of (cx_messages cx)) + length (cx_system_prompt cx) div 4"
      using True Suc.prems(2) by (simp add: needs_pruning_def token_count_def tokens_counted_def)
    have "0 < length (cx_messages cx)" using True by linarith
    then have "tokens_counted ?c" by (rule remove_counted [OF Suc.prems(2)])
    moreover have "n = length (cx_messages ?c)" "plain_history (cx_messages ?c)"
      using Suc.hyps(2) Suc.prems(1) by (auto simp: ms plain_history_def list_all_iff dest: in_set_dropD)
    ultimately obtain k where k: "cx_messages (prune_loop pending ?c) = drop k (cx_messages ?c)"
      "needs_pruning (prune_loop pending ?c) \<longrightarrow> length (cx_messages (prune_loop pending ?c)) \<le> 1"
      "\<forall>j<k. cx_max_tokens ?c < sum_list (map tokens_of (drop j (cx_messages ?c))) + length (cx_system_prompt ?c) div 4"
      using Suc.hyps(1) [of ?c] by blast
    have "cx_max_tokens cx < sum_list (map tokens_of (drop j (cx_messages cx))) + length (cx_system_prompt cx) div 4"
      if "j < Suc k" for j
      using that over k(3) by (cases j) (auto simp: ms remove_message_def)
    then show ?thesis using k(1,2) by (intro exI [of _ "Suc k"]) (simp add: step ms)
  next
    case False
    then have "prune_loop pending cx = cx" by (subst prune_loop.simps) auto
    then show ?thesis using False by (intro exI [of _ 0]) auto
  qed
qed

text \<open>In a conversation without tools, adding a message keeps a suffix of the history with it: the oldest messages
  are dropped one by one only while the rest is over the token limit, and what is left is within the limit or a
  single message.\<close>

theorem plain_window_is_longest_suffix:
  fixes m :: message and now :: int
  assumes "plain_history (cx_messages cx)" "\<not> is_tool m" "msg_tool_calls m = None" "tokens_counted cx" "cx_max_turns cx = None"
  defines "history \<equiv> cx_messages cx @ [m]" and "cx' \<equiv> add_message now m cx"
  shows "\<exists>k. cx_messages cx' = drop k history \<and> (needs_pruning cx' \<longrightarrow> length (cx_messages cx') \<le> 1)
    \<and> (\<forall>j<k. cx_max_tokens cx < sum_list (map tokens_of (drop j history)) + length (cx_system_prompt cx) div 4)"
proof -
  let ?c = "cx\<lparr>cx_token_count := cx_token_count cx + tokens_of m, cx_messages := cx_messages cx @ [m], cx_last_accessed := now\<rparr>"
  have "plain_history (cx_messages ?c)" "tokens_counted ?c"
    using assms(1-4) by (simp_all add: plain_history_def tokens_counted_def)
  note plain_prune_loop [OF this, of "pending_tool_call_ids ?c"]
  moreover have "cx' = prune_loop (pending_tool_call_ids ?c) ?c"
    using assms(5) by (simp add: cx'_def add_message_def limit_turns_none prune_if_needed_def)
  ultimately show ?thesis by (simp add: history_def)
qed

definition sample_context :: agent_context where
  "sample_context = new_context 0 ''c'' ''be'' 2"

theorem plain_window_is_longest_suffix_witness:
  "\<exists>k. cx_messages (add_message 1 (message_user ''hello there'') sample_context)
      = drop k (cx_messages sample_context @ [message_user ''hello there''])"
  using plain_window_is_longest_suffix [of sample_context "message_user ''hello there''" 1]
  by (auto simp: sample_context_def new_context_def plain_history_def tokens_counted_def message_user_def plain_message_def is_tool_def)

section \<open>Departures from the documentation\<close>

definition sample_call :: "string \<Rightarrow> tool_call" where
  "sample_call i = \<lparr>tc_id = i, tc_call_type = ''function'', tc_function = \<lparr>fc_name = ''shell'', fc_arguments = ''{}''\<rparr>,
     tc_index = None, tc_result = None\<rparr>"

definition sample_asking :: "string list \<Rightarrow> message" where
  "sample_asking ids = with_tool_calls (message_assistant []) (map sample_call ids)"

lemmas sample_messages = message_user_def message_assistant_def message_system_def message_tool_def plain_message_def
  sample_asking_def with_tool_calls_def is_user_def is_tool_def sample_call_def call_ids_def

text \<open>The limit of turns removes a user message and the assistant message behind it, and leaves the results of
  the calls that message made.\<close>

lemma turn_limit_orphans_results:
  defines "history \<equiv> [message_user ''a'', sample_asking [''1''], message_tool ''r'' ''1'', message_assistant ''b'', message_user ''c'']"
  defines "cx \<equiv> (with_max_turns 1 (new_context 0 ''x'' [] 100))\<lparr>cx_messages := history\<rparr>"
  shows "balanced history"
    and "cx_messages (limit_turns cx) = [message_tool ''r'' ''1'', message_assistant ''b'', message_user ''c'']"
    and "\<not> paired (cx_messages (limit_turns cx))"
proof -
  show "balanced history"
    by (simp add: history_def sample_messages balanced_def answers_call_def calls_by_assistant_def)
  show limited: "cx_messages (limit_turns cx) = [message_tool ''r'' ''1'', message_assistant ''b'', message_user ''c'']"
    by (simp add: cx_def history_def limit_turns_def with_max_turns_def limit_loop.simps user_count_def sample_messages
        drop_turn_def remove_message_def)
  show "\<not> paired (cx_messages (limit_turns cx))"
    by (simp add: limited sample_messages answers_call_def)
qed

text \<open>A stretch made of the results of one message is cut in the middle: the message with the calls stays, and most of the
  results go into the summary.\<close>

lemma summary_splits_results:
  defines "history \<equiv> message_user ''a'' # sample_asking [''1'', ''2'', ''3'', ''4'', ''5'', ''6'']
      # map (message_tool ''r'') [''1'', ''2'', ''3'', ''4'', ''5'', ''6'']"
  defines "cx \<equiv> (new_context 0 ''x'' [] 100)\<lparr>cx_messages := history\<rparr>"
  shows "balanced history" "paired (cx_messages (summarize cx))" "\<not> answered (cx_messages (summarize cx))"
proof -
  show bal: "balanced history"
    by (simp add: history_def sample_messages balanced_def answers_call_def calls_by_assistant_def)
  show "paired (cx_messages (summarize cx))"
    using summarize_paired [of cx] bal by (simp add: balanced_def cx_def)
  have "answered (cx_messages (summarize cx)) = False"
    by (simp add: cx_def summarize_def keep_first_def keep_last_def history_def skip_tools.simps sample_messages
        recalculate_tokens_def middle_summary_def)
  then show "\<not> answered (cx_messages (summarize cx))" by simp
qed

text \<open>The limit for tool rounds lies between ten and thirty unless the environment sets it.\<close>

lemma dynamic_limit_bounds: "10 \<le> calculate_dynamic_limit None body \<and> calculate_dynamic_limit None body \<le> 30"
  by (simp add: calculate_dynamic_limit_def Let_def)

end
