(* ===== verification/Context_Compressor.thy ===== *)
theory Context_Compressor
  imports Conversation "HOL-Library.Product_Lexorder" "HOL-Library.Sublist" "HOL-Library.Multiset"
begin

text \<open>
  The compression of histories (\<open>agent/compressor.rs\<close>) and where the agent uses it: the compaction before and
  after a refused request (\<open>agent/engine/completion.rs\<close>) and the compaction on demand
  (\<open>compact_context\<close> of \<open>agent/agent_lifecycle.rs\<close>). The model that writes summaries is a function from the prompt
  to its answer, with \<open>None\<close> for an error. A panic of \<open>Vec::insert\<close> is \<open>None\<close>.

  Token estimates go through 32-bit floating point numbers. A conversion rounds to 24 significant bits, half to
  even (\<open>f32_round\<close>); the factor 0.25 is exact, and 1.2 is the number \<open>10066330 / 2 ^ 23\<close>.
\<close>

section \<open>Estimates\<close>

function f32_ulp :: "int \<Rightarrow> int" where
  "f32_ulp n = (if n < 2 ^ 24 then 1 else 2 * f32_ulp (n div 2))"
  by pat_completeness auto
termination by (relation "measure nat") auto

declare f32_ulp.simps [simp del]

definition f32_round :: "int \<Rightarrow> int" where
  "f32_round n =
     (let u = f32_ulp n; q = n div u; r = n mod u
      in if 2 * r < u \<or> (2 * r = u \<and> even q) then q * u else (q + 1) * u)"

definition quarter :: "nat \<Rightarrow> nat" where
  "quarter n = nat (f32_round (int n) div 4)"

definition estimated_tokens :: "message \<Rightarrow> nat" where
  "estimated_tokens m = quarter (length (msg_content m)) + 4"

definition estimate_tokens :: "message list \<Rightarrow> nat" where
  "estimate_tokens ms = sum_list (map estimated_tokens ms)"

section \<open>Priorities\<close>

datatype message_priority = Priority_Low | Priority_Normal | Priority_High | Priority_Critical

primrec priority_rank :: "message_priority \<Rightarrow> nat" where
  "priority_rank Priority_Low = 0"
| "priority_rank Priority_Normal = 1"
| "priority_rank Priority_High = 2"
| "priority_rank Priority_Critical = 3"

instantiation message_priority :: linorder
begin

definition less_eq_message_priority :: "message_priority \<Rightarrow> message_priority \<Rightarrow> bool" where
  "less_eq_message_priority a b \<longleftrightarrow> priority_rank a \<le> priority_rank b"

definition less_message_priority :: "message_priority \<Rightarrow> message_priority \<Rightarrow> bool" where
  "less_message_priority a b \<longleftrightarrow> priority_rank a < priority_rank b"

instance
proof
  fix x y :: message_priority
  show "x = y" if "x \<le> y" "y \<le> x"
    using that by (cases x; cases y) (simp_all add: less_eq_message_priority_def)
qed (auto simp: less_eq_message_priority_def less_message_priority_def)

end

record prioritized_message =
  pm_message :: message
  pm_priority :: message_priority
  pm_index :: nat
  pm_summarized :: bool

definition recent_threshold :: nat where
  "recent_threshold = 4"

definition calculate_priority :: "message \<Rightarrow> nat \<Rightarrow> nat \<Rightarrow> message_priority" where
  "calculate_priority m index n_messages =
     (if n_messages - recent_threshold \<le> index then Priority_High
      else case msg_role m of
             Role_System \<Rightarrow> Priority_Critical
           | Role_Tool \<Rightarrow> Priority_High
           | Role_Assistant \<Rightarrow>
               (if str_contains (msg_content m) ''Task'' \<or> str_contains (msg_content m) ''todo'' then Priority_High
                else Priority_Normal)
           | Role_User \<Rightarrow> (if n_messages - recent_threshold \<le> index then Priority_High else Priority_Low))"

definition prioritize :: "message \<Rightarrow> nat \<Rightarrow> nat \<Rightarrow> prioritized_message" where
  "prioritize m index n_messages =
     \<lparr>pm_message = m, pm_priority = calculate_priority m index n_messages, pm_index = index, pm_summarized = False\<rparr>"

section \<open>Strategies\<close>

datatype compression_strategy = Oldest_First | Summarize | Sliding_Window

record context_compressor =
  cc_target_tokens :: nat
  cc_compression_threshold :: nat
  cc_strategy :: compression_strategy

definition new_compressor :: "nat \<Rightarrow> context_compressor" where
  "new_compressor target =
     \<lparr>cc_target_tokens = target,
      cc_compression_threshold = nat (f32_round (f32_round (int target) * 10066330) div 2 ^ 23),
      cc_strategy = Oldest_First\<rparr>"

definition with_strategy :: "compression_strategy \<Rightarrow> context_compressor \<Rightarrow> context_compressor" where
  "with_strategy s c = c\<lparr>cc_strategy := s\<rparr>"

definition needs_compression :: "context_compressor \<Rightarrow> message list \<Rightarrow> bool" where
  "needs_compression c ms \<longleftrightarrow> cc_compression_threshold c < estimate_tokens ms"

fun select_messages :: "nat \<Rightarrow> nat \<Rightarrow> prioritized_message list \<Rightarrow> prioritized_message list" where
  "select_messages target used [] = []"
| "select_messages target used (p # ps) =
     (let tokens = estimated_tokens (pm_message p)
      in if used + tokens \<le> target \<or> pm_priority p = Priority_Critical
         then p # select_messages target (used + tokens) ps
         else select_messages target used ps)"

definition prioritized :: "message list \<Rightarrow> prioritized_message list" where
  "prioritized ms = map (\<lambda>(i, m). prioritize m i (length ms)) (enumerate 0 ms)"

definition by_priority :: "prioritized_message list \<Rightarrow> prioritized_message list" where
  "by_priority ps = sort_key (\<lambda>p. (- int (priority_rank (pm_priority p)), - int (pm_index p))) ps"

definition compress_oldest_first :: "context_compressor \<Rightarrow> message list \<Rightarrow> message list" where
  "compress_oldest_first c ms =
     map pm_message (sort_key pm_index (select_messages (cc_target_tokens c) 0 (by_priority (prioritized ms))))"

text \<open>The digest of the summarised messages: requests and replies, shortened.\<close>

fun digest :: "message list \<Rightarrow> string list" where
  "digest [] = []"
| "digest (m # ms) =
     (case msg_role m of
        Role_User \<Rightarrow>
          (''Q: '' @ preview_of 150 (msg_content m)) #
          (case ms of
             r # rs \<Rightarrow>
               (if msg_role r = Role_Assistant then (''A: '' @ preview_of 250 (msg_content r)) # digest rs
                else digest (r # rs))
           | [] \<Rightarrow> [])
      | Role_Assistant \<Rightarrow> (''A: '' @ preview_of 250 (msg_content m)) # digest ms
      | _ \<Rightarrow> digest ms)"

definition create_summary :: "message list \<Rightarrow> message" where
  "create_summary ms =
     (message_system (''[Summary of '' @ show_nat (length ms) @ '' previous messages]'' @ newline_str
        @ join_with newline_str (digest (filter (\<lambda>m. msg_content m \<noteq> []) ms))))
       \<lparr>msg_name := Some ''summary''\<rparr>"

definition keep_tail :: nat where
  "keep_tail = 4"

definition compress_summarize :: "message list \<Rightarrow> message list option" where
  "compress_summarize ms =
     (let tail_start = skip_tools ms (length ms - keep_tail) (length ms);
          keep = (\<lambda>(i, m). msg_role m = Role_System \<or> tail_start \<le> i);
          result = map snd (filter keep (enumerate 0 ms));
          to_summarize = map snd (filter (\<lambda>p. \<not> keep p) (enumerate 0 ms))
      in if to_summarize = [] then Some result
         else case result of
                [] \<Rightarrow> None
              | m # rest \<Rightarrow> Some (m # create_summary to_summarize # rest))"

fun window_from :: "nat \<Rightarrow> nat \<Rightarrow> message list \<Rightarrow> message list" where
  "window_from available used [] = []"
| "window_from available used (m # ms) =
     (if used + estimated_tokens m \<le> available then m # window_from available (used + estimated_tokens m) ms
      else [])"

definition is_system :: "message \<Rightarrow> bool" where
  "is_system m \<longleftrightarrow> msg_role m = Role_System"

definition compress_sliding_window :: "context_compressor \<Rightarrow> message list \<Rightarrow> message list" where
  "compress_sliding_window c ms =
     (let system_messages = filter is_system ms;
          system_tokens = sum_list (map (\<lambda>m. quarter (length (msg_content m))) system_messages);
          available = cc_target_tokens c - system_tokens;
          recent = rev (window_from available 0 (filter (\<lambda>m. \<not> is_system m) (rev ms)));
          first_kept = (case position_of (\<lambda>m. \<not> is_tool m) recent of Some i \<Rightarrow> i | None \<Rightarrow> length recent)
      in system_messages @ drop first_kept recent)"

definition compress :: "context_compressor \<Rightarrow> message list \<Rightarrow> message list option" where
  "compress c ms =
     (if estimate_tokens ms \<le> cc_target_tokens c then Some ms
      else case cc_strategy c of
             Oldest_First \<Rightarrow> Some (compress_oldest_first c ms)
           | Summarize \<Rightarrow> compress_summarize ms
           | Sliding_Window \<Rightarrow> Some (compress_sliding_window c ms))"

section \<open>Summaries by a model\<close>

definition transcript :: "message list \<Rightarrow> string" where
  "transcript mid =
     join_with newline_str
       (map (\<lambda>m. show_role (msg_role m) @ '': '' @ take_chars 400 (msg_content m))
          (filter (\<lambda>m. msg_content m \<noteq> []) mid))"

definition summary_prompt :: "message list \<Rightarrow> string" where
  "summary_prompt mid =
     ''Summarise the following conversation excerpt in '' @ [CHR 0xE2, CHR 0x89, CHR 0xA4]
     @ ''150 words, preserving key facts, decisions, and named entities. Output only the summary text.''
     @ newline_str @ newline_str @ transcript mid"

definition llm_summary :: "nat \<Rightarrow> string \<Rightarrow> message" where
  "llm_summary n body =
     (message_system (''[Summary of '' @ show_nat n @ '' earlier messages]'' @ newline_str @ body))
       \<lparr>msg_name := Some compaction_summary_name\<rparr>"

definition compact_with_llm :: "(string \<Rightarrow> string option) \<Rightarrow> message list \<Rightarrow> nat \<Rightarrow> nat \<Rightarrow> message list" where
  "compact_with_llm complete ms head_len tail_len =
     (let n = length ms; start0 = head_len; end0 = n - tail_len
      in if end0 \<le> start0 then ms
         else let mid_start = skip_tools ms start0 end0; mid_end = skip_tools ms end0 n
              in if mid_end \<le> mid_start then ms
                 else let mid = take (mid_end - mid_start) (drop mid_start ms)
                      in case complete (summary_prompt mid) of
                           None \<Rightarrow> ms
                         | Some body \<Rightarrow>
                             if body = [] then ms
                             else take mid_start ms @ llm_summary (length mid) body # drop mid_end ms)"

section \<open>Compaction of a context\<close>

text \<open>The compaction on demand. The result is the number of messages before and after, and the context.\<close>

definition compact_context :: "int \<Rightarrow> message \<Rightarrow> agent_context \<Rightarrow> ((nat \<times> nat) \<times> agent_context) option" where
  "compact_context now snapshot cx =
     (let ms = to_messages snapshot cx;
          compressor = with_strategy Summarize (new_compressor (cx_max_tokens cx div 2))
      in case compress compressor ms of
           None \<Rightarrow> None
         | Some compressed \<Rightarrow>
             Some ((length ms, length compressed),
                   if length compressed < length ms then replace_messages now compressed cx else cx))"

record compaction_record =
  cr_conversation :: string
  cr_boundary_role :: string
  cr_boundary_content :: string
  cr_summary :: string

text \<open>What a restart can replay from: the summary and the first message behind it that is stored.\<close>

definition replayable :: "message \<Rightarrow> bool" where
  "replayable m \<longleftrightarrow> \<not> is_tool m \<and> \<not> (msg_role m = Role_Assistant \<and> msg_tool_calls m \<noteq> None)"

definition record_compaction_boundary :: "agent_context \<Rightarrow> compaction_record option" where
  "record_compaction_boundary cx =
     (case position_of (\<lambda>m. msg_name m = Some compaction_summary_name) (cx_messages cx) of
        None \<Rightarrow> None
      | Some i \<Rightarrow>
          (case find replayable (drop (i + 1) (cx_messages cx)) of
             None \<Rightarrow> None
           | Some boundary \<Rightarrow>
               Some \<lparr>cr_conversation = cx_id cx, cr_boundary_role = show_role (msg_role boundary),
                     cr_boundary_content = msg_content boundary, cr_summary = msg_content (cx_messages cx ! i)\<rparr>))"

text \<open>The compaction of the engine; \<open>complete\<close> is present when a model for compaction is configured.\<close>

definition compact_context_forced ::
  "int \<Rightarrow> (string \<Rightarrow> string option) option \<Rightarrow> agent_context \<Rightarrow> agent_context \<times> compaction_record option" where
  "compact_context_forced now compaction_model cx =
     (let cx1 = (case compaction_model of
                   Some complete \<Rightarrow> replace_messages now (compact_with_llm complete (cx_messages cx) 2 6) cx
                 | None \<Rightarrow> summarize cx)
      in (cx1, record_compaction_boundary cx1))"

definition compact_context_if_needed ::
  "int \<Rightarrow> (string \<Rightarrow> string option) option \<Rightarrow> agent_context \<Rightarrow> agent_context \<times> compaction_record option" where
  "compact_context_if_needed now compaction_model cx =
     (if needs_pruning cx then compact_context_forced now compaction_model cx else (cx, None))"

section \<open>Estimates are quarters\<close>

lemma quarter_small: "n < 2 ^ 24 \<Longrightarrow> quarter n = n div 4"
  by (simp add: quarter_def f32_round_def f32_ulp.simps [of "int n"] zdiv_int nat_div_distrib)

section \<open>Compaction keeps calls and results together\<close>

lemma llm_summary_simps [simp]: "\<not> is_tool (llm_summary n body)" "call_ids (llm_summary n body) = []"
  by (simp_all add: llm_summary_def message_system_def plain_message_def is_tool_def call_ids_def)

lemma create_summary_simps [simp]:
  "\<not> is_tool (create_summary ms)" "call_ids (create_summary ms) = []" "msg_role (create_summary ms) = Role_System"
  by (simp_all add: create_summary_def message_system_def plain_message_def is_tool_def call_ids_def)

text \<open>What a compaction of the middle may do: nothing, or put a message without calls in the place of a stretch whose
  boundaries have been moved past the results.\<close>

definition compacted :: "nat \<Rightarrow> nat \<Rightarrow> message list \<Rightarrow> message list \<Rightarrow> bool" where
  "compacted s e ms ms' \<longleftrightarrow>
     ms' = ms \<or>
     (\<exists>summary. s < e \<and> e \<le> length ms \<and> \<not> is_tool summary \<and> call_ids summary = []
        \<and> ms' = take (skip_tools ms s e) ms @ summary # drop (skip_tools ms e (length ms)) ms)"

lemma compact_with_llm_compacted: "compacted h (length ms - t) ms (compact_with_llm complete ms h t)"
  unfolding compact_with_llm_def compacted_def Let_def
  by (auto split: option.split intro!: exI)

lemma summarize_compacted:
  "compacted keep_first (length (cx_messages cx) - keep_last) (cx_messages cx) (cx_messages (summarize cx))"
  by (rule summarize_cases [where P = "\<lambda>c. compacted keep_first (length (cx_messages cx) - keep_last) (cx_messages cx) (cx_messages c)"])
    (auto simp: compacted_def recalculate_tokens_def)

lemma compacted_paired:
  assumes "compacted s e ms ms'" "paired ms" "calls_by_assistant ms"
  shows "paired ms' \<and> calls_by_assistant ms'"
proof -
  consider "ms' = ms" | summary where "s < e" "e \<le> length ms" "\<not> is_tool summary" "call_ids summary = []"
    "ms' = take (skip_tools ms s e) ms @ summary # drop (skip_tools ms e (length ms)) ms"
    using assms(1) by (auto simp: compacted_def)
  then show ?thesis
  proof cases
    case 2
    have "s \<le> e" using 2(1) by simp
    then have "paired ms'"
      unfolding 2(5) by (intro cut_paired assms(2) 2(3,4) snapped_bounds 2(2))
    moreover have "calls_by_assistant ms'" unfolding 2(5) using assms(3) 2(4)
      by (auto simp: calls_by_assistant_def list_all_iff dest: in_set_takeD in_set_dropD)
    ultimately show ?thesis by simp
  qed (use assms in simp)
qed

lemma compacted_balanced:
  assumes "compacted s e ms ms'" "balanced ms" "\<exists>k\<in>{s..<e}. \<not> is_tool (ms ! k)"
  shows "balanced ms'"
proof -
  consider "ms' = ms" | summary where "s < e" "e \<le> length ms" "\<not> is_tool summary" "call_ids summary = []"
    "ms' = take (skip_tools ms s e) ms @ summary # drop (skip_tools ms e (length ms)) ms"
    using assms(1) by (auto simp: compacted_def)
  then show ?thesis
  proof cases
    case 2
    have "s \<le> e" using 2(1) by simp
    then show ?thesis
      unfolding 2(5) by (intro cut_balanced assms(2,3) 2(3,4) snapped_bounds 2(2))
  qed (use assms in simp)
qed

definition engine_tail :: "(string \<Rightarrow> string option) option \<Rightarrow> nat" where
  "engine_tail compaction_model = (if compaction_model = None then 4 else 6)"

lemma forced_compacted:
  "compacted 2 (length (cx_messages cx) - engine_tail model) (cx_messages cx)
     (cx_messages (fst (compact_context_forced now model cx)))"
  using summarize_compacted [of cx] compact_with_llm_compacted [of 2 "cx_messages cx" 6]
  by (simp add: compact_context_forced_def engine_tail_def Let_def keep_first_def keep_last_def split: option.split)

lemma forced_counted: "tokens_counted cx \<Longrightarrow> tokens_counted (fst (compact_context_forced now model cx))"
  by (simp add: compact_context_forced_def Let_def summarize_counted split: option.split)

lemma forced_settings: "same_settings (fst (compact_context_forced now model cx)) cx"
  by (simp add: compact_context_forced_def Let_def summarize_settings split: option.split)

text \<open>C38. The compaction of the engine, by a model or by heuristics, never leaves a tool result without its call, whatever the
  model answers. Every call keeps its results as well, provided the stretch between the kept head and the kept
  tail does not consist of results only; the token n_messages stays exact.\<close>

theorem engine_compaction_keeps_pairs:
  fixes now :: int and model :: "(string \<Rightarrow> string option) option"
  assumes "balanced (cx_messages cx)" "tokens_counted cx"
  defines "cx' \<equiv> fst (compact_context_forced now model cx)"
  shows "paired (cx_messages cx') \<and> tokens_counted cx' \<and>
    ((\<exists>k\<in>{2..<length (cx_messages cx) - engine_tail model}. \<not> is_tool (cx_messages cx ! k)) \<longrightarrow> balanced (cx_messages cx'))"
proof (intro conjI impI)
  show "paired (cx_messages cx')"
    using compacted_paired [OF forced_compacted] assms(1) by (simp add: cx'_def balanced_def)
  show "tokens_counted cx'" using forced_counted [OF assms(2)] by (simp add: cx'_def)
qed (use compacted_balanced [OF forced_compacted assms(1)] in \<open>simp add: cx'_def\<close>)

definition long_history :: "message list" where
  "long_history = message_user ''a'' # sample_asking [''1''] # message_tool ''r'' ''1'' #
     map message_assistant [''b'', ''c'', ''d'', ''e'', ''f'', ''g'', ''h'']"

theorem engine_compaction_keeps_pairs_witness:
  "paired (cx_messages (fst (compact_context_forced 1 (Some (\<lambda>_. Some ''short''))
     ((new_context 0 ''x'' [] 1)\<lparr>cx_messages := long_history\<rparr>))))"
proof -
  have "balanced long_history"
    by (simp add: long_history_def sample_messages balanced_def answers_call_def calls_by_assistant_def)
  then show ?thesis
    using engine_compaction_keeps_pairs [of "(new_context 0 ''x'' [] 1)\<lparr>cx_messages := long_history\<rparr>" 1 "Some (\<lambda>_. Some ''short'')"]
    by (simp add: tokens_counted_def new_context_def long_history_def tokens_of_def sample_messages)
qed

text \<open>The model path splits the results of one message as well.\<close>

lemma llm_compaction_splits_results:
  defines "history \<equiv> message_user ''a'' # sample_asking [''1'', ''2'', ''3'', ''4'', ''5'', ''6'', ''7'']
      # map (message_tool ''r'') [''1'', ''2'', ''3'', ''4'', ''5'', ''6'', ''7'']"
  shows "balanced history" "\<not> answered (compact_with_llm (\<lambda>_. Some ''short'') history 2 6)"
proof -
  show "balanced history"
    by (simp add: history_def sample_messages balanced_def answers_call_def calls_by_assistant_def)
  have "answered (compact_with_llm (\<lambda>_. Some ''short'') history 2 6) = False"
    by (simp add: compact_with_llm_def history_def skip_tools.simps sample_messages llm_summary_def)
  then show "\<not> answered (compact_with_llm (\<lambda>_. Some ''short'') history 2 6)" by simp
qed

section \<open>Compaction on demand\<close>

lemma enumerate_keep:
  assumes "t \<le> length ms"
  shows "map snd (filter (\<lambda>(i, m). P m \<or> t \<le> i) (enumerate 0 ms)) = filter P (take t ms) @ drop t ms"
    and "map snd (filter (\<lambda>p. \<not> (case p of (i, m) \<Rightarrow> P m \<or> t \<le> i)) (enumerate 0 ms)) = filter (\<lambda>m. \<not> P m) (take t ms)"
proof -
  have split: "enumerate 0 ms = enumerate 0 (take t ms) @ enumerate t (drop t ms)"
    using enumerate_append_eq [of 0 "take t ms" "drop t ms"] assms by simp
  have low: "map snd (filter (\<lambda>(i, m). Q i m) (enumerate 0 (take t ms))) = filter (\<lambda>m. R m) (take t ms)"
    if "\<And>i m. i < t \<Longrightarrow> Q i m = R m" for Q R
  proof -
    have "filter (\<lambda>(i, m). Q i m) (enumerate 0 (take t ms)) = filter (R \<circ> snd) (enumerate 0 (take t ms))"
      using that by (intro filter_cong refl) (auto simp: in_set_enumerate_eq)
    then show ?thesis by (simp add: filter_map [symmetric])
  qed
  have high: "t \<le> fst p" if "p \<in> set (enumerate t (drop t ms))" for p
    using that by (auto simp: in_set_enumerate_eq)
  then have hi: "filter (\<lambda>(i, m). P m \<or> t \<le> i) (enumerate t (drop t ms)) = enumerate t (drop t ms)"
    "filter (\<lambda>p. \<not> (case p of (i, m) \<Rightarrow> P m \<or> t \<le> i)) (enumerate t (drop t ms)) = []"
    by (auto simp: filter_id_conv filter_empty_conv split: prod.split)
  show "map snd (filter (\<lambda>(i, m). P m \<or> t \<le> i) (enumerate 0 ms)) = filter P (take t ms) @ drop t ms"
    using low [of "\<lambda>i m. P m \<or> t \<le> i" P] by (simp add: split hi)
  show "map snd (filter (\<lambda>p. \<not> (case p of (i, m) \<Rightarrow> P m \<or> t \<le> i)) (enumerate 0 ms)) = filter (\<lambda>m. \<not> P m) (take t ms)"
    using low [of "\<lambda>i m. \<not> (P m \<or> t \<le> i)" "\<lambda>m. \<not> P m"] by (simp add: split case_prod_unfold filter_empty_conv high)
qed

lemma compress_summarize_eq:
  fixes ms :: "message list"
  defines "t \<equiv> skip_tools ms (length ms - keep_tail) (length ms)"
  shows "compress_summarize ms =
    (if filter (\<lambda>m. \<not> is_system m) (take t ms) = [] then Some (filter is_system (take t ms) @ drop t ms)
     else case filter is_system (take t ms) @ drop t ms of
            [] \<Rightarrow> None
          | m # rest \<Rightarrow> Some (m # create_summary (filter (\<lambda>m. \<not> is_system m) (take t ms)) # rest))"
proof -
  have t: "t \<le> length ms" using skip_tools_le [of "length ms - keep_tail" "length ms" ms] by (simp add: t_def)
  show ?thesis
    unfolding compress_summarize_def Let_def t_def [symmetric] is_system_def [symmetric]
    by (simp only: enumerate_keep [OF t])
qed

text \<open>A message without calls in front.\<close>

lemma balanced_Cons:
  assumes "\<not> is_tool m" "call_ids m = []"
  shows "balanced (m # ms) \<longleftrightarrow> balanced ms"
proof -
  have "cuttable ms" if "balanced (m # ms)"
    using that assms by (cases ms) (auto simp: balanced_def answers_call_def split: option.splits)
  moreover have "cuttable ms" if "balanced ms" using that paired_cuttable by (simp add: balanced_def)
  moreover have "balanced [m]" using assms by (rule answered_single)
  ultimately show ?thesis using balanced_append [of ms "[m]"] by auto
qed

lemma balanced_without_calls: "(\<And>m. m \<in> set ms \<Longrightarrow> \<not> is_tool m \<and> call_ids m = []) \<Longrightarrow> balanced ms"
  by (induction ms) (auto simp: balanced_Cons balanced_def calls_by_assistant_def)

lemma balanced_filter_system: "balanced ms \<Longrightarrow> balanced (filter is_system ms)"
  by (rule balanced_without_calls) (auto simp: balanced_def calls_by_assistant_def list_all_iff is_system_def is_tool_def)

lemma system_message_simps [simp]:
  "is_system (message_system body)" "\<not> is_tool (message_system body)" "call_ids (message_system body) = []"
  "\<not> is_user (message_system body)"
  by (simp_all add: message_system_def plain_message_def is_system_def is_tool_def is_user_def call_ids_def)

lemma request_balanced:
  assumes "balanced (cx_messages cx)" "is_user snapshot" "call_ids snapshot = []"
  shows "balanced (to_messages snapshot cx)"
proof -
  have "\<not> is_tool snapshot" using assms(2) by (simp add: is_tool_def is_user_def)
  then show ?thesis
    using balanced_append [of "[snapshot]" "cx_messages cx"] answered_single assms(1,3)
    by (simp add: to_messages_def balanced_Cons)
qed

text \<open>What the summary of a request keeps: the system prompt in front, and the snapshot at the end.\<close>

lemma kept_of_request:
  fixes snapshot :: message and cx :: agent_context
  defines "ms \<equiv> to_messages snapshot cx"
  defines "t \<equiv> skip_tools ms (length ms - keep_tail) (length ms)"
  assumes "balanced ms" "is_user snapshot"
  obtains k where "filter is_system (take t ms) @ drop t ms = message_system (cx_system_prompt cx) # k"
    "k \<noteq> []" "last k = snapshot" "balanced k"
proof -
  let ?s = "message_system (cx_system_prompt cx)" and ?n = "length ms"
  have n: "2 \<le> ?n" "ms ! (?n - 1) = snapshot" by (simp_all add: ms_def to_messages_def nth_append)
  have "t < ?n"
  proof (rule ccontr)
    assume "\<not> t < ?n"
    then have "is_tool (ms ! (?n - 1))"
      using skip_tools_all [of "?n - keep_tail" "?n - 1" ms ?n] n(1) by (simp add: t_def keep_tail_def)
    then show False using assms(4) n(2) by (simp add: is_tool_def is_user_def)
  qed
  then have tail: "drop t ms \<noteq> []" "last (drop t ms) = snapshot" by (simp_all add: ms_def to_messages_def)
  have "\<exists>k. filter is_system (take t ms) @ drop t ms = ?s # k"
    by (cases t) (simp_all add: ms_def to_messages_def)
  then obtain k where kept: "filter is_system (take t ms) @ drop t ms = ?s # k" by blast
  have "last (?s # k) = snapshot" using tail unfolding kept [symmetric] by simp
  moreover have "?s \<noteq> snapshot" using assms(4) system_message_simps(4) by metis
  ultimately have "k \<noteq> []" "last k = snapshot" by (auto split: if_splits)
  moreover have "balanced k"
  proof -
    have cut: "cuttable (drop t ms)" unfolding t_def by (rule cuttable_drop_skip) simp
    have "balanced (take t ms)" "balanced (drop t ms)" using balanced_append [OF cut, of "take t ms"] assms(3) by simp_all
    then have "balanced (?s # k)" using balanced_append [OF cut] balanced_filter_system kept by metis
    then show ?thesis by (simp add: balanced_Cons)
  qed
  ultimately show thesis using that kept by blast
qed

lemma summarised_request:
  assumes "balanced (to_messages snapshot cx)" "is_user snapshot"
  obtains rest where "compress_summarize (to_messages snapshot cx) = Some (message_system (cx_system_prompt cx) # rest)"
    "last rest = snapshot" "rest \<noteq> []" "balanced (message_system (cx_system_prompt cx) # rest)"
proof -
  let ?ms = "to_messages snapshot cx"
  define t where "t = skip_tools ?ms (length ?ms - keep_tail) (length ?ms)"
  let ?dropped = "filter (\<lambda>m. \<not> is_system m) (take t ?ms)"
  obtain k where k: "filter is_system (take t ?ms) @ drop t ?ms = message_system (cx_system_prompt cx) # k"
    "k \<noteq> []" "last k = snapshot" "balanced k"
    unfolding t_def using kept_of_request [OF assms] .
  have eq: "compress_summarize ?ms = Some (message_system (cx_system_prompt cx) #
      (if ?dropped = [] then k else create_summary ?dropped # k))"
    unfolding compress_summarize_eq t_def [symmetric] k(1) by simp
  show thesis
    by (rule that [OF eq]) (use k(2-4) in \<open>auto simp: balanced_Cons\<close>)
qed

text \<open>The compaction on demand never panics and keeps calls and results together.\<close>

theorem manual_compaction_keeps_pairs:
  assumes "balanced (cx_messages cx)" "tokens_counted cx" "is_user snapshot" "call_ids snapshot = []"
  shows "\<exists>counts cx'. compact_context now snapshot cx = Some (counts, cx') \<and> balanced (cx_messages cx') \<and> tokens_counted cx'"
proof -
  have req: "balanced (to_messages snapshot cx)" using assms(1,3,4) by (rule request_balanced)
  obtain rest where r: "compress_summarize (to_messages snapshot cx) = Some (message_system (cx_system_prompt cx) # rest)"
    "balanced (message_system (cx_system_prompt cx) # rest)"
    using summarised_request [OF req assms(3)] by blast
  then show ?thesis using assms(1,2)
    by (auto simp: compact_context_def Let_def compress_def with_strategy_def)
qed

theorem manual_compaction_keeps_pairs_witness:
  "\<exists>counts cx'. compact_context 1 (message_user_named state_snapshot_name ''now'')
       ((new_context 0 ''x'' [] 1)\<lparr>cx_messages := long_history, cx_token_count := 0\<rparr>) = Some (counts, cx')
     \<and> balanced (cx_messages cx') \<and> tokens_counted cx'"
proof (rule manual_compaction_keeps_pairs)
  show "balanced (cx_messages ((new_context 0 ''x'' [] 1)\<lparr>cx_messages := long_history, cx_token_count := 0\<rparr>))"
    by (simp add: long_history_def sample_messages balanced_def answers_call_def calls_by_assistant_def)
qed (simp_all add: tokens_counted_def new_context_def long_history_def tokens_of_def sample_messages message_user_named_def)

text \<open>It writes the system prompt and the snapshot of the day into the history, so that the next request carries
  both twice.\<close>

lemma manual_compaction_stores_transients:
  assumes "balanced (cx_messages cx)" "is_user snapshot" "call_ids snapshot = []"
    and "compact_context now snapshot cx = Some ((before, after), cx')" "after < before"
  shows "hd (cx_messages cx') = message_system (cx_system_prompt cx)" "last (cx_messages cx') = snapshot"
    and "to_messages snapshot' cx' = message_system (cx_system_prompt cx) # cx_messages cx' @ [snapshot']"
proof -
  obtain rest where r: "compress_summarize (to_messages snapshot cx) = Some (message_system (cx_system_prompt cx) # rest)"
    "last rest = snapshot" "rest \<noteq> []"
    using summarised_request [OF request_balanced [OF assms(1-3)] assms(2)] by blast
  have "cx' = replace_messages now (message_system (cx_system_prompt cx) # rest) cx"
    using assms(4,5) r(1)
    by (auto simp: compact_context_def Let_def compress_def with_strategy_def split: if_splits)
  then show "hd (cx_messages cx') = message_system (cx_system_prompt cx)" "last (cx_messages cx') = snapshot"
    "to_messages snapshot' cx' = message_system (cx_system_prompt cx) # cx_messages cx' @ [snapshot']"
    using r(2,3) same_settingsD(2) [OF replace_messages_simps(3)] by (simp_all add: to_messages_def)
qed

text \<open>Called with a history that has no system message and ends in results, the strategy inserts at index one of an empty
  list.\<close>

lemma summarize_can_panic:
  "compress_summarize [message_user ''a'', sample_asking [''1'', ''2'', ''3'', ''4''], message_tool ''r'' ''1'',
     message_tool ''r'' ''2'', message_tool ''r'' ''3'', message_tool ''r'' ''4''] = None"
  by (simp add: compress_summarize_eq keep_tail_def skip_tools.simps sample_messages is_system_def)

section \<open>The other strategies\<close>

definition critical :: "prioritized_message \<Rightarrow> bool" where
  "critical p \<longleftrightarrow> pm_priority p = Priority_Critical"

abbreviation pm_tokens :: "prioritized_message \<Rightarrow> nat" where
  "pm_tokens p \<equiv> estimated_tokens (pm_message p)"

lemma select_append:
  "select_messages t u (ps @ qs) =
     select_messages t u ps @ select_messages t (u + sum_list (map pm_tokens (select_messages t u ps))) qs"
  by (induction ps arbitrary: u) (auto simp: Let_def add.assoc)

lemma select_critical: "\<forall>p\<in>set ps. critical p \<Longrightarrow> select_messages t u ps = ps"
  by (induction ps arbitrary: u) (auto simp: Let_def critical_def)

lemma select_others:
  "\<forall>p\<in>set ps. \<not> critical p \<Longrightarrow> u + sum_list (map pm_tokens (select_messages t u ps)) \<le> max t u"
proof (induction ps arbitrary: u)
  case (Cons p ps)
  have "\<not> critical p" "\<forall>q\<in>set ps. \<not> critical q" using Cons.prems by auto
  then show ?case using Cons.IH [of "u + pm_tokens p"] Cons.IH [of u]
    by (cases "u + pm_tokens p \<le> t") (simp_all add: Let_def critical_def)
qed simp

lemma select_subset: "set (select_messages t u ps) \<subseteq> set ps"
  by (induction ps arbitrary: u) (auto simp: Let_def)

lemma select_distinct: "distinct (map f ps) \<Longrightarrow> distinct (map f (select_messages t u ps))"
proof (induction ps arbitrary: u)
  case (Cons p ps)
  then show ?case using select_subset [of t "u + pm_tokens p" ps] by (auto simp: Let_def)
qed simp

lemma critical_first:
  fixes key :: "prioritized_message \<Rightarrow> int \<times> int"
  assumes "sorted (map key ps)" "\<And>p. fst (key p) = - int (priority_rank (pm_priority p))"
  shows "ps = filter critical ps @ filter (\<lambda>p. \<not> critical p) ps"
  using assms(1)
proof (induction ps)
  case (Cons p ps)
  show ?case
  proof (cases "critical p")
    case False
    have "\<not> critical q" if "q \<in> set ps" for q
    proof -
      have "key p \<le> key q" using Cons.prems that by simp
      then have "priority_rank (pm_priority q) \<le> priority_rank (pm_priority p)"
        using assms(2) by (auto simp: less_eq_prod_def)
      then show ?thesis using False by (cases "pm_priority p") (auto simp: critical_def)
    qed
    then show ?thesis using False by (simp add: filter_empty_conv filter_id_conv)
  qed (use Cons in auto)
qed simp

lemma prioritized_index: "p \<in> set (prioritized ms) \<Longrightarrow> pm_index p < length ms \<and> pm_message p = ms ! pm_index p"
  by (auto simp: prioritized_def prioritize_def in_set_enumerate_eq)

lemma prioritized_indices: "map pm_index (prioritized ms) = [0..<length ms]"
  by (simp add: prioritized_def prioritize_def case_prod_unfold comp_def map_fst_enumerate [symmetric, of 0 ms, simplified])

lemma selection_in_order:
  assumes "set ps \<subseteq> set (prioritized ms)" "distinct (map pm_index ps)"
  shows "subseq (map pm_message (sort_key pm_index ps)) ms"
proof -
  let ?is = "map pm_index (sort_key pm_index ps)"
  have "set ?is \<subseteq> set [0..<length ms]" using assms(1) prioritized_index by auto
  moreover have "distinct ?is" using assms(2) by (simp add: distinct_map)
  ultimately have "subseq ?is [0..<length ms]"
    by (intro sorted_subset_imp_subseq) (auto simp: strict_sorted_iff)
  then have "subseq (map (nth ms) ?is) (map (nth ms) [0..<length ms])" by (rule subseq_map)
  moreover have "map (nth ms) ?is = map pm_message (sort_key pm_index ps)"
    using assms(1) prioritized_index by auto
  ultimately show ?thesis by (simp only: map_nth)
qed

text \<open>Removing the oldest messages keeps the order, every critical message, and the target unless the critical messages
  exceed it alone.\<close>

lemma oldest_first_keeps_budget:
  defines "crit \<equiv> \<lambda>ms. filter critical (prioritized ms)"
  shows "subseq (compress_oldest_first c ms) ms"
    and "set (map pm_message (crit ms)) \<subseteq> set (compress_oldest_first c ms)"
    and "estimate_tokens (compress_oldest_first c ms) \<le> max (cc_target_tokens c) (sum_list (map pm_tokens (crit ms)))"
proof -
  define ps where "ps = by_priority (prioritized ms)"
  let ?t = "cc_target_tokens c"
  have perm: "set ps = set (prioritized ms)" "mset ps = mset (prioritized ms)" by (simp_all add: ps_def by_priority_def)
  have split: "ps = filter critical ps @ filter (\<lambda>p. \<not> critical p) ps"
    by (rule critical_first [where key = "\<lambda>p. (- int (priority_rank (pm_priority p)), - int (pm_index p))"])
      (simp_all add: ps_def by_priority_def)
  define sel where "sel = select_messages ?t 0 ps"
  have sel: "sel = filter critical ps
      @ select_messages ?t (sum_list (map pm_tokens (filter critical ps))) (filter (\<lambda>p. \<not> critical p) ps)"
    unfolding sel_def by (subst split) (simp add: select_append select_critical)
  have "distinct (map pm_index (prioritized ms))" by (simp add: prioritized_indices)
  then have "distinct (map pm_index ps)" using perm(2) by (metis mset_map mset_eq_imp_distinct_iff)
  then show "subseq (compress_oldest_first c ms) ms"
    unfolding compress_oldest_first_def ps_def [symmetric]
    by (intro selection_in_order select_distinct select_subset [THEN order_trans]) (simp add: perm(1))
  show "set (map pm_message (crit ms)) \<subseteq> set (compress_oldest_first c ms)"
    unfolding compress_oldest_first_def ps_def [symmetric] sel_def [symmetric] using perm(1)
    by (auto simp: crit_def sel)
  have "sum_list (map pm_tokens sel) \<le> max ?t (sum_list (map pm_tokens (filter critical ps)))"
    using select_others [of "filter (\<lambda>p. \<not> critical p) ps" "sum_list (map pm_tokens (filter critical ps))" ?t]
    by (simp add: sel)
  moreover have "sum_list (map pm_tokens (filter critical ps)) = sum_list (map pm_tokens (crit ms))"
    unfolding crit_def by (simp add: perm(2) flip: sum_mset_sum_list)
  moreover have "estimate_tokens (compress_oldest_first c ms) = sum_list (map pm_tokens sel)"
    unfolding estimate_tokens_def compress_oldest_first_def ps_def [symmetric] sel_def [symmetric]
    by (simp add: comp_def flip: sum_mset_sum_list)
  ultimately show "estimate_tokens (compress_oldest_first c ms) \<le> max ?t (sum_list (map pm_tokens (crit ms)))" by simp
qed

lemma balanced_filter_nonsystem: "balanced ms \<Longrightarrow> balanced (filter (\<lambda>m. \<not> is_system m) ms)"
proof (induction "length ms" arbitrary: ms rule: less_induct)
  case less
  show ?case
  proof (cases ms)
    case (Cons m rest)
    let ?run = "m # takeWhile is_tool rest" and ?later = "dropWhile is_tool rest"
    have split: "ms = ?run @ ?later" by (simp add: Cons)
    have cut: "cuttable ?later" by (metis cuttable_simps dropWhile_eq_Cons_conv neq_Nil_conv)
    have parts: "balanced ?run" "balanced ?later" using less.prems balanced_append [OF cut, of ?run] split by simp_all
    have later: "balanced (filter (\<lambda>m. \<not> is_system m) ?later)"
      by (rule less.hyps [OF _ parts(2)]) (simp add: Cons le_imp_less_Suc length_dropWhile_le)
    have "filter (\<lambda>m. \<not> is_system m) (takeWhile is_tool rest) = takeWhile is_tool rest"
      by (auto simp: filter_id_conv is_system_def is_tool_def dest: set_takeWhileD)
    then have run: "filter (\<lambda>m. \<not> is_system m) ?run = (if is_system m then takeWhile is_tool rest else ?run)" by simp
    have "balanced (filter (\<lambda>m. \<not> is_system m) ?run)"
    proof (cases "is_system m")
      case True
      then have "\<not> is_tool m" "call_ids m = []"
        using parts(1) by (auto simp: is_system_def is_tool_def balanced_def calls_by_assistant_def)
      then show ?thesis using parts(1) run True by (simp add: balanced_Cons)
    qed (use parts(1) run in simp)
    moreover have "cuttable (filter (\<lambda>m. \<not> is_system m) ?later)"
      using later by (intro paired_cuttable) (simp add: balanced_def)
    ultimately have "balanced (filter (\<lambda>m. \<not> is_system m) ?run @ filter (\<lambda>m. \<not> is_system m) ?later)"
      using balanced_append later by blast
    then show ?thesis using split by (metis filter_append)
  qed (simp add: balanced_def calls_by_assistant_def)
qed

lemma window_prefix: "\<exists>k. window_from a u ms = take k ms"
proof (induction ms arbitrary: u)
  case (Cons m ms)
  show ?case
  proof (cases "u + estimated_tokens m \<le> a")
    case True
    obtain k where "window_from a (u + estimated_tokens m) ms = take k ms" using Cons.IH by blast
    then show ?thesis using True by (intro exI [of _ "Suc k"]) simp
  qed (simp add: exI [of _ 0])
qed simp

lemma window_budget: "u \<le> a \<Longrightarrow> u + estimate_tokens (window_from a u ms) \<le> a"
proof (induction ms arbitrary: u)
  case (Cons m ms)
  then show ?case using Cons.IH [of "u + estimated_tokens m"] by (auto simp: estimate_tokens_def add.assoc)
qed (simp add: estimate_tokens_def)

lemma estimate_append [simp]: "estimate_tokens (xs @ ys) = estimate_tokens xs + estimate_tokens ys"
  by (simp add: estimate_tokens_def)

lemma estimate_rev [simp]: "estimate_tokens (rev xs) = estimate_tokens xs"
  by (simp add: estimate_tokens_def rev_map [symmetric] sum_list_rev)

lemma estimate_drop: "estimate_tokens (drop k xs) \<le> estimate_tokens xs"
  by (metis append_take_drop_id estimate_append le_add2)

lemma position_cut:
  "cuttable (drop (case position_of (\<lambda>m. \<not> is_tool m) ms of Some i \<Rightarrow> i | None \<Rightarrow> length ms) ms)"
  by (auto split: option.split dest!: position_of_Some simp: Cons_nth_drop_Suc [symmetric])

text \<open>The sliding window keeps all system messages and the latest others, keeps calls and results together, and exceeds its
  target by at most the system messages and four tokens for each of them.\<close>

theorem sliding_window_keeps_pairs_and_budget:
  assumes "balanced ms"
  shows "balanced (compress_sliding_window c ms)"
    and "\<exists>k. compress_sliding_window c ms = filter is_system ms @ drop k (filter (\<lambda>m. \<not> is_system m) ms)"
    and "estimate_tokens (compress_sliding_window c ms)
      \<le> max (cc_target_tokens c) (estimate_tokens (filter is_system ms)) + 4 * length (filter is_system ms)"
proof -
  define others where "others = filter (\<lambda>m. \<not> is_system m) ms"
  define sys_tokens where "sys_tokens = sum_list (map (\<lambda>m. quarter (length (msg_content m))) (filter is_system ms))"
  define available where "available = cc_target_tokens c - sys_tokens"
  define recent where "recent = rev (window_from available 0 (rev others))"
  define cut where "cut = (case position_of (\<lambda>m. \<not> is_tool m) recent of Some i \<Rightarrow> i | None \<Rightarrow> length recent)"
  have eq: "compress_sliding_window c ms = filter is_system ms @ drop cut recent"
    unfolding compress_sliding_window_def Let_def cut_def recent_def available_def sys_tokens_def others_def rev_filter ..
  obtain j where "window_from available 0 (rev others) = take j (rev others)" using window_prefix by blast
  then have recent: "recent = drop (length others - j) others" by (simp add: recent_def rev_take)
  have tail: "cuttable (drop cut recent)" unfolding cut_def by (rule position_cut)
  let ?k = "cut + (length others - j)"
  have dropped: "drop cut recent = drop ?k others" by (simp add: recent)
  have "balanced others" unfolding others_def using assms by (rule balanced_filter_nonsystem)
  then have "balanced (drop cut recent)" using balanced_append [OF tail] unfolding dropped by (metis append_take_drop_id)
  then show "balanced (compress_sliding_window c ms)"
    unfolding eq using balanced_append [OF tail] balanced_filter_system [OF assms] by simp
  show "\<exists>k. compress_sliding_window c ms = filter is_system ms @ drop k (filter (\<lambda>m. \<not> is_system m) ms)"
    unfolding eq dropped others_def by blast
  have "estimate_tokens (filter is_system ms) = sys_tokens + 4 * length (filter is_system ms)"
    by (simp add: estimate_tokens_def estimated_tokens_def [abs_def] sys_tokens_def sum_list_addf sum_list_triv)
  moreover have "estimate_tokens (drop cut recent) \<le> available"
    using estimate_drop [of cut recent] window_budget [of 0 available "rev others"] by (simp add: recent_def)
  ultimately show "estimate_tokens (compress_sliding_window c ms)
      \<le> max (cc_target_tokens c) (estimate_tokens (filter is_system ms)) + 4 * length (filter is_system ms)"
    by (simp add: eq available_def)
qed

end
