(* ===== verification/Conversation_Threads.thy ===== *)
theory Conversation_Threads
  imports Conversation
begin

text \<open>
  Threads of a conversation (\<open>agent/turns.rs\<close>): the log of turns beside the context, with undo, redo and
  branching, and the manager of several threads. Times are arguments. The state of the memory flush is left
  out.
\<close>

section \<open>Turns\<close>

datatype turn_state = Turn_Pending | Turn_Running | Turn_Complete | Turn_Interrupted | Turn_Error

record turn =
  tn_index :: nat
  tn_user_message :: string
  tn_assistant_response :: string
  tn_state :: turn_state
  tn_created_at :: int
  tn_updated_at :: int
  tn_tool_calls :: "tool_call_record list"
  tn_token_usage :: "turn_usage option"

definition new_turn :: "int \<Rightarrow> nat \<Rightarrow> string \<Rightarrow> turn" where
  "new_turn now index body =
     \<lparr>tn_index = index, tn_user_message = body, tn_assistant_response = [], tn_state = Turn_Pending,
      tn_created_at = now, tn_updated_at = now, tn_tool_calls = [], tn_token_usage = None\<rparr>"

definition turn_start :: "int \<Rightarrow> turn \<Rightarrow> turn" where
  "turn_start now t = t\<lparr>tn_state := Turn_Running, tn_updated_at := now\<rparr>"

definition turn_complete :: "int \<Rightarrow> string \<Rightarrow> turn \<Rightarrow> turn" where
  "turn_complete now response t =
     t\<lparr>tn_assistant_response := response, tn_state := Turn_Complete, tn_updated_at := now\<rparr>"

definition turn_interrupt :: "int \<Rightarrow> turn \<Rightarrow> turn" where
  "turn_interrupt now t = t\<lparr>tn_state := Turn_Interrupted, tn_updated_at := now\<rparr>"

definition turn_mark_error :: "int \<Rightarrow> turn \<Rightarrow> turn" where
  "turn_mark_error now t = t\<lparr>tn_state := Turn_Error, tn_updated_at := now\<rparr>"

section \<open>Threads\<close>

record conv_thread =
  th_id :: string
  th_label :: string
  th_turns :: "turn list"
  th_redo_stack :: "turn list"
  th_context :: agent_context
  th_created_at :: int

definition thread_from_context :: "int \<Rightarrow> string \<Rightarrow> string \<Rightarrow> agent_context \<Rightarrow> conv_thread" where
  "thread_from_context now tid label cx =
     \<lparr>th_id = tid, th_label = label, th_turns = [], th_redo_stack = [], th_context = cx, th_created_at = now\<rparr>"

definition new_thread :: "int \<Rightarrow> string \<Rightarrow> string \<Rightarrow> string \<Rightarrow> nat \<Rightarrow> conv_thread" where
  "new_thread now tid label prompt max_tokens =
     thread_from_context now tid label (new_context now tid prompt max_tokens)"

definition turn_count :: "conv_thread \<Rightarrow> nat" where
  "turn_count th = length (th_turns th)"

definition fork :: "int \<Rightarrow> string \<Rightarrow> string \<Rightarrow> conv_thread \<Rightarrow> conv_thread" where
  "fork now tid label th =
     \<lparr>th_id = tid, th_label = label, th_turns = th_turns th, th_redo_stack = [],
      th_context = (th_context th)\<lparr>cx_id := tid\<rparr>, th_created_at = now\<rparr>"

definition push_turn :: "int \<Rightarrow> string \<Rightarrow> conv_thread \<Rightarrow> nat \<times> conv_thread" where
  "push_turn now body th =
     (length (th_turns th),
      th\<lparr>th_turns := th_turns th @ [new_turn now (length (th_turns th)) body], th_redo_stack := []\<rparr>)"

definition update_turn :: "nat \<Rightarrow> (turn \<Rightarrow> turn) \<Rightarrow> conv_thread \<Rightarrow> conv_thread" where
  "update_turn i f th = th\<lparr>th_turns := (th_turns th)[i := f (th_turns th ! i)]\<rparr>"

text \<open>\<open>rposition\<close> of the user role.\<close>

definition last_user :: "message list \<Rightarrow> nat option" where
  "last_user ms = map_option (\<lambda>i. length ms - 1 - i) (position_of is_user (rev ms))"

definition remove_turn_from_context :: "int \<Rightarrow> conv_thread \<Rightarrow> conv_thread" where
  "remove_turn_from_context now th =
     (case last_user (cx_messages (th_context th)) of
        None \<Rightarrow> th
      | Some pos \<Rightarrow>
          th\<lparr>th_context := replace_messages now (take pos (cx_messages (th_context th))) (th_context th)\<rparr>)"

definition undo_last_turn :: "int \<Rightarrow> conv_thread \<Rightarrow> bool \<times> conv_thread" where
  "undo_last_turn now th =
     (if th_turns th = [] then (False, th)
      else (True, remove_turn_from_context now
                    (th\<lparr>th_turns := butlast (th_turns th), th_redo_stack := th_redo_stack th @ [last (th_turns th)]\<rparr>)))"

definition redo_last_turn :: "int \<Rightarrow> conv_thread \<Rightarrow> bool \<times> conv_thread" where
  "redo_last_turn now th =
     (if th_redo_stack th = [] then (False, th)
      else let t = last (th_redo_stack th);
               cx1 = add_message now (message_user (tn_user_message t)) (th_context th);
               cx2 = (if tn_assistant_response t = [] then cx1
                      else add_message now (message_assistant (tn_assistant_response t)) cx1)
           in (True, th\<lparr>th_redo_stack := butlast (th_redo_stack th), th_context := cx2,
                        th_turns := th_turns th @ [t\<lparr>tn_index := length (th_turns th)\<rparr>]\<rparr>))"

definition can_undo :: "conv_thread \<Rightarrow> bool" where
  "can_undo th \<longleftrightarrow> th_turns th \<noteq> []"

definition can_redo :: "conv_thread \<Rightarrow> bool" where
  "can_redo th \<longleftrightarrow> th_redo_stack th \<noteq> []"

section \<open>The manager\<close>

type_synonym thread_manager = "conv_thread list"

definition tm_push :: "conv_thread \<Rightarrow> thread_manager \<Rightarrow> nat \<times> thread_manager" where
  "tm_push th m = (length m, m @ [th])"

definition tm_get :: "string \<Rightarrow> thread_manager \<Rightarrow> conv_thread option" where
  "tm_get tid m = find (\<lambda>th. th_id th = tid) m"

text \<open>\<open>get_mut\<close> followed by an operation on the thread: the first thread of that name is replaced.\<close>

definition tm_apply ::
  "(conv_thread \<Rightarrow> bool \<times> conv_thread) \<Rightarrow> string \<Rightarrow> thread_manager \<Rightarrow> bool \<times> thread_manager" where
  "tm_apply f tid m =
     (case position_of (\<lambda>th. th_id th = tid) m of
        None \<Rightarrow> (False, m)
      | Some i \<Rightarrow> (fst (f (m ! i)), m[i := snd (f (m ! i))]))"

definition tm_undo :: "int \<Rightarrow> string \<Rightarrow> thread_manager \<Rightarrow> bool \<times> thread_manager" where
  "tm_undo now tid m = tm_apply (undo_last_turn now) tid m"

definition tm_redo :: "int \<Rightarrow> string \<Rightarrow> thread_manager \<Rightarrow> bool \<times> thread_manager" where
  "tm_redo now tid m = tm_apply (redo_last_turn now) tid m"

definition tm_can_undo :: "string \<Rightarrow> thread_manager \<Rightarrow> bool" where
  "tm_can_undo tid m = (case tm_get tid m of None \<Rightarrow> False | Some th \<Rightarrow> can_undo th)"

definition tm_can_redo :: "string \<Rightarrow> thread_manager \<Rightarrow> bool" where
  "tm_can_redo tid m = (case tm_get tid m of None \<Rightarrow> False | Some th \<Rightarrow> can_redo th)"

definition tm_ids :: "thread_manager \<Rightarrow> string list" where
  "tm_ids m = map th_id m"

section \<open>The log of turns\<close>

text \<open>Turns are numbered by their place, and the history of the context is sound.\<close>

definition numbered :: "conv_thread \<Rightarrow> bool" where
  "numbered th \<longleftrightarrow> map tn_index (th_turns th) = [0..<length (th_turns th)]"

definition thread_ok :: "conv_thread \<Rightarrow> bool" where
  "thread_ok th \<longleftrightarrow> numbered th \<and> tokens_counted (th_context th)
     \<and> paired (cx_messages (th_context th)) \<and> calls_by_assistant (cx_messages (th_context th))"

lemma last_user_split:
  assumes "last_user ms = Some p"
  shows "p < length ms" "is_user (ms ! p)" "\<forall>j. p < j \<and> j < length ms \<longrightarrow> \<not> is_user (ms ! j)"
proof -
  obtain i where i: "position_of is_user (rev ms) = Some i" "p = length ms - 1 - i"
    using assms by (auto simp: last_user_def)
  have i': "i < length ms" "is_user (rev ms ! i)" "\<forall>j<i. \<not> is_user (rev ms ! j)"
    using position_of_Some [OF i(1)] by auto
  show "p < length ms" "is_user (ms ! p)" using i' i(2) by (simp_all add: rev_nth)
  show "\<forall>j. p < j \<and> j < length ms \<longrightarrow> \<not> is_user (ms ! j)"
  proof (intro allI impI)
    fix j assume j: "p < j \<and> j < length ms"
    then have "length ms - 1 - j < i" using i(2) i'(1) by linarith
    then have "\<not> is_user (rev ms ! (length ms - 1 - j))" using i'(3) by blast
    moreover have "rev ms ! (length ms - 1 - j) = ms ! j" using j by (subst rev_nth) auto
    ultimately show "\<not> is_user (ms ! j)" by simp
  qed
qed

lemma remove_turn_frame:
  "th_turns (remove_turn_from_context now th) = th_turns th"
  "th_redo_stack (remove_turn_from_context now th) = th_redo_stack th"
  "th_id (remove_turn_from_context now th) = th_id th"
  by (simp_all add: remove_turn_from_context_def split: option.split)

lemma remove_turn_ok: "thread_ok th \<Longrightarrow> thread_ok (remove_turn_from_context now th)"
proof -
  assume ok: "thread_ok th"
  have "paired (take p (cx_messages (th_context th))) \<and> calls_by_assistant (take p (cx_messages (th_context th)))" for p
  proof -
    have eq: "take p (cx_messages (th_context th)) @ drop p (cx_messages (th_context th)) = cx_messages (th_context th)" by simp
    show ?thesis using ok paired_prefix calls_by_assistant_append unfolding thread_ok_def by (metis eq)
  qed
  then show ?thesis using ok
    by (auto simp: remove_turn_from_context_def thread_ok_def numbered_def split: option.split)
qed

lemma numbered_butlast: "numbered th \<Longrightarrow> numbered (th\<lparr>th_turns := butlast (th_turns th), th_redo_stack := r\<rparr>)"
  by (cases "th_turns th" rule: rev_cases) (simp_all add: numbered_def)

lemma undo_ok: "thread_ok th \<Longrightarrow> thread_ok (snd (undo_last_turn now th))"
  by (auto simp: undo_last_turn_def intro!: remove_turn_ok) (simp add: thread_ok_def numbered_butlast)

lemma add_text_ok:
  assumes "cx_max_turns cx = None" "tokens_counted cx" "paired (cx_messages cx)" "calls_by_assistant (cx_messages cx)"
    and "\<not> is_tool m" "call_ids m = []"
  shows "tokens_counted (add_message now m cx)" "paired (cx_messages (add_message now m cx))"
    "calls_by_assistant (cx_messages (add_message now m cx))" "cx_max_turns (add_message now m cx) = None"
  using add_batch_counted [OF assms(2), of now "[m]"] add_batch_paired [OF assms(1,3,4) answered_single [OF assms(5,6)]]
    same_settingsD(8) [OF add_batch_settings, of now "[m]" cx] assms(1)
  by (simp_all add: add_message_batch)

lemma text_message_simps [simp]:
  "\<not> is_tool (message_user body)" "call_ids (message_user body) = []" "is_user (message_user body)"
  "\<not> is_tool (message_assistant body)" "call_ids (message_assistant body) = []"
  "\<not> is_tool (message_user_named nm body)" "call_ids (message_user_named nm body) = []" "is_user (message_user_named nm body)"
  by (simp_all add: message_user_named_def message_user_def message_assistant_def plain_message_def is_tool_def is_user_def call_ids_def)

lemma redo_ok:
  assumes "thread_ok th" "cx_max_turns (th_context th) = None"
  shows "thread_ok (snd (redo_last_turn now th))"
proof -
  have "numbered (th\<lparr>th_turns := th_turns th @ [t\<lparr>tn_index := length (th_turns th)\<rparr>], th_redo_stack := r, th_context := c\<rparr>)" for t r c
    using assms(1) by (simp add: numbered_def thread_ok_def)
  moreover note u = add_text_ok [of "th_context th"]
  ultimately show ?thesis
    using assms by (auto simp: redo_last_turn_def Let_def thread_ok_def numbered_def intro!: add_text_ok)
qed

text \<open>After an undo, a redo brings the log of turns and the redo stack back as they were, whatever happened before.\<close>

theorem redo_reverts_undo_of_the_log:
  fixes now later :: int
  assumes "thread_ok th" "can_undo th"
  defines "undone \<equiv> snd (undo_last_turn now th)"
  shows "can_redo undone \<and> th_turns (snd (redo_last_turn later undone)) = th_turns th
    \<and> th_redo_stack (snd (redo_last_turn later undone)) = th_redo_stack th"
proof -
  have ne: "th_turns th \<noteq> []" using assms(2) by (simp add: can_undo_def)
  have "last (map tn_index (th_turns th)) = length (th_turns th) - 1"
    using assms(1) ne by (simp add: thread_ok_def numbered_def del: last_map)
  then have "(last (th_turns th))\<lparr>tn_index := length (th_turns th) - 1\<rparr> = last (th_turns th)"
    using ne by (simp add: last_map)
  moreover have "th_turns undone = butlast (th_turns th)" "th_redo_stack undone = th_redo_stack th @ [last (th_turns th)]"
    using ne by (simp_all add: undone_def undo_last_turn_def remove_turn_frame)
  ultimately show ?thesis using ne by (simp add: can_redo_def redo_last_turn_def Let_def)
qed

text \<open>One exchange, as the engine leaves it in log and context.\<close>

definition sample_thread :: conv_thread where
  "sample_thread =
     (thread_from_context 0 ''t'' ''l'' ((new_context 0 ''t'' [] 100)\<lparr>cx_messages :=
        [message_user_named ''u'' ''hi'', sample_asking [''1''], message_tool ''r'' ''1'', message_assistant ''yo'']\<rparr>))
       \<lparr>th_turns := [turn_complete 1 ''yo'' (new_turn 0 0 ''hi'')]\<rparr>"

lemmas sample_thread_simps = sample_thread_def thread_from_context_def new_context_def sample_messages message_user_named_def
  turn_complete_def new_turn_def

theorem redo_reverts_undo_of_the_log_witness:
  "th_turns (snd (redo_last_turn 3 (snd (undo_last_turn 2 sample_thread)))) = th_turns sample_thread"
proof -
  have "thread_ok sample_thread" "can_undo sample_thread"
    by (simp_all add: thread_ok_def numbered_def tokens_counted_def can_undo_def sample_thread_simps tokens_of_def answers_call_def
        calls_by_assistant_def)
  then show ?thesis using redo_reverts_undo_of_the_log [of sample_thread 2 3] by blast
qed

section \<open>Departures from the documentation\<close>

text \<open>The redo brings the question and the answer back, but not the tool calls and their results, nor the name of the
  user.\<close>

lemma redo_loses_results:
  "cx_messages (th_context (snd (redo_last_turn 3 (snd (undo_last_turn 2 sample_thread))))) =
     [message_user ''hi'', message_assistant ''yo'']"
proof -
  have small: "prune_if_needed cx = cx" if "\<not> needs_pruning cx" for cx
    using that by (simp add: prune_if_needed_def prune_loop.simps)
  show ?thesis
    by (simp add: redo_last_turn_def Let_def undo_last_turn_def remove_turn_from_context_def last_user_def replace_messages_def
        recalculate_tokens_def add_message_def limit_turns_def needs_pruning_def token_count_def tokens_of_def small
        sample_thread_simps)
qed

text \<open>A nudge or a steer adds a second user message to the turn. The undo then removes the messages from there on, and
  the question of the undone turn stays in the context.\<close>

lemma undo_stops_at_the_nudge:
  defines "nudged \<equiv> sample_thread\<lparr>th_context := (th_context sample_thread)\<lparr>cx_messages :=
     [message_user_named ''u'' ''hi'', message_assistant [], message_user ''nudge'', message_assistant ''yo'']\<rparr>\<rparr>"
  shows "th_turns (snd (undo_last_turn 2 nudged)) = []"
    and "cx_messages (th_context (snd (undo_last_turn 2 nudged))) = [message_user_named ''u'' ''hi'', message_assistant []]"
  by (simp_all add: nudged_def undo_last_turn_def remove_turn_from_context_def last_user_def replace_messages_def
      recalculate_tokens_def sample_thread_simps)

end
