(* ===== verification/Agent_Loop.thy ===== *)
theory Agent_Loop
  imports Context_Compressor Conversation_Threads Failure_Class
begin

text \<open>
  One turn of an agent without progress reports: the rounds of asking the model and running the tools it calls
  (\<open>get_completion\<close>, \<open>get_completion_inner\<close> and \<open>handle_tool_calls\<close> of \<open>agent/engine/completion.rs\<close> and
  \<open>agent/engine/tools.rs\<close>), and the turn around them (\<open>agent/engine/turn.rs\<close>).

  The model, the tools, the cost guard, the controller (steers and halts) and the model that writes summaries are
  functions of an environment; the state records every request with its messages and every tool call that ran. The
  images that attachments add to the copy of a request, and what is stored of the tool results, are part of the
  environment.
  The functions of the source call each other: a round that ran tools asks again by \<open>get_completion\<close>, which
  has its own permission to nudge an empty reply. The calls that wait are a stack of these permissions, so that
  the loop is tail recursive (\<open>agent_loop\<close>). Nudge texts are fields of the environment.
\<close>

section \<open>Texts\<close>

definition wide_pipe :: string where
  "wide_pipe = [CHR 0xEF, CHR 0xBD, CHR 0x9C]"

definition unparsed_tool_markers :: "string list" where
  "unparsed_tool_markers =
     [''|tool_calls'', wide_pipe @ ''tool_calls'', ''|DSML'', wide_pipe @ ''DSML'', ''|invoke'', wide_pipe @ ''invoke'',
      ''<tool_call>'', ''<function_calls>'']"

definition has_marker :: "string \<Rightarrow> bool" where
  "has_marker s \<longleftrightarrow> list_ex (str_contains s) unparsed_tool_markers"

definition looks_like_unparsed_tool_markup :: "string \<Rightarrow> bool" where
  "looks_like_unparsed_tool_markup body \<longleftrightarrow> has_marker (take_chars 200 (utf8_trim_start body))"

fun collapse_blanks :: "nat \<Rightarrow> string list \<Rightarrow> string" where
  "collapse_blanks blanks [] = []"
| "collapse_blanks blanks (l # ls) =
     (if utf8_trim l = []
      then (if 1 < blanks + 1 then collapse_blanks (blanks + 1) ls else l @ newline_str @ collapse_blanks (blanks + 1) ls)
      else l @ newline_str @ collapse_blanks 0 ls)"

definition tag_line :: "string \<Rightarrow> bool" where
  "tag_line l \<longleftrightarrow>
     (let t = utf8_trim l in starts_with t ''<'' \<and> ends_with t ''>'' \<and> length t < 120)"

definition strip_tool_markup :: "string \<Rightarrow> string option" where
  "strip_tool_markup body =
     (if \<not> has_marker body then None
      else Some (utf8_trim (collapse_blanks 0 (str_lines (join_with newline_str
             (filter (\<lambda>l. \<not> tag_line l) (filter (\<lambda>l. \<not> has_marker l) (str_lines body))))))))"

definition budget_not_executed :: string where
  "budget_not_executed =
     ''[Not executed '' @ em_dash_utf8 @ '' tool-iteration budget exhausted. Provide your final answer now using results ''
     @ ''already gathered, in the format the user'' @ [CHR 0x27] @ ''s message asked for.]''"

definition not_executed_note :: string where
  "not_executed_note =
     ''[Not executed '' @ em_dash_utf8 @ '' provide your final answer now using results already gathered.]''"

definition tool_mutates_filesystem :: "string \<Rightarrow> bool" where
  "tool_mutates_filesystem nm \<longleftrightarrow> nm \<in> {''file_write'', ''file_edit''}"

definition budget_reminder_at_percent :: nat where
  "budget_reminder_at_percent = 70"

definition budget_reminder :: "agent_context \<Rightarrow> string option" where
  "budget_reminder cx =
     (let m = cx_max_tool_iterations cx; used = cx_tool_iterations cx
      in if m = 0 then None
         else if used * 100 < m * budget_reminder_at_percent then None
         else Some (newline_str @ newline_str @ ''[Tool budget: '' @ show_nat used @ '' of '' @ show_nat m
                @ '' calls used, '' @ show_nat (m - used)
                @ '' left. Stop opening new lines of investigation. Consolidate what you already have, verify only the ''
                @ ''specific fact you still need, and deliver the final answer '' @ em_dash_utf8
                @ '' in the exact format the user'' @ [CHR 0x27] @ ''s message asked for.]''))"

definition format_steers :: "string list \<Rightarrow> string option" where
  "format_steers steers =
     (case steers of
        [] \<Rightarrow> None
      | [one] \<Rightarrow>
          Some (''[The user sent this while you were working '' @ em_dash_utf8
            @ '' it changes nothing already done, and applies from here] '' @ one)
      | _ \<Rightarrow>
          Some (''[The user sent '' @ show_nat (length steers) @ '' more instructions while you were working '' @ em_dash_utf8
            @ '' they change nothing already done, and apply from here]'' @ newline_str
            @ join_with newline_str (map (\<lambda>s. ''- '' @ s) steers)))"

definition notices_text :: "string list \<Rightarrow> string" where
  "notices_text notices =
     newline_str @ newline_str @ ''[Sent while this step was waiting on you; it came after the question was answered:]''
     @ concat (map (\<lambda>n. newline_str @ ''- '' @ n) notices)"

section \<open>State and environment\<close>

record response =
  rs_message :: message
  rs_model :: string
  rs_finish_reason :: "string option"

text \<open>A tool either fails with an error or yields a result, which may report a failure of its own.\<close>

datatype tool_outcome = Tool_Failed string | Tool_Result bool string

datatype loop_event =
    Asked "message list" bool
  | Ran tool_call
  | Failure_Reset string
  | Failure_Recorded string

record loop_env =
  en_now :: int
  en_snapshot :: message
  en_has_tools :: "nat \<Rightarrow> bool"
  en_exceeded :: "nat \<Rightarrow> bool"
  en_complete :: "nat \<Rightarrow> message list \<Rightarrow> bool \<Rightarrow> router_error + response"
  en_compaction_model :: "(string \<Rightarrow> string option) option"
  en_max_concurrent_tools :: nat
  en_execute :: "nat \<Rightarrow> function_call \<Rightarrow> tool_outcome"
  en_notices :: "nat \<Rightarrow> string list"
  en_steers :: "nat \<Rightarrow> string list"
  en_halt :: "nat \<Rightarrow> string option"
  en_empty_reply_nudge :: string
  en_markup_nudge :: string

record loop_state =
  ls_context :: agent_context
  ls_trace :: "loop_event list"
  ls_compactions :: "compaction_record list"

definition n_events :: "loop_state \<Rightarrow> nat" where
  "n_events st = length (ls_trace st)"

definition on_context :: "(agent_context \<Rightarrow> agent_context) \<Rightarrow> loop_state \<Rightarrow> loop_state" where
  "on_context f st = st\<lparr>ls_context := f (ls_context st)\<rparr>"

definition log_event :: "loop_event \<Rightarrow> loop_state \<Rightarrow> loop_state" where
  "log_event e st = st\<lparr>ls_trace := ls_trace st @ [e]\<rparr>"

text \<open>A compaction replaces the context and may leave a record for a restart.\<close>

definition after_compaction :: "agent_context \<times> compaction_record option \<Rightarrow> loop_state \<Rightarrow> loop_state" where
  "after_compaction c st =
     st\<lparr>ls_context := fst c, ls_compactions := ls_compactions st @ (case snd c of None \<Rightarrow> [] | Some r \<Rightarrow> [r])\<rparr>"

definition compact_if_needed :: "loop_env \<Rightarrow> loop_state \<Rightarrow> loop_state" where
  "compact_if_needed env st =
     after_compaction (compact_context_if_needed (en_now env) (en_compaction_model env) (ls_context st)) st"

definition compact_forced :: "loop_env \<Rightarrow> loop_state \<Rightarrow> loop_state" where
  "compact_forced env st =
     after_compaction (compact_context_forced (en_now env) (en_compaction_model env) (ls_context st)) st"

section \<open>One request\<close>

definition request_messages :: "loop_env \<Rightarrow> loop_state \<Rightarrow> message list" where
  "request_messages env st = to_messages (en_snapshot env) (ls_context st)"

definition send_request :: "loop_env \<Rightarrow> bool \<Rightarrow> loop_state \<Rightarrow> (router_error + response) \<times> loop_state" where
  "send_request env offer st =
     (en_complete env (n_events st) (request_messages env st) offer, log_event (Asked (request_messages env st) offer) st)"

definition budget_error :: router_error where
  "budget_error =
     Validation_Failed (''Budget limit exceeded '' @ em_dash_utf8
       @ '' refusing provider call. Adjust daily_limit_cents or hourly_action_limit in config.'')"

text \<open>The first half of \<open>get_completion_inner\<close>: compaction, the guard, and the request, which is repeated once after a
  compaction when the provider found it too long.\<close>

definition ask_model :: "loop_env \<Rightarrow> bool \<Rightarrow> loop_state \<Rightarrow> (router_error + response) \<times> loop_state" where
  "ask_model env closing st =
     (let st1 = compact_if_needed env st; offer = (\<not> closing \<and> en_has_tools env (n_events st))
      in if en_exceeded env (n_events st1) then (Inl budget_error, st1)
         else case send_request env offer st1 of
                (Inr r, st2) \<Rightarrow> (Inr r, st2)
              | (Inl e, st2) \<Rightarrow>
                  if from_error e None = ContextLength then send_request env offer (compact_forced env st2)
                  else (Inl e, st2))"

section \<open>Tool calls\<close>

definition not_executed_batch :: "string \<Rightarrow> response \<Rightarrow> tool_call list \<Rightarrow> message list" where
  "not_executed_batch body r calls =
     with_tool_calls (rs_message r) calls # map (\<lambda>c. message_tool body (tc_id c)) calls"

definition filtered_calls :: "loop_env \<Rightarrow> agent_context \<Rightarrow> tool_call list \<Rightarrow> tool_call list" where
  "filtered_calls env cx calls =
     filter (\<lambda>c. context_tool_allowed (cx_delegation cx) (fc_name (tc_function c)))
       (filter (\<lambda>c. \<not> is_tool_call_duplicate cx (fc_name (tc_function c)) (fc_arguments (tc_function c)))
          (take (en_max_concurrent_tools env) calls))"

text \<open>One call: it is recorded as executed before it runs.\<close>

definition run_tool_call :: "loop_env \<Rightarrow> tool_call \<Rightarrow> loop_state \<Rightarrow> (string \<times> string) \<times> loop_state" where
  "run_tool_call env c st =
     (let f = tc_function c;
          st1 = on_context (record_tool_call (fc_name f) (fc_arguments f)) st;
          st2 = log_event (Ran c) st1
      in case en_execute env (n_events st1) f of
           Tool_Result ok body \<Rightarrow>
             ((tc_id c, body),
              on_context (if tool_mutates_filesystem (fc_name f) then clear_executed_tool_calls else id)
                (log_event (Failure_Reset (fc_name f)) st2))
         | Tool_Failed e \<Rightarrow>
             ((tc_id c, ''Tool execution failed: '' @ e), log_event (Failure_Recorded (fc_name f)) st2))"

fun run_calls :: "loop_env \<Rightarrow> tool_call list \<Rightarrow> loop_state \<Rightarrow> (string \<times> string) list \<times> loop_state" where
  "run_calls env [] st = ([], st)"
| "run_calls env (c # cs) st =
     (case run_tool_call env c st of
        (r, st1) \<Rightarrow> (case run_calls env cs st1 of (rs, st2) \<Rightarrow> (r # rs, st2)))"

text \<open>Appending to the text of the last result.\<close>

fun append_to_last :: "string \<Rightarrow> (string \<times> string) list \<Rightarrow> (string \<times> string) list" where
  "append_to_last note [] = []"
| "append_to_last note [(i, body)] = [(i, body @ note)]"
| "append_to_last note (r # rs) = r # append_to_last note rs"

definition attach_notices :: "string list \<Rightarrow> (string \<times> string) list \<Rightarrow> (string \<times> string) list" where
  "attach_notices notices results = (if notices = [] then results else append_to_last (notices_text notices) results)"

definition attach_reminder :: "agent_context \<Rightarrow> (string \<times> string) list \<Rightarrow> (string \<times> string) list" where
  "attach_reminder cx results =
     (case budget_reminder cx of None \<Rightarrow> results | Some note \<Rightarrow> append_to_last note results)"

definition result_batch :: "response \<Rightarrow> tool_call list \<Rightarrow> (string \<times> string) list \<Rightarrow> message list" where
  "result_batch r calls results =
     with_tool_calls (rs_message r) calls # map (\<lambda>(i, body). message_tool body i) results"

definition halted_response :: "string \<Rightarrow> response" where
  "halted_response reason =
     \<lparr>rs_message = message_assistant (''Execution halted: '' @ reason), rs_model = ''system'',
      rs_finish_reason = Some ''cancelled''\<rparr>"

datatype round_outcome = Round_Failed router_error | Round_Reply response | Round_Again

text \<open>The round without tools that closes a turn. What it returns is the reply as it came, except that markup is
  stripped from it.\<close>

definition final_round :: "loop_env \<Rightarrow> loop_state \<Rightarrow> round_outcome \<times> loop_state" where
  "final_round env st =
     (case ask_model env True st of
        (Inl e, st1) \<Rightarrow> (Round_Failed e, st1)
      | (Inr r, st1) \<Rightarrow>
          (case strip_tool_markup (msg_content (rs_message r)) of
             Some cleaned \<Rightarrow>
               let m = (rs_message r)\<lparr>msg_content := cleaned, msg_tool_calls := None\<rparr>
               in (Round_Reply (r\<lparr>rs_message := m\<rparr>), on_context (add_message (en_now env) m) st1)
           | None \<Rightarrow>
               (Round_Reply r, on_context (add_message (en_now env) ((rs_message r)\<lparr>msg_tool_calls := None\<rparr>)) st1)))"

definition add_steers :: "loop_env \<Rightarrow> loop_state \<Rightarrow> loop_state" where
  "add_steers env st =
     (case format_steers (en_steers env (n_events st)) of
        None \<Rightarrow> st
      | Some body \<Rightarrow> on_context (add_batch (en_now env) [message_user body]) st)"

definition handle_tool_calls :: "loop_env \<Rightarrow> response \<Rightarrow> tool_call list \<Rightarrow> loop_state \<Rightarrow> round_outcome \<times> loop_state" where
  "handle_tool_calls env r calls st =
     (let (within, cx1) = increment_tool_iteration (ls_context st); st1 = st\<lparr>ls_context := cx1\<rparr>
      in if \<not> within
         then final_round env (on_context (add_batch (en_now env) (not_executed_batch budget_not_executed r calls)) st1)
         else let todo = filtered_calls env cx1 calls
              in if todo = []
                 then final_round env (on_context (add_batch (en_now env) (not_executed_batch not_executed_note r calls)) st1)
                 else let (results, st2) = run_calls env todo st1;
                          results1 = attach_reminder (ls_context st2) (attach_notices (en_notices env (n_events st2)) results);
                          st3 = on_context (add_batch (en_now env) (result_batch r todo results1)) st2;
                          st4 = add_steers env st3
                      in case en_halt env (n_events st4) of
                           Some reason \<Rightarrow> (Round_Reply (halted_response reason), st4)
                         | None \<Rightarrow> (Round_Again, st4))"

text \<open>\<open>get_completion_inner\<close> of an ordinary round.\<close>

definition ordinary_round :: "loop_env \<Rightarrow> loop_state \<Rightarrow> round_outcome \<times> loop_state" where
  "ordinary_round env st =
     (case ask_model env False st of
        (Inl e, st1) \<Rightarrow> (Round_Failed e, st1)
      | (Inr r, st1) \<Rightarrow>
          (case msg_tool_calls (rs_message r) of
             Some (c # cs) \<Rightarrow> handle_tool_calls env r (c # cs) st1
           | _ \<Rightarrow>
               if looks_like_unparsed_tool_markup (msg_content (rs_message r))
               then final_round env
                      (on_context (add_message (en_now env) (message_user (en_markup_nudge env)))
                        (on_context (add_message (en_now env) (rs_message r)) st1))
               else (Round_Reply r, on_context (add_message (en_now env) (rs_message r)) st1)))"

section \<open>The loop\<close>

definition has_output :: "response \<Rightarrow> bool" where
  "has_output r \<longleftrightarrow>
     utf8_trim (msg_content (rs_message r)) \<noteq> []
     \<or> (case msg_tool_calls (rs_message r) of None \<Rightarrow> False | Some calls \<Rightarrow> calls \<noteq> [])"

text \<open>A reply goes back through the waiting calls; the first that has not nudged yet keeps an empty one.\<close>

fun return_reply :: "response \<Rightarrow> bool list \<Rightarrow> bool list option" where
  "return_reply r [] = None"
| "return_reply r (nudged_empty # frames) =
     (if has_output r \<or> nudged_empty then return_reply r frames else Some (True # frames))"

definition nudge :: "loop_env \<Rightarrow> loop_state \<Rightarrow> loop_state" where
  "nudge env st = on_context (add_message (en_now env) (message_user (en_empty_reply_nudge env))) st"

text \<open>The tool rounds that are left.\<close>

definition rounds_left :: "loop_state \<Rightarrow> nat" where
  "rounds_left st = cx_max_tool_iterations (ls_context st) - 1 - cx_tool_iterations (ls_context st)"

lemma return_reply_fewer:
  "return_reply r frames = Some frames' \<Longrightarrow> length (filter Not frames') < length (filter Not frames)"
  by (induction frames) (auto split: if_splits)

section \<open>What the steps leave alone\<close>

definition same_limits :: "agent_context \<Rightarrow> agent_context \<Rightarrow> bool" where
  "same_limits a b \<longleftrightarrow>
     cx_max_tool_iterations a = cx_max_tool_iterations b \<and> cx_tool_iterations a = cx_tool_iterations b
     \<and> cx_max_turns a = cx_max_turns b \<and> cx_delegation a = cx_delegation b"

lemma same_limits_refl [simp]: "same_limits a a"
  by (simp add: same_limits_def)

lemma same_limits_trans [trans]: "same_limits a b \<Longrightarrow> same_limits b c \<Longrightarrow> same_limits a c"
  by (simp add: same_limits_def)

lemma same_settings_limits: "same_settings a b \<Longrightarrow> same_limits a b"
  by (simp add: same_limits_def same_settingsD)

lemma same_limits_simps [simp]:
  "same_limits (add_batch now ms cx) cx" "same_limits (add_message now m cx) cx"
  "same_limits (record_tool_call a b cx) cx" "same_limits (clear_executed_tool_calls cx) cx"
  "same_limits (fst (compact_context_forced now model cx)) cx"
  by (auto intro: same_settings_limits add_batch_settings forced_settings simp: add_message_batch)
    (simp_all add: same_limits_def record_tool_call_def clear_executed_tool_calls_def)

lemma same_limits_if_needed [simp]: "same_limits (fst (compact_context_if_needed now model cx)) cx"
  by (simp add: compact_context_if_needed_def)

lemma state_simps [simp]:
  "ls_context (on_context f st) = f (ls_context st)" "ls_trace (on_context f st) = ls_trace st"
  "ls_context (log_event e st) = ls_context st" "ls_trace (log_event e st) = ls_trace st @ [e]"
  "ls_context (after_compaction c st) = fst c" "ls_trace (after_compaction c st) = ls_trace st"
  by (simp_all add: on_context_def log_event_def after_compaction_def)

definition is_asked :: "loop_event \<Rightarrow> bool" where
  "is_asked e = (case e of Asked _ _ \<Rightarrow> True | _ \<Rightarrow> False)"

definition is_ran :: "loop_event \<Rightarrow> bool" where
  "is_ran e = (case e of Ran _ \<Rightarrow> True | _ \<Rightarrow> False)"

lemma event_simps [simp]:
  "is_asked (Asked ms b)" "\<not> is_asked (Ran c)" "\<not> is_asked (Failure_Reset x)" "\<not> is_asked (Failure_Recorded x)"
  "\<not> is_ran (Asked ms b)" "is_ran (Ran c)" "\<not> is_ran (Failure_Reset x)" "\<not> is_ran (Failure_Recorded x)"
  by (simp_all add: is_asked_def is_ran_def)

definition requests :: "loop_state \<Rightarrow> nat" where
  "requests st = length (filter is_asked (ls_trace st))"

definition tool_runs :: "loop_state \<Rightarrow> nat" where
  "tool_runs st = length (filter is_ran (ls_trace st))"

lemma attach_ids: "map fst (attach_reminder cx (attach_notices notices results)) = map fst results"
proof -
  have "map fst (append_to_last extra rs) = map fst rs" for extra rs
    by (induction extra rs rule: append_to_last.induct) auto
  then show ?thesis by (simp add: attach_reminder_def attach_notices_def split: option.split)
qed

lemma add_single: "add_batch now [m] = add_message now m"
  by (rule ext) (simp add: add_message_batch)

text \<open>An invariant of the loop is kept by every step on its own: the steps on the context, the requests and the runs.\<close>

locale loop_invariant =
  fixes env :: loop_env and inv :: "loop_state \<Rightarrow> bool"
  assumes compacts: "inv st \<Longrightarrow> inv (compact_forced env st)"
    and asks: "inv st \<Longrightarrow> inv (log_event (Asked (request_messages env st) offer) st)"
    and reply: "inv st \<Longrightarrow> en_complete env n ms b = Inr r \<Longrightarrow> call_ids (rs_message r) = [] \<Longrightarrow>
      inv (on_context (add_message (en_now env) (rs_message r)) st)"
    and bare_reply: "inv st \<Longrightarrow> en_complete env n ms b = Inr r \<Longrightarrow>
      inv (on_context (add_message (en_now env) ((rs_message r)\<lparr>msg_content := body, msg_tool_calls := None\<rparr>)) st)"
    and user_text: "inv st \<Longrightarrow> inv (on_context (add_message (en_now env) (message_user body)) st)"
    and refused: "inv st \<Longrightarrow> en_complete env n ms b = Inr r \<Longrightarrow>
      inv (on_context (add_batch (en_now env) (not_executed_batch body r calls)) st)"
    and counts: "inv st \<Longrightarrow> inv (st\<lparr>ls_context := snd (increment_tool_iteration (ls_context st))\<rparr>)"
    and runs: "inv st \<Longrightarrow> fst (increment_tool_iteration (ls_context st)) \<Longrightarrow> en_complete env n ms b = Inr r \<Longrightarrow>
      todo = filtered_calls env (snd (increment_tool_iteration (ls_context st))) calls \<Longrightarrow> todo \<noteq> [] \<Longrightarrow>
      run_calls env todo (st\<lparr>ls_context := snd (increment_tool_iteration (ls_context st))\<rparr>) = (results, st2) \<Longrightarrow>
      map fst results' = map fst results \<Longrightarrow>
      inv (on_context (add_batch (en_now env) (result_batch r todo results')) st2)"
begin

lemma compact_if_needed_inv: "inv st \<Longrightarrow> inv (compact_if_needed env st)"
  using compacts [of st]
  by (simp add: compact_if_needed_def compact_forced_def compact_context_if_needed_def after_compaction_def)

lemma ask_inv:
  assumes "inv st" "ask_model env closing st = (res, st')"
  shows "inv st' \<and> (\<forall>r. res = Inr r \<longrightarrow> (\<exists>n ms b. en_complete env n ms b = Inr r))"
  using assms(2) compact_if_needed_inv [OF assms(1)] asks compacts
  by (auto simp: ask_model_def send_request_def Let_def split: if_splits sum.splits)

lemma final_inv: "inv st \<Longrightarrow> final_round env st = (out, st') \<Longrightarrow> inv st'"
proof -
  assume inv: "inv st" and final: "final_round env st = (out, st')"
  obtain res st1 where ask: "ask_model env True st = (res, st1)" by (cases "ask_model env True st")
  note asked = ask_inv [OF inv ask]
  show "inv st'"
  proof (cases res)
    case (Inr r)
    then obtain n ms b where "en_complete env n ms b = Inr r" using asked by blast
    then have "inv (on_context (add_message (en_now env) ((rs_message r)\<lparr>msg_content := body, msg_tool_calls := None\<rparr>)) st1)" for body
      using bare_reply asked by blast
    from this this [of "msg_content (rs_message r)"] show ?thesis
      using final ask Inr by (auto simp: final_round_def Let_def split: option.splits)
  qed (use final ask asked in \<open>simp add: final_round_def\<close>)
qed

lemma steers_inv: "inv st \<Longrightarrow> inv (add_steers env st)"
  using user_text [of st] by (simp add: add_steers_def add_single split: option.split)

lemma handle_inv:
  assumes "inv st" "en_complete env n ms b = Inr r" "handle_tool_calls env r calls st = (out, st')"
  shows "inv st'"
proof -
  let ?cx1 = "snd (increment_tool_iteration (ls_context st))"
  let ?st1 = "st\<lparr>ls_context := ?cx1\<rparr>"
  let ?todo = "filtered_calls env ?cx1 calls"
  have st1: "inv ?st1" using counts [OF assms(1)] .
  show ?thesis
  proof (cases "fst (increment_tool_iteration (ls_context st)) \<and> ?todo \<noteq> []")
    case False
    then have "\<exists>body. final_round env (on_context (add_batch (en_now env) (not_executed_batch body r calls)) ?st1) = (out, st')"
      using assms(3) by (auto simp: handle_tool_calls_def Let_def case_prod_unfold split: if_splits)
    then show ?thesis using final_inv refused [OF st1 assms(2)] by blast
  next
    case True
    obtain results st2 where run: "run_calls env ?todo ?st1 = (results, st2)" by (cases "run_calls env ?todo ?st1")
    let ?res = "attach_reminder (ls_context st2) (attach_notices (en_notices env (n_events st2)) results)"
    let ?st3 = "on_context (add_batch (en_now env) (result_batch r ?todo ?res)) st2"
    have "st' = add_steers env ?st3"
      using assms(3) True run by (auto simp: handle_tool_calls_def Let_def case_prod_unfold split: option.splits)
    moreover have "inv ?st3" using runs [OF assms(1) _ assms(2) refl _ run attach_ids] True by blast
    ultimately show ?thesis using steers_inv by simp
  qed
qed

lemma round_inv:
  assumes "inv st" "ordinary_round env st = (out, st')"
  shows "inv st'"
proof -
  obtain res st1 where ask: "ask_model env False st = (res, st1)" by (cases "ask_model env False st")
  note asked = ask_inv [OF assms(1) ask]
  show ?thesis
  proof (cases res)
    case (Inr r)
    then obtain n ms b where r: "en_complete env n ms b = Inr r" using asked by blast
    show ?thesis
    proof (cases "call_ids (rs_message r) = []")
      case True
      then have added: "inv (on_context (add_message (en_now env) (rs_message r)) st1)" using reply [OF _ r] asked by blast
      have "st' = on_context (add_message (en_now env) (rs_message r)) st1
          \<or> final_round env (on_context (add_message (en_now env) (message_user (en_markup_nudge env)))
               (on_context (add_message (en_now env) (rs_message r)) st1)) = (out, st')"
        using assms(2) ask Inr True
        by (auto simp: ordinary_round_def call_ids_def split: option.splits list.splits if_splits)
      then show ?thesis using added final_inv [OF user_text [OF added]] by blast
    next
      case False
      then have "\<exists>calls. handle_tool_calls env r calls st1 = (out, st')"
        using assms(2) ask Inr by (auto simp: ordinary_round_def call_ids_def split: option.splits list.splits if_splits)
      then show ?thesis using handle_inv [OF _ r] asked by blast
    qed
  qed (use assms(2) ask asked in \<open>simp add: ordinary_round_def\<close>)
qed

end

section \<open>Progress\<close>

lemma run_call_frame:
  assumes "run_tool_call env c st = (res, st')"
  shows "same_limits (ls_context st') (ls_context st)" "cx_messages (ls_context st') = cx_messages (ls_context st)"
    "cx_token_count (ls_context st') = cx_token_count (ls_context st)" "fst res = tc_id c"
    "requests st' = requests st" "tool_runs st' = Suc (tool_runs st)"
    "\<exists>e. ls_trace st' = ls_trace st @ [Ran c, e] \<and> \<not> is_asked e \<and> \<not> is_ran e"
proof -
  note defs = assms run_tool_call_def Let_def requests_def tool_runs_def same_limits_def record_tool_call_def
    clear_executed_tool_calls_def
  show "same_limits (ls_context st') (ls_context st)" "cx_messages (ls_context st') = cx_messages (ls_context st)"
    "cx_token_count (ls_context st') = cx_token_count (ls_context st)" "fst res = tc_id c"
    "requests st' = requests st" "tool_runs st' = Suc (tool_runs st)"
    "\<exists>e. ls_trace st' = ls_trace st @ [Ran c, e] \<and> \<not> is_asked e \<and> \<not> is_ran e"
    using assms by (auto simp: defs split: tool_outcome.splits)
qed

lemma run_calls_frame:
  "run_calls env cs st = (results, st') \<Longrightarrow>
   same_limits (ls_context st') (ls_context st) \<and> cx_messages (ls_context st') = cx_messages (ls_context st)
   \<and> cx_token_count (ls_context st') = cx_token_count (ls_context st) \<and> map fst results = map tc_id cs
   \<and> requests st' = requests st \<and> tool_runs st' = tool_runs st + length cs
   \<and> set (ls_trace st') \<subseteq> set (ls_trace st) \<union> Ran ` set cs \<union> {e. \<not> is_asked e \<and> \<not> is_ran e}"
proof (induction cs arbitrary: st results)
  case (Cons c cs)
  obtain res st1 where one: "run_tool_call env c st = (res, st1)" by (cases "run_tool_call env c st")
  obtain rest where rest: "run_calls env cs st1 = (rest, st')" "results = res # rest"
    using Cons.prems one by (auto split: prod.splits)
  note f = run_call_frame [OF one] and IH = Cons.IH [OF rest(1)]
  obtain e where e: "ls_trace st1 = ls_trace st @ [Ran c, e]" "\<not> is_asked e" "\<not> is_ran e" using f(7) by blast
  have "set (ls_trace st') \<subseteq> set (ls_trace st) \<union> Ran ` set (c # cs) \<union> {e. \<not> is_asked e \<and> \<not> is_ran e}"
    using IH e by auto
  moreover have "same_limits (ls_context st') (ls_context st)" using IH f(1) same_limits_trans by blast
  ultimately show ?case using IH f(2-6) rest(2) by simp
qed auto

lemma run_calls_asked:
  assumes "run_calls env cs st = (results, st')" "Asked ms b \<in> set (ls_trace st')"
  shows "Asked ms b \<in> set (ls_trace st)"
proof -
  have "set (ls_trace st') \<subseteq> set (ls_trace st) \<union> Ran ` set cs \<union> {e. \<not> is_asked e \<and> \<not> is_ran e}"
    using run_calls_frame [OF assms(1)] by blast
  then show ?thesis using assms(2) by auto
qed

lemma requests_simps [simp]:
  "requests (on_context f st) = requests st" "requests (after_compaction c st) = requests st"
  "requests (st\<lparr>ls_context := cx\<rparr>) = requests st" "requests (log_event (Asked ms b) st) = Suc (requests st)"
  "tool_runs (on_context f st) = tool_runs st" "tool_runs (after_compaction c st) = tool_runs st"
  "tool_runs (st\<lparr>ls_context := cx\<rparr>) = tool_runs st" "tool_runs (log_event (Asked ms b) st) = tool_runs st"
  by (simp_all add: requests_def tool_runs_def)

lemma ask_frame:
  assumes "ask_model env closing st = (res, st')"
  shows "same_limits (ls_context st') (ls_context st) \<and> requests st' \<le> requests st + 2 \<and> tool_runs st' = tool_runs st"
  using assms
  by (auto simp: ask_model_def send_request_def compact_if_needed_def compact_forced_def Let_def
      intro: same_limits_trans [OF same_limits_simps(5) same_limits_if_needed] split: if_splits sum.splits)

lemma final_frame:
  assumes "final_round env st = (out, st')"
  shows "same_limits (ls_context st') (ls_context st) \<and> requests st' \<le> requests st + 2 \<and> tool_runs st' = tool_runs st
    \<and> out \<noteq> Round_Again"
proof -
  obtain res st1 where ask: "ask_model env True st = (res, st1)" by (cases "ask_model env True st")
  have "same_limits (add_message now m (ls_context st1)) (ls_context st)" for now m
    using ask_frame [OF ask] same_limits_simps(2) same_limits_trans by blast
  then show ?thesis using assms ask ask_frame [OF ask]
    by (auto simp: final_round_def Let_def split: sum.splits option.splits)
qed

lemma steers_frame: "same_limits (ls_context (add_steers env st)) (ls_context st)"
  "requests (add_steers env st) = requests st" "tool_runs (add_steers env st) = tool_runs st"
  by (simp_all add: add_steers_def split: option.split)

text \<open>What a round that handled tool calls used up.\<close>

definition round_cost :: "loop_env \<Rightarrow> loop_state \<Rightarrow> loop_state \<Rightarrow> round_outcome \<Rightarrow> bool" where
  "round_cost env st st' out \<longleftrightarrow>
     cx_max_tool_iterations (ls_context st') = cx_max_tool_iterations (ls_context st)
     \<and> cx_delegation (ls_context st') = cx_delegation (ls_context st)
     \<and> rounds_left st' \<le> rounds_left st \<and> (out = Round_Again \<longrightarrow> rounds_left st' < rounds_left st)
     \<and> requests st' \<le> requests st + 4
     \<and> tool_runs st' + en_max_concurrent_tools env * rounds_left st'
         \<le> tool_runs st + en_max_concurrent_tools env * rounds_left st"

lemma rounds_left_limits: "same_limits (ls_context a) (ls_context b) \<Longrightarrow> rounds_left a = rounds_left b"
  by (simp add: same_limits_def rounds_left_def)

lemma filtered_length: "length (filtered_calls env cx calls) \<le> en_max_concurrent_tools env"
  unfolding filtered_calls_def by (metis length_filter_le length_take min.cobounded2 order_trans)

lemma handle_frame:
  assumes "handle_tool_calls env r calls st = (out, st')"
  shows "round_cost env st st' out \<and> requests st' \<le> requests st + 2"
proof -
  let ?cx1 = "snd (increment_tool_iteration (ls_context st))"
  let ?st1 = "st\<lparr>ls_context := ?cx1\<rparr>" and ?k = "en_max_concurrent_tools env"
  let ?todo = "filtered_calls env ?cx1 calls"
  have cx1: "cx_tool_iterations ?cx1 = Suc (cx_tool_iterations (ls_context st))"
    "cx_max_tool_iterations ?cx1 = cx_max_tool_iterations (ls_context st)" "cx_delegation ?cx1 = cx_delegation (ls_context st)"
    by (simp_all add: increment_tool_iteration_def Let_def)
  have left: "rounds_left ?st1 = rounds_left st - 1" by (simp add: rounds_left_def cx1)
  show ?thesis
  proof (cases "fst (increment_tool_iteration (ls_context st)) \<and> ?todo \<noteq> []")
    case False
    then obtain body where final:
      "final_round env (on_context (add_batch (en_now env) (not_executed_batch body r calls)) ?st1) = (out, st')"
      using assms by (auto simp: handle_tool_calls_def Let_def case_prod_unfold split: if_splits)
    note f = final_frame [OF final]
    have lim: "same_limits (ls_context st') ?cx1" using f by (auto intro: same_limits_trans [OF _ same_limits_simps(1)])
    have "rounds_left st' = rounds_left st - 1" using rounds_left_limits [of st' ?st1] lim left by simp
    then show ?thesis using f lim cx1
      by (auto simp: round_cost_def same_limits_def intro!: add_mono mult_le_mono2)
  next
    case True
    then have within: "Suc (cx_tool_iterations (ls_context st)) < cx_max_tool_iterations (ls_context st)"
      by (simp add: increment_tool_iteration_def Let_def)
    obtain results st2 where run: "run_calls env ?todo ?st1 = (results, st2)" by (cases "run_calls env ?todo ?st1")
    note f = run_calls_frame [OF run]
    obtain ms where st': "st' = add_steers env (on_context (add_batch (en_now env) ms) st2)"
      using assms True run by (auto simp: handle_tool_calls_def Let_def case_prod_unfold split: option.splits)
    have "same_limits (ls_context st') (ls_context st2)"
      unfolding st' using same_limits_trans [OF steers_frame(1)] same_limits_simps(1) by fastforce
    then have lim: "same_limits (ls_context st') ?cx1" using f same_limits_trans by fastforce
    have fewer: "rounds_left st' = rounds_left st - 1" using rounds_left_limits [of st' ?st1] lim left by simp
    have pos: "0 < rounds_left st" using within by (simp add: rounds_left_def)
    have "tool_runs st' = tool_runs st + length ?todo" "requests st' = requests st" using f by (simp_all add: st' steers_frame)
    moreover have "length ?todo + ?k * (rounds_left st - 1) \<le> ?k * rounds_left st"
      using filtered_length [of env ?cx1 calls] pos by (cases "rounds_left st") auto
    ultimately show ?thesis using lim cx1 fewer pos by (auto simp: round_cost_def same_limits_def)
  qed
qed

lemma round_frame:
  assumes "ordinary_round env st = (out, st')"
  shows "round_cost env st st' out"
proof -
  obtain res st1 where ask: "ask_model env False st = (res, st1)" by (cases "ask_model env False st")
  note a = ask_frame [OF ask]
  have left: "rounds_left st1 = rounds_left st" using a rounds_left_limits by blast
  have quiet: "round_cost env st st2 out2" if "same_limits (ls_context st2) (ls_context st1)" "requests st2 \<le> requests st1 + 2"
    "tool_runs st2 = tool_runs st1" "out2 \<noteq> Round_Again" for st2 out2
    using that a left rounds_left_limits [OF that(1)] by (auto simp: round_cost_def same_limits_def)
  have handled: "round_cost env st st2 out2" if "handle_tool_calls env r calls st1 = (out2, st2)" for r calls out2 st2
    using handle_frame [OF that] a left by (auto simp: round_cost_def same_limits_def)
  have texts: "same_limits (add_message now m (add_message now m' (ls_context st1))) (ls_context st1)" for now m m'
    using same_limits_trans [OF same_limits_simps(2) same_limits_simps(2)] .
  show ?thesis
  proof (cases res)
    case (Inr r)
    show ?thesis
    proof (cases "call_ids (rs_message r) = []")
      case True
      let ?added = "on_context (add_message (en_now env) (rs_message r)) st1"
      let ?nudged = "on_context (add_message (en_now env) (message_user (en_markup_nudge env))) ?added"
      have eq: "ordinary_round env st =
          (if looks_like_unparsed_tool_markup (msg_content (rs_message r)) then final_round env ?nudged
           else (Round_Reply r, ?added))"
        using True by (simp add: ordinary_round_def ask Inr call_ids_def split: option.splits list.splits)
      show ?thesis
      proof (cases "looks_like_unparsed_tool_markup (msg_content (rs_message r))")
        case True
        then have f: "same_limits (ls_context st') (ls_context ?nudged)" "requests st' \<le> requests st1 + 2"
          "tool_runs st' = tool_runs st1" "out \<noteq> Round_Again"
          using final_frame [of env ?nudged out st'] assms eq by simp_all
        have "same_limits (ls_context st') (ls_context st1)" using f(1) texts same_limits_trans by simp
        then show ?thesis using quiet f(2-4) by blast
      qed (use assms eq in \<open>auto intro!: quiet\<close>)
    next
      case False
      then obtain calls where "handle_tool_calls env r calls st1 = (out, st')"
        using assms by (auto simp: ordinary_round_def ask Inr call_ids_def split: option.splits list.splits)
      then show ?thesis by (rule handled)
    qed
  next
    case (Inl e)
    then show ?thesis using assms ask by (auto simp: ordinary_round_def intro!: quiet)
  qed
qed

lemma nudge_frame:
  "rounds_left (nudge env st) = rounds_left st" "requests (nudge env st) = requests st" "tool_runs (nudge env st) = tool_runs st"
  "same_limits (ls_context (nudge env st)) (ls_context st)"
  by (simp_all add: nudge_def rounds_left_limits)

function agent_loop :: "loop_env \<Rightarrow> bool list \<Rightarrow> loop_state \<Rightarrow> (router_error + response) \<times> loop_state" where
  "agent_loop env frames st =
     (case ordinary_round env st of
        (Round_Failed e, st1) \<Rightarrow> (Inl e, st1)
      | (Round_Reply r, st1) \<Rightarrow>
          (case return_reply r frames of
             None \<Rightarrow> (Inr r, st1)
           | Some frames' \<Rightarrow> agent_loop env frames' (nudge env st1))
      | (Round_Again, st1) \<Rightarrow> agent_loop env (False # frames) st1)"
  by pat_completeness auto

termination
proof (relation "measure (\<lambda>(_, frames, st). 2 * rounds_left st + length (filter Not frames))")
  fix env frames st out st1 r frames'
  assume "(out, st1) = ordinary_round env st" "return_reply r frames = Some frames'"
  then show "((env, frames', nudge env st1), env, frames, st)
      \<in> measure (\<lambda>(_, frames, st). 2 * rounds_left st + length (filter Not frames))"
    using round_frame [of env st out st1] return_reply_fewer [of r frames frames']
    by (simp add: nudge_frame round_cost_def)
next
  fix env frames st out st1
  assume "(out, st1) = ordinary_round env st" "out = Round_Again"
  then show "((env, False # frames, st1), env, frames, st)
      \<in> measure (\<lambda>(_, frames, st). 2 * rounds_left st + length (filter Not frames))"
    using round_frame [of env st out st1] by (simp add: round_cost_def)
qed simp

declare agent_loop.simps [simp del]

definition get_completion :: "loop_env \<Rightarrow> loop_state \<Rightarrow> (router_error + response) \<times> loop_state" where
  "get_completion env st = agent_loop env [False] st"

section \<open>A turn\<close>

text \<open>The middle of \<open>process_message\<close>: the thread of the conversation has been taken out of the map, and the turn is
  logged around the loop. \<open>limit\<close> is the override of an ACP session.\<close>

definition model_content :: "string \<Rightarrow> string option \<Rightarrow> string" where
  "model_content body mentions = (case mentions of None \<Rightarrow> body | Some block \<Rightarrow> body @ newline_str @ newline_str @ block)"

definition enter_turn :: "loop_env \<Rightarrow> nat option \<Rightarrow> string \<Rightarrow> string \<Rightarrow> string option \<Rightarrow> agent_context \<Rightarrow> loop_state" where
  "enter_turn env limit user_id body mentions cx =
     \<lparr>ls_context = add_message (en_now env) (message_user_named user_id (model_content body mentions))
        (clear_tools_used (case limit of None \<Rightarrow> cx | Some n \<Rightarrow> set_max_tool_iterations n cx)),
      ls_trace = [], ls_compactions = []\<rparr>"

definition run_turn ::
  "loop_env \<Rightarrow> nat option \<Rightarrow> string \<Rightarrow> string \<Rightarrow> string option \<Rightarrow> conv_thread
    \<Rightarrow> (router_error + response) \<times> loop_event list \<times> conv_thread" where
  "run_turn env limit user_id body mentions th =
     (let (i, th1) = push_turn (en_now env) body th;
          th2 = update_turn i (turn_start (en_now env)) th1;
          (res, st) = get_completion env (enter_turn env limit user_id body mentions (th_context th2));
          th3 = th2\<lparr>th_context := ls_context st\<rparr>
      in (res, ls_trace st,
          case res of
            Inr r \<Rightarrow> update_turn i (turn_complete (en_now env) (msg_content (rs_message r))) th3
          | Inl e \<Rightarrow> update_turn i (turn_mark_error (en_now env)) th3))"

section \<open>Bounds\<close>

lemma rounds_cost:
  "agent_loop env frames st = (res, st') \<Longrightarrow>
   requests st' \<le> requests st + 4 * (2 * rounds_left st + length (filter Not frames) + 1)
   \<and> tool_runs st' + en_max_concurrent_tools env * rounds_left st' \<le> tool_runs st + en_max_concurrent_tools env * rounds_left st
   \<and> rounds_left st' \<le> rounds_left st"
proof (induction env frames st arbitrary: res st' rule: agent_loop.induct)
  case (1 env frames st)
  obtain out st1 where round: "ordinary_round env st = (out, st1)" by (cases "ordinary_round env st")
  note cost = round_frame [OF round, unfolded round_cost_def]
  show ?case
  proof (cases out)
    case (Round_Reply r)
    show ?thesis
    proof (cases "return_reply r frames")
      case (Some frames')
      then have "agent_loop env frames' (nudge env st1) = (res, st')"
        using "1.prems" round Round_Reply by (subst (asm) agent_loop.simps) simp
      note IH = "1.IH"(1) [OF round [symmetric] Round_Reply Some this, unfolded nudge_frame]
      have "requests st' \<le> requests st + 4 * (2 * rounds_left st + length (filter Not frames) + 1)"
        using IH cost return_reply_fewer [OF Some] by auto
      then show ?thesis using IH cost by (auto intro: order_trans)
    qed (use "1.prems" round Round_Reply cost in \<open>subst (asm) agent_loop.simps, simp\<close>)
  next
    case Round_Again
    then have "agent_loop env (False # frames) st1 = (res, st')"
      using "1.prems" round by (subst (asm) agent_loop.simps) simp
    note IH = "1.IH"(2) [OF round [symmetric] Round_Again this]
    have "rounds_left st1 < rounds_left st" using cost Round_Again by simp
    then show ?thesis using IH cost by simp
  next
    case (Round_Failed e)
    then have "st1 = st'" using "1.prems" round by (subst (asm) agent_loop.simps) simp
    then show ?thesis using cost by simp
  qed
qed

text \<open>C40. Every turn ends. However the model, the tools and the user behave, it asks the model at most eight times for each tool
  round that is left and eight times more, and it runs at most the allowed number of tools in each of these rounds.\<close>

theorem turn_effort_bounded:
  assumes "get_completion env st = (res, st')"
  shows "requests st' \<le> requests st + 8 * rounds_left st + 8
    \<and> tool_runs st' \<le> tool_runs st + en_max_concurrent_tools env * rounds_left st"
  using rounds_cost [OF assms [unfolded get_completion_def]] by simp

section \<open>Requests are sound\<close>

text \<open>What the loop relies on of its surroundings: the model answers as the assistant, and the snapshot is a plain message of
  the user.\<close>

definition well_behaved :: "loop_env \<Rightarrow> bool" where
  "well_behaved env \<longleftrightarrow>
     (\<forall>n ms b r. en_complete env n ms b = Inr r \<longrightarrow> msg_role (rs_message r) = Role_Assistant)
     \<and> is_user (en_snapshot env) \<and> call_ids (en_snapshot env) = []"

definition context_sound :: "agent_context \<Rightarrow> bool" where
  "context_sound cx \<longleftrightarrow> cx_max_turns cx = None \<and> tokens_counted cx \<and> paired (cx_messages cx) \<and> calls_by_assistant (cx_messages cx)"

definition state_sound :: "loop_state \<Rightarrow> bool" where
  "state_sound st \<longleftrightarrow> context_sound (ls_context st) \<and> (\<forall>ms b. Asked ms b \<in> set (ls_trace st) \<longrightarrow> paired ms)"

lemma add_batch_sound:
  assumes "context_sound cx" "balanced ms"
  shows "context_sound (add_batch now ms cx)"
  using assms add_batch_paired [of cx ms now] add_batch_counted [of cx now ms] same_settingsD(8) [OF add_batch_settings]
  by (simp add: context_sound_def)

lemma add_message_sound: "context_sound cx \<Longrightarrow> \<not> is_tool m \<Longrightarrow> call_ids m = [] \<Longrightarrow> context_sound (add_message now m cx)"
  by (simp add: add_message_batch add_batch_sound answered_single)

lemma batch_balanced:
  assumes "msg_role m = Role_Assistant" "map fst rs = map tc_id calls"
  shows "balanced (with_tool_calls m calls # map (\<lambda>(i, body). message_tool body i) rs)"
proof -
  let ?ids = "map tc_id calls" and ?tools = "map (\<lambda>(i, body). message_tool body i) rs"
  have tool: "is_tool (message_tool body i)" "msg_tool_call_id (message_tool body i) = Some i" "call_ids (message_tool body i) = []" for body i
    by (simp_all add: message_tool_def plain_message_def is_tool_def call_ids_def)
  have head: "\<not> is_tool (with_tool_calls m calls)" "call_ids (with_tool_calls m calls) = ?ids"
    "msg_role (with_tool_calls m calls) = Role_Assistant"
    using assms(1) by (simp_all add: with_tool_calls_def is_tool_def call_ids_def)
  have results: "takeWhile is_tool ?tools = ?tools" by (auto simp: tool takeWhile_eq_all_conv)
  have "paired_from ids (map (\<lambda>(i, body). message_tool body i) xs)" if "set (map fst xs) \<subseteq> set ids" for ids xs
    using that by (induction xs) (auto simp: tool answers_call_def)
  then have "paired_from ?ids ?tools" using assms(2) by (metis order_refl)
  moreover have "answered ?tools"
  proof -
    have "answered (map (\<lambda>(i, body). message_tool body i) xs)" for xs by (induction xs) (auto simp: tool)
    then show ?thesis .
  qed
  moreover have "\<exists>r\<in>set ?tools. msg_tool_call_id r = Some i" if i: "i \<in> set ?ids" for i
  proof -
    have "i \<in> fst ` set rs" using i assms(2) by (metis list.set_map)
    then show ?thesis by (auto simp: tool intro!: bexI)
  qed
  moreover have "calls_by_assistant (with_tool_calls m calls # ?tools)"
    using head(3) by (auto simp: calls_by_assistant_def list_all_iff tool)
  ultimately show ?thesis by (simp add: balanced_def head results)
qed

lemma refused_balanced:
  assumes "msg_role (rs_message r) = Role_Assistant"
  shows "balanced (not_executed_batch body r calls)"
  using batch_balanced [OF assms, of "map (\<lambda>c. (tc_id c, body)) calls" calls] by (simp add: not_executed_batch_def comp_def)

lemma request_paired:
  assumes "paired (cx_messages cx)" "is_user snapshot"
  shows "paired (to_messages snapshot cx)"
proof -
  have "\<not> is_tool snapshot" using assms(2) by (simp add: is_tool_def is_user_def)
  then show ?thesis using assms(1) paired_append [of "[snapshot]" "[]" "cx_messages cx"]
    by (simp add: to_messages_def)
qed

lemma compaction_sound: "context_sound cx \<Longrightarrow> context_sound (fst (compact_context_forced now model cx))"
  using compacted_paired [OF forced_compacted [of cx model now]] forced_counted [of cx now model]
    same_settingsD(8) [OF forced_settings [of now model cx]]
  by (simp add: context_sound_def)

lemma sound_on_context: "state_sound st \<Longrightarrow> (context_sound (ls_context st) \<Longrightarrow> context_sound (f (ls_context st))) \<Longrightarrow> state_sound (on_context f st)"
  by (simp add: state_sound_def)

lemma sound_compacted: "state_sound st \<Longrightarrow> state_sound (compact_forced env st)"
  by (simp add: state_sound_def compact_forced_def compaction_sound)

lemma sound_counted: "state_sound st \<Longrightarrow> state_sound (st\<lparr>ls_context := snd (increment_tool_iteration (ls_context st))\<rparr>)"
  by (simp add: state_sound_def context_sound_def tokens_counted_def increment_tool_iteration_def Let_def)

lemma loop_rule:
  assumes "agent_loop env frames st = (res, st')" "P st"
    and "\<And>st out st'. P st \<Longrightarrow> ordinary_round env st = (out, st') \<Longrightarrow> P st'" "\<And>st. P st \<Longrightarrow> P (nudge env st)"
  shows "P st'"
  using assms
proof (induction env frames st arbitrary: res st' rule: agent_loop.induct)
  case (1 env frames st)
  obtain out st1 where round: "ordinary_round env st = (out, st1)" by (cases "ordinary_round env st")
  note p1 = "1.prems"(3) [OF "1.prems"(2) round]
  show ?case
  proof (cases out)
    case (Round_Reply r)
    show ?thesis
    proof (cases "return_reply r frames")
      case (Some frames')
      then have "agent_loop env frames' (nudge env st1) = (res, st')"
        using "1.prems"(1) round Round_Reply by (subst (asm) agent_loop.simps) simp
      then show ?thesis using "1.IH"(1) [OF round [symmetric] Round_Reply Some] "1.prems"(3,4) p1 by blast
    qed (use "1.prems"(1) round Round_Reply p1 in \<open>subst (asm) agent_loop.simps, simp\<close>)
  next
    case Round_Again
    then have "agent_loop env (False # frames) st1 = (res, st')"
      using "1.prems"(1) round by (subst (asm) agent_loop.simps) simp
    then show ?thesis using "1.IH"(2) [OF round [symmetric] Round_Again] "1.prems"(3,4) p1 by blast
  qed (use "1.prems"(1) round p1 in \<open>subst (asm) agent_loop.simps, simp\<close>)
qed

context loop_invariant
begin

lemma completion_inv:
  assumes "get_completion env st = (res, st')" "inv st"
  shows "inv st'"
  using assms(1) [unfolded get_completion_def] assms(2)
  by (rule loop_rule) (auto intro: round_inv user_text simp: nudge_def)

end

interpretation sound: loop_invariant env "\<lambda>st. well_behaved env \<longrightarrow> state_sound st" for env
proof (unfold_locales, safe)
  fix st offer assume "well_behaved env" "state_sound st"
  then show "state_sound (log_event (Asked (request_messages env st) offer) st)"
    by (auto simp: state_sound_def context_sound_def request_messages_def well_behaved_def request_paired)
next
  fix st n ms b r todo calls results st2 and results' :: "(string \<times> string) list"
  assume wb: "well_behaved env" and s: "state_sound st" and r: "en_complete env n ms b = Inr r"
    and run: "run_calls env (filtered_calls env (snd (increment_tool_iteration (ls_context st))) calls)
        (st\<lparr>ls_context := snd (increment_tool_iteration (ls_context st))\<rparr>) = (results, st2)"
    and ids: "map fst results' = map fst results"
  note f = run_calls_frame [OF run]
  have "msg_role (rs_message r) = Role_Assistant" using wb r by (simp add: well_behaved_def)
  then have "balanced (result_batch r (filtered_calls env (snd (increment_tool_iteration (ls_context st))) calls) results')"
    unfolding result_batch_def using batch_balanced f ids by simp
  moreover have "context_sound (ls_context st2)"
    using s f by (simp add: state_sound_def context_sound_def tokens_counted_def same_limits_def increment_tool_iteration_def Let_def)
  moreover have "\<forall>ms b. Asked ms b \<in> set (ls_trace st2) \<longrightarrow> paired ms"
    using run_calls_asked [OF run] s by (auto simp: state_sound_def)
  ultimately show "state_sound (on_context (add_batch (en_now env)
      (result_batch r (filtered_calls env (snd (increment_tool_iteration (ls_context st))) calls) results')) st2)"
    by (simp add: state_sound_def add_batch_sound)
next
  fix st n ms b r body assume "well_behaved env" "state_sound st" "en_complete env n ms b = Inr r"
  then show "state_sound (on_context (add_message (en_now env) ((rs_message r)\<lparr>msg_content := body, msg_tool_calls := None\<rparr>)) st)"
    by (intro sound_on_context add_message_sound) (auto simp: well_behaved_def is_tool_def call_ids_def)
next
  fix st n ms b r assume "well_behaved env" "state_sound st" "en_complete env n ms b = Inr r" "call_ids (rs_message r) = []"
  then show "state_sound (on_context (add_message (en_now env) (rs_message r)) st)"
    by (intro sound_on_context add_message_sound) (auto simp: well_behaved_def is_tool_def)
next
  fix st n ms b r body calls assume "well_behaved env" "state_sound st" "en_complete env n ms b = Inr r"
  then show "state_sound (on_context (add_batch (en_now env) (not_executed_batch body r calls)) st)"
    by (intro sound_on_context add_batch_sound refused_balanced) (auto simp: well_behaved_def)
qed (simp_all add: sound_on_context add_message_sound sound_compacted sound_counted)

lemma run_turn_completion:
  assumes "run_turn env limit user_id body mentions th = (res, trace, th')"
  obtains st where "get_completion env (enter_turn env limit user_id body mentions (th_context th)) = (res, st)"
    "trace = ls_trace st" "th_context th' = ls_context st"
    "length (th_turns th') = Suc (length (th_turns th))" "map tn_index (th_turns th') = map tn_index (th_turns th) @ [length (th_turns th)]"
proof -
  obtain res1 st where c: "get_completion env (enter_turn env limit user_id body mentions (th_context th)) = (res1, st)"
    by (cases "get_completion env (enter_turn env limit user_id body mentions (th_context th))")
  have upd: "map tn_index ((ts @ [t])[length ts := u]) = map tn_index ts @ [tn_index u]" for ts t u by simp
  show thesis
  proof (rule that)
    show "get_completion env (enter_turn env limit user_id body mentions (th_context th)) = (res, st)"
      "trace = ls_trace st" "th_context th' = ls_context st" "length (th_turns th') = Suc (length (th_turns th))"
      "map tn_index (th_turns th') = map tn_index (th_turns th) @ [length (th_turns th)]"
      using assms c
      by (auto simp: run_turn_def push_turn_def Let_def update_turn_def turn_start_def turn_complete_def turn_mark_error_def
          new_turn_def split: sum.splits)
  qed
qed

lemma enter_turn_sound:
  assumes "context_sound cx"
  shows "state_sound (enter_turn env limit user_id body mentions cx)"
proof -
  have "context_sound (clear_tools_used (case limit of None \<Rightarrow> cx | Some n \<Rightarrow> set_max_tool_iterations n cx))"
    using assms by (simp add: context_sound_def clear_tools_used_def set_max_tool_iterations_def tokens_counted_def split: option.split)
  then show ?thesis by (simp add: state_sound_def enter_turn_def add_message_sound)
qed

lemma thread_context_sound: "thread_ok th \<Longrightarrow> cx_max_turns (th_context th) = None \<Longrightarrow> context_sound (th_context th)"
  by (simp add: thread_ok_def context_sound_def)


section \<open>Tools stay within the scope\<close>

definition runs_allowed :: "loop_state \<Rightarrow> bool" where
  "runs_allowed st \<longleftrightarrow>
     (\<forall>c. Ran c \<in> set (ls_trace st) \<longrightarrow> context_tool_allowed (cx_delegation (ls_context st)) (fc_name (tc_function c)))"

lemma allowed_same_limits:
  "runs_allowed st \<Longrightarrow> same_limits (ls_context st') (ls_context st) \<Longrightarrow> ls_trace st' = ls_trace st \<Longrightarrow> runs_allowed st'"
  by (simp add: runs_allowed_def same_limits_def)

lemma run_calls_ran:
  assumes "run_calls env cs st = (results, st')" "Ran c \<in> set (ls_trace st')"
  shows "Ran c \<in> set (ls_trace st) \<or> c \<in> set cs"
proof -
  have "set (ls_trace st') \<subseteq> set (ls_trace st) \<union> Ran ` set cs \<union> {e. \<not> is_asked e \<and> \<not> is_ran e}"
    using run_calls_frame [OF assms(1)] by blast
  then show ?thesis using assms(2) by auto
qed

interpretation scoped: loop_invariant env runs_allowed for env
proof
  fix st :: loop_state and n ms b r todo calls results st2 and results' :: "(string \<times> string) list"
  let ?cx1 = "snd (increment_tool_iteration (ls_context st))"
  assume s: "runs_allowed st" and todo: "todo = filtered_calls env ?cx1 calls"
    and run: "run_calls env todo (st\<lparr>ls_context := ?cx1\<rparr>) = (results, st2)"
  have del: "cx_delegation ?cx1 = cx_delegation (ls_context st)" by (simp add: increment_tool_iteration_def Let_def)
  have "same_limits (ls_context st2) ?cx1" using run_calls_frame [OF run] by simp
  then have del2: "cx_delegation (ls_context st2) = cx_delegation (ls_context st)" using del by (simp add: same_limits_def)
  have "runs_allowed st2"
    unfolding runs_allowed_def del2
  proof (intro allI impI)
    fix c assume "Ran c \<in> set (ls_trace st2)"
    then consider "Ran c \<in> set (ls_trace st)" | "c \<in> set todo" using run_calls_ran [OF run] by fastforce
    then show "context_tool_allowed (cx_delegation (ls_context st)) (fc_name (tc_function c))"
      using s del by cases (auto simp: runs_allowed_def todo filtered_calls_def)
  qed
  then show "runs_allowed (on_context (add_batch (en_now env) (result_batch r todo results')) st2)"
    by (rule allowed_same_limits) simp_all
next
  fix st offer assume "runs_allowed st"
  then show "runs_allowed (log_event (Asked (request_messages env st) offer) st)" by (simp add: runs_allowed_def)
next
  fix st :: loop_state assume "runs_allowed st"
  then show "runs_allowed (st\<lparr>ls_context := snd (increment_tool_iteration (ls_context st))\<rparr>)"
    by (simp add: runs_allowed_def increment_tool_iteration_def Let_def)
next
  fix st :: loop_state assume "runs_allowed st"
  then show "runs_allowed (compact_forced env st)" by (rule allowed_same_limits) (simp_all add: compact_forced_def)
qed (auto elim: allowed_same_limits)

lemma delegation_kept:
  assumes "get_completion env st = (res, st')"
  shows "cx_delegation (ls_context st') = cx_delegation (ls_context st)"
  using assms [unfolded get_completion_def] refl
proof (rule loop_rule [where P = "\<lambda>s. cx_delegation (ls_context s) = cx_delegation (ls_context st)"])
  fix s out s' assume "cx_delegation (ls_context s) = cx_delegation (ls_context st)" "ordinary_round env s = (out, s')"
  then show "cx_delegation (ls_context s') = cx_delegation (ls_context st)"
    using round_frame [of env s out s'] by (simp add: round_cost_def)
qed (use nudge_frame(4) in \<open>simp add: same_limits_def\<close>)


section \<open>Witnesses\<close>

text \<open>A model that calls a tool once and then answers.\<close>

definition sample_response :: "message \<Rightarrow> response" where
  "sample_response m = \<lparr>rs_message = m, rs_model = ''m'', rs_finish_reason = None\<rparr>"

definition sample_loop_env :: loop_env where
  "sample_loop_env =
     \<lparr>en_now = 1, en_snapshot = message_user ''today'', en_has_tools = (\<lambda>_. True), en_exceeded = (\<lambda>_. False),
      en_complete = (\<lambda>n _ _. Inr (sample_response (if n = 0 then sample_asking [''1''] else message_assistant ''ok''))),
      en_compaction_model = None, en_max_concurrent_tools = 2, en_execute = (\<lambda>_ _. Tool_Result True ''out''),
      en_notices = (\<lambda>_. []), en_steers = (\<lambda>_. []), en_halt = (\<lambda>_. None), en_empty_reply_nudge = ''nudge'',
      en_markup_nudge = ''nudge''\<rparr>"

definition fresh_thread :: conv_thread where
  "fresh_thread = thread_from_context 0 ''t'' ''l'' (new_context 0 ''t'' ''p'' 100)"

lemma sample_env_behaves: "well_behaved sample_loop_env"
  by (simp add: well_behaved_def sample_loop_env_def sample_response_def) (simp add: sample_messages)

lemma fresh_thread_ok: "thread_ok fresh_thread" "cx_max_turns (th_context fresh_thread) = None"
  by (simp_all add: fresh_thread_def thread_from_context_def new_context_def thread_ok_def numbered_def tokens_counted_def
      calls_by_assistant_def)

theorem turn_effort_bounded_witness:
  "requests (snd (get_completion sample_loop_env (enter_turn sample_loop_env None ''u'' ''hi'' None (th_context fresh_thread)))) \<le> 80"
proof -
  let ?st = "enter_turn sample_loop_env None ''u'' ''hi'' None (th_context fresh_thread)"
  have "same_limits (ls_context ?st) (new_context 0 ''t'' ''p'' 100)"
    unfolding enter_turn_def using same_limits_trans [OF same_limits_simps(2)]
    by (simp add: same_limits_def fresh_thread_def thread_from_context_def clear_tools_used_def)
  then have "rounds_left ?st = 9" by (simp add: rounds_left_def same_limits_def new_context_def default_max_tool_iterations_def)
  moreover have "requests ?st = 0" by (simp add: requests_def enter_turn_def)
  ultimately show ?thesis
    using turn_effort_bounded [of sample_loop_env ?st "fst (get_completion sample_loop_env ?st)" "snd (get_completion sample_loop_env ?st)"]
    by simp
qed


lemma sample_turn_runs_tool:
  "Ran (sample_call ''1'') \<in> set (fst (snd (run_turn sample_loop_env None ''u'' ''hi'' None fresh_thread)))"
  by code_simp


section \<open>Departures from the documentation\<close>

text \<open>The counter of tool rounds is never reset. Once it has reached its limit, no later turn of the conversation runs a
  tool.\<close>

definition left_of :: "agent_context \<Rightarrow> nat" where
  "left_of cx = cx_max_tool_iterations cx - 1 - cx_tool_iterations cx"

fun run_turns ::
  "(loop_env \<times> string \<times> string \<times> string option) list \<Rightarrow> conv_thread \<Rightarrow> loop_event list \<times> conv_thread" where
  "run_turns [] th = ([], th)"
| "run_turns ((env, user_id, body, mentions) # turns) th =
     (case run_turn env None user_id body mentions th of
        (_, trace, th1) \<Rightarrow> (case run_turns turns th1 of (rest, th2) \<Rightarrow> (trace @ rest, th2)))"

lemma spent_turn:
  assumes "run_turn env None user_id body mentions th = (res, trace, th')" "left_of (th_context th) = 0"
  shows "filter is_ran trace = [] \<and> left_of (th_context th') = 0"
proof -
  let ?st = "enter_turn env None user_id body mentions (th_context th)"
  obtain st where st: "get_completion env ?st = (res, st)" "trace = ls_trace st" "th_context th' = ls_context st"
    using run_turn_completion [OF assms(1)] by blast
  have "same_limits (ls_context ?st) (clear_tools_used (th_context th))" by (simp add: enter_turn_def)
  then have "rounds_left ?st = 0"
    using assms(2) by (simp add: rounds_left_def left_of_def same_limits_def clear_tools_used_def)
  moreover have "tool_runs ?st = 0" by (simp add: tool_runs_def enter_turn_def)
  ultimately have "tool_runs st = 0" "rounds_left st = 0"
    using rounds_cost [OF st(1) [unfolded get_completion_def]] by simp_all
  then show ?thesis using st(2,3) by (simp add: tool_runs_def rounds_left_def left_of_def)
qed

lemma spent_conversation_runs_no_tools:
  "left_of (th_context th) = 0 \<Longrightarrow> filter is_ran (fst (run_turns turns th)) = []"
proof (induction turns arbitrary: th)
  case (Cons t turns)
  obtain env user_id body mentions where t: "t = (env, user_id, body, mentions)" by (cases t) auto
  obtain res trace th1 where r: "run_turn env None user_id body mentions th = (res, trace, th1)"
    by (cases "run_turn env None user_id body mentions th") auto
  show ?case using Cons.IH [of th1] spent_turn [OF r Cons.prems] r t by (auto split: prod.split)
qed simp

text \<open>Two equal calls in one batch both run: the duplicates are looked up before any of them is recorded.\<close>

lemma equal_calls_of_a_batch_both_run:
  "filtered_calls sample_loop_env (new_context 0 ''t'' ''p'' 100) [sample_call ''1'', sample_call ''2''] =
     [sample_call ''1'', sample_call ''2'']"
  "tc_function (sample_call ''1'') = tc_function (sample_call ''2'')"
  by (simp_all add: filtered_calls_def sample_loop_env_def new_context_def is_tool_call_duplicate_def context_tool_allowed_def
      sample_call_def)

text \<open>A write that reports a failure forgets the executed calls just as one that succeeds.\<close>

lemma failed_write_forgets_calls:
  assumes "en_execute env (n_events (on_context (record_tool_call nm args) st)) \<lparr>fc_name = nm, fc_arguments = args\<rparr> = Tool_Result False body"
    and "tool_mutates_filesystem nm" "tc_function c = \<lparr>fc_name = nm, fc_arguments = args\<rparr>"
  shows "cx_executed_tool_calls (ls_context (snd (run_tool_call env c st))) = []"
  using assms by (simp add: run_tool_call_def Let_def clear_executed_tool_calls_def)

end
