(* ===== verification/Spec2Isabelle.thy ===== *)
theory Spec2Isabelle
  imports Sliding_Window Dag_Scheduler Delegation_Tool Agent_Budget Security_Hooks Shell_Tool File_Tools
    Inbound_Debounce Target_Lock Channel_Gate Gateway_Access Model_Router Agent_Loop
begin

text \<open>
  A verification library for syscity, an assistant that runs language-model agents with tools.

  \<^bold>\<open>The program.\<close> A model proposes tool calls. The tool registry looks the tool up, asks the policy
  gate, runs the tool, and finishes the result before the model sees it. The gate combines the
  permission engine (modes, allow, ask and deny rules), the hooks of the operator, the guardian (a second model
  that reviews) and the capabilities the tool declares; its answer is to run, to refuse, or to put the
  call into the approval queue, where a person answers through the gateway. Independent of this, the
  gateway limits the rate of requests, and the planner orders the tasks of a goal by their dependencies.

  An agent can delegate: the delegate tool starts a child agent in the subagent registry, records its
  task in the delegation store, and gives it a scope that limits depth and tools. The child shares data
  with its siblings through the task state tool and may hand its task over to a successor, which the
  coordinator starts when the child has ended. The end of a child wakes the session of its parent. What
  an agent may spend is limited by the iteration budget, an atomic counter, and by the cost guard.

  Two hooks are built in: shell safety sorts the segments of a command into tiers, and the sandbox
  interceptor tests commands, paths, domains and addresses against lists. The shell tool runs a command
  inside a write fence and may ask a person to run it again without; the file tools read and write
  under a guard that demands a fresh look before a file is overwritten. Tools that drive a desktop or a
  phone take a lease of their target, within the process and, by lock files, between processes.

  Clients reach the assistant in two ways. A message from a channel passes the access check (blocklist,
  policy for direct messages with pairing, mentions, command levels), which writes every decision to the
  audit log, and then a debouncer that collects the messages of one sender into a batch. A web-socket
  client passes the origin check, shows a credential (ticket, session, shared token), completes a
  handshake that grants scopes, and then calls methods, each of which needs a scope; events flow back
  to the connections that may see them.

  \<^bold>\<open>Theories and sources.\<close> Each theory models one part, with the definitions in the order of the
  source file; the paths are under \<open>src/src\<close>.

  \<^item> \<open>Prelude\<close>: the string functions of the Rust library that the code uses (\<open>trim\<close>, \<open>split\<close>,
    \<open>starts_with\<close>, lossy lower case, paths), hash maps as association lists with distinct keys
    (\<open>hm_ok\<close>), JSON values, and the shared lemma collections.
  \<^item> \<open>Command_Chain\<close> (\<open>tools/command_chain.rs\<close>): the quote-aware splitter of compound shell commands,
    \<open>split_command_chain\<close>, and the segments a rule is matched against.
  \<^item> \<open>Glob_Match\<close> (\<open>hooks/matcher.rs\<close> and the glob of the rules): star globs and their denotation.
  \<^item> \<open>Permissions\<close> (\<open>tools/permissions.rs\<close>, \<open>tools/escalation.rs\<close>,
    \<open>gateway/ws/admin_ws/approvals.rs\<close>): \<open>PermissionEngine::evaluate\<close> with modes, session overrides and
    reload, the rules that an approval remembers, and the handler that persists them.
  \<^item> \<open>Approval_Queue\<close> (\<open>tools/approval.rs\<close> and the handlers of \<open>approvals.rs\<close>): requests, answers,
    the sweep of stale requests and cancellation. A response channel is a number, and the log of
    answers is part of the state.
  \<^item> \<open>Tool_Types\<close> (\<open>tools/types.rs\<close>, \<open>tools/util.rs\<close>, \<open>tools/sdk.rs\<close>, \<open>tools/ask_user.rs\<close>): results,
    streams, capabilities, the workspace fence of paths and commands, and the test whether a person can be
    asked. The file system is the parameter \<open>canonicalize\<close>.
  \<^item> \<open>Tool_Hooks\<close> (\<open>tools/hooks.rs\<close>): policy, before, after and post-execute chains. A hook is a
    function; a panic is a value.
  \<^item> \<open>Tool_Tiering\<close> (\<open>tools/tiering.rs\<close>): groups of tools hidden until they are opened.
  \<^item> \<open>Tool_Spill\<close> (\<open>tools/spill.rs\<close>): truncation of long outputs and their spilling to files. Byte strings
    stand for UTF-8 text where an index counts bytes.
  \<^item> \<open>Tool_Registry\<close> (\<open>tools/registry.rs\<close>, tables): registration, the circuit breaker, the cache, and which
    tools are advertised.
  \<^item> \<open>Tool_Gate\<close> (\<open>tools/registry.rs\<close>, execution): \<open>run_gate\<close>, \<open>execute\<close>, \<open>execute_call\<close>,
    \<open>execute_call_streaming\<close> and the finishing of results. Tools, hooks, guardian, content filter and the
    person are parameters; each step appends to a trace of effects, so that \<open>the tool body ran\<close> is an
    entry of the trace.
  \<^item> \<open>Sliding_Window\<close> (\<open>security/sliding_window.rs\<close>): the rate limiter with lockout. The readings of the
    clock are arguments, in nanoseconds.
  \<^item> \<open>Dag_Scheduler\<close> (\<open>planner/mod.rs\<close>, \<open>planner/dag.rs\<close>): plans, validation and topological order. The
    iteration order of hash maps is a parameter.
  \<^item> \<open>Subagent_Registry\<close> (\<open>agent/subagent_registry.rs\<close>): the table of runs, its limits and metrics, killing,
    cleanup and crash records. The tasks that were launched and have not reported yet are part of the
    state of the step relation.
  \<^item> \<open>Delegation_Scope\<close> (\<open>delegation/scope.rs\<close>, scopes in \<open>tools/delegate_tool.rs\<close>,
    \<open>delegation/coordinator.rs\<close> and \<open>agent/context.rs\<close>): which tools a scope allows and which scope a child
    and a successor get.
  \<^item> \<open>Delegation_Store\<close> (\<open>delegation/state.rs\<close>, \<open>delegation/task_state_tool.rs\<close>): the tables of tasks,
    events and artifacts as lists in insertion order, the walk to the root session, and the tool.
  \<^item> \<open>Delegation_Wake\<close> (\<open>delegation/wake.rs\<close>): the dispatcher that batches the results of children per
    session; its critical sections are the steps of the relation.
  \<^item> \<open>Delegation_Tool\<close> (\<open>tools/delegate_tool.rs\<close>, \<open>delegation/coordinator.rs\<close>): the tracker, spawning,
    waiting, cancelling, the end of a child and the handoff. The response of the child is a parameter.
  \<^item> \<open>Agent_Budget\<close> (\<open>agent/budget.rs\<close>, \<open>agent/cost_guard.rs\<close>): the shared counter with its
    compare-and-exchange loop, one memory access per step, and the guard on spending.
  \<^item> \<open>Shell_Safety\<close> (\<open>tools/shell_safety.rs\<close>): safe binaries, patterns, tiers and the policy hook.
  \<^item> \<open>Sandbox_Interceptor\<close> (\<open>tools/sandbox_interceptor.rs\<close>): the lists, the extraction of commands,
    paths, domains and addresses from arguments, and address ranges on 32 and 128 bit words.
  \<^item> \<open>Security_Hooks\<close> (\<open>with_security_hooks\<close> of \<open>gateway/init/tools.rs\<close>): the two hooks in the gate.
  \<^item> \<open>Shell_Tool\<close> (\<open>tools/shell.rs\<close>, requests of \<open>tools/process_runner/mod.rs\<close>, the rerun of
    \<open>tools/escalation.rs\<close>): the tool up to the requests it hands to the process runner, which is a
    parameter; the list of requests is part of the state.
  \<^item> \<open>File_Tools\<close> (\<open>tools/file.rs\<close>, \<open>tools/write_guard.rs\<close>): read, write, edit and search on a disk that
    maps paths to nodes, and the step relation of many conversations and other processes on one disk.
  \<^item> \<open>Inbound_Debounce\<close> (\<open>inbound/debounce.rs\<close>): buffers, eviction and timers; the critical sections of
    the calls and of the timer tasks are the steps.

  \<^item> \<open>Target_Lock\<close> (\<open>tools/file_lock.rs\<close>, \<open>tools/target_lock.rs\<close>, keys and callers of
    \<open>computer/platform/android\<close>): lock files with their polling loop, leases of targets by tasks of
    several processes as a step relation, and leases of apps with their counters.
  \<^item> \<open>Access_Allowlist\<close> (\<open>security/allowlist.rs\<close>): match sources, wildcards, entries and the two caches.
  \<^item> \<open>Pairing_Store\<close> (\<open>security/pairing.rs\<close>): requests, codes, authorised users and the sweep; codes are
    arguments.
  \<^item> \<open>Audit_Log\<close> (\<open>security/runtime_audit.rs\<close>, \<open>security/persistent_audit.rs\<close>): the ring buffer and the
    log with a table, whose writes may fail.
  \<^item> \<open>Channel_Gate\<close> (\<open>security/mention_gate.rs\<close>, \<open>tools/command_gate.rs\<close>, \<open>ChannelConfig\<close> of
    \<open>gateway/config.rs\<close>, \<open>check_incoming_access\<close> of \<open>gateway/mod.rs\<close>): the check of a message from a channel
    and sequences of messages.
  \<^item> \<open>Device_Pairing\<close> (\<open>security/device_pairing.rs\<close>, devices of \<open>security/auth_store.rs\<close>): requests, approval,
    revocation, tokens and restarts. Digests are a parameter.
  \<^item> \<open>Auth_Sessions\<close> (\<open>AuthManager\<close> of \<open>security/mod.rs\<close>, sessions of \<open>security/auth_store.rs\<close>): sessions as
    a write-through cache over rows.
  \<^item> \<open>Gateway_Protocol\<close> (\<open>gateway/protocol.rs\<close>, audiences and the sending task of \<open>gateway/ws/core.rs\<close>): the
    scopes, the table of all methods, connections and events.
  \<^item> \<open>Ws_Entry\<close> (\<open>gateway/auth/ws_origin.rs\<close>, \<open>gateway/ws/tickets.rs\<close>, the cap of \<open>gateway/ws/core.rs\<close>): the
    origin check, tickets, and the counter of connections, one access per step.
  \<^item> \<open>Gateway_Access\<close> (\<open>gateway/middleware.rs\<close>, \<open>gateway/handlers/ws_ticket.rs\<close>, \<open>gateway/ws/core.rs\<close>,
    \<open>gateway/ws/handshake.rs\<close>): the way of a client from the upgrade to the handlers, which are a parameter,
    and the frame limiter, in exact arithmetic.

  \<^bold>\<open>Interfaces.\<close> What one part relies on of another is a locale, interpreted on the model:
  \<open>rule_language\<close> and \<open>chain_language\<close> (what the permission engine needs of splitter and matcher; \<open>perm\<close>),
  \<open>failure_counter\<close> (the circuit breaker; \<open>breaker\<close>), \<open>guarded_runner\<close> (a server that only runs what its
  gate authorised, lifted to sessions; \<open>session\<close>), \<open>expiring_queue\<close> (a queue of time stamps that
  forgets only what left the window; \<open>requests\<close> and \<open>failures\<close>), \<open>denying_hook\<close> (a policy hook that
  refuses a class of calls; \<open>shell_guard\<close> and \<open>sandbox_guard\<close>), and \<open>ticket_office\<close> (what the gateway
  relies on when it hands a credential over; \<open>ws_office\<close>).

  \<^bold>\<open>What is shown.\<close>

  \<^item> Authorisation: over any session of calls through the three entry points a tool body runs only for a
    call that the gate allowed or a person approved; a deny rule stops every path and cannot be laundered
    through a compound command; an allow rule that pre-approves a compound command covers all of it; an
    escalation is not silenced by allow rules; without a person to ask the gate fails closed; the exact
    condition under which the gate lets a call through.
  \<^item> Approvals: under every interleaving each request is answered at most once; the sweep denies exactly the
    stale requests; an approval that is remembered is honoured by the engine afterwards.
  \<^item> Results: a result confiscated by a hook does not influence what the caller gets; hooks that panic
    fail closed; truncation and spilling keep their byte budgets; a spilled file lies in its directory and is
    recognised when it is read back.
  \<^item> Registry: what is advertised is live and permitted; the breaker opens after three failures in a row.
  \<^item> Rate limiter: no window holds more admitted requests than the limit, the sweep is invisible, a lockout
    is enforced.
  \<^item> Planner: the scheduler accepts exactly the acyclic plans with closed dependencies, never underflows a
    counter, orders each task after its dependencies, and an accepted plan always has a ready task until it
    is complete.
  \<^item> Delegation: scopes stay within the depth limit and no chain of delegations is infinite; the
    registry keeps its limits; rows of the store are never lost and a child changes only its own; the
    dispatcher refines a mailbox per session, loses, duplicates and reorders nothing, and draining ends;
    the end of a child leaves tracker, registry and store in agreement; with one lock a handoff gets at
    most one successor, and with the two locks the code creates it can get two.
  \<^item> Budgets: under every interleaving the counter is never overspent and every consumer returns; the cost
    guard admits a call only below its limits.
  \<^item> Built-in hooks: which commands the tiers sort where, exactly; which calls the interceptor lets pass,
    exactly; with the hooks composed in a dangerous command is denied at every entry point.
  \<^item> Shell: a command runs outside its fence only after a person approved that call.
  \<^item> Files: whatever happened before, a conversation changes a file only from the text it last saw there;
    a call changes nothing but the named path, its backup and its directories; an edit replaces every match;
    what is written is read back.
  \<^item> Debouncer: in every interleaving a message is delivered at most as often as it came; without
    overlapping calls nothing is lost and the timers come to rest with everything delivered. With
    overlapping calls a message can be lost.
  \<^item> Locks: no two tasks of one process and no two process-wide leases hold one target at once; waiting
    returns within its timeout; with the documented order of calls an app lease that is not stale was
    taken for the screen that is there.
  \<^item> Channels: a message passes exactly when all rules admit it; a user is authorised exactly by a grant of
    the owner that was not revoked, and no message changes that; codes work once; the audit log holds
    exactly the latest decisions, and the table the written ones.
  \<^item> Credentials: device tokens and sessions are accepted exactly while they are granted, across caches
    and restarts; tickets are used once, within thirty seconds, for what they were issued for.
  \<^item> Gateway: over the whole life of a connection a handler runs only within the scopes its credentials
    confer; an upgrade needs a credential; foreign origins are refused on a loopback bind; events that need a
    scope stay private and events are numbered without gaps; frames keep their rate and connections
    their cap.
  \<^item> Where the code departs from its documentation or intent, the behaviour of the code is the theorem, for
    instance that a new path with parent steps passes the workspace fence, that the error text of a result
    is not filtered, that a retry after the announced time is denied, that naming a paired device is
    enough to connect as it, and that the shared token ends up in an audit log that readers may read.

  \<^bold>\<open>Bounds.\<close> No definition needs fuel. The scanning loops are structural, and Kahn's loop and the
  truncation loops have termination measures. Counters of 32 bits are words; \<open>usize\<close> lengths are natural
  numbers, and a decrement below zero is an error value. Time is an unbounded integer.

  \<^bold>\<open>Not modelled.\<close> Input and output (channels, HTTP and web sockets, terminal, browser and desktop control),
  calls to model providers, persistence formats, logging and metrics, and locking: each operation runs
  atomically, and interleavings are sequences of operations; where the code drops a lock between two parts
  of an operation the parts are separate steps. Errors of the database behind the delegation store are
  left out. Digests of tokens, random names and codes, and the decoding of URLs are parameters.

  \<^bold>\<open>Plan.\<close> Next come the prompt and outbound queues, the router's choice of credentials, the cron
  schedules, the address checks of the other middlewares, and the content filter, in this order.
\<close>

end
